(* ===== verification/Prelude.thy ===== *)
theory Prelude
  imports Main "HOL-Library.Word" "HOL-Library.List_Lexorder" "HOL-Library.Monad_Syntax"
    "HOL-Library.AList"
begin

section \<open>Shared types, byte codecs and association maps\<close>

text \<open>
  The vocabulary every component shares.

  \<^item> Machine integers keep their width (\<open>u8\<close>, \<open>u32\<close>, \<open>u64\<close>, \<open>u128\<close>); a \<^verbatim>\<open>Vec<u8>\<close> or
    \<^verbatim>\<open>&[u8]\<close> is a list of bytes.
  \<^item> \<open>be_bytes\<close> / \<open>be_val\<close> are the big-endian fixed-width codecs behind Rust's
    \<^verbatim>\<open>to_be_bytes\<close> and \<^verbatim>\<open>from_be_bytes\<close>.
  \<^item> \<open>split_at\<close> is \<^verbatim>\<open>bytes.get(..n)?\<close> together with the rest of the slice: every decoder of
    the program walks a slice with a cursor, and the model carries the suffix at the cursor.
  \<^item> A \<^verbatim>\<open>HashMap\<close> (or \<^verbatim>\<open>IndexMap\<close>) is an association list with distinct keys; \<open>hm_get\<close>,
    \<open>hm_insert\<close>, \<open>hm_or_insert\<close> and \<open>hm_extend\<close> are the operations the code uses.
  \<^item> A computation that may panic, or that may exhaust the recursion fuel of a model, returns
    an \<open>option\<close>: \<open>None\<close> is "does not return normally".
\<close>

unbundle bit_operations_syntax

type_synonym u8 = "8 word"
type_synonym u32 = "32 word"
type_synonym u64 = "64 word"
type_synonym u128 = "128 word"
type_synonym i32 = "32 word"
type_synonym i64 = "64 word"
type_synonym bytes = "u8 list"

type_synonym ('k, 'v) hashmap = "('k \<times> 'v) list"

named_theorems codec_simps \<open>round trips of the byte codecs\<close>
named_theorems eval_simps \<open>unfoldings that evaluate closed byte terms\<close>
named_theorems hm_simps \<open>lookups after updates of association maps\<close>

subsection \<open>Big-endian integers\<close>

primrec be_bytes :: "nat \<Rightarrow> nat \<Rightarrow> bytes" where
  "be_bytes 0 x = []"
| "be_bytes (Suc n) x = be_bytes n (x div 256) @ [of_nat x]"

definition be_val :: "bytes \<Rightarrow> nat" where
  "be_val bs = foldl (\<lambda>acc b. acc * 256 + unat b) 0 bs"

definition u32_be :: "nat \<Rightarrow> bytes" where
  "u32_be n = be_bytes 4 (n mod 2 ^ 32)"

lemma be_bytes_numeral [eval_simps]:
  "be_bytes (numeral k) x = be_bytes (pred_numeral k) (x div 256) @ [of_nat x]"
  using be_bytes.simps(2) [of "pred_numeral k" x] by (simp flip: numeral_eq_Suc)

lemmas be_val_eval [eval_simps] = be_val_def

lemma length_be_bytes [simp]: "length (be_bytes n x) = n"
  by (induction n arbitrary: x) auto

lemma be_val_Nil [simp]: "be_val [] = 0"
  by (simp add: be_val_def)

lemma be_val_snoc [simp]: "be_val (bs @ [b]) = be_val bs * 256 + unat b"
  by (simp add: be_val_def)

lemma unat_of_nat_u8: "unat (of_nat x :: u8) = x mod 256"
  by (simp add: unat_of_nat)

lemma be_val_be_bytes [codec_simps]: "be_val (be_bytes n x) = x mod 256 ^ n"
proof (induction n arbitrary: x)
  case 0
  then show ?case by simp
next
  case (Suc n)
  have "be_val (be_bytes (Suc n) x) = (x div 256 mod 256 ^ n) * 256 + x mod 256"
    by (simp add: Suc.IH unat_of_nat_u8)
  also have "\<dots> = x mod 256 ^ Suc n"
    by (simp add: mod_mult2_eq mult.commute)
  finally show ?case .
qed

lemma be_val_less: "be_val bs < 256 ^ length bs"
proof (induction bs rule: rev_induct)
  case Nil
  then show ?case by simp
next
  case (snoc b bs)
  have "unat b < 256" using unsigned_less [of b] by simp
  with snoc have "be_val bs * 256 + unat b < (be_val bs + 1) * 256" by simp
  also have "\<dots> \<le> 256 ^ length bs * 256" using snoc by simp
  finally show ?case by simp
qed

lemma be_bytes_be_val [codec_simps]: "length bs = n \<Longrightarrow> be_bytes n (be_val bs) = bs"
proof (induction bs arbitrary: n rule: rev_induct)
  case Nil
  then show ?case by simp
next
  case (snoc b bs)
  have b: "unat b < 256" using unsigned_less [of b] by simp
  then have "(be_val bs * 256 + unat b) div 256 = be_val bs" by simp
  moreover have "(of_nat (be_val bs * 256 + unat b) :: u8) = b"
  proof (rule word_unat_eq_iff [THEN iffD2])
    show "unat (of_nat (be_val bs * 256 + unat b) :: u8) = unat b"
      using b by (simp only: unat_of_nat_u8) simp
  qed
  ultimately show ?case using snoc by auto
qed

lemma be_bytes_inj:
  assumes "be_bytes n x = be_bytes n y" "x < 256 ^ n" "y < 256 ^ n"
  shows "x = y"
proof -
  from assms(1) have "be_val (be_bytes n x) = be_val (be_bytes n y)" by simp
  with assms(2,3) show ?thesis by (simp add: be_val_be_bytes)
qed

lemma length_u32_be [simp]: "length (u32_be n) = 4"
  by (simp add: u32_be_def)

lemma be_val_u32_be [codec_simps]: "be_val (u32_be n) = n mod 2 ^ 32"
  by (simp add: u32_be_def be_val_be_bytes)

subsection \<open>Walking a slice\<close>

definition split_at :: "nat \<Rightarrow> bytes \<Rightarrow> (bytes \<times> bytes) option" where
  "split_at n bs = (if n \<le> length bs then Some (take n bs, drop n bs) else None)"

lemmas split_at_eval [eval_simps] = split_at_def

definition read_u32 :: "bytes \<Rightarrow> (nat \<times> bytes) option" where
  "read_u32 bs = do { (b, rest) \<leftarrow> split_at 4 bs; Some (be_val b, rest) }"

lemmas u32_eval [eval_simps] = u32_be_def read_u32_def

lemma split_at_append [codec_simps]: "length xs = n \<Longrightarrow> split_at n (xs @ ys) = Some (xs, ys)"
  by (simp add: split_at_def)

lemma split_at_SomeD: "split_at n bs = Some (xs, ys) \<Longrightarrow> bs = xs @ ys \<and> length xs = n"
  by (auto simp: split_at_def split: if_splits)

lemma read_u32_be [codec_simps]: "n < 2 ^ 32 \<Longrightarrow> read_u32 (u32_be n @ bs) = Some (n, bs)"
  by (simp add: read_u32_def codec_simps)

lemma read_u32_SomeD: "read_u32 bs = Some (n, rest) \<Longrightarrow> length bs = 4 + length rest"
  by (auto simp: read_u32_def split: option.splits bind_splits dest!: split_at_SomeD)

subsection \<open>Running a list of fallible computations\<close>

primrec mapM :: "('a \<Rightarrow> 'b option) \<Rightarrow> 'a list \<Rightarrow> 'b list option" where
  "mapM f [] = Some []"
| "mapM f (x # xs) = do { y \<leftarrow> f x; ys \<leftarrow> mapM f xs; Some (y # ys) }"

lemma mapM_cong [fundef_cong]:
  "xs = ys \<Longrightarrow> (\<And>x. x \<in> set ys \<Longrightarrow> f x = g x) \<Longrightarrow> mapM f xs = mapM g ys"
  by (induction xs arbitrary: ys) (auto split: bind_splits)

lemma mapM_Some: "(\<And>x. x \<in> set xs \<Longrightarrow> f x = Some (g x)) \<Longrightarrow> mapM f xs = Some (map g xs)"
  by (induction xs) auto

lemma mapM_length: "mapM f xs = Some ys \<Longrightarrow> length ys = length xs"
  by (induction xs arbitrary: ys) (auto split: bind_splits)

subsection \<open>Inserting and removing by position\<close>

text \<open>\<^verbatim>\<open>Vec::insert\<close> and \<^verbatim>\<open>Vec::remove\<close> (positions in range), and \<^verbatim>\<open>Iterator::position\<close>.\<close>

definition insert_at :: "nat \<Rightarrow> 'a \<Rightarrow> 'a list \<Rightarrow> 'a list" where
  "insert_at i x xs = take i xs @ x # drop i xs"

definition remove_at :: "nat \<Rightarrow> 'a list \<Rightarrow> 'a list" where
  "remove_at i xs = take i xs @ drop (Suc i) xs"

definition position :: "('a \<Rightarrow> bool) \<Rightarrow> 'a list \<Rightarrow> nat option" where
  "position P xs = (let i = length (takeWhile (\<lambda>x. \<not> P x) xs) in if i < length xs then Some i else None)"

lemma set_insert_at: "set (insert_at i x xs) = insert x (set xs)"
  using set_append [of "take i xs" "drop i xs"] by (auto simp: insert_at_def)

lemma length_insert_at [simp]: "i \<le> length xs \<Longrightarrow> length (insert_at i x xs) = Suc (length xs)"
  by (simp add: insert_at_def)

lemma set_remove_at: "set (remove_at i xs) \<subseteq> set xs"
  by (auto simp: remove_at_def dest: in_set_takeD in_set_dropD)

lemma length_remove_at [simp]: "i < length xs \<Longrightarrow> length (remove_at i xs) = length xs - 1"
  by (auto simp: remove_at_def)

lemma list_all_sub: "list_all P ys \<Longrightarrow> set xs \<subseteq> set ys \<Longrightarrow> list_all P xs"
  by (auto simp: list_all_iff)

lemma map_update_insert_at:
  "map f (insert_at i x xs) = insert_at i (f x) (map f xs)"
  by (simp add: insert_at_def take_map drop_map)

lemma remove_at_map: "remove_at i (map f xs) = map f (remove_at i xs)"
  by (simp add: remove_at_def take_map drop_map)

lemma take_drop_Un: "set (take m xs) \<union> set (drop m xs) = set xs"
  using set_append [of "take m xs" "drop m xs"] by simp

lemma position_Some: "position P xs = Some i \<Longrightarrow> i < length xs \<and> P (xs ! i)"
  using nth_length_takeWhile [of "\<lambda>x. \<not> P x" xs] by (auto simp: position_def Let_def split: if_splits)

lemma position_None: "position P xs = None \<longleftrightarrow> (\<forall>x\<in>set xs. \<not> P x)"
proof -
  have "length (takeWhile (\<lambda>x. \<not> P x) xs) < length xs \<longleftrightarrow> takeWhile (\<lambda>x. \<not> P x) xs \<noteq> xs"
    using length_takeWhile_le [of "\<lambda>x. \<not> P x" xs] takeWhile_dropWhile_id [of "\<lambda>x. \<not> P x" xs]
    by (metis append_eq_append_conv append_Nil2 le_neq_implies_less less_irrefl)
  then show ?thesis by (auto simp: position_def Let_def takeWhile_eq_all_conv)
qed

subsection \<open>Association maps\<close>

definition hm_get :: "('k, 'v) hashmap \<Rightarrow> 'k \<Rightarrow> 'v option" where
  "hm_get m k = map_of m k"

definition hm_insert :: "'k \<Rightarrow> 'v \<Rightarrow> ('k, 'v) hashmap \<Rightarrow> ('k, 'v) hashmap" where
  "hm_insert k v m = AList.update k v m"

definition hm_or_insert :: "'k \<Rightarrow> 'v \<Rightarrow> ('k, 'v) hashmap \<Rightarrow> ('k, 'v) hashmap" where
  "hm_or_insert k v m = (case hm_get m k of Some _ \<Rightarrow> m | None \<Rightarrow> hm_insert k v m)"

primrec hm_extend :: "('k, 'v) hashmap \<Rightarrow> ('k \<times> 'v) list \<Rightarrow> ('k, 'v) hashmap" where
  "hm_extend m [] = m"
| "hm_extend m (p # ps) = hm_extend (hm_insert (fst p) (snd p) m) ps"

definition hm_remove :: "'k \<Rightarrow> ('k, 'v) hashmap \<Rightarrow> ('k, 'v) hashmap" where
  "hm_remove k m = AList.delete k m"

definition hm_ok :: "('k, 'v) hashmap \<Rightarrow> bool" where
  "hm_ok m = distinct (map fst m)"

lemma hm_get_Nil [simp, hm_simps]: "hm_get [] k = None"
  by (simp add: hm_get_def)

lemma hm_get_insert [simp, hm_simps]:
  "hm_get (hm_insert k v m) k' = (if k' = k then Some v else hm_get m k')"
  by (simp add: hm_get_def hm_insert_def update_conv')

lemma hm_get_or_insert [hm_simps]:
  "hm_get (hm_or_insert k v m) k' =
     (case hm_get m k' of Some x \<Rightarrow> Some x | None \<Rightarrow> if k' = k then Some v else None)"
  by (auto simp: hm_or_insert_def split: option.splits)

lemma hm_get_remove [hm_simps]: "hm_get (hm_remove k m) k' = (if k' = k then None else hm_get m k')"
  by (simp add: hm_get_def hm_remove_def delete_conv')

lemma hm_get_extend [hm_simps]:
  "hm_get (hm_extend m ps) k = (case map_of (rev ps) k of Some v \<Rightarrow> Some v | None \<Rightarrow> hm_get m k)"
  by (induction ps arbitrary: m) (auto simp: map_add_def split: option.splits)

lemma hm_ok_insert [intro, simp]: "hm_ok m \<Longrightarrow> hm_ok (hm_insert k v m)"
  by (simp add: hm_ok_def hm_insert_def distinct_update)

lemma hm_ok_extend: "hm_ok m \<Longrightarrow> hm_ok (hm_extend m ps)"
  by (induction ps arbitrary: m) auto

lemma hm_ok_remove: "hm_ok m \<Longrightarrow> hm_ok (hm_remove k m)"
  by (simp add: hm_ok_def hm_remove_def distinct_delete)

lemma hm_get_in_set: "hm_ok m \<Longrightarrow> (k, v) \<in> set m \<longleftrightarrow> hm_get m k = Some v"
  by (simp add: hm_ok_def hm_get_def)

end
