(* ===== verification/Hashing.thy ===== *)
theory Hashing
  imports Prelude
begin

section \<open>Deterministic 128-bit hashing\<close>

text \<open>
  \<^verbatim>\<open>crates/rend/src/hashing.rs\<close>: FNV-1a over 128 bits, the sub-key \<open>child\<close> and the
  root key \<open>state_root\<close> of a state declaration. The hash is computed exactly, so a cell key
  of the model is the cell key of the program.
\<close>

definition FNV_OFFSET :: u128 where
  "FNV_OFFSET = 0x6c62272e07bb014262b821756295c58d"

definition FNV_PRIME :: u128 where
  "FNV_PRIME = 0x0000000001000000000000000000013b"

definition fnv_step :: "u128 \<Rightarrow> u8 \<Rightarrow> u128" where
  "fnv_step h b = (h XOR ucast b) * FNV_PRIME"

definition fnv128 :: "bytes \<Rightarrow> u128" where
  "fnv128 bs = foldl fnv_step FNV_OFFSET bs"

definition child :: "u128 \<Rightarrow> bytes \<Rightarrow> u128" where
  "child root payload = fnv128 (be_bytes 16 (unat root) @ payload)"

definition as_bytes :: "string \<Rightarrow> bytes" where
  "as_bytes s = map (\<lambda>c. of_nat (of_char c)) s"

definition state_root :: "string \<Rightarrow> string \<Rightarrow> u128" where
  "state_root module_id state_name =
     fnv128 (as_bytes module_id @ [0] @ as_bytes state_name @ [0])"

text \<open>Appending a byte is one step: the hash of a stream is computed incrementally.\<close>

lemma fnv128_snoc: "fnv128 (bs @ [b]) = fnv_step (fnv128 bs) b"
  by (simp add: fnv128_def)

end
