(* ===== verification/Values.thy ===== *)
theory Values
  imports Hashing
begin

section \<open>Types and runtime values\<close>

text \<open>
  \<^verbatim>\<open>Type\<close> of \<^verbatim>\<open>crates/rend/src/ast.rs\<close> and \<^verbatim>\<open>Value\<close> / \<^verbatim>\<open>Json\<close> of \<^verbatim>\<open>value.rs\<close> and
  \<^verbatim>\<open>json.rs\<close>, constructor by constructor (prefix \<open>T\<close> for types, \<open>V\<close> for values, \<open>J\<close> for
  json), with \<^verbatim>\<open>Type::is_copy\<close>, \<^verbatim>\<open>Type::is_keyable\<close> and \<^verbatim>\<open>Value::default_for\<close>.

  An arbitrary-precision integer is an \<open>int\<close>; a float is its 64-bit pattern, which is what
  \<^verbatim>\<open>F64Bits\<close> compares. A string is the list of its UTF-8 bytes (a \<open>char\<close> is a byte). A pending
  handle is a counter (\<open>nat\<close>). A json object (\<^verbatim>\<open>IndexMap\<close>) is an association list in insertion
  order; \<^verbatim>\<open>IndexMap\<close> equality ignores that order, so \<open>value_eq\<close> (the derived \<^verbatim>\<open>PartialEq\<close>)
  compares values after sorting the entries of every object.
\<close>

datatype ty =
    TInt | TUInt | TFloat | TI32 | TU32 | TU64 | TU128 | TBool | TUnit | TResource
  | TString | TAddress | TBytes
  | TArray ty
  | TExplicitLiteral ty
  | TSet ty
  | TDict ty ty
  | TMap ty ty
  | TPMap ty ty
  | TPBTree ty ty
  | TPVec ty
  | TJson
  | TStruct string "(string \<times> ty) list" "string option list"
  | TTuple "ty list"
  | TEnum string "(string \<times> ty list) list"
  | TCap string "(string \<times> ty) list" string
  | TInterface string "method_sig list"
and method_sig = MethodSig string "ty list" ty bool bool

datatype val =
    VInt int
  | VUInt int
  | VFloat u64
  | VI32 i32
  | VU32 u32
  | VU64 u64
  | VU128 u128
  | VBool bool
  | VUnit
  | VResource i64
  | VStr string
  | VAddress string
  | VBytes bytes
  | VArray "val list"
  | VSet "val list"
  | VDict "(val \<times> val) list"
  | VStruct string "(string \<times> val) list"
  | VTuple "val list"
  | VEnum string string "val list"
  | VPending nat
  | VPMap u128
  | VPBTree u128
  | VJson json
  | VPVec u64 u128
  | VInterface string string
  | VPMapCursor "(u128 \<times> nat) list" "(val \<times> val) list" ty ty
  | VPBTreeCursor u128 "val option" ty ty
and json =
    JNull
  | JArray "val list"
  | JObject "(string \<times> val) list"

subsection \<open>Predicates of types\<close>

fun unwrap_explicit :: "ty \<Rightarrow> ty" where
  "unwrap_explicit (TExplicitLiteral inner) = unwrap_explicit inner"
| "unwrap_explicit t = t"

fun is_copy :: "ty \<Rightarrow> bool" where
  "is_copy (TArray e) = is_copy e"
| "is_copy (TExplicitLiteral t) = is_copy t"
| "is_copy (TSet e) = is_copy e"
| "is_copy (TDict k v) = (is_copy k \<and> is_copy v)"
| "is_copy (TStruct _ fields _) = list_all (\<lambda>f. is_copy (snd f)) fields"
| "is_copy (TTuple ts) = list_all is_copy ts"
| "is_copy (TEnum _ variants) = list_all (\<lambda>v. list_all is_copy (snd v)) variants"
| "is_copy (TCap _ _ _) = False"
| "is_copy (TInterface _ _) = True"
| "is_copy TJson = True"
| "is_copy t = (t \<in> {TInt, TUInt, TFloat, TI32, TU32, TU64, TU128, TBool, TUnit, TString,
      TAddress, TBytes})"

fun is_keyable :: "ty \<Rightarrow> bool" where
  "is_keyable (TArray e) = is_keyable e"
| "is_keyable (TExplicitLiteral t) = is_keyable t"
| "is_keyable (TStruct _ fields _) = list_all (\<lambda>f. is_keyable (snd f)) fields"
| "is_keyable (TEnum _ variants) = list_all (\<lambda>v. list_all is_keyable (snd v)) variants"
| "is_keyable t = (t \<in> {TInt, TI32, TU32, TU64, TU128, TBool, TString, TAddress, TBytes})"

subsection \<open>Default values\<close>

fun default_for :: "ty \<Rightarrow> val" where
  "default_for (TExplicitLiteral inner) = default_for inner"
| "default_for TInt = VInt 0"
| "default_for TUInt = VUInt 0"
| "default_for TFloat = VFloat 0"
| "default_for TI32 = VI32 0"
| "default_for TU32 = VU32 0"
| "default_for TU64 = VU64 0"
| "default_for TU128 = VU128 0"
| "default_for TBool = VBool False"
| "default_for TUnit = VUnit"
| "default_for TResource = VResource 0"
| "default_for TString = VStr []"
| "default_for TAddress = VAddress []"
| "default_for TBytes = VBytes []"
| "default_for (TArray _) = VArray []"
| "default_for (TStruct name fields _) =
     VStruct name (map (\<lambda>f. (fst f, default_for (snd f))) fields)"
| "default_for (TMap _ v) = default_for v"
| "default_for (TPMap _ _) = VPMap 0"
| "default_for (TPBTree _ _) = VPBTree 0"
| "default_for TJson = VJson JNull"
| "default_for (TPVec _) = VPVec 0 0"
| "default_for (TInterface name _) = VInterface name []"
| "default_for (TSet _) = VSet []"
| "default_for (TDict _ _) = VDict []"
| "default_for (TTuple ts) = VTuple (map default_for ts)"
| "default_for (TEnum name []) = VEnum name [] []"
| "default_for (TEnum name ((v, tys) # _)) = VEnum name v (map default_for tys)"
| "default_for (TCap name fields _) =
     VStruct name (map (\<lambda>f. (fst f, default_for (snd f))) fields)"

subsection \<open>Equality of values\<close>

primrec canon :: "val \<Rightarrow> val" and canon_json :: "json \<Rightarrow> json" where
  "canon (VInt n) = VInt n"
| "canon (VUInt n) = VUInt n"
| "canon (VFloat n) = VFloat n"
| "canon (VI32 n) = VI32 n"
| "canon (VU32 n) = VU32 n"
| "canon (VU64 n) = VU64 n"
| "canon (VU128 n) = VU128 n"
| "canon (VBool b) = VBool b"
| "canon VUnit = VUnit"
| "canon (VResource n) = VResource n"
| "canon (VStr s) = VStr s"
| "canon (VAddress s) = VAddress s"
| "canon (VBytes b) = VBytes b"
| "canon (VArray vs) = VArray (map canon vs)"
| "canon (VSet vs) = VSet (map canon vs)"
| "canon (VDict ps) = VDict (map (map_prod canon canon) ps)"
| "canon (VStruct n fs) = VStruct n (map (map_prod id canon) fs)"
| "canon (VTuple vs) = VTuple (map canon vs)"
| "canon (VEnum n v vs) = VEnum n v (map canon vs)"
| "canon (VPending i) = VPending i"
| "canon (VPMap h) = VPMap h"
| "canon (VPBTree h) = VPBTree h"
| "canon (VJson j) = VJson (canon_json j)"
| "canon (VPVec l r) = VPVec l r"
| "canon (VInterface i m) = VInterface i m"
| "canon (VPMapCursor st pend kt vt) = VPMapCursor st (map (map_prod canon canon) pend) kt vt"
| "canon (VPBTreeCursor c l kt vt) = VPBTreeCursor c (map_option canon l) kt vt"
| "canon_json JNull = JNull"
| "canon_json (JArray vs) = JArray (map canon vs)"
| "canon_json (JObject m) = JObject (sort_key (\<lambda>e. as_bytes (fst e)) (map (map_prod id canon) m))"

definition value_eq :: "val \<Rightarrow> val \<Rightarrow> bool" where
  "value_eq v w \<longleftrightarrow> canon v = canon w"

lemma value_eq_refl [simp]: "value_eq v v"
  by (simp add: value_eq_def)

lemma value_eq_sym: "value_eq v w \<Longrightarrow> value_eq w v"
  by (simp add: value_eq_def)

end
