(* ===== verification/Serialize.thy ===== *)
theory Serialize
  imports Values
begin

section \<open>Canonical serialization of values\<close>

text \<open>
  \<^verbatim>\<open>crates/rend/src/serialize.rs\<close> and the binary half of \<^verbatim>\<open>json.rs\<close>: \<open>serialize\<close>,
  \<open>deserialize\<close>, \<open>sized_value\<close>, \<open>is_default\<close>, and the json composites they call.

  \<^item> \<open>serialize\<close> returns \<open>None\<close> where the code panics (a pending value, a tuple, a cursor).
  \<^item> \<open>deserialize\<close> returns \<open>Got v\<close>, \<open>Miss\<close> (the code's \<^verbatim>\<open>None\<close>) or \<open>Panic\<close>: the code slices
    \<^verbatim>\<open>remaining[..consumed]\<close> by a length it has only read, not checked.
  \<^item> The two's-complement codec of \<^verbatim>\<open>num_bigint\<close> is a parameter, \<open>bigint_lib\<close>; what the code
    relies on is \<open>bigint_ok\<close>, that decoding the encoding of an integer gives it back.
  \<^item> Loops over a declared number of elements walk the slice with the byte offset the code
    keeps (\<^verbatim>\<open>total\<close>, \<^verbatim>\<open>cursor\<close>): \<open>sized_many\<close> and \<open>de_many\<close>.

  The main result is that a stored value reads back unchanged under its type
  (\<open>deserialize_serialize\<close>), and that \<open>sized_value\<close> finds its end inside any longer slice.
\<close>

record bigint_lib =
  to_signed_bytes_be :: "int \<Rightarrow> bytes"
  from_signed_bytes_be :: "bytes \<Rightarrow> int"

definition bigint_ok :: "bigint_lib \<Rightarrow> bool" where
  "bigint_ok L \<longleftrightarrow> (\<forall>n. from_signed_bytes_be L (to_signed_bytes_be L n) = n)"

datatype 'a parse = Got 'a | Miss | Panic

primrec pbind :: "'a parse \<Rightarrow> ('a \<Rightarrow> 'b parse) \<Rightarrow> 'b parse" where
  "pbind (Got x) f = f x"
| "pbind Miss f = Miss"
| "pbind Panic f = Panic"

primrec or_miss :: "'a option \<Rightarrow> 'a parse" where
  "or_miss (Some x) = Got x"
| "or_miss None = Miss"

abbreviation TAG_INT :: u8 where "TAG_INT \<equiv> 0x01"
abbreviation TAG_BOOL :: u8 where "TAG_BOOL \<equiv> 0x02"
abbreviation TAG_UNIT :: u8 where "TAG_UNIT \<equiv> 0x03"
abbreviation TAG_RESOURCE :: u8 where "TAG_RESOURCE \<equiv> 0x04"
abbreviation TAG_STRING :: u8 where "TAG_STRING \<equiv> 0x05"
abbreviation TAG_ADDRESS :: u8 where "TAG_ADDRESS \<equiv> 0x06"
abbreviation TAG_ARRAY :: u8 where "TAG_ARRAY \<equiv> 0x07"
abbreviation TAG_STRUCT :: u8 where "TAG_STRUCT \<equiv> 0x08"
abbreviation TAG_I32 :: u8 where "TAG_I32 \<equiv> 0x10"
abbreviation TAG_U32 :: u8 where "TAG_U32 \<equiv> 0x11"
abbreviation TAG_U64 :: u8 where "TAG_U64 \<equiv> 0x12"
abbreviation TAG_U128 :: u8 where "TAG_U128 \<equiv> 0x13"
abbreviation TAG_BYTES :: u8 where "TAG_BYTES \<equiv> 0x14"
abbreviation TAG_ENUM :: u8 where "TAG_ENUM \<equiv> 0x15"
abbreviation TAG_PMAP :: u8 where "TAG_PMAP \<equiv> 0x16"
abbreviation TAG_PVEC :: u8 where "TAG_PVEC \<equiv> 0x17"
abbreviation TAG_INTERFACE :: u8 where "TAG_INTERFACE \<equiv> 0x18"
abbreviation TAG_PBTREE :: u8 where "TAG_PBTREE \<equiv> 0x19"
abbreviation TAG_JSON :: u8 where "TAG_JSON \<equiv> 0x1a"
abbreviation TAG_UINT :: u8 where "TAG_UINT \<equiv> 0x1b"
abbreviation TAG_FLOAT :: u8 where "TAG_FLOAT \<equiv> 0x1c"
abbreviation J_NULL :: u8 where "J_NULL \<equiv> 0x00"
abbreviation J_ARRAY :: u8 where "J_ARRAY \<equiv> 0x01"
abbreviation J_OBJECT :: u8 where "J_OBJECT \<equiv> 0x02"

subsection \<open>Strings: UTF-8 validity\<close>

definition cont_byte :: "u8 \<Rightarrow> bool" where
  "cont_byte b \<longleftrightarrow> 0x80 \<le> b \<and> b \<le> 0xBF"

definition second_ok :: "u8 \<Rightarrow> u8 \<Rightarrow> bool" where
  "second_ok a b \<longleftrightarrow>
     (if a = 0xE0 then 0xA0 \<le> b \<and> b \<le> 0xBF
      else if a = 0xED then 0x80 \<le> b \<and> b \<le> 0x9F
      else if a = 0xF0 then 0x90 \<le> b \<and> b \<le> 0xBF
      else if a = 0xF4 then 0x80 \<le> b \<and> b \<le> 0x8F
      else cont_byte b)"

fun utf8_valid :: "bytes \<Rightarrow> bool" where
  "utf8_valid [] = True"
| "utf8_valid (a # bs) =
     (if a < 0x80 then utf8_valid bs
      else if a < 0xC2 then False
      else if a < 0xE0 then
        (case bs of b # rest \<Rightarrow> cont_byte b \<and> utf8_valid rest | _ \<Rightarrow> False)
      else if a < 0xF0 then
        (case bs of b # c # rest \<Rightarrow> second_ok a b \<and> cont_byte c \<and> utf8_valid rest | _ \<Rightarrow> False)
      else if a < 0xF5 then
        (case bs of b # c # d # rest \<Rightarrow>
           second_ok a b \<and> cont_byte c \<and> cont_byte d \<and> utf8_valid rest | _ \<Rightarrow> False)
      else False)"

definition from_utf8 :: "bytes \<Rightarrow> string option" where
  "from_utf8 bs = (if utf8_valid bs then Some (map (\<lambda>b. char_of (unat b)) bs) else None)"

subsection \<open>Encoding\<close>

definition tagged_str :: "u8 \<Rightarrow> bytes \<Rightarrow> bytes" where
  "tagged_str tag body = tag # u32_be (length body) @ body"

fun serialize :: "bigint_lib \<Rightarrow> val \<Rightarrow> bytes option"
and write_json :: "bigint_lib \<Rightarrow> json \<Rightarrow> bytes option" where
  "serialize L (VInt n) = Some (tagged_str TAG_INT (to_signed_bytes_be L n))"
| "serialize L (VUInt n) = Some (tagged_str TAG_UINT (to_signed_bytes_be L n))"
| "serialize L (VFloat n) = Some (TAG_FLOAT # be_bytes 8 (unat n))"
| "serialize L (VI32 n) = Some (TAG_I32 # be_bytes 4 (unat n))"
| "serialize L (VU32 n) = Some (TAG_U32 # be_bytes 4 (unat n))"
| "serialize L (VU64 n) = Some (TAG_U64 # be_bytes 8 (unat n))"
| "serialize L (VU128 n) = Some (TAG_U128 # be_bytes 16 (unat n))"
| "serialize L (VBool b) = Some [TAG_BOOL, if b then 1 else 0]"
| "serialize L VUnit = Some [TAG_UNIT]"
| "serialize L (VResource n) = Some (TAG_RESOURCE # be_bytes 8 (unat n))"
| "serialize L (VStr s) = Some (tagged_str TAG_STRING (as_bytes s))"
| "serialize L (VAddress s) = Some (tagged_str TAG_ADDRESS (as_bytes s))"
| "serialize L (VBytes b) = Some (tagged_str TAG_BYTES b)"
| "serialize L (VArray elems) = do {
     bss \<leftarrow> mapM (serialize L) elems;
     Some (TAG_ARRAY # u32_be (length elems) @ concat bss) }"
| "serialize L (VSet _) = Some []"
| "serialize L (VDict _) = Some []"
| "serialize L (VPending _) = None"
| "serialize L (VTuple _) = None"
| "serialize L (VEnum _ variant payload) = do {
     bss \<leftarrow> mapM (serialize L) payload;
     Some (tagged_str TAG_ENUM (as_bytes variant) @ concat bss) }"
| "serialize L (VStruct _ flds) = do {
     bss \<leftarrow> mapM (\<lambda>f. serialize L (snd f)) flds;
     Some (TAG_STRUCT # concat bss) }"
| "serialize L (VPMap root_hash) = Some (TAG_PMAP # be_bytes 16 (unat root_hash))"
| "serialize L (VPBTree root_hash) = Some (TAG_PBTREE # be_bytes 16 (unat root_hash))"
| "serialize L (VJson j) = do { inner \<leftarrow> write_json L j; Some (TAG_JSON # inner) }"
| "serialize L (VPVec len root) =
     Some (TAG_PVEC # be_bytes 8 (unat len) @ be_bytes 16 (unat root))"
| "serialize L (VInterface iface target_module) =
     Some (tagged_str TAG_INTERFACE (as_bytes iface)
           @ u32_be (length (as_bytes target_module)) @ as_bytes target_module)"
| "serialize L (VPMapCursor _ _ _ _) = None"
| "serialize L (VPBTreeCursor _ _ _ _) = None"
| "write_json L JNull = Some [J_NULL]"
| "write_json L (JArray items) = do {
     bss \<leftarrow> mapM (serialize L) items;
     Some (J_ARRAY # u32_be (length items) @ concat bss) }"
| "write_json L (JObject m) = do {
     bss \<leftarrow> mapM (\<lambda>e. do {
        vb \<leftarrow> serialize L (snd e);
        Some (u32_be (length (as_bytes (fst e))) @ as_bytes (fst e) @ vb) }) m;
     Some (J_OBJECT # u32_be (length m) @ concat bss) }"

subsection \<open>Finding the end of an encoded value\<close>

definition get_from :: "nat \<Rightarrow> bytes \<Rightarrow> bytes option" where
  "get_from off bs = (if off \<le> length bs then Some (drop off bs) else None)"

definition sized_str :: "bytes \<Rightarrow> nat option" where
  "sized_str rest = do { (n, _) \<leftarrow> read_u32 rest; Some (5 + n) }"

definition sized_prim :: "bytes \<Rightarrow> nat option" where
  \<comment> \<open>the primitive shapes a json-typed cell may hold\<close>
  "sized_prim bs = (case bs of [] \<Rightarrow> None | tag # rest \<Rightarrow>
     if tag = TAG_INT \<or> tag = TAG_UINT \<or> tag = TAG_STRING then sized_str rest
     else if tag = TAG_FLOAT then Some 9
     else if tag = TAG_BOOL then Some 2
     else None)"

function (sequential) json_value_size :: "bytes \<Rightarrow> nat option"
and byte_size :: "bytes \<Rightarrow> nat option"
and json_sizes :: "nat \<Rightarrow> bytes \<Rightarrow> nat \<Rightarrow> nat option"
and json_pair_sizes :: "nat \<Rightarrow> bytes \<Rightarrow> nat \<Rightarrow> nat option" where
  "json_value_size [] = None"
| "json_value_size (tag # rest) =
     (if tag = TAG_JSON then do { inner \<leftarrow> byte_size rest; Some (1 + inner) }
      else sized_prim (tag # rest))"
| "byte_size [] = None"
| "byte_size (tag # rest) =
     (if tag = J_NULL then Some 1
      else if tag = J_ARRAY then do { (n, _) \<leftarrow> read_u32 rest; json_sizes n (tag # rest) 5 }
      else if tag = J_OBJECT then do { (n, _) \<leftarrow> read_u32 rest; json_pair_sizes n (tag # rest) 5 }
      else None)"
| "json_sizes 0 bs off = Some off"
| "json_sizes (Suc n) bs off =
     (if off \<le> length bs then
        do { inner \<leftarrow> json_value_size (drop off bs); json_sizes n bs (off + inner) }
      else None)"
| "json_pair_sizes 0 bs off = Some off"
| "json_pair_sizes (Suc n) bs off =
     (if off \<le> length bs then
        do { (kl, _) \<leftarrow> read_u32 (drop off bs);
             (if off + 4 + kl \<le> length bs then
                do { inner \<leftarrow> json_value_size (drop (off + 4 + kl) bs);
                     json_pair_sizes n bs (off + 4 + kl + inner) }
              else None) }
      else None)"
  by pat_completeness auto
termination
  by (relation "measures [
        \<lambda>x. case x of Inl (Inl bs) \<Rightarrow> length bs | Inl (Inr bs) \<Rightarrow> length bs
           | Inr (Inl (n, bs, off)) \<Rightarrow> length bs - off
           | Inr (Inr (n, bs, off)) \<Rightarrow> length bs - off,
        \<lambda>x. case x of Inl (Inl bs) \<Rightarrow> 0 | Inl (Inr bs) \<Rightarrow> 0
           | Inr (Inl (n, bs, off)) \<Rightarrow> n | Inr (Inr (n, bs, off)) \<Rightarrow> n]")
     (auto dest: read_u32_SomeD)

primrec sized_many :: "(bytes \<Rightarrow> nat option) list \<Rightarrow> bytes \<Rightarrow> nat \<Rightarrow> nat option" where
  "sized_many [] bs off = Some off"
| "sized_many (f # fs) bs off = do {
     suffix \<leftarrow> get_from off bs; inner \<leftarrow> f suffix; sized_many fs bs (off + inner) }"

definition tag_size :: "u8 \<Rightarrow> nat \<Rightarrow> bytes \<Rightarrow> nat option" where
  "tag_size tag n bs = (case bs of [] \<Rightarrow> None | t # _ \<Rightarrow> if t = tag then Some n else None)"

definition tag_sized :: "u8 \<Rightarrow> (bytes \<Rightarrow> nat option) \<Rightarrow> bytes \<Rightarrow> nat option" where
  "tag_sized tag f bs = (case bs of [] \<Rightarrow> None | t # rest \<Rightarrow> if t = tag then f rest else None)"

fun sized_value :: "bytes \<Rightarrow> ty \<Rightarrow> nat option" where
  "sized_value bs TInt = tag_sized TAG_INT sized_str bs"
| "sized_value bs TUInt = tag_sized TAG_UINT sized_str bs"
| "sized_value bs TFloat = tag_size TAG_FLOAT 9 bs"
| "sized_value bs TResource = tag_size TAG_RESOURCE 9 bs"
| "sized_value bs TI32 = tag_size TAG_I32 5 bs"
| "sized_value bs TU32 = tag_size TAG_U32 5 bs"
| "sized_value bs TU64 = tag_size TAG_U64 9 bs"
| "sized_value bs TU128 = tag_size TAG_U128 17 bs"
| "sized_value bs TBool = tag_size TAG_BOOL 2 bs"
| "sized_value bs TUnit = tag_size TAG_UNIT 1 bs"
| "sized_value bs TString = tag_sized TAG_STRING sized_str bs"
| "sized_value bs TAddress = tag_sized TAG_ADDRESS sized_str bs"
| "sized_value bs TBytes = tag_sized TAG_BYTES sized_str bs"
| "sized_value bs (TArray elem_ty) = tag_sized TAG_ARRAY (\<lambda>rest. do {
     (n, _) \<leftarrow> read_u32 rest;
     sized_many (replicate n (\<lambda>b. sized_value b elem_ty)) bs 5 }) bs"
| "sized_value bs (TStruct _ flds _) = tag_sized TAG_STRUCT (\<lambda>rest.
     sized_many (map (\<lambda>f b. sized_value b (snd f)) flds) bs 1) bs"
| "sized_value bs (TCap _ flds _) = tag_sized TAG_STRUCT (\<lambda>rest.
     sized_many (map (\<lambda>f b. sized_value b (snd f)) flds) bs 1) bs"
| "sized_value bs (TPMap _ _) = tag_size TAG_PMAP 17 bs"
| "sized_value bs (TPBTree _ _) = tag_size TAG_PBTREE 17 bs"
| "sized_value bs (TPVec _) = tag_size TAG_PVEC 25 bs"
| "sized_value bs TJson = json_value_size bs"
| "sized_value bs (TInterface _ _) = tag_sized TAG_INTERFACE (\<lambda>rest. do {
     (ilen, r) \<leftarrow> read_u32 rest;
     r' \<leftarrow> get_from ilen r;
     (mlen, _) \<leftarrow> read_u32 r';
     Some (5 + ilen + 4 + mlen) }) bs"
| "sized_value bs (TEnum _ variants) = tag_sized TAG_ENUM (\<lambda>rest. do {
     (name_len, r) \<leftarrow> read_u32 rest;
     (name_bytes, _) \<leftarrow> split_at name_len r;
     variant_name \<leftarrow> from_utf8 name_bytes;
     sizers \<leftarrow> map_of (map (\<lambda>v. (fst v, map (\<lambda>t b. sized_value b t) (snd v))) variants) variant_name;
     sized_many sizers bs (5 + name_len) }) bs"
| "sized_value bs _ = None"

subsection \<open>Decoding\<close>

definition de_fixed :: "nat \<Rightarrow> (nat \<Rightarrow> val) \<Rightarrow> bytes \<Rightarrow> val parse" where
  \<comment> \<open>\<^verbatim>\<open>let arr: [u8; n] = rest.try_into().ok()?\<close>: the rest must have exactly \<open>n\<close> bytes\<close>
  "de_fixed n mk rest = (if length rest = n then Got (mk (be_val rest)) else Miss)"

definition de_bigint :: "bigint_lib \<Rightarrow> (int \<Rightarrow> val) \<Rightarrow> bytes \<Rightarrow> val option" where
  "de_bigint L mk rest = do {
     (n_bytes, body) \<leftarrow> read_u32 rest;
     (if length rest = 4 + n_bytes then Some (mk (from_signed_bytes_be L body)) else None) }"

definition de_str :: "(bytes \<Rightarrow> val option) \<Rightarrow> bytes \<Rightarrow> val option" where
  "de_str mk rest = do {
     (len, r) \<leftarrow> read_u32 rest;
     (body, _) \<leftarrow> split_at len r;
     mk body }"

definition de_bool :: "bytes \<Rightarrow> val option" where
  "de_bool rest = (if rest = [0] then Some (VBool False) else if rest = [1] then Some (VBool True) else None)"

definition de_prim :: "bigint_lib \<Rightarrow> bytes \<Rightarrow> val option" where
  \<comment> \<open>a primitive in a json-typed cell: dispatch on its own tag\<close>
  "de_prim L bs = (case bs of [] \<Rightarrow> None | tag # rest \<Rightarrow>
     if tag = TAG_INT then de_bigint L VInt rest
     else if tag = TAG_UINT then de_bigint L VUInt rest
     else if tag = TAG_FLOAT then
       (if length rest = 8 then Some (VFloat (of_nat (be_val rest))) else None)
     else if tag = TAG_BOOL then de_bool rest
     else if tag = TAG_STRING then de_str (\<lambda>b. map_option VStr (from_utf8 b)) rest
     else None)"

definition slice :: "nat \<Rightarrow> nat \<Rightarrow> bytes \<Rightarrow> bytes option" where
  \<comment> \<open>\<^verbatim>\<open>bytes.get(pos..pos + n)\<close>\<close>
  "slice pos n bs = (if pos + n \<le> length bs then Some (take n (drop pos bs)) else None)"

lemma slice_SomeD: "slice pos n bs = Some xs \<Longrightarrow> length xs = n \<and> pos + n \<le> length bs"
  by (auto simp: slice_def split: if_splits)

function (sequential) de_json_value :: "bigint_lib \<Rightarrow> bytes \<Rightarrow> val option"
and json_deserialize :: "bigint_lib \<Rightarrow> bytes \<Rightarrow> json option"
and read_json :: "bigint_lib \<Rightarrow> bytes \<Rightarrow> (json \<times> nat) option"
and read_items :: "bigint_lib \<Rightarrow> nat \<Rightarrow> bytes \<Rightarrow> nat \<Rightarrow> (val list \<times> nat) option"
and read_pairs :: "bigint_lib \<Rightarrow> nat \<Rightarrow> bytes \<Rightarrow> nat \<Rightarrow> (string, val) hashmap
    \<Rightarrow> ((string, val) hashmap \<times> nat) option" where
  "de_json_value L [] = None"
| "de_json_value L (tag # rest) =
     (if tag = TAG_JSON then map_option VJson (json_deserialize L rest)
      else de_prim L (tag # rest))"
| "json_deserialize L [] = None"
| "json_deserialize L (b # bs) = do {
     (j, pos) \<leftarrow> read_json L (b # bs);
     (if pos = length (b # bs) then Some j else None) }"
| "read_json L [] = None"
| "read_json L (tag # rest) =
     (if tag = J_NULL then Some (JNull, 1)
      else if tag = J_ARRAY then do {
        (n, _) \<leftarrow> read_u32 rest;
        (items, pos) \<leftarrow> read_items L n (tag # rest) 5;
        Some (JArray items, pos) }
      else if tag = J_OBJECT then do {
        (n, _) \<leftarrow> read_u32 rest;
        (m, pos) \<leftarrow> read_pairs L n (tag # rest) 5 [];
        Some (JObject m, pos) }
      else None)"
| "read_items L 0 bs pos = Some ([], pos)"
| "read_items L (Suc n) bs pos =
     (if pos \<le> length bs then
        (case json_value_size (drop pos bs) of None \<Rightarrow> None | Some sz \<Rightarrow>
          (if pos + sz \<le> length bs then do {
             v \<leftarrow> de_json_value L (take sz (drop pos bs));
             (vs, pos') \<leftarrow> read_items L n bs (pos + sz);
             Some (v # vs, pos') }
           else None))
      else None)"
| "read_pairs L 0 bs pos m = Some (m, pos)"
| "read_pairs L (Suc n) bs pos m =
     (if pos \<le> length bs then
        (case read_u32 (drop pos bs) of None \<Rightarrow> None | Some (kl, _) \<Rightarrow>
          (case slice (pos + 4) kl bs of None \<Rightarrow> None | Some kb \<Rightarrow>
            (case from_utf8 kb of None \<Rightarrow> None | Some k \<Rightarrow>
              (case json_value_size (drop (pos + 4 + kl) bs) of None \<Rightarrow> None | Some sz \<Rightarrow>
                (if pos + 4 + kl + sz \<le> length bs then do {
                   v \<leftarrow> de_json_value L (take sz (drop (pos + 4 + kl) bs));
                   read_pairs L n bs (pos + 4 + kl + sz) (hm_insert k v m) }
                 else None)))))
      else None)"
  by pat_completeness auto
termination
  by (relation "measures [
        \<lambda>x. case x of Inl (Inl (L, bs)) \<Rightarrow> length bs | Inl (Inr (L, bs)) \<Rightarrow> length bs
           | Inr (Inl (L, bs)) \<Rightarrow> length bs
           | Inr (Inr (Inl (L, n, bs, pos))) \<Rightarrow> length bs - pos
           | Inr (Inr (Inr (L, n, bs, pos, m))) \<Rightarrow> length bs - pos,
        \<lambda>x. case x of Inl (Inl (L, bs)) \<Rightarrow> 0 | Inl (Inr (L, bs)) \<Rightarrow> 1 | Inr (Inl (L, bs)) \<Rightarrow> 0
           | Inr (Inr (Inl (L, n, bs, pos))) \<Rightarrow> n
           | Inr (Inr (Inr (L, n, bs, pos, m))) \<Rightarrow> n]")
     (auto dest!: read_u32_SomeD slice_SomeD)

primrec de_many :: "((bytes \<Rightarrow> nat option) \<times> (bytes \<Rightarrow> val parse)) list \<Rightarrow> bytes \<Rightarrow> nat \<Rightarrow> val list parse"
where
  "de_many [] rest cursor = Got []"
| "de_many (d # ds) rest cursor =
     pbind (or_miss (get_from cursor rest)) (\<lambda>remaining.
     pbind (or_miss (fst d remaining)) (\<lambda>consumed.
       if consumed \<le> length remaining then
         pbind (snd d (take consumed remaining)) (\<lambda>v.
         pbind (de_many ds rest (cursor + consumed)) (\<lambda>vs. Got (v # vs)))
       else Panic))"

definition with_tag :: "u8 \<Rightarrow> (bytes \<Rightarrow> val parse) \<Rightarrow> bytes \<Rightarrow> val parse" where
  "with_tag tag f bs = (case bs of [] \<Rightarrow> Miss | t # rest \<Rightarrow> if t = tag then f rest else Miss)"

fun deserialize :: "bigint_lib \<Rightarrow> bytes \<Rightarrow> ty \<Rightarrow> val parse" where
  "deserialize L bs (TExplicitLiteral inner) = deserialize L bs inner"
| "deserialize L bs TInt = with_tag TAG_INT (\<lambda>r. or_miss (de_bigint L VInt r)) bs"
| "deserialize L bs TUInt = with_tag TAG_UINT (\<lambda>r. or_miss (de_bigint L VUInt r)) bs"
| "deserialize L bs TFloat = with_tag TAG_FLOAT (de_fixed 8 (\<lambda>n. VFloat (of_nat n))) bs"
| "deserialize L bs TI32 = with_tag TAG_I32 (de_fixed 4 (\<lambda>n. VI32 (of_nat n))) bs"
| "deserialize L bs TU32 = with_tag TAG_U32 (de_fixed 4 (\<lambda>n. VU32 (of_nat n))) bs"
| "deserialize L bs TU64 = with_tag TAG_U64 (de_fixed 8 (\<lambda>n. VU64 (of_nat n))) bs"
| "deserialize L bs TU128 = with_tag TAG_U128 (de_fixed 16 (\<lambda>n. VU128 (of_nat n))) bs"
| "deserialize L bs TBool = with_tag TAG_BOOL (\<lambda>r. or_miss (de_bool r)) bs"
| "deserialize L bs TUnit = with_tag TAG_UNIT (\<lambda>r. Got VUnit) bs"
| "deserialize L bs TResource = with_tag TAG_RESOURCE (de_fixed 8 (\<lambda>n. VResource (of_nat n))) bs"
| "deserialize L bs TString =
     with_tag TAG_STRING (\<lambda>r. or_miss (de_str (\<lambda>b. map_option VStr (from_utf8 b)) r)) bs"
| "deserialize L bs TAddress =
     with_tag TAG_ADDRESS (\<lambda>r. or_miss (de_str (\<lambda>b. map_option VAddress (from_utf8 b)) r)) bs"
| "deserialize L bs TBytes = with_tag TAG_BYTES (\<lambda>r. or_miss (de_str (\<lambda>b. Some (VBytes b)) r)) bs"
| "deserialize L bs (TEnum name variants) = with_tag TAG_ENUM (\<lambda>rest.
     pbind (or_miss (do {
       (name_len, r) \<leftarrow> read_u32 rest;
       (name_bytes, _) \<leftarrow> split_at name_len r;
       variant_name \<leftarrow> from_utf8 name_bytes;
       ds \<leftarrow> map_of (map (\<lambda>v. (fst v, map (\<lambda>t. (\<lambda>b. sized_value b t, \<lambda>b. deserialize L b t)) (snd v)))
                variants) variant_name;
       Some (4 + name_len, variant_name, ds) })) (\<lambda>(cursor, variant_name, ds).
     pbind (de_many ds rest cursor) (\<lambda>payload. Got (VEnum name variant_name payload)))) bs"
| "deserialize L bs (TArray elem_ty) = with_tag TAG_ARRAY (\<lambda>rest.
     pbind (or_miss (read_u32 rest)) (\<lambda>(len, _).
     pbind (de_many (replicate len (\<lambda>b. sized_value b elem_ty, \<lambda>b. deserialize L b elem_ty)) rest 4)
       (\<lambda>out. Got (VArray out)))) bs"
| "deserialize L bs (TStruct name flds _) = with_tag TAG_STRUCT (\<lambda>rest.
     pbind (de_many (map (\<lambda>f. (\<lambda>b. sized_value b (snd f), \<lambda>b. deserialize L b (snd f))) flds) rest 0)
       (\<lambda>out. Got (VStruct name (zip (map fst flds) out)))) bs"
| "deserialize L bs (TCap name flds _) = with_tag TAG_STRUCT (\<lambda>rest.
     pbind (de_many (map (\<lambda>f. (\<lambda>b. sized_value b (snd f), \<lambda>b. deserialize L b (snd f))) flds) rest 0)
       (\<lambda>out. Got (VStruct name (zip (map fst flds) out)))) bs"
| "deserialize L bs (TPMap _ _) = with_tag TAG_PMAP (de_fixed 16 (\<lambda>n. VPMap (of_nat n))) bs"
| "deserialize L bs (TPBTree _ _) = with_tag TAG_PBTREE (de_fixed 16 (\<lambda>n. VPBTree (of_nat n))) bs"
| "deserialize L bs TJson = or_miss (de_json_value L bs)"
| "deserialize L bs (TPVec _) = with_tag TAG_PVEC (\<lambda>rest. or_miss (do {
     len_bytes \<leftarrow> slice 0 8 rest;
     root_bytes \<leftarrow> slice 8 16 rest;
     Some (VPVec (of_nat (be_val len_bytes)) (of_nat (be_val root_bytes))) })) bs"
| "deserialize L bs (TInterface _ _) = with_tag TAG_INTERFACE (\<lambda>rest. or_miss (do {
     (ilen, r) \<leftarrow> read_u32 rest;
     (ib, r') \<leftarrow> split_at ilen r;
     iface \<leftarrow> from_utf8 ib;
     (mlen, r'') \<leftarrow> read_u32 r';
     (mb, _) \<leftarrow> split_at mlen r'';
     target_module \<leftarrow> from_utf8 mb;
     Some (VInterface iface target_module) })) bs"
| "deserialize L bs _ = Miss"

subsection \<open>Default cells\<close>

fun is_default :: "val \<Rightarrow> bool" where
  "is_default (VInt n) = (n = 0)"
| "is_default (VUInt n) = (n = 0)"
| "is_default (VFloat n) = (n = 0)"
| "is_default (VI32 n) = (n = 0)"
| "is_default (VU32 n) = (n = 0)"
| "is_default (VU64 n) = (n = 0)"
| "is_default (VU128 n) = (n = 0)"
| "is_default (VBool b) = (\<not> b)"
| "is_default VUnit = True"
| "is_default (VResource n) = (n = 0)"
| "is_default (VStr s) = (s = [])"
| "is_default (VAddress s) = (s = [])"
| "is_default (VArray es) = (es = [])"
| "is_default (VBytes b) = (b = [])"
| "is_default (VPMap h) = (h = 0)"
| "is_default (VPVec l r) = (l = 0 \<and> r = 0)"
| "is_default _ = False"

subsection \<open>Storable values\<close>

definition utf8_str :: "string \<Rightarrow> bool" where
  "utf8_str s \<longleftrightarrow> utf8_valid (as_bytes s) \<and> length s < 2 ^ 32"

definition fits_int :: "bigint_lib \<Rightarrow> int \<Rightarrow> bool" where
  "fits_int L n \<longleftrightarrow> length (to_signed_bytes_be L n) < 2 ^ 32"

fun jwt :: "bigint_lib \<Rightarrow> val \<Rightarrow> bool" and jwt_json :: "bigint_lib \<Rightarrow> json \<Rightarrow> bool" where
  "jwt L (VInt n) = fits_int L n"
| "jwt L (VUInt n) = fits_int L n"
| "jwt L (VFloat _) = True"
| "jwt L (VBool _) = True"
| "jwt L (VStr s) = utf8_str s"
| "jwt L (VJson j) = jwt_json L j"
| "jwt L _ = False"
| "jwt_json L JNull = True"
| "jwt_json L (JArray items) = (length items < 2 ^ 32 \<and> list_all (jwt L) items)"
| "jwt_json L (JObject m) = (length m < 2 ^ 32 \<and> distinct (map fst m) \<and>
     list_all (\<lambda>e. utf8_str (fst e) \<and> jwt L (snd e)) m)"

fun wt :: "bigint_lib \<Rightarrow> ty \<Rightarrow> val \<Rightarrow> bool" where
  "wt L TInt v = (case v of VInt n \<Rightarrow> fits_int L n | _ \<Rightarrow> False)"
| "wt L TUInt v = (case v of VUInt n \<Rightarrow> fits_int L n | _ \<Rightarrow> False)"
| "wt L TFloat v = (case v of VFloat _ \<Rightarrow> True | _ \<Rightarrow> False)"
| "wt L TI32 v = (case v of VI32 _ \<Rightarrow> True | _ \<Rightarrow> False)"
| "wt L TU32 v = (case v of VU32 _ \<Rightarrow> True | _ \<Rightarrow> False)"
| "wt L TU64 v = (case v of VU64 _ \<Rightarrow> True | _ \<Rightarrow> False)"
| "wt L TU128 v = (case v of VU128 _ \<Rightarrow> True | _ \<Rightarrow> False)"
| "wt L TBool v = (case v of VBool _ \<Rightarrow> True | _ \<Rightarrow> False)"
| "wt L TUnit v = (case v of VUnit \<Rightarrow> True | _ \<Rightarrow> False)"
| "wt L TResource v = (case v of VResource _ \<Rightarrow> True | _ \<Rightarrow> False)"
| "wt L TString v = (case v of VStr s \<Rightarrow> utf8_str s | _ \<Rightarrow> False)"
| "wt L TAddress v = (case v of VAddress s \<Rightarrow> utf8_str s | _ \<Rightarrow> False)"
| "wt L TBytes v = (case v of VBytes b \<Rightarrow> length b < 2 ^ 32 | _ \<Rightarrow> False)"
| "wt L (TArray e) v = (case v of VArray es \<Rightarrow> length es < 2 ^ 32 \<and> list_all (wt L e) es | _ \<Rightarrow> False)"
| "wt L (TStruct name flds _) v = (case v of
     VStruct n vs \<Rightarrow> n = name \<and> map fst vs = map fst flds \<and>
       list_all2 (\<lambda>P e. P (snd e)) (map (\<lambda>f. wt L (snd f)) flds) vs
   | _ \<Rightarrow> False)"
| "wt L (TCap name flds _) v = (case v of
     VStruct n vs \<Rightarrow> n = name \<and> map fst vs = map fst flds \<and>
       list_all2 (\<lambda>P e. P (snd e)) (map (\<lambda>f. wt L (snd f)) flds) vs
   | _ \<Rightarrow> False)"
| "wt L (TEnum name variants) v = (case v of
     VEnum n variant vs \<Rightarrow> n = name \<and> utf8_str variant \<and>
       (case map_of (map (\<lambda>c. (fst c, map (wt L) (snd c))) variants) variant of
          None \<Rightarrow> False | Some Ps \<Rightarrow> list_all2 (\<lambda>P. P) Ps vs)
   | _ \<Rightarrow> False)"
| "wt L (TPMap _ _) v = (case v of VPMap _ \<Rightarrow> True | _ \<Rightarrow> False)"
| "wt L (TPBTree _ _) v = (case v of VPBTree _ \<Rightarrow> True | _ \<Rightarrow> False)"
| "wt L (TPVec _) v = (case v of VPVec _ _ \<Rightarrow> True | _ \<Rightarrow> False)"
| "wt L (TInterface _ _) v = (case v of VInterface i m \<Rightarrow> utf8_str i \<and> utf8_str m | _ \<Rightarrow> False)"
| "wt L TJson v = jwt L v"
| "wt L _ v = False"

subsection \<open>Strings and leaves round trip\<close>

lemma char_byte [simp]: "char_of (unat (of_nat (of_char c) :: u8)) = c"
proof -
  have "(of_char c :: nat) mod 256 = of_char c" by (rule of_char_mod_256)
  then show ?thesis by (simp add: unat_of_nat_u8)
qed

lemma length_as_bytes [simp]: "length (as_bytes s) = length s"
  by (simp add: as_bytes_def)

lemma from_utf8_as_bytes [codec_simps]: "utf8_valid (as_bytes s) \<Longrightarrow> from_utf8 (as_bytes s) = Some s"
  by (simp add: from_utf8_def) (simp add: as_bytes_def comp_def)

lemma of_nat_unat_mod: "LENGTH('a) \<le> n \<Longrightarrow> (of_nat (unat (w::'a::len word) mod 2 ^ n) :: 'a word) = w"
proof -
  assume "LENGTH('a) \<le> n"
  then have "(2::nat) ^ LENGTH('a) \<le> 2 ^ n" by (rule power_increasing) simp
  then have "unat w < 2 ^ n" using unsigned_less [where ?'a = nat, of w] by linarith
  then show ?thesis by simp
qed

lemmas word_codecs [codec_simps] =
  of_nat_unat_mod [where 'a = 64 and n = 64, simplified]
  of_nat_unat_mod [where 'a = 32 and n = 32, simplified]
  of_nat_unat_mod [where 'a = 128 and n = 128, simplified]

lemma sized_str_tagged [codec_simps]: "n < 2 ^ 32 \<Longrightarrow> sized_str (u32_be n @ rest) = Some (5 + n)"
  by (simp add: sized_str_def read_u32_be)

lemma de_str_tagged [codec_simps]:
  "n < 2 ^ 32 \<Longrightarrow> length body = n \<Longrightarrow> de_str mk (u32_be n @ body @ rest) = mk body"
  "n < 2 ^ 32 \<Longrightarrow> length body = n \<Longrightarrow> de_str mk (u32_be n @ body) = mk body"
  by (simp_all add: de_str_def read_u32_be split_at_def)

lemma de_bigint_tagged [codec_simps]:
  "bigint_ok L \<Longrightarrow> fits_int L n \<Longrightarrow>
   de_bigint L mk (u32_be (length (to_signed_bytes_be L n)) @ to_signed_bytes_be L n) = Some (mk n)"
  by (simp add: de_bigint_def read_u32_be fits_int_def bigint_ok_def)

subsection \<open>Sequences of encoded values\<close>

definition codec :: "(bytes \<Rightarrow> nat option) \<times> (bytes \<Rightarrow> val parse) \<Rightarrow> val \<times> bytes \<Rightarrow> bool" where
  "codec d vb \<longleftrightarrow> (\<forall>rest. fst d (snd vb @ rest) = Some (length (snd vb))) \<and> snd d (snd vb) = Got (fst vb)"

lemma get_from_append [simp]: "length pre = n \<Longrightarrow> get_from n (pre @ bs) = Some bs"
  by (auto simp: get_from_def)

lemma sized_many_concat:
  "list_all2 codec ds vbs \<Longrightarrow> off = length pre \<Longrightarrow>
   sized_many (map fst ds) (pre @ concat (map snd vbs) @ rest) off
     = Some (off + length (concat (map snd vbs)))"
proof (induction arbitrary: pre off rule: list_all2_induct)
  case Nil
  then show ?case by simp
next
  case (Cons d ds vb vbs)
  have "sized_many (map fst ds) ((pre @ snd vb) @ concat (map snd vbs) @ rest) (length (pre @ snd vb))
      = Some (length (pre @ snd vb) + length (concat (map snd vbs)))"
    by (rule Cons.IH) simp
  with Cons show ?case by (simp add: codec_def)
qed

lemma de_many_concat:
  "list_all2 codec ds vbs \<Longrightarrow> off = length pre \<Longrightarrow>
   de_many ds (pre @ concat (map snd vbs)) off = Got (map fst vbs)"
proof (induction arbitrary: pre off rule: list_all2_induct)
  case Nil
  then show ?case by simp
next
  case (Cons d ds vb vbs)
  have "de_many ds ((pre @ snd vb) @ concat (map snd vbs)) (length (pre @ snd vb)) = Got (map fst vbs)"
    by (rule Cons.IH) simp
  with Cons show ?case by (simp add: codec_def)
qed

subsection \<open>Json composites round trip\<close>

definition jcodec :: "bigint_lib \<Rightarrow> val \<Rightarrow> bytes \<Rightarrow> bool" where
  "jcodec L v b \<longleftrightarrow> (\<forall>rest. json_value_size (b @ rest) = Some (length b)) \<and> de_json_value L b = Some v"

definition entry_bytes :: "string \<Rightarrow> bytes \<Rightarrow> bytes" where
  "entry_bytes k vb = u32_be (length (as_bytes k)) @ as_bytes k @ vb"

lemma json_sizes_concat:
  "list_all2 (jcodec L) vs bss \<Longrightarrow> off = length pre \<Longrightarrow>
   json_sizes (length vs) (pre @ concat bss @ rest) off = Some (off + length (concat bss))"
proof (induction arbitrary: pre off rule: list_all2_induct)
  case Nil
  then show ?case by simp
next
  case (Cons v vs b bss)
  have "json_sizes (length vs) ((pre @ b) @ concat bss @ rest) (length (pre @ b))
      = Some (length (pre @ b) + length (concat bss))"
    by (rule Cons.IH) simp
  with Cons show ?case by (simp add: jcodec_def)
qed

lemma read_items_concat:
  "list_all2 (jcodec L) vs bss \<Longrightarrow> off = length pre \<Longrightarrow>
   read_items L (length vs) (pre @ concat bss @ rest) off = Some (vs, off + length (concat bss))"
proof (induction arbitrary: pre off rule: list_all2_induct)
  case Nil
  then show ?case by simp
next
  case (Cons v vs b bss)
  have "read_items L (length vs) ((pre @ b) @ concat bss @ rest) (length (pre @ b))
      = Some (vs, length (pre @ b) + length (concat bss))"
    by (rule Cons.IH) simp
  with Cons show ?case by (simp add: jcodec_def)
qed

definition pcodec :: "bigint_lib \<Rightarrow> string \<times> val \<Rightarrow> bytes \<Rightarrow> bool" where
  "pcodec L e b \<longleftrightarrow> utf8_str (fst e) \<and> (\<exists>vb. b = entry_bytes (fst e) vb \<and> jcodec L (snd e) vb)"

lemma json_pair_sizes_concat:
  "list_all2 (pcodec L) ps bss \<Longrightarrow> off = length pre \<Longrightarrow>
   json_pair_sizes (length ps) (pre @ concat bss @ rest) off = Some (off + length (concat bss))"
proof (induction arbitrary: pre off rule: list_all2_induct)
  case Nil
  then show ?case by simp
next
  case (Cons e ps b bss)
  from Cons.hyps obtain vb where b: "b = entry_bytes (fst e) vb" and vb: "jcodec L (snd e) vb"
    and k: "length (fst e) < 2 ^ 32" by (auto simp: pcodec_def utf8_str_def)
  have "json_pair_sizes (length ps) ((pre @ b) @ concat bss @ rest) (length (pre @ b))
      = Some (length (pre @ b) + length (concat bss))"
    by (rule Cons.IH) simp
  with Cons.prems b vb k show ?case
    by (simp add: jcodec_def entry_bytes_def read_u32_be add.assoc)
qed

lemma hm_insert_fresh: "k \<notin> fst ` set m \<Longrightarrow> hm_insert k v m = m @ [(k, v)]"
  unfolding hm_insert_def by (induction m) auto

lemma read_pairs_concat:
  "list_all2 (pcodec L) ps bss \<Longrightarrow> off = length pre \<Longrightarrow> distinct (map fst (m @ ps)) \<Longrightarrow>
   read_pairs L (length ps) (pre @ concat bss @ rest) off m = Some (m @ ps, off + length (concat bss))"
proof (induction arbitrary: pre off m rule: list_all2_induct)
  case Nil
  then show ?case by simp
next
  case (Cons e ps b bss)
  from Cons.hyps obtain vb where b: "b = entry_bytes (fst e) vb" and vb: "jcodec L (snd e) vb"
    and k: "length (fst e) < 2 ^ 32" "utf8_valid (as_bytes (fst e))"
    by (auto simp: pcodec_def utf8_str_def)
  from Cons.prems have fresh: "hm_insert (fst e) (snd e) m = m @ [e]"
    by (subst hm_insert_fresh) auto
  have "read_pairs L (length ps) ((pre @ b) @ concat bss @ rest) (length (pre @ b)) (m @ [e])
      = Some ((m @ [e]) @ ps, length (pre @ b) + length (concat bss))"
    by (rule Cons.IH) (use Cons.prems in auto)
  with Cons.prems b vb k fresh show ?case
    by (simp add: jcodec_def entry_bytes_def read_u32_be add.assoc slice_def codec_simps)
qed

definition json_ok :: "bigint_lib \<Rightarrow> json \<Rightarrow> bytes \<Rightarrow> bool" where
  "json_ok L j b \<longleftrightarrow> (\<forall>rest. byte_size (b @ rest) = Some (length b)) \<and> read_json L b = Some (j, length b)
      \<and> b \<noteq> []"

lemma jcodec_VJson: "json_ok L j b \<Longrightarrow> jcodec L (VJson j) (TAG_JSON # b)"
  by (cases b) (auto simp: json_ok_def jcodec_def)

lemma json_ok_JArray:
  assumes "list_all2 (jcodec L) vs bss" "length vs < 2 ^ 32"
  shows "json_ok L (JArray vs) (J_ARRAY # u32_be (length vs) @ concat bss)"
proof -
  have "json_sizes (length vs) ((J_ARRAY # u32_be (length vs)) @ concat bss @ rest) 5
      = Some (5 + length (concat bss))" for rest
    by (rule json_sizes_concat [OF assms(1)]) simp
  moreover have "read_items L (length vs) ((J_ARRAY # u32_be (length vs)) @ concat bss @ []) 5
      = Some (vs, 5 + length (concat bss))"
    by (rule read_items_concat [OF assms(1)]) simp
  ultimately show ?thesis using assms(2) by (simp add: json_ok_def read_u32_be)
qed

lemma json_ok_JObject:
  assumes "list_all2 (pcodec L) ps bss" "length ps < 2 ^ 32" "distinct (map fst ps)"
  shows "json_ok L (JObject ps) (J_OBJECT # u32_be (length ps) @ concat bss)"
proof -
  have "json_pair_sizes (length ps) ((J_OBJECT # u32_be (length ps)) @ concat bss @ rest) 5
      = Some (5 + length (concat bss))" for rest
    by (rule json_pair_sizes_concat [OF assms(1)]) simp
  moreover have "read_pairs L (length ps) ((J_OBJECT # u32_be (length ps)) @ concat bss @ []) 5 []
      = Some ([] @ ps, 5 + length (concat bss))"
    by (rule read_pairs_concat [OF assms(1)]) (use assms(3) in simp_all)
  ultimately show ?thesis using assms(2) by (simp add: json_ok_def read_u32_be)
qed

lemma mapM_ex:
  "(\<And>x. x \<in> set xs \<Longrightarrow> \<exists>y. f x = Some y \<and> P x y) \<Longrightarrow> \<exists>ys. mapM f xs = Some ys \<and> list_all2 P xs ys"
proof (induction xs)
  case Nil
  then show ?case by simp
next
  case (Cons x xs)
  then obtain y ys where "f x = Some y" "P x y" "mapM f xs = Some ys" "list_all2 P xs ys"
    by (metis list.set_intros)
  then show ?case by auto
qed

lemma jwt_codec:
  "bigint_ok L \<Longrightarrow> jwt L v \<Longrightarrow> \<exists>b. serialize L v = Some b \<and> jcodec L v b"
  "bigint_ok L \<Longrightarrow> jwt_json L j \<Longrightarrow> \<exists>b. write_json L j = Some b \<and> json_ok L j b"
proof (induction L v and L j rule: jwt_jwt_json.induct)
  case (6 L j)
  then show ?case using jcodec_VJson by fastforce
next
  case (9 L items)
  then have "\<exists>bss. mapM (serialize L) items = Some bss \<and> list_all2 (jcodec L) items bss"
    by (intro mapM_ex) (auto simp: list_all_iff)
  with 9 show ?case using json_ok_JArray by fastforce
next
  case (10 L m)
  then have "\<exists>bss. mapM (\<lambda>e. do { vb \<leftarrow> serialize L (snd e);
        Some (u32_be (length (as_bytes (fst e))) @ as_bytes (fst e) @ vb) }) m = Some bss
      \<and> list_all2 (pcodec L) m bss"
    by (intro mapM_ex) (fastforce simp: list_all_iff pcodec_def entry_bytes_def)
  with 10 show ?case using json_ok_JObject by fastforce
qed (auto simp: jcodec_def json_ok_def tagged_str_def sized_prim_def de_prim_def de_bool_def
      fits_int_def utf8_str_def codec_simps)



subsection \<open>Every storable value round trips\<close>

definition vc :: "bigint_lib \<Rightarrow> ty \<Rightarrow> (bytes \<Rightarrow> nat option) \<times> (bytes \<Rightarrow> val parse)" where
  "vc L t = (\<lambda>b. sized_value b t, \<lambda>b. deserialize L b t)"

definition vcodec :: "bigint_lib \<Rightarrow> ty \<Rightarrow> val \<Rightarrow> bool" where
  "vcodec L t v \<longleftrightarrow> (\<exists>b. serialize L v = Some b \<and> codec (vc L t) (v, b))"

lemma vc_abs: "vc L = (\<lambda>t. (\<lambda>b. sized_value b t, \<lambda>b. deserialize L b t))"
  by (simp add: vc_def fun_eq_iff)

lemma mapM_map: "mapM f (map g xs) = mapM (\<lambda>x. f (g x)) xs"
  by (induction xs) auto

lemma vcodec_list:
  "list_all2 (vcodec L) ts vs \<Longrightarrow>
   \<exists>bss. mapM (serialize L) vs = Some bss \<and> length bss = length vs \<and> list_all2 codec (map (vc L) ts) (zip vs bss)"
proof (induction rule: list_all2_induct)
  case Nil
  then show ?case by simp
next
  case (Cons t ts v vs)
  then obtain b bss where "serialize L v = Some b" "codec (vc L t) (v, b)"
    "mapM (serialize L) vs = Some bss" "length bss = length vs"
    "list_all2 codec (map (vc L) ts) (zip vs bss)"
    by (auto simp: vcodec_def)
  then show ?case by (intro exI [of _ "b # bss"]) simp
qed

lemma vcodec_struct:
  assumes "list_all2 (vcodec L) (map snd flds) (map snd vs)" "map fst vs = map fst flds"
  shows "vcodec L (TStruct name flds gs) (VStruct name vs)"
    and "vcodec L (TCap name flds m) (VStruct name vs)"
proof -
  from vcodec_list [OF assms(1)] obtain bss where
    m: "mapM (serialize L) (map snd vs) = Some bss" and l: "length bss = length vs"
    and c: "list_all2 codec (map (vc L) (map snd flds)) (zip (map snd vs) bss)"
    by auto
  have s: "sized_many (map fst (map (vc L) (map snd flds))) ([TAG_STRUCT] @ concat bss @ rest) 1
      = Some (1 + length (concat bss))" for rest
    using sized_many_concat [OF c, of 1 "[TAG_STRUCT]" rest] l by simp
  have d: "de_many (map (vc L) (map snd flds)) ([] @ concat bss) 0 = Got (map snd vs)"
    using de_many_concat [OF c, of 0 "[]"] l by simp
  have z: "zip (map fst flds) (map snd vs) = vs"
    unfolding assms(2) [symmetric] by (rule zip_map_fst_snd)
  show "vcodec L (TStruct name flds gs) (VStruct name vs)"
    and "vcodec L (TCap name flds m) (VStruct name vs)"
    using m s d z by (auto simp: vcodec_def codec_def vc_def with_tag_def tag_sized_def mapM_map comp_def)
qed

lemma vcodec_array:
  assumes "\<And>v. v \<in> set vs \<Longrightarrow> vcodec L e v" "length vs < 2 ^ 32"
  shows "vcodec L (TArray e) (VArray vs)"
proof -
  have "list_all2 (vcodec L) (replicate (length vs) e) vs"
    using assms(1) by (simp add: list_all2_conv_all_nth)
  from vcodec_list [OF this] obtain bss where
    m: "mapM (serialize L) vs = Some bss" and l: "length bss = length vs"
    and c: "list_all2 codec (replicate (length vs) (vc L e)) (zip vs bss)"
    by auto
  let ?hd = "TAG_ARRAY # u32_be (length vs)"
  have s: "sized_many (map fst (replicate (length vs) (vc L e))) (?hd @ concat bss @ rest) 5
      = Some (5 + length (concat bss))" for rest
    using sized_many_concat [OF c, of 5 ?hd rest] l by simp
  have d: "de_many (replicate (length vs) (vc L e)) (u32_be (length vs) @ concat bss) 4 = Got vs"
    using de_many_concat [OF c, of 4 "u32_be (length vs)"] l by simp
  show ?thesis using m s d assms(2)
    by (auto simp: vcodec_def codec_def vc_def with_tag_def tag_sized_def read_u32_be)
qed

lemma map_of_vc:
  "map_of (map (\<lambda>v. (fst v, map g (snd v))) variants) k = map_option (map g) (map_of variants k)"
  by (induction variants) auto

lemma vcodec_enum:
  assumes "map_of variants variant = Some ts" "list_all2 (vcodec L) ts vs" "utf8_str variant"
  shows "vcodec L (TEnum name variants) (VEnum name variant vs)"
proof -
  from vcodec_list [OF assms(2)] obtain bss where
    m: "mapM (serialize L) vs = Some bss" and l: "length bss = length vs"
    and c: "list_all2 codec (map (vc L) ts) (zip vs bss)"
    by auto
  let ?n = "u32_be (length (as_bytes variant)) @ as_bytes variant"
  have s: "sized_many (map fst (map (vc L) ts)) ((TAG_ENUM # ?n) @ concat bss @ rest) (5 + length variant)
      = Some (5 + length variant + length (concat bss))" for rest
    using sized_many_concat [OF c, of "5 + length variant" "TAG_ENUM # ?n" rest] l by simp
  have d: "de_many (map (vc L) ts) (?n @ concat bss) (4 + length variant) = Got vs"
    using de_many_concat [OF c, of "4 + length variant" ?n] l by simp
  show ?thesis using m s d assms(1,3)
    by (auto simp: vcodec_def codec_def vc_abs with_tag_def tag_sized_def read_u32_be utf8_str_def
        tagged_str_def split_at_append map_of_vc from_utf8_as_bytes comp_def)
qed

lemma list_all2_wt:
  assumes "list_all2 (\<lambda>P e. P (g e)) (map (wt L) ts) vs" "\<And>t v. t \<in> set ts \<Longrightarrow> wt L t v \<Longrightarrow> vcodec L t v"
  shows "list_all2 (vcodec L) ts (map g vs)"
  using assms by (auto simp: list_all2_conv_all_nth)

lemma vcodec_interface:
  "utf8_str i \<Longrightarrow> utf8_str m \<Longrightarrow> vcodec L (TInterface n ms) (VInterface i m)"
  by (auto simp: vcodec_def codec_def vc_def with_tag_def tag_sized_def read_u32_be utf8_str_def
      tagged_str_def split_at_def from_utf8_as_bytes)

lemmas leaf_codec_defs = vcodec_def codec_def vc_def with_tag_def tag_sized_def tag_size_def tagged_str_def
  de_fixed_def de_bool_def fits_int_def utf8_str_def slice_def

lemma vcodec_ints:
  "bigint_ok L \<Longrightarrow> fits_int L n \<Longrightarrow> vcodec L TInt (VInt n)"
  "bigint_ok L \<Longrightarrow> fits_int L n \<Longrightarrow> vcodec L TUInt (VUInt n)"
  by (simp_all add: leaf_codec_defs codec_simps)

lemma vcodec_leaves:
  "vcodec L TFloat (VFloat f)" "vcodec L TI32 (VI32 i)" "vcodec L TU32 (VU32 i)"
  "vcodec L TU64 (VU64 w)" "vcodec L TU128 (VU128 x)" "vcodec L TBool (VBool b)"
  "vcodec L TUnit VUnit" "vcodec L TResource (VResource w)"
  "vcodec L (TPMap kt vt) (VPMap x)" "vcodec L (TPBTree kt vt) (VPBTree x)"
  "vcodec L (TPVec et) (VPVec w x)"
  by (simp_all add: leaf_codec_defs codec_simps)

lemma vcodec_strings:
  "utf8_str s \<Longrightarrow> vcodec L TString (VStr s)" "utf8_str s \<Longrightarrow> vcodec L TAddress (VAddress s)"
  "length d < 2 ^ 32 \<Longrightarrow> vcodec L TBytes (VBytes d)"
  by (simp_all add: leaf_codec_defs codec_simps)

lemma vcodec_json: "bigint_ok L \<Longrightarrow> jwt L v \<Longrightarrow> vcodec L TJson v"
  by (auto dest!: jwt_codec(1) simp: vcodec_def codec_def vc_def jcodec_def)

lemmas vcodec_intros = vcodec_ints vcodec_leaves vcodec_strings vcodec_json vcodec_array
  vcodec_struct vcodec_enum vcodec_interface

lemma wt_vcodec: "wt L t v \<Longrightarrow> bigint_ok L \<Longrightarrow> vcodec L t v"
proof (induction L t v rule: wt.induct)
  case (15 L name flds gs v)
  then obtain vs where v: "v = VStruct name vs" "map fst vs = map fst flds"
    and "list_all2 (\<lambda>P e. P (snd e)) (map (wt L) (map snd flds)) vs"
    by (auto split: val.splits simp: comp_def)
  then have "list_all2 (vcodec L) (map snd flds) (map snd vs)"
    by (rule_tac list_all2_wt) (use 15 v in auto)
  with v show ?case by (simp add: vcodec_struct)
next
  case (16 L name flds m v)
  then obtain vs where v: "v = VStruct name vs" "map fst vs = map fst flds"
    and "list_all2 (\<lambda>P e. P (snd e)) (map (wt L) (map snd flds)) vs"
    by (auto split: val.splits simp: comp_def)
  then have "list_all2 (vcodec L) (map snd flds) (map snd vs)"
    by (rule_tac list_all2_wt) (use 16 v in auto)
  with v show ?case by (simp add: vcodec_struct)
next
  case (17 L name variants v)
  then obtain variant vs ts where v: "v = VEnum name variant vs" "utf8_str variant"
    and ts: "map_of variants variant = Some ts" and "list_all2 (\<lambda>P. P) (map (wt L) ts) vs"
    by (auto split: val.splits option.splits simp: map_of_vc)
  moreover have "\<exists>c \<in> set variants. ts = snd c" using ts by (force dest: map_of_SomeD)
  ultimately have "list_all2 (vcodec L) ts (map (\<lambda>x. x) vs)"
    by (rule_tac list_all2_wt) (use 17 v in auto)
  with v ts show ?case by (simp add: vcodec_enum)
qed (auto split: val.splits simp: list_all_iff intro!: vcodec_intros)



subsection \<open>A concrete integer codec\<close>

text \<open>
  Two's complement, little end first, then reversed: an instance of \<open>bigint_lib\<close> that
  satisfies \<open>bigint_ok\<close>, used where a theorem's hypothesis on the library is shown to hold.
\<close>

function to_le :: "int \<Rightarrow> bytes" where
  "to_le n = (if - 128 \<le> n \<and> n < 128 then [word_of_int n] else word_of_int n # to_le (n div 256))"
  by pat_completeness auto
termination
  by (relation "measure (\<lambda>n. nat \<bar>n\<bar>)") auto

fun from_le :: "bytes \<Rightarrow> int" where
  "from_le [] = 0"
| "from_le [b] = sint b"
| "from_le (b # c # bs) = uint b + 256 * from_le (c # bs)"

declare to_le.simps [simp del]

definition twos_lib :: bigint_lib where
  "twos_lib = \<lparr>to_signed_bytes_be = (\<lambda>n. rev (to_le n)), from_signed_bytes_be = (\<lambda>bs. from_le (rev bs))\<rparr>"

lemma to_le_nonempty [simp]: "to_le n \<noteq> []"
  by (subst to_le.simps) simp

lemma from_le_Cons: "bs \<noteq> [] \<Longrightarrow> from_le (b # bs) = uint b + 256 * from_le bs"
  by (cases bs) auto

lemma from_le_to_le: "from_le (to_le n) = n"
proof (induction n rule: to_le.induct)
  case (1 n)
  show ?case
  proof (cases "- 128 \<le> n \<and> n < 128")
    case True
    then show ?thesis by (simp add: to_le.simps [of n] signed_of_int signed_take_bit_int_eq_self)
  next
    case False
    then have "to_le n = word_of_int n # to_le (n div 256)" by (subst to_le.simps) auto
    with False "1" have "from_le (to_le n) = n mod 256 + 256 * (n div 256)"
      by (simp add: from_le_Cons uint_word_of_int)
    then show ?thesis by simp
  qed
qed

lemma bigint_ok_twos_lib: "bigint_ok twos_lib"
  by (simp add: bigint_ok_def twos_lib_def from_le_to_le)

subsection \<open>Properties\<close>

lemma deserialize_unwrap: "deserialize L b t = deserialize L b (unwrap_explicit t)"
  by (induction t rule: unwrap_explicit.induct) auto

text \<open>C4 (round trip): every value that is storable at a type is encoded without a panic, and
  decoding the bytes under that type (or under any explicit-literal wrapping of it) returns
  exactly the value.\<close>

theorem deserialize_serialize:
  assumes "bigint_ok L" and "wt L (unwrap_explicit t) v"
  shows "\<exists>b. serialize L v = Some b \<and> deserialize L b t = Got v"
  using wt_vcodec [OF assms(2,1)]
  by (auto simp: vcodec_def codec_def vc_def deserialize_unwrap [of L _ t])

theorem deserialize_serialize_witness:
  "\<exists>b. serialize twos_lib (VStruct ''P'' [(''x'', VInt (- 70000)), (''y'', VArray [VU64 7, VU64 9])]) = Some b
     \<and> deserialize twos_lib b (TStruct ''P'' [(''x'', TInt), (''y'', TArray TU64)] [])
       = Got (VStruct ''P'' [(''x'', VInt (- 70000)), (''y'', VArray [VU64 7, VU64 9])])"
  by (rule deserialize_serialize [OF bigint_ok_twos_lib])
     (simp add: fits_int_def twos_lib_def to_le.simps)

text \<open>In any longer slice the encoding is followed by, \<open>sized_value\<close> returns exactly
  its length, so that arrays, structs and enums find where each component ends.\<close>

theorem sized_value_serialize:
  assumes "bigint_ok L" and "wt L t v" and "serialize L v = Some b"
  shows "sized_value (b @ rest) t = Some (length b)"
  using wt_vcodec [OF assms(2,1)] assms(3) by (simp add: vcodec_def codec_def vc_def)

theorem sized_value_serialize_witness:
  "sized_value ([0x01, 0, 0, 0, 3, 0xFE, 0xEE, 0x90] @ [0x03, 0x03]) TInt = Some 8"
proof -
  have "serialize twos_lib (VInt (- 70000)) = Some [0x01, 0, 0, 0, 3, 0xFE, 0xEE, 0x90]"
    by (simp add: tagged_str_def twos_lib_def to_le.simps eval_simps)
  from sized_value_serialize [OF bigint_ok_twos_lib _ this, of TInt "[0x03, 0x03]"]
  show ?thesis by (simp add: fits_int_def twos_lib_def to_le.simps)
qed

text \<open>The encoding is canonical at a type. Two storable values of one type are
  equal exactly when their bytes are: comparing serialized keys is comparing keys.\<close>

theorem serialize_injective:
  assumes "bigint_ok L" and "wt L t v" and "wt L t w"
  shows "serialize L v = serialize L w \<longleftrightarrow> v = w"
  using wt_vcodec [OF assms(2,1)] wt_vcodec [OF assms(3,1)]
  by (auto simp: vcodec_def codec_def)

theorem serialize_injective_witness:
  "serialize twos_lib (VStr ''ab'') = serialize twos_lib (VStr ''ac'') \<longleftrightarrow> VStr ''ab'' = VStr ''ac''"
  by (rule serialize_injective [OF bigint_ok_twos_lib, of TString])
     (simp_all add: utf8_str_def as_bytes_def of_char_def)

text \<open>\<open>deserialize\<close> is not total on malformed bytes. A slice that declares one element
  of an integer array and is cut off inside it makes the code index past the end of the slice
  (a panic), instead of rejecting it as it rejects other malformed cells.\<close>

theorem deserialize_truncated_panics:
  "deserialize L [TAG_ARRAY, 0, 0, 0, 1, TAG_INT, 0, 0, 0, 5] (TArray TInt) = Panic
   \<and> deserialize L [TAG_ARRAY, 0, 0, 0, 1] (TArray TInt) = Miss"
  by (simp add: with_tag_def get_from_def tag_sized_def sized_str_def eval_simps)

text \<open>A struct blob with a field of explicit-literal type cannot be read back.
  \<open>deserialize\<close> strips the wrapper, but \<open>sized_value\<close>, which locates the field, does not know it,
  so the whole struct is rejected although it was encoded correctly.\<close>

theorem explicit_literal_field_is_lost:
  "serialize L (VStruct n [(f, VU64 w)]) = Some (TAG_STRUCT # TAG_U64 # be_bytes 8 (unat w))
   \<and> deserialize L (TAG_STRUCT # TAG_U64 # be_bytes 8 (unat w)) (TStruct n [(f, TExplicitLiteral TU64)] gs) = Miss
   \<and> deserialize L (TAG_STRUCT # TAG_U64 # be_bytes 8 (unat w)) (TStruct n [(f, TU64)] gs)
     = Got (VStruct n [(f, VU64 w)])"
  by (simp add: leaf_codec_defs get_from_def codec_simps)

end
