(* ===== verification/Kv.thy ===== *)
theory Kv
  imports Serialize
begin

section \<open>Key-value backends\<close>

text \<open>
  \<^verbatim>\<open>crates/rend/src/kv.rs\<close>: the trait \<^verbatim>\<open>Kv\<close> is its \<^verbatim>\<open>get\<close> function (\<open>kv\<close>), whose default
  \<^verbatim>\<open>get_many\<close> is one \<^verbatim>\<open>get\<close> per key; \<open>in_memory_kv\<close> is the in-memory store with its writes, and
  \<open>stacked_get\<close> is the read-only overlay view of \<^verbatim>\<open>occ.rs\<close>.
\<close>

type_synonym kv = "u128 \<Rightarrow> bytes option"

definition kv_get_many :: "kv \<Rightarrow> u128 list \<Rightarrow> bytes option list" where
  "kv_get_many s ks = map s ks"

record in_memory_kv =
  kv_data :: "(u128, bytes) hashmap"

definition kv_new :: in_memory_kv where
  "kv_new = \<lparr>kv_data = []\<rparr>"

definition kv_get :: "in_memory_kv \<Rightarrow> kv" where
  "kv_get s k = hm_get (kv_data s) k"

definition empty_kv :: kv where
  "empty_kv k = None"

definition kv_put :: "in_memory_kv \<Rightarrow> u128 \<Rightarrow> bytes \<Rightarrow> in_memory_kv" where
  "kv_put s k b = s\<lparr>kv_data := hm_insert k b (kv_data s)\<rparr>"

definition put_value :: "bigint_lib \<Rightarrow> in_memory_kv \<Rightarrow> u128 \<Rightarrow> val \<Rightarrow> in_memory_kv option" where
  "put_value L s k v = do { b \<leftarrow> serialize L v; Some (kv_put s k b) }"

definition get_typed :: "bigint_lib \<Rightarrow> in_memory_kv \<Rightarrow> u128 \<Rightarrow> ty \<Rightarrow> val parse" where
  "get_typed L s k t = pbind (or_miss (kv_get s k)) (\<lambda>b. deserialize L b t)"

primrec put_many :: "in_memory_kv \<Rightarrow> (u128 \<times> bytes) list \<Rightarrow> in_memory_kv" where
  "put_many s [] = s"
| "put_many s (w # ws) = put_many (kv_put s (fst w) (snd w)) ws"

definition serialize_write :: "bigint_lib \<Rightarrow> u128 \<times> val \<Rightarrow> (u128 \<times> bytes) option" where
  "serialize_write L w = do { b \<leftarrow> serialize L (snd w); Some (fst w, b) }"

definition apply_writes :: "bigint_lib \<Rightarrow> in_memory_kv \<Rightarrow> (u128, val) hashmap \<Rightarrow> in_memory_kv option" where
  "apply_writes L s ws =
     (if ws = [] then Some s
      else do { bs \<leftarrow> mapM (serialize_write L) ws; Some (put_many s bs) })"

definition stacked_get :: "bigint_lib \<Rightarrow> (u128, val) hashmap \<Rightarrow> kv \<Rightarrow> u128 \<Rightarrow> bytes option option" where
  \<comment> \<open>the outer \<open>None\<close> is a panic of \<open>serialize\<close> on an overlay value\<close>
  "stacked_get L overlay base k =
     (case hm_get overlay k of
        Some v \<Rightarrow> map_option Some (serialize L v)
      | None \<Rightarrow> Some (base k))"

subsection \<open>Reading back what was written\<close>

lemma kv_get_put [simp]: "kv_get (kv_put s k b) k' = (if k' = k then Some b else kv_get s k')"
  by (simp add: kv_get_def kv_put_def)

lemma kv_get_put_many:
  "kv_get (put_many s ws) k = (case map_of (rev ws) k of Some b \<Rightarrow> Some b | None \<Rightarrow> kv_get s k)"
  by (induction ws arbitrary: s) (auto simp: map_add_def split: option.splits)

lemma map_of_serialize_writes:
  "mapM (serialize_write L) ws = Some bs \<Longrightarrow> distinct (map fst ws) \<Longrightarrow>
   map_of (rev bs) k = (case map_of ws k of None \<Rightarrow> None | Some v \<Rightarrow> serialize L v)"
proof (induction ws arbitrary: bs)
  case Nil
  then show ?case by simp
next
  case (Cons w ws)
  from Cons.prems(1) obtain b bs' where b: "serialize L (snd w) = Some b"
    and bs': "mapM (serialize_write L) ws = Some bs'" and bs: "bs = (fst w, b) # bs'"
    by (auto simp: serialize_write_def [of L w] Option.bind_eq_Some_conv)
  with Cons have IH [simp]: "map_of (rev bs') k = (case map_of ws k of None \<Rightarrow> None | Some v \<Rightarrow> serialize L v)"
    by simp
  have "map_of ws (fst w) = None" using Cons.prems(2) by (simp add: map_of_eq_None_iff)
  with IH b bs show ?case by (cases w) (auto simp: map_add_def split: option.splits)
qed

text \<open>Committing a write set changes exactly its keys: afterwards a key of the set
  holds the serialization of its value and every other key holds what it held before.\<close>

theorem apply_writes_get:
  assumes "apply_writes L s ws = Some s'" and "hm_ok ws"
  shows "kv_get s' k = (case hm_get ws k of Some v \<Rightarrow> serialize L v | None \<Rightarrow> kv_get s k)"
proof (cases "ws = []")
  case True
  with assms show ?thesis by (simp add: apply_writes_def)
next
  case False
  with assms obtain bs where bs: "mapM (serialize_write L) ws = Some bs" and s': "s' = put_many s bs"
    by (auto simp: apply_writes_def split: bind_splits)
  have "serialize L v \<noteq> None" if "map_of ws k = Some v" for v
  proof -
    from that have "(k, v) \<in> set ws" by (rule map_of_SomeD)
    with bs show ?thesis
      by (induction ws arbitrary: bs) (auto simp: serialize_write_def [of L "(k, v)"] Option.bind_eq_Some_conv)
  qed
  then show ?thesis
    using map_of_serialize_writes [OF bs, of k] assms(2)
    by (cases "map_of ws k") (auto simp: s' kv_get_put_many hm_get_def hm_ok_def split: option.splits)
qed

theorem apply_writes_get_witness:
  "kv_get (put_many kv_new [(7, [0x12, 0, 0, 0, 0, 0, 0, 0, 5])]) 7 = Some [0x12, 0, 0, 0, 0, 0, 0, 0, 5]"
proof -
  have "apply_writes L kv_new [(7, VU64 5)] = Some (put_many kv_new [(7, [0x12, 0, 0, 0, 0, 0, 0, 0, 5])])"
    for L by (simp add: apply_writes_def serialize_write_def eval_simps)
  from apply_writes_get [OF this [of twos_lib], of 7] show ?thesis
    by (simp add: hm_ok_def hm_get_def eval_simps)
qed

end
