(* ===== verification/PMapNode.thy ===== *)
theory PMapNode
  imports Kv
begin

section \<open>HAMT nodes: format, slots and hashes\<close>

text \<open>
  The node layer of \<^verbatim>\<open>crates/rend/src/pmap.rs\<close>: the two node shapes, their wire format, the
  content-addressed cell key, the key hash and the five-bit slot of a level. The transaction
  layer decodes nodes too (it drives lazy lookups), so this theory comes before it; the
  operations of the map are in \<open>PMap\<close>.

  \<open>decode_encode_node\<close>: a well-formed node is read back from its own bytes.
\<close>

definition MAX_LEVELS :: nat where "MAX_LEVELS = 10"
definition PMAP_NODE_NS :: u128 where "PMAP_NODE_NS = 0x504D41504E4F4445504D41504E4F4445"

abbreviation TAG_INNER :: u8 where "TAG_INNER \<equiv> 0x01"
abbreviation TAG_LEAF :: u8 where "TAG_LEAF \<equiv> 0x02"
abbreviation EMPTY :: u128 where "EMPTY \<equiv> 0"

datatype pmap_node = PInner u32 "u128 list" | PLeaf "(val \<times> val) list"

definition pmap_cell_key :: "bytes \<Rightarrow> u128" where
  "pmap_cell_key bs = child PMAP_NODE_NS bs"

definition count_ones :: "u32 \<Rightarrow> nat" where
  "count_ones w = length (filter (bit w) [0..<32])"

definition bits_at :: "u64 \<Rightarrow> nat \<Rightarrow> nat" where
  "bits_at h level = unat ((ucast (drop_bit (level * 5) h) :: u32) AND 31)"

definition slot_bit :: "nat \<Rightarrow> u32" where
  "slot_bit slot = push_bit slot 1"

definition child_index :: "u32 \<Rightarrow> nat \<Rightarrow> nat" where
  "child_index bitmap slot = count_ones (bitmap AND (slot_bit slot - 1))"

definition hash_key :: "bigint_lib \<Rightarrow> val \<Rightarrow> u64 option" where
  "hash_key L key = do { b \<leftarrow> serialize L key; Some (ucast (child 0 b)) }"

subsection \<open>Node format\<close>

definition serialize_inner :: "u32 \<Rightarrow> u128 list \<Rightarrow> bytes" where
  "serialize_inner bitmap children =
     TAG_INNER # be_bytes 4 (unat bitmap) @ [of_nat (length children)]
       @ concat (map (\<lambda>h. be_bytes 16 (unat h)) children)"

definition sort_entries :: "bigint_lib \<Rightarrow> (val \<times> val) list \<Rightarrow> (val \<times> val) list option" where
  "sort_entries L entries = do {
     kbs \<leftarrow> mapM (\<lambda>e. serialize L (fst e)) entries;
     Some (map snd (sort_key fst (zip kbs entries))) }"

definition entry_to_bytes :: "bigint_lib \<Rightarrow> val \<times> val \<Rightarrow> bytes option" where
  "entry_to_bytes L e = do {
     kb \<leftarrow> serialize L (fst e);
     vb \<leftarrow> serialize L (snd e);
     Some (u32_be (length kb) @ kb @ u32_be (length vb) @ vb) }"

definition serialize_leaf :: "bigint_lib \<Rightarrow> (val \<times> val) list \<Rightarrow> bytes option" where
  "serialize_leaf L entries = do {
     ordered \<leftarrow> sort_entries L entries;
     bss \<leftarrow> mapM (entry_to_bytes L) ordered;
     Some (TAG_LEAF # u32_be (length ordered) @ concat bss) }"

primrec read_hashes :: "nat \<Rightarrow> bytes \<Rightarrow> u128 list option" where
  "read_hashes 0 bs = Some []"
| "read_hashes (Suc n) bs = do {
     (b, rest) \<leftarrow> split_at 16 bs;
     hs \<leftarrow> read_hashes n rest;
     Some (of_nat (be_val b) # hs) }"

primrec read_entries :: "bigint_lib \<Rightarrow> ty \<Rightarrow> ty \<Rightarrow> nat \<Rightarrow> bytes \<Rightarrow> (val \<times> val) list parse" where
  "read_entries L kt vt 0 bs = Got []"
| "read_entries L kt vt (Suc n) bs =
     pbind (or_miss (do { (kl, r) \<leftarrow> read_u32 bs; split_at kl r })) (\<lambda>(kb, r1).
     pbind (deserialize L kb kt) (\<lambda>k.
     pbind (or_miss (do { (vl, r) \<leftarrow> read_u32 r1; split_at vl r })) (\<lambda>(vb, r2).
     pbind (deserialize L vb vt) (\<lambda>v.
     pbind (read_entries L kt vt n r2) (\<lambda>es. Got ((k, v) # es))))))"

definition deserialize_node :: "bigint_lib \<Rightarrow> bytes \<Rightarrow> ty \<Rightarrow> ty \<Rightarrow> pmap_node parse" where
  "deserialize_node L bs kt vt = (case bs of [] \<Rightarrow> Miss | tag # rest \<Rightarrow>
     if tag = TAG_INNER then or_miss (do {
       (bm, r) \<leftarrow> split_at 4 rest;
       (nb, r') \<leftarrow> split_at 1 r;
       children \<leftarrow> read_hashes (unat (hd nb)) r';
       (if count_ones (of_nat (be_val bm)) = unat (hd nb)
        then Some (PInner (of_nat (be_val bm)) children) else None) })
     else if tag = TAG_LEAF then
       pbind (or_miss (read_u32 rest)) (\<lambda>(n, r).
       pbind (read_entries L kt vt n r) (\<lambda>es. Got (PLeaf es)))
     else Miss)"

subsection \<open>Population counts and slots\<close>

lemma count_ones_le: "count_ones w \<le> 32"
  unfolding count_ones_def by (rule order_trans [OF length_filter_le]) simp

lemma bits_at_less: "bits_at h level < 32"
proof -
  have "(ucast (drop_bit (level * 5) h) :: u32) AND 31 \<le> 31" by (rule word_and_le1)
  then show ?thesis by (simp add: bits_at_def word_le_nat_alt)
qed

lemma bit_slot_bit: "i < 32 \<Longrightarrow> bit (slot_bit i) j \<longleftrightarrow> j = i"
  by (auto simp: slot_bit_def bit_simps)

lemma mask_slot: "i < 32 \<Longrightarrow> slot_bit i - 1 = mask i"
  by (simp add: slot_bit_def mask_eq_decr_exp push_bit_eq_mult)

lemma and_slot_bit: "i < 32 \<Longrightarrow> bitmap AND slot_bit i = 0 \<longleftrightarrow> \<not> bit bitmap i"
  by (auto simp: bit_eq_iff [of "bitmap AND slot_bit i" 0] bit_simps bit_slot_bit)

lemma child_index_eq:
  assumes "i < 32"
  shows "child_index bm i = length (filter (bit bm) [0..<i])"
proof -
  have "filter (bit (bm AND mask i)) [0..<32] = filter (bit (bm AND mask i)) ([0..<i] @ [i..<32])"
    using assms upt_add_eq_append [of 0 i "32 - i"] by simp
  also have "\<dots> = filter (bit bm) [0..<i]"
    using assms by (auto simp: bit_simps intro!: filter_cong)
  finally show ?thesis by (simp add: child_index_def mask_slot [OF assms] count_ones_def)
qed

lemma child_index_less:
  assumes "i < 32" "bit bm i"
  shows "child_index bm i < count_ones bm"
proof -
  have "[0..<32] = [0..<i] @ i # [Suc i..<32]"
    using assms(1) upt_add_eq_append [of 0 i "32 - i"] by (simp add: upt_conv_Cons)
  then show ?thesis using assms by (simp add: child_index_eq count_ones_def)
qed

subsection \<open>Nodes round trip through their bytes\<close>

definition entry_ok :: "bigint_lib \<Rightarrow> ty \<Rightarrow> ty \<Rightarrow> val \<times> val \<Rightarrow> bool" where
  "entry_ok L kt vt e \<longleftrightarrow> wt L kt (fst e) \<and> wt L vt (snd e)
     \<and> length (the (serialize L (fst e))) < 2 ^ 32 \<and> length (the (serialize L (snd e))) < 2 ^ 32"

definition key_bytes :: "bigint_lib \<Rightarrow> val \<times> val \<Rightarrow> bytes" where
  "key_bytes L e = the (serialize L (fst e))"

fun node_ok :: "bigint_lib \<Rightarrow> ty \<Rightarrow> ty \<Rightarrow> pmap_node \<Rightarrow> bool" where
  "node_ok L kt vt (PInner bm cs) = (length cs = count_ones bm)"
| "node_ok L kt vt (PLeaf es) = (length es < 2 ^ 32 \<and> list_all (entry_ok L kt vt) es
     \<and> sorted (map (key_bytes L) es))"

fun encode_node :: "bigint_lib \<Rightarrow> pmap_node \<Rightarrow> bytes option" where
  "encode_node L (PInner bm cs) = Some (serialize_inner bm cs)"
| "encode_node L (PLeaf es) = serialize_leaf L es"

lemma read_hashes_concat [codec_simps]:
  "read_hashes (length cs) (concat (map (\<lambda>h. be_bytes 16 (unat h)) cs) @ rest) = Some cs"
  by (induction cs) (simp_all add: codec_simps)

lemma wt_serialize: "bigint_ok L \<Longrightarrow> wt L t v \<Longrightarrow> \<exists>b. serialize L v = Some b \<and> deserialize L b t = Got v"
  using wt_vcodec [of L t v] by (auto simp: vcodec_def codec_def vc_def)

lemma entry_ok_bytes:
  assumes "bigint_ok L" "entry_ok L kt vt e"
  obtains kb vb where "serialize L (fst e) = Some kb" "serialize L (snd e) = Some vb"
    "deserialize L kb kt = Got (fst e)" "deserialize L vb vt = Got (snd e)"
    "length kb < 2 ^ 32" "length vb < 2 ^ 32"
  using assms wt_serialize [of L kt "fst e"] wt_serialize [of L vt "snd e"]
  by (auto simp: entry_ok_def)

lemma entries_round_trip:
  assumes "bigint_ok L" "list_all (entry_ok L kt vt) es"
  shows "\<exists>bss. mapM (entry_to_bytes L) es = Some bss
     \<and> read_entries L kt vt (length es) (concat bss) = Got es"
  using assms(2)
proof (induction es)
  case Nil
  then show ?case by simp
next
  case (Cons e es)
  then obtain bss where bss: "mapM (entry_to_bytes L) es = Some bss"
    "read_entries L kt vt (length es) (concat bss) = Got es" by auto
  from Cons.prems assms(1) obtain kb vb where "serialize L (fst e) = Some kb"
    "serialize L (snd e) = Some vb" "deserialize L kb kt = Got (fst e)" "deserialize L vb vt = Got (snd e)"
    "length kb < 2 ^ 32" "length vb < 2 ^ 32"
    by (auto elim: entry_ok_bytes)
  with bss show ?case by (simp add: entry_to_bytes_def [of L e] codec_simps)
qed

lemma sort_entries_sorted:
  assumes "bigint_ok L" "list_all (entry_ok L kt vt) es" "sorted (map (key_bytes L) es)"
  shows "sort_entries L es = Some es"
proof -
  have m: "mapM (\<lambda>e. serialize L (fst e)) es = Some (map (key_bytes L) es)"
    using assms(1,2) by (intro mapM_Some) (auto simp: list_all_iff key_bytes_def elim: entry_ok_bytes)
  have "sort_key fst (zip (map (key_bytes L) es) es) = zip (map (key_bytes L) es) es"
    using assms(3) by (intro sort_key_id_if_sorted) simp
  with m show ?thesis by (simp add: sort_entries_def)
qed

lemma decode_encode_leaf:
  assumes "bigint_ok L" "node_ok L kt vt (PLeaf es)"
  shows "\<exists>b. serialize_leaf L es = Some b \<and> deserialize_node L b kt vt = Got (PLeaf es)"
proof -
  from assms have es: "list_all (entry_ok L kt vt) es" "sorted (map (key_bytes L) es)" "length es < 2 ^ 32"
    by auto
  from entries_round_trip [OF assms(1) es(1)] obtain bss where
    "mapM (entry_to_bytes L) es = Some bss" "read_entries L kt vt (length es) (concat bss) = Got es" by auto
  with es sort_entries_sorted [OF assms(1) es(1,2)] show ?thesis
    by (simp add: serialize_leaf_def deserialize_node_def codec_simps)
qed

lemma decode_encode_inner:
  assumes "length cs = count_ones bm"
  shows "deserialize_node L (serialize_inner bm cs) kt vt = Got (PInner bm cs)"
proof -
  have "unat (of_nat (length cs) :: u8) = length cs"
    using count_ones_le [of bm] assms by (simp add: unat_of_nat_u8)
  then show ?thesis using assms read_hashes_concat [of cs "[]"]
    by (simp add: deserialize_node_def serialize_inner_def codec_simps split_at_def)
qed

text \<open>A well-formed HAMT node (an inner node whose child list matches its bitmap,
  or a leaf of storable entries in key order) is encoded without a panic, and decoding the bytes
  under the declared key and value types gives the same node.\<close>

theorem decode_encode_node:
  assumes "bigint_ok L" and "node_ok L kt vt n"
  shows "\<exists>b. encode_node L n = Some b \<and> deserialize_node L b kt vt = Got n"
  using assms by (cases n) (auto simp: decode_encode_leaf decode_encode_inner)

theorem decode_encode_node_witness:
  "\<exists>b. encode_node twos_lib (PLeaf [(VU64 1, VBool True), (VU64 2, VBool False)]) = Some b
     \<and> deserialize_node twos_lib b TU64 TBool = Got (PLeaf [(VU64 1, VBool True), (VU64 2, VBool False)])"
  by (rule decode_encode_node [OF bigint_ok_twos_lib])
     (simp add: entry_ok_def key_bytes_def eval_simps)

end
