(* ===== verification/Tx.thy ===== *)
theory Tx
  imports PMapNode
begin

section \<open>Transactions\<close>

text \<open>
  \<^verbatim>\<open>crates/rend/src/tx.rs\<close>. A transaction reads an immutable backend, caches the first
  observation of every cell (the read set), buffers its writes, and may defer reads: a lazy
  transaction queues single-cell reads and HAMT walks and hands out \<open>VPending\<close> handles, which
  \<open>force\<close> resolves in batches.

  \<^item> The state is the record \<open>tx\<close>. The borrowed parent of a shadow transaction is immutable and
    only its write and read maps are consulted, so \<open>parents\<close> is the chain of these pairs, nearest
    ancestor first.
  \<^item> Every \<^verbatim>\<open>&mut self\<close> method returns the new transaction. \<open>None\<close> is a panic: of \<open>deserialize\<close>,
    of a missing handle (\<^verbatim>\<open>expect("flushed")\<close>), or of a leaf that is missing in \<open>reassemble\<close>.
  \<^item> The loop of \<open>force\<close> is \<open>force_loop\<close>, a total function: a walk that continues has a larger
    level, and levels are bounded.
\<close>

record pending_emit =
  pe_module :: string
  pe_struct_name :: string
  pe_value :: val

record emitted_event =
  ev_module :: string
  ev_name :: string
  ev_args :: "val list"

record tx_ctx =
  sender :: val
  block_timestamp :: u64
  block_number :: u64

definition default_ctx :: tx_ctx where
  "default_ctx = \<lparr>sender = VAddress [], block_timestamp = 0, block_number = 0\<rparr>"

record handler_delta =
  d_reads :: "(u128, val) hashmap"
  d_writes :: "(u128, val) hashmap"
  d_events :: "emitted_event list"
  d_pending :: "pending_emit list"
  d_node_cells_written :: "u128 set"
  d_pmap_types :: "(u128, ty \<times> ty) hashmap"
  d_pvec_types :: "(u128, ty) hashmap"

record pending_read =
  pr_id :: nat
  pr_key :: u128
  pr_ty :: ty

record pwalk =
  w_handle :: nat
  w_key :: val
  w_key_hash :: u64
  w_key_ty :: ty
  w_val_ty :: ty
  w_level :: nat
  w_cell :: u128 \<comment> \<open>\<^verbatim>\<open>WalkState::Need { cell }\<close>\<close>

record tx =
  tx_kv :: kv
  parents :: "((u128, val) hashmap \<times> (u128, val) hashmap) list"
  reads :: "(u128, val) hashmap"
  writes :: "(u128, val) hashmap"
  pending_emits :: "pending_emit list"
  lazy :: bool
  pending :: "pending_read list"
  resolved :: "(nat, val) hashmap"
  next_handle :: nat
  events :: "emitted_event list"
  tx_context :: tx_ctx
  nore_active :: "(u32 \<times> u32) set"
  pmap_types :: "(u128, ty \<times> ty) hashmap"
  pvec_types :: "(u128, ty) hashmap"
  node_cells_written :: "u128 set"
  pending_walks :: "pwalk list"

definition tx_new_with_context :: "kv \<Rightarrow> tx_ctx \<Rightarrow> tx" where
  "tx_new_with_context s c =
     \<lparr>tx_kv = s, parents = [], reads = [], writes = [], pending_emits = [], lazy = False, pending = [],
      resolved = [], next_handle = 0, events = [], tx_context = c, nore_active = {}, pmap_types = [],
      pvec_types = [], node_cells_written = {}, pending_walks = []\<rparr>"

definition tx_new :: "kv \<Rightarrow> tx" where
  "tx_new s = tx_new_with_context s default_ctx"

subsection \<open>Shadow transactions and deltas\<close>

definition shadow_of :: "tx \<Rightarrow> tx" where
  "shadow_of p =
     \<lparr>tx_kv = tx_kv p, parents = (writes p, reads p) # parents p, reads = [], writes = [],
      pending_emits = [], lazy = lazy p, pending = [], resolved = [], next_handle = next_handle p,
      events = [], tx_context = tx_context p, nore_active = nore_active p, pmap_types = [],
      pvec_types = [], node_cells_written = {}, pending_walks = []\<rparr>"

definition into_delta :: "tx \<Rightarrow> handler_delta" where
  "into_delta t =
     \<lparr>d_reads = reads t, d_writes = writes t, d_events = events t, d_pending = pending_emits t,
      d_node_cells_written = node_cells_written t, d_pmap_types = pmap_types t,
      d_pvec_types = pvec_types t\<rparr>"

primrec or_insert_all :: "('k, 'v) hashmap \<Rightarrow> ('k \<times> 'v) list \<Rightarrow> ('k, 'v) hashmap" where
  "or_insert_all m [] = m"
| "or_insert_all m (p # ps) = or_insert_all (hm_or_insert (fst p) (snd p) m) ps"

definition merge_delta :: "tx \<Rightarrow> handler_delta \<Rightarrow> tx" where
  "merge_delta t d = t\<lparr>
     reads := or_insert_all (reads t) (d_reads d),
     writes := hm_extend (writes t) (d_writes d),
     events := events t @ d_events d,
     pending_emits := pending_emits t @ d_pending d,
     node_cells_written := node_cells_written t \<union> d_node_cells_written d,
     pmap_types := hm_extend (pmap_types t) (d_pmap_types d),
     pvec_types := hm_extend (pvec_types t) (d_pvec_types d)\<rparr>"

definition enqueue_emit :: "tx \<Rightarrow> pending_emit \<Rightarrow> tx" where
  "enqueue_emit t e = t\<lparr>pending_emits := pending_emits t @ [e]\<rparr>"

definition take_pending_emits :: "tx \<Rightarrow> pending_emit list \<times> tx" where
  "take_pending_emits t = (pending_emits t, t\<lparr>pending_emits := []\<rparr>)"

definition has_pending_emits :: "tx \<Rightarrow> bool" where
  "has_pending_emits t \<longleftrightarrow> pending_emits t \<noteq> []"

definition emit :: "tx \<Rightarrow> emitted_event \<Rightarrow> tx" where
  "emit t e = t\<lparr>events := events t @ [e]\<rparr>"

definition set_lazy :: "tx \<Rightarrow> bool \<Rightarrow> tx" where
  "set_lazy t b = t\<lparr>lazy := b\<rparr>"

definition nore_enter :: "tx \<Rightarrow> u32 \<Rightarrow> u32 \<Rightarrow> bool \<times> tx" where
  "nore_enter t m f = ((m, f) \<notin> nore_active t, t\<lparr>nore_active := insert (m, f) (nore_active t)\<rparr>)"

definition nore_exit :: "tx \<Rightarrow> u32 \<Rightarrow> u32 \<Rightarrow> tx" where
  "nore_exit t m f = t\<lparr>nore_active := nore_active t - {(m, f)}\<rparr>"

definition record_node_cell_write :: "tx \<Rightarrow> u128 \<Rightarrow> tx" where
  "record_node_cell_write t c = t\<lparr>node_cells_written := insert c (node_cells_written t)\<rparr>"

definition record_pmap_types :: "tx \<Rightarrow> u128 \<Rightarrow> ty \<Rightarrow> ty \<Rightarrow> tx" where
  "record_pmap_types t c kt vt = t\<lparr>pmap_types := hm_or_insert c (kt, vt) (pmap_types t)\<rparr>"

definition record_pvec_type :: "tx \<Rightarrow> u128 \<Rightarrow> ty \<Rightarrow> tx" where
  "record_pvec_type t c et = t\<lparr>pvec_types := hm_or_insert c et (pvec_types t)\<rparr>"

definition into_sets :: "tx \<Rightarrow> (u128, val) hashmap \<times> (u128, val) hashmap" where
  "into_sets t = (reads t, writes t)"

definition into_full :: "tx \<Rightarrow> (u128, val) hashmap \<times> (u128, val) hashmap \<times> emitted_event list
    \<times> (u128, ty \<times> ty) hashmap \<times> (u128, ty) hashmap \<times> u128 set" where
  "into_full t = (reads t, writes t, events t, pmap_types t, pvec_types t, node_cells_written t)"

fun lookup_chain :: "((u128, val) hashmap \<times> (u128, val) hashmap) list \<Rightarrow> u128 \<Rightarrow> val option" where
  "lookup_chain [] k = None"
| "lookup_chain ((ws, rs) # ps) k =
     (case hm_get ws k of Some v \<Rightarrow> Some v
      | None \<Rightarrow> (case hm_get rs k of Some v \<Rightarrow> Some v | None \<Rightarrow> lookup_chain ps k))"

definition parent_lookup :: "tx \<Rightarrow> u128 \<Rightarrow> val option" where
  "parent_lookup t k = lookup_chain (parents t) k"

subsection \<open>Pending values\<close>

fun contains_pending :: "val \<Rightarrow> bool" where
  "contains_pending (VPending _) = True"
| "contains_pending (VArray elems) = list_ex contains_pending elems"
| "contains_pending (VSet elems) = list_ex contains_pending elems"
| "contains_pending (VTuple elems) = list_ex contains_pending elems"
| "contains_pending (VStruct _ flds) = list_ex (\<lambda>f. contains_pending (snd f)) flds"
| "contains_pending (VDict pairs) =
     list_ex (\<lambda>p. contains_pending (fst p) \<or> contains_pending (snd p)) pairs"
| "contains_pending _ = False"

fun substitute_resolved :: "(nat, val) hashmap \<Rightarrow> val \<Rightarrow> val option" where
  "substitute_resolved m (VPending i) = hm_get m i"
| "substitute_resolved m (VArray es) = map_option VArray (mapM (substitute_resolved m) es)"
| "substitute_resolved m (VSet es) = map_option VSet (mapM (substitute_resolved m) es)"
| "substitute_resolved m (VTuple es) = map_option VTuple (mapM (substitute_resolved m) es)"
| "substitute_resolved m (VDict ps) = map_option VDict (mapM (\<lambda>p. do {
     k \<leftarrow> substitute_resolved m (fst p); v \<leftarrow> substitute_resolved m (snd p); Some (k, v) }) ps)"
| "substitute_resolved m (VStruct n flds) = map_option (VStruct n) (mapM (\<lambda>f. do {
     v \<leftarrow> substitute_resolved m (snd f); Some (fst f, v) }) flds)"
| "substitute_resolved m v = Some v"

subsection \<open>Flushing queued reads\<close>

definition decode_or_default :: "bigint_lib \<Rightarrow> ty \<Rightarrow> val \<Rightarrow> bytes option \<Rightarrow> val option" where
  \<comment> \<open>\<^verbatim>\<open>Some(b) => deserialize(&b, ty).unwrap_or_else(default), None => default\<close>; \<open>None\<close> is a panic\<close>
  "decode_or_default L ty d bz =
     (case bz of None \<Rightarrow> Some d
      | Some b \<Rightarrow> (case deserialize L b ty of Got v \<Rightarrow> Some v | Miss \<Rightarrow> Some d | Panic \<Rightarrow> None))"

definition note_read :: "tx \<Rightarrow> pending_read \<times> val \<Rightarrow> tx" where
  "note_read t pv = t\<lparr>reads := hm_insert (pr_key (fst pv)) (snd pv) (reads t),
     resolved := hm_insert (pr_id (fst pv)) (snd pv) (resolved t)\<rparr>"

definition flush_pending :: "bigint_lib \<Rightarrow> tx \<Rightarrow> tx option" where
  "flush_pending L t =
     (if pending t = [] then Some t
      else (let ps = pending t;
                to_fetch = filter (\<lambda>p. parent_lookup t (pr_key p) = None) ps;
                inline = filter (\<lambda>p. parent_lookup t (pr_key p) \<noteq> None) ps;
                bytes = kv_get_many (tx_kv t) (map pr_key to_fetch)
            in do {
              fetched \<leftarrow> mapM (\<lambda>pb. map_option (Pair (fst pb))
                 (decode_or_default L (pr_ty (fst pb)) (default_for (pr_ty (fst pb))) (snd pb)))
                 (zip to_fetch bytes);
              let inlined = map (\<lambda>p. (p, the (parent_lookup t (pr_key p)))) inline;
              Some (foldl note_read (t\<lparr>pending := []\<rparr>) (fetched @ inlined)) }))"

subsection \<open>Driving HAMT walks\<close>

datatype advance_result = WDone val | WContinue pwalk

definition advance_pmap_walk :: "bigint_lib \<Rightarrow> pwalk \<Rightarrow> bytes option \<Rightarrow> advance_result option" where
  "advance_pmap_walk L w bz =
     (let miss = Some (WDone (default_for (w_val_ty w))) in
      case bz of None \<Rightarrow> miss | Some b \<Rightarrow>
      (case deserialize_node L b (w_key_ty w) (w_val_ty w) of
         Panic \<Rightarrow> None
       | Miss \<Rightarrow> miss
       | Got (PLeaf entries) \<Rightarrow>
           (case find (\<lambda>e. value_eq (fst e) (w_key w)) entries of
              Some e \<Rightarrow> Some (WDone (snd e)) | None \<Rightarrow> miss)
       | Got (PInner bitmap children) \<Rightarrow>
           (if w_level w + 1 > MAX_LEVELS then miss
            else (let slot = bits_at (w_key_hash w) (w_level w) in
              if bitmap AND slot_bit slot = 0 then miss
              else (let idx = child_index bitmap slot in
                if idx < length children
                then Some (WContinue (w\<lparr>w_level := w_level w + 1, w_cell := children ! idx\<rparr>))
                else None)))))"

definition as_node_bytes :: "val \<Rightarrow> bytes option" where
  "as_node_bytes v = (case v of VBytes b \<Rightarrow> Some b | _ \<Rightarrow> None)"

definition walk_source :: "bigint_lib \<Rightarrow> (u128 \<times> bytes option) list \<Rightarrow> tx \<Rightarrow> u128 \<Rightarrow> (val \<times> tx) option" where
  \<comment> \<open>the cell's value, and the transaction with the observation recorded\<close>
  "walk_source L fetched t c =
     (case hm_get (writes t) c of Some v \<Rightarrow> Some (v, t)
      | None \<Rightarrow> (case hm_get (reads t) c of Some v \<Rightarrow> Some (v, t)
      | None \<Rightarrow> (case parent_lookup t c of
           Some v \<Rightarrow> Some (v, t\<lparr>reads := hm_insert c v (reads t)\<rparr>)
         | None \<Rightarrow> do {
             v \<leftarrow> decode_or_default L TBytes (default_for TBytes)
                   (case hm_get fetched c of Some bz \<Rightarrow> bz | None \<Rightarrow> None);
             Some (v, t\<lparr>reads := hm_insert c v (reads t)\<rparr>) })))"

fun step_walks :: "bigint_lib \<Rightarrow> (u128 \<times> bytes option) list \<Rightarrow> tx \<Rightarrow> pwalk list \<Rightarrow> (tx \<times> pwalk list) option" where
  "step_walks L fetched t [] = Some (t, [])"
| "step_walks L fetched t (w # ws) = do {
     (v, t1) \<leftarrow> walk_source L fetched t (w_cell w);
     r \<leftarrow> advance_pmap_walk L w (as_node_bytes v);
     (case r of
        WDone res \<Rightarrow> step_walks L fetched (t1\<lparr>resolved := hm_insert (w_handle w) res (resolved t1)\<rparr>) ws
      | WContinue w' \<Rightarrow> do { (t2, ws') \<leftarrow> step_walks L fetched t1 ws; Some (t2, w' # ws') }) }"

definition cells_to_fetch :: "tx \<Rightarrow> pwalk list \<Rightarrow> u128 list" where
  "cells_to_fetch t ws = remdups (filter (\<lambda>c. hm_get (writes t) c = None \<and> hm_get (reads t) c = None
     \<and> parent_lookup t c = None) (map w_cell ws))"

definition advance_walks :: "bigint_lib \<Rightarrow> tx \<Rightarrow> tx option" where
  "advance_walks L t =
     (if pending_walks t = [] then Some t
      else (let walks = pending_walks t; fetch = cells_to_fetch t walks;
                fetched = zip fetch (kv_get_many (tx_kv t) fetch)
            in do {
              (t', next_round) \<leftarrow> step_walks L fetched (t\<lparr>pending_walks := []\<rparr>) walks;
              Some (t'\<lparr>pending_walks := next_round\<rparr>) }))"

definition begin_pmap_get :: "bigint_lib \<Rightarrow> tx \<Rightarrow> u128 \<Rightarrow> val \<Rightarrow> ty \<Rightarrow> ty \<Rightarrow> (val \<times> tx) option" where
  "begin_pmap_get L t root key kt vt =
     (if root = EMPTY then Some (default_for vt, t)
      else do {
        h \<leftarrow> hash_key L key;
        let w = \<lparr>w_handle = next_handle t, w_key = key, w_key_hash = h, w_key_ty = kt, w_val_ty = vt,
                 w_level = 0, w_cell = root\<rparr>;
        Some (VPending (next_handle t),
              t\<lparr>next_handle := next_handle t + 1, pending_walks := pending_walks t @ [w]\<rparr>) })"

subsection \<open>Forcing\<close>

definition walk_work :: "pwalk list \<Rightarrow> nat" where
  "walk_work ws = sum_list (map (\<lambda>w. Suc (MAX_LEVELS + 1 - w_level w)) ws)"

lemma foldl_note_read [simp]:
  "pending (foldl note_read t ps) = pending t"
  "pending_walks (foldl note_read t ps) = pending_walks t"
  by (induction ps arbitrary: t) (simp_all add: note_read_def)

lemma flush_pending_queues:
  "flush_pending L t = Some t' \<Longrightarrow> pending t' = [] \<and> pending_walks t' = pending_walks t"
  by (auto simp: flush_pending_def Let_def Option.bind_eq_Some_conv split: if_splits)

lemma walk_source_queues:
  "walk_source L f t c = Some (v, t') \<Longrightarrow> pending t' = pending t \<and> pending_walks t' = pending_walks t"
  by (auto simp: walk_source_def Option.bind_eq_Some_conv split: option.splits)

lemma advance_pmap_walk_level:
  "advance_pmap_walk L w b = Some (WContinue w') \<Longrightarrow> w_level w' = w_level w + 1 \<and> w_level w' \<le> MAX_LEVELS"
  by (auto simp: advance_pmap_walk_def Let_def split: option.splits parse.splits pmap_node.splits if_splits)

lemma step_walks_work:
  "step_walks L f t ws = Some (t', ws') \<Longrightarrow>
   pending t' = pending t \<and> walk_work ws' + length ws \<le> walk_work ws"
proof (induction L f t ws arbitrary: t' ws' rule: step_walks.induct)
  case (1 L f t)
  then show ?case by (simp add: walk_work_def)
next
  case (2 L f t w ws)
  from "2.prems" obtain v t1 r where v: "walk_source L f t (w_cell w) = Some (v, t1)"
    and r: "advance_pmap_walk L w (as_node_bytes v) = Some r"
    by (auto simp: Option.bind_eq_Some_conv)
  show ?case
  proof (cases r)
    case (WDone res)
    with "2.prems" v r "2.IH"(1) [OF v refl r WDone] show ?thesis
      by (auto simp: walk_work_def dest!: walk_source_queues)
  next
    case (WContinue w')
    with "2.prems" v r obtain ws2 where s: "step_walks L f t1 ws = Some (t', ws2)" and ws': "ws' = w' # ws2"
      by (auto simp: Option.bind_eq_Some_conv)
    have "w_level w' = w_level w + 1 \<and> w_level w' \<le> MAX_LEVELS"
      by (rule advance_pmap_walk_level) (use r WContinue in simp)
    with "2.IH"(2) [OF v refl r WContinue s] walk_source_queues [OF v] show ?thesis
      by (simp add: walk_work_def ws') arith
  qed
qed

lemma advance_walks_work:
  "advance_walks L t = Some t' \<Longrightarrow> pending_walks t \<noteq> [] \<Longrightarrow>
   pending t' = pending t \<and> walk_work (pending_walks t') < walk_work (pending_walks t)"
  by (auto simp: advance_walks_def Let_def Option.bind_eq_Some_conv neq_Nil_conv dest!: step_walks_work)

function force_loop :: "bigint_lib \<Rightarrow> tx \<Rightarrow> tx option" where
  "force_loop L t =
     (let had_reads = pending t \<noteq> []; had_walks = pending_walks t \<noteq> [] in
      if \<not> had_reads \<and> \<not> had_walks then Some t
      else do {
        t1 \<leftarrow> (if had_reads then flush_pending L t else Some t);
        t2 \<leftarrow> (if had_walks then advance_walks L t1 else Some t1);
        force_loop L t2 })"
  by pat_completeness auto
termination
  by (relation "measure (\<lambda>(L, t). length (pending t) + walk_work (pending_walks t))")
     (auto split: if_splits dest!: flush_pending_queues dest: advance_walks_work)

declare force_loop.simps [simp del]

definition force :: "bigint_lib \<Rightarrow> tx \<Rightarrow> val \<Rightarrow> (val \<times> tx) option" where
  "force L t v =
     (if \<not> contains_pending v then Some (v, t)
      else do {
        t' \<leftarrow> force_loop L t;
        v' \<leftarrow> substitute_resolved (resolved t') v;
        Some (v', t') })"

definition force_spine :: "bigint_lib \<Rightarrow> tx \<Rightarrow> val \<Rightarrow> (val \<times> tx) option" where
  "force_spine L t v = (case v of VPending _ \<Rightarrow> force L t v | _ \<Rightarrow> Some (v, t))"

subsection \<open>Reading and writing cells\<close>

definition tx_read :: "bigint_lib \<Rightarrow> tx \<Rightarrow> u128 \<Rightarrow> ty \<Rightarrow> val \<Rightarrow> (val \<times> tx) option" where
  "tx_read L t key ty d =
     (case hm_get (writes t) key of Some v \<Rightarrow> Some (v, t)
      | None \<Rightarrow> (case hm_get (reads t) key of Some v \<Rightarrow> Some (v, t)
      | None \<Rightarrow> (case parent_lookup t key of
           Some v \<Rightarrow> Some (v, t\<lparr>reads := hm_insert key v (reads t)\<rparr>)
         | None \<Rightarrow> do {
             observed \<leftarrow> decode_or_default L ty d (tx_kv t key);
             Some (observed, t\<lparr>reads := hm_insert key observed (reads t)\<rparr>) })))"

definition tx_write :: "bigint_lib \<Rightarrow> tx \<Rightarrow> u128 \<Rightarrow> val \<Rightarrow> tx option" where
  "tx_write L t key v = do {
     (v', t') \<leftarrow> force L t v;
     Some (t'\<lparr>writes := hm_insert key v' (writes t')\<rparr>) }"

definition queue_read :: "tx \<Rightarrow> u128 \<Rightarrow> ty \<Rightarrow> val \<times> tx" where
  "queue_read t key ty =
     (VPending (next_handle t),
      t\<lparr>next_handle := next_handle t + 1,
        pending := pending t @ [\<lparr>pr_id = next_handle t, pr_key = key, pr_ty = ty\<rparr>]\<rparr>)"

definition read_cell :: "bigint_lib \<Rightarrow> tx \<Rightarrow> u128 \<Rightarrow> ty \<Rightarrow> (val \<times> tx) option" where
  "read_cell L t key ty =
     (case hm_get (writes t) key of Some v \<Rightarrow> Some (v, t)
      | None \<Rightarrow> (case hm_get (reads t) key of Some v \<Rightarrow> Some (v, t)
      | None \<Rightarrow> (case parent_lookup t key of
           Some v \<Rightarrow> Some (v, t\<lparr>reads := hm_insert key v (reads t)\<rparr>)
         | None \<Rightarrow> (if lazy t then Some (queue_read t key ty)
                     else tx_read L t key ty (default_for ty)))))"

subsection \<open>Typed reads: structs split into leaf cells\<close>

datatype tree_spec =
    TsLeaf nat
  | TsStruct string "(string \<times> tree_spec) list"
  | TsProjection nat string

definition group_at :: "string option list \<Rightarrow> nat \<Rightarrow> string option" where
  "group_at gs i = (if i < length gs then gs ! i else None)"

definition synthetic_group_name :: "string \<Rightarrow> string \<Rightarrow> string" where
  "synthetic_group_name parent g = parent @ ''::group::'' @ g"

definition group_fields :: "(string \<times> ty) list \<Rightarrow> string option list \<Rightarrow> string \<Rightarrow> (string \<times> ty) list" where
  "group_fields declared gs g =
     map snd (filter (\<lambda>p. group_at gs (fst p) = Some g) (List.enumerate 0 declared))"

fun collect_leaves :: "u128 \<Rightarrow> ty \<Rightarrow> (u128 \<times> ty) list \<Rightarrow> tree_spec \<times> (u128 \<times> ty) list"
and collect_fields :: "u128 \<Rightarrow> string \<Rightarrow> (string \<times> ty) list \<Rightarrow> string option list \<Rightarrow> nat \<Rightarrow> (string \<times> ty) list
    \<Rightarrow> (string, nat) hashmap \<Rightarrow> (u128 \<times> ty) list \<Rightarrow> (string \<times> tree_spec) list \<times> (u128 \<times> ty) list" where
  "collect_leaves key (TExplicitLiteral inner) leaves = collect_leaves key inner leaves"
| "collect_leaves key (TStruct name flds gs) leaves =
     (let (specs, leaves') = collect_fields key name flds gs 0 flds [] leaves
      in (TsStruct name specs, leaves'))"
| "collect_leaves key ty leaves = (TsLeaf (length leaves), leaves @ [(key, ty)])"
| "collect_fields key name declared gs i [] group_leaf leaves = ([], leaves)"
| "collect_fields key name declared gs i (f # fs) group_leaf leaves =
     (case group_at gs i of
        None \<Rightarrow>
          (let (spec, leaves1) = collect_leaves (child key (as_bytes (fst f))) (snd f) leaves;
               (specs, leaves2) = collect_fields key name declared gs (i + 1) fs group_leaf leaves1
           in ((fst f, spec) # specs, leaves2))
      | Some g \<Rightarrow>
          (case hm_get group_leaf g of
             Some idx \<Rightarrow>
               (let (specs, leaves2) = collect_fields key name declared gs (i + 1) fs group_leaf leaves
                in ((fst f, TsProjection idx (fst f)) # specs, leaves2))
           | None \<Rightarrow>
               (let idx = length leaves;
                    leaves1 = leaves @ [(child key (as_bytes g),
                       TStruct (synthetic_group_name name g) (group_fields declared gs g) [])];
                    (specs, leaves2) =
                      collect_fields key name declared gs (i + 1) fs (hm_insert g idx group_leaf) leaves1
                in ((fst f, TsProjection idx (fst f)) # specs, leaves2))))"

fun reassemble :: "tree_spec \<Rightarrow> val list \<Rightarrow> val option" where
  "reassemble (TsLeaf i) leaves = (if i < length leaves then Some (leaves ! i) else None)"
| "reassemble (TsStruct name specs) leaves =
     map_option (VStruct name) (mapM (\<lambda>s. map_option (Pair (fst s)) (reassemble (snd s) leaves)) specs)"
| "reassemble (TsProjection i field_name) leaves =
     (if i < length leaves then
        (case leaves ! i of
           VStruct _ flds \<Rightarrow> map_option snd (find (\<lambda>f. fst f = field_name) flds)
         | _ \<Rightarrow> None)
      else None)"

definition lookup_cached :: "tx \<Rightarrow> u128 \<Rightarrow> val option \<times> tx" where
  "lookup_cached t k =
     (case hm_get (writes t) k of Some v \<Rightarrow> (Some v, t)
      | None \<Rightarrow> (case hm_get (reads t) k of Some v \<Rightarrow> (Some v, t)
      | None \<Rightarrow> (case parent_lookup t k of
           Some v \<Rightarrow> (Some v, t\<lparr>reads := hm_insert k v (reads t)\<rparr>)
         | None \<Rightarrow> (None, t))))"

text \<open>Step 2 of \<^verbatim>\<open>read_typed_many\<close>: the leaves already known, and those that must be fetched.\<close>

fun lookup_leaves :: "tx \<Rightarrow> (u128 \<times> ty) list \<Rightarrow> val option list \<times> tx" where
  "lookup_leaves t [] = ([], t)"
| "lookup_leaves t (l # ls) =
     (let (v, t1) = lookup_cached t (fst l); (vs, t2) = lookup_leaves t1 ls in (v # vs, t2))"

text \<open>Step 3: every leaf still unknown is read in the one batch.\<close>

fun fetch_leaves :: "bigint_lib \<Rightarrow> tx \<Rightarrow> ((u128 \<times> ty) \<times> val option) list \<Rightarrow> (val list \<times> tx) option" where
  "fetch_leaves L t [] = Some ([], t)"
| "fetch_leaves L t (((k, ty), Some v) # ls) = do {
     (vs, t') \<leftarrow> fetch_leaves L t ls; Some (v # vs, t') }"
| "fetch_leaves L t (((k, ty), None) # ls) = do {
     v \<leftarrow> decode_or_default L ty (default_for ty) (tx_kv t k);
     (vs, t') \<leftarrow> fetch_leaves L (t\<lparr>reads := hm_insert k v (reads t)\<rparr>) ls;
     Some (v # vs, t') }"

fun collect_ops :: "(u128 \<times> ty) list \<Rightarrow> (u128 \<times> ty) list \<Rightarrow> tree_spec list \<times> (u128 \<times> ty) list" where
  "collect_ops [] leaves = ([], leaves)"
| "collect_ops (op # ops) leaves =
     (let (spec, leaves1) = collect_leaves (fst op) (snd op) leaves;
          (specs, leaves2) = collect_ops ops leaves1
      in (spec # specs, leaves2))"

definition read_typed_many :: "bigint_lib \<Rightarrow> tx \<Rightarrow> (u128 \<times> ty) list \<Rightarrow> (val list \<times> tx) option" where
  "read_typed_many L t ops =
     (let (specs, leaves) = collect_ops ops [];
          (known, t1) = lookup_leaves t leaves
      in do {
        (values, t2) \<leftarrow> fetch_leaves L t1 (zip leaves known);
        vs \<leftarrow> mapM (\<lambda>s. reassemble s values) specs;
        Some (vs, t2) })"

fun read_typed :: "bigint_lib \<Rightarrow> tx \<Rightarrow> u128 \<Rightarrow> ty \<Rightarrow> (val \<times> tx) option" where
  "read_typed L t key (TExplicitLiteral inner) = read_typed L t key inner"
| "read_typed L t key (TStruct name flds gs) = do {
     (vs, t') \<leftarrow> read_typed_many L t [(key, TStruct name flds gs)];
     (case vs of [] \<Rightarrow> None | v # _ \<Rightarrow> Some (v, t')) }"
| "read_typed L t key ty =
     (case hm_get (writes t) key of Some v \<Rightarrow> Some (v, t)
      | None \<Rightarrow> (case hm_get (reads t) key of Some v \<Rightarrow> Some (v, t)
      | None \<Rightarrow> (if lazy t then Some (queue_read t key ty) else tx_read L t key ty (default_for ty))))"

subsection \<open>Typed writes\<close>

definition find_field :: "(string \<times> val) list \<Rightarrow> string \<Rightarrow> ty \<Rightarrow> val" where
  "find_field actual fname fty =
     (case find (\<lambda>f. fst f = fname) actual of Some f \<Rightarrow> snd f | None \<Rightarrow> default_for fty)"

definition build_group_blob :: "string \<Rightarrow> (string \<times> ty) list \<Rightarrow> string option list \<Rightarrow> (string \<times> val) list
    \<Rightarrow> string \<Rightarrow> ty \<times> val" where
  "build_group_blob parent declared gs actual g =
     (let gf = group_fields declared gs g
      in (TStruct (synthetic_group_name parent g) gf [],
          VStruct (synthetic_group_name parent g)
            (map (\<lambda>f. (fst f, find_field actual (fst f) (snd f))) gf)))"

fun write_typed :: "bigint_lib \<Rightarrow> tx \<Rightarrow> u128 \<Rightarrow> ty \<Rightarrow> val \<Rightarrow> tx option"
and write_fields :: "bigint_lib \<Rightarrow> tx \<Rightarrow> u128 \<Rightarrow> string \<Rightarrow> (string \<times> ty) list \<Rightarrow> string option list \<Rightarrow> nat
    \<Rightarrow> (string \<times> ty) list \<Rightarrow> (string \<times> val) list \<Rightarrow> string set \<Rightarrow> tx option" where
  "write_typed L t key (TExplicitLiteral inner) v = write_typed L t key inner v"
| "write_typed L t key (TStruct parent_name declared gs) v = do {
     (v', t') \<leftarrow> force L t v;
     (case v' of
        VStruct _ actual \<Rightarrow> write_fields L t' key parent_name declared gs 0 declared actual {}
      | _ \<Rightarrow> tx_write L t' key v') }"
| "write_typed L t key ty v = do {
     (v', t') \<leftarrow> force L t v;
     tx_write L t' key v' }"
| "write_fields L t key parent declared gs i [] actual emitted = Some t"
| "write_fields L t key parent declared gs i (f # fs) actual emitted =
     (case group_at gs i of
        None \<Rightarrow> do {
          t1 \<leftarrow> write_typed L t (child key (as_bytes (fst f))) (snd f) (find_field actual (fst f) (snd f));
          write_fields L t1 key parent declared gs (i + 1) fs actual emitted }
      | Some g \<Rightarrow>
          (if g \<in> emitted then write_fields L t key parent declared gs (i + 1) fs actual emitted
           else do {
             t1 \<leftarrow> tx_write L t (child key (as_bytes g)) (snd (build_group_blob parent declared gs actual g));
             write_fields L t1 key parent declared gs (i + 1) fs actual (insert g emitted) }))"

end
