(* ===== verification/NodeStore.thy ===== *)
theory NodeStore
  imports Tx
begin

section \<open>Content-addressed node cells\<close>

text \<open>
  What the three persistent collections share: \<^verbatim>\<open>read_node\<close> fetches the bytes of a node cell
  through the transaction (\<open>read_bytes\<close>), \<^verbatim>\<open>write_node\<close> writes bytes at the key they hash to
  (\<open>write_bytes\<close>).

  The interface the collections rely on is the locale \<open>node_store\<close>: a state with a view of its
  cells, a read that returns the view and keeps it, a write that updates it at one key. The locale
  \<open>content_store\<close> adds the key function and proves, once, what content addressing gives: a set of
  node encodings stays readable through any further writes, as long as the key function has no
  collision among them (\<open>no_collision\<close>). Transactions are an instance (\<open>tx_store\<close>), for
  transactions whose queues are drained (\<open>settled\<close>); eager transactions always are.
\<close>

subsection \<open>The two accesses\<close>

definition read_bytes :: "bigint_lib \<Rightarrow> u128 \<Rightarrow> tx \<Rightarrow> (bytes option \<times> tx) option" where
  "read_bytes L h t = do {
     (v, t1) \<leftarrow> read_cell L t h TBytes;
     (v', t2) \<leftarrow> force L t1 v;
     Some (as_node_bytes v', t2) }"

definition write_bytes :: "bigint_lib \<Rightarrow> u128 \<Rightarrow> bytes \<Rightarrow> tx \<Rightarrow> tx option" where
  "write_bytes L h b t = do {
     t1 \<leftarrow> tx_write L t h (VBytes b);
     Some (record_node_cell_write t1 h) }"

subsection \<open>What a transaction sees at a cell\<close>

definition bytes_cell :: "bytes \<Rightarrow> val parse" where
  \<comment> \<open>a stored cell read as \<^verbatim>\<open>Type::Bytes\<close>\<close>
  "bytes_cell b = with_tag TAG_BYTES (\<lambda>r. or_miss (de_str (\<lambda>d. Some (VBytes d)) r)) b"

definition stored_bytes :: "bytes option \<Rightarrow> val" where
  "stored_bytes bz = (case bz of None \<Rightarrow> VBytes []
     | Some b \<Rightarrow> (case bytes_cell b of Got v \<Rightarrow> v | _ \<Rightarrow> VBytes []))"

definition backing :: "tx \<Rightarrow> u128 \<Rightarrow> val" where
  "backing t h = (case parent_lookup t h of Some v \<Rightarrow> v | None \<Rightarrow> stored_bytes (tx_kv t h))"

definition cell_value :: "tx \<Rightarrow> u128 \<Rightarrow> val" where
  "cell_value t h = (case hm_get (writes t) h of Some v \<Rightarrow> v
     | None \<Rightarrow> (case hm_get (reads t) h of Some v \<Rightarrow> v | None \<Rightarrow> backing t h))"

definition node_view :: "tx \<Rightarrow> u128 \<Rightarrow> bytes option" where
  "node_view t h = as_node_bytes (cell_value t h)"

definition resolved_map :: "(u128, val) hashmap \<Rightarrow> bool" where
  "resolved_map m \<longleftrightarrow> (\<forall>k v. hm_get m k = Some v \<longrightarrow> \<not> contains_pending v)"

definition settled :: "tx \<Rightarrow> bool" where
  "settled t \<longleftrightarrow> pending t = [] \<and> pending_walks t = [] \<and> resolved_map (writes t) \<and> resolved_map (reads t)
     \<and> (\<forall>k v. parent_lookup t k = Some v \<longrightarrow> \<not> contains_pending v)"

subsection \<open>Interface: a store of node cells\<close>

locale node_store =
  fixes ok :: "'s \<Rightarrow> bool"
    and view :: "'s \<Rightarrow> u128 \<Rightarrow> bytes option"
    and rd :: "u128 \<Rightarrow> 's \<Rightarrow> (bytes option \<times> 's) option"
    and wr :: "u128 \<Rightarrow> bytes \<Rightarrow> 's \<Rightarrow> 's option"
  assumes rd_view: "ok s \<Longrightarrow> \<exists>s'. rd h s = Some (view s h, s') \<and> ok s' \<and> view s' = view s"
    and wr_view: "ok s \<Longrightarrow> \<exists>s'. wr h b s = Some s' \<and> ok s' \<and> view s' = (view s)(h \<mapsto> b)"

definition no_collision :: "(bytes \<Rightarrow> u128) \<Rightarrow> bytes set \<Rightarrow> bool" where
  "no_collision key S \<longleftrightarrow> inj_on key S \<and> EMPTY \<notin> key ` S"

definition stored_in :: "(bytes \<Rightarrow> u128) \<Rightarrow> (u128 \<Rightarrow> bytes option) \<Rightarrow> bytes set \<Rightarrow> bool" where
  "stored_in key m S \<longleftrightarrow> (\<forall>b\<in>S. m (key b) = Some b)"

lemma no_collision_subset: "no_collision key S \<Longrightarrow> T \<subseteq> S \<Longrightarrow> no_collision key T"
  by (auto simp: no_collision_def inj_on_subset)

lemma no_collision_key: "no_collision key S \<Longrightarrow> b \<in> S \<Longrightarrow> key b \<noteq> EMPTY"
  by (auto simp: no_collision_def)

lemma no_collision_eq: "no_collision key S \<Longrightarrow> b \<in> S \<Longrightarrow> c \<in> S \<Longrightarrow> key b = key c \<longleftrightarrow> b = c"
  by (auto simp: no_collision_def inj_on_def)

lemma stored_in_subset: "stored_in key m S \<Longrightarrow> T \<subseteq> S \<Longrightarrow> stored_in key m T"
  by (auto simp: stored_in_def)

locale content_store = node_store +
  fixes key :: "bytes \<Rightarrow> u128"
begin

abbreviation stored :: "'a \<Rightarrow> bytes set \<Rightarrow> bool" where
  "stored s S \<equiv> stored_in key (view s) S"

lemma rd_stored:
  assumes "ok s" "stored s S" "b \<in> S"
  shows "\<exists>s'. rd (key b) s = Some (Some b, s') \<and> ok s' \<and> view s' = view s"
  using rd_view [OF assms(1), of "key b"] assms(2,3) by (auto simp: stored_in_def)

lemma wr_stored:
  assumes "ok s" "stored s S" "no_collision key (insert b S)"
  shows "\<exists>s'. wr (key b) b s = Some s' \<and> ok s' \<and> stored s' (insert b S)"
proof -
  obtain s' where s': "wr (key b) b s = Some s'" "ok s'" "view s' = (view s)(key b \<mapsto> b)"
    using wr_view [OF assms(1), of "key b" b] by auto
  have "stored s' (insert b S)"
    using assms(2,3) s'(3) no_collision_eq [OF assms(3)] by (auto simp: stored_in_def)
  with s' show ?thesis by blast
qed

end

subsection \<open>Transactions are node stores\<close>

lemma deserialize_TBytes: "deserialize L b TBytes = bytes_cell b"
  by (simp add: bytes_cell_def)

lemma bytes_cell_cases: "(\<exists>d. bytes_cell b = Got (VBytes d)) \<or> bytes_cell b = Miss"
  by (cases b) (auto simp: bytes_cell_def with_tag_def de_str_def split: bind_splits)

lemma decode_or_default_bytes: "decode_or_default L TBytes (VBytes []) bz = Some (stored_bytes bz)"
  using bytes_cell_cases [of "the bz"]
  by (auto simp: decode_or_default_def stored_bytes_def deserialize_TBytes simp del: deserialize.simps
      split: option.splits)

lemma stored_bytes_resolved: "\<not> contains_pending (stored_bytes bz)"
  using bytes_cell_cases [of "the bz"] by (auto simp: stored_bytes_def split: option.splits)

lemma force_resolved: "\<not> contains_pending v \<Longrightarrow> force L t v = Some (v, t)"
  by (simp add: force_def)

lemma parent_lookup_simps [simp]:
  "parent_lookup (t\<lparr>reads := x\<rparr>) = parent_lookup t" "parent_lookup (t\<lparr>writes := x\<rparr>) = parent_lookup t"
  "parent_lookup (t\<lparr>pending := p\<rparr>) = parent_lookup t" "parent_lookup (t\<lparr>resolved := r\<rparr>) = parent_lookup t"
  "parent_lookup (t\<lparr>next_handle := n\<rparr>) = parent_lookup t"
  "parent_lookup (t\<lparr>node_cells_written := c\<rparr>) = parent_lookup t"
  by (simp_all add: parent_lookup_def fun_eq_iff)

lemma resolved_map_insert: "resolved_map m \<Longrightarrow> \<not> contains_pending v \<Longrightarrow> resolved_map (hm_insert k v m)"
  by (auto simp: resolved_map_def)

lemma cache_read:
  \<comment> \<open>recording the value a cell already has changes nothing a later read sees\<close>
  assumes "settled t" "hm_get (writes t) h = None" "hm_get (reads t) h = None"
    and t': "t' = t\<lparr>reads := hm_insert h (backing t h) (reads t), resolved := r, next_handle := n\<rparr>"
  shows "settled t' \<and> node_view t' = node_view t"
proof -
  have "\<not> contains_pending (backing t h)"
    using assms(1) by (auto simp: backing_def settled_def stored_bytes_resolved split: option.splits)
  moreover have "backing t' = backing t" by (simp add: t' backing_def fun_eq_iff split: option.split)
  then have "node_view t' = node_view t"
    using assms(2,3) by (auto simp: t' node_view_def cell_value_def fun_eq_iff split: option.split)
  ultimately show ?thesis using assms(1) by (auto simp: t' settled_def intro: resolved_map_insert)
qed

lemma read_bytes_lazy:
  assumes "settled t" "hm_get (writes t) h = None" "hm_get (reads t) h = None" "parent_lookup t h = None" "lazy t"
  shows "read_bytes L h t = Some (as_node_bytes (backing t h),
     t\<lparr>reads := hm_insert h (backing t h) (reads t),
       resolved := hm_insert (next_handle t) (backing t h) (resolved t), next_handle := next_handle t + 1\<rparr>)"
  using assms
  by (simp add: read_bytes_def read_cell_def queue_read_def force_def force_loop.simps settled_def
      flush_pending_def kv_get_many_def decode_or_default_bytes note_read_def backing_def)

lemma read_bytes_view:
  assumes "settled t"
  shows "\<exists>t'. read_bytes L h t = Some (node_view t h, t') \<and> settled t' \<and> node_view t' = node_view t"
proof (cases "hm_get (writes t) h = None \<and> hm_get (reads t) h = None")
  case False
  then show ?thesis using assms
    by (auto simp: read_bytes_def read_cell_def node_view_def cell_value_def settled_def resolved_map_def
        force_resolved split: option.splits)
next
  case True
  then have v: "node_view t h = as_node_bytes (backing t h)" by (simp add: node_view_def cell_value_def)
  have pend: "\<not> contains_pending (backing t h)"
    using assms by (auto simp: backing_def settled_def stored_bytes_resolved split: option.splits)
  show ?thesis
  proof (cases "parent_lookup t h = None \<and> lazy t")
    case lazy: True
    then show ?thesis using read_bytes_lazy [OF assms, of h L] True cache_read [OF assms, of h] v by auto
  next
    case False
    have "read_cell L t h TBytes = Some (backing t h, t\<lparr>reads := hm_insert h (backing t h) (reads t)\<rparr>)"
      using True False
      by (auto simp: read_cell_def tx_read_def backing_def decode_or_default_bytes split: option.splits)
    then have "read_bytes L h t
       = Some (node_view t h, t\<lparr>reads := hm_insert h (backing t h) (reads t)\<rparr>)"
      by (simp add: read_bytes_def force_resolved pend v)
    then show ?thesis
      using cache_read [OF assms _ _ refl, of h "next_handle t" "resolved t"] True by auto
  qed
qed

lemma write_bytes_view:
  assumes "settled t"
  shows "\<exists>t'. write_bytes L h b t = Some t' \<and> settled t' \<and> node_view t' = (node_view t)(h \<mapsto> b)"
proof -
  let ?t = "t\<lparr>writes := hm_insert h (VBytes b) (writes t), node_cells_written := insert h (node_cells_written t)\<rparr>"
  have "write_bytes L h b t = Some ?t"
    by (simp add: write_bytes_def tx_write_def force_resolved record_node_cell_write_def)
  moreover have "settled ?t" using assms by (auto simp: settled_def intro: resolved_map_insert)
  moreover have "backing ?t = backing t" by (simp add: backing_def fun_eq_iff split: option.split)
  then have "node_view ?t = (node_view t)(h \<mapsto> b)"
    by (auto simp: node_view_def cell_value_def as_node_bytes_def fun_eq_iff split: option.split)
  ultimately show ?thesis by blast
qed

interpretation tx_store: node_store settled node_view "read_bytes L" "write_bytes L" for L
  by unfold_locales (rule read_bytes_view, assumption, rule write_bytes_view)

lemma settled_new: "settled (tx_new s)"
  by (simp add: settled_def tx_new_def tx_new_with_context_def resolved_map_def parent_lookup_def)

subsection \<open>Reading and writing nodes\<close>

text \<open>\<^verbatim>\<open>read_node\<close> and \<^verbatim>\<open>write_node\<close> are the same code in the three collections, up to the decoder
  and the name space of the cell key.\<close>

definition parsed :: "'n parse \<Rightarrow> 'n option option" where
  "parsed p = (case p of Got n \<Rightarrow> Some (Some n) | Miss \<Rightarrow> Some None | Panic \<Rightarrow> None)"

definition read_node_with :: "(bytes \<Rightarrow> 'n parse) \<Rightarrow> bigint_lib \<Rightarrow> tx \<Rightarrow> u128 \<Rightarrow> ('n option \<times> tx) option" where
  "read_node_with dec L t h =
     (if h = EMPTY then Some (None, t)
      else do {
        (bz, t1) \<leftarrow> read_bytes L h t;
        (case bz of None \<Rightarrow> Some (None, t1)
         | Some b \<Rightarrow> map_option (\<lambda>n. (n, t1)) (parsed (dec b))) })"

definition write_node_with :: "(bytes \<Rightarrow> u128) \<Rightarrow> bigint_lib \<Rightarrow> tx \<Rightarrow> bytes \<Rightarrow> (u128 \<times> tx) option" where
  "write_node_with key L t b = do {
     t' \<leftarrow> write_bytes L (key b) b t;
     Some (key b, t') }"

type_synonym fkv = "u128 \<Rightarrow> bytes option option" \<comment> \<open>a \<^verbatim>\<open>Kv::get\<close> that may panic (outer \<open>None\<close>)\<close>

definition read_node_kv_with :: "(bytes \<Rightarrow> 'n parse) \<Rightarrow> fkv \<Rightarrow> u128 \<Rightarrow> 'n option option" where
  \<comment> \<open>\<^verbatim>\<open>read_node_kv\<close>: the cell's bytes are unwrapped from their \<^verbatim>\<open>Value::Bytes\<close> encoding\<close>
  "read_node_kv_with dec s h =
     (if h = EMPTY then Some None
      else do {
        bz \<leftarrow> s h;
        (case bz of None \<Rightarrow> Some None
         | Some b \<Rightarrow> (case bytes_cell b of Got (VBytes raw) \<Rightarrow> parsed (dec raw) | _ \<Rightarrow> Some None)) })"

context content_store
begin

lemma stored_mono: "stored s S \<Longrightarrow> T \<subseteq> S \<Longrightarrow> stored s T"
  by (rule stored_in_subset)

end

interpretation cells: content_store settled node_view "read_bytes L" "write_bytes L" key for L key
  by unfold_locales

lemma read_node_stored:
  assumes "settled t" "stored_in key (node_view t) S" "b \<in> S" "no_collision key S" "dec b = Got n"
  shows "\<exists>t'. read_node_with dec L t (key b) = Some (Some n, t') \<and> settled t' \<and> node_view t' = node_view t"
  using cells.rd_stored [OF assms(1,2,3), of L] assms(4,5) no_collision_key [OF assms(4,3)]
  by (auto simp: read_node_with_def parsed_def)

lemma write_node_stored:
  assumes "settled t" "stored_in key (node_view t) S" "no_collision key (insert b S)"
  shows "\<exists>t'. write_node_with key L t b = Some (key b, t') \<and> settled t'
     \<and> stored_in key (node_view t') (insert b S)"
  using cells.wr_stored [OF assms, of L] by (auto simp: write_node_with_def)

text \<open>A transaction that stores the node encodings \<open>S\<close>.\<close>

definition holds :: "(bytes \<Rightarrow> u128) \<Rightarrow> bigint_lib \<Rightarrow> bytes set \<Rightarrow> tx \<Rightarrow> bool" where
  "holds key L S t \<longleftrightarrow> bigint_ok L \<and> settled t \<and> stored_in key (node_view t) S"

lemma holds_mono: "holds key L S t \<Longrightarrow> S' \<subseteq> S \<Longrightarrow> holds key L S' t"
  by (auto simp: holds_def intro: stored_in_subset)

lemma holds_new: "bigint_ok L \<Longrightarrow> holds key L {} (tx_new s)"
  by (simp add: holds_def settled_new stored_in_def)

lemma holds_write:
  assumes "holds key L S t" "no_collision key (insert b S)"
  shows "\<exists>t'. write_node_with key L t b = Some (key b, t') \<and> holds key L (insert b S) t'"
  using write_node_stored [where key = key and L = L, of t S b] assms by (auto simp: holds_def)

lemma holds_read:
  assumes "holds key L S t" "b \<in> S" "no_collision key S" "dec b = Got n"
  shows "\<exists>t'. read_node_with dec L t (key b) = Some (Some n, t') \<and> holds key L S t'"
  using read_node_stored [where key = key and L = L and dec = dec, of t S b n] assms by (auto simp: holds_def)

text \<open>A backing store that holds the node bytes \<open>S\<close>, each in its cell and wrapped as a \<^verbatim>\<open>Value::Bytes\<close>.\<close>

definition kv_stores :: "(bytes \<Rightarrow> u128) \<Rightarrow> fkv \<Rightarrow> bytes set \<Rightarrow> bool" where
  "kv_stores key s S \<longleftrightarrow> (\<forall>b\<in>S. \<exists>w. s (key b) = Some (Some w) \<and> bytes_cell w = Got (VBytes b))"

lemma kv_read_stored:
  assumes "kv_stores key s S" "no_collision key S" "b \<in> S" "dec b = Got n"
  shows "read_node_kv_with dec s (key b) = Some (Some n)"
  using assms no_collision_key [OF assms(2,3)] by (force simp: kv_stores_def read_node_kv_with_def parsed_def)

lemma bytes_cell_serialize: "bigint_ok L \<Longrightarrow> length b < 2 ^ 32 \<Longrightarrow> bytes_cell (the (serialize L (VBytes b))) = Got (VBytes b)"
  using deserialize_TBytes [of L] wt_vcodec [of L TBytes "VBytes b"]
  by (auto simp: vcodec_def codec_def vc_def simp del: deserialize.simps)

subsection \<open>Results that may be errors\<close>

text \<open>\<^verbatim>\<open>Result<T, Error>\<close> of an operation on \<^verbatim>\<open>&mut Tx\<close>: the transaction is kept on the error path too.
  The constructors of \<open>err\<close> are the runtime errors the three collections raise.\<close>

datatype err =
    PBTreeCellMissing u128 string
  | PVecOutOfBounds u64 u64
  | PVecMissingNode string
  | PVecOverflow

type_synonym 'a res = "((err + 'a) \<times> tx) option"

definition rok :: "'a \<Rightarrow> tx \<Rightarrow> 'a res" where "rok x t = Some (Inr x, t)"
definition rerr :: "err \<Rightarrow> tx \<Rightarrow> 'a res" where "rerr e t = Some (Inl e, t)"

definition rbind :: "'a res \<Rightarrow> ('a \<Rightarrow> tx \<Rightarrow> 'b res) \<Rightarrow> 'b res" where
  "rbind m f = do { (r, t) \<leftarrow> m; (case r of Inl e \<Rightarrow> Some (Inl e, t) | Inr x \<Rightarrow> f x t) }"

lemma rbind_rok [simp]: "rbind (Some (Inr x, t)) f = f x t" "rbind (Some (Inl e, t)) f = Some (Inl e, t)"
  by (simp_all add: rbind_def)

definition lift_write :: "(u128 \<times> tx) option \<Rightarrow> u128 res" where
  "lift_write w = map_option (\<lambda>(h, t). (Inr h, t)) w"

lemma lift_write_Some [simp]: "lift_write (Some (h, t)) = Some (Inr h, t)"
  by (simp add: lift_write_def)

subsection \<open>Loops over children\<close>

text \<open>A loop over children that appends what each visit returns.\<close>

fun visit_all :: "(tx \<Rightarrow> u128 \<Rightarrow> ('a list \<times> tx) option) \<Rightarrow> tx \<Rightarrow> u128 list \<Rightarrow> ('a list \<times> tx) option" where
  "visit_all f t [] = Some ([], t)"
| "visit_all f t (c # cs) = do {
     (xs, t1) \<leftarrow> f t c;
     (ys, t2) \<leftarrow> visit_all f t1 cs;
     Some (xs @ ys, t2) }"

lemma visit_all_refines:
  assumes "\<And>c t. c \<in> set cs \<Longrightarrow> H t \<Longrightarrow> \<exists>t'. f t (h c) = Some (g c, t') \<and> H t'" "H t"
  shows "\<exists>t'. visit_all f t (map h cs) = Some (concat (map g cs), t') \<and> H t'"
  using assms
proof (induction cs arbitrary: t)
  case Nil
  then show ?case by simp
next
  case (Cons c cs)
  then obtain t1 where "f t (h c) = Some (g c, t1)" "H t1" by fastforce
  with Cons.IH [OF _ this(2)] Cons.prems show ?case by fastforce
qed

subsection \<open>Reachable node cells\<close>

text \<open>\<^verbatim>\<open>walk_reachable\<close>: depth-first from a root, each cell once. The recursion of the source over the
  children is the stack of hashes still to visit; \<open>kids\<close> decodes a cell (\<open>None\<close> is a panic).\<close>

lemma unvisited_less: "h \<notin> out \<Longrightarrow> card (UNIV - insert h out) < card (UNIV - out)" for out :: "u128 set"
  by (rule psubset_card_mono) auto

function walk_reachable :: "(u128 \<Rightarrow> u128 list option) \<Rightarrow> u128 list \<Rightarrow> u128 set \<Rightarrow> u128 set option" where
  "walk_reachable kids [] out = Some out"
| "walk_reachable kids (h # stack) out =
     (if h = EMPTY \<or> h \<in> out then walk_reachable kids stack out
      else do { cs \<leftarrow> kids h; walk_reachable kids (cs @ stack) (insert h out) })"
  by pat_completeness auto
termination
  by (relation "measures [\<lambda>(kids, stack, out). card (UNIV - out), \<lambda>(kids, stack, out). length stack]")
     (use unvisited_less in auto)

inductive reachable :: "(u128 \<Rightarrow> u128 list option) \<Rightarrow> u128 \<Rightarrow> u128 \<Rightarrow> bool" for kids root where
  reach_root: "root \<noteq> EMPTY \<Longrightarrow> reachable kids root root"
| reach_kid: "reachable kids root h \<Longrightarrow> kids h = Some cs \<Longrightarrow> c \<in> set cs \<Longrightarrow> c \<noteq> EMPTY \<Longrightarrow> reachable kids root c"

lemma walk_reachable_closed:
  assumes "walk_reachable kids stack out = Some out'"
    and "\<And>h cs c. h \<in> out \<Longrightarrow> kids h = Some cs \<Longrightarrow> c \<in> set cs \<Longrightarrow> c \<noteq> EMPTY \<Longrightarrow> c \<in> out \<or> c \<in> set stack"
  shows "out \<subseteq> out' \<and> (\<forall>h\<in>set stack. h \<noteq> EMPTY \<longrightarrow> h \<in> out')
     \<and> (\<forall>h\<in>out'. \<forall>cs. kids h = Some cs \<longrightarrow> (\<forall>c\<in>set cs. c \<noteq> EMPTY \<longrightarrow> c \<in> out'))"
  using assms
proof (induction kids stack out arbitrary: out' rule: walk_reachable.induct)
  case (1 kids out)
  then show ?case by auto
next
  case (2 kids h stack out)
  show ?case
  proof (cases "h = EMPTY \<or> h \<in> out")
    case True
    with "2.prems"(1) have "walk_reachable kids stack out = Some out'" by simp
    from "2.IH"(1) [OF True this] "2.prems"(2) True show ?thesis by fastforce
  next
    case False
    with "2.prems"(1) obtain cs where cs: "kids h = Some cs"
      and w: "walk_reachable kids (cs @ stack) (insert h out) = Some out'"
      by (auto simp: Option.bind_eq_Some_conv)
    have "\<And>g ds c. g \<in> insert h out \<Longrightarrow> kids g = Some ds \<Longrightarrow> c \<in> set ds \<Longrightarrow> c \<noteq> EMPTY \<Longrightarrow>
        c \<in> insert h out \<or> c \<in> set (cs @ stack)"
      using "2.prems"(2) cs by fastforce
    from "2.IH"(2) [OF False cs w this] show ?thesis by auto
  qed
qed

lemma walk_reachable_complete:
  assumes "walk_reachable kids [root] {} = Some out" "reachable kids root h"
  shows "h \<in> out"
proof -
  from walk_reachable_closed [OF assms(1)]
  have "root \<noteq> EMPTY \<longrightarrow> root \<in> out" and "\<forall>h\<in>out. \<forall>cs. kids h = Some cs \<longrightarrow> (\<forall>c\<in>set cs. c \<noteq> EMPTY \<longrightarrow> c \<in> out)"
    by auto
  with assms(2) show ?thesis by (induction rule: reachable.induct) auto
qed

lemma walk_reachable_sound:
  assumes "walk_reachable kids stack out = Some out'"
    and "\<And>h. h \<in> set stack \<Longrightarrow> h \<noteq> EMPTY \<Longrightarrow> reachable kids root h" "\<And>h. h \<in> out \<Longrightarrow> reachable kids root h"
  shows "\<forall>h\<in>out'. reachable kids root h"
  using assms
proof (induction kids stack out arbitrary: out' rule: walk_reachable.induct)
  case (1 kids out)
  then show ?case by auto
next
  case (2 kids h stack out)
  show ?case
  proof (cases "h = EMPTY \<or> h \<in> out")
    case True
    with "2.prems" "2.IH"(1) [OF True] show ?thesis by auto
  next
    case False
    with "2.prems"(1) obtain cs where cs: "kids h = Some cs"
      and w: "walk_reachable kids (cs @ stack) (insert h out) = Some out'"
      by (auto simp: Option.bind_eq_Some_conv)
    show ?thesis
      by (rule "2.IH"(2) [OF False cs w]) (use "2.prems"(2,3) False cs in \<open>auto intro: reach_kid\<close>)
  qed
qed

end
