(* ===== verification/PBTree.thy ===== *)
theory PBTree
  imports NodeStore
begin

section \<open>The persistent B+-tree\<close>

text \<open>
  \<^verbatim>\<open>crates/rend/src/pbtree.rs\<close>: the wire format of the nodes, \<^verbatim>\<open>get\<close>, \<^verbatim>\<open>contains\<close>, \<^verbatim>\<open>set\<close>,
  \<^verbatim>\<open>remove\<close>, \<^verbatim>\<open>range\<close>, \<^verbatim>\<open>first_greater_than\<close>, \<^verbatim>\<open>entries\<close> and \<^verbatim>\<open>reachable_cells\<close>.

  The recursion follows hashes in the store, so every recursive operation takes a fuel; \<open>None\<close> is a
  panic or an exhausted fuel. The refinement lemmas of \<open>PBTreeRefine\<close> show that any fuel above the height of the
  stored tree is enough.

  \<^verbatim>\<open>partition_point\<close> and \<^verbatim>\<open>binary_search_by\<close> are the documented results of the standard library
  on a partitioned (sorted) slice.
\<close>

definition B :: nat where "B = 32"
definition PBTREE_NODE_NS :: u128 where "PBTREE_NODE_NS = 0x5042545245454E4F4445504254524545"

datatype bt_node = BInner "val list" "u128 list" | BLeaf "(val \<times> val) list"

definition bt_cell_key :: "bytes \<Rightarrow> u128" where
  "bt_cell_key bs = child PBTREE_NODE_NS bs"

subsection \<open>Comparison\<close>

datatype ordering = OLess | OEqual | OGreater

definition cmp :: "'a :: linorder \<Rightarrow> 'a \<Rightarrow> ordering" where
  "cmp x y = (if x < y then OLess else if x = y then OEqual else OGreater)"

definition compare_keys :: "val \<Rightarrow> val \<Rightarrow> ordering" where
  "compare_keys a b = (case (a, b) of
     (VU64 x, VU64 y) \<Rightarrow> cmp x y
   | (VU128 x, VU128 y) \<Rightarrow> cmp x y
   | (VBytes x, VBytes y) \<Rightarrow> cmp x y
   | _ \<Rightarrow> OEqual)"

definition partition_point :: "('a \<Rightarrow> bool) \<Rightarrow> 'a list \<Rightarrow> nat" where
  "partition_point P xs = length (takeWhile P xs)"

definition binary_search_by :: "('a \<Rightarrow> ordering) \<Rightarrow> 'a list \<Rightarrow> nat + nat" where
  \<comment> \<open>\<open>Inr\<close> is \<^verbatim>\<open>Ok(pos)\<close>, \<open>Inl\<close> is \<^verbatim>\<open>Err(pos)\<close>\<close>
  "binary_search_by f xs = (let pos = length (takeWhile (\<lambda>x. f x = OLess) xs) in
     if pos < length xs \<and> f (xs ! pos) = OEqual then Inr pos else Inl pos)"

definition descend_pos :: "val list \<Rightarrow> val \<Rightarrow> nat" where
  "descend_pos keys key = partition_point (\<lambda>k. compare_keys k key \<noteq> OGreater) keys"

subsection \<open>Node format\<close>

definition key_to_bytes :: "bigint_lib \<Rightarrow> val \<Rightarrow> bytes option" where
  "key_to_bytes L k = do { kb \<leftarrow> serialize L k; Some (u32_be (length kb) @ kb) }"

definition bt_serialize_inner :: "bigint_lib \<Rightarrow> val list \<Rightarrow> u128 list \<Rightarrow> bytes option" where
  "bt_serialize_inner L keys children = do {
     kbs \<leftarrow> mapM (key_to_bytes L) keys;
     Some (TAG_INNER # u32_be (length keys) @ concat kbs
           @ concat (map (\<lambda>h. be_bytes 16 (unat h)) children)) }"

definition bt_serialize_leaf :: "bigint_lib \<Rightarrow> (val \<times> val) list \<Rightarrow> bytes option" where
  "bt_serialize_leaf L entries = do {
     bss \<leftarrow> mapM (entry_to_bytes L) entries;
     Some (TAG_LEAF # u32_be (length entries) @ concat bss) }"

primrec read_keys :: "bigint_lib \<Rightarrow> ty \<Rightarrow> nat \<Rightarrow> bytes \<Rightarrow> (val list \<times> bytes) parse" where
  "read_keys L kt 0 bs = Got ([], bs)"
| "read_keys L kt (Suc n) bs =
     pbind (or_miss (do { (kl, r) \<leftarrow> read_u32 bs; split_at kl r })) (\<lambda>(kb, r1).
     pbind (deserialize L kb kt) (\<lambda>k.
     pbind (read_keys L kt n r1) (\<lambda>(ks, r2). Got (k # ks, r2))))"

definition bt_deserialize_node :: "bigint_lib \<Rightarrow> ty \<Rightarrow> ty \<Rightarrow> bytes \<Rightarrow> bt_node parse" where
  "bt_deserialize_node L kt vt bs = (case bs of [] \<Rightarrow> Miss | tag # rest \<Rightarrow>
     if tag = TAG_INNER then
       pbind (or_miss (read_u32 rest)) (\<lambda>(n, r).
       pbind (read_keys L kt n r) (\<lambda>(keys, r').
       or_miss (map_option (BInner keys) (read_hashes (n + 1) r'))))
     else if tag = TAG_LEAF then
       pbind (or_miss (read_u32 rest)) (\<lambda>(n, r).
       pbind (read_entries L kt vt n r) (\<lambda>es. Got (BLeaf es)))
     else Miss)"

definition bt_read_node :: "bigint_lib \<Rightarrow> ty \<Rightarrow> ty \<Rightarrow> tx \<Rightarrow> u128 \<Rightarrow> (bt_node option \<times> tx) option" where
  "bt_read_node L kt vt t h = read_node_with (bt_deserialize_node L kt vt) L t h"

definition bt_write_node :: "bigint_lib \<Rightarrow> tx \<Rightarrow> bytes \<Rightarrow> (u128 \<times> tx) option" where
  "bt_write_node L t b = write_node_with bt_cell_key L t b"

definition bt_write_leaf :: "bigint_lib \<Rightarrow> tx \<Rightarrow> (val \<times> val) list \<Rightarrow> (u128 \<times> tx) option" where
  "bt_write_leaf L t es = do { b \<leftarrow> bt_serialize_leaf L es; bt_write_node L t b }"

definition bt_write_inner :: "bigint_lib \<Rightarrow> tx \<Rightarrow> val list \<Rightarrow> u128 list \<Rightarrow> (u128 \<times> tx) option" where
  "bt_write_inner L t ks cs = do { b \<leftarrow> bt_serialize_inner L ks cs; bt_write_node L t b }"

subsection \<open>Lookups\<close>

fun bt_get_at :: "nat \<Rightarrow> bigint_lib \<Rightarrow> ty \<Rightarrow> ty \<Rightarrow> tx \<Rightarrow> u128 \<Rightarrow> val \<Rightarrow> (val option \<times> tx) option" where
  "bt_get_at 0 L kt vt t h key = None"
| "bt_get_at (Suc n) L kt vt t h key = do {
     (node, t1) \<leftarrow> bt_read_node L kt vt t h;
     (case node of
        None \<Rightarrow> Some (None, t1)
      | Some (BLeaf entries) \<Rightarrow>
          Some (map_option snd (find (\<lambda>e. compare_keys (fst e) key = OEqual) entries), t1)
      | Some (BInner keys children) \<Rightarrow>
          (let pos = descend_pos keys key in
           if pos < length children then bt_get_at n L kt vt t1 (children ! pos) key else None)) }"

definition bt_get :: "nat \<Rightarrow> bigint_lib \<Rightarrow> ty \<Rightarrow> ty \<Rightarrow> tx \<Rightarrow> u128 \<Rightarrow> val \<Rightarrow> (val option \<times> tx) option" where
  "bt_get n L kt vt t root key = (if root = EMPTY then Some (None, t) else bt_get_at n L kt vt t root key)"

definition bt_contains :: "nat \<Rightarrow> bigint_lib \<Rightarrow> ty \<Rightarrow> ty \<Rightarrow> tx \<Rightarrow> u128 \<Rightarrow> val \<Rightarrow> (bool \<times> tx) option" where
  "bt_contains n L kt vt t root key = do { (v, t') \<leftarrow> bt_get n L kt vt t root key; Some (v \<noteq> None, t') }"

subsection \<open>Insertion\<close>

datatype 'n set_result = SPlain 'n | SSplit 'n val 'n

definition leaf_insert :: "val \<Rightarrow> val \<Rightarrow> (val \<times> val) list \<Rightarrow> (val \<times> val) list" where
  "leaf_insert key v entries =
     (case binary_search_by (\<lambda>e. compare_keys (fst e) key) entries of
        Inr pos \<Rightarrow> entries[pos := (key, v)]
      | Inl pos \<Rightarrow> insert_at pos (key, v) entries)"

fun bt_set_inner :: "nat \<Rightarrow> bigint_lib \<Rightarrow> ty \<Rightarrow> ty \<Rightarrow> tx \<Rightarrow> u128 \<Rightarrow> val \<Rightarrow> val \<Rightarrow> u128 set_result res" where
  "bt_set_inner 0 L kt vt t h key v = None"
| "bt_set_inner (Suc n) L kt vt t h key v = do {
     (node, t1) \<leftarrow> bt_read_node L kt vt t h;
     (case node of
        None \<Rightarrow> rerr (PBTreeCellMissing h ''set'') t1
      | Some (BLeaf entries) \<Rightarrow>
          (let es = leaf_insert key v entries in
           if length es \<le> B then do {
             (w, t2) \<leftarrow> bt_write_leaf L t1 es; rok (SPlain w) t2 }
           else (let mid = length es div 2; right_entries = drop mid es; sep = fst (right_entries ! 0) in do {
             (left, t2) \<leftarrow> bt_write_leaf L t1 (take mid es);
             (right, t3) \<leftarrow> bt_write_leaf L t2 right_entries;
             rok (SSplit left sep right) t3 }))
      | Some (BInner keys children) \<Rightarrow>
          (let pos = descend_pos keys key in
           if pos < length children then
             rbind (bt_set_inner n L kt vt t1 (children ! pos) key v) (\<lambda>r t2.
               (case r of
                  SPlain new_child \<Rightarrow> do {
                    (w, t3) \<leftarrow> bt_write_inner L t2 keys (children[pos := new_child]);
                    rok (SPlain w) t3 }
                | SSplit left sep right \<Rightarrow>
                    (let new_keys = insert_at pos sep keys;
                         new_children = insert_at (pos + 1) right (children[pos := left]) in
                     if length new_keys \<le> B then do {
                       (w, t3) \<leftarrow> bt_write_inner L t2 new_keys new_children;
                       rok (SPlain w) t3 }
                     else (let mid = length new_keys div 2; split_key = new_keys ! mid in do {
                       (left_hash, t3) \<leftarrow> bt_write_inner L t2 (take mid new_keys) (take (mid + 1) new_children);
                       (right_hash, t4) \<leftarrow> bt_write_inner L t3 (drop (mid + 1) new_keys) (drop (mid + 1) new_children);
                       rok (SSplit left_hash split_key right_hash) t4 }))))
           else None)) }"

definition bt_set :: "nat \<Rightarrow> bigint_lib \<Rightarrow> ty \<Rightarrow> ty \<Rightarrow> tx \<Rightarrow> u128 \<Rightarrow> val \<Rightarrow> val \<Rightarrow> u128 res" where
  "bt_set n L kt vt t root key v =
     (if root = EMPTY then lift_write (bt_write_leaf L t [(key, v)])
      else rbind (bt_set_inner n L kt vt t root key v) (\<lambda>r t'.
        (case r of
           SPlain h \<Rightarrow> rok h t'
         | SSplit left sep right \<Rightarrow> lift_write (bt_write_inner L t' [sep] [left, right]))))"

subsection \<open>Removal\<close>

datatype 'n remove_result = RUnchanged | RPlain 'n | RGone

definition drop_key :: "nat \<Rightarrow> val list \<Rightarrow> val list" where
  "drop_key pos keys = (if pos < length keys then remove_at pos keys
     else if pos > 0 then remove_at (pos - 1) keys else keys)"

fun bt_remove_inner :: "nat \<Rightarrow> bigint_lib \<Rightarrow> ty \<Rightarrow> ty \<Rightarrow> tx \<Rightarrow> u128 \<Rightarrow> val \<Rightarrow> u128 remove_result res" where
  "bt_remove_inner 0 L kt vt t h key = None"
| "bt_remove_inner (Suc n) L kt vt t h key = do {
     (node, t1) \<leftarrow> bt_read_node L kt vt t h;
     (case node of
        None \<Rightarrow> rerr (PBTreeCellMissing h ''remove'') t1
      | Some (BLeaf entries) \<Rightarrow>
          (case binary_search_by (\<lambda>e. compare_keys (fst e) key) entries of
             Inl _ \<Rightarrow> rok RUnchanged t1
           | Inr pos \<Rightarrow>
               (let es = remove_at pos entries in
                if es = [] then rok RGone t1
                else do { (w, t2) \<leftarrow> bt_write_leaf L t1 es; rok (RPlain w) t2 }))
      | Some (BInner keys children) \<Rightarrow>
          (let pos = descend_pos keys key in
           if pos < length children then
             rbind (bt_remove_inner n L kt vt t1 (children ! pos) key) (\<lambda>r t2.
               (case r of
                  RUnchanged \<Rightarrow> rok RUnchanged t2
                | RPlain new_child \<Rightarrow> do {
                    (w, t3) \<leftarrow> bt_write_inner L t2 keys (children[pos := new_child]);
                    rok (RPlain w) t3 }
                | RGone \<Rightarrow>
                    (let new_children = remove_at pos children; new_keys = drop_key pos keys in
                     if new_children = [] then rok RGone t2
                     else if new_keys = [] \<and> length new_children = 1 then rok (RPlain (new_children ! 0)) t2
                     else do {
                       (w, t3) \<leftarrow> bt_write_inner L t2 new_keys new_children;
                       rok (RPlain w) t3 })))
           else None)) }"

definition bt_remove :: "nat \<Rightarrow> bigint_lib \<Rightarrow> ty \<Rightarrow> ty \<Rightarrow> tx \<Rightarrow> u128 \<Rightarrow> val \<Rightarrow> u128 res" where
  "bt_remove n L kt vt t root key =
     (if root = EMPTY then rok EMPTY t
      else rbind (bt_remove_inner n L kt vt t root key) (\<lambda>r t'.
        (case r of RUnchanged \<Rightarrow> rok root t' | RPlain h \<Rightarrow> rok h t' | RGone \<Rightarrow> rok EMPTY t')))"

subsection \<open>Ordered scans\<close>

fun leaf_range :: "val \<Rightarrow> val \<Rightarrow> (val \<times> val) list \<Rightarrow> val list" where
  "leaf_range lo hi [] = []"
| "leaf_range lo hi ((k, v) # es) =
     (if compare_keys k lo = OLess then leaf_range lo hi es
      else if compare_keys k hi = OGreater then []
      else v # leaf_range lo hi es)"

fun bt_range_at :: "nat \<Rightarrow> bigint_lib \<Rightarrow> ty \<Rightarrow> ty \<Rightarrow> tx \<Rightarrow> u128 \<Rightarrow> val \<Rightarrow> val \<Rightarrow> (val list \<times> tx) option" where
  "bt_range_at 0 L kt vt t h lo hi = None"
| "bt_range_at (Suc n) L kt vt t h lo hi = do {
     (node, t1) \<leftarrow> bt_read_node L kt vt t h;
     (case node of
        None \<Rightarrow> Some ([], t1)
      | Some (BLeaf entries) \<Rightarrow> Some (leaf_range lo hi entries, t1)
      | Some (BInner keys children) \<Rightarrow>
          visit_all (\<lambda>t' c. bt_range_at n L kt vt t' c lo hi) t1
            (drop (descend_pos keys lo) (take (descend_pos keys hi + 1) children))) }"

definition bt_range :: "nat \<Rightarrow> bigint_lib \<Rightarrow> ty \<Rightarrow> ty \<Rightarrow> tx \<Rightarrow> u128 \<Rightarrow> val \<Rightarrow> val \<Rightarrow> (val list \<times> tx) option" where
  "bt_range n L kt vt t root lo hi = (if root = EMPTY then Some ([], t) else bt_range_at n L kt vt t root lo hi)"

definition beyond :: "val option \<Rightarrow> val \<Rightarrow> bool" where
  "beyond target k = (case target of None \<Rightarrow> True | Some x \<Rightarrow> compare_keys k x = OGreater)"

fun try_children :: "(tx \<Rightarrow> u128 \<Rightarrow> val option \<Rightarrow> ((val \<times> val) option \<times> tx) option) \<Rightarrow> tx \<Rightarrow> val option
    \<Rightarrow> u128 list \<Rightarrow> ((val \<times> val) option \<times> tx) option" where
  \<comment> \<open>the first child visited is filtered by the target, the later ones are not\<close>
  "try_children f t target [] = Some (None, t)"
| "try_children f t target (c # cs) = do {
     (r, t1) \<leftarrow> f t c target;
     (case r of Some pair \<Rightarrow> Some (Some pair, t1) | None \<Rightarrow> try_children f t1 None cs) }"

definition start_pos :: "val option \<Rightarrow> val list \<Rightarrow> nat" where
  "start_pos target keys = (case target of None \<Rightarrow> 0
     | Some x \<Rightarrow> length (takeWhile (\<lambda>k. compare_keys k x \<noteq> OGreater) keys))"

fun bt_first_greater_at :: "nat \<Rightarrow> bigint_lib \<Rightarrow> ty \<Rightarrow> ty \<Rightarrow> tx \<Rightarrow> u128 \<Rightarrow> val option
    \<Rightarrow> ((val \<times> val) option \<times> tx) option" where
  "bt_first_greater_at 0 L kt vt t h target = None"
| "bt_first_greater_at (Suc n) L kt vt t h target = do {
     (node, t1) \<leftarrow> bt_read_node L kt vt t h;
     (case node of
        None \<Rightarrow> Some (None, t1)
      | Some (BLeaf entries) \<Rightarrow> Some (find (\<lambda>e. beyond target (fst e)) entries, t1)
      | Some (BInner keys children) \<Rightarrow>
          try_children (\<lambda>t' c tg. bt_first_greater_at n L kt vt t' c tg) t1 target
            (drop (start_pos target keys) children)) }"

definition bt_first_greater_than :: "nat \<Rightarrow> bigint_lib \<Rightarrow> ty \<Rightarrow> ty \<Rightarrow> tx \<Rightarrow> u128 \<Rightarrow> val option
    \<Rightarrow> ((val \<times> val) option \<times> tx) option" where
  "bt_first_greater_than n L kt vt t root target =
     (if root = EMPTY then Some (None, t) else bt_first_greater_at n L kt vt t root target)"

fun bt_collect_entries :: "nat \<Rightarrow> bigint_lib \<Rightarrow> ty \<Rightarrow> ty \<Rightarrow> tx \<Rightarrow> u128 \<Rightarrow> ((val \<times> val) list \<times> tx) option" where
  "bt_collect_entries 0 L kt vt t h = None"
| "bt_collect_entries (Suc n) L kt vt t h = do {
     (node, t1) \<leftarrow> bt_read_node L kt vt t h;
     (case node of
        None \<Rightarrow> Some ([], t1)
      | Some (BLeaf entries) \<Rightarrow> Some (entries, t1)
      | Some (BInner keys children) \<Rightarrow> visit_all (\<lambda>t' c. bt_collect_entries n L kt vt t' c) t1 children) }"

definition bt_entries :: "nat \<Rightarrow> bigint_lib \<Rightarrow> ty \<Rightarrow> ty \<Rightarrow> tx \<Rightarrow> u128 \<Rightarrow> ((val \<times> val) list \<times> tx) option" where
  "bt_entries n L kt vt t root = (if root = EMPTY then Some ([], t) else bt_collect_entries n L kt vt t root)"

subsection \<open>Reachability\<close>

definition bt_kids :: "bigint_lib \<Rightarrow> kv \<Rightarrow> ty \<Rightarrow> ty \<Rightarrow> u128 \<Rightarrow> u128 list option" where
  \<comment> \<open>the cell's bytes are decoded as they are stored\<close>
  "bt_kids L s kt vt h = (case s h of None \<Rightarrow> Some []
     | Some b \<Rightarrow> (case bt_deserialize_node L kt vt b of
         Got (BInner _ children) \<Rightarrow> Some children | Panic \<Rightarrow> None | _ \<Rightarrow> Some []))"

definition bt_reachable_cells :: "bigint_lib \<Rightarrow> kv \<Rightarrow> ty \<Rightarrow> ty \<Rightarrow> u128 \<Rightarrow> u128 set option" where
  "bt_reachable_cells L s kt vt root = walk_reachable (bt_kids L s kt vt) [root] {}"

end
