(* ===== verification/PBTreeRefine.thy ===== *)
theory PBTreeRefine
  imports PBTree
begin

section \<open>Refinement of the B+-tree to trees in memory\<close>

text \<open>
  A tree in the store is the content-addressed image of an in-memory tree \<open>btree\<close>: \<open>bt_bytes\<close> is the
  encoding of its root, \<open>bt_hash\<close> the hash that names it, \<open>bt_cells\<close> the encodings of all its nodes.
  Each operation of \<open>PBTree\<close> has a pure counterpart on \<open>btree\<close> (\<open>tget\<close>, \<open>tset\<close>, \<open>tremove\<close>, \<open>trange\<close>,
  \<open>tfirst\<close>, \<open>tentries\<close>), and the lemmas \<open>bt_*_refines\<close> show that on a transaction that stores the
  tree, with fuel above its height, the operation returns the hash (or the answer) of its
  counterpart, does not raise an error, and keeps every node stored before (persistence).
\<close>

datatype btree = BtLeaf "(val \<times> val) list" | BtNode "val list" "btree list"

fun bt_bytes :: "bigint_lib \<Rightarrow> btree \<Rightarrow> bytes" where
  "bt_bytes L (BtLeaf es) = the (bt_serialize_leaf L es)"
| "bt_bytes L (BtNode ks ts) = the (bt_serialize_inner L ks (map (\<lambda>c. bt_cell_key (bt_bytes L c)) ts))"

definition bt_hash :: "bigint_lib \<Rightarrow> btree \<Rightarrow> u128" where
  "bt_hash L T = bt_cell_key (bt_bytes L T)"

fun bt_cells :: "bigint_lib \<Rightarrow> btree \<Rightarrow> bytes set" where
  "bt_cells L (BtLeaf es) = {bt_bytes L (BtLeaf es)}"
| "bt_cells L (BtNode ks ts) = insert (bt_bytes L (BtNode ks ts)) (\<Union>c\<in>set ts. bt_cells L c)"

fun bt_height :: "btree \<Rightarrow> nat" where
  "bt_height (BtLeaf es) = 0"
| "bt_height (BtNode ks ts) = Suc (Max (set (map bt_height ts)))"

definition key_ok :: "bigint_lib \<Rightarrow> ty \<Rightarrow> val \<Rightarrow> bool" where
  "key_ok L kt k \<longleftrightarrow> wt L kt k \<and> length (the (serialize L k)) < 2 ^ 32"

text \<open>Storable nodes: typed entries and separators, at most \<open>B\<close> of them, one child more than separators.\<close>

fun bt_wf :: "bigint_lib \<Rightarrow> ty \<Rightarrow> ty \<Rightarrow> btree \<Rightarrow> bool" where
  "bt_wf L kt vt (BtLeaf es) = (es \<noteq> [] \<and> length es \<le> B \<and> list_all (entry_ok L kt vt) es)"
| "bt_wf L kt vt (BtNode ks ts) = (length ks \<le> B \<and> length ts = length ks + 1 \<and> list_all (key_ok L kt) ks
     \<and> list_all (bt_wf L kt vt) ts)"

lemma bt_bytes_in_cells: "bt_bytes L T \<in> bt_cells L T"
  by (cases T) auto

lemma bt_child_height: "c \<in> set ts \<Longrightarrow> bt_height c < bt_height (BtNode ks ts)"
  by (simp add: less_Suc_eq_le)

subsection \<open>The encoding of a stored tree decodes to its root node\<close>

fun bt_top :: "bigint_lib \<Rightarrow> btree \<Rightarrow> bt_node" where
  "bt_top L (BtLeaf es) = BLeaf es"
| "bt_top L (BtNode ks ts) = BInner ks (map (bt_hash L) ts)"

lemma keys_round_trip:
  assumes "bigint_ok L" "list_all (key_ok L kt) ks"
  shows "\<exists>bss. mapM (key_to_bytes L) ks = Some bss
     \<and> (\<forall>rest. read_keys L kt (length ks) (concat bss @ rest) = Got (ks, rest))"
  using assms(2)
proof (induction ks)
  case Nil
  then show ?case by simp
next
  case (Cons k ks)
  then obtain bss where bss: "mapM (key_to_bytes L) ks = Some bss"
    "\<And>rest. read_keys L kt (length ks) (concat bss @ rest) = Got (ks, rest)" by auto
  from Cons.prems wt_serialize [OF assms(1), of kt k] obtain kb where
    "serialize L k = Some kb" "deserialize L kb kt = Got k" "length kb < 2 ^ 32"
    by (auto simp: key_ok_def)
  with bss show ?case by (simp add: key_to_bytes_def [of L k] codec_simps)
qed

lemma bt_leaf_codec:
  assumes "bigint_ok L" "list_all (entry_ok L kt vt) es" "length es < 2 ^ 32"
  shows "\<exists>b. bt_serialize_leaf L es = Some b \<and> bt_deserialize_node L kt vt b = Got (BLeaf es)"
  using entries_round_trip [OF assms(1,2)] assms(3)
  by (auto simp: bt_serialize_leaf_def bt_deserialize_node_def codec_simps)

lemma bt_inner_codec:
  assumes "bigint_ok L" "list_all (key_ok L kt) ks" "length ks < 2 ^ 32" "length hs = length ks + 1"
  shows "\<exists>b. bt_serialize_inner L ks hs = Some b \<and> bt_deserialize_node L kt vt b = Got (BInner ks hs)"
proof -
  obtain bss where "mapM (key_to_bytes L) ks = Some bss"
    "\<And>rest. read_keys L kt (length ks) (concat bss @ rest) = Got (ks, rest)"
    using keys_round_trip [OF assms(1,2)] by blast
  then show ?thesis using assms(3,4) read_hashes_concat [of hs "[]"]
    by (simp add: bt_serialize_inner_def bt_deserialize_node_def codec_simps del: read_hashes.simps)
qed

lemma bt_hash_map: "map (\<lambda>c. bt_cell_key (bt_bytes L c)) ts = map (bt_hash L) ts"
  by (simp add: bt_hash_def)

lemma bt_decode:
  assumes "bigint_ok L" "bt_wf L kt vt T"
  shows "bt_deserialize_node L kt vt (bt_bytes L T) = Got (bt_top L T)"
proof (cases T)
  case (BtLeaf es)
  then show ?thesis using assms bt_leaf_codec [OF assms(1), of kt vt es] by (auto simp: B_def)
next
  case (BtNode ks ts)
  then show ?thesis using assms bt_inner_codec [OF assms(1), of kt ks "map (bt_hash L) ts" vt]
    by (auto simp: B_def bt_hash_map)
qed

abbreviation bt_holds :: "bigint_lib \<Rightarrow> bytes set \<Rightarrow> tx \<Rightarrow> bool" where
  "bt_holds \<equiv> holds bt_cell_key"

lemma bt_write_node_stored:
  assumes "bt_holds L S t" "no_collision bt_cell_key (insert b S)"
  shows "\<exists>t'. bt_write_node L t b = Some (bt_cell_key b, t') \<and> bt_holds L (insert b S) t'"
  using holds_write [OF assms] by (simp add: bt_write_node_def)

lemma bt_write_leaf_stored:
  assumes "bt_holds L S t" "no_collision bt_cell_key (insert (bt_bytes L (BtLeaf es)) S)"
    and "list_all (entry_ok L kt vt) es"
  shows "\<exists>t'. bt_write_leaf L t es = Some (bt_hash L (BtLeaf es), t')
     \<and> bt_holds L (insert (bt_bytes L (BtLeaf es)) S) t'"
proof -
  have "\<exists>b. bt_serialize_leaf L es = Some b"
    using entries_round_trip [of L kt vt es] assms(1,3) by (auto simp: bt_serialize_leaf_def holds_def)
  then show ?thesis using bt_write_node_stored [OF assms(1,2)]
    by (auto simp: bt_write_leaf_def bt_hash_def)
qed

lemma bt_write_inner_stored:
  assumes "bt_holds L S t" "no_collision bt_cell_key (insert (bt_bytes L (BtNode ks ts)) S)"
    and "list_all (key_ok L kt) ks"
  shows "\<exists>t'. bt_write_inner L t ks (map (bt_hash L) ts) = Some (bt_hash L (BtNode ks ts), t')
     \<and> bt_holds L (insert (bt_bytes L (BtNode ks ts)) S) t'"
proof -
  have "\<exists>b. bt_serialize_inner L ks (map (bt_hash L) ts) = Some b"
    using keys_round_trip [of L kt ks] assms(1,3) by (auto simp: bt_serialize_inner_def holds_def)
  then show ?thesis using bt_write_node_stored [OF assms(1,2)]
    by (auto simp: bt_write_inner_def bt_hash_def bt_hash_map)
qed

lemma bt_read_stored:
  assumes "bt_holds L S t" "no_collision bt_cell_key S" "bt_wf L kt vt T" "bt_cells L T \<subseteq> S"
  shows "\<exists>t'. bt_read_node L kt vt t (bt_hash L T) = Some (Some (bt_top L T), t') \<and> bt_holds L S t'"
proof -
  have b: "bt_bytes L T \<in> S" using assms(4) bt_bytes_in_cells by blast
  have "bt_deserialize_node L kt vt (bt_bytes L T) = Got (bt_top L T)"
    using assms(1,3) bt_decode by (simp add: holds_def)
  from holds_read [where dec = "bt_deserialize_node L kt vt", OF assms(1) b assms(2) this] show ?thesis
    by (simp add: bt_read_node_def bt_hash_def)
qed

subsection \<open>The operations on trees in memory\<close>

fun tget :: "btree \<Rightarrow> val \<Rightarrow> val option" where
  "tget (BtLeaf es) key = map_option snd (find (\<lambda>e. compare_keys (fst e) key = OEqual) es)"
| "tget (BtNode ks ts) key = (let pos = descend_pos ks key in
     if pos < length ts then map (\<lambda>c. tget c key) ts ! pos else None)"

fun tset :: "btree \<Rightarrow> val \<Rightarrow> val \<Rightarrow> btree set_result" where
  "tset (BtLeaf entries) key v =
     (let es = leaf_insert key v entries; mid = length es div 2 in
      if length es \<le> B then SPlain (BtLeaf es)
      else SSplit (BtLeaf (take mid es)) (fst (drop mid es ! 0)) (BtLeaf (drop mid es)))"
| "tset (BtNode ks ts) key v =
     (let pos = descend_pos ks key in
      case map (\<lambda>c. tset c key v) ts ! pos of
        SPlain c \<Rightarrow> SPlain (BtNode ks (ts[pos := c]))
      | SSplit l sep r \<Rightarrow>
          (let ks' = insert_at pos sep ks; ts' = insert_at (pos + 1) r (ts[pos := l]); mid = length ks' div 2 in
           if length ks' \<le> B then SPlain (BtNode ks' ts')
           else SSplit (BtNode (take mid ks') (take (mid + 1) ts')) (ks' ! mid)
                  (BtNode (drop (mid + 1) ks') (drop (mid + 1) ts'))))"

definition troot :: "btree set_result \<Rightarrow> btree" where
  "troot r = (case r of SPlain T \<Rightarrow> T | SSplit l sep rt \<Rightarrow> BtNode [sep] [l, rt])"

fun tremove :: "btree \<Rightarrow> val \<Rightarrow> btree remove_result" where
  "tremove (BtLeaf entries) key =
     (case binary_search_by (\<lambda>e. compare_keys (fst e) key) entries of
        Inl _ \<Rightarrow> RUnchanged
      | Inr pos \<Rightarrow> (let es = remove_at pos entries in if es = [] then RGone else RPlain (BtLeaf es)))"
| "tremove (BtNode ks ts) key =
     (let pos = descend_pos ks key in
      case map (\<lambda>c. tremove c key) ts ! pos of
        RUnchanged \<Rightarrow> RUnchanged
      | RPlain c \<Rightarrow> RPlain (BtNode ks (ts[pos := c]))
      | RGone \<Rightarrow>
          (let ts' = remove_at pos ts; ks' = drop_key pos ks in
           if ts' = [] then RGone
           else if ks' = [] \<and> length ts' = 1 then RPlain (ts' ! 0)
           else RPlain (BtNode ks' ts')))"

fun trange :: "btree \<Rightarrow> val \<Rightarrow> val \<Rightarrow> val list" where
  "trange (BtLeaf es) lo hi = leaf_range lo hi es"
| "trange (BtNode ks ts) lo hi =
     concat (drop (descend_pos ks lo) (take (descend_pos ks hi + 1) (map (\<lambda>c. trange c lo hi) ts)))"

fun tentries :: "btree \<Rightarrow> (val \<times> val) list" where
  "tentries (BtLeaf es) = es"
| "tentries (BtNode ks ts) = concat (map tentries ts)"

fun first_some :: "'a option list \<Rightarrow> 'a option" where
  "first_some [] = None"
| "first_some (x # xs) = (case x of Some a \<Rightarrow> Some a | None \<Rightarrow> first_some xs)"

fun tfirst :: "btree \<Rightarrow> val option \<Rightarrow> (val \<times> val) option" where
  "tfirst (BtLeaf es) target = find (\<lambda>e. beyond target (fst e)) es"
| "tfirst (BtNode ks ts) target =
     (let start = start_pos target ks; fs = drop start (map tfirst ts) in
      case fs of [] \<Rightarrow> None | f # rest \<Rightarrow> first_some (f target # map (\<lambda>g. g None) rest))"

lemma tset_plain:
  "descend_pos ks k < length ts \<Longrightarrow> tset (ts ! descend_pos ks k) k v = SPlain c \<Longrightarrow>
   tset (BtNode ks ts) k v = SPlain (BtNode ks (ts[descend_pos ks k := c]))"
  by (simp add: Let_def)

lemma tset_split:
  assumes "pos = descend_pos ks k" "pos < length ts" "tset (ts ! pos) k v = SSplit l sep r"
    and "ks' = insert_at pos sep ks" "ts' = insert_at (pos + 1) r (ts[pos := l])" "m = length ks' div 2"
  shows "tset (BtNode ks ts) k v = (if length ks' \<le> B then SPlain (BtNode ks' ts')
     else SSplit (BtNode (take m ks') (take (m + 1) ts')) (ks' ! m) (BtNode (drop (m + 1) ks') (drop (m + 1) ts')))"
  using assms by (simp add: Let_def)

declare tset.simps(2) [simp del] bt_bytes.simps [simp del]

subsection \<open>Well-formedness is kept\<close>

lemma descend_pos_le: "descend_pos ks k \<le> length ks"
  by (simp add: descend_pos_def partition_point_def length_takeWhile_le)

lemma bt_wf_child: "bt_wf L kt vt (BtNode ks ts) \<Longrightarrow> descend_pos ks k < length ts"
  using descend_pos_le [of ks k] by simp

lemma length_drop_key: "pos \<le> length ks \<Longrightarrow> length (drop_key pos ks) = length ks - 1"
  by (auto simp: drop_key_def)

lemma set_drop_key: "set (drop_key pos ks) \<subseteq> set ks"
  using set_remove_at [of pos ks] set_remove_at [of "pos - 1" ks] by (auto simp: drop_key_def)

lemma set_leaf_insert: "set (leaf_insert k v es) \<subseteq> insert (k, v) (set es)"
  using set_update_subset_insert [of es _ "(k, v)"]
  by (auto simp: leaf_insert_def set_insert_at split: sum.split)

lemma binary_search_le: "binary_search_by f xs = Inl pos \<Longrightarrow> pos \<le> length xs"
  by (auto simp: binary_search_by_def Let_def length_takeWhile_le split: if_splits)

lemma binary_search_less: "binary_search_by f xs = Inr pos \<Longrightarrow> pos < length xs"
  by (auto simp: binary_search_by_def Let_def split: if_splits)

lemma length_leaf_insert:
  "length es \<le> length (leaf_insert k v es) \<and> length (leaf_insert k v es) \<le> Suc (length es) \<and> leaf_insert k v es \<noteq> []"
  using binary_search_le [of "\<lambda>e. compare_keys (fst e) k" es] binary_search_less [of "\<lambda>e. compare_keys (fst e) k" es]
  by (cases "binary_search_by (\<lambda>e. compare_keys (fst e) k) es") (auto simp: leaf_insert_def insert_at_def)

fun up_wf :: "bigint_lib \<Rightarrow> ty \<Rightarrow> ty \<Rightarrow> btree set_result \<Rightarrow> bool" where
  "up_wf L kt vt (SPlain T) = bt_wf L kt vt T"
| "up_wf L kt vt (SSplit l sep r) = (bt_wf L kt vt l \<and> key_ok L kt sep \<and> bt_wf L kt vt r)"

lemma entry_ok_key: "entry_ok L kt vt e \<Longrightarrow> key_ok L kt (fst e)"
  by (simp add: entry_ok_def key_ok_def)

lemma tset_wf_leaf:
  assumes "bt_wf L kt vt (BtLeaf es)" "entry_ok L kt vt (k, v)"
  shows "up_wf L kt vt (tset (BtLeaf es) k v)"
proof -
  let ?es = "leaf_insert k v es"
  have es: "list_all (entry_ok L kt vt) ?es"
    using assms set_leaf_insert [of k v es] by (auto simp: list_all_iff)
  have parts: "list_all (entry_ok L kt vt) (take n ?es)" "list_all (entry_ok L kt vt) (drop n ?es)" for n
    using es by (auto simp: list_all_iff dest: in_set_takeD in_set_dropD)
  have len: "length ?es \<le> Suc B" "?es \<noteq> []" using assms(1) length_leaf_insert [of es k v] by auto
  show ?thesis
  proof (cases "length ?es \<le> B")
    case True
    then show ?thesis using es len by (simp add: Let_def)
  next
    case False
    with len have l: "length ?es = 33" by (simp add: B_def)
    then have "entry_ok L kt vt (drop 16 ?es ! 0)" using es by (simp add: list_all_length)
    with l parts show ?thesis by (auto simp: Let_def B_def intro: entry_ok_key)
  qed
qed

lemma tset_wf_node:
  assumes "bt_wf L kt vt (BtNode ks ts)" "up_wf L kt vt (tset (ts ! descend_pos ks k) k v)"
  shows "up_wf L kt vt (tset (BtNode ks ts) k v)"
proof -
  let ?pos = "descend_pos ks k"
  have pos: "?pos < length ts" "?pos \<le> length ks" using bt_wf_child [OF assms(1)] descend_pos_le by auto
  show ?thesis
  proof (cases "tset (ts ! ?pos) k v")
    case (SPlain c)
    then have "list_all (bt_wf L kt vt) (ts[?pos := c])"
      using assms by (auto simp: list_all_iff dest: set_update_subset_insert [THEN subsetD])
    with SPlain assms(1) pos show ?thesis by (simp add: tset_plain)
  next
    case (SSplit l sep r)
    let ?ks = "insert_at ?pos sep ks" and ?ts = "insert_at (?pos + 1) r (ts[?pos := l])"
    have ks: "list_all (key_ok L kt) ?ks" and ts: "list_all (bt_wf L kt vt) ?ts"
      using SSplit assms set_update_subset_insert [of ts ?pos l] by (auto simp: list_all_iff set_insert_at)
    have len: "length ?ks = Suc (length ks)" "length ?ts = Suc (length ts)" using pos by auto
    have kparts: "list_all (key_ok L kt) (take n ?ks)" "list_all (key_ok L kt) (drop n ?ks)"
      and tparts: "list_all (bt_wf L kt vt) (take n ?ts)" "list_all (bt_wf L kt vt) (drop n ?ts)" for n
      using ks ts by (auto simp: list_all_iff dest: in_set_takeD in_set_dropD)
    show ?thesis
    proof (cases "length ?ks \<le> B")
      case True
      with tset_split [OF refl pos(1) SSplit refl refl refl] assms(1) pos ks ts len show ?thesis by simp
    next
      case False
      with len assms(1) have l: "length ?ks = 33" "length ?ts = 34" by (auto simp: B_def)
      then have "key_ok L kt (?ks ! 16)" using ks by (simp add: list_all_length)
      with tset_split [OF refl pos(1) SSplit refl refl refl] l kparts tparts show ?thesis by (simp add: B_def)
    qed
  qed
qed

lemma tset_wf: "bt_wf L kt vt T \<Longrightarrow> entry_ok L kt vt (k, v) \<Longrightarrow> up_wf L kt vt (tset T k v)"
proof (induction T rule: btree.induct)
  case (BtLeaf es)
  then show ?case by (rule tset_wf_leaf)
next
  case (BtNode ks ts)
  have "descend_pos ks k < length ts" using bt_wf_child [OF BtNode.prems(1)] .
  with BtNode show ?case by (intro tset_wf_node) (auto simp: list_all_iff)
qed

lemma troot_wf: "up_wf L kt vt r \<Longrightarrow> bt_wf L kt vt (troot r)"
  by (cases r) (auto simp: troot_def B_def)

subsection \<open>Lookups refine\<close>

lemma bt_get_at_refines:
  assumes "bt_holds L S t" "no_collision bt_cell_key S" "bt_wf L kt vt T" "bt_cells L T \<subseteq> S" "bt_height T < n"
  shows "\<exists>t'. bt_get_at n L kt vt t (bt_hash L T) key = Some (tget T key, t') \<and> bt_holds L S t'"
  using assms
proof (induction n arbitrary: T t)
  case 0
  then show ?case by simp
next
  case (Suc n)
  obtain t1 where t1: "bt_read_node L kt vt t (bt_hash L T) = Some (Some (bt_top L T), t1)" "bt_holds L S t1"
    using bt_read_stored [OF Suc.prems(1-4)] by blast
  show ?case
  proof (cases T)
    case (BtLeaf es)
    with t1 show ?thesis by simp
  next
    case (BtNode ks ts)
    let ?c = "ts ! descend_pos ks key"
    have pos: "descend_pos ks key < length ts" using Suc.prems(3) BtNode bt_wf_child by blast
    then have c: "?c \<in> set ts" by simp
    with Suc.prems BtNode bt_child_height [OF c, of ks]
    have "bt_wf L kt vt ?c" "bt_cells L ?c \<subseteq> S" "bt_height ?c < n" by (auto simp: list_all_iff)
    from Suc.IH [OF t1(2) Suc.prems(2) this] BtNode t1(1) pos show ?thesis by (auto simp: Let_def)
  qed
qed

lemma bt_collect_refines:
  assumes "bt_holds L S t" "no_collision bt_cell_key S" "bt_wf L kt vt T" "bt_cells L T \<subseteq> S" "bt_height T < n"
  shows "\<exists>t'. bt_collect_entries n L kt vt t (bt_hash L T) = Some (tentries T, t') \<and> bt_holds L S t'"
  using assms
proof (induction n arbitrary: T t)
  case 0
  then show ?case by simp
next
  case (Suc n)
  obtain t1 where t1: "bt_read_node L kt vt t (bt_hash L T) = Some (Some (bt_top L T), t1)" "bt_holds L S t1"
    using bt_read_stored [OF Suc.prems(1-4)] by blast
  show ?case
  proof (cases T)
    case (BtLeaf es)
    with t1 show ?thesis by simp
  next
    case (BtNode ks ts)
    have "\<exists>t'. bt_collect_entries n L kt vt t (bt_hash L c) = Some (tentries c, t') \<and> bt_holds L S t'"
      if "c \<in> set ts" "bt_holds L S t" for c t
      by (rule Suc.IH [OF that(2) Suc.prems(2)])
         (use Suc.prems BtNode that bt_child_height [OF that(1), of ks] in \<open>auto simp: list_all_iff\<close>)
    from visit_all_refines [where h = "bt_hash L" and f = "bt_collect_entries n L kt vt", OF this t1(2)] BtNode t1(1) show ?thesis by auto
  qed
qed

lemma bt_range_refines:
  assumes "bt_holds L S t" "no_collision bt_cell_key S" "bt_wf L kt vt T" "bt_cells L T \<subseteq> S" "bt_height T < n"
  shows "\<exists>t'. bt_range_at n L kt vt t (bt_hash L T) lo hi = Some (trange T lo hi, t') \<and> bt_holds L S t'"
  using assms
proof (induction n arbitrary: T t)
  case 0
  then show ?case by simp
next
  case (Suc n)
  obtain t1 where t1: "bt_read_node L kt vt t (bt_hash L T) = Some (Some (bt_top L T), t1)" "bt_holds L S t1"
    using bt_read_stored [OF Suc.prems(1-4)] by blast
  show ?case
  proof (cases T)
    case (BtLeaf es)
    with t1 show ?thesis by simp
  next
    case (BtNode ks ts)
    let ?cs = "drop (descend_pos ks lo) (take (descend_pos ks hi + 1) ts)"
    have "\<exists>t'. bt_range_at n L kt vt t (bt_hash L c) lo hi = Some (trange c lo hi, t') \<and> bt_holds L S t'"
      if "c \<in> set ?cs" "bt_holds L S t" for c t
    proof -
      from that have c: "c \<in> set ts" by (auto dest: in_set_takeD in_set_dropD)
      show ?thesis by (rule Suc.IH [OF that(2) Suc.prems(2)])
         (use Suc.prems BtNode c bt_child_height [OF c, of ks] in \<open>auto simp: list_all_iff\<close>)
    qed
    from visit_all_refines [where h = "bt_hash L" and f = "\<lambda>t c. bt_range_at n L kt vt t c lo hi", OF this t1(2)] BtNode t1(1) show ?thesis
      by (auto simp: drop_map take_map)
  qed
qed

lemma try_children_refines:
  assumes "\<And>c t tg. c \<in> set cs \<Longrightarrow> H t \<Longrightarrow> \<exists>t'. f t (h c) tg = Some (g c tg, t') \<and> H t'" "H t"
  shows "\<exists>t'. try_children f t tg (map h cs) = Some
     ((case map g cs of [] \<Rightarrow> None | x # xs \<Rightarrow> first_some (x tg # map (\<lambda>y. y None) xs)), t') \<and> H t'"
  using assms
proof (induction cs arbitrary: t tg)
  case Nil
  then show ?case by simp
next
  case (Cons c cs)
  then obtain t1 where t1: "f t (h c) tg = Some (g c tg, t1)" "H t1" by fastforce
  show ?case
  proof (cases "g c tg")
    case None
    obtain t2 where "try_children f t1 None (map h cs) = Some
     ((case map g cs of [] \<Rightarrow> None | x # xs \<Rightarrow> first_some (x None # map (\<lambda>y. y None) xs)), t2)" "H t2"
      using Cons.IH [OF _ t1(2)] Cons.prems(1) by fastforce
    with t1 None show ?thesis by (cases cs) (auto simp: comp_def split: option.split)
  next
    case (Some p)
    with t1 show ?thesis by auto
  qed
qed

lemma bt_first_refines:
  assumes "bt_holds L S t" "no_collision bt_cell_key S" "bt_wf L kt vt T" "bt_cells L T \<subseteq> S" "bt_height T < n"
  shows "\<exists>t'. bt_first_greater_at n L kt vt t (bt_hash L T) tg = Some (tfirst T tg, t') \<and> bt_holds L S t'"
  using assms
proof (induction n arbitrary: T t tg)
  case 0
  then show ?case by simp
next
  case (Suc n)
  obtain t1 where t1: "bt_read_node L kt vt t (bt_hash L T) = Some (Some (bt_top L T), t1)" "bt_holds L S t1"
    using bt_read_stored [OF Suc.prems(1-4)] by blast
  show ?case
  proof (cases T)
    case (BtLeaf es)
    with t1 show ?thesis by simp
  next
    case (BtNode ks ts)
    let ?cs = "drop (start_pos tg ks) ts"
    have "\<exists>t'. bt_first_greater_at n L kt vt t (bt_hash L c) tg = Some (tfirst c tg, t') \<and> bt_holds L S t'"
      if "c \<in> set ?cs" "bt_holds L S t" for c t tg
    proof -
      from that have c: "c \<in> set ts" by (auto dest: in_set_dropD)
      show ?thesis by (rule Suc.IH [OF that(2) Suc.prems(2)])
         (use Suc.prems BtNode c bt_child_height [OF c, of ks] in \<open>auto simp: list_all_iff\<close>)
    qed
    from try_children_refines [where h = "bt_hash L" and f = "bt_first_greater_at n L kt vt" and tg = tg
        and cs = ?cs and H = "bt_holds L S", OF this t1(2)] BtNode t1(1)
    show ?thesis by (auto simp: drop_map Let_def split: list.split)
  qed
qed

subsection \<open>Updates refine\<close>

fun up_cells :: "bigint_lib \<Rightarrow> btree set_result \<Rightarrow> bytes set" where
  "up_cells L (SPlain T) = bt_cells L T"
| "up_cells L (SSplit l sep r) = bt_cells L l \<union> bt_cells L r"

lemma bt_set_cells:
  assumes "descend_pos ks k < length ts"
  shows "up_cells L (tset (ts ! descend_pos ks k) k v) \<subseteq> up_cells L (tset (BtNode ks ts) k v)"
proof (cases "tset (ts ! descend_pos ks k) k v")
  case (SPlain c)
  with assms show ?thesis by (auto simp: tset_plain intro!: bexI [of _ c] set_update_memI)
next
  case (SSplit l sep r)
  define ks' where "ks' = insert_at (descend_pos ks k) sep ks"
  define ts' where "ts' = insert_at (descend_pos ks k + 1) r (ts[descend_pos ks k := l])"
  have lr: "l \<in> set ts'" "r \<in> set ts'" using assms by (auto simp: ts'_def set_insert_at set_update_memI)
  note T = tset_split [OF refl assms SSplit ks'_def ts'_def refl]
  have "bt_cells L l \<union> bt_cells L r \<subseteq> (\<Union>c\<in>set (take m ts') \<union> set (drop m ts'). bt_cells L c)" for m
    using lr by (auto simp: take_drop_Un)
  from this [of "length ks' div 2 + 1"] SSplit lr show ?thesis by (auto simp: T)
qed

lemma bt_set_leaf_refines:
  assumes "bt_holds L S t" "bt_wf L kt vt (BtLeaf entries)" "entry_ok L kt vt (k, v)"
    and "bt_cells L (BtLeaf entries) \<subseteq> S"
    and "no_collision bt_cell_key (S \<union> up_cells L (tset (BtLeaf entries) k v))"
  shows "\<exists>t'. bt_set_inner (Suc n) L kt vt t (bt_hash L (BtLeaf entries)) k v
       = Some (Inr (map_set_result (bt_hash L) (tset (BtLeaf entries) k v)), t')
     \<and> bt_holds L (S \<union> up_cells L (tset (BtLeaf entries) k v)) t'"
proof -
  have nc: "no_collision bt_cell_key S" using assms(5) by (rule no_collision_subset) auto
  obtain t1 where t1: "bt_read_node L kt vt t (bt_hash L (BtLeaf entries)) = Some (Some (BLeaf entries), t1)"
    "bt_holds L S t1" using bt_read_stored [OF assms(1) nc assms(2,4)] by auto
  have wf: "up_wf L kt vt (tset (BtLeaf entries) k v)" using assms(2,3) by (rule tset_wf)
  let ?es = "leaf_insert k v entries"
  show ?thesis
  proof (cases "length ?es \<le> B")
    case True
    then obtain t2 where "bt_write_leaf L t1 ?es = Some (bt_hash L (BtLeaf ?es), t2)"
      "bt_holds L (insert (bt_bytes L (BtLeaf ?es)) S) t2"
      using bt_write_leaf_stored [OF t1(2), of ?es kt vt] assms(5) wf by (auto simp: Let_def)
    with t1 True show ?thesis by (auto simp: Let_def rok_def)
  next
    case False
    let ?l = "take (length ?es div 2) ?es" and ?r = "drop (length ?es div 2) ?es"
    let ?S = "insert (bt_bytes L (BtLeaf ?l)) S"
    have ok: "list_all (entry_ok L kt vt) ?l" "list_all (entry_ok L kt vt) ?r" using wf False by (auto simp: Let_def)
    have nc2: "no_collision bt_cell_key (insert (bt_bytes L (BtLeaf ?r)) ?S)"
      by (rule no_collision_subset [OF assms(5)]) (use False in \<open>auto simp: Let_def\<close>)
    then have "no_collision bt_cell_key ?S" by (rule no_collision_subset) auto
    from bt_write_leaf_stored [OF t1(2) this ok(1)] obtain t2 where
      t2: "bt_write_leaf L t1 ?l = Some (bt_hash L (BtLeaf ?l), t2)" "bt_holds L ?S t2" by blast
    from bt_write_leaf_stored [OF t2(2) nc2 ok(2)] obtain t3 where
      "bt_write_leaf L t2 ?r = Some (bt_hash L (BtLeaf ?r), t3)"
      "bt_holds L (insert (bt_bytes L (BtLeaf ?r)) ?S) t3" by blast
    with t1 t2 False show ?thesis by (auto simp: Let_def rok_def elim: holds_mono)
  qed
qed

lemma bt_set_node_refines:
  assumes "bt_wf L kt vt (BtNode ks ts)" "entry_ok L kt vt (k, v)" "bt_cells L (BtNode ks ts) \<subseteq> S"
    and nc: "no_collision bt_cell_key (S \<union> up_cells L (tset (BtNode ks ts) k v))"
    and pos: "pos = descend_pos ks k"
    and read: "bt_read_node L kt vt t (bt_hash L (BtNode ks ts)) = Some (Some (BInner ks (map (bt_hash L) ts)), t1)"
    and rec: "bt_set_inner n L kt vt t1 (bt_hash L (ts ! pos)) k v
       = Some (Inr (map_set_result (bt_hash L) (tset (ts ! pos) k v)), t2)"
    and holds: "bt_holds L (S \<union> up_cells L (tset (ts ! pos) k v)) t2"
  shows "\<exists>t'. bt_set_inner (Suc n) L kt vt t (bt_hash L (BtNode ks ts)) k v
       = Some (Inr (map_set_result (bt_hash L) (tset (BtNode ks ts) k v)), t')
     \<and> bt_holds L (S \<union> up_cells L (tset (BtNode ks ts) k v)) t'"
proof -
  have p: "pos < length ts" "pos \<le> length ks" using bt_wf_child [OF assms(1)] descend_pos_le pos by auto
  have wf: "up_wf L kt vt (tset (BtNode ks ts) k v)" using assms(1,2) by (rule tset_wf)
  have old: "bt_cells L c \<subseteq> S" if "c \<in> set ts" for c using assms(3) that by auto
  show ?thesis
  proof (cases "tset (ts ! pos) k v")
    case (SPlain c)
    let ?T = "BtNode ks (ts[pos := c])"
    have T: "tset (BtNode ks ts) k v = SPlain ?T" using SPlain p pos by (simp add: tset_plain)
    have sub: "bt_cells L ?T \<subseteq> insert (bt_bytes L ?T) (S \<union> bt_cells L c)"
      using old set_update_subset_insert [of ts pos c] by fastforce
    have "c \<in> set (ts[pos := c])" using p by (simp add: set_update_memI)
    then have "no_collision bt_cell_key (insert (bt_bytes L ?T) (S \<union> bt_cells L c))"
      by (intro no_collision_subset [OF nc]) (auto simp: T)
    with bt_write_inner_stored [OF holds, of ks "ts[pos := c]" kt] assms(1) SPlain obtain t3 where
      "bt_write_inner L t2 ks (map (bt_hash L) (ts[pos := c])) = Some (bt_hash L ?T, t3)"
      "bt_holds L (insert (bt_bytes L ?T) (S \<union> bt_cells L c)) t3" by auto
    with read rec SPlain p pos T sub show ?thesis
      by (auto simp: Let_def rok_def map_update elim!: holds_mono)
  next
    case (SSplit l sep r)
    define ks' where "ks' = insert_at pos sep ks"
    define ts' where "ts' = insert_at (pos + 1) r (ts[pos := l])"
    have len: "length ks' = Suc (length ks)" using p by (simp add: ks'_def)
    have hs: "insert_at (Suc pos) (bt_hash L r) ((map (bt_hash L) ts)[pos := bt_hash L l]) = map (bt_hash L) ts'"
      by (simp add: ts'_def map_update_insert_at map_update)
    let ?S = "S \<union> (bt_cells L l \<union> bt_cells L r)"
    have old': "bt_cells L c \<subseteq> ?S" if "c \<in> set ts'" for c
      using that old set_update_subset_insert [of ts pos l] by (auto simp: ts'_def set_insert_at)
    have lr: "l \<in> set ts'" "r \<in> set ts'" using p by (auto simp: ts'_def set_insert_at set_update_memI)
    have step: "bt_set_inner (Suc n) L kt vt t (bt_hash L (BtNode ks ts)) k v =
      (if length ks' \<le> B then do { (w, t3) \<leftarrow> bt_write_inner L t2 ks' (map (bt_hash L) ts'); rok (SPlain w) t3 }
       else do {
         (lh, t3) \<leftarrow> bt_write_inner L t2 (take (length ks' div 2) ks') (map (bt_hash L) (take (length ks' div 2 + 1) ts'));
         (rh, t4) \<leftarrow> bt_write_inner L t3 (drop (length ks' div 2 + 1) ks') (map (bt_hash L) (drop (length ks' div 2 + 1) ts'));
         rok (SSplit lh (ks' ! (length ks' div 2)) rh) t4 })"
      using read rec SSplit p pos hs by (simp add: Let_def ks'_def take_map drop_map)
    note T = tset_split [OF pos p(1) SSplit ks'_def ts'_def refl]
    show ?thesis
    proof (cases "length ks' \<le> B")
      case True
      have "no_collision bt_cell_key (insert (bt_bytes L (BtNode ks' ts')) ?S)"
        by (rule no_collision_subset [OF nc]) (use lr True in \<open>auto simp: T\<close>)
      with bt_write_inner_stored [OF holds, of ks' ts' kt] wf T True SSplit obtain t3 where
        "bt_write_inner L t2 ks' (map (bt_hash L) ts') = Some (bt_hash L (BtNode ks' ts'), t3)"
        "bt_holds L (insert (bt_bytes L (BtNode ks' ts')) ?S) t3" by auto
      moreover have "S \<union> up_cells L (tset (BtNode ks ts) k v) \<subseteq> insert (bt_bytes L (BtNode ks' ts')) ?S"
        using old' True by (auto simp: T)
      ultimately show ?thesis using True
        by (auto simp: step T rok_def simp del: bt_set_inner.simps elim!: holds_mono)
    next
      case False
      define m where "m = length ks' div 2"
      define A where "A = BtNode (take m ks') (take (m + 1) ts')"
      define C where "C = BtNode (drop (m + 1) ks') (drop (m + 1) ts')"
      have T': "tset (BtNode ks ts) k v = SSplit A (ks' ! m) C" using T False by (simp add: m_def A_def C_def)
      note U = take_drop_Un [of "m + 1" ts']
      have nc2: "no_collision bt_cell_key (insert (bt_bytes L C) (insert (bt_bytes L A) ?S))"
        by (rule no_collision_subset [OF nc])
           (use lr U bt_bytes_in_cells [of L A] bt_bytes_in_cells [of L C] in \<open>auto simp: T' A_def C_def\<close>)
      then have nc1: "no_collision bt_cell_key (insert (bt_bytes L A) ?S)" by (rule no_collision_subset) auto
      have wfs: "list_all (key_ok L kt) (take m ks')" "list_all (key_ok L kt) (drop (m + 1) ks')"
        using wf T' by (auto simp: A_def C_def)
      have holds': "bt_holds L ?S t2" using holds SSplit by simp
      from bt_write_inner_stored [OF holds' nc1 [unfolded A_def] wfs(1)] obtain t3 where
        t3: "bt_write_inner L t2 (take m ks') (map (bt_hash L) (take (m + 1) ts')) = Some (bt_hash L A, t3)"
        "bt_holds L (insert (bt_bytes L A) ?S) t3" by (auto simp: A_def)
      from bt_write_inner_stored [OF t3(2) nc2 [unfolded C_def] wfs(2)] obtain t4 where
        t4: "bt_write_inner L t3 (drop (m + 1) ks') (map (bt_hash L) (drop (m + 1) ts')) = Some (bt_hash L C, t4)"
        "bt_holds L (insert (bt_bytes L C) (insert (bt_bytes L A) ?S)) t4" by (auto simp: C_def)
      have "S \<union> up_cells L (tset (BtNode ks ts) k v) \<subseteq> insert (bt_bytes L C) (insert (bt_bytes L A) ?S)"
        using old' by (auto simp: T' A_def C_def dest: in_set_takeD in_set_dropD)
      with t3 t4 False show ?thesis
        by (auto simp: step T' rok_def simp del: bt_set_inner.simps simp flip: m_def elim!: holds_mono)
    qed
  qed
qed

lemma bt_set_inner_refines:
  assumes "bt_holds L S t" "bt_wf L kt vt T" "entry_ok L kt vt (k, v)" "bt_cells L T \<subseteq> S" "bt_height T < n"
    and "no_collision bt_cell_key (S \<union> up_cells L (tset T k v))"
  shows "\<exists>t'. bt_set_inner n L kt vt t (bt_hash L T) k v = Some (Inr (map_set_result (bt_hash L) (tset T k v)), t')
     \<and> bt_holds L (S \<union> up_cells L (tset T k v)) t'"
  using assms
proof (induction n arbitrary: T t)
  case 0
  then show ?case by simp
next
  case (Suc n)
  show ?case
  proof (cases T)
    case (BtLeaf es)
    then show ?thesis using bt_set_leaf_refines Suc.prems by blast
  next
    case (BtNode ks ts)
    have nc: "no_collision bt_cell_key S" using Suc.prems(6) by (rule no_collision_subset) auto
    obtain t1 where t1: "bt_read_node L kt vt t (bt_hash L T) = Some (Some (BInner ks (map (bt_hash L) ts)), t1)"
      "bt_holds L S t1" using bt_read_stored [OF Suc.prems(1) nc Suc.prems(2,4)] BtNode by auto
    let ?c = "ts ! descend_pos ks k"
    have pos: "descend_pos ks k < length ts" using Suc.prems(2) BtNode bt_wf_child by blast
    then have c: "?c \<in> set ts" by simp
    have "up_cells L (tset ?c k v) \<subseteq> S \<union> up_cells L (tset T k v)"
      using BtNode pos bt_set_cells by blast
    with Suc.prems(6) have "no_collision bt_cell_key (S \<union> up_cells L (tset ?c k v))"
      by (auto elim: no_collision_subset)
    moreover have "bt_wf L kt vt ?c" "bt_cells L ?c \<subseteq> S" "bt_height ?c < n"
      using Suc.prems BtNode c bt_child_height [OF c, of ks] by (auto simp: list_all_iff)
    ultimately obtain t2 where "bt_set_inner n L kt vt t1 (bt_hash L ?c) k v
       = Some (Inr (map_set_result (bt_hash L) (tset ?c k v)), t2)" "bt_holds L (S \<union> up_cells L (tset ?c k v)) t2"
      using Suc.IH [OF t1(2) _ Suc.prems(3)] by blast
    with bt_set_node_refines [OF _ Suc.prems(3), of ks ts S] Suc.prems t1(1) BtNode show ?thesis by blast
  qed
qed

subsection \<open>Removal refines\<close>

fun rem_wf :: "bigint_lib \<Rightarrow> ty \<Rightarrow> ty \<Rightarrow> btree remove_result \<Rightarrow> bool" where
  "rem_wf L kt vt (RPlain T) = bt_wf L kt vt T"
| "rem_wf L kt vt _ = True"

fun rem_cells :: "bigint_lib \<Rightarrow> btree remove_result \<Rightarrow> bytes set" where
  "rem_cells L (RPlain T) = bt_cells L T"
| "rem_cells L _ = {}"

lemma tremove_wf: "bt_wf L kt vt T \<Longrightarrow> rem_wf L kt vt (tremove T k)"
proof (induction T rule: btree.induct)
  case (BtLeaf es)
  have "list_all (entry_ok L kt vt) (remove_at pos es)" for pos
    using BtLeaf set_remove_at [of pos es] by (auto simp: list_all_iff)
  with BtLeaf show ?case
    by (auto simp: Let_def dest!: binary_search_less split: sum.split)
next
  case (BtNode ks ts)
  let ?pos = "descend_pos ks k"
  have p: "?pos < length ts" "?pos \<le> length ks" using bt_wf_child [OF BtNode.prems] descend_pos_le by auto
  then have IH: "rem_wf L kt vt (tremove (ts ! ?pos) k)" using BtNode by (auto simp: list_all_iff)
  have rm: "list_all (bt_wf L kt vt) (remove_at ?pos ts)" "list_all (key_ok L kt) (drop_key ?pos ks)"
    using BtNode.prems set_remove_at [of ?pos ts] set_drop_key [of ?pos ks] by (auto simp: list_all_iff)
  have len: "length (remove_at ?pos ts) = length ks" "length (drop_key ?pos ks) = length ks - 1"
    using p BtNode.prems length_drop_key by auto
  show ?case
  proof (cases "tremove (ts ! ?pos) k")
    case RUnchanged
    with p show ?thesis by (simp add: Let_def)
  next
    case (RPlain c)
    then have "list_all (bt_wf L kt vt) (ts[?pos := c])"
      using IH BtNode.prems set_update_subset_insert [of ts ?pos c] by (auto simp: list_all_iff)
    with RPlain p BtNode.prems show ?thesis by (simp add: Let_def)
  next
    case RGone
    with p rm len BtNode.prems show ?thesis by (cases "remove_at ?pos ts") (auto simp: Let_def)
  qed
qed

lemma bt_remove_leaf_refines:
  assumes "bt_holds L S t" "bt_wf L kt vt (BtLeaf entries)" "bt_cells L (BtLeaf entries) \<subseteq> S"
    and "no_collision bt_cell_key (S \<union> rem_cells L (tremove (BtLeaf entries) k))"
  shows "\<exists>t'. bt_remove_inner (Suc n) L kt vt t (bt_hash L (BtLeaf entries)) k
       = Some (Inr (map_remove_result (bt_hash L) (tremove (BtLeaf entries) k)), t')
     \<and> bt_holds L (S \<union> rem_cells L (tremove (BtLeaf entries) k)) t'"
proof -
  have nc: "no_collision bt_cell_key S" using assms(4) by (rule no_collision_subset) auto
  obtain t1 where t1: "bt_read_node L kt vt t (bt_hash L (BtLeaf entries)) = Some (Some (BLeaf entries), t1)"
    "bt_holds L S t1" using bt_read_stored [OF assms(1) nc assms(2,3)] by auto
  have wf: "rem_wf L kt vt (tremove (BtLeaf entries) k)" using assms(2) by (rule tremove_wf)
  show ?thesis
  proof (cases "tremove (BtLeaf entries) k")
    case (RPlain T)
    then obtain es where T: "T = BtLeaf es" by (auto simp: Let_def split: sum.splits if_splits)
    with bt_write_leaf_stored [OF t1(2), of es kt vt] assms(4) wf RPlain obtain t2 where
      "bt_write_leaf L t1 es = Some (bt_hash L T, t2)" "bt_holds L (insert (bt_bytes L T) S) t2"
      by (auto simp del: tremove.simps)
    with t1 RPlain T show ?thesis by (auto simp: Let_def rok_def split: sum.splits if_splits)
  qed (use t1 in \<open>auto simp: Let_def rok_def split: sum.splits if_splits\<close>)
qed

lemma tremove_node:
  assumes "pos = descend_pos ks k" "pos < length ts"
  shows "tremove (BtNode ks ts) k = (case tremove (ts ! pos) k of
        RUnchanged \<Rightarrow> RUnchanged
      | RPlain c \<Rightarrow> RPlain (BtNode ks (ts[pos := c]))
      | RGone \<Rightarrow>
          (if remove_at pos ts = [] then RGone
           else if drop_key pos ks = [] \<and> length (remove_at pos ts) = 1 then RPlain (remove_at pos ts ! 0)
           else RPlain (BtNode (drop_key pos ks) (remove_at pos ts))))"
  using assms by (simp only: tremove.simps Let_def nth_map)

declare tremove.simps(2) [simp del]

lemma bt_remove_node_refines:
  assumes "bt_wf L kt vt (BtNode ks ts)" "bt_cells L (BtNode ks ts) \<subseteq> S"
    and nc: "no_collision bt_cell_key (S \<union> rem_cells L (tremove (BtNode ks ts) k))"
    and pos: "pos = descend_pos ks k"
    and read: "bt_read_node L kt vt t (bt_hash L (BtNode ks ts)) = Some (Some (BInner ks (map (bt_hash L) ts)), t1)"
    and rec: "bt_remove_inner n L kt vt t1 (bt_hash L (ts ! pos)) k
       = Some (Inr (map_remove_result (bt_hash L) (tremove (ts ! pos) k)), t2)"
    and holds: "bt_holds L (S \<union> rem_cells L (tremove (ts ! pos) k)) t2"
  shows "\<exists>t'. bt_remove_inner (Suc n) L kt vt t (bt_hash L (BtNode ks ts)) k
       = Some (Inr (map_remove_result (bt_hash L) (tremove (BtNode ks ts) k)), t')
     \<and> bt_holds L (S \<union> rem_cells L (tremove (BtNode ks ts) k)) t'"
proof -
  have p: "pos < length ts" "pos \<le> length ks" using bt_wf_child [OF assms(1)] descend_pos_le pos by auto
  have wf: "rem_wf L kt vt (tremove (BtNode ks ts) k)" using assms(1) by (rule tremove_wf)
  have old: "bt_cells L c \<subseteq> S" if "c \<in> set ts" for c using assms(2) that by auto
  note T = tremove_node [OF pos p(1)]
  show ?thesis
  proof (cases "tremove (ts ! pos) k")
    case RUnchanged
    with read rec holds p pos T show ?thesis by (auto simp: Let_def rok_def)
  next
    case (RPlain c)
    let ?T = "BtNode ks (ts[pos := c])"
    have sub: "bt_cells L ?T \<subseteq> insert (bt_bytes L ?T) (S \<union> bt_cells L c)"
      using old set_update_subset_insert [of ts pos c] by fastforce
    have "c \<in> set (ts[pos := c])" using p by (simp add: set_update_memI)
    then have "no_collision bt_cell_key (insert (bt_bytes L ?T) (S \<union> bt_cells L c))"
      by (intro no_collision_subset [OF nc]) (auto simp: T RPlain)
    with bt_write_inner_stored [OF holds, of ks "ts[pos := c]" kt] assms(1) RPlain obtain t3 where
      "bt_write_inner L t2 ks (map (bt_hash L) (ts[pos := c])) = Some (bt_hash L ?T, t3)"
      "bt_holds L (insert (bt_bytes L ?T) (S \<union> bt_cells L c)) t3" by auto
    with read rec RPlain p pos T sub show ?thesis
      by (auto simp: Let_def rok_def map_update elim!: holds_mono)
  next
    case RGone
    let ?ts = "remove_at pos ts" and ?ks = "drop_key pos ks"
    have old': "bt_cells L c \<subseteq> S" if "c \<in> set ?ts" for c using that old set_remove_at [of pos ts] by blast
    show ?thesis
    proof (cases "?ts = [] \<or> ?ks = [] \<and> length ?ts = 1")
      case True
      have "?ts \<noteq> [] \<Longrightarrow> bt_cells L (?ts ! 0) \<subseteq> S" by (intro old' nth_mem) simp
      with True read rec holds p pos RGone old' show ?thesis
        by (auto simp: Let_def rok_def T remove_at_map elim!: holds_mono)
    next
      case False
      let ?T = "BtNode ?ks ?ts"
      have T': "tremove (BtNode ks ts) k = RPlain ?T" using False RGone T by auto
      have "no_collision bt_cell_key (insert (bt_bytes L ?T) S)"
        by (rule no_collision_subset [OF nc]) (auto simp: T')
      with bt_write_inner_stored [of L S t2 ?ks ?ts kt] holds wf T' RGone obtain t3 where
        "bt_write_inner L t2 ?ks (map (bt_hash L) ?ts) = Some (bt_hash L ?T, t3)"
        "bt_holds L (insert (bt_bytes L ?T) S) t3" by auto
      with read rec RGone p pos T' False old' show ?thesis
        by (auto simp: Let_def rok_def remove_at_map elim!: holds_mono)
    qed
  qed
qed

lemma tremove_cells:
  assumes "descend_pos ks k < length ts"
  shows "rem_cells L (tremove (ts ! descend_pos ks k) k) \<subseteq> rem_cells L (tremove (BtNode ks ts) k)"
  using tremove_node [OF refl assms] assms
  by (cases "tremove (ts ! descend_pos ks k) k") (auto intro!: bexI set_update_memI)

lemma bt_remove_inner_refines:
  assumes "bt_holds L S t" "bt_wf L kt vt T" "bt_cells L T \<subseteq> S" "bt_height T < n"
    and "no_collision bt_cell_key (S \<union> rem_cells L (tremove T k))"
  shows "\<exists>t'. bt_remove_inner n L kt vt t (bt_hash L T) k = Some (Inr (map_remove_result (bt_hash L) (tremove T k)), t')
     \<and> bt_holds L (S \<union> rem_cells L (tremove T k)) t'"
  using assms
proof (induction n arbitrary: T t)
  case 0
  then show ?case by simp
next
  case (Suc n)
  show ?case
  proof (cases T)
    case (BtLeaf es)
    then show ?thesis using bt_remove_leaf_refines Suc.prems by blast
  next
    case (BtNode ks ts)
    have nc: "no_collision bt_cell_key S" using Suc.prems(5) by (rule no_collision_subset) auto
    obtain t1 where t1: "bt_read_node L kt vt t (bt_hash L T) = Some (Some (BInner ks (map (bt_hash L) ts)), t1)"
      "bt_holds L S t1" using bt_read_stored [OF Suc.prems(1) nc Suc.prems(2,3)] BtNode by auto
    let ?c = "ts ! descend_pos ks k"
    have pos: "descend_pos ks k < length ts" using Suc.prems(2) BtNode bt_wf_child by blast
    then have c: "?c \<in> set ts" by simp
    have "rem_cells L (tremove ?c k) \<subseteq> S \<union> rem_cells L (tremove T k)"
      using BtNode pos tremove_cells by blast
    with Suc.prems(5) have "no_collision bt_cell_key (S \<union> rem_cells L (tremove ?c k))"
      by (auto elim: no_collision_subset)
    moreover have "bt_wf L kt vt ?c" "bt_cells L ?c \<subseteq> S" "bt_height ?c < n"
      using Suc.prems BtNode c bt_child_height [OF c, of ks] by (auto simp: list_all_iff)
    ultimately obtain t2 where "bt_remove_inner n L kt vt t1 (bt_hash L ?c) k
       = Some (Inr (map_remove_result (bt_hash L) (tremove ?c k)), t2)" "bt_holds L (S \<union> rem_cells L (tremove ?c k)) t2"
      using Suc.IH [OF t1(2)] by blast
    with bt_remove_node_refines [of L kt vt ks ts S k] Suc.prems t1(1) BtNode show ?thesis by blast
  qed
qed

end
