(* ===== verification/PBTreeSpec.thy ===== *)
theory PBTreeSpec
  imports PBTreeRefine "HOL-Library.Product_Lexorder" "HOL-Library.Sublist"
begin

section \<open>The B+-tree is a sorted map\<close>

text \<open>
  What the operations on trees in memory compute. \<open>flat\<close> lists the entries and the separators of a
  tree in order; a tree is a search tree (\<open>bt_sorted\<close>) when this list is sorted, entries strictly
  below the separators on their right and not below those on their left. The locale \<open>key_order\<close> is the contract on keys: on a
  set of comparable keys, \<open>compare_keys\<close> is the comparison of an injective rank in a linear order. It is interpreted for the three key types the
  code supports (\<open>typed_keys\<close>).

  The specification is the list of entries: \<open>tset\<close> is \<open>upd_list\<close>, \<open>tremove\<close> is \<open>del_list\<close>, \<open>tget\<close>, \<open>trange\<close>
  and \<open>tfirst\<close> are searches of the list. The properties of the section on the store compose these
  facts with the refinement lemmas.
\<close>

datatype item = Ent val val | Sep val

fun ikey :: "item \<Rightarrow> val" where
  "ikey (Ent k v) = k"
| "ikey (Sep k) = k"

fun ilt :: "item \<Rightarrow> item \<Rightarrow> bool" where
  "ilt (Ent a _) b = (compare_keys a (ikey b) = OLess)"
| "ilt (Sep a) b = (compare_keys a (ikey b) \<noteq> OGreater)"

fun ents :: "item list \<Rightarrow> (val \<times> val) list" where
  "ents [] = []"
| "ents (Ent k v # is) = (k, v) # ents is"
| "ents (Sep k # is) = ents is"

definition pre :: "val list \<Rightarrow> item list list \<Rightarrow> nat \<Rightarrow> item list" where
  "pre ks xs i = concat (map2 (\<lambda>x k. x @ [Sep k]) (take i xs) (take i ks))"

definition post :: "val list \<Rightarrow> item list list \<Rightarrow> nat \<Rightarrow> item list" where
  "post ks xs i = concat (map2 (\<lambda>k x. Sep k # x) (drop i ks) (drop (Suc i) xs))"

definition weave :: "val list \<Rightarrow> item list list \<Rightarrow> item list" where
  "weave ks xs = xs ! 0 @ post ks xs 0"

fun flat :: "btree \<Rightarrow> item list" where
  "flat (BtLeaf es) = map (\<lambda>e. Ent (fst e) (snd e)) es"
| "flat (BtNode ks ts) = weave ks (map flat ts)"

definition bt_sorted :: "btree \<Rightarrow> bool" where
  "bt_sorted T \<longleftrightarrow> sorted_wrt ilt (flat T)"

text \<open>The specification: entries as a sorted list.\<close>

definition upd_list :: "val \<Rightarrow> val \<Rightarrow> (val \<times> val) list \<Rightarrow> (val \<times> val) list" where
  "upd_list k v es = filter (\<lambda>e. compare_keys (fst e) k = OLess) es @ (k, v)
     # filter (\<lambda>e. compare_keys (fst e) k = OGreater) es"

definition del_list :: "val \<Rightarrow> (val \<times> val) list \<Rightarrow> (val \<times> val) list" where
  "del_list k es = filter (\<lambda>e. compare_keys (fst e) k \<noteq> OEqual) es"

definition range_list :: "val \<Rightarrow> val \<Rightarrow> (val \<times> val) list \<Rightarrow> val list" where
  "range_list lo hi es = map snd (filter (\<lambda>e. compare_keys (fst e) lo \<noteq> OLess \<and> compare_keys (fst e) hi \<noteq> OGreater) es)"

subsection \<open>Weaving children and separators\<close>

lemma weave_at:
  "length xs = length ks + 1 \<Longrightarrow> i \<le> length ks \<Longrightarrow> weave ks xs = pre ks xs i @ xs ! i @ post ks xs i"
proof (induction i)
  case 0
  then show ?case by (simp add: weave_def pre_def)
next
  case (Suc i)
  then have i: "i < length ks" "i < length xs" "Suc i < length xs" by auto
  have "post ks xs i = Sep (ks ! i) # xs ! Suc i @ post ks xs (Suc i)"
    using i by (simp add: post_def flip: Cons_nth_drop_Suc)
  moreover have "pre ks xs (Suc i) = pre ks xs i @ xs ! i @ [Sep (ks ! i)]"
    using i by (simp add: pre_def take_Suc_conv_app_nth)
  ultimately show ?case using Suc by simp
qed

lemma pre_cong: "take i xs = take i ys \<Longrightarrow> take i ks = take i js \<Longrightarrow> pre ks xs i = pre js ys i"
  by (simp add: pre_def)

lemma post_cong: "drop (Suc i) xs = drop (Suc i) ys \<Longrightarrow> drop i ks = drop i js \<Longrightarrow> post ks xs i = post js ys i"
  by (simp add: post_def)

lemma post_Suc:
  "i < length ks \<Longrightarrow> Suc i < length xs \<Longrightarrow> post ks xs i = Sep (ks ! i) # xs ! Suc i @ post ks xs (Suc i)"
  by (simp add: post_def flip: Cons_nth_drop_Suc)

lemma pre_Suc:
  "i < length ks \<Longrightarrow> i < length xs \<Longrightarrow> pre ks xs (Suc i) = pre ks xs i @ xs ! i @ [Sep (ks ! i)]"
  by (simp add: pre_def take_Suc_conv_app_nth)

lemma sep_in_pre: "j < i \<Longrightarrow> i \<le> length ks \<Longrightarrow> i < length xs \<Longrightarrow> Sep (ks ! j) \<in> set (pre ks xs i)"
proof (induction i)
  case (Suc i)
  then show ?case by (cases "j = i") (auto simp: pre_Suc)
qed simp

lemma sep_in_post: "i \<le> j \<Longrightarrow> j < length ks \<Longrightarrow> length xs = length ks + 1 \<Longrightarrow> Sep (ks ! j) \<in> set (post ks xs i)"
proof (induction "j - i" arbitrary: i)
  case 0
  then show ?case by (simp add: post_Suc)
next
  case (Suc d)
  then have "Sep (ks ! j) \<in> set (post ks xs (Suc i))" by (intro Suc.hyps(1)) auto
  with Suc show ?case by (simp add: post_Suc [of i])
qed

lemma post_first:
  assumes "x \<in> set (post ks xs i)" "length xs = length ks + 1"
  shows "i < length ks \<and> (\<exists>vs. post ks xs i = Sep (ks ! i) # vs)"
proof (cases "i < length ks")
  case True
  then show ?thesis using assms by (simp add: post_Suc)
next
  case False
  with assms show ?thesis by (simp add: post_def)
qed

lemma weave_update:
  assumes "length xs = length ks + 1" "i \<le> length ks"
  shows "weave ks (xs[i := y]) = pre ks xs i @ y @ post ks xs i"
proof -
  have "weave ks (xs[i := y]) = pre ks (xs[i := y]) i @ xs[i := y] ! i @ post ks (xs[i := y]) i"
    by (rule weave_at) (use assms in auto)
  also have "pre ks (xs[i := y]) i = pre ks xs i" by (rule pre_cong) simp_all
  also have "post ks (xs[i := y]) i = post ks xs i" by (rule post_cong) simp_all
  finally show ?thesis using assms by simp
qed

lemma weave_split:
  assumes "length xs = length ks + 1" "i \<le> length ks"
  shows "weave (insert_at i s ks) (insert_at (i + 1) y (xs[i := x])) = pre ks xs i @ x @ Sep s # y @ post ks xs i"
proof -
  let ?ks = "insert_at i s ks" and ?xs = "insert_at (i + 1) y (xs[i := x])"
  have len: "length ?xs = length ?ks + 1" "i < length ?ks" using assms by simp_all
  have "weave ?ks ?xs = pre ?ks ?xs i @ ?xs ! i @ post ?ks ?xs i" using len by (intro weave_at) auto
  moreover have "pre ?ks ?xs i = pre ks xs i" by (rule pre_cong) (use assms in \<open>simp_all add: insert_at_def\<close>)
  moreover have "?xs ! i = x" using assms by (simp add: insert_at_def nth_append)
  moreover have "post ?ks ?xs i = Sep (?ks ! i) # ?xs ! Suc i @ post ?ks ?xs (Suc i)"
    using len by (intro post_Suc) auto
  moreover have "?ks ! i = s" "?xs ! Suc i = y" using assms by (simp_all add: insert_at_def nth_append)
  moreover have "post ?ks ?xs (Suc i) = post ks xs i"
    using assms by (simp add: post_def insert_at_def)
  ultimately show ?thesis by simp
qed

lemma weave_append:
  assumes "length xs = length ks + 1" "m < length ks"
  shows "weave (take m ks) (take (m + 1) xs) @ Sep (ks ! m) # weave (drop (m + 1) ks) (drop (m + 1) xs) = weave ks xs"
proof -
  have "weave (take m ks) (take (m + 1) xs) = pre (take m ks) (take (m + 1) xs) m @ take (m + 1) xs ! m @ post (take m ks) (take (m + 1) xs) m"
    by (rule weave_at) (use assms in auto)
  also have "\<dots> = pre ks xs m @ xs ! m"
    using assms pre_cong [of m "take (m + 1) xs" xs "take m ks" ks] by (simp add: post_def)
  finally have l: "weave (take m ks) (take (m + 1) xs) = pre ks xs m @ xs ! m" .
  have r: "weave (drop (m + 1) ks) (drop (m + 1) xs) = xs ! Suc m @ post ks xs (Suc m)"
    using assms by (simp add: weave_def post_def)
  show ?thesis using assms by (simp add: l [simplified] r [simplified] weave_at [of xs ks m] post_Suc)
qed

lemma ents_append [simp]: "ents (xs @ ys) = ents xs @ ents ys"
  by (induction xs rule: ents.induct) auto

lemma ents_map [simp]: "ents (map (\<lambda>e. Ent (fst e) (snd e)) es) = es"
  by (induction es) auto

lemma ents_weave: "length xs = length ks + 1 \<Longrightarrow> ents (weave ks xs) = concat (map ents xs)"
proof (induction ks arbitrary: xs)
  case Nil
  then show ?case by (cases xs) (auto simp: weave_def post_def)
next
  case (Cons k ks)
  then obtain x ys where xs: "xs = x # ys" and l: "length ys = length ks + 1" by (cases xs) auto
  have "weave (k # ks) xs = x @ Sep k # weave ks ys"
    using l by (cases ys) (simp_all add: xs weave_def post_def)
  with Cons.IH [OF l] show ?case by (simp add: xs)
qed

lemma ents_flat: "bt_wf L kt vt T \<Longrightarrow> ents (flat T) = tentries T"
proof (induction T rule: btree.induct)
  case (BtLeaf es)
  then show ?case by simp
next
  case (BtNode ks ts)
  then have "map ents (map flat ts) = map tentries ts" by (auto simp: list_all_iff)
  with BtNode.prems show ?case by (simp add: ents_weave del: map_map)
qed

lemma in_ents: "(k, v) \<in> set (ents is) \<longleftrightarrow> Ent k v \<in> set is"
  by (induction "is" rule: ents.induct) auto

subsection \<open>Contract of the keys\<close>

lemma cmp_simps [simp]:
  "cmp x y = OLess \<longleftrightarrow> x < y" "cmp x y = OEqual \<longleftrightarrow> x = y" "cmp x y = OGreater \<longleftrightarrow> y < x"
  by (auto simp: cmp_def)

definition keys_in :: "val set \<Rightarrow> item list \<Rightarrow> bool" where
  "keys_in K is \<longleftrightarrow> (\<forall>x\<in>set is. ikey x \<in> K)"

lemma keys_in_append [simp]: "keys_in K (xs @ ys) \<longleftrightarrow> keys_in K xs \<and> keys_in K ys"
  by (auto simp: keys_in_def)

lemma keys_in_Cons [simp]: "keys_in K (x # xs) \<longleftrightarrow> ikey x \<in> K \<and> keys_in K xs" "keys_in K []"
  by (auto simp: keys_in_def)

lemma takeWhile_sorted:
  assumes "sorted_wrt R xs" "\<And>x y. x \<in> set xs \<Longrightarrow> y \<in> set xs \<Longrightarrow> R x y \<Longrightarrow> P y \<Longrightarrow> P x"
  shows "takeWhile P xs = filter P xs \<and> dropWhile P xs = filter (\<lambda>x. \<not> P x) xs"
  using assms
proof (induction xs)
  case (Cons x xs)
  show ?case
  proof (cases "P x")
    case True
    with Cons show ?thesis by auto
  next
    case False
    then have "\<forall>y\<in>set xs. \<not> P y" using Cons.prems by auto
    with False show ?thesis by (simp add: filter_empty_conv)
  qed
qed simp

lemma find_append: "find P (xs @ ys) = (case find P xs of Some x \<Rightarrow> Some x | None \<Rightarrow> find P ys)"
  by (induction xs) auto

lemma find_concat: "find P (concat xss) = first_some (map (find P) xss)"
  by (induction xss) (auto simp: find_append split: option.split)

lemma concat_drop_take:
  assumes "\<And>i. i < length xs \<Longrightarrow> i < a \<or> b \<le> i \<Longrightarrow> xs ! i = []"
  shows "concat (drop a (take b xs)) = concat xs"
proof -
  have "concat (take a (take b xs)) = []" "concat (drop b xs) = []"
    using assms by (auto simp: concat_eq_Nil_conv in_set_conv_nth)
  then have "concat (drop a (take b xs)) = concat (take a (take b xs)) @ concat (drop a (take b xs)) @ concat (drop b xs)"
    by (simp only: append_Nil append_Nil2)
  also have "\<dots> = concat (take b xs) @ concat (drop b xs)"
    by (metis append_assoc append_take_drop_id concat_append)
  also have "\<dots> = concat xs" by (metis append_take_drop_id concat_append)
  finally show ?thesis .
qed

lemma first_some_drop: "(\<And>i. i < a \<Longrightarrow> i < length xs \<Longrightarrow> xs ! i = None) \<Longrightarrow> first_some (drop a xs) = first_some xs"
proof (induction a arbitrary: xs)
  case (Suc a)
  show ?case
  proof (cases xs)
    case (Cons x xs')
    have "x = None" using Suc.prems [of 0] Cons by simp
    moreover have "xs' ! i = None" if "i < a" "i < length xs'" for i using Suc.prems [of "Suc i"] Cons that by simp
    ultimately show ?thesis using Suc.IH [of xs'] Cons by simp
  qed simp
qed simp

lemma subseq_sorted: "subseq xs ys \<Longrightarrow> sorted_wrt R ys \<Longrightarrow> sorted_wrt R xs"
  by (induction rule: list_emb.induct) (auto dest: list_emb_set)

fun flat_rem :: "btree \<Rightarrow> btree remove_result \<Rightarrow> item list" where
  "flat_rem T RUnchanged = flat T"
| "flat_rem T (RPlain T') = flat T'"
| "flat_rem T RGone = []"

lemma weave_drop:
  assumes "length xs = length ks + 1" "pos \<le> length ks" "ks \<noteq> []"
  shows "\<exists>U V. weave (drop_key pos ks) (remove_at pos xs) = U @ V \<and> subseq U (pre ks xs pos) \<and> subseq V (post ks xs pos)
     \<and> ents U = ents (pre ks xs pos) \<and> ents V = ents (post ks xs pos)"
proof (cases "pos < length ks")
  case True
  let ?ks = "remove_at pos ks" and ?xs = "remove_at pos xs"
  have "weave ?ks ?xs = pre ?ks ?xs pos @ ?xs ! pos @ post ?ks ?xs pos"
    by (rule weave_at) (use True assms in auto)
  moreover have "pre ?ks ?xs pos = pre ks xs pos"
    by (rule pre_cong) (use True assms in \<open>simp_all add: remove_at_def\<close>)
  moreover have "?xs ! pos = xs ! Suc pos" "post ?ks ?xs pos = post ks xs (Suc pos)"
    using True assms by (auto simp: remove_at_def nth_append post_def)
  ultimately have "weave ?ks ?xs = pre ks xs pos @ (xs ! Suc pos @ post ks xs (Suc pos))" by simp
  moreover have "post ks xs pos = Sep (ks ! pos) # xs ! Suc pos @ post ks xs (Suc pos)"
    using True assms by (intro post_Suc) auto
  ultimately show ?thesis using True
    by - (rule exI [of _ "pre ks xs pos"], rule exI [of _ "xs ! Suc pos @ post ks xs (Suc pos)"],
      auto simp: drop_key_def)
next
  case False
  then obtain i where i: "pos = Suc i" "pos = length ks" using assms by (cases pos) auto
  have "weave (take i ks) (take (Suc i) xs) = pre (take i ks) (take (Suc i) xs) i @ take (Suc i) xs ! i @ post (take i ks) (take (Suc i) xs) i"
    by (rule weave_at) (use i assms in auto)
  also have "pre (take i ks) (take (Suc i) xs) i = pre ks xs i" by (rule pre_cong) simp_all
  finally have "weave (drop_key pos ks) (remove_at pos xs) = pre ks xs i @ xs ! i"
    using i assms False by (simp add: drop_key_def remove_at_def post_def)
  moreover have "pre ks xs pos = pre ks xs i @ xs ! i @ [Sep (ks ! i)]"
    using i assms by (simp add: pre_Suc)
  ultimately show ?thesis using i
    by (intro exI [of _ "pre ks xs i @ xs ! i"] exI [of _ "[]"]) (auto simp: post_def)
qed

lemma binary_search_Cons:
  "binary_search_by f (x # xs) = (if f x = OLess then map_sum Suc Suc (binary_search_by f xs)
     else if f x = OEqual then Inr 0 else Inl 0)"
  by (simp add: binary_search_by_def Let_def)

fun flat_up :: "btree set_result \<Rightarrow> item list" where
  "flat_up (SPlain T) = flat T"
| "flat_up (SSplit l sep r) = flat l @ Sep sep # flat r"

definition from_old :: "val \<Rightarrow> item list \<Rightarrow> item \<Rightarrow> bool" where
  \<comment> \<open>the items an update may leave in place of the items \<open>is\<close>\<close>
  "from_old k is x \<longleftrightarrow> x \<in> set is \<or> ikey x = k \<or> (\<exists>s u. x = Sep s \<and> Ent s u \<in> set is)"

lemma flat_up_node:
  assumes "pos = descend_pos ks k" "length ts = length ks + 1"
  shows "flat_up (tset (BtNode ks ts) k v)
     = pre ks (map flat ts) pos @ flat_up (tset (ts ! pos) k v) @ post ks (map flat ts) pos"
proof -
  have pos: "pos \<le> length ks" "pos < length ts" using assms descend_pos_le [of ks k] by auto
  show ?thesis
  proof (cases "tset (ts ! pos) k v")
    case (SPlain c)
    then show ?thesis using pos assms weave_update [of "map flat ts" ks pos "flat c"]
      by (simp add: tset_plain map_update)
  next
    case (SSplit l sep r)
    let ?ks = "insert_at pos sep ks" and ?ts = "insert_at (pos + 1) r (ts[pos := l])"
    have w: "weave ?ks (map flat ?ts) = pre ks (map flat ts) pos @ flat l @ Sep sep # flat r @ post ks (map flat ts) pos"
      using weave_split [of "map flat ts" ks pos sep "flat r" "flat l"] pos assms
      by (simp add: map_update_insert_at map_update)
    have len: "length (map flat ?ts) = length ?ks + 1" "length ?ks div 2 < length ?ks" using pos assms by auto
    show ?thesis
    proof (cases "length ?ks \<le> B")
      case True
      then show ?thesis using tset_split [OF assms(1) pos(2) SSplit refl refl refl] w SSplit by simp
    next
      case False
      then show ?thesis
        using tset_split [OF assms(1) pos(2) SSplit refl refl refl] w SSplit weave_append [OF len]
        by (simp add: take_map drop_map)
    qed
  qed
qed

locale key_order =
  fixes K :: "val set" and rank :: "val \<Rightarrow> nat \<times> bytes"
  assumes compare_rank: "a \<in> K \<Longrightarrow> b \<in> K \<Longrightarrow> compare_keys a b = cmp (rank a) (rank b)"
    and rank_inj: "inj_on rank K"
begin

lemma compare_eq: "a \<in> K \<Longrightarrow> b \<in> K \<Longrightarrow> compare_keys a b = OEqual \<longleftrightarrow> a = b"
  using rank_inj by (auto simp: compare_rank inj_on_def)

lemma ilt_rank:
  "ikey x \<in> K \<Longrightarrow> ikey y \<in> K \<Longrightarrow> ilt x y \<longleftrightarrow>
    (case x of Ent a _ \<Rightarrow> rank a < rank (ikey y) | Sep a \<Rightarrow> rank a \<le> rank (ikey y))"
  by (cases x) (auto simp: compare_rank not_less)

lemma ilt_le: "ilt x y \<Longrightarrow> ikey x \<in> K \<Longrightarrow> ikey y \<in> K \<Longrightarrow> rank (ikey x) \<le> rank (ikey y)"
  by (cases x) (auto simp: compare_rank not_less)

text \<open>Sorted entry lists: the searches of a leaf.\<close>

definition sorted_entries :: "(val \<times> val) list \<Rightarrow> bool" where
  "sorted_entries es \<longleftrightarrow> sorted_wrt (\<lambda>a b. rank (fst a) < rank (fst b)) es \<and> fst ` set es \<subseteq> K"

lemma flat_leaf_sorted:
  "keys_in K (flat (BtLeaf es)) \<Longrightarrow> bt_sorted (BtLeaf es) \<longleftrightarrow> sorted_entries es"
proof -
  assume k: "keys_in K (flat (BtLeaf es))"
  then have "fst ` set es \<subseteq> K" by (auto simp: keys_in_def)
  moreover from this have "sorted_wrt (\<lambda>a b. compare_keys (fst a) (fst b) = OLess) es
      \<longleftrightarrow> sorted_wrt (\<lambda>a b. rank (fst a) < rank (fst b)) es"
    by (induction es) (fastforce simp: compare_rank)+
  ultimately show ?thesis by (simp add: bt_sorted_def sorted_wrt_map sorted_entries_def)
qed

lemma leaf_split_ex:
  assumes "sorted_entries es" "k \<in> K"
  shows "\<exists>lo hi. (\<forall>e\<in>set lo. compare_keys (fst e) k = OLess) \<and> (\<forall>e\<in>set hi. compare_keys (fst e) k = OGreater)
     \<and> (es = lo @ hi \<and> binary_search_by (\<lambda>e. compare_keys (fst e) k) es = Inl (length lo)
        \<or> (\<exists>v. es = lo @ (k, v) # hi \<and> binary_search_by (\<lambda>e. compare_keys (fst e) k) es = Inr (length lo)))"
  using assms(1)
proof (induction es)
  case Nil
  then show ?case by (simp add: binary_search_by_def)
next
  case (Cons e es)
  then have es: "sorted_entries es" and eK: "fst e \<in> K"
    and up: "\<forall>x\<in>set es. rank (fst e) < rank (fst x) \<and> fst x \<in> K" by (auto simp: sorted_entries_def)
  show ?case
  proof (cases "rank (fst e) < rank k")
    case True
    then have c: "compare_keys (fst e) k = OLess" using eK assms(2) by (simp add: compare_rank)
    from Cons.IH [OF es] obtain lo hi where "\<forall>e\<in>set lo. compare_keys (fst e) k = OLess"
      "\<forall>e\<in>set hi. compare_keys (fst e) k = OGreater"
      "es = lo @ hi \<and> binary_search_by (\<lambda>e. compare_keys (fst e) k) es = Inl (length lo)
        \<or> (\<exists>v. es = lo @ (k, v) # hi \<and> binary_search_by (\<lambda>e. compare_keys (fst e) k) es = Inr (length lo))" by blast
    with c show ?thesis by (intro exI [of _ "e # lo"] exI [of _ hi]) (auto simp: binary_search_Cons)
  next
    case False
    then have c: "compare_keys (fst e) k \<noteq> OLess" using eK assms(2) by (simp add: compare_rank)
    have all: "\<forall>x\<in>set es. compare_keys (fst x) k = OGreater" using False up assms(2) by (auto simp: compare_rank)
    show ?thesis
    proof (cases "compare_keys (fst e) k = OEqual")
      case True
      then have "fst e = k" using eK assms(2) compare_eq by blast
      with True c all show ?thesis
        by (intro exI [of _ "[]"] exI [of _ es]) (cases e, auto simp: binary_search_Cons)
    next
      case False
      with c have "compare_keys (fst e) k = OGreater" by (cases "compare_keys (fst e) k") auto
      with False c all show ?thesis
        by (intro exI [of _ "[]"] exI [of _ "e # es"]) (simp add: binary_search_Cons)
    qed
  qed
qed

lemma leaf_split:
  \<comment> \<open>a sorted leaf around a key: smaller entries, at most one equal, larger ones\<close>
  assumes "sorted_entries es" "k \<in> K"
  obtains (absent) lo hi where "\<forall>e\<in>set lo. compare_keys (fst e) k = OLess"
      "\<forall>e\<in>set hi. compare_keys (fst e) k = OGreater" "es = lo @ hi"
      "binary_search_by (\<lambda>e. compare_keys (fst e) k) es = Inl (length lo)"
  | (present) lo hi v where "\<forall>e\<in>set lo. compare_keys (fst e) k = OLess"
      "\<forall>e\<in>set hi. compare_keys (fst e) k = OGreater" "es = lo @ (k, v) # hi"
      "binary_search_by (\<lambda>e. compare_keys (fst e) k) es = Inr (length lo)"
  using leaf_split_ex [OF assms] by blast

lemma compare_refl: "k \<in> K \<Longrightarrow> compare_keys k k = OEqual"
  using compare_eq by blast

lemma leaf_insert_upd:
  assumes "sorted_entries es" "k \<in> K"
  shows "leaf_insert k v es = upd_list k v es"
  using assms
proof (cases rule: leaf_split)
  case (absent lo hi)
  then show ?thesis by (simp add: leaf_insert_def upd_list_def insert_at_def)
next
  case (present lo hi w)
  then show ?thesis using assms by (simp add: leaf_insert_def upd_list_def list_update_append compare_refl)
qed

lemma leaf_remove:
  assumes "sorted_entries es" "k \<in> K"
  shows "case binary_search_by (\<lambda>e. compare_keys (fst e) k) es of
     Inl _ \<Rightarrow> del_list k es = es | Inr pos \<Rightarrow> remove_at pos es = del_list k es"
  using assms
proof (cases rule: leaf_split)
  case (absent lo hi)
  then show ?thesis by (simp add: del_list_def)
next
  case (present lo hi w)
  then show ?thesis using assms by (simp add: del_list_def remove_at_def compare_refl)
qed

text \<open>Where a key falls in an inner node.\<close>

definition below :: "val \<Rightarrow> item \<Rightarrow> bool" where
  "below k x \<longleftrightarrow> (case x of Ent a _ \<Rightarrow> rank a < rank k | Sep a \<Rightarrow> rank a \<le> rank k)"

definition good :: "item list \<Rightarrow> bool" where
  "good is \<longleftrightarrow> sorted_wrt ilt is \<and> keys_in K is"

lemma good_append:
  "good (xs @ ys) \<longleftrightarrow> good xs \<and> good ys \<and> (\<forall>x\<in>set xs. \<forall>y\<in>set ys. ilt x y)"
  by (auto simp: good_def sorted_wrt_append)

lemma node_parts:
  assumes "good (flat (BtNode ks ts))" "k \<in> K" "length ts = length ks + 1" "pos = descend_pos ks k"
  shows "flat (BtNode ks ts) = pre ks (map flat ts) pos @ flat (ts ! pos) @ post ks (map flat ts) pos"
    and "\<forall>x\<in>set (pre ks (map flat ts) pos). below k x"
    and "\<forall>x\<in>set (post ks (map flat ts) pos). rank k < rank (ikey x)"
proof -
  let ?A = "pre ks (map flat ts) pos" and ?C = "post ks (map flat ts) pos"
  have pos: "pos \<le> length ks" "pos < length ts" using assms(3,4) descend_pos_le [of ks k] by auto
  show eq: "flat (BtNode ks ts) = ?A @ flat (ts ! pos) @ ?C"
    using weave_at [of "map flat ts" ks pos] pos assms(3) by simp
  have gA: "good ?A" "good ?C" using assms(1) by (auto simp only: eq good_append)
  show "\<forall>x\<in>set ?A. below k x"
  proof
    fix x assume x: "x \<in> set ?A"
    then have "pos \<noteq> 0" by (intro notI) (simp add: pre_def)
    then obtain i where i: "pos = Suc i" by (cases pos) auto
    have A: "?A = pre ks (map flat ts) i @ flat (ts ! i) @ [Sep (ks ! i)]"
      using pos by (simp add: i pre_Suc)
    have "ks ! i \<in> set (takeWhile (\<lambda>s. compare_keys s k \<noteq> OGreater) ks)"
      using assms(4) i by (simp add: descend_pos_def partition_point_def)
         (metis (no_types, lifting) in_set_conv_nth lessI takeWhile_nth)
    then have "compare_keys (ks ! i) k \<noteq> OGreater" by (rule set_takeWhileD [THEN conjunct2])
    moreover have sK: "ks ! i \<in> K" using gA(1) by (simp add: A good_def)
    ultimately have s: "rank (ks ! i) \<le> rank k" using assms(2) by (simp add: compare_rank not_less)
    have "x = Sep (ks ! i) \<or> ilt x (Sep (ks ! i)) \<and> ikey x \<in> K"
      using x gA(1) by (auto simp: A good_def sorted_wrt_append keys_in_def)
    with s sK show "below k x" by (cases x) (auto simp: below_def compare_rank not_less)
  qed
  show "\<forall>x\<in>set ?C. rank k < rank (ikey x)"
  proof
    fix x assume x: "x \<in> set ?C"
    from post_first [OF this] assms(3) obtain vs where p: "pos < length ks" and C: "?C = Sep (ks ! pos) # vs" by auto
    have "\<not> compare_keys (ks ! pos) k \<noteq> OGreater"
      using p assms(4) nth_length_takeWhile [of "\<lambda>s. compare_keys s k \<noteq> OGreater" ks]
      by (simp add: descend_pos_def partition_point_def)
    moreover have sK: "ks ! pos \<in> K" using gA(2) by (simp add: C good_def)
    ultimately have s: "rank k < rank (ks ! pos)" using assms(2) by (simp add: compare_rank)
    have "x = Sep (ks ! pos) \<or> ilt (Sep (ks ! pos)) x \<and> ikey x \<in> K"
      using x gA(2) by (auto simp: C good_def keys_in_def)
    with s sK show "rank k < rank (ikey x)" by (auto simp: compare_rank not_less)
  qed
qed

lemma good_child:
  assumes "good (flat (BtNode ks ts))" "length ts = length ks + 1" "i < length ts"
  shows "good (flat (ts ! i))"
  using assms weave_at [of "map flat ts" ks i] by (simp add: good_append)

text \<open>Replacing the items around a key keeps the order.\<close>

lemma good_replace:
  assumes "good (A @ Y @ C)" "k \<in> K" "\<forall>x\<in>set A. below k x" "\<forall>x\<in>set C. rank k < rank (ikey x)"
    and "good X" "\<forall>x\<in>set X. from_old k Y x"
  shows "good (A @ X @ C)"
proof -
  have K: "\<forall>x\<in>set A \<union> set Y \<union> set C \<union> set X. ikey x \<in> K"
    using assms(1,5) by (auto simp: good_def keys_in_def)
  have AX: "ilt a x" if a: "a \<in> set A" and x: "x \<in> set X" for a x
  proof -
    from assms(6) x consider "x \<in> set Y" | "ikey x = k" | s u where "x = Sep s" "Ent s u \<in> set Y"
      by (auto simp: from_old_def)
    then show ?thesis
    proof cases
      case 1
      with a assms(1) show ?thesis by (auto simp: good_append)
    next
      case 2
      have "below k a" "ikey a \<in> K" using a assms(3) K by auto
      with 2 assms(2) show ?thesis by (cases a) (auto simp: below_def compare_rank not_less)
    next
      case 3
      with a assms(1) have "ilt a (Ent s u)" by (auto simp: good_append)
      with \<open>x = Sep s\<close> show ?thesis by (cases a) simp_all
    qed
  qed
  have XC: "ilt x c" if c: "c \<in> set C" and x: "x \<in> set X" for c x
  proof -
    from assms(6) x consider "x \<in> set Y" | "ikey x = k" | s u where "x = Sep s" "Ent s u \<in> set Y"
      by (auto simp: from_old_def)
    then show ?thesis
    proof cases
      case 1
      with c assms(1) show ?thesis by (auto simp: good_append)
    next
      case 2
      have "rank k < rank (ikey c)" "ikey c \<in> K" using c assms(4) K by auto
      with 2 assms(2) show ?thesis by (cases x) (auto simp: compare_rank not_less)
    next
      case 3
      with c assms(1) have "ilt (Ent s u) c" by (auto simp: good_append)
      with 3 show ?thesis by auto
    qed
  qed
  show ?thesis using assms(1,5) AX XC by (auto simp: good_append)
qed

lemma ents_below: "\<forall>x\<in>set A. below k x \<Longrightarrow> keys_in K A \<Longrightarrow> k \<in> K \<Longrightarrow> \<forall>e\<in>set (ents A). compare_keys (fst e) k = OLess"
  by (induction A rule: ents.induct) (auto simp: below_def compare_rank)

lemma ents_above:
  "\<forall>x\<in>set C. rank k < rank (ikey x) \<Longrightarrow> keys_in K C \<Longrightarrow> k \<in> K \<Longrightarrow> \<forall>e\<in>set (ents C). compare_keys (fst e) k = OGreater"
  by (induction C rule: ents.induct) (auto simp: compare_rank)

text \<open>Insertion.\<close>

lemma sorted_upd:
  assumes "sorted_entries es" "k \<in> K"
  shows "sorted_entries (upd_list k v es)"
proof -
  let ?lo = "filter (\<lambda>e. compare_keys (fst e) k = OLess) es" and ?hi = "filter (\<lambda>e. compare_keys (fst e) k = OGreater) es"
  have "sorted_wrt (\<lambda>a b. rank (fst a) < rank (fst b)) ?lo" "sorted_wrt (\<lambda>a b. rank (fst a) < rank (fst b)) ?hi"
    using assms(1) sorted_wrt_filter by (auto simp: sorted_entries_def)
  moreover have b: "\<forall>x\<in>set ?lo. rank (fst x) < rank k" "\<forall>x\<in>set ?hi. rank k < rank (fst x)"
    using assms by (auto simp: sorted_entries_def compare_rank image_subset_iff)
  moreover have "rank (fst x) < rank (fst y)" if "x \<in> set ?lo" "y \<in> set ?hi" for x y
    using b that by (meson less_trans)
  moreover have "fst ` set es \<subseteq> K" using assms(1) by (simp add: sorted_entries_def)
  ultimately show ?thesis using assms(2)
    unfolding sorted_entries_def upd_list_def sorted_wrt_append sorted_wrt.simps
    by (intro conjI ballI) auto
qed

lemma good_leaf: "good (map (\<lambda>e. Ent (fst e) (snd e)) es) \<longleftrightarrow> sorted_entries es"
proof (cases "fst ` set es \<subseteq> K")
  case True
  then have "keys_in K (flat (BtLeaf es))" by (auto simp: keys_in_def)
  with flat_leaf_sorted [OF this] show ?thesis by (simp add: good_def bt_sorted_def)
next
  case False
  then show ?thesis by (auto simp: good_def keys_in_def sorted_entries_def)
qed

lemma good_split_leaf:
  assumes "sorted_entries es" "m < length es"
  shows "good (map (\<lambda>e. Ent (fst e) (snd e)) (take m es) @ Sep (fst (es ! m)) # map (\<lambda>e. Ent (fst e) (snd e)) (drop m es))"
proof -
  let ?f = "\<lambda>e. Ent (fst e) (snd e)"
  have "sorted_entries (take m es @ drop m es)" using assms(1) by simp
  then have l: "sorted_entries (take m es)" "sorted_entries (drop m es)"
    and lr: "\<forall>x\<in>set (take m es). \<forall>y\<in>set (drop m es). rank (fst x) < rank (fst y)"
    by (auto simp: sorted_entries_def sorted_wrt_append simp del: append_take_drop_id)
  have d: "drop m es = es ! m # drop (Suc m) es" using assms(2) by (simp add: Cons_nth_drop_Suc)
  have mK: "fst (es ! m) \<in> K" using assms by (auto simp: sorted_entries_def)
  have K: "\<forall>x\<in>set es. fst x \<in> K" using assms by (auto simp: sorted_entries_def)
  have "\<forall>y\<in>set (drop m es). rank (fst (es ! m)) \<le> rank (fst y)"
    using l(2) by (auto simp: d sorted_entries_def)
  moreover have "\<forall>x\<in>set (take m es). rank (fst x) < rank (fst (es ! m))" using lr by (simp add: d)
  moreover have "\<forall>x\<in>set (take m es). fst x \<in> K" "\<forall>x\<in>set (drop m es). fst x \<in> K"
    using K by (auto dest: in_set_takeD in_set_dropD)
  ultimately show ?thesis using l mK lr
    by (auto simp: good_def sorted_wrt_append compare_rank not_less good_leaf [unfolded good_def, symmetric])
qed

lemma tset_leaf_flat:
  assumes "sorted_entries es" "k \<in> K" "es \<noteq> []"
  shows "good (flat_up (tset (BtLeaf es) k v))"
    and "\<forall>x\<in>set (flat_up (tset (BtLeaf es) k v)). from_old k (flat (BtLeaf es)) x"
    and "ents (flat_up (tset (BtLeaf es) k v)) = upd_list k v es"
proof -
  let ?es = "upd_list k v es"
  let ?m = "length ?es div 2"
  have es: "leaf_insert k v es = ?es" using assms(1,2) by (rule leaf_insert_upd)
  have s: "sorted_entries ?es" using assms(1,2) by (rule sorted_upd)
  have m: "?m < length ?es" by (simp add: upd_list_def)
  have T: "flat_up (tset (BtLeaf es) k v) = (if length ?es \<le> B then map (\<lambda>e. Ent (fst e) (snd e)) ?es
     else map (\<lambda>e. Ent (fst e) (snd e)) (take ?m ?es) @ Sep (fst (?es ! ?m)) # map (\<lambda>e. Ent (fst e) (snd e)) (drop ?m ?es))"
    using m by (simp add: Let_def es)
  show "good (flat_up (tset (BtLeaf es) k v))" using s good_split_leaf [OF s m]
    by (simp add: T good_leaf del: tset.simps)
  have mem: "\<forall>e\<in>set ?es. e = (k, v) \<or> e \<in> set es" by (auto simp: upd_list_def)
  have "Sep (fst e) = x \<Longrightarrow> e \<in> set ?es \<Longrightarrow> from_old k (flat (BtLeaf es)) x" for e x
    using mem by (cases e) (force simp: from_old_def)
  moreover have "Ent (fst e) (snd e) = x \<Longrightarrow> e \<in> set ?es \<Longrightarrow> from_old k (flat (BtLeaf es)) x" for e x
    using mem by (cases e) (force simp: from_old_def)
  ultimately show "\<forall>x\<in>set (flat_up (tset (BtLeaf es) k v)). from_old k (flat (BtLeaf es)) x"
    using m by (auto simp: T simp del: tset.simps dest: in_set_takeD in_set_dropD)
  show "ents (flat_up (tset (BtLeaf es) k v)) = ?es" by (simp add: T del: tset.simps)
qed

lemma upd_list_mid:
  assumes "\<forall>e\<in>set xs. compare_keys (fst e) k = OLess" "\<forall>e\<in>set zs. compare_keys (fst e) k = OGreater"
  shows "upd_list k v (xs @ ys @ zs) = xs @ upd_list k v ys @ zs"
  using assms by (simp add: upd_list_def)

lemma tset_flat:
  assumes "good (flat T)" "bt_wf L kt vt T" "k \<in> K"
  shows "good (flat_up (tset T k v)) \<and> (\<forall>x\<in>set (flat_up (tset T k v)). from_old k (flat T) x)
     \<and> ents (flat_up (tset T k v)) = upd_list k v (ents (flat T))"
  using assms
proof (induction T rule: btree.induct)
  case (BtLeaf es)
  then have "sorted_entries es" "es \<noteq> []" by (auto simp: good_leaf)
  from tset_leaf_flat [OF this(1) BtLeaf.prems(3) this(2)] show ?case by simp
next
  case (BtNode ks ts)
  let ?pos = "descend_pos ks k"
  let ?A = "pre ks (map flat ts) ?pos" and ?C = "post ks (map flat ts) ?pos" and ?c = "ts ! ?pos"
  let ?X = "flat_up (tset ?c k v)"
  have len: "length ts = length ks + 1" using BtNode.prems(2) by simp
  then have pos: "?pos < length ts" using descend_pos_le [of ks k] by simp
  note parts = node_parts [OF BtNode.prems(1,3) len refl]
  note up = flat_up_node [OF refl len, of k v]
  have gc: "good (flat ?c)" using good_child [OF BtNode.prems(1) len pos] .
  have IH: "good ?X" "\<forall>x\<in>set ?X. from_old k (flat ?c) x" "ents ?X = upd_list k v (ents (flat ?c))"
    using BtNode.IH [OF nth_mem [OF pos] gc] BtNode.prems pos by (auto simp: list_all_iff)
  have g: "good (?A @ flat ?c @ ?C)" using BtNode.prems(1) parts(1) by simp
  have "good (?A @ ?X @ ?C)" by (rule good_replace [OF g BtNode.prems(3) parts(2,3) IH(1,2)])
  moreover have "\<forall>x\<in>set (?A @ ?X @ ?C). from_old k (?A @ flat ?c @ ?C) x" using IH(2) by (auto simp: from_old_def)
  moreover have "upd_list k v (ents (?A @ flat ?c @ ?C)) = ents (?A @ ?X @ ?C)"
    using g upd_list_mid [OF ents_below ents_above, OF parts(2) _ BtNode.prems(3) parts(3) _ BtNode.prems(3)]
    by (simp add: IH(3) good_def)
  ultimately show ?case by (simp only: up parts(1))
qed

text \<open>Lookup.\<close>

lemma tget_flat:
  assumes "good (flat T)" "bt_wf L kt vt T" "k \<in> K"
  shows "tget T k = map_option snd (find (\<lambda>e. compare_keys (fst e) k = OEqual) (ents (flat T)))"
  using assms
proof (induction T rule: btree.induct)
  case (BtLeaf es)
  then show ?case by simp
next
  case (BtNode ks ts)
  let ?pos = "descend_pos ks k"
  let ?A = "pre ks (map flat ts) ?pos" and ?C = "post ks (map flat ts) ?pos" and ?c = "ts ! ?pos"
  have len: "length ts = length ks + 1" using BtNode.prems(2) by simp
  then have pos: "?pos < length ts" using descend_pos_le [of ks k] by simp
  note parts = node_parts [OF BtNode.prems(1,3) len refl]
  have gc: "good (flat ?c)" using good_child [OF BtNode.prems(1) len pos] .
  have IH: "tget ?c k = map_option snd (find (\<lambda>e. compare_keys (fst e) k = OEqual) (ents (flat ?c)))"
    using BtNode.IH [OF nth_mem [OF pos] gc] BtNode.prems pos by (auto simp: list_all_iff)
  have g: "good (?A @ flat ?c @ ?C)" using BtNode.prems(1) parts(1) by simp
  then have k: "keys_in K ?A" "keys_in K ?C" by (auto simp: good_def)
  have "find (\<lambda>e. compare_keys (fst e) k = OEqual) (ents ?A) = None"
    "find (\<lambda>e. compare_keys (fst e) k = OEqual) (ents ?C) = None"
    using ents_below [OF parts(2) k(1) BtNode.prems(3)] ents_above [OF parts(3) k(2) BtNode.prems(3)]
    by (auto simp: find_None_iff)
  then have "find (\<lambda>e. compare_keys (fst e) k = OEqual) (ents (?A @ flat ?c @ ?C))
     = find (\<lambda>e. compare_keys (fst e) k = OEqual) (ents (flat ?c))"
    by (simp add: find_append split: option.split)
  then show ?case using pos IH by (simp only: parts(1)) (simp add: Let_def)
qed

lemma find_key: "fst ` set es \<subseteq> K \<Longrightarrow> k \<in> K \<Longrightarrow>
  map_option snd (find (\<lambda>e. compare_keys (fst e) k = OEqual) es) = map_of es k"
  by (induction es) (auto simp: compare_eq)

text \<open>Bounds of a child.\<close>

lemma child_bounds:
  assumes "good (flat (BtNode ks ts))" "length ts = length ks + 1" "i < length ts" "e \<in> set (ents (flat (ts ! i)))"
  shows "i \<le> j \<Longrightarrow> j < length ks \<Longrightarrow> rank (fst e) < rank (ks ! j)" "j < i \<Longrightarrow> rank (ks ! j) \<le> rank (fst e)"
    "fst e \<in> K" "j < length ks \<Longrightarrow> ks ! j \<in> K"
proof -
  let ?A = "pre ks (map flat ts) i" and ?C = "post ks (map flat ts) i"
  have len: "length (map flat ts) = length ks + 1" "i \<le> length ks" using assms(2,3) by auto
  have g: "good (?A @ flat (ts ! i) @ ?C)" using assms(1,3) weave_at [OF len] by simp
  obtain a b where e': "e = (a, b)" by fastforce
  with assms(4) have e: "e = (a, b)" "Ent a b \<in> set (flat (ts ! i))" by (simp_all add: in_ents)
  have K: "ikey x \<in> K" if "x \<in> set (?A @ flat (ts ! i) @ ?C)" for x using g that by (auto simp: good_def keys_in_def)
  show eK: "fst e \<in> K" using K [of "Ent a b"] e by auto
  show sK: "ks ! j \<in> K" if "j < length ks" for j
    using K [of "Sep (ks ! j)"] sep_in_pre [of j i ks "map flat ts"] sep_in_post [of i j ks "map flat ts"] that len assms(3)
    by (cases "j < i") auto
  show "rank (fst e) < rank (ks ! j)" if "i \<le> j" "j < length ks"
  proof -
    have "ilt (Ent a b) (Sep (ks ! j))" using sep_in_post [OF that len(1)] g e(2) by (simp only: good_append)
    then show ?thesis using e eK sK [OF that(2)] by (simp add: compare_rank)
  qed
  show "rank (ks ! j) \<le> rank (fst e)" if "j < i"
  proof -
    have "Sep (ks ! j) \<in> set ?A" using sep_in_pre [OF that len(2)] assms(3) by simp
    then have "ilt (Sep (ks ! j)) (Ent a b)" using g e(2) by (auto simp only: good_append set_append Un_iff)
    then show ?thesis using e eK sK [of j] that len(2) by (simp add: compare_rank not_less)
  qed
qed

lemma descend_before: "j < descend_pos ks k \<Longrightarrow> k \<in> K \<Longrightarrow> ks ! j \<in> K \<Longrightarrow> rank (ks ! j) \<le> rank k"
  using takeWhile_nth [of j "\<lambda>s. compare_keys s k \<noteq> OGreater" ks]
    set_takeWhileD [of "ks ! j" "\<lambda>s. compare_keys s k \<noteq> OGreater" ks] nth_mem [of j "takeWhile (\<lambda>s. compare_keys s k \<noteq> OGreater) ks"]
  by (auto simp: descend_pos_def partition_point_def compare_rank not_less)

lemma descend_at: "descend_pos ks k < length ks \<Longrightarrow> k \<in> K \<Longrightarrow> ks ! descend_pos ks k \<in> K \<Longrightarrow> rank k < rank (ks ! descend_pos ks k)"
  using nth_length_takeWhile [of "\<lambda>s. compare_keys s k \<noteq> OGreater" ks]
  by (auto simp: descend_pos_def partition_point_def compare_rank)

lemma child_before:
  assumes "good (flat (BtNode ks ts))" "length ts = length ks + 1" "i < descend_pos ks k" "k \<in> K"
    and "e \<in> set (ents (flat (ts ! i)))"
  shows "compare_keys (fst e) k = OLess"
proof -
  have i: "i < length ts" "i < length ks" using assms(2,3) descend_pos_le [of ks k] by auto
  note cb = child_bounds [OF assms(1,2) i(1) assms(5)]
  have "rank (fst e) < rank (ks ! i)" "rank (ks ! i) \<le> rank k"
    using cb(1) [of i] cb(4) [of i] i descend_before [OF assms(3,4)] by auto
  then show ?thesis using cb(3) assms(4) by (simp add: compare_rank)
qed

lemma child_after:
  assumes "good (flat (BtNode ks ts))" "length ts = length ks + 1" "descend_pos ks k < i" "i < length ts" "k \<in> K"
    and "e \<in> set (ents (flat (ts ! i)))"
  shows "compare_keys (fst e) k = OGreater"
proof -
  let ?d = "descend_pos ks k"
  have d: "?d < length ks" using assms(2-4) by simp
  note cb = child_bounds [OF assms(1,2,4,6)]
  have "rank k < rank (ks ! ?d)" "rank (ks ! ?d) \<le> rank (fst e)"
    using cb(2) [OF assms(3)] cb(4) [OF d] descend_at [OF d assms(5)] by auto
  then show ?thesis using cb(3) assms(5) by (simp add: compare_rank)
qed

text \<open>Scans.\<close>

lemma leaf_range_list:
  "sorted_entries es \<Longrightarrow> lo \<in> K \<Longrightarrow> hi \<in> K \<Longrightarrow> leaf_range lo hi es = range_list lo hi es"
proof (induction lo hi es rule: leaf_range.induct)
  case (1 lo hi)
  then show ?case by (simp add: range_list_def)
next
  case (2 lo hi k v es)
  have es: "sorted_entries es" "k \<in> K" "\<forall>x\<in>set es. rank k < rank (fst x) \<and> fst x \<in> K"
    using "2.prems"(1) by (auto simp: sorted_entries_def)
  have "range_list lo hi es = []" if "compare_keys k hi = OGreater"
    using that es "2.prems"(3) by (force simp: range_list_def filter_empty_conv compare_rank)
  with 2 es show ?case by (auto simp: range_list_def)
qed

lemma range_list_concat: "range_list lo hi (concat ess) = concat (map (range_list lo hi) ess)"
  by (induction ess) (auto simp: range_list_def)

lemma trange_flat:
  assumes "good (flat T)" "bt_wf L kt vt T" "lo \<in> K" "hi \<in> K"
  shows "trange T lo hi = range_list lo hi (ents (flat T))"
  using assms
proof (induction T rule: btree.induct)
  case (BtLeaf es)
  then show ?case by (simp add: good_leaf leaf_range_list)
next
  case (BtNode ks ts)
  have len: "length ts = length ks + 1" using BtNode.prems(2) by simp
  let ?f = "\<lambda>c. range_list lo hi (ents (flat c))"
  have IH: "map (\<lambda>c. trange c lo hi) ts = map ?f ts"
  proof (rule map_cong [OF refl])
    fix c assume c: "c \<in> set ts"
    then obtain i where "i < length ts" "c = ts ! i" by (auto simp: in_set_conv_nth)
    with good_child [OF BtNode.prems(1) len] BtNode.IH [OF c] BtNode.prems c show "trange c lo hi = ?f c"
      by (auto simp: list_all_iff)
  qed
  have "concat (drop (descend_pos ks lo) (take (descend_pos ks hi + 1) (map ?f ts))) = concat (map ?f ts)"
  proof (rule concat_drop_take)
    fix i assume i: "i < length (map ?f ts)" "i < descend_pos ks lo \<or> descend_pos ks hi + 1 \<le> i"
    have "compare_keys (fst e) lo = OLess \<or> compare_keys (fst e) hi = OGreater" if "e \<in> set (ents (flat (ts ! i)))" for e
      using child_before [OF BtNode.prems(1) len, of i lo e] child_after [OF BtNode.prems(1) len, of hi i e]
        BtNode.prems(3,4) i that by auto
    then have "?f (ts ! i) = []" by (force simp: range_list_def filter_empty_conv)
    then show "map ?f ts ! i = []" using i(1) by simp
  qed
  then show ?case using len by (simp add: IH ents_weave range_list_concat comp_def)
qed

lemma tfirst_flat:
  assumes "good (flat T)" "bt_wf L kt vt T" "\<forall>x. target = Some x \<longrightarrow> x \<in> K"
  shows "tfirst T target = find (\<lambda>e. beyond target (fst e)) (ents (flat T))"
  using assms
proof (induction T arbitrary: target rule: btree.induct)
  case (BtLeaf es)
  then show ?case by simp
next
  case (BtNode ks ts)
  have len: "length ts = length ks + 1" using BtNode.prems(2) by simp
  define d where "d = start_pos target ks"
  let ?g = "\<lambda>c. find (\<lambda>e. beyond target (fst e)) (ents (flat c))"
  have IH: "tfirst (ts ! i) tg = find (\<lambda>e. beyond tg (fst e)) (ents (flat (ts ! i)))"
    if "i < length ts" "\<forall>x. tg = Some x \<longrightarrow> x \<in> K" for i tg
    using BtNode.IH [OF nth_mem [OF that(1)]] good_child [OF BtNode.prems(1) len that(1)] BtNode.prems(2) that
    by (auto simp: list_all_iff)
  have dle: "d < length ts"
    using len descend_pos_le [of ks] by (auto simp: d_def start_pos_def length_takeWhile_le less_Suc_eq_le split: option.split)
  have pos: "d = (case target of None \<Rightarrow> 0 | Some x \<Rightarrow> descend_pos ks x)"
    by (auto simp: d_def start_pos_def descend_pos_def partition_point_def split: option.split)
  have before: "?g (ts ! i) = None" if "i < d" "i < length ts" for i
  proof (cases target)
    case None
    with that pos show ?thesis by simp
  next
    case (Some x)
    then have "compare_keys (fst e) x = OLess" if "e \<in> set (ents (flat (ts ! i)))" for e
      using child_before [OF BtNode.prems(1) len, of i x e] BtNode.prems(3) pos \<open>i < d\<close> that by auto
    then show ?thesis using Some by (force simp: find_None_iff beyond_def)
  qed
  have after: "tfirst (ts ! i) None = ?g (ts ! i)" if "d < i" "i < length ts" for i
  proof -
    have "beyond target (fst e)" if "e \<in> set (ents (flat (ts ! i)))" for e
      using child_after [OF BtNode.prems(1) len, of _ i e] BtNode.prems(3) pos \<open>d < i\<close> \<open>i < length ts\<close> that
      by (cases target) (auto simp: beyond_def)
    then have "?g (ts ! i) = find (\<lambda>e. beyond None (fst e)) (ents (flat (ts ! i)))"
      by (intro find_cong) (auto simp: beyond_def)
    then show ?thesis using IH [OF that(2), of None] by simp
  qed
  have drop: "drop d ts = ts ! d # drop (Suc d) ts" using dle by (simp add: Cons_nth_drop_Suc)
  have rest: "map (\<lambda>c. tfirst c None) (drop (Suc d) ts) = map ?g (drop (Suc d) ts)"
    by (rule nth_equalityI) (use after in auto)
  have "tfirst (BtNode ks ts) target = first_some (tfirst (ts ! d) target # map (\<lambda>c. tfirst c None) (drop (Suc d) ts))"
    using drop by (simp add: Let_def drop_map comp_def split: option.split flip: d_def)
  also have "\<dots> = first_some (map ?g (drop d ts))"
    using IH [OF dle BtNode.prems(3)] by (simp add: drop rest)
  also have "\<dots> = first_some (drop d (map ?g ts))" by (simp add: drop_map)
  also have "\<dots> = first_some (map ?g ts)" by (rule first_some_drop) (use before in simp)
  finally show ?case using len by (simp add: ents_weave find_concat comp_def)
qed

text \<open>Removal.\<close>

lemma good_subseq: "subseq xs ys \<Longrightarrow> good ys \<Longrightarrow> good xs"
  by (auto simp: good_def keys_in_def subseq_sorted dest: list_emb_set)

lemma del_list_mid:
  assumes "\<forall>e\<in>set xs. compare_keys (fst e) k = OLess" "\<forall>e\<in>set zs. compare_keys (fst e) k = OGreater"
  shows "del_list k (xs @ ys @ zs) = xs @ del_list k ys @ zs"
  using assms by (simp add: del_list_def)

lemma tremove_leaf_flat:
  assumes "sorted_entries es" "k \<in> K"
  shows "subseq (flat_rem (BtLeaf es) (tremove (BtLeaf es) k)) (flat (BtLeaf es))
     \<and> ents (flat_rem (BtLeaf es) (tremove (BtLeaf es) k)) = del_list k es"
proof (cases "binary_search_by (\<lambda>e. compare_keys (fst e) k) es")
  case (Inl n)
  with leaf_remove [OF assms] show ?thesis by simp
next
  case (Inr pos)
  with leaf_remove [OF assms] have "remove_at pos es = del_list k es" by simp
  moreover have "subseq (map (\<lambda>e. Ent (fst e) (snd e)) (del_list k es)) (map (\<lambda>e. Ent (fst e) (snd e)) es)"
    by (simp add: del_list_def subseq_map)
  ultimately show ?thesis using Inr by (auto simp: Let_def)
qed

lemma flat_rem_node:
  assumes "length ts = length ks + 1" "pos = descend_pos ks k"
    and "subseq (flat_rem (ts ! pos) (tremove (ts ! pos) k)) (flat (ts ! pos))"
  shows "\<exists>U V. flat_rem (BtNode ks ts) (tremove (BtNode ks ts) k) = U @ flat_rem (ts ! pos) (tremove (ts ! pos) k) @ V
     \<and> subseq U (pre ks (map flat ts) pos) \<and> subseq V (post ks (map flat ts) pos)
     \<and> ents U = ents (pre ks (map flat ts) pos) \<and> ents V = ents (post ks (map flat ts) pos)"
proof -
  have pos: "pos \<le> length ks" "pos < length ts" using assms(1,2) descend_pos_le [of ks k] by auto
  note T = tremove_node [OF assms(2) pos(2)]
  have len: "length (map flat ts) = length ks + 1" using assms(1) by simp
  show ?thesis
  proof (cases "tremove (ts ! pos) k")
    case RUnchanged
    then show ?thesis using T weave_at [OF len pos(1)] pos(2) by (auto intro!: exI)
  next
    case (RPlain c)
    then show ?thesis using T weave_update [OF len pos(1), of "flat c"] by (auto simp: map_update intro!: exI)
  next
    case RGone
    let ?ts = "remove_at pos ts" and ?ks = "drop_key pos ks"
    have l: "length ?ts = length ks" "length ?ks = length ks - 1" using pos assms(1) length_drop_key by auto
    show ?thesis
    proof (cases "ks = []")
      case True
      with l have "?ts = []" by simp
      with T RGone True show ?thesis by (auto simp: pre_def post_def)
    next
      case False
      then have ne: "?ts \<noteq> []" using l by auto
      have "flat_rem (BtNode ks ts) (tremove (BtNode ks ts) k) = weave ?ks (remove_at pos (map flat ts))"
        using T RGone ne by (auto simp: remove_at_map weave_def post_def)
      with weave_drop [OF len pos(1) False] RGone show ?thesis by auto
    qed
  qed
qed

lemma tremove_flat:
  assumes "good (flat T)" "bt_wf L kt vt T" "k \<in> K"
  shows "subseq (flat_rem T (tremove T k)) (flat T) \<and> ents (flat_rem T (tremove T k)) = del_list k (ents (flat T))"
  using assms
proof (induction T rule: btree.induct)
  case (BtLeaf es)
  with tremove_leaf_flat [of es k] show ?case by (simp add: good_leaf)
next
  case (BtNode ks ts)
  let ?pos = "descend_pos ks k"
  let ?A = "pre ks (map flat ts) ?pos" and ?C = "post ks (map flat ts) ?pos" and ?c = "ts ! ?pos"
  let ?X = "flat_rem ?c (tremove ?c k)"
  have len: "length ts = length ks + 1" using BtNode.prems(2) by simp
  then have pos: "?pos < length ts" using descend_pos_le [of ks k] by simp
  note parts = node_parts [OF BtNode.prems(1,3) len refl]
  have gc: "good (flat ?c)" using good_child [OF BtNode.prems(1) len pos] .
  have IH: "subseq ?X (flat ?c)" "ents ?X = del_list k (ents (flat ?c))"
    using BtNode.IH [OF nth_mem [OF pos] gc] BtNode.prems pos by (auto simp: list_all_iff)
  have g: "good (?A @ flat ?c @ ?C)" using BtNode.prems(1) parts(1) by simp
  obtain U V where UV: "flat_rem (BtNode ks ts) (tremove (BtNode ks ts) k) = U @ ?X @ V"
    "subseq U ?A" "subseq V ?C" "ents U = ents ?A" "ents V = ents ?C"
    using flat_rem_node [OF len refl IH(1)] by blast
  have "subseq (U @ ?X @ V) (?A @ flat ?c @ ?C)" using UV IH by (intro list_emb_append_mono)
  moreover have "del_list k (ents (?A @ flat ?c @ ?C)) = ents (U @ ?X @ V)"
    using g del_list_mid [OF ents_below ents_above, OF parts(2) _ BtNode.prems(3) parts(3) _ BtNode.prems(3)]
    by (simp add: IH(2) UV good_def)
  ultimately show ?case by (simp only: UV(1) parts(1))
qed

end

end
