(* ===== verification/MapStore.thy ===== *)
theory MapStore
  imports NodeStore
begin

section \<open>The interface of a persistent map\<close>

text \<open>
  What the interpreters rely on when they hold the root hash of a persistent map in a local: an
  operation returns, a lookup answers from the version its hash denotes, an update gives the hash of
  the updated version, and no operation disturbs a version stored before. A version \<open>r\<close> is an
  abstract tree; \<open>rep S t r\<close> says that transaction \<open>t\<close> stores the node bytes \<open>S\<close> and the nodes of \<open>r\<close>
  are among them. The HAMT and the B+-tree interpret the locale.
\<close>

locale persistent_map =
  fixes rep :: "bytes set \<Rightarrow> tx \<Rightarrow> 'r \<Rightarrow> bool"
    and root :: "'r \<Rightarrow> u128"
    and lookup :: "'r \<Rightarrow> val \<Rightarrow> val option"
    and upd :: "'r \<Rightarrow> val \<Rightarrow> val \<Rightarrow> 'r"
    and grown :: "bytes set \<Rightarrow> 'r \<Rightarrow> val \<Rightarrow> val \<Rightarrow> bytes set"
    and can_set :: "bytes set \<Rightarrow> 'r \<Rightarrow> val \<Rightarrow> val \<Rightarrow> bool"
    and keys :: "val set"
    and get :: "tx \<Rightarrow> u128 \<Rightarrow> val \<Rightarrow> (val option \<times> tx) option"
    and put :: "tx \<Rightarrow> u128 \<Rightarrow> val \<Rightarrow> val \<Rightarrow> (u128 \<times> tx) option"
  assumes get_law: "rep S t r \<Longrightarrow> k \<in> keys \<Longrightarrow>
      \<exists>t'. get t (root r) k = Some (lookup r k, t') \<and> (\<forall>q. rep S t q \<longrightarrow> rep S t' q)"
    and put_law: "rep S t r \<Longrightarrow> k \<in> keys \<Longrightarrow> can_set S r k v \<Longrightarrow>
      \<exists>t'. put t (root r) k v = Some (root (upd r k v), t') \<and> rep (grown S r k v) t' (upd r k v)
        \<and> (\<forall>q. rep S t q \<longrightarrow> rep (grown S r k v) t' q)"
    and lookup_upd: "rep S t r \<Longrightarrow> k \<in> keys \<Longrightarrow> can_set S r k v \<Longrightarrow> k' \<in> keys \<Longrightarrow>
      lookup (upd r k v) k' = (if k' = k then Some v else lookup r k')"
begin

text \<open>Read after write, on the new version.\<close>

lemma get_after_put:
  assumes "rep S t r" "k \<in> keys" "can_set S r k v" "k' \<in> keys"
  shows "\<exists>h t1 t2. put t (root r) k v = Some (h, t1)
     \<and> get t1 h k' = Some (if k' = k then Some v else lookup r k', t2)"
proof -
  obtain t1 where "put t (root r) k v = Some (root (upd r k v), t1)" "rep (grown S r k v) t1 (upd r k v)"
    using put_law [OF assms(1-3)] by blast
  moreover from get_law [OF this(2) assms(4)] obtain t2 where
    "get t1 (root (upd r k v)) k' = Some (lookup (upd r k v) k', t2)" by blast
  ultimately show ?thesis using lookup_upd [OF assms] by auto
qed

text \<open>An update leaves every older version as it was.\<close>

lemma old_version_after_put:
  assumes "rep S t r" "k \<in> keys" "can_set S r k v" "rep S t q" "k' \<in> keys"
  shows "\<exists>h t1 t2. put t (root r) k v = Some (h, t1) \<and> get t1 (root q) k' = Some (lookup q k', t2)"
proof -
  obtain t1 where "put t (root r) k v = Some (root (upd r k v), t1)" "rep (grown S r k v) t1 q"
    using put_law [OF assms(1-3)] assms(4) by blast
  moreover from get_law [OF this(2) assms(5)] obtain t2 where "get t1 (root q) k' = Some (lookup q k', t2)" by blast
  ultimately show ?thesis by blast
qed

end

end
