(* ===== verification/PBTreeMap.thy ===== *)
theory PBTreeMap
  imports PBTreeSpec MapStore
begin

section \<open>The B+-tree in the store: correctness\<close>

text \<open>
  The contract of the public operations of \<^verbatim>\<open>pbtree.rs\<close>. A root is \<open>None\<close> (the hash \<open>EMPTY\<close>) or a tree. \<open>root_ok\<close>
  is the invariant every operation keeps: nodes hold at most \<open>B\<close> typed entries and the tree is a search tree. Each theorem
  is about a transaction that stores the nodes of the tree (\<open>bt_holds\<close>), under the hypothesis that
  the hash has no collision among the nodes involved (\<open>no_collision\<close>): the operation returns with any
  fuel above the height, does not fail, computes what the specification on the sorted list of
  entries says, and leaves every node stored before readable, so that older roots stay valid.
\<close>

definition bt_key_ty :: "ty \<Rightarrow> bool" where
  "bt_key_ty kt \<longleftrightarrow> kt = TU64 \<or> kt = TU128 \<or> kt = TBytes"

definition typed_keys :: "ty \<Rightarrow> val set" where
  "typed_keys kt = (case kt of TU64 \<Rightarrow> range VU64 | TU128 \<Rightarrow> range VU128 | TBytes \<Rightarrow> range VBytes | _ \<Rightarrow> {})"

definition key_rank :: "val \<Rightarrow> nat \<times> bytes" where
  "key_rank v = (case v of VU64 n \<Rightarrow> (unat n, []) | VU128 n \<Rightarrow> (unat n, []) | VBytes b \<Rightarrow> (0, b) | _ \<Rightarrow> (0, []))"

interpretation bt_keys: key_order "typed_keys kt" key_rank for kt
  by unfold_locales
     (auto simp: typed_keys_def key_rank_def compare_keys_def cmp_def word_less_nat_alt word_unat_eq_iff inj_on_def
       split: ty.splits)

lemma typed_key: "bt_key_ty kt \<Longrightarrow> wt L kt k \<Longrightarrow> k \<in> typed_keys kt"
  by (cases k) (auto simp: bt_key_ty_def typed_keys_def)

fun root_hash :: "bigint_lib \<Rightarrow> btree option \<Rightarrow> u128" where
  "root_hash L None = EMPTY"
| "root_hash L (Some T) = bt_hash L T"

fun root_ok :: "bigint_lib \<Rightarrow> ty \<Rightarrow> ty \<Rightarrow> btree option \<Rightarrow> bool" where
  "root_ok L kt vt None = True"
| "root_ok L kt vt (Some T) = (bt_wf L kt vt T \<and> bt_sorted T)"

fun root_cells :: "bigint_lib \<Rightarrow> btree option \<Rightarrow> bytes set" where
  "root_cells L None = {}"
| "root_cells L (Some T) = bt_cells L T"

fun root_entries :: "btree option \<Rightarrow> (val \<times> val) list" where
  "root_entries None = []"
| "root_entries (Some T) = tentries T"

fun root_height :: "btree option \<Rightarrow> nat" where
  "root_height None = 0"
| "root_height (Some T) = bt_height T"

fun root_set :: "btree option \<Rightarrow> val \<Rightarrow> val \<Rightarrow> btree option" where
  "root_set None k v = Some (BtLeaf [(k, v)])"
| "root_set (Some T) k v = Some (troot (tset T k v))"

fun root_remove :: "btree option \<Rightarrow> val \<Rightarrow> btree option" where
  "root_remove None k = None"
| "root_remove (Some T) k = (case tremove T k of RUnchanged \<Rightarrow> Some T | RPlain T' \<Rightarrow> Some T' | RGone \<Rightarrow> None)"

subsection \<open>Typed trees meet the contract of the keys\<close>

lemma weave_subset: "set (weave ks xs) \<subseteq> (\<Union>x\<in>set xs. set x) \<union> Sep ` set ks" if "xs \<noteq> []"
  using that by (cases xs) (auto simp: weave_def post_def dest: set_zip_leftD set_zip_rightD)

lemma wf_keys_in: "bt_key_ty kt \<Longrightarrow> bt_wf L kt vt T \<Longrightarrow> keys_in (typed_keys kt) (flat T)"
proof (induction T rule: btree.induct)
  case (BtLeaf es)
  then show ?case by (auto simp: keys_in_def list_all_iff entry_ok_def intro: typed_key)
next
  case (BtNode ks ts)
  then have "map flat ts \<noteq> []" by auto
  from weave_subset [OF this, of ks] BtNode show ?case
    by (fastforce simp: keys_in_def list_all_iff key_ok_def intro: typed_key)
qed

lemma good_iff: "bt_key_ty kt \<Longrightarrow> bt_wf L kt vt T \<Longrightarrow> bt_keys.good kt (flat T) \<longleftrightarrow> bt_sorted T"
  using wf_keys_in by (auto simp: bt_keys.good_def bt_sorted_def)

lemma entries_in:
  assumes "bt_key_ty kt" "bt_wf L kt vt T"
  shows "fst ` set (tentries T) \<subseteq> typed_keys kt"
proof -
  have "Ent a b \<in> set (flat T) \<Longrightarrow> a \<in> typed_keys kt" for a b
    using wf_keys_in [OF assms] by (force simp: keys_in_def)
  then show ?thesis using ents_flat [OF assms(2)] in_ents by (metis fst_conv image_subsetI prod.collapse)
qed

lemma flat_troot: "flat (troot r) = flat_up r"
  by (cases r) (simp_all add: troot_def weave_def post_def)

lemma root_set_ok:
  assumes "bt_key_ty kt" "root_ok L kt vt r" "entry_ok L kt vt (k, v)"
  shows "root_ok L kt vt (root_set r k v) \<and> root_entries (root_set r k v) = upd_list k v (root_entries r)"
proof (cases r)
  case None
  then show ?thesis using assms(3) by (simp add: B_def bt_sorted_def upd_list_def)
next
  case (Some T)
  let ?T = "troot (tset T k v)"
  from assms(2) Some have T: "bt_wf L kt vt T" "bt_keys.good kt (flat T)" using good_iff [OF assms(1)] by auto
  have k: "k \<in> typed_keys kt" using assms(1,3) typed_key by (auto simp: entry_ok_def)
  have wf: "bt_wf L kt vt ?T" using troot_wf [OF tset_wf [OF T(1) assms(3)]] .
  from bt_keys.tset_flat [OF T(2,1) k, of v] have "bt_keys.good kt (flat ?T)"
    "ents (flat ?T) = upd_list k v (ents (flat T))" by (simp_all add: flat_troot)
  then show ?thesis using Some wf T(1) good_iff [OF assms(1) wf] ents_flat [OF wf] ents_flat [OF T(1)] by simp
qed

lemma root_remove_ok:
  assumes "bt_key_ty kt" "root_ok L kt vt r" "k \<in> typed_keys kt"
  shows "root_ok L kt vt (root_remove r k) \<and> root_entries (root_remove r k) = del_list k (root_entries r)"
proof (cases r)
  case None
  then show ?thesis by (simp add: del_list_def)
next
  case (Some T)
  from assms(2) Some have T: "bt_wf L kt vt T" "bt_keys.good kt (flat T)" using good_iff [OF assms(1)] by auto
  note f = bt_keys.tremove_flat [OF T(2,1) assms(3)]
  have wf: "rem_wf L kt vt (tremove T k)" using tremove_wf [OF T(1)] .
  have g: "bt_keys.good kt (flat_rem T (tremove T k))" using f bt_keys.good_subseq T(2) by blast
  show ?thesis
    using f wf g Some assms(2) ents_flat [OF T(1)]
    by (cases "tremove T k") (auto simp: good_iff [OF assms(1)] ents_flat)
qed

subsection \<open>The operations\<close>

lemma map_of_filter_fst: "map_of (filter (\<lambda>e. P (fst e)) es) k = (if P k then map_of es k else None)"
  by (induction es) auto

lemma map_of_upd_list:
  assumes "k \<in> typed_keys kt" "k' \<in> typed_keys kt"
  shows "map_of (upd_list k v es) k' = (if k' = k then Some v else map_of es k')"
proof -
  have eq: "compare_keys k' k = OEqual \<longleftrightarrow> k' = k" "compare_keys k k = OEqual"
    using bt_keys.compare_eq bt_keys.compare_refl assms by blast+
  show ?thesis
    by (cases "compare_keys k' k")
       (auto simp: upd_list_def map_add_def map_of_filter_fst [of "\<lambda>x. compare_keys x k = _"] eq split: option.split)
qed

lemma map_of_del_list:
  assumes "k \<in> typed_keys kt" "k' \<in> typed_keys kt"
  shows "map_of (del_list k es) k' = (if k' = k then None else map_of es k')"
  using bt_keys.compare_eq [OF assms(2,1)] by (simp add: del_list_def map_of_filter_fst [of "\<lambda>x. compare_keys x k \<noteq> OEqual"])

lemma bt_hash_nonempty: "no_collision bt_cell_key S \<Longrightarrow> bt_cells L T \<subseteq> S \<Longrightarrow> bt_hash L T \<noteq> EMPTY"
  using no_collision_key [of bt_cell_key S "bt_bytes L T"] bt_bytes_in_cells [of L T] by (auto simp: bt_hash_def)

lemma bt_get_root:
  assumes "bt_key_ty kt" "bt_holds L S t" "no_collision bt_cell_key S" "root_ok L kt vt r" "root_cells L r \<subseteq> S"
    and "root_height r < n" "k \<in> typed_keys kt"
  shows "\<exists>t'. bt_get n L kt vt t (root_hash L r) k = Some (map_of (root_entries r) k, t') \<and> bt_holds L S t'"
proof (cases r)
  case None
  then show ?thesis using assms(2) by (simp add: bt_get_def)
next
  case (Some T)
  then have T: "bt_wf L kt vt T" "bt_keys.good kt (flat T)" "bt_cells L T \<subseteq> S" "bt_height T < n"
    using assms good_iff [OF assms(1)] by auto
  have "tget T k = map_of (tentries T) k"
    using bt_keys.tget_flat [OF T(2,1) assms(7)] bt_keys.find_key [OF entries_in [OF assms(1) T(1)] assms(7)]
    by (simp add: ents_flat [OF T(1)])
  then show ?thesis
    using bt_get_at_refines [OF assms(2,3) T(1,3,4), of k] bt_hash_nonempty [OF assms(3) T(3)] Some
    by (simp add: bt_get_def)
qed

lemma bt_set_root:
  assumes "bt_holds L S t" "root_ok L kt vt r" "root_cells L r \<subseteq> S"
    and "entry_ok L kt vt (k, v)" "root_height r < n" "no_collision bt_cell_key (S \<union> root_cells L (root_set r k v))"
  shows "\<exists>t'. bt_set n L kt vt t (root_hash L r) k v = Some (Inr (root_hash L (root_set r k v)), t')
     \<and> bt_holds L (S \<union> root_cells L (root_set r k v)) t'"
proof (cases r)
  case None
  then show ?thesis using assms bt_write_leaf_stored [OF assms(1), of "[(k, v)]" kt vt]
    by (auto simp: bt_set_def)
next
  case (Some T)
  then have T: "bt_wf L kt vt T" "bt_cells L T \<subseteq> S" "bt_height T < n" using assms by auto
  let ?r = "tset T k v"
  have up: "up_cells L ?r \<subseteq> bt_cells L (troot ?r)" by (cases ?r) (auto simp: troot_def)
  have nc: "no_collision bt_cell_key (S \<union> up_cells L ?r)"
    by (rule no_collision_subset [OF assms(6)]) (use up Some in auto)
  have ne: "bt_hash L T \<noteq> EMPTY" using bt_hash_nonempty [OF nc, of L T] T(2) by auto
  obtain t1 where t1: "bt_set_inner n L kt vt t (bt_hash L T) k v = Some (Inr (map_set_result (bt_hash L) ?r), t1)"
    "bt_holds L (S \<union> up_cells L ?r) t1" using bt_set_inner_refines [OF assms(1) T(1) assms(4) T(2,3) nc] by blast
  show ?thesis
  proof (cases ?r)
    case (SPlain T')
    with t1 Some ne show ?thesis by (auto simp: bt_set_def troot_def rok_def)
  next
    case (SSplit l sep rt)
    let ?T = "BtNode [sep] [l, rt]"
    have "key_ok L kt sep" using tset_wf [OF T(1) assms(4)] SSplit by simp
    moreover have "insert (bt_bytes L ?T) (S \<union> up_cells L ?r) = S \<union> bt_cells L ?T" using SSplit by auto
    ultimately obtain t2 where "bt_write_inner L t1 [sep] (map (bt_hash L) [l, rt]) = Some (bt_hash L ?T, t2)"
      "bt_holds L (S \<union> bt_cells L ?T) t2"
      using bt_write_inner_stored [OF t1(2), of "[sep]" "[l, rt]" kt] assms(6) Some SSplit by (auto simp: troot_def)
    with t1 Some SSplit ne show ?thesis by (auto simp: bt_set_def troot_def)
  qed
qed

lemma bt_remove_root:
  assumes "bt_holds L S t" "root_ok L kt vt r" "root_cells L r \<subseteq> S" "root_height r < n"
    and "no_collision bt_cell_key (S \<union> root_cells L (root_remove r k))"
  shows "\<exists>t'. bt_remove n L kt vt t (root_hash L r) k = Some (Inr (root_hash L (root_remove r k)), t')
     \<and> bt_holds L (S \<union> root_cells L (root_remove r k)) t'"
proof (cases r)
  case None
  then show ?thesis using assms(1) by (simp add: bt_remove_def rok_def)
next
  case (Some T)
  then have T: "bt_wf L kt vt T" "bt_cells L T \<subseteq> S" "bt_height T < n" using assms by auto
  have nc: "no_collision bt_cell_key (S \<union> rem_cells L (tremove T k))"
    by (rule no_collision_subset [OF assms(5)]) (use Some in \<open>auto split: remove_result.split elim: rem_cells.elims\<close>)
  have ne: "bt_hash L T \<noteq> EMPTY" using bt_hash_nonempty [OF nc, of L T] T(2) by auto
  obtain t1 where "bt_remove_inner n L kt vt t (bt_hash L T) k = Some (Inr (map_remove_result (bt_hash L) (tremove T k)), t1)"
    "bt_holds L (S \<union> rem_cells L (tremove T k)) t1" using bt_remove_inner_refines [OF assms(1) T nc] by blast
  then show ?thesis using Some ne T(2)
    by (cases "tremove T k") (auto simp: bt_remove_def rok_def Un_absorb2)
qed

lemma ents_sorted: "sorted_wrt ilt is \<Longrightarrow> sorted_wrt (\<lambda>a b. compare_keys (fst a) (fst b) = OLess) (ents is)"
proof (induction "is" rule: ents.induct)
  case (2 k v "is")
  have "compare_keys k (fst e) = OLess" if "e \<in> set (ents is)" for e
    using "2.prems" that in_ents [of "fst e" "snd e" "is"] by fastforce
  with 2 show ?case by auto
qed simp_all

lemma bt_entries_root:
  assumes "bt_holds L S t" "no_collision bt_cell_key S" "root_ok L kt vt r" "root_cells L r \<subseteq> S" "root_height r < n"
  shows "\<exists>t'. bt_entries n L kt vt t (root_hash L r) = Some (root_entries r, t') \<and> bt_holds L S t'"
proof (cases r)
  case None
  then show ?thesis using assms(1) by (simp add: bt_entries_def)
next
  case (Some T)
  then show ?thesis
    using bt_collect_refines [OF assms(1,2), of kt vt T n] bt_hash_nonempty [OF assms(2), of L T] assms(3-5)
    by (simp add: bt_entries_def)
qed

lemma bt_range_root:
  assumes "bt_key_ty kt" "bt_holds L S t" "no_collision bt_cell_key S" "root_ok L kt vt r" "root_cells L r \<subseteq> S"
    and "root_height r < n" "lo \<in> typed_keys kt" "hi \<in> typed_keys kt"
  shows "\<exists>t'. bt_range n L kt vt t (root_hash L r) lo hi = Some (range_list lo hi (root_entries r), t') \<and> bt_holds L S t'"
proof (cases r)
  case None
  then show ?thesis using assms(2) by (simp add: bt_range_def range_list_def)
next
  case (Some T)
  then have T: "bt_wf L kt vt T" "bt_keys.good kt (flat T)" "bt_cells L T \<subseteq> S" "bt_height T < n"
    using assms good_iff [OF assms(1)] by auto
  show ?thesis
    using bt_range_refines [OF assms(2,3) T(1,3,4), of lo hi] bt_hash_nonempty [OF assms(3) T(3)] Some
      bt_keys.trange_flat [OF T(2,1) assms(7,8)] by (simp add: bt_range_def ents_flat [OF T(1)])
qed

lemma bt_first_root:
  assumes "bt_key_ty kt" "bt_holds L S t" "no_collision bt_cell_key S" "root_ok L kt vt r" "root_cells L r \<subseteq> S"
    and "root_height r < n" "\<forall>x. target = Some x \<longrightarrow> x \<in> typed_keys kt"
  shows "\<exists>t'. bt_first_greater_than n L kt vt t (root_hash L r) target
     = Some (find (\<lambda>e. beyond target (fst e)) (root_entries r), t') \<and> bt_holds L S t'"
proof (cases r)
  case None
  then show ?thesis using assms(2) by (simp add: bt_first_greater_than_def)
next
  case (Some T)
  then have T: "bt_wf L kt vt T" "bt_keys.good kt (flat T)" "bt_cells L T \<subseteq> S" "bt_height T < n"
    using assms good_iff [OF assms(1)] by auto
  show ?thesis
    using bt_first_refines [OF assms(2,3) T(1,3,4), of target] bt_hash_nonempty [OF assms(3) T(3)] Some
      bt_keys.tfirst_flat [OF T(2,1) assms(7)] by (simp add: bt_first_greater_than_def ents_flat [OF T(1)])
qed

text \<open>The B+-tree as a persistent map: the fuel is part of the representation, since the height grows.\<close>

definition bt_rep :: "nat \<Rightarrow> bigint_lib \<Rightarrow> ty \<Rightarrow> ty \<Rightarrow> bytes set \<Rightarrow> tx \<Rightarrow> btree option \<Rightarrow> bool" where
  "bt_rep n L kt vt S t r \<longleftrightarrow> bt_key_ty kt \<and> bt_holds L S t \<and> no_collision bt_cell_key S \<and> root_ok L kt vt r
     \<and> root_cells L r \<subseteq> S \<and> root_height r < n"

definition bt_can_set :: "nat \<Rightarrow> bigint_lib \<Rightarrow> ty \<Rightarrow> ty \<Rightarrow> bytes set \<Rightarrow> btree option \<Rightarrow> val \<Rightarrow> val \<Rightarrow> bool" where
  "bt_can_set n L kt vt S r k v \<longleftrightarrow> entry_ok L kt vt (k, v) \<and> root_height (root_set r k v) < n
     \<and> no_collision bt_cell_key (S \<union> root_cells L (root_set r k v))"

definition bt_put :: "nat \<Rightarrow> bigint_lib \<Rightarrow> ty \<Rightarrow> ty \<Rightarrow> tx \<Rightarrow> u128 \<Rightarrow> val \<Rightarrow> val \<Rightarrow> (u128 \<times> tx) option" where
  "bt_put n L kt vt t h k v = (case bt_set n L kt vt t h k v of Some (Inr h', t') \<Rightarrow> Some (h', t') | _ \<Rightarrow> None)"

interpretation bt: persistent_map "bt_rep n L kt vt" "root_hash L" "\<lambda>r. map_of (root_entries r)" root_set
  "\<lambda>S r k v. S \<union> root_cells L (root_set r k v)" "bt_can_set n L kt vt" "typed_keys kt"
  "bt_get n L kt vt" "bt_put n L kt vt" for n L kt vt
proof
  fix S t r k v
  assume r: "bt_rep n L kt vt S t r" and k: "k \<in> typed_keys kt"
  then have R: "bt_key_ty kt" "bt_holds L S t" "no_collision bt_cell_key S" "root_ok L kt vt r" "root_cells L r \<subseteq> S" "root_height r < n"
    by (auto simp: bt_rep_def)
  show "\<exists>t'. bt_get n L kt vt t (root_hash L r) k = Some (map_of (root_entries r) k, t') \<and> (\<forall>q. bt_rep n L kt vt S t q \<longrightarrow> bt_rep n L kt vt S t' q)"
    using bt_get_root [OF R k] by (auto simp: bt_rep_def)
  assume c: "bt_can_set n L kt vt S r k v"
  then have C: "entry_ok L kt vt (k, v)" "root_height (root_set r k v) < n" "no_collision bt_cell_key (S \<union> root_cells L (root_set r k v))"
    by (auto simp: bt_can_set_def)
  note ok = root_set_ok [OF R(1,4) C(1)]
  show "\<exists>t'. bt_put n L kt vt t (root_hash L r) k v = Some (root_hash L (root_set r k v), t')
      \<and> bt_rep n L kt vt (S \<union> root_cells L (root_set r k v)) t' (root_set r k v)
      \<and> (\<forall>q. bt_rep n L kt vt S t q \<longrightarrow> bt_rep n L kt vt (S \<union> root_cells L (root_set r k v)) t' q)"
    using bt_set_root [OF R(2,4,5) C(1) R(6) C(3)] ok C R(1) by (auto simp: bt_rep_def bt_put_def dest: subsetD)
  show "map_of (root_entries (root_set r k v)) k' = (if k' = k then Some v else map_of (root_entries r) k')" if "k' \<in> typed_keys kt" for k'
    using ok map_of_upd_list [OF k that] by simp
qed

text \<open>A concrete tree for the witnesses: one leaf with two entries, written into a fresh transaction.\<close>

definition demo_tree :: btree where
  "demo_tree = BtLeaf [(VU64 1, VU64 10), (VU64 5, VU64 50)]"

definition demo_bytes :: bytes where
  "demo_bytes = bt_bytes twos_lib demo_tree"

definition demo_tx :: tx where
  "demo_tx = (tx_new empty_kv)\<lparr>writes := [(bt_cell_key demo_bytes, VBytes demo_bytes)]\<rparr>"

lemma demo_holds: "bt_holds twos_lib {demo_bytes} demo_tx"
  by (simp add: holds_def bigint_ok_twos_lib demo_tx_def settled_def tx_new_def tx_new_with_context_def
      resolved_map_def parent_lookup_def stored_in_def node_view_def cell_value_def hm_get_def as_node_bytes_def)

lemma demo_bytes_eval: "demo_bytes = [2, 0, 0, 0, 2, 0, 0, 0, 9, 0x12, 0, 0, 0, 0, 0, 0, 0, 1, 0, 0, 0, 9, 0x12,
   0, 0, 0, 0, 0, 0, 0, 10, 0, 0, 0, 9, 0x12, 0, 0, 0, 0, 0, 0, 0, 5, 0, 0, 0, 9, 0x12, 0, 0, 0, 0, 0, 0, 0, 50]"
  by (simp add: demo_bytes_def demo_tree_def bt_bytes.simps bt_serialize_leaf_def entry_to_bytes_def eval_simps)

lemma pbtree_ns_bytes: "be_bytes 16 (unat PBTREE_NODE_NS)
   = [0x50, 0x42, 0x54, 0x52, 0x45, 0x45, 0x4E, 0x4F, 0x44, 0x45, 0x50, 0x42, 0x54, 0x52, 0x45, 0x45]"
  by (simp add: PBTREE_NODE_NS_def eval_simps)

lemmas bt_cell_key_eval = bt_cell_key_def child_def pbtree_ns_bytes

lemma demo_hash: "bt_cell_key demo_bytes \<noteq> EMPTY"
  unfolding demo_bytes_eval bt_cell_key_eval by code_simp

lemma demo_no_collision: "no_collision bt_cell_key {demo_bytes}"
  using demo_hash by (simp add: no_collision_def)

lemma demo_ok: "root_ok twos_lib TU64 TU64 (Some demo_tree)" "root_cells twos_lib (Some demo_tree) = {demo_bytes}"
  by (simp_all add: demo_tree_def demo_bytes_def B_def entry_ok_def bt_sorted_def compare_keys_def cmp_def eval_simps)

lemma demo_height: "root_height (Some demo_tree) < 1"
  by (simp add: demo_tree_def)

lemma demo_keys: "bt_key_ty TU64" "VU64 n \<in> typed_keys TU64"
  by (simp_all add: bt_key_ty_def typed_keys_def)

lemma demo_root: "root_hash twos_lib (Some demo_tree) = bt_cell_key demo_bytes"
  by (simp add: bt_hash_def demo_bytes_def)

lemmas demo_facts = demo_holds demo_no_collision demo_ok(1) demo_ok(2) [THEN equalityD1] demo_height

subsection \<open>Properties\<close>

text \<open>\<^verbatim>\<open>pbtree::get\<close> is the lookup in the sorted map the tree represents. With any
  fuel above the height it returns (it does not panic on the way down) the value of the key in the
  entries of the tree, or nothing, and the nodes of the tree stay readable.\<close>

theorem bt_get_correct:
  assumes "bt_key_ty kt" and "bt_holds L S t" and "no_collision bt_cell_key S"
    and "root_ok L kt vt r" and "root_cells L r \<subseteq> S" and "root_height r < n" and "k \<in> typed_keys kt"
  shows "\<exists>t'. bt_get n L kt vt t (root_hash L r) k = Some (map_of (root_entries r) k, t') \<and> bt_holds L S t'"
  using assms by (rule bt_get_root)

theorem bt_get_correct_witness:
  "\<exists>t'. bt_get 1 twos_lib TU64 TU64 demo_tx (bt_cell_key demo_bytes) (VU64 5) = Some (Some (VU64 50), t')"
  using bt_get_correct [OF demo_keys(1) demo_facts demo_keys(2), of 5]
  by (simp only: demo_root) (auto simp: demo_tree_def)

text \<open>C1 (refinement): \<^verbatim>\<open>pbtree::set\<close> inserts or replaces. It does not fail; the tree at the hash it
  returns satisfies the invariant (search order, at most \<open>B\<close> entries or separators per node), its entries are the old
  ones with the key bound to the new value at its place in the order, and every node stored before is
  still stored, so the old root keeps its contents.\<close>

theorem bt_set_correct:
  assumes "bt_key_ty kt" and "bt_holds L S t" and "root_ok L kt vt r" and "root_cells L r \<subseteq> S"
    and "root_height r < n" and "entry_ok L kt vt (k, v)"
    and "no_collision bt_cell_key (S \<union> root_cells L (root_set r k v))"
  shows "\<exists>t'. bt_set n L kt vt t (root_hash L r) k v = Some (Inr (root_hash L (root_set r k v)), t')
     \<and> bt_holds L (S \<union> root_cells L (root_set r k v)) t'
     \<and> root_ok L kt vt (root_set r k v)
     \<and> root_entries (root_set r k v) = upd_list k v (root_entries r)"
  using bt_set_root [OF assms(2,3,4,6,5,7)] root_set_ok [OF assms(1,3,6)] by blast

theorem bt_set_correct_witness:
  "\<exists>h t'. bt_set 0 twos_lib TU64 TU64 (tx_new empty_kv) EMPTY (VU64 1) (VU64 10) = Some (Inr h, t')"
proof -
  let ?b = "bt_bytes twos_lib (BtLeaf [(VU64 1, VU64 10)])"
  have b: "?b = [2, 0, 0, 0, 1, 0, 0, 0, 9, 0x12, 0, 0, 0, 0, 0, 0, 0, 1, 0, 0, 0, 9, 0x12, 0, 0, 0, 0, 0, 0, 0, 10]"
    by (simp add: bt_bytes.simps bt_serialize_leaf_def entry_to_bytes_def eval_simps)
  have "bt_cell_key ?b \<noteq> EMPTY" unfolding b bt_cell_key_eval by code_simp
  then have nc: "no_collision bt_cell_key ({} \<union> root_cells twos_lib (root_set None (VU64 1) (VU64 10)))"
    by (simp add: no_collision_def)
  have h: "bt_holds twos_lib {} (tx_new empty_kv)"
    by (rule holds_new [OF bigint_ok_twos_lib])
  have e: "entry_ok twos_lib TU64 TU64 (VU64 1, VU64 10)" by (simp add: entry_ok_def eval_simps)
  show ?thesis using bt_set_correct [OF demo_keys(1) h _ _ _ e nc, of 1] by (auto simp: bt_set_def)
qed

text \<open>C2 (functional): reading after writing. After \<^verbatim>\<open>set(root, k, v)\<close> the new root answers \<open>v\<close> for \<open>k\<close> and
  what the old root answered for every other key, and the old root, still stored, answers as before.\<close>

theorem bt_get_after_set:
  assumes "bt_key_ty kt" and "bt_holds L S t" and "root_ok L kt vt r" and "root_cells L r \<subseteq> S"
    and "entry_ok L kt vt (k, v)" and "k' \<in> typed_keys kt"
    and "root_height r < n" and "root_height (root_set r k v) < n"
    and "no_collision bt_cell_key (S \<union> root_cells L (root_set r k v))"
  shows "\<exists>h t1 t2 t3. bt_set n L kt vt t (root_hash L r) k v = Some (Inr h, t1)
     \<and> bt_get n L kt vt t1 h k' = Some (if k' = k then Some v else map_of (root_entries r) k', t2)
     \<and> bt_get n L kt vt t2 (root_hash L r) k' = Some (map_of (root_entries r) k', t3)"
proof -
  let ?r = "root_set r k v"
  obtain t1 where t1: "bt_set n L kt vt t (root_hash L r) k v = Some (Inr (root_hash L ?r), t1)"
    "bt_holds L (S \<union> root_cells L ?r) t1" using bt_set_root [OF assms(2,3,4,5,7,9)] by blast
  note ok = root_set_ok [OF assms(1,3,5)]
  obtain t2 where t2: "bt_get n L kt vt t1 (root_hash L ?r) k' = Some (map_of (root_entries ?r) k', t2)"
    "bt_holds L (S \<union> root_cells L ?r) t2"
    using bt_get_root [OF assms(1) t1(2) assms(9) _ _ assms(8,6)] ok by auto
  obtain t3 where "bt_get n L kt vt t2 (root_hash L r) k' = Some (map_of (root_entries r) k', t3)"
    using bt_get_root [OF assms(1) t2(2) assms(9,3) _ assms(7,6)] assms(4) by auto
  moreover have "k \<in> typed_keys kt" using assms(1,5) typed_key by (auto simp: entry_ok_def)
  ultimately show ?thesis using t1 t2 ok map_of_upd_list [OF _ assms(6)] by auto
qed

theorem bt_get_after_set_witness:
  "\<exists>h t1 t2. bt_set 1 twos_lib TU64 TU64 demo_tx (bt_cell_key demo_bytes) (VU64 5) (VU64 50) = Some (Inr h, t1)
     \<and> bt_get 1 twos_lib TU64 TU64 t1 h (VU64 5) = Some (Some (VU64 50), t2)"
proof -
  have r: "root_set (Some demo_tree) (VU64 5) (VU64 50) = Some demo_tree"
    by (simp add: demo_tree_def troot_def leaf_insert_def binary_search_by_def compare_keys_def cmp_def B_def)
  have e: "entry_ok twos_lib TU64 TU64 (VU64 5, VU64 50)" by (simp add: entry_ok_def eval_simps)
  have "\<exists>h t1 t2 t3. bt_set 1 twos_lib TU64 TU64 demo_tx (root_hash twos_lib (Some demo_tree)) (VU64 5) (VU64 50) = Some (Inr h, t1)
     \<and> bt_get 1 twos_lib TU64 TU64 t1 h (VU64 5) = Some (if VU64 5 = VU64 5 then Some (VU64 50) else map_of (root_entries (Some demo_tree)) (VU64 5), t2)
     \<and> bt_get 1 twos_lib TU64 TU64 t2 (root_hash twos_lib (Some demo_tree)) (VU64 5) = Some (map_of (root_entries (Some demo_tree)) (VU64 5), t3)"
    by (rule bt_get_after_set [OF demo_keys(1) demo_holds demo_ok(1) _ e demo_keys(2)])
       (use demo_ok(2) demo_height demo_no_collision in \<open>simp_all only: r, simp_all\<close>)
  then show ?thesis by (simp only: demo_root) auto
qed

text \<open>C3 (refinement): \<^verbatim>\<open>pbtree::remove\<close> deletes exactly the key. It does not fail, the invariant holds for
  the new root, whose entries are the old ones without the key (the root is \<open>EMPTY\<close> when none is left), and the nodes
  stored before stay stored.\<close>

theorem bt_remove_correct:
  assumes "bt_key_ty kt" and "bt_holds L S t" and "root_ok L kt vt r" and "root_cells L r \<subseteq> S"
    and "root_height r < n" and "k \<in> typed_keys kt"
    and "no_collision bt_cell_key (S \<union> root_cells L (root_remove r k))"
  shows "\<exists>t'. bt_remove n L kt vt t (root_hash L r) k = Some (Inr (root_hash L (root_remove r k)), t')
     \<and> bt_holds L (S \<union> root_cells L (root_remove r k)) t'
     \<and> root_ok L kt vt (root_remove r k)
     \<and> root_entries (root_remove r k) = del_list k (root_entries r)
     \<and> (\<forall>k'\<in>typed_keys kt. map_of (root_entries (root_remove r k)) k' = (if k' = k then None else map_of (root_entries r) k'))"
  using bt_remove_root [OF assms(2,3,4,5,7)] root_remove_ok [OF assms(1,3,6)] map_of_del_list [OF assms(6)] by auto

theorem bt_remove_correct_witness:
  "\<exists>t'. bt_remove 1 twos_lib TU64 TU64 demo_tx (bt_cell_key demo_bytes) (VU64 7) = Some (Inr (bt_cell_key demo_bytes), t')"
proof -
  have r: "root_remove (Some demo_tree) (VU64 7) = Some demo_tree"
    by (simp add: demo_tree_def binary_search_by_def compare_keys_def cmp_def)
  have "no_collision bt_cell_key ({demo_bytes} \<union> root_cells twos_lib (root_remove (Some demo_tree) (VU64 7)))"
    using demo_ok(2) demo_no_collision by (simp only: r Un_absorb)
  from bt_remove_correct [OF demo_keys(1) demo_holds demo_ok(1) demo_ok(2) [THEN equalityD1] demo_height demo_keys(2) this]
  have "\<exists>t'. bt_remove 1 twos_lib TU64 TU64 demo_tx (root_hash twos_lib (Some demo_tree)) (VU64 7)
     = Some (Inr (root_hash twos_lib (root_remove (Some demo_tree) (VU64 7))), t')" by blast
  then show ?thesis by (simp only: r demo_root)
qed

text \<open>C5 (refinement): \<^verbatim>\<open>pbtree::range\<close> returns the values of the keys in the inclusive range, in key order: pruning the
  subtrees outside the range and stopping at the first larger key of a leaf lose nothing.\<close>

theorem bt_range_correct:
  assumes "bt_key_ty kt" and "bt_holds L S t" and "no_collision bt_cell_key S" and "root_ok L kt vt r"
    and "root_cells L r \<subseteq> S" and "root_height r < n" and "lo \<in> typed_keys kt" and "hi \<in> typed_keys kt"
  shows "\<exists>t'. bt_range n L kt vt t (root_hash L r) lo hi = Some (range_list lo hi (root_entries r), t')
     \<and> bt_holds L S t'"
  using assms by (rule bt_range_root)

theorem bt_range_correct_witness:
  "\<exists>t'. bt_range 1 twos_lib TU64 TU64 demo_tx (bt_cell_key demo_bytes) (VU64 2) (VU64 5) = Some ([VU64 50], t')"
  using bt_range_correct [OF demo_keys(1) demo_facts demo_keys(2) demo_keys(2), of 2 5]
  by (simp only: demo_root) (auto simp: demo_tree_def range_list_def compare_keys_def cmp_def)

text \<open>\<^verbatim>\<open>pbtree::first_greater_than\<close> returns the first entry, in key order, beyond the target (the
  smallest entry when there is no target), or nothing: the unfiltered search of the later siblings never
  returns an entry at or below the target.\<close>

theorem bt_first_greater_correct:
  assumes "bt_key_ty kt" and "bt_holds L S t" and "no_collision bt_cell_key S" and "root_ok L kt vt r"
    and "root_cells L r \<subseteq> S" and "root_height r < n" and "\<forall>x. target = Some x \<longrightarrow> x \<in> typed_keys kt"
  shows "\<exists>t'. bt_first_greater_than n L kt vt t (root_hash L r) target
     = Some (find (\<lambda>e. beyond target (fst e)) (root_entries r), t') \<and> bt_holds L S t'"
  using assms by (rule bt_first_root)

theorem bt_first_greater_correct_witness:
  "\<exists>t'. bt_first_greater_than 1 twos_lib TU64 TU64 demo_tx (bt_cell_key demo_bytes) (Some (VU64 1))
     = Some (Some (VU64 5, VU64 50), t')"
proof -
  have "\<forall>x. Some (VU64 1) = Some x \<longrightarrow> x \<in> typed_keys TU64" using demo_keys(2) by simp
  from bt_first_greater_correct [OF demo_keys(1) demo_facts this] show ?thesis
    by (simp only: demo_root) (auto simp: demo_tree_def beyond_def compare_keys_def cmp_def)
qed

text \<open>\<^verbatim>\<open>pbtree::entries\<close> walks every entry once, in strictly increasing key order.\<close>

theorem bt_entries_sorted:
  assumes "bt_holds L S t" and "no_collision bt_cell_key S" and "root_ok L kt vt r" and "root_cells L r \<subseteq> S"
    and "root_height r < n"
  shows "\<exists>es t'. bt_entries n L kt vt t (root_hash L r) = Some (es, t') \<and> es = root_entries r
     \<and> sorted_wrt (\<lambda>a b. compare_keys (fst a) (fst b) = OLess) es \<and> bt_holds L S t'"
proof -
  have "sorted_wrt (\<lambda>a b. compare_keys (fst a) (fst b) = OLess) (root_entries r)"
  proof (cases r)
    case (Some T)
    with assms(3) show ?thesis using ents_sorted [of "flat T"] ents_flat [of L kt vt T] by (simp add: bt_sorted_def)
  qed simp
  with bt_entries_root [OF assms] show ?thesis by blast
qed

theorem bt_entries_sorted_witness:
  "\<exists>t'. bt_entries 1 twos_lib TU64 TU64 demo_tx (bt_cell_key demo_bytes)
     = Some ([(VU64 1, VU64 10), (VU64 5, VU64 50)], t')"
  using bt_entries_sorted [OF demo_facts] by (simp only: demo_root) (auto simp: demo_tree_def)

end
