(* ===== verification/PMap.thy ===== *)
theory PMap
  imports NodeStore
begin

section \<open>The persistent map (HAMT)\<close>

text \<open>
  The operations of \<^verbatim>\<open>crates/rend/src/pmap.rs\<close>: \<^verbatim>\<open>get\<close>, \<^verbatim>\<open>contains\<close>, \<^verbatim>\<open>set\<close> with
  \<^verbatim>\<open>build_from_entries\<close>, \<^verbatim>\<open>remove\<close>, \<^verbatim>\<open>entries\<close>, \<^verbatim>\<open>reachable_cells\<close> and \<^verbatim>\<open>merge_three_way\<close>. As in
  \<open>PBTree\<close>, recursion along hashes takes a fuel and \<open>None\<close> is a panic or an exhausted fuel. Five bits
  of the key hash select the slot of a level; the shift is by less than the width of the hash for
  every level up to \<open>MAX_LEVELS + 1\<close>, and the operations go no deeper in a well-formed map.
\<close>

definition pm_read_node :: "bigint_lib \<Rightarrow> ty \<Rightarrow> ty \<Rightarrow> tx \<Rightarrow> u128 \<Rightarrow> (pmap_node option \<times> tx) option" where
  "pm_read_node L kt vt t h = read_node_with (\<lambda>b. deserialize_node L b kt vt) L t h"

definition pm_write_node :: "bigint_lib \<Rightarrow> tx \<Rightarrow> bytes \<Rightarrow> (u128 \<times> tx) option" where
  "pm_write_node L t b = write_node_with pmap_cell_key L t b"

definition pm_write_leaf :: "bigint_lib \<Rightarrow> tx \<Rightarrow> (val \<times> val) list \<Rightarrow> (u128 \<times> tx) option" where
  "pm_write_leaf L t es = do { b \<leftarrow> serialize_leaf L es; pm_write_node L t b }"

definition pm_write_inner :: "bigint_lib \<Rightarrow> tx \<Rightarrow> u32 \<Rightarrow> u128 list \<Rightarrow> (u128 \<times> tx) option" where
  "pm_write_inner L t bm cs = pm_write_node L t (serialize_inner bm cs)"

subsection \<open>Lookups\<close>

fun pm_get_at :: "nat \<Rightarrow> bigint_lib \<Rightarrow> ty \<Rightarrow> ty \<Rightarrow> tx \<Rightarrow> u128 \<Rightarrow> val \<Rightarrow> u64 \<Rightarrow> nat \<Rightarrow> (val option \<times> tx) option" where
  "pm_get_at 0 L kt vt t node_hash key h level = None"
| "pm_get_at (Suc n) L kt vt t node_hash key h level = do {
     (node, t1) \<leftarrow> pm_read_node L kt vt t node_hash;
     (case node of
        None \<Rightarrow> Some (None, t1)
      | Some (PLeaf entries) \<Rightarrow> Some (map_option snd (find (\<lambda>e. value_eq (fst e) key) entries), t1)
      | Some (PInner bitmap children) \<Rightarrow>
          (let slot = bits_at h level in
           if bitmap AND slot_bit slot = 0 then Some (None, t1)
           else (let idx = child_index bitmap slot in
             if idx < length children then pm_get_at n L kt vt t1 (children ! idx) key h (level + 1) else None))) }"

definition pm_get :: "nat \<Rightarrow> bigint_lib \<Rightarrow> ty \<Rightarrow> ty \<Rightarrow> tx \<Rightarrow> u128 \<Rightarrow> val \<Rightarrow> (val option \<times> tx) option" where
  "pm_get n L kt vt t root key =
     (if root = EMPTY then Some (None, t)
      else do { h \<leftarrow> hash_key L key; pm_get_at n L kt vt t root key h 0 })"

definition pm_contains :: "nat \<Rightarrow> bigint_lib \<Rightarrow> ty \<Rightarrow> ty \<Rightarrow> tx \<Rightarrow> u128 \<Rightarrow> val \<Rightarrow> (bool \<times> tx) option" where
  "pm_contains n L kt vt t root key = do { (v, t') \<leftarrow> pm_get n L kt vt t root key; Some (v \<noteq> None, t') }"

subsection \<open>Building a subtree from entries\<close>

definition by_slot :: "bigint_lib \<Rightarrow> nat \<Rightarrow> (val \<times> val) list \<Rightarrow> (nat \<times> (val \<times> val) list) list option" where
  \<comment> \<open>the \<^verbatim>\<open>BTreeMap\<close> of buckets, in ascending slot order\<close>
  "by_slot L level entries = do {
     hs \<leftarrow> mapM (\<lambda>e. hash_key L (fst e)) entries;
     let slotted = zip (map (\<lambda>h. bits_at h level) hs) entries;
     Some (map (\<lambda>s. (s, map snd (filter (\<lambda>p. fst p = s) slotted)))
             (filter (\<lambda>s. s \<in> fst ` set slotted) [0..<32])) }"

definition bitmap_of :: "nat list \<Rightarrow> u32" where
  "bitmap_of slots = foldl (\<lambda>bm s. bm OR slot_bit s) 0 slots"

function pm_build :: "bigint_lib \<Rightarrow> tx \<Rightarrow> (val \<times> val) list \<Rightarrow> nat \<Rightarrow> (u128 \<times> tx) option"
and pm_build_children :: "bigint_lib \<Rightarrow> tx \<Rightarrow> (nat \<times> (val \<times> val) list) list \<Rightarrow> nat \<Rightarrow> (u128 list \<times> tx) option" where
  "pm_build L t entries level =
     (if entries = [] then Some (EMPTY, t)
      else if length entries = 1 \<or> level \<ge> MAX_LEVELS then pm_write_leaf L t entries
      else do {
        buckets \<leftarrow> by_slot L level entries;
        (if length buckets = 1 then pm_build L t (snd (buckets ! 0)) (level + 1)
         else do {
           (children, t') \<leftarrow> pm_build_children L t buckets (level + 1);
           pm_write_inner L t' (bitmap_of (map fst buckets)) children }) })"
| "pm_build_children L t [] level = Some ([], t)"
| "pm_build_children L t (b # bs) level = do {
     (c, t1) \<leftarrow> pm_build L t (snd b) level;
     (cs, t2) \<leftarrow> pm_build_children L t1 bs level;
     Some (c # cs, t2) }"
  by pat_completeness auto
termination
  by (relation "measures [
        \<lambda>x. case x of Inl (L, t, es, level) \<Rightarrow> 2 * (MAX_LEVELS + 1 - level)
           | Inr (L, t, bs, level) \<Rightarrow> 2 * (MAX_LEVELS + 1 - level) + 1,
        \<lambda>x. case x of Inl _ \<Rightarrow> 0 | Inr (L, t, bs, level) \<Rightarrow> length bs]") auto

declare pm_build.simps [simp del]

subsection \<open>Insertion\<close>

fun pm_set_at :: "nat \<Rightarrow> bigint_lib \<Rightarrow> ty \<Rightarrow> ty \<Rightarrow> tx \<Rightarrow> u128 \<Rightarrow> val \<Rightarrow> val \<Rightarrow> u64 \<Rightarrow> nat \<Rightarrow> (u128 \<times> tx) option" where
  "pm_set_at 0 L kt vt t node_hash key v h level = None"
| "pm_set_at (Suc n) L kt vt t node_hash key v h level =
     (if node_hash = EMPTY then pm_write_leaf L t [(key, v)]
      else do {
        (found, t1) \<leftarrow> pm_read_node L kt vt t node_hash;
        (case (case found of Some nd \<Rightarrow> nd | None \<Rightarrow> PLeaf []) of
           PLeaf entries \<Rightarrow>
             (case position (\<lambda>e. value_eq (fst e) key) entries of
                Some idx \<Rightarrow> do {
                  new_entries \<leftarrow> sort_entries L (entries[idx := (key, v)]);
                  pm_write_leaf L t1 new_entries }
              | None \<Rightarrow>
                  (if entries = [] then pm_write_leaf L t1 [(key, v)]
                   else if level \<ge> MAX_LEVELS then do {
                     new_entries \<leftarrow> sort_entries L (entries @ [(key, v)]);
                     pm_write_leaf L t1 new_entries }
                   else pm_build L t1 (entries @ [(key, v)]) level))
         | PInner bitmap children \<Rightarrow>
             (let slot = bits_at h level; idx = child_index bitmap slot in
              if bitmap AND slot_bit slot = 0 then do {
                (leaf_hash, t2) \<leftarrow> pm_write_leaf L t1 [(key, v)];
                pm_write_inner L t2 (bitmap OR slot_bit slot) (insert_at idx leaf_hash children) }
              else if idx < length children then do {
                (new_child, t2) \<leftarrow> pm_set_at n L kt vt t1 (children ! idx) key v h (level + 1);
                pm_write_inner L t2 bitmap (children[idx := new_child]) }
              else None)) })"

definition pm_set :: "nat \<Rightarrow> bigint_lib \<Rightarrow> ty \<Rightarrow> ty \<Rightarrow> tx \<Rightarrow> u128 \<Rightarrow> val \<Rightarrow> val \<Rightarrow> (u128 \<times> tx) option" where
  "pm_set n L kt vt t root key v = do { h \<leftarrow> hash_key L key; pm_set_at n L kt vt t root key v h 0 }"

subsection \<open>Removal\<close>

fun pm_remove_at :: "nat \<Rightarrow> bigint_lib \<Rightarrow> ty \<Rightarrow> ty \<Rightarrow> tx \<Rightarrow> u128 \<Rightarrow> val \<Rightarrow> u64 \<Rightarrow> nat \<Rightarrow> ((u128 \<times> bool) \<times> tx) option" where
  "pm_remove_at 0 L kt vt t node_hash key h level = None"
| "pm_remove_at (Suc n) L kt vt t node_hash key h level = do {
     (node, t1) \<leftarrow> pm_read_node L kt vt t node_hash;
     (case node of
        None \<Rightarrow> Some ((node_hash, False), t1)
      | Some (PLeaf entries) \<Rightarrow>
          (case position (\<lambda>e. value_eq (fst e) key) entries of
             None \<Rightarrow> Some ((node_hash, False), t1)
           | Some idx \<Rightarrow>
               (if remove_at idx entries = [] then Some ((EMPTY, True), t1)
                else do { (w, t2) \<leftarrow> pm_write_leaf L t1 (remove_at idx entries); Some ((w, True), t2) }))
      | Some (PInner bitmap children) \<Rightarrow>
          (let slot = bits_at h level; idx = child_index bitmap slot in
           if bitmap AND slot_bit slot = 0 then Some ((node_hash, False), t1)
           else if idx < length children then do {
             ((new_child, found), t2) \<leftarrow> pm_remove_at n L kt vt t1 (children ! idx) key h (level + 1);
             (if \<not> found then Some ((node_hash, False), t2)
              else if new_child = EMPTY then
                (let new_bitmap = bitmap AND NOT (slot_bit slot) in
                 if new_bitmap = 0 then Some ((EMPTY, True), t2)
                 else do {
                   (w, t3) \<leftarrow> pm_write_inner L t2 new_bitmap (remove_at idx children);
                   Some ((w, True), t3) })
              else do {
                (w, t3) \<leftarrow> pm_write_inner L t2 bitmap (children[idx := new_child]);
                Some ((w, True), t3) }) }
           else None)) }"

definition pm_remove :: "nat \<Rightarrow> bigint_lib \<Rightarrow> ty \<Rightarrow> ty \<Rightarrow> tx \<Rightarrow> u128 \<Rightarrow> val \<Rightarrow> ((u128 \<times> bool) \<times> tx) option" where
  "pm_remove n L kt vt t root key =
     (if root = EMPTY then Some ((EMPTY, False), t)
      else do { h \<leftarrow> hash_key L key; pm_remove_at n L kt vt t root key h 0 })"

subsection \<open>Full walks\<close>

fun pm_collect_entries :: "nat \<Rightarrow> bigint_lib \<Rightarrow> ty \<Rightarrow> ty \<Rightarrow> tx \<Rightarrow> u128 \<Rightarrow> ((val \<times> val) list \<times> tx) option" where
  "pm_collect_entries 0 L kt vt t h = None"
| "pm_collect_entries (Suc n) L kt vt t h = do {
     (node, t1) \<leftarrow> pm_read_node L kt vt t h;
     (case node of
        None \<Rightarrow> Some ([], t1)
      | Some (PLeaf entries) \<Rightarrow> Some (entries, t1)
      | Some (PInner bitmap children) \<Rightarrow> visit_all (\<lambda>t' c. pm_collect_entries n L kt vt t' c) t1 children) }"

definition pm_entries :: "nat \<Rightarrow> bigint_lib \<Rightarrow> ty \<Rightarrow> ty \<Rightarrow> tx \<Rightarrow> u128 \<Rightarrow> ((val \<times> val) list \<times> tx) option" where
  "pm_entries n L kt vt t root = (if root = EMPTY then Some ([], t) else pm_collect_entries n L kt vt t root)"

definition pm_read_node_kv :: "bigint_lib \<Rightarrow> fkv \<Rightarrow> ty \<Rightarrow> ty \<Rightarrow> u128 \<Rightarrow> pmap_node option option" where
  "pm_read_node_kv L s kt vt h = read_node_kv_with (\<lambda>b. deserialize_node L b kt vt) s h"

definition pm_kids :: "bigint_lib \<Rightarrow> kv \<Rightarrow> ty \<Rightarrow> ty \<Rightarrow> u128 \<Rightarrow> u128 list option" where
  "pm_kids L s kt vt h = do {
     node \<leftarrow> pm_read_node_kv L (\<lambda>k. Some (s k)) kt vt h;
     Some (case node of Some (PInner _ children) \<Rightarrow> children | _ \<Rightarrow> []) }"

definition pm_reachable_cells :: "bigint_lib \<Rightarrow> kv \<Rightarrow> ty \<Rightarrow> ty \<Rightarrow> u128 \<Rightarrow> u128 set option" where
  "pm_reachable_cells L s kt vt root = walk_reachable (pm_kids L s kt vt) [root] {}"

subsection \<open>Three-way merge\<close>

text \<open>The outer option is a panic (or exhausted fuel), the inner \<open>None\<close> is the conflict the code
  reports; the list collects the new cells in the order they are pushed.\<close>

type_synonym new_cells = "(u128 \<times> bytes) list"
type_synonym merge_out = "(u128 \<times> new_cells) option option"

definition to_map :: "bigint_lib \<Rightarrow> (val \<times> val) list \<Rightarrow> (bytes, val) hashmap option" where
  "to_map L entries = do {
     kbs \<leftarrow> mapM (\<lambda>e. serialize L (fst e)) entries;
     Some (hm_extend [] (zip kbs (map snd entries))) }"

definition opt_eq :: "val option \<Rightarrow> val option \<Rightarrow> bool" where
  "opt_eq a b = (case (a, b) of (Some x, Some y) \<Rightarrow> value_eq x y | (None, None) \<Rightarrow> True | _ \<Rightarrow> False)"

definition merge_value :: "val option \<Rightarrow> val option \<Rightarrow> val option \<Rightarrow> val option option" where
  "merge_value va vb vbase =
     (if opt_eq va vb then Some va
      else if opt_eq va vbase then Some vb
      else if opt_eq vb vbase then Some va
      else None)"

fun merge_keys :: "bigint_lib \<Rightarrow> (val \<times> val) list \<Rightarrow> (bytes, val) hashmap \<Rightarrow> (bytes, val) hashmap \<Rightarrow> (bytes, val) hashmap
    \<Rightarrow> bytes list \<Rightarrow> (val \<times> val) list option" where
  \<comment> \<open>the loop over the union of the keys; \<open>None\<close> is a conflict or a key that is not recovered\<close>
  "merge_keys L all ma mb mbase [] = Some []"
| "merge_keys L all ma mb mbase (kb # kbs) = do {
     merged \<leftarrow> merge_value (hm_get ma kb) (hm_get mb kb) (hm_get mbase kb);
     (case merged of
        None \<Rightarrow> merge_keys L all ma mb mbase kbs
      | Some v \<Rightarrow> do {
          e \<leftarrow> find (\<lambda>e. serialize L (fst e) = Some kb) all;
          rest \<leftarrow> merge_keys L all ma mb mbase kbs;
          Some ((fst e, v) # rest) }) }"

definition pm_merge_leaves :: "bigint_lib \<Rightarrow> (val \<times> val) list \<Rightarrow> (val \<times> val) list \<Rightarrow> (val \<times> val) list \<Rightarrow> new_cells \<Rightarrow> merge_out" where
  "pm_merge_leaves L ea eb base_entries out = do {
     map_a \<leftarrow> to_map L ea;
     map_b \<leftarrow> to_map L eb;
     map_base \<leftarrow> to_map L base_entries;
     let all_keys = sort (remdups (map fst map_a @ map fst map_b @ map fst map_base));
     (case merge_keys L (ea @ eb @ base_entries) map_a map_b map_base all_keys of
        None \<Rightarrow> Some None
      | Some merged_entries \<Rightarrow>
          (if merged_entries = [] then Some (Some (EMPTY, out))
           else do {
             sorted_entries \<leftarrow> sort_entries L merged_entries;
             bytes \<leftarrow> serialize_leaf L sorted_entries;
             Some (Some (pmap_cell_key bytes, out @ [(pmap_cell_key bytes, bytes)])) })) }"

definition slot_child :: "u32 \<Rightarrow> u128 list \<Rightarrow> nat \<Rightarrow> u128 option" where
  "slot_child bm cs slot =
     (if bm AND slot_bit slot = 0 then Some EMPTY
      else if child_index bm slot < length cs then Some (cs ! child_index bm slot) else None)"

fun pm_merge_slots :: "(u128 \<Rightarrow> u128 \<Rightarrow> u128 \<Rightarrow> new_cells \<Rightarrow> merge_out) \<Rightarrow> u32 \<times> u128 list \<Rightarrow> u32 \<times> u128 list \<Rightarrow> u32 \<times> u128 list
    \<Rightarrow> nat list \<Rightarrow> new_cells \<Rightarrow> ((nat \<times> u128) list \<times> new_cells) option option" where
  "pm_merge_slots f a b base [] out = Some (Some ([], out))"
| "pm_merge_slots f a b base (slot # slots) out =
     (if (fst a OR fst b OR fst base) AND slot_bit slot = 0 then pm_merge_slots f a b base slots out
      else do {
        child_a \<leftarrow> slot_child (fst a) (snd a) slot;
        child_b \<leftarrow> slot_child (fst b) (snd b) slot;
        child_base \<leftarrow> slot_child (fst base) (snd base) slot;
        r \<leftarrow> f child_a child_b child_base out;
        (case r of
           None \<Rightarrow> Some None
         | Some (merged, out1) \<Rightarrow> do {
             rs \<leftarrow> pm_merge_slots f a b base slots out1;
             (case rs of
                None \<Rightarrow> Some None
              | Some (rest, out2) \<Rightarrow>
                  Some (Some (if merged = EMPTY then rest else (slot, merged) # rest, out2))) }) })"

fun pm_merge_at :: "nat \<Rightarrow> bigint_lib \<Rightarrow> fkv \<Rightarrow> ty \<Rightarrow> ty \<Rightarrow> u128 \<Rightarrow> u128 \<Rightarrow> u128 \<Rightarrow> new_cells \<Rightarrow> merge_out" where
  "pm_merge_at 0 L s kt vt a b base out = None"
| "pm_merge_at (Suc n) L s kt vt a b base out =
     (if a = b then Some (Some (a, out))
      else if a = base then Some (Some (b, out))
      else if b = base then Some (Some (a, out))
      else do {
        na \<leftarrow> pm_read_node_kv L s kt vt a;
        (case na of None \<Rightarrow> Some None | Some node_a \<Rightarrow> do {
        nb \<leftarrow> pm_read_node_kv L s kt vt b;
        (case nb of None \<Rightarrow> Some None | Some node_b \<Rightarrow> do {
        nbase \<leftarrow> pm_read_node_kv L s kt vt base;
        (case (node_a, node_b) of
           (PLeaf ea, PLeaf eb) \<Rightarrow>
             pm_merge_leaves L ea eb (case nbase of Some (PLeaf entries) \<Rightarrow> entries | _ \<Rightarrow> []) out
         | (PInner ba ca, PInner bb cb) \<Rightarrow> do {
             r \<leftarrow> pm_merge_slots (\<lambda>x y z. pm_merge_at n L s kt vt x y z) (ba, ca) (bb, cb)
                    (case nbase of Some (PInner bitmap children) \<Rightarrow> (bitmap, children) | _ \<Rightarrow> (0, [])) [0..<32] out;
             (case r of
                None \<Rightarrow> Some None
              | Some (merged, out1) \<Rightarrow>
                  (let merged_bitmap = bitmap_of (map fst merged) in
                   if merged_bitmap = 0 then Some (Some (EMPTY, out1))
                   else (let bytes = serialize_inner merged_bitmap (map snd merged) in
                     Some (Some (pmap_cell_key bytes, out1 @ [(pmap_cell_key bytes, bytes)]))))) }
         | _ \<Rightarrow> Some None) }) }) })"

definition pm_merge_three_way :: "nat \<Rightarrow> bigint_lib \<Rightarrow> fkv \<Rightarrow> ty \<Rightarrow> ty \<Rightarrow> u128 \<Rightarrow> u128 \<Rightarrow> u128 \<Rightarrow> merge_out" where
  "pm_merge_three_way n L s kt vt new_a live_b ancestor = pm_merge_at n L s kt vt new_a live_b ancestor []"

end
