(* ===== verification/PMapRefine.thy ===== *)
theory PMapRefine
  imports PMap "HOL-Library.Multiset"
begin

section \<open>Refinement of the HAMT to tries in memory\<close>

text \<open>
  A map in the store is the content-addressed image of a trie \<open>htree\<close>, whose inner nodes list their
  children by ascending slot. As for the B+-tree, every operation has a pure counterpart
  (\<open>hget\<close>, \<open>hset\<close>, \<open>hbuild\<close>, \<open>hremove\<close>, \<open>hentries\<close>), the lemmas \<open>pm_*_refines\<close> show that the operation
  computes it on any transaction that stores the trie, and the bitmap arithmetic of the code is
  reduced to positions in the list of slots.
\<close>

datatype htree = HLeaf "(val \<times> val) list" | HNode "(nat \<times> htree) list"

fun h_bytes :: "bigint_lib \<Rightarrow> htree \<Rightarrow> bytes" where
  "h_bytes L (HLeaf es) = the (serialize_leaf L es)"
| "h_bytes L (HNode kids) = serialize_inner (bitmap_of (map fst kids)) (map (\<lambda>p. pmap_cell_key (h_bytes L (snd p))) kids)"

definition h_hash :: "bigint_lib \<Rightarrow> htree \<Rightarrow> u128" where
  "h_hash L T = pmap_cell_key (h_bytes L T)"

fun h_cells :: "bigint_lib \<Rightarrow> htree \<Rightarrow> bytes set" where
  "h_cells L (HLeaf es) = {h_bytes L (HLeaf es)}"
| "h_cells L (HNode kids) = insert (h_bytes L (HNode kids)) (\<Union>p\<in>set kids. h_cells L (snd p))"

fun h_height :: "htree \<Rightarrow> nat" where
  "h_height (HLeaf es) = 0"
| "h_height (HNode kids) = Suc (Max (set (map (\<lambda>p. h_height (snd p)) kids)))"

fun h_wf :: "bigint_lib \<Rightarrow> ty \<Rightarrow> ty \<Rightarrow> htree \<Rightarrow> bool" where
  "h_wf L kt vt (HLeaf es) = (es \<noteq> [] \<and> node_ok L kt vt (PLeaf es))"
| "h_wf L kt vt (HNode kids) = (kids \<noteq> [] \<and> sorted_wrt (<) (map fst kids) \<and> (\<forall>p\<in>set kids. fst p < 32)
     \<and> list_all (\<lambda>p. h_wf L kt vt (snd p)) kids)"

subsection \<open>Bitmaps and slots\<close>

lemma bit_bitmap_foldl:
  "\<forall>s\<in>set ss. s < 32 \<Longrightarrow> bit (foldl (\<lambda>bm s. bm OR slot_bit s) bm ss) i \<longleftrightarrow> bit bm i \<or> i \<in> set ss"
  by (induction ss arbitrary: bm) (auto simp: bit_simps bit_slot_bit)

lemma bit_bitmap_of: "\<forall>s\<in>set ss. s < 32 \<Longrightarrow> bit (bitmap_of ss) i \<longleftrightarrow> i \<in> set ss"
  by (simp add: bitmap_of_def bit_bitmap_foldl)

lemma sorted_filter_upt:
  assumes "sorted_wrt (<) ss" "\<forall>s\<in>set ss. s < n"
  shows "filter (\<lambda>i. i \<in> set ss) [0..<n] = ss"
proof (rule sorted_distinct_set_unique)
  show "sorted ss" "distinct ss" using assms(1) by (auto simp: strict_sorted_iff)
  show "set (filter (\<lambda>i. i \<in> set ss) [0..<n]) = set ss" using assms(2) by auto
  show "sorted (filter (\<lambda>i. i \<in> set ss) [0..<n])" by (rule sorted_wrt_filter) simp
qed auto

lemma count_bitmap_of: "sorted_wrt (<) ss \<Longrightarrow> \<forall>s\<in>set ss. s < 32 \<Longrightarrow> count_ones (bitmap_of ss) = length ss"
  using sorted_filter_upt [of ss 32] bit_bitmap_of [of ss] by (simp add: count_ones_def cong: filter_cong)

lemma bitmap_of_eqI: "\<forall>s\<in>set ss. s < 32 \<Longrightarrow> (\<And>i. bit bm i \<longleftrightarrow> i \<in> set ss) \<Longrightarrow> bm = bitmap_of ss"
  by (simp add: bit_eq_iff bit_bitmap_of)

lemma bitmap_of_zero: "\<forall>s\<in>set ss. s < 32 \<Longrightarrow> bitmap_of ss = 0 \<longleftrightarrow> ss = []"
  using bit_bitmap_of [of ss "hd ss"] by (cases ss) (auto simp: bitmap_of_def)

text \<open>The position of a slot among the children.\<close>

definition slot_pos :: "nat \<Rightarrow> (nat \<times> 'a) list \<Rightarrow> nat" where
  "slot_pos s kids = length (takeWhile (\<lambda>p. fst p < s) kids)"

lemma takeWhile_lt: "sorted_wrt (<) ss \<Longrightarrow> takeWhile (\<lambda>x. x < s) ss = filter (\<lambda>x. x < (s :: nat)) ss"
proof (induction ss)
  case (Cons x ss)
  then have "x < s \<or> filter (\<lambda>y. y < s) ss = []" by (auto simp: filter_empty_conv)
  with Cons show ?case by auto
qed simp

lemma child_index_slot_pos:
  assumes "sorted_wrt (<) (map fst kids)" "\<forall>p\<in>set kids. fst p < 32" "s < 32"
  shows "child_index (bitmap_of (map fst kids)) s = slot_pos s kids"
proof -
  let ?ss = "map fst kids"
  have r: "\<forall>x\<in>set ?ss. x < 32" using assms(2) by auto
  have "filter (\<lambda>i. i \<in> set (filter (\<lambda>x. x < s) ?ss)) [0..<s] = filter (\<lambda>x. x < s) ?ss"
    using assms(1) by (intro sorted_filter_upt sorted_wrt_filter) auto
  moreover have "filter (bit (bitmap_of ?ss)) [0..<s] = filter (\<lambda>i. i \<in> set (filter (\<lambda>x. x < s) ?ss)) [0..<s]"
    by (rule filter_cong) (auto simp: bit_bitmap_of [OF r])
  ultimately have "child_index (bitmap_of ?ss) s = length (filter (\<lambda>x. x < s) ?ss)"
    by (simp add: child_index_eq [OF assms(3)])
  also have "\<dots> = slot_pos s kids"
    using takeWhile_lt [OF assms(1), of s, symmetric] by (simp add: slot_pos_def takeWhile_map comp_def)
  finally show ?thesis .
qed

lemma slot_pos_le: "slot_pos s kids \<le> length kids"
  by (simp add: slot_pos_def length_takeWhile_le)

lemma slot_pos_hit:
  assumes "sorted_wrt (<) (map fst kids)" "s \<in> set (map fst kids)"
  shows "slot_pos s kids < length kids \<and> fst (kids ! slot_pos s kids) = s"
proof -
  obtain us p vs where k: "kids = us @ p # vs" "fst p = s" using assms(2) by (auto dest: split_list)
  then have "\<forall>q\<in>set us. fst q < s" using assms(1) by (auto simp: sorted_wrt_append)
  then have "takeWhile (\<lambda>p. fst p < s) kids = us" using k by (simp add: takeWhile_append2)
  then show ?thesis using k by (simp add: slot_pos_def)
qed

subsection \<open>The encoding of a stored trie decodes to its root node\<close>

fun h_top :: "bigint_lib \<Rightarrow> htree \<Rightarrow> pmap_node" where
  "h_top L (HLeaf es) = PLeaf es"
| "h_top L (HNode kids) = PInner (bitmap_of (map fst kids)) (map (\<lambda>p. h_hash L (snd p)) kids)"

lemma h_bytes_in_cells: "h_bytes L T \<in> h_cells L T"
  by (cases T) auto

lemma h_child_height: "p \<in> set kids \<Longrightarrow> h_height (snd p) < h_height (HNode kids)"
  by (auto simp: less_Suc_eq_le intro!: Max_ge)

lemma h_decode:
  assumes "bigint_ok L" "h_wf L kt vt T"
  shows "deserialize_node L (h_bytes L T) kt vt = Got (h_top L T)"
proof (cases T)
  case (HLeaf es)
  then show ?thesis using assms decode_encode_leaf [OF assms(1), of kt vt es] by auto
next
  case (HNode kids)
  then have "length kids = count_ones (bitmap_of (map fst kids))"
    using assms(2) count_bitmap_of [of "map fst kids"] by simp
  then show ?thesis using HNode by (simp add: decode_encode_inner h_hash_def)
qed

abbreviation pm_holds :: "bigint_lib \<Rightarrow> bytes set \<Rightarrow> tx \<Rightarrow> bool" where
  "pm_holds \<equiv> holds pmap_cell_key"

lemma pm_read_stored:
  assumes "pm_holds L S t" "no_collision pmap_cell_key S" "h_wf L kt vt T" "h_cells L T \<subseteq> S"
  shows "\<exists>t'. pm_read_node L kt vt t (h_hash L T) = Some (Some (h_top L T), t') \<and> pm_holds L S t'"
proof -
  have b: "h_bytes L T \<in> S" using assms(4) h_bytes_in_cells by blast
  have "deserialize_node L (h_bytes L T) kt vt = Got (h_top L T)"
    using assms(1,3) h_decode by (simp add: holds_def)
  from holds_read [where dec = "\<lambda>b. deserialize_node L b kt vt", OF assms(1) b assms(2) this] show ?thesis
    by (simp add: pm_read_node_def h_hash_def)
qed

lemma h_hash_nonempty: "no_collision pmap_cell_key S \<Longrightarrow> h_cells L T \<subseteq> S \<Longrightarrow> h_hash L T \<noteq> EMPTY"
  using no_collision_key [of pmap_cell_key S "h_bytes L T"] h_bytes_in_cells [of L T] by (auto simp: h_hash_def)

text \<open>Leaves are stored in the order of their key bytes.\<close>

definition hleaf :: "bigint_lib \<Rightarrow> (val \<times> val) list \<Rightarrow> htree" where
  "hleaf L es = HLeaf (the (sort_entries L es))"

lemma sort_entries_ok:
  assumes "bigint_ok L" "list_all (entry_ok L kt vt) es"
  shows "\<exists>es'. sort_entries L es = Some es' \<and> mset es' = mset es \<and> sorted (map (key_bytes L) es')
     \<and> sort_entries L es' = Some es'"
proof -
  let ?z = "zip (map (key_bytes L) es) es"
  have m: "mapM (\<lambda>e. serialize L (fst e)) es = Some (map (key_bytes L) es)"
    using assms by (intro mapM_Some) (auto simp: list_all_iff key_bytes_def elim: entry_ok_bytes)
  then have s: "sort_entries L es = Some (map snd (sort_key fst ?z))" by (simp add: sort_entries_def)
  have keys: "\<forall>p\<in>set (sort_key fst ?z). fst p = key_bytes L (snd p)" by (auto simp: in_set_zip)
  have ms: "mset (map snd (sort_key fst ?z)) = mset es" by simp (simp flip: mset_map)
  have "map (key_bytes L) (map snd (sort_key fst ?z)) = map fst (sort_key fst ?z)"
    using keys by (simp del: set_sort)
  then have so: "sorted (map (key_bytes L) (map snd (sort_key fst ?z)))" by (simp only: sorted_sort_key)
  have "list_all (entry_ok L kt vt) (map snd (sort_key fst ?z))"
    using assms(2) mset_eq_setD [OF ms] by (simp only: list_all_iff)
  from sort_entries_sorted [OF assms(1) this so] s ms so show ?thesis by auto
qed

lemma hleaf_props:
  assumes "bigint_ok L" "list_all (entry_ok L kt vt) es"
  obtains es' where "hleaf L es = HLeaf es'" "sort_entries L es = Some es'" "mset es' = mset es"
    "serialize_leaf L es' = serialize_leaf L es" "sorted (map (key_bytes L) es')"
  using sort_entries_ok [OF assms] by (auto simp: hleaf_def serialize_leaf_def)

lemma hleaf_wf:
  assumes "bigint_ok L" "list_all (entry_ok L kt vt) es" "es \<noteq> []" "length es < 2 ^ 32"
  shows "h_wf L kt vt (hleaf L es)"
proof -
  from hleaf_props [OF assms(1,2)] obtain es' where es': "hleaf L es = HLeaf es'" "mset es' = mset es"
    "sorted (map (key_bytes L) es')" by metis
  then have "set es' = set es" "length es' = length es" by (auto dest: mset_eq_setD mset_eq_length)
  with es' assms show ?thesis by (auto simp: list_all_iff)
qed

lemma pm_write_leaf_stored:
  assumes "pm_holds L S t" "list_all (entry_ok L kt vt) es"
    and "no_collision pmap_cell_key (S \<union> h_cells L (hleaf L es))"
  shows "\<exists>t'. pm_write_leaf L t es = Some (h_hash L (hleaf L es), t') \<and> pm_holds L (S \<union> h_cells L (hleaf L es)) t'"
proof -
  have L: "bigint_ok L" using assms(1) by (simp add: holds_def)
  from hleaf_props [OF L assms(2)] obtain es' where es': "hleaf L es = HLeaf es'" "mset es' = mset es"
    "serialize_leaf L es' = serialize_leaf L es" "sorted (map (key_bytes L) es')" by metis
  have ok: "list_all (entry_ok L kt vt) es'" using assms(2) es'(2) by (metis list.pred_set mset_eq_setD)
  have "\<exists>b. serialize_leaf L es' = Some b"
    using entries_round_trip [OF L ok] sort_entries_sorted [OF L ok es'(4)] by (auto simp: serialize_leaf_def)
  then show ?thesis using holds_write [OF assms(1), of "h_bytes L (hleaf L es)"] assms(3) es'
    by (auto simp: pm_write_leaf_def pm_write_node_def h_hash_def)
qed

lemma pm_write_inner_stored:
  assumes "pm_holds L S t" "no_collision pmap_cell_key (insert (h_bytes L (HNode kids)) S)"
  shows "\<exists>t'. pm_write_inner L t (bitmap_of (map fst kids)) (map (\<lambda>p. h_hash L (snd p)) kids)
       = Some (h_hash L (HNode kids), t') \<and> pm_holds L (insert (h_bytes L (HNode kids)) S) t'"
  using holds_write [OF assms] by (simp add: pm_write_inner_def pm_write_node_def h_hash_def)

declare h_bytes.simps [simp del]

subsection \<open>The operations on tries in memory\<close>

definition hslot :: "bigint_lib \<Rightarrow> val \<Rightarrow> nat \<Rightarrow> nat" where
  "hslot L k level = bits_at (the (hash_key L k)) level"

fun hget :: "bigint_lib \<Rightarrow> htree \<Rightarrow> val \<Rightarrow> nat \<Rightarrow> val option" where
  "hget L (HLeaf es) key level = map_option snd (find (\<lambda>e. value_eq (fst e) key) es)"
| "hget L (HNode kids) key level = (let s = hslot L key level in
     if s \<in> set (map fst kids) then map (\<lambda>p. hget L (snd p) key (level + 1)) kids ! slot_pos s kids else None)"

definition hbuckets :: "bigint_lib \<Rightarrow> nat \<Rightarrow> (val \<times> val) list \<Rightarrow> (nat \<times> (val \<times> val) list) list" where
  "hbuckets L level es = map (\<lambda>s. (s, filter (\<lambda>e. hslot L (fst e) level = s) es))
     (filter (\<lambda>s. s \<in> (\<lambda>e. hslot L (fst e) level) ` set es) [0..<32])"

function hbuild :: "bigint_lib \<Rightarrow> (val \<times> val) list \<Rightarrow> nat \<Rightarrow> htree" where
  "hbuild L es level =
     (if length es = 1 \<or> level \<ge> MAX_LEVELS then hleaf L es
      else (let bs = hbuckets L level es in
        if length bs = 1 then hbuild L (snd (bs ! 0)) (level + 1)
        else HNode (map (\<lambda>b. (fst b, hbuild L (snd b) (level + 1))) bs)))"
  by pat_completeness auto
termination
  by (relation "measure (\<lambda>(L, es, level). MAX_LEVELS + 1 - level)") auto

declare hbuild.simps [simp del]

fun hset :: "bigint_lib \<Rightarrow> htree \<Rightarrow> val \<Rightarrow> val \<Rightarrow> nat \<Rightarrow> htree" where
  "hset L (HLeaf es) key v level =
     (case position (\<lambda>e. value_eq (fst e) key) es of
        Some idx \<Rightarrow> hleaf L (es[idx := (key, v)])
      | None \<Rightarrow> (if level \<ge> MAX_LEVELS then hleaf L (es @ [(key, v)]) else hbuild L (es @ [(key, v)]) level))"
| "hset L (HNode kids) key v level =
     (let s = hslot L key level; i = slot_pos s kids in
      if s \<in> set (map fst kids) then HNode (kids[i := (s, map (\<lambda>p. hset L (snd p) key v (level + 1)) kids ! i)])
      else HNode (insert_at i (s, HLeaf [(key, v)]) kids))"

fun hremove :: "bigint_lib \<Rightarrow> htree \<Rightarrow> val \<Rightarrow> nat \<Rightarrow> htree option \<times> bool" where
  "hremove L (HLeaf es) key level =
     (case position (\<lambda>e. value_eq (fst e) key) es of
        None \<Rightarrow> (Some (HLeaf es), False)
      | Some idx \<Rightarrow> (if remove_at idx es = [] then (None, True) else (Some (HLeaf (remove_at idx es)), True)))"
| "hremove L (HNode kids) key level =
     (let s = hslot L key level; i = slot_pos s kids in
      if s \<in> set (map fst kids) then
        (case map (\<lambda>p. hremove L (snd p) key (level + 1)) kids ! i of
           (_, False) \<Rightarrow> (Some (HNode kids), False)
         | (None, True) \<Rightarrow> (if remove_at i kids = [] then (None, True) else (Some (HNode (remove_at i kids)), True))
         | (Some c, True) \<Rightarrow> (Some (HNode (kids[i := (s, c)])), True))
      else (Some (HNode kids), False))"

fun hentries :: "htree \<Rightarrow> (val \<times> val) list" where
  "hentries (HLeaf es) = es"
| "hentries (HNode kids) = concat (map (\<lambda>p. hentries (snd p)) kids)"

subsection \<open>Buckets\<close>

lemma hash_key_ok: "bigint_ok L \<Longrightarrow> entry_ok L kt vt e \<Longrightarrow> \<exists>h. hash_key L (fst e) = Some h"
  by (auto simp: hash_key_def elim: entry_ok_bytes)

lemma by_slot_eq:
  assumes "bigint_ok L" "list_all (entry_ok L kt vt) es"
  shows "by_slot L level es = Some (hbuckets L level es)"
proof -
  have "mapM (\<lambda>e. hash_key L (fst e)) es = Some (map (\<lambda>e. the (hash_key L (fst e))) es)"
    using assms hash_key_ok by (intro mapM_Some) (fastforce simp: list_all_iff)
  moreover have "map snd (filter (\<lambda>p. fst p = s) (zip (map f es) es)) = filter (\<lambda>e. f e = s) es"
    for s and f :: "val \<times> val \<Rightarrow> nat" by (induction es) auto
  moreover have "fst ` set (zip (map f es) es) = f ` set es" for f :: "val \<times> val \<Rightarrow> nat"
    by (metis length_map list.set_map map_fst_zip)
  ultimately show ?thesis by (simp add: by_slot_def hbuckets_def hslot_def comp_def cong: map_cong)
qed

lemma hbuckets_sorted: "sorted_wrt (<) (map fst (hbuckets L level es))"
  by (simp add: hbuckets_def comp_def sorted_wrt_filter)

lemma hbuckets_props:
  "b \<in> set (hbuckets L level es) \<Longrightarrow> fst b < 32"
  "b \<in> set (hbuckets L level es) \<Longrightarrow> snd b \<noteq> []" "b \<in> set (hbuckets L level es) \<Longrightarrow> set (snd b) \<subseteq> set es"
  "b \<in> set (hbuckets L level es) \<Longrightarrow> length (snd b) \<le> length es"
  by (force simp: hbuckets_def comp_def sorted_wrt_filter filter_empty_conv)+

lemma hbuckets_nonempty: "es \<noteq> [] \<Longrightarrow> hbuckets L level es \<noteq> []"
  using bits_at_less by (fastforce simp: hbuckets_def filter_empty_conv hslot_def neq_Nil_conv)

lemma hbuild_wf:
  assumes "bigint_ok L" "list_all (entry_ok L kt vt) es" "es \<noteq> []" "length es < 2 ^ 32"
  shows "h_wf L kt vt (hbuild L es level)"
  using assms
proof (induction L es level rule: hbuild.induct)
  case (1 L es level)
  let ?bs = "hbuckets L level es"
  show ?case
  proof (cases "length es = 1 \<or> level \<ge> MAX_LEVELS")
    case True
    then show ?thesis using "1.prems" hleaf_wf by (simp add: hbuild.simps [of L es level])
  next
    case False
    have b: "list_all (entry_ok L kt vt) (snd b)" "snd b \<noteq> []" "length (snd b) < 2 ^ 32" if "b \<in> set ?bs" for b
      using that "1.prems" hbuckets_props [of b L level es] list_all_sub by (auto simp del: length_greater_0_conv)
    show ?thesis
    proof (cases "length ?bs = 1")
      case one: True
      then have "?bs ! 0 \<in> set ?bs" by simp
      then show ?thesis using "1.IH"(1) [OF False refl one] "1.prems"(1) b one False
        by (simp add: hbuild.simps [of L es level])
    next
      case many: False
      have "h_wf L kt vt (hbuild L (snd b) (level + 1))" if "b \<in> set ?bs" for b
        using "1.IH"(2) [OF False refl many that] "1.prems"(1) b [OF that] by simp
      then show ?thesis using False many hbuckets_props(1) hbuckets_sorted [of L level es] hbuckets_nonempty [OF "1.prems"(3)]
        by (auto simp: hbuild.simps [of L es level] Let_def list_all_iff comp_def)
    qed
  qed
qed

lemma pm_build_children_refines:
  assumes "\<And>b t S. b \<in> set bs \<Longrightarrow> pm_holds L S t \<Longrightarrow> no_collision pmap_cell_key (S \<union> h_cells L (g b)) \<Longrightarrow>
     \<exists>t'. pm_build L t (snd b) level = Some (h_hash L (g b), t') \<and> pm_holds L (S \<union> h_cells L (g b)) t'"
    and "pm_holds L S t" "no_collision pmap_cell_key (S \<union> (\<Union>b\<in>set bs. h_cells L (g b)))"
  shows "\<exists>t'. pm_build_children L t bs level = Some (map (\<lambda>b. h_hash L (g b)) bs, t')
     \<and> pm_holds L (S \<union> (\<Union>b\<in>set bs. h_cells L (g b))) t'"
  using assms
proof (induction bs arbitrary: S t)
  case Nil
  then show ?case by simp
next
  case (Cons b bs)
  have "no_collision pmap_cell_key (S \<union> h_cells L (g b))"
    using Cons.prems(3) by (rule no_collision_subset) auto
  then obtain t1 where t1: "pm_build L t (snd b) level = Some (h_hash L (g b), t1)"
    "pm_holds L (S \<union> h_cells L (g b)) t1" using Cons.prems(1) [of b] Cons.prems(2) by auto
  have "\<exists>t'. pm_build_children L t1 bs level = Some (map (\<lambda>b. h_hash L (g b)) bs, t')
     \<and> pm_holds L ((S \<union> h_cells L (g b)) \<union> (\<Union>b\<in>set bs. h_cells L (g b))) t'"
    by (rule Cons.IH [OF _ t1(2)]) (use Cons.prems in \<open>auto simp: Un_assoc\<close>)
  then show ?case using t1 by (auto simp: Un_assoc)
qed

lemma pm_build_refines:
  assumes "pm_holds L S t" "list_all (entry_ok L kt vt) es" "es \<noteq> []" "length es < 2 ^ 32"
    and "no_collision pmap_cell_key (S \<union> h_cells L (hbuild L es level))"
  shows "\<exists>t'. pm_build L t es level = Some (h_hash L (hbuild L es level), t')
     \<and> pm_holds L (S \<union> h_cells L (hbuild L es level)) t'"
  using assms
proof (induction L es level arbitrary: S t rule: hbuild.induct)
  case (1 L es level)
  let ?bs = "hbuckets L level es"
  have L: "bigint_ok L" using "1.prems"(1) by (simp add: holds_def)
  show ?case
  proof (cases "length es = 1 \<or> level \<ge> MAX_LEVELS")
    case True
    then show ?thesis using "1.prems" pm_write_leaf_stored [OF "1.prems"(1,2)]
      by (simp add: hbuild.simps [of L es level] pm_build.simps [of L t es level])
  next
    case False
    have b: "list_all (entry_ok L kt vt) (snd b)" "snd b \<noteq> []" "length (snd b) < 2 ^ 32" if "b \<in> set ?bs" for b
      using that "1.prems" hbuckets_props [of b L level es] list_all_sub by (auto simp del: length_greater_0_conv)
    note bs = by_slot_eq [OF L "1.prems"(2), of level]
    show ?thesis
    proof (cases "length ?bs = 1")
      case one: True
      then have m: "?bs ! 0 \<in> set ?bs" by simp
      have T: "hbuild L es level = hbuild L (snd (?bs ! 0)) (level + 1)"
        using False one by (simp add: hbuild.simps [of L es level])
      show ?thesis using "1.IH"(1) [OF False refl one "1.prems"(1) b [OF m]] "1.prems"(3,5) one False bs
        by (simp add: T pm_build.simps [of L t es level])
    next
      case many: False
      let ?g = "\<lambda>b. hbuild L (snd b) (level + 1)"
      let ?T = "HNode (map (\<lambda>b. (fst b, ?g b)) ?bs)"
      have T: "hbuild L es level = ?T" using False many by (simp add: hbuild.simps [of L es level] Let_def)
      have cells: "h_cells L ?T = insert (h_bytes L ?T) (\<Union>b\<in>set ?bs. h_cells L (?g b))" by simp
      have "\<exists>t'. pm_build_children L t ?bs (level + 1) = Some (map (\<lambda>b. h_hash L (?g b)) ?bs, t')
         \<and> pm_holds L (S \<union> (\<Union>b\<in>set ?bs. h_cells L (?g b))) t'"
      proof (rule pm_build_children_refines [OF _ "1.prems"(1)])
        show "no_collision pmap_cell_key (S \<union> (\<Union>b\<in>set ?bs. h_cells L (?g b)))"
          by (rule no_collision_subset [OF "1.prems"(5)]) (auto simp: T)
      qed (use "1.IH"(2) [OF False refl many] b in blast)
      then obtain t1 where t1: "pm_build_children L t ?bs (level + 1) = Some (map (\<lambda>b. h_hash L (?g b)) ?bs, t1)"
        "pm_holds L (S \<union> (\<Union>b\<in>set ?bs. h_cells L (?g b))) t1" by blast
      have "no_collision pmap_cell_key (insert (h_bytes L ?T) (S \<union> (\<Union>b\<in>set ?bs. h_cells L (?g b))))"
        by (rule no_collision_subset [OF "1.prems"(5)]) (auto simp: T)
      from pm_write_inner_stored [OF t1(2) this] t1(1) "1.prems"(3) False many bs cells show ?thesis
        by (simp add: T pm_build.simps [of L t es level] comp_def)
    qed
  qed
qed

subsection \<open>Lookups and walks refine\<close>

lemma hslot_less: "hslot L k level < 32"
  by (simp add: hslot_def bits_at_less)

lemma h_wf_slots:
  assumes "h_wf L kt vt (HNode kids)" "s < 32"
  shows "bitmap_of (map fst kids) AND slot_bit s = 0 \<longleftrightarrow> s \<notin> set (map fst kids)"
    and "child_index (bitmap_of (map fst kids)) s = slot_pos s kids"
  using assms and_slot_bit [OF assms(2)] bit_bitmap_of [of "map fst kids"] child_index_slot_pos [of kids s] by auto

lemma h_wf_kid:
  assumes "h_wf L kt vt (HNode kids)" "s \<in> set (map fst kids)"
  shows "slot_pos s kids < length kids" "kids ! slot_pos s kids \<in> set kids"
    "h_wf L kt vt (snd (kids ! slot_pos s kids))" "fst (kids ! slot_pos s kids) = s"
proof -
  have "sorted_wrt (<) (map fst kids)" using assms(1) by simp
  from slot_pos_hit [OF this assms(2)] show p: "slot_pos s kids < length kids" and "fst (kids ! slot_pos s kids) = s" by auto
  then show "kids ! slot_pos s kids \<in> set kids" by simp
  then show "h_wf L kt vt (snd (kids ! slot_pos s kids))" using assms(1) by (auto simp: list_all_iff)
qed

lemma pm_get_at_refines:
  assumes "pm_holds L S t" "no_collision pmap_cell_key S" "h_wf L kt vt T" "h_cells L T \<subseteq> S" "h_height T < n"
    and "hash_key L key = Some h"
  shows "\<exists>t'. pm_get_at n L kt vt t (h_hash L T) key h level = Some (hget L T key level, t') \<and> pm_holds L S t'"
  using assms(1-5)
proof (induction n arbitrary: T t level)
  case 0
  then show ?case by simp
next
  case (Suc n)
  obtain t1 where t1: "pm_read_node L kt vt t (h_hash L T) = Some (Some (h_top L T), t1)" "pm_holds L S t1"
    using pm_read_stored [OF Suc.prems(1-4)] by blast
  show ?case
  proof (cases T)
    case (HLeaf es)
    with t1 show ?thesis by simp
  next
    case (HNode kids)
    let ?s = "bits_at h level"
    have s: "hslot L key level = ?s" using assms(6) by (simp add: hslot_def)
    have wf: "h_wf L kt vt (HNode kids)" using Suc.prems(3) HNode by simp
    note sl = h_wf_slots [OF wf bits_at_less, of h level]
    show ?thesis
    proof (cases "?s \<in> set (map fst kids)")
      case False
      then show ?thesis using t1 HNode sl s by (simp add: Let_def)
    next
      case True
      note kid = h_wf_kid [OF wf True]
      have "h_cells L (snd (kids ! slot_pos ?s kids)) \<subseteq> S" "h_height (snd (kids ! slot_pos ?s kids)) < n"
        using Suc.prems(4,5) HNode kid(2) h_child_height [OF kid(2)] by auto
      from Suc.IH [OF t1(2) Suc.prems(2) kid(3) this, of "level + 1"] show ?thesis
        using t1(1) HNode sl s True kid(1) by (auto simp: Let_def)
    qed
  qed
qed

lemma pm_collect_refines:
  assumes "pm_holds L S t" "no_collision pmap_cell_key S" "h_wf L kt vt T" "h_cells L T \<subseteq> S" "h_height T < n"
  shows "\<exists>t'. pm_collect_entries n L kt vt t (h_hash L T) = Some (hentries T, t') \<and> pm_holds L S t'"
  using assms
proof (induction n arbitrary: T t)
  case 0
  then show ?case by simp
next
  case (Suc n)
  obtain t1 where t1: "pm_read_node L kt vt t (h_hash L T) = Some (Some (h_top L T), t1)" "pm_holds L S t1"
    using pm_read_stored [OF Suc.prems(1-4)] by blast
  show ?case
  proof (cases T)
    case (HLeaf es)
    with t1 show ?thesis by simp
  next
    case (HNode kids)
    have "\<exists>t'. pm_collect_entries n L kt vt t (h_hash L (snd p)) = Some (hentries (snd p), t') \<and> pm_holds L S t'"
      if "p \<in> set kids" "pm_holds L S t" for p t
      by (rule Suc.IH [OF that(2) Suc.prems(2)])
         (use Suc.prems HNode that h_child_height [OF that(1)] in \<open>auto simp: list_all_iff\<close>)
    from visit_all_refines [where h = "\<lambda>p. h_hash L (snd p)" and f = "pm_collect_entries n L kt vt", OF this t1(2)]
    show ?thesis using HNode t1(1) by auto
  qed
qed

subsection \<open>Updates refine\<close>

lemma bitmap_insert:
  assumes "h_wf L kt vt (HNode kids)" "s < 32"
  shows "bitmap_of (map fst kids) OR slot_bit s = bitmap_of (map fst (insert_at i (s, c) kids))"
  using assms by (intro bitmap_of_eqI) (auto simp: bit_simps bit_slot_bit bit_bitmap_of set_insert_at)

lemma hset_hit:
  "s = hslot L key level \<Longrightarrow> s \<in> set (map fst kids) \<Longrightarrow> slot_pos s kids < length kids \<Longrightarrow>
   hset L (HNode kids) key v level
     = HNode (kids[slot_pos s kids := (s, hset L (snd (kids ! slot_pos s kids)) key v (level + 1))])"
  by (simp add: Let_def)

lemma hset_miss:
  "s = hslot L key level \<Longrightarrow> s \<notin> set (map fst kids) \<Longrightarrow>
   hset L (HNode kids) key v level = HNode (insert_at (slot_pos s kids) (s, HLeaf [(key, v)]) kids)"
  by (simp add: Let_def)

declare hset.simps(2) [simp del]

lemma hset_cells:
  assumes "s = hslot L key level" "s \<in> set (map fst kids)" "slot_pos s kids < length kids"
  shows "h_cells L (hset L (snd (kids ! slot_pos s kids)) key v (level + 1)) \<subseteq> h_cells L (hset L (HNode kids) key v level)"
proof -
  let ?p = "(s, hset L (snd (kids ! slot_pos s kids)) key v (level + 1))"
  have "?p \<in> set (kids[slot_pos s kids := ?p])" using assms(3) by (rule set_update_memI)
  then show ?thesis unfolding hset_hit [OF assms] by (force simp del: h_bytes.simps)
qed

lemma hleaf_single: "bigint_ok L \<Longrightarrow> entry_ok L kt vt e \<Longrightarrow> hleaf L [e] = HLeaf [e]"
  using sort_entries_sorted [of L kt vt "[e]"] by (simp add: hleaf_def)

lemma pm_set_leaf_refines:
  assumes "pm_holds L S t" "h_wf L kt vt (HLeaf es)" "entry_ok L kt vt (k, v)" "length es + 1 < 2 ^ 32"
    and "pm_read_node L kt vt t (h_hash L (HLeaf es)) = Some (Some (PLeaf es), t1)" "pm_holds L S t1"
    and "h_hash L (HLeaf es) \<noteq> EMPTY"
    and "no_collision pmap_cell_key (S \<union> h_cells L (hset L (HLeaf es) k v level))"
  shows "\<exists>t'. pm_set_at (Suc n) L kt vt t (h_hash L (HLeaf es)) k v h level
       = Some (h_hash L (hset L (HLeaf es) k v level), t') \<and> pm_holds L (S \<union> h_cells L (hset L (HLeaf es) k v level)) t'"
proof -
  have L: "bigint_ok L" using assms(1) by (simp add: holds_def)
  have es: "list_all (entry_ok L kt vt) es" "es \<noteq> []" using assms(2) by auto
  have wr: "\<exists>t'. do { es' \<leftarrow> sort_entries L xs; pm_write_leaf L t1 es' } = Some (h_hash L (hleaf L xs), t')
      \<and> pm_holds L (S \<union> h_cells L (hleaf L xs)) t'"
    if ok: "list_all (entry_ok L kt vt) xs" and nc: "no_collision pmap_cell_key (S \<union> h_cells L (hleaf L xs))" for xs
  proof -
    from hleaf_props [OF L ok] obtain xs' where xs': "sort_entries L xs = Some xs'"
      "serialize_leaf L xs' = serialize_leaf L xs" by metis
    then have "pm_write_leaf L t1 xs' = pm_write_leaf L t1 xs" by (simp add: pm_write_leaf_def)
    then show ?thesis using pm_write_leaf_stored [OF assms(6) ok nc] xs' by simp
  qed
  show ?thesis
  proof (cases "position (\<lambda>e. value_eq (fst e) k) es")
    case (Some idx)
    have "list_all (entry_ok L kt vt) (es[idx := (k, v)])"
      using es(1) assms(3) set_update_subset_insert [of es idx "(k, v)"] by (auto simp: list_all_iff)
    from wr [OF this] show ?thesis using assms(5,7,8) Some by simp
  next
    case None
    have ok: "list_all (entry_ok L kt vt) (es @ [(k, v)])" using es(1) assms(3) by (simp add: list_all_iff)
    show ?thesis
    proof (cases "level \<ge> MAX_LEVELS")
      case True
      from wr [OF ok] show ?thesis using assms(5,7,8) None es(2) True by simp
    next
      case False
      from pm_build_refines [OF assms(6) ok, of level] show ?thesis using assms(4,5,7,8) None es(2) False by simp
    qed
  qed
qed

lemma hentries_kid_length: "p \<in> set kids \<Longrightarrow> length (hentries (snd p)) \<le> length (hentries (HNode kids))"
  by (auto simp: length_concat intro: member_le_sum_list)

lemma map_update_snd: "map (\<lambda>p. f (snd p)) (kids[i := (s, c)]) = (map (\<lambda>p. f (snd p)) kids)[i := f c]"
  by (simp add: map_update)

lemma map_update_fst:
  "i < length kids \<Longrightarrow> fst (kids ! i) = s \<Longrightarrow> map fst (kids[i := (s, c)]) = map fst kids"
  by (simp add: map_update list_update_same_conv)

lemma h_cells_update:
  assumes "T = HNode (kids[i := (s, c)])" "i < length kids" "h_cells L (HNode kids) \<subseteq> S"
  shows "insert (h_bytes L T) (S \<union> h_cells L c) = S \<union> h_cells L T"
proof
  have "(s, c) \<in> set (kids[i := (s, c)])" using assms(2) by (rule set_update_memI)
  then show "insert (h_bytes L T) (S \<union> h_cells L c) \<subseteq> S \<union> h_cells L T" using assms(1) by force
  show "S \<union> h_cells L T \<subseteq> insert (h_bytes L T) (S \<union> h_cells L c)"
    using assms(1,3) set_update_subset_insert [of kids i "(s, c)"] by fastforce
qed

text \<open>Replacing the child of a slot and rewriting the node above it.\<close>

lemma pm_write_update_stored:
  assumes "pm_holds L S t" "h_wf L kt vt (HNode kids)" "s \<in> set (map fst kids)" "T = HNode (kids[slot_pos s kids := (s, c)])"
    and "no_collision pmap_cell_key (insert (h_bytes L T) S)"
  shows "\<exists>t'. pm_write_inner L t (bitmap_of (map fst kids)) ((map (\<lambda>p. h_hash L (snd p)) kids)[slot_pos s kids := h_hash L c])
       = Some (h_hash L T, t') \<and> pm_holds L (insert (h_bytes L T) S) t'"
proof -
  let ?ks = "kids[slot_pos s kids := (s, c)]"
  note kid = h_wf_kid [OF assms(2,3)]
  have "bitmap_of (map fst ?ks) = bitmap_of (map fst kids)" using map_update_fst [OF kid(1,4)] by simp
  then show ?thesis using pm_write_inner_stored [of L S t ?ks] assms(1,4,5) by (simp add: map_update_snd)
qed

lemma pm_set_node_refines:
  assumes "pm_holds L S t" "h_wf L kt vt (HNode kids)" "h_cells L (HNode kids) \<subseteq> S"
    and key: "hash_key L key = Some h" "entry_ok L kt vt (key, v)"
    and rd: "pm_read_node L kt vt t (h_hash L (HNode kids)) = Some (Some (h_top L (HNode kids)), t1)" "pm_holds L S t1"
    and nc: "no_collision pmap_cell_key (S \<union> h_cells L (hset L (HNode kids) key v level))"
    and IH: "\<And>p. p \<in> set kids \<Longrightarrow> no_collision pmap_cell_key (S \<union> h_cells L (hset L (snd p) key v (level + 1))) \<Longrightarrow>
      \<exists>t'. pm_set_at n L kt vt t1 (h_hash L (snd p)) key v h (level + 1) = Some (h_hash L (hset L (snd p) key v (level + 1)), t')
        \<and> pm_holds L (S \<union> h_cells L (hset L (snd p) key v (level + 1))) t'"
  shows "\<exists>t'. pm_set_at (Suc n) L kt vt t (h_hash L (HNode kids)) key v h level = Some (h_hash L (hset L (HNode kids) key v level), t')
     \<and> pm_holds L (S \<union> h_cells L (hset L (HNode kids) key v level)) t'"
proof -
  let ?s = "hslot L key level" and ?T = "hset L (HNode kids) key v level"
  have L: "bigint_ok L" using assms(1) by (simp add: holds_def)
  have s: "bits_at h level = ?s" using key(1) by (simp add: hslot_def)
  note sl = h_wf_slots [OF assms(2) hslot_less [of L key level]]
  have ne: "h_hash L (HNode kids) \<noteq> EMPTY"
    using h_hash_nonempty [OF _ assms(3)] no_collision_subset [OF nc] by blast
  show ?thesis
  proof (cases "?s \<in> set (map fst kids)")
    case False
    let ?l = "HLeaf [(key, v)]"
    have T: "?T = HNode (insert_at (slot_pos ?s kids) (?s, ?l) kids)" by (rule hset_miss [OF refl False])
    have l: "hleaf L [(key, v)] = ?l" using hleaf_single [OF L key(2)] .
    have cells: "h_cells L ?T = insert (h_bytes L ?T) (h_cells L ?l \<union> (\<Union>p\<in>set kids. h_cells L (snd p)))"
      by (auto simp: T set_insert_at slot_pos_le)
    have "no_collision pmap_cell_key (S \<union> h_cells L (hleaf L [(key, v)]))"
      by (rule no_collision_subset [OF nc]) (use cells l in auto)
    then obtain t2 where t2: "pm_write_leaf L t1 [(key, v)] = Some (h_hash L ?l, t2)" "pm_holds L (S \<union> h_cells L ?l) t2"
      using pm_write_leaf_stored [OF rd(2), of kt vt "[(key, v)]"] key(2) l by auto
    have "no_collision pmap_cell_key (insert (h_bytes L ?T) (S \<union> h_cells L ?l))"
      by (rule no_collision_subset [OF nc]) (auto simp: cells)
    from pm_write_inner_stored [OF t2(2) this [unfolded T]] obtain t3 where
      "pm_write_inner L t2 (bitmap_of (map fst kids) OR slot_bit ?s) (insert_at (slot_pos ?s kids) (h_hash L ?l) (map (\<lambda>p. h_hash L (snd p)) kids))
         = Some (h_hash L ?T, t3)" "pm_holds L (insert (h_bytes L ?T) (S \<union> h_cells L ?l)) t3"
      using bitmap_insert [OF assms(2) hslot_less] by (auto simp: T map_update_insert_at)
    moreover have "insert (h_bytes L ?T) (S \<union> h_cells L ?l) = S \<union> h_cells L ?T" using assms(3) by (auto simp: cells)
    ultimately show ?thesis using rd(1) t2(1) ne s sl False by (simp add: Let_def)
  next
    case True
    note kid = h_wf_kid [OF assms(2) True]
    let ?i = "slot_pos ?s kids"
    let ?c = "hset L (snd (kids ! ?i)) key v (level + 1)"
    have T: "?T = HNode (kids[?i := (?s, ?c)])" by (rule hset_hit [OF refl True kid(1)])
    have sub: "h_cells L ?c \<subseteq> h_cells L ?T" by (rule hset_cells [OF refl True kid(1)])
    obtain t2 where t2: "pm_set_at n L kt vt t1 (h_hash L (snd (kids ! ?i))) key v h (level + 1) = Some (h_hash L ?c, t2)"
      "pm_holds L (S \<union> h_cells L ?c) t2" using IH [OF kid(2) no_collision_subset [OF nc]] sub by blast
    have "no_collision pmap_cell_key (insert (h_bytes L ?T) (S \<union> h_cells L ?c))"
      by (rule no_collision_subset [OF nc]) (use sub h_bytes_in_cells in blast)
    from pm_write_update_stored [OF t2(2) assms(2) True T this] t2(1) rd(1) ne s sl True kid(1)
    have "\<exists>t'. pm_set_at (Suc n) L kt vt t (h_hash L (HNode kids)) key v h level = Some (h_hash L ?T, t')
       \<and> pm_holds L (insert (h_bytes L ?T) (S \<union> h_cells L ?c)) t'" by (simp add: Let_def)
    then show ?thesis unfolding h_cells_update [OF T kid(1) assms(3)] .
  qed
qed

lemma pm_set_at_refines:
  assumes "pm_holds L S t" "h_wf L kt vt T" "h_cells L T \<subseteq> S" "h_height T < n" "length (hentries T) + 1 < 2 ^ 32"
    and key: "hash_key L key = Some h" "entry_ok L kt vt (key, v)"
    and "no_collision pmap_cell_key (S \<union> h_cells L (hset L T key v level))"
  shows "\<exists>t'. pm_set_at n L kt vt t (h_hash L T) key v h level = Some (h_hash L (hset L T key v level), t')
     \<and> pm_holds L (S \<union> h_cells L (hset L T key v level)) t'"
  using assms(1-5,8)
proof (induction n arbitrary: T t level)
  case 0
  then show ?case by simp
next
  case (Suc n)
  have ncS: "no_collision pmap_cell_key S" using Suc.prems(6) by (rule no_collision_subset) auto
  obtain t1 where t1: "pm_read_node L kt vt t (h_hash L T) = Some (Some (h_top L T), t1)" "pm_holds L S t1"
    using pm_read_stored [OF Suc.prems(1) ncS Suc.prems(2,3)] by blast
  show ?case
  proof (cases T)
    case (HLeaf es)
    then show ?thesis using pm_set_leaf_refines [of L S t kt vt es key v] Suc.prems t1 key(2)
        h_hash_nonempty [OF ncS Suc.prems(3)] by simp
  next
    case (HNode kids)
    show ?thesis unfolding HNode
    proof (rule pm_set_node_refines [OF Suc.prems(1) _ _ key _ t1(2)])
      fix p assume p: "p \<in> set kids"
        and nc: "no_collision pmap_cell_key (S \<union> h_cells L (hset L (snd p) key v (level + 1)))"
      show "\<exists>t'. pm_set_at n L kt vt t1 (h_hash L (snd p)) key v h (level + 1) = Some (h_hash L (hset L (snd p) key v (level + 1)), t')
        \<and> pm_holds L (S \<union> h_cells L (hset L (snd p) key v (level + 1))) t'"
        using Suc.prems p HNode hentries_kid_length [OF p] h_child_height [OF p]
        by (intro Suc.IH [OF t1(2) _ _ _ _ nc]) (auto simp: list_all_iff simp del: hentries.simps)
    qed (use Suc.prems t1 HNode in auto)
  qed
qed

subsection \<open>Removals refine\<close>

definition h_root :: "bigint_lib \<Rightarrow> htree option \<Rightarrow> u128" where
  "h_root L T = (case T of None \<Rightarrow> EMPTY | Some t \<Rightarrow> h_hash L t)"

definition h_stored :: "bigint_lib \<Rightarrow> htree option \<Rightarrow> bytes set" where
  "h_stored L T = (case T of None \<Rightarrow> {} | Some t \<Rightarrow> h_cells L t)"

lemmas h_root_simps [simp] = h_root_def h_stored_def

lemma hremove_node:
  "s = hslot L key level \<Longrightarrow> s \<in> set (map fst kids) \<Longrightarrow> slot_pos s kids < length kids \<Longrightarrow>
   hremove L (HNode kids) key level =
     (case hremove L (snd (kids ! slot_pos s kids)) key (level + 1) of
        (_, False) \<Rightarrow> (Some (HNode kids), False)
      | (None, True) \<Rightarrow> (if remove_at (slot_pos s kids) kids = [] then (None, True)
                         else (Some (HNode (remove_at (slot_pos s kids) kids)), True))
      | (Some c, True) \<Rightarrow> (Some (HNode (kids[slot_pos s kids := (s, c)])), True))"
  "s = hslot L key level \<Longrightarrow> s \<notin> set (map fst kids) \<Longrightarrow> hremove L (HNode kids) key level = (Some (HNode kids), False)"
  by (auto simp: Let_def)

declare hremove.simps(2) [simp del]

lemma hremove_unfound: "hremove L T key level = (R, False) \<Longrightarrow> R = Some T"
proof (cases T)
  case (HLeaf es)
  then show "hremove L T key level = (R, False) \<Longrightarrow> ?thesis" by (auto split: option.splits if_splits)
next
  case (HNode kids)
  then show "hremove L T key level = (R, False) \<Longrightarrow> ?thesis"
    by (auto simp: hremove.simps Let_def split: if_splits prod.splits bool.splits option.splits)
qed

lemma bitmap_remove:
  assumes "h_wf L kt vt (HNode kids)" "s \<in> set (map fst kids)"
  shows "bitmap_of (map fst kids) AND NOT (slot_bit s) = bitmap_of (map fst (remove_at (slot_pos s kids) kids))"
proof (rule bitmap_of_eqI)
  let ?i = "slot_pos s kids"
  note kid = h_wf_kid [OF assms]
  have r: "\<forall>x\<in>set (map fst kids). x < 32" and so: "sorted_wrt (<) (map fst kids)" using assms(1) by auto
  have sp: "map fst kids = map fst (take ?i kids) @ s # map fst (drop (Suc ?i) kids)"
    using id_take_nth_drop [OF kid(1)] kid(4) by (metis list.simps(9) map_append)
  have m: "fst ` set (remove_at ?i kids) = set (map fst kids) - {s}"
    using so unfolding set_map [symmetric] remove_at_def map_append sp by (auto simp: sorted_wrt_append)
  then show "\<forall>x\<in>set (map fst (remove_at ?i kids)). x < 32" using r by auto
  have "s < 32" using assms(2) r by auto
  then show "bit (bitmap_of (map fst kids) AND NOT (slot_bit s)) j = (j \<in> set (map fst (remove_at ?i kids)))" for j
    using r bit_imp_le_length [of "bitmap_of (map fst kids)" j]
    by (auto simp: bit_simps bit_slot_bit bit_bitmap_of m)
qed

lemma sorted_remove_at: "sorted xs \<Longrightarrow> sorted (remove_at i xs)"
proof (cases "i < length xs")
  case True
  then show "sorted xs \<Longrightarrow> ?thesis"
    by (subst (asm) id_take_nth_drop [OF True]) (auto simp: remove_at_def sorted_append)
qed (simp add: remove_at_def)

lemma pm_remove_leaf_refines:
  assumes "pm_holds L S t" "h_wf L kt vt (HLeaf es)"
    and rd: "pm_read_node L kt vt t (h_hash L (HLeaf es)) = Some (Some (PLeaf es), t1)" "pm_holds L S t1"
    and res: "hremove L (HLeaf es) key level = (R, found)"
    and nc: "no_collision pmap_cell_key (S \<union> h_stored L R)" and sub: "h_cells L (HLeaf es) \<subseteq> S"
  shows "\<exists>t'. pm_remove_at (Suc n) L kt vt t (h_hash L (HLeaf es)) key h level = Some ((h_root L R, found), t')
     \<and> pm_holds L (S \<union> h_stored L R) t'"
proof (cases "position (\<lambda>e. value_eq (fst e) key) es")
  case None
  then show ?thesis using rd res sub by (auto simp: insert_absorb)
next
  case (Some idx)
  let ?es = "remove_at idx es"
  have L: "bigint_ok L" using assms(1) by (simp add: holds_def)
  show ?thesis
  proof (cases "?es = []")
    case True
    then show ?thesis using Some rd res by auto
  next
    case False
    have es: "list_all (entry_ok L kt vt) es" "sorted (map (key_bytes L) es)" using assms(2) by auto
    have ok: "list_all (entry_ok L kt vt) ?es" using es(1) set_remove_at by (rule list_all_sub)
    have "map (key_bytes L) ?es = remove_at idx (map (key_bytes L) es)" by (simp add: remove_at_map)
    then have so: "sorted (map (key_bytes L) ?es)" using sorted_remove_at [OF es(2)] by simp
    have "hleaf L ?es = HLeaf ?es" using sort_entries_sorted [OF L ok so] by (simp add: hleaf_def)
    then show ?thesis using pm_write_leaf_stored [OF rd(2) ok] Some False rd res nc by auto
  qed
qed

lemma pm_remove_node_refines:
  assumes "pm_holds L S t" "h_wf L kt vt (HNode kids)" "h_cells L (HNode kids) \<subseteq> S" "no_collision pmap_cell_key S"
    and key: "hash_key L key = Some h"
    and rd: "pm_read_node L kt vt t (h_hash L (HNode kids)) = Some (Some (h_top L (HNode kids)), t1)" "pm_holds L S t1"
    and res: "hremove L (HNode kids) key level = (R, found)"
    and nc: "no_collision pmap_cell_key (S \<union> h_stored L R)"
    and IH: "\<And>p R found. p \<in> set kids \<Longrightarrow> hremove L (snd p) key (level + 1) = (R, found) \<Longrightarrow>
      no_collision pmap_cell_key (S \<union> h_stored L R) \<Longrightarrow>
      \<exists>t'. pm_remove_at n L kt vt t1 (h_hash L (snd p)) key h (level + 1) = Some ((h_root L R, found), t')
        \<and> pm_holds L (S \<union> h_stored L R) t'"
  shows "\<exists>t'. pm_remove_at (Suc n) L kt vt t (h_hash L (HNode kids)) key h level = Some ((h_root L R, found), t')
     \<and> pm_holds L (S \<union> h_stored L R) t'"
proof -
  let ?s = "hslot L key level"
  let ?i = "slot_pos ?s kids"
  have s: "bits_at h level = ?s" using key(1) by (simp add: hslot_def)
  note sl = h_wf_slots [OF assms(2) hslot_less [of L key level]]
  have same: "S \<union> h_stored L (Some (HNode kids)) = S" using assms(3) by auto
  show ?thesis
  proof (cases "?s \<in> set (map fst kids)")
    case False
    then show ?thesis using rd res s sl same by (auto simp: Let_def hremove_node(2) [OF refl False])
  next
    case True
    note kid = h_wf_kid [OF assms(2) True]
    obtain R' f' where kr: "hremove L (snd (kids ! ?i)) key (level + 1) = (R', f')" by fastforce
    note hr = hremove_node(1) [OF refl True kid(1), unfolded kr]
    have kc: "h_cells L (snd (kids ! ?i)) \<subseteq> S" using assms(3) kid(2) by auto
    have sub: "S \<union> h_stored L R' \<subseteq> S \<union> h_stored L R"
    proof (cases R')
      case (Some c)
      show ?thesis
      proof (cases f')
        case True
        have "(?s, c) \<in> set (kids[?i := (?s, c)])" using kid(1) by (rule set_update_memI)
        then show ?thesis using Some True hr res by force
      next
        case False
        then have "R' = Some (snd (kids ! ?i))" using hremove_unfound kr by (metis (full_types))
        then show ?thesis using kc by auto
      qed
    qed simp
    obtain t2 where t2: "pm_remove_at n L kt vt t1 (h_hash L (snd (kids ! ?i))) key h (level + 1) = Some ((h_root L R', f'), t2)"
      "pm_holds L (S \<union> h_stored L R') t2" using IH [OF kid(2) kr no_collision_subset [OF nc sub]] by blast
    show ?thesis
    proof (cases f')
      case False
      then have "R' = Some (snd (kids ! ?i))" using hremove_unfound kr by (metis (full_types))
      then have "S \<union> h_stored L R' = S" using kc by auto
      then show ?thesis using t2 rd res s sl same True kid(1) hr False by (auto simp: Let_def split: option.splits)
    next
      case f: True
      show ?thesis
      proof (cases R')
        case (Some c)
        let ?T = "HNode (kids[?i := (?s, c)])"
        have R: "R = Some ?T" "found" using hr res Some f by auto
        have ne: "h_hash L c \<noteq> EMPTY" using h_hash_nonempty [OF no_collision_subset [OF nc sub]] Some by simp
        note up = h_cells_update [OF refl kid(1) assms(3), of ?s c]
        have "no_collision pmap_cell_key (insert (h_bytes L ?T) (S \<union> h_cells L c))" using nc R unfolding up by simp
        from pm_write_update_stored [OF _ assms(2) True refl this] t2(2) Some obtain t3 where
          "pm_write_inner L t2 (bitmap_of (map fst kids)) ((map (\<lambda>p. h_hash L (snd p)) kids)[?i := h_hash L c]) = Some (h_hash L ?T, t3)"
          "pm_holds L (S \<union> h_cells L ?T) t3" unfolding up by auto
        then show ?thesis using rd(1) s sl True kid(1) R f ne t2(1) Some by (simp add: Let_def)
      next
        case None
        let ?T = "HNode (remove_at ?i kids)"
        note bm = bitmap_remove [OF assms(2) True]
        have r: "\<forall>x\<in>set (map fst (remove_at ?i kids)). x < 32" using assms(2) set_remove_at [of ?i kids] by auto
        show ?thesis
        proof (cases "remove_at ?i kids = []")
          case em: True
          then have "bitmap_of (map fst kids) AND NOT (slot_bit ?s) = 0" using bm by (simp add: bitmap_of_def)
          then show ?thesis using rd s sl True kid(1) hr res None f t2 em by (auto simp: Let_def)
        next
          case ne: False
          have R: "R = Some ?T" "found" using hr res None f ne by auto
          have cs: "insert (h_bytes L ?T) S = S \<union> h_cells L ?T" using assms(3) set_remove_at [of ?i kids] by fastforce
          have "bitmap_of (map fst kids) AND NOT (slot_bit ?s) \<noteq> 0" using bm ne bitmap_of_zero [OF r] by simp
          moreover obtain t3 where
            "pm_write_inner L t2 (bitmap_of (map fst kids) AND NOT (slot_bit ?s)) (remove_at ?i (map (\<lambda>p. h_hash L (snd p)) kids))
               = Some (h_hash L ?T, t3)" "pm_holds L (S \<union> h_cells L ?T) t3"
            using pm_write_inner_stored [of L S t2 "remove_at ?i kids"] nc R cs t2(2) None unfolding bm remove_at_map by auto
          ultimately show ?thesis using rd(1) s sl True kid(1) None f t2(1) R by (simp add: Let_def)
        qed
      qed
    qed
  qed
qed

lemma pm_remove_at_refines:
  assumes "pm_holds L S t" "h_wf L kt vt T" "h_cells L T \<subseteq> S" "h_height T < n"
    and key: "hash_key L key = Some h" and "hremove L T key level = (R, found)"
    and "no_collision pmap_cell_key S" "no_collision pmap_cell_key (S \<union> h_stored L R)"
  shows "\<exists>t'. pm_remove_at n L kt vt t (h_hash L T) key h level = Some ((h_root L R, found), t')
     \<and> pm_holds L (S \<union> h_stored L R) t'"
  using assms(1-4,6-8)
proof (induction n arbitrary: T t level R found)
  case 0
  then show ?case by simp
next
  case (Suc n)
  obtain t1 where t1: "pm_read_node L kt vt t (h_hash L T) = Some (Some (h_top L T), t1)" "pm_holds L S t1"
    using pm_read_stored [OF Suc.prems(1,6) Suc.prems(2,3)] by blast
  show ?case
  proof (cases T)
    case (HLeaf es)
    then show ?thesis using pm_remove_leaf_refines [of L S t kt vt es t1 key level R found] Suc.prems t1 by simp
  next
    case (HNode kids)
    show ?thesis unfolding HNode
    proof (rule pm_remove_node_refines [OF Suc.prems(1) _ _ Suc.prems(6) key _ t1(2) _ Suc.prems(7)])
      fix p R f assume p: "p \<in> set kids" "hremove L (snd p) key (level + 1) = (R, f)"
        and nc: "no_collision pmap_cell_key (S \<union> h_stored L R)"
      show "\<exists>t'. pm_remove_at n L kt vt t1 (h_hash L (snd p)) key h (level + 1) = Some ((h_root L R, f), t')
        \<and> pm_holds L (S \<union> h_stored L R) t'"
        using Suc.prems p HNode h_child_height [OF p(1)]
        by (intro Suc.IH [OF t1(2) _ _ _ _ Suc.prems(6) nc]) (auto simp: list_all_iff)
    qed (use Suc.prems t1 HNode in auto)
  qed
qed

end
