(* ===== verification/PMapMap.thy ===== *)
theory PMapMap
  imports PMapRefine MapStore
begin

section \<open>The HAMT in the store: correctness\<close>

text \<open>
  The contract of the public operations of \<^verbatim>\<open>pmap.rs\<close>. A root is \<open>None\<close> (the hash \<open>EMPTY\<close>) or a
  trie; \<open>hr_ok\<close> is the invariant of tries: a key lies on the path of its hash slots, inner nodes
  occur below \<open>MAX_LEVELS\<close> only, and only leaves at that depth hold more than one entry. \<open>get\<close>,
  \<open>remove\<close> and \<open>entries\<close> implement the finite map of the entries. \<open>set\<close> does so when the leaf it
  splits is not one where the old and the new key share the slot of that level (\<open>hclean\<close>); in that
  case \<^verbatim>\<open>build_from_entries\<close> skips the shared level and a key is lost, which
  \<open>set_loses_colliding_key\<close> exhibits.
\<close>

subsection \<open>Keys are compared by equality\<close>

lemma list_all2_canon:
  assumes "list_all2 (\<lambda>P e. P (g e)) (map f ts) vs" "\<And>t v. t \<in> set ts \<Longrightarrow> f t v \<Longrightarrow> canon v = v"
  shows "\<forall>e\<in>set vs. canon (g e) = g e"
proof
  fix e assume "e \<in> set vs"
  then obtain i where "i < length vs" "vs ! i = e" by (auto simp: in_set_conv_nth)
  then show "canon (g e) = g e" using assms(1) assms(2) [of "ts ! i" "g e"] by (auto simp: list_all2_conv_all_nth)
qed

lemma map_canon: "\<forall>v\<in>set vs. canon v = v \<Longrightarrow> map canon vs = vs"
  by (simp add: map_idI)

lemma map_canon_fields: "\<forall>e\<in>set vs. canon (snd e) = snd e \<Longrightarrow> map (map_prod id canon) vs = vs"
  by (force intro: map_idI)

lemma keyable_canon: "is_keyable t \<Longrightarrow> wt L t v \<Longrightarrow> canon v = v"
proof (induction t arbitrary: v rule: is_keyable.induct)
  case (1 e)
  then show ?case by (auto simp: list_all_iff intro!: map_idI split: val.splits)
next
  case (3 n flds ex)
  then obtain vs where v: "v = VStruct n vs" "list_all2 (\<lambda>P e. P (snd e)) (map (\<lambda>f. wt L (snd f)) flds) vs"
    by (auto split: val.splits)
  have "\<forall>e\<in>set vs. canon (snd e) = snd e"
    using v(2) by (rule list_all2_canon) (use 3 in \<open>auto simp: list_all_iff\<close>)
  then show ?case using v(1) by (simp add: map_canon_fields)
next
  case (4 n variants)
  then obtain variant vs Ps where v: "v = VEnum n variant vs"
    "map_of (map (\<lambda>c. (fst c, map (wt L) (snd c))) variants) variant = Some Ps" "list_all2 (\<lambda>P. P) Ps vs"
    by (auto split: val.splits option.splits)
  then obtain c where c: "c \<in> set variants" "Ps = map (wt L) (snd c)" by (auto dest!: map_of_SomeD)
  have "\<forall>e\<in>set vs. canon e = e"
    using v(3) unfolding c(2) by (rule list_all2_canon [where g = "\<lambda>e. e"]) (use 4 c(1) in \<open>auto simp: list_all_iff\<close>)
  then show ?case using v(1) by (simp add: map_canon)
qed (auto split: val.splits)

text \<open>The keys the laws are about.\<close>

definition hkeys :: "bigint_lib \<Rightarrow> ty \<Rightarrow> val set" where
  "hkeys L kt = {k. is_keyable kt \<and> wt L kt k}"

lemma hkeys_eq: "k \<in> hkeys L kt \<Longrightarrow> k' \<in> hkeys L kt \<Longrightarrow> value_eq k k' \<longleftrightarrow> k = k'"
  by (auto simp: hkeys_def value_eq_def keyable_canon)

lemma find_map_of:
  "fst ` set es \<subseteq> hkeys L kt \<Longrightarrow> k \<in> hkeys L kt \<Longrightarrow>
   map_option snd (find (\<lambda>e. value_eq (fst e) k) es) = map_of es k"
  by (induction es) (auto simp: hkeys_eq)

subsection \<open>The invariant\<close>

fun hinv :: "bigint_lib \<Rightarrow> nat \<Rightarrow> htree \<Rightarrow> bool" where
  "hinv L level (HLeaf es) = (distinct (map fst es) \<and> (level < MAX_LEVELS \<longrightarrow> length es = 1))"
| "hinv L level (HNode kids) = (level < MAX_LEVELS \<and>
     list_all (\<lambda>p. hinv L (level + 1) (snd p) \<and> (\<forall>e\<in>set (hentries (snd p)). hslot L (fst e) level = fst p)) kids)"

fun hclean :: "bigint_lib \<Rightarrow> htree \<Rightarrow> val \<Rightarrow> nat \<Rightarrow> bool" where
  "hclean L (HLeaf es) key level = (level \<ge> MAX_LEVELS \<or>
     (\<forall>e\<in>set es. value_eq (fst e) key \<or> hslot L (fst e) level \<noteq> hslot L key level))"
| "hclean L (HNode kids) key level =
     list_all (\<lambda>p. fst p = hslot L key level \<longrightarrow> hclean L (snd p) key (level + 1)) kids"

lemma hinv_height: "h_wf L kt vt T \<Longrightarrow> hinv L level T \<Longrightarrow> level \<le> MAX_LEVELS \<Longrightarrow> h_height T \<le> MAX_LEVELS - level"
proof (induction T arbitrary: level)
  case (HNode kids)
  have "h_height (snd p) \<le> MAX_LEVELS - (level + 1)" if "p \<in> set kids" for p
    using that HNode.prems by (intro HNode.IH [of p "snd p"]) (auto simp: list_all_iff snds.simps)
  then have "Max (set (map (\<lambda>p. h_height (snd p)) kids)) \<le> MAX_LEVELS - (level + 1)"
    using HNode.prems(1) by (subst Max_le_iff) auto
  moreover have "level < MAX_LEVELS" using HNode.prems(2) by simp
  ultimately show ?case by simp
qed simp

subsection \<open>Children as a map from slots\<close>

lemma map_of_concat_slots:
  assumes "distinct (map fst kids)"
    and "\<forall>p\<in>set kids. \<forall>e\<in>set (ent (snd p)). slot (fst e) = fst p"
  shows "map_of (concat (map (\<lambda>p. ent (snd p)) kids)) k =
     (case map_of kids (slot k) of None \<Rightarrow> None | Some c \<Rightarrow> map_of (ent c) k)"
  using assms
proof (induction kids)
  case (Cons p kids)
  show ?case
  proof (cases "fst p = slot k")
    case True
    then have "map_of kids (slot k) = None" using Cons.prems(1) by (auto simp: map_of_eq_None_iff)
    then show ?thesis using Cons True by (simp add: map_add_def split: option.split)
  next
    case False
    then have "map_of (ent (snd p)) k = None" using Cons.prems(2) by (auto simp: map_of_eq_None_iff)
    then show ?thesis using Cons False by (simp add: map_add_def split: option.split)
  qed
qed simp

lemma map_of_slot_update:
  assumes "distinct (map fst kids)" "i < length kids" "fst (kids ! i) = s"
  shows "map_of (kids[i := (s, c)]) = (map_of kids)(s \<mapsto> c)"
  using assms
proof (induction kids arbitrary: i)
  case (Cons p kids)
  show ?case
  proof (cases i)
    case (Suc j)
    then have "fst p \<noteq> s" using Cons.prems nth_mem [of j kids] by force
    then show ?thesis using Cons Suc by (auto simp: fun_upd_twist)
  qed (use Cons.prems in \<open>auto simp: fun_eq_iff\<close>)
qed simp

lemma map_of_slot_insert:
  assumes "s \<notin> set (map fst kids)"
  shows "map_of (insert_at i (s, c) kids) = (map_of kids)(s \<mapsto> c)"
proof -
  have "s \<notin> fst ` set (take i kids)" using assms set_take_subset [of i kids] by auto
  then have "map_of (take i kids) s = None" by (simp add: map_of_eq_None_iff)
  then have "map_of (insert_at i (s, c) kids) = (map_of (take i kids @ drop i kids))(s \<mapsto> c)"
    unfolding insert_at_def map_of_append by (auto simp: fun_eq_iff map_add_def split: option.split)
  then show ?thesis by simp
qed

lemma map_of_slot_remove:
  assumes "distinct (map fst kids)" "i < length kids" "fst (kids ! i) = s"
  shows "map_of (remove_at i kids) = (map_of kids)(s := None)"
proof -
  let ?a = "take i kids" and ?b = "drop (Suc i) kids"
  have k: "kids = ?a @ kids ! i # ?b" by (rule id_take_nth_drop [OF assms(2)])
  then have "distinct (map fst (?a @ kids ! i # ?b))" using assms(1) by simp
  then have "s \<notin> fst ` set ?a" "s \<notin> fst ` set ?b" using assms(3) by auto
  then have n: "map_of ?a s = None" "map_of ?b s = None" by (simp_all add: map_of_eq_None_iff)
  have "(map_of kids)(s := None) = map_of (?a @ ?b)"
    by (subst k) (use n assms(3) in \<open>auto simp: fun_eq_iff map_add_def split: option.split\<close>)
  then show ?thesis by (simp add: remove_at_def)
qed

lemma kid_nth:
  assumes "h_wf L kt vt (HNode kids)" "s \<in> set (map fst kids)"
  shows "kids ! slot_pos s kids = (s, snd (kids ! slot_pos s kids))" "map_of kids s = Some (snd (kids ! slot_pos s kids))"
proof -
  note kid = h_wf_kid [OF assms]
  show eq: "kids ! slot_pos s kids = (s, snd (kids ! slot_pos s kids))" using kid(4) by (metis prod.collapse)
  have "distinct (map fst kids)" using assms(1) by (auto simp: strict_sorted_iff)
  then show "map_of kids s = Some (snd (kids ! slot_pos s kids))"
    using eq kid(2) by (metis map_of_eq_Some_iff)
qed

lemma hinv_node:
  assumes "h_wf L kt vt (HNode kids)" "hinv L level (HNode kids)"
  shows "distinct (map fst kids)"
    and "map_of (hentries (HNode kids)) k =
      (case map_of kids (hslot L k level) of None \<Rightarrow> None | Some c \<Rightarrow> map_of (hentries c) k)"
    and "s \<in> set (map fst kids) \<Longrightarrow> hinv L (level + 1) (snd (kids ! slot_pos s kids))"
proof -
  show d: "distinct (map fst kids)" using assms(1) by (auto simp: strict_sorted_iff)
  show "map_of (hentries (HNode kids)) k =
      (case map_of kids (hslot L k level) of None \<Rightarrow> None | Some c \<Rightarrow> map_of (hentries c) k)"
    unfolding hentries.simps by (rule map_of_concat_slots [OF d]) (use assms(2) in \<open>auto simp: list_all_iff\<close>)
  show "s \<in> set (map fst kids) \<Longrightarrow> hinv L (level + 1) (snd (kids ! slot_pos s kids))"
    using h_wf_kid(2) [OF assms(1), of s] assms(2) by (auto simp: list_all_iff)
qed

lemma hentries_keys:
  "is_keyable kt \<Longrightarrow> h_wf L kt vt T \<Longrightarrow> fst ` set (hentries T) \<subseteq> hkeys L kt"
proof (induction T)
  case (HNode kids)
  have "fst ` set (hentries (snd p)) \<subseteq> hkeys L kt" if "p \<in> set kids" for p
    using that HNode.prems by (intro HNode.IH [of p "snd p"]) (auto simp: list_all_iff snds.simps)
  then show ?case by force
qed (auto simp: list_all_iff hkeys_def entry_ok_def)

lemma keys_dom: "fst ` set (es :: ('a \<times> 'b) list) = dom (map_of es)"
  by (simp add: dom_map_of_conv_image_fst)

lemma hget_map_of:
  assumes "is_keyable kt" "k \<in> hkeys L kt" "h_wf L kt vt T" "hinv L level T"
  shows "hget L T k level = map_of (hentries T) k"
  using assms(3,4)
proof (induction T arbitrary: level)
  case (HLeaf es)
  then show ?case using find_map_of [OF _ assms(2)] hentries_keys [OF assms(1) HLeaf.prems(1)] by simp
next
  case (HNode kids)
  let ?s = "hslot L k level"
  show ?case
  proof (cases "?s \<in> set (map fst kids)")
    case True
    note kid = h_wf_kid [OF HNode.prems(1) True]
    have "hget L (snd (kids ! slot_pos ?s kids)) k (level + 1) = map_of (hentries (snd (kids ! slot_pos ?s kids))) k"
      using HNode.IH [OF kid(2) _ kid(3) hinv_node(3) [OF HNode.prems True]] by (metis snds.simps prod.collapse)
    then show ?thesis using True kid(1) kid_nth(2) [OF HNode.prems(1) True] hinv_node(2) [OF HNode.prems, of k]
      by (simp add: Let_def del: hentries.simps)
  next
    case False
    then have "map_of kids ?s = None" by (simp add: map_of_eq_None_iff)
    then show ?thesis using False hinv_node(2) [OF HNode.prems, of k] by (simp add: Let_def del: hentries.simps)
  qed
qed

subsection \<open>Insertion\<close>

lemma hleaf_map:
  assumes "bigint_ok L" "list_all (entry_ok L kt vt) es" "distinct (map fst es)"
  obtains es' where "hleaf L es = HLeaf es'" "distinct (map fst es')" "map_of es' = map_of es" "length es' = length es"
proof -
  from hleaf_props [OF assms(1,2)] obtain es' where es': "hleaf L es = HLeaf es'" "mset es' = mset es" by metis
  from es'(2) have "mset (map fst es') = mset (map fst es)" by simp
  with assms(3) have d: "distinct (map fst es')" by (metis mset_eq_imp_distinct_iff)
  moreover have "map_of es' = map_of es" using assms(3) d mset_eq_setD [OF es'(2)] by (metis map_of_inject_set)
  ultimately show thesis using that es'(1) mset_eq_length [OF es'(2)] by blast
qed

lemma map_of_update_same:
  assumes "i < length es" "fst (es ! i) = k" "distinct (map fst es)"
  shows "distinct (map fst (es[i := (k, v)])) \<and> map_of (es[i := (k, v)]) = (map_of es)(k \<mapsto> v)"
  using map_of_slot_update [OF assms(3,1,2)] map_update_fst [OF assms(1,2)] assms(3) by simp

lemma hbuild_split:
  assumes "bigint_ok L" "entry_ok L kt vt e1" "entry_ok L kt vt e2" "level < MAX_LEVELS"
    and "hslot L (fst e1) level \<noteq> hslot L (fst e2) level"
  shows "\<exists>kids. hbuild L [e1, e2] level = HNode kids \<and>
     (\<forall>p\<in>set kids. p = (hslot L (fst e1) level, HLeaf [e1]) \<or> p = (hslot L (fst e2) level, HLeaf [e2]))
     \<and> (hslot L (fst e1) level, HLeaf [e1]) \<in> set kids \<and> (hslot L (fst e2) level, HLeaf [e2]) \<in> set kids"
proof -
  let ?s1 = "hslot L (fst e1) level" and ?s2 = "hslot L (fst e2) level"
  let ?bs = "hbuckets L level [e1, e2]"
  have b: "set ?bs = {(?s1, [e1]), (?s2, [e2])}"
    using assms(5) hslot_less [of L "fst e1" level] hslot_less [of L "fst e2" level] by (auto simp: hbuckets_def)
  have "length ?bs \<noteq> 1"
  proof
    assume "length ?bs = 1"
    then obtain x where "?bs = [x]" by (auto simp: length_Suc_conv)
    then have "(?s1, [e1]) = x" "(?s2, [e2]) = x" using b by auto
    then show False using assms(5) by auto
  qed
  then have "hbuild L [e1, e2] level = HNode (map (\<lambda>b. (fst b, hbuild L (snd b) (level + 1))) ?bs)"
    using assms(4) by (simp add: hbuild.simps [of L "[e1, e2]" level] Let_def)
  moreover have "hbuild L [e1] (level + 1) = HLeaf [e1]" "hbuild L [e2] (level + 1) = HLeaf [e2]"
    using hleaf_single assms(1-3) by (simp_all add: hbuild.simps [of L "[e1]"] hbuild.simps [of L "[e2]"])
  ultimately show ?thesis using b by simp
qed

subsection \<open>Replacing, inserting and removing a child\<close>

lemma h_wf_update:
  assumes "h_wf L kt vt (HNode kids)" "s \<in> set (map fst kids)" "h_wf L kt vt c"
  shows "h_wf L kt vt (HNode (kids[slot_pos s kids := (s, c)]))"
proof -
  note kid = h_wf_kid [OF assms(1,2)]
  have "s < 32" using assms(1,2) by auto
  then have "\<forall>p\<in>insert (s, c) (set kids). fst p < 32 \<and> h_wf L kt vt (snd p)" using assms(1,3) by (auto simp: list_all_iff)
  then have "\<forall>p\<in>set (kids[slot_pos s kids := (s, c)]). fst p < 32 \<and> h_wf L kt vt (snd p)"
    using set_update_subset_insert by (metis subsetD)
  then show ?thesis using assms(1) map_update_fst [OF kid(1,4)] by (simp add: list_all_iff)
qed

lemma sorted_slot_insert:
  "sorted_wrt (<) (map fst (a @ b)) \<Longrightarrow> \<forall>p\<in>set a. fst p < s \<Longrightarrow> \<forall>p\<in>set b. (s :: nat) < fst p \<Longrightarrow>
   sorted_wrt (<) (map fst (a @ (s, c) # b))"
  by (auto simp: sorted_wrt_append)

lemma h_wf_insert:
  assumes "h_wf L kt vt (HNode kids)" "s \<notin> set (map fst kids)" "s < 32" "h_wf L kt vt c"
  shows "h_wf L kt vt (HNode (insert_at (slot_pos s kids) (s, c) kids))"
proof -
  let ?a = "takeWhile (\<lambda>p. fst p < s) kids" and ?b = "dropWhile (\<lambda>p. fst p < s) kids"
  have ins: "insert_at (slot_pos s kids) (s, c) kids = ?a @ (s, c) # ?b"
    by (simp add: insert_at_def slot_pos_def takeWhile_eq_take [symmetric] dropWhile_eq_drop [symmetric])
  have so: "sorted_wrt (<) (map fst (?a @ ?b))" using assms(1) by simp
  have "\<forall>p\<in>set ?a. fst p < s" by (auto dest: set_takeWhileD)
  moreover have "\<forall>p\<in>set ?b. s < fst p"
  proof (cases ?b)
    case (Cons q qs)
    then have "s \<le> fst q" using hd_dropWhile [of "\<lambda>p. fst p < s" kids] by auto
    moreover have "q \<in> set kids" using Cons set_dropWhileD [of q "\<lambda>p. fst p < s" kids] by simp
    ultimately have "s < fst q" using assms(2) by (auto simp: order.strict_iff_order)
    then show ?thesis using so Cons by (fastforce simp: sorted_wrt_append)
  next
    case Nil
    then show ?thesis by (simp only: list.set ball_empty)
  qed
  ultimately have "sorted_wrt (<) (map fst (?a @ (s, c) # ?b))" by (rule sorted_slot_insert [OF so])
  then show ?thesis using assms set_insert_at [of "slot_pos s kids" "(s, c)" kids] unfolding ins
    by (auto simp: list_all_iff dest: set_takeWhileD set_dropWhileD)
qed

lemma sorted_wrt_remove_at: "sorted_wrt R xs \<Longrightarrow> sorted_wrt R (remove_at i xs)"
proof (cases "i < length xs")
  case True
  then show "sorted_wrt R xs \<Longrightarrow> ?thesis"
    by (subst (asm) id_take_nth_drop [OF True]) (auto simp: remove_at_def sorted_wrt_append)
qed (simp add: remove_at_def)

lemma distinct_remove_at: "distinct xs \<Longrightarrow> distinct (remove_at i xs)"
  by (auto simp: remove_at_def set_take_disj_set_drop_if_distinct)

lemma h_wf_remove:
  assumes "h_wf L kt vt (HNode kids)" "remove_at i kids \<noteq> []"
  shows "h_wf L kt vt (HNode (remove_at i kids))"
proof -
  have "sorted_wrt (<) (remove_at i (map fst kids))" using assms(1) by (intro sorted_wrt_remove_at) simp
  then show ?thesis using assms set_remove_at [of i kids] by (auto simp: list_all_iff remove_at_map)
qed

text \<open>The same three steps keep the invariant when the keys of the new child stay on the path.\<close>

lemma hinv_update:
  assumes "hinv L level (HNode kids)" "hinv L (level + 1) c" "\<forall>e\<in>set (hentries c). hslot L (fst e) level = s"
    "\<forall>p\<in>set kids'. p = (s, c) \<or> p \<in> set kids"
  shows "hinv L level (HNode kids')"
  using assms unfolding hinv.simps list_all_iff by (metis fst_conv snd_conv)

lemma hset_wf:
  assumes "bigint_ok L" "entry_ok L kt vt (key, v)" "h_wf L kt vt T" "length (hentries T) + 1 < 2 ^ 32"
  shows "h_wf L kt vt (hset L T key v level)"
  using assms(3,4)
proof (induction T arbitrary: level)
  case (HLeaf es)
  have es: "list_all (entry_ok L kt vt) es" "es \<noteq> []" using HLeaf.prems(1) by auto
  have "list_all (entry_ok L kt vt) (es[i := (key, v)])" for i
    using es(1) assms(2) set_update_subset_insert [of es i "(key, v)"] by (auto simp: list_all_iff)
  moreover have "list_all (entry_ok L kt vt) (es @ [(key, v)])" using es(1) assms(2) by (simp add: list_all_iff)
  ultimately show ?case using HLeaf.prems es(2)
    by (auto simp: hleaf_wf [OF assms(1)] hbuild_wf [OF assms(1)] split: option.split)
next
  case (HNode kids)
  let ?s = "hslot L key level"
  show ?case
  proof (cases "?s \<in> set (map fst kids)")
    case True
    note kid = h_wf_kid [OF HNode.prems(1) True]
    have "h_wf L kt vt (hset L (snd (kids ! slot_pos ?s kids)) key v (level + 1))"
      using HNode.IH [OF kid(2) _ kid(3)] HNode.prems(2) hentries_kid_length [OF kid(2)]
      by (metis (no_types, lifting) snds.simps prod.collapse add_mono_thms_linordered_semiring(3) order_le_less_trans)
    then show ?thesis unfolding hset_hit [OF refl True kid(1)] by (rule h_wf_update [OF HNode.prems(1) True])
  next
    case False
    have "h_wf L kt vt (HLeaf [(key, v)])" using assms(2) by simp
    then show ?thesis unfolding hset_miss [OF refl False] by (rule h_wf_insert [OF HNode.prems(1) False hslot_less])
  qed
qed

lemma hset_leaf_map:
  assumes "bigint_ok L" "is_keyable kt" "entry_ok L kt vt (key, v)" "h_wf L kt vt (HLeaf es)"
    "hinv L level (HLeaf es)" "hclean L (HLeaf es) key level"
  shows "hinv L level (hset L (HLeaf es) key v level)
     \<and> map_of (hentries (hset L (HLeaf es) key v level)) = (map_of es)(key \<mapsto> v)"
proof -
  have es: "list_all (entry_ok L kt vt) es" "distinct (map fst es)" using assms(4,5) by auto
  have k: "key \<in> hkeys L kt" using assms(2,3) by (simp add: hkeys_def entry_ok_def)
  have ks: "fst ` set es \<subseteq> hkeys L kt" using hentries_keys [OF assms(2,4)] by simp
  show ?thesis
  proof (cases "position (\<lambda>e. value_eq (fst e) key) es")
    case (Some i)
    then have i: "i < length es" "fst (es ! i) = key" using position_Some [OF Some] k ks hkeys_eq nth_mem by blast+
    have ok: "list_all (entry_ok L kt vt) (es[i := (key, v)])"
      using es(1) assms(3) set_update_subset_insert [of es i "(key, v)"] by (auto simp: list_all_iff)
    from map_of_update_same [OF i es(2)] have u: "distinct (map fst (es[i := (key, v)]))"
      "map_of (es[i := (key, v)]) = (map_of es)(key \<mapsto> v)" by auto
    obtain es' where "hleaf L (es[i := (key, v)]) = HLeaf es'" "distinct (map fst es')"
      "map_of es' = (map_of es)(key \<mapsto> v)" "length es' = length es"
      using hleaf_map [OF assms(1) ok u(1)] u(2) by (metis length_list_update)
    then show ?thesis using assms(5) Some by simp
  next
    case None
    have new: "key \<notin> fst ` set es" using None ks k by (auto simp: position_None)
    have d: "distinct (map fst (es @ [(key, v)]))" using es(2) new by auto
    have m: "map_of (es @ [(key, v)]) = (map_of es)(key \<mapsto> v)"
    proof -
      have "map_of es key = None" using new by (simp add: map_of_eq_None_iff)
      then show ?thesis by (auto simp: fun_eq_iff map_add_def split: option.split)
    qed
    show ?thesis
    proof (cases "level \<ge> MAX_LEVELS")
      case True
      have ok: "list_all (entry_ok L kt vt) (es @ [(key, v)])" using es(1) assms(3) by simp
      obtain es' where "hleaf L (es @ [(key, v)]) = HLeaf es'" "distinct (map fst es')"
        "map_of es' = (map_of es)(key \<mapsto> v)" using hleaf_map [OF assms(1) ok d] m by metis
      then show ?thesis using None True by simp
    next
      case False
      then obtain e where e: "es = [e]" using assms(5) by (auto simp: length_Suc_conv)
      then have sl: "hslot L (fst e) level \<noteq> hslot L key level" using assms(6) False None by (auto simp: position_None)
      obtain kids where kids: "hbuild L [e, (key, v)] level = HNode kids"
        "\<forall>p\<in>set kids. p = (hslot L (fst e) level, HLeaf [e]) \<or> p = (hslot L key level, HLeaf [(key, v)])"
        "(hslot L (fst e) level, HLeaf [e]) \<in> set kids" "(hslot L key level, HLeaf [(key, v)]) \<in> set kids"
        using hbuild_split [OF assms(1), of kt vt e "(key, v)" level] es(1) assms(3) e False sl by auto
      have inv: "hinv L level (HNode kids)" using False kids(2) by (auto simp: list_all_iff)
      have wf: "h_wf L kt vt (HNode kids)" using hbuild_wf [OF assms(1), of kt vt "[e, (key, v)]" level] kids(1) es(1) assms(3) e by simp
      have "fst e \<noteq> key" using new e by simp
      moreover have "map_of kids (hslot L (fst e) level) = Some (HLeaf [e])" "map_of kids (hslot L key level) = Some (HLeaf [(key, v)])"
        using hinv_node(1) [OF wf inv] kids(3,4) by auto
      moreover have "map_of kids s = None" if "s \<noteq> hslot L (fst e) level" "s \<noteq> hslot L key level" for s
        using that kids(2) by (force simp: map_of_eq_None_iff)
      ultimately have "map_of (hentries (HNode kids)) k = ((map_of es)(key \<mapsto> v)) k" for k
        using hinv_node(2) [OF wf inv, of k] e sl
        by (cases "hslot L k level = hslot L (fst e) level"; cases "hslot L k level = hslot L key level")
           (auto simp del: hentries.simps(2))
      then show ?thesis using inv kids(1) None False e by auto
    qed
  qed
qed

lemma hset_map:
  assumes "bigint_ok L" "is_keyable kt" "entry_ok L kt vt (key, v)" "length (hentries T) + 1 < 2 ^ 32"
    and "h_wf L kt vt T" "hinv L level T" "hclean L T key level"
  shows "hinv L level (hset L T key v level)
     \<and> map_of (hentries (hset L T key v level)) = (map_of (hentries T))(key \<mapsto> v)"
  using assms(4-7)
proof (induction T arbitrary: level)
  case (HLeaf es)
  then show ?case using hset_leaf_map [OF assms(1-3)] by simp
next
  case (HNode kids)
  let ?s = "hslot L key level" and ?T = "hset L (HNode kids) key v level"
  have wfT: "h_wf L kt vt ?T" by (rule hset_wf [OF assms(1,3) HNode.prems(2,1)])
  have step: "hinv L level ?T \<and> map_of (hentries ?T) = (map_of (hentries (HNode kids)))(key \<mapsto> v)"
    if T: "?T = HNode kids'" and m: "map_of kids' = (map_of kids)(?s \<mapsto> c)" and c: "hinv L (level + 1) c"
      and e: "map_of (hentries c) = (case map_of kids ?s of None \<Rightarrow> Map.empty | Some c \<Rightarrow> map_of (hentries c))(key \<mapsto> v)"
      and sub: "\<forall>p\<in>set kids'. p = (?s, c) \<or> p \<in> set kids" for kids' c
  proof -
    have "\<forall>k\<in>dom (map_of (hentries c)). hslot L k level = ?s"
      using HNode.prems(3) unfolding e by (auto simp: list_all_iff dest!: map_of_SomeD split: option.splits if_splits) fastforce
    then have "\<forall>x\<in>set (hentries c). hslot L (fst x) level = ?s" by (simp add: dom_map_of_conv_image_fst)
    then have inv: "hinv L level (HNode kids')" by (rule hinv_update [OF HNode.prems(3) c _ sub])
    have "map_of (hentries (HNode kids')) k = ((map_of (hentries (HNode kids)))(key \<mapsto> v)) k" for k
      using hinv_node(2) [OF wfT [unfolded T] inv, of k] hinv_node(2) [OF HNode.prems(2,3), of k] m e
      by (auto split: option.split)
    then show ?thesis using inv T by auto
  qed
  show ?case
  proof (cases "?s \<in> set (map fst kids)")
    case True
    note kid = h_wf_kid [OF HNode.prems(2) True]
    let ?k = "snd (kids ! slot_pos ?s kids)"
    have cl: "hclean L ?k key (level + 1)" using HNode.prems(4) kid(2,4) by (auto simp: list_all_iff)
    have "hinv L (level + 1) (hset L ?k key v (level + 1))
       \<and> map_of (hentries (hset L ?k key v (level + 1))) = (map_of (hentries ?k))(key \<mapsto> v)"
      using HNode.prems(1) hentries_kid_length [OF kid(2)]
      by (intro HNode.IH [OF kid(2) _ _ kid(3) hinv_node(3) [OF HNode.prems(2,3) True] cl])
         (auto simp: snds.simps simp del: hentries.simps intro: prod.collapse [symmetric])
    then show ?thesis using kid_nth(2) [OF HNode.prems(2) True] hinv_node(1) [OF HNode.prems(2,3)] kid
        set_update_subset_insert [of kids "slot_pos ?s kids"]
      by (intro step [OF hset_hit [OF refl True kid(1)], where c = "hset L ?k key v (level + 1)"])
         (auto simp: map_of_slot_update simp del: hentries.simps)
  next
    case False
    have "map_of kids ?s = None" using False by (simp add: map_of_eq_None_iff)
    then show ?thesis using map_of_slot_insert [OF False]
      by (intro step [OF hset_miss [OF refl False], where c = "HLeaf [(key, v)]"])
         (auto simp: set_insert_at)
  qed
qed

subsection \<open>Removal\<close>

fun hr_entries :: "htree option \<Rightarrow> (val \<times> val) list" where
  "hr_entries None = []"
| "hr_entries (Some T) = hentries T"

fun hr_good :: "bigint_lib \<Rightarrow> ty \<Rightarrow> ty \<Rightarrow> nat \<Rightarrow> htree option \<Rightarrow> bool" where
  "hr_good L kt vt level None = True"
| "hr_good L kt vt level (Some T) = (h_wf L kt vt T \<and> hinv L level T)"

definition hr_removed :: "bigint_lib \<Rightarrow> ty \<Rightarrow> ty \<Rightarrow> nat \<Rightarrow> val \<Rightarrow> htree \<Rightarrow> htree option \<times> bool \<Rightarrow> bool" where
  "hr_removed L kt vt level key T r \<longleftrightarrow> hr_good L kt vt level (fst r)
     \<and> map_of (hr_entries (fst r)) = (map_of (hentries T))(key := None) \<and> (snd r \<longleftrightarrow> key \<in> fst ` set (hentries T))"

lemma hr_unchanged:
  "h_wf L kt vt T \<Longrightarrow> hinv L level T \<Longrightarrow> map_of (hentries T) key = None \<Longrightarrow> hr_removed L kt vt level key T (Some T, False)"
  by (auto simp: hr_removed_def map_of_eq_None_iff fun_eq_iff)

lemma hremove_leaf_map:
  assumes "is_keyable kt" "key \<in> hkeys L kt" "h_wf L kt vt (HLeaf es)" "hinv L level (HLeaf es)"
  shows "hr_removed L kt vt level key (HLeaf es) (hremove L (HLeaf es) key level)"
proof (cases "position (\<lambda>e. value_eq (fst e) key) es")
  case None
  have "fst ` set es \<subseteq> hkeys L kt" using hentries_keys [OF assms(1,3)] by simp
  then have "map_of (hentries (HLeaf es)) key = None" using None assms(2) by (auto simp: position_None map_of_eq_None_iff)
  from hr_unchanged [OF assms(3,4) this] None show ?thesis by simp
next
  case (Some i)
  let ?es = "remove_at i es"
  have ks: "fst ` set es \<subseteq> hkeys L kt" using hentries_keys [OF assms(1,3)] by simp
  then have i: "i < length es" "fst (es ! i) = key" using position_Some [OF Some] assms(2) hkeys_eq nth_mem by blast+
  have d: "distinct (map fst es)" using assms(4) by simp
  have m: "map_of ?es = (map_of es)(key := None)" by (rule map_of_slot_remove [OF d i])
  have "key \<in> fst ` set es" using i by force
  moreover have "distinct (map fst ?es)" "length ?es < length es"
    using distinct_remove_at [OF d, of i] i(1) by (auto simp: remove_at_map)
  moreover have "sorted (map (key_bytes L) ?es)" "list_all (entry_ok L kt vt) ?es"
    using sorted_remove_at [of "map (key_bytes L) es" i] assms(3) list_all_sub [OF _ set_remove_at] by (auto simp: remove_at_map)
  moreover have "level < MAX_LEVELS \<Longrightarrow> ?es = []" using assms(4) i(1) by (simp add: remove_at_def)
  ultimately show ?thesis using m Some assms(3) by (auto simp: hr_removed_def)
qed

lemma hremove_map:
  assumes "is_keyable kt" "key \<in> hkeys L kt" "h_wf L kt vt T" "hinv L level T"
  shows "hr_removed L kt vt level key T (hremove L T key level)"
  using assms(3,4)
proof (induction T arbitrary: level)
  case (HLeaf es)
  then show ?case by (rule hremove_leaf_map [OF assms(1,2)])
next
  case (HNode kids)
  let ?s = "hslot L key level" and ?T = "HNode kids"
  note mT = hinv_node(2) [OF HNode.prems]
  show ?case
  proof (cases "?s \<in> set (map fst kids)")
    case False
    then have "map_of kids ?s = None" by (simp add: map_of_eq_None_iff)
    then have "map_of (hentries ?T) key = None" using mT [of key] by simp
    then show ?thesis unfolding hremove_node(2) [OF refl False] by (rule hr_unchanged [OF HNode.prems])
  next
    case True
    note kid = h_wf_kid [OF HNode.prems(1) True]
    let ?i = "slot_pos ?s kids"
    let ?k = "snd (kids ! ?i)"
    obtain R f where r: "hremove L ?k key (level + 1) = (R, f)" by fastforce
    have "hr_removed L kt vt (level + 1) key ?k (hremove L ?k key (level + 1))"
      using HNode.IH [OF kid(2) _ kid(3) hinv_node(3) [OF HNode.prems True]] by (metis snds.simps prod.collapse)
    then have c: "hr_good L kt vt (level + 1) R" "map_of (hr_entries R) = (map_of (hentries ?k))(key := None)"
      "f \<longleftrightarrow> map_of (hentries ?k) key \<noteq> None" unfolding r hr_removed_def by (auto simp: dom_map_of_conv_image_fst [symmetric])
    have mk: "map_of kids ?s = Some ?k" by (rule kid_nth(2) [OF HNode.prems(1) True])
    have key: "map_of (hentries ?T) key = map_of (hentries ?k) key" using mT [of key] mk by simp
    have found: "key \<in> fst ` set (hentries ?T) \<longleftrightarrow> f"
      using key c(3) unfolding dom_map_of_conv_image_fst [symmetric] by (simp add: domIff del: hentries.simps)
    note d = hinv_node(1) [OF HNode.prems]
    note hr = hremove_node(1) [OF refl True kid(1), unfolded r]
    show ?thesis
    proof (cases f)
      case False
      then have "map_of (hentries ?T) key = None" using c(3) key by simp
      from hr_unchanged [OF HNode.prems this] show ?thesis using hr False by (simp split: option.split)
    next
      case f: True
      show ?thesis
      proof (cases R)
        case None
        have m: "map_of (remove_at ?i kids) = (map_of kids)(?s := None)" by (rule map_of_slot_remove [OF d kid(1,4)])
        have sub: "set (remove_at ?i kids) \<subseteq> set kids" by (rule set_remove_at)
        have ent: "((map_of (hentries ?T))(key := None)) k =
            (case map_of (remove_at ?i kids) (hslot L k level) of None \<Rightarrow> None | Some c \<Rightarrow> map_of (hentries c) k)" for k
          using mT [of k] mk c(2) None m by (auto simp: fun_eq_iff split: if_splits option.split)
        show ?thesis
        proof (cases "remove_at ?i kids = []")
          case True
          then show ?thesis using hr None f ent found by (auto simp: hr_removed_def fun_eq_iff simp del: hentries.simps)
        next
          case ne: False
          let ?T' = "HNode (remove_at ?i kids)"
          have wf: "h_wf L kt vt ?T'" by (rule h_wf_remove [OF HNode.prems(1) ne])
          have inv: "hinv L level ?T'" using HNode.prems(2) sub by (auto simp: list_all_iff)
          have "map_of (hentries ?T') = (map_of (hentries ?T))(key := None)"
            using ent hinv_node(2) [OF wf inv] by (intro ext) simp
          then show ?thesis using hr None f ne wf inv found by (simp add: hr_removed_def del: hentries.simps h_wf.simps hinv.simps)
        qed
      next
        case (Some c')
        let ?ks = "kids[?i := (?s, c')]"
        have good: "h_wf L kt vt c'" "hinv L (level + 1) c'" using c(1) Some by auto
        have wf: "h_wf L kt vt (HNode ?ks)" by (rule h_wf_update [OF HNode.prems(1) True good(1)])
        have "dom (map_of (hentries c')) \<subseteq> dom (map_of (hentries ?k))" using c(2) Some by auto
        then have "fst ` set (hentries c') \<subseteq> fst ` set (hentries ?k)" by (simp add: dom_map_of_conv_image_fst)
        moreover have "\<forall>e\<in>set (hentries ?k). hslot L (fst e) level = ?s"
          using HNode.prems(2) kid(2,4) by (auto simp: list_all_iff)
        ultimately have path: "\<forall>e\<in>set (hentries c'). hslot L (fst e) level = ?s" by fastforce
        have sub: "\<forall>p\<in>set ?ks. p = (?s, c') \<or> p \<in> set kids" using set_update_subset_insert by fastforce
        have inv: "hinv L level (HNode ?ks)" by (rule hinv_update [OF HNode.prems(2) good(2) path sub])
        have m: "map_of ?ks = (map_of kids)(?s \<mapsto> c')" by (rule map_of_slot_update [OF d kid(1,4)])
        have "map_of (hentries (HNode ?ks)) k = ((map_of (hentries ?T))(key := None)) k" for k
          using hinv_node(2) [OF wf inv, of k] mT [of k] mk m c(2) Some by (auto simp: fun_eq_iff)
        then have "map_of (hentries (HNode ?ks)) = (map_of (hentries ?T))(key := None)" by (rule ext)
        then show ?thesis using hr Some f wf inv found by (simp add: hr_removed_def del: hentries.simps h_wf.simps hinv.simps)
      qed
    qed
  qed
qed

subsection \<open>Distinct keys\<close>

lemma hentries_distinct: "h_wf L kt vt T \<Longrightarrow> hinv L level T \<Longrightarrow> distinct (map fst (hentries T))"
proof (induction T arbitrary: level)
  case (HNode kids)
  have d: "distinct (map fst kids)" by (rule hinv_node(1) [OF HNode.prems])
  have kid: "distinct (map fst (hentries (snd p)))" if "p \<in> set kids" for p
    using that HNode.prems by (intro HNode.IH [of p "snd p" "level + 1"]) (auto simp: list_all_iff snds.simps)
  have path: "\<forall>p\<in>set kids. \<forall>e\<in>set (hentries (snd p)). hslot L (fst e) level = fst p"
    using HNode.prems(2) by (auto simp: list_all_iff)
  from d kid path show ?case
  proof (induction kids)
    case (Cons p kids)
    have ne: "fst e \<noteq> fst e'" if "e \<in> set (hentries (snd p))" "q \<in> set kids" "e' \<in> set (hentries (snd q))" for e q e'
    proof -
      have "hslot L (fst e) level = fst p" "hslot L (fst e') level = fst q" using Cons.prems(3) that by auto
      moreover have "fst p \<noteq> fst q" using Cons.prems(1) that(2) by auto
      ultimately show ?thesis by metis
    qed
    have "fst ` set (hentries (snd p)) \<inter> fst ` (\<Union>q\<in>set kids. set (hentries (snd q))) = {}" using ne by blast
    moreover have "distinct (map fst (hentries (HNode kids)))" using Cons by simp
    ultimately show ?case using Cons.prems(2) [of p] by simp
  qed simp
qed simp

subsection \<open>The operations on a stored version\<close>

definition hr_set :: "bigint_lib \<Rightarrow> htree option \<Rightarrow> val \<Rightarrow> val \<Rightarrow> htree option" where
  "hr_set L r k v = Some (case r of None \<Rightarrow> HLeaf [(k, v)] | Some T \<Rightarrow> hset L T k v 0)"

definition hr_remove :: "bigint_lib \<Rightarrow> htree option \<Rightarrow> val \<Rightarrow> htree option \<times> bool" where
  "hr_remove L r k = (case r of None \<Rightarrow> (None, False) | Some T \<Rightarrow> hremove L T k 0)"

definition hr_clean :: "bigint_lib \<Rightarrow> htree option \<Rightarrow> val \<Rightarrow> bool" where
  "hr_clean L r k = (case r of None \<Rightarrow> True | Some T \<Rightarrow> hclean L T k 0)"

definition hr_rep :: "bigint_lib \<Rightarrow> ty \<Rightarrow> ty \<Rightarrow> bytes set \<Rightarrow> tx \<Rightarrow> htree option \<Rightarrow> bool" where
  "hr_rep L kt vt S t r \<longleftrightarrow> pm_holds L S t \<and> no_collision pmap_cell_key S \<and> hr_good L kt vt 0 r \<and> h_stored L r \<subseteq> S"

definition hr_can_set :: "bigint_lib \<Rightarrow> ty \<Rightarrow> ty \<Rightarrow> bytes set \<Rightarrow> htree option \<Rightarrow> val \<Rightarrow> val \<Rightarrow> bool" where
  "hr_can_set L kt vt S r k v \<longleftrightarrow> entry_ok L kt vt (k, v) \<and> hr_clean L r k \<and> length (hr_entries r) + 1 < 2 ^ 32
     \<and> no_collision pmap_cell_key (S \<union> h_stored L (hr_set L r k v))"

lemma hr_good_height: "hr_good L kt vt 0 (Some T) \<Longrightarrow> MAX_LEVELS < n \<Longrightarrow> h_height T < n"
  using hinv_height [of L kt vt T 0] by simp

lemma hkeys_hash: "bigint_ok L \<Longrightarrow> k \<in> hkeys L kt \<Longrightarrow> \<exists>h. hash_key L k = Some h"
  using wt_vcodec [of L kt k] by (auto simp: hkeys_def hash_key_def vcodec_def)

lemma pm_holds_ok: "pm_holds L S t \<Longrightarrow> bigint_ok L"
  by (simp add: holds_def)

lemma pm_get_root:
  assumes "is_keyable kt" "hr_rep L kt vt S t r" "k \<in> hkeys L kt" "MAX_LEVELS < n"
  shows "\<exists>t'. pm_get n L kt vt t (h_root L r) k = Some (map_of (hr_entries r) k, t') \<and> pm_holds L S t'"
proof (cases r)
  case None
  then show ?thesis using assms(2) by (simp add: pm_get_def hr_rep_def)
next
  case (Some T)
  from assms(2) Some have T: "pm_holds L S t" "no_collision pmap_cell_key S" "h_wf L kt vt T" "h_cells L T \<subseteq> S" "hinv L 0 T"
    by (auto simp: hr_rep_def)
  obtain h where h: "hash_key L k = Some h" using hkeys_hash [OF pm_holds_ok [OF T(1)] assms(3)] by blast
  have "h_height T < n" using hr_good_height [of L kt vt T n] T assms(4) by simp
  from pm_get_at_refines [OF T(1-4) this h, of 0] show ?thesis
    using Some h h_hash_nonempty [OF T(2,4)] hget_map_of [OF assms(1,3) T(3,5)] by (simp add: pm_get_def)
qed

lemma pm_set_root:
  assumes "is_keyable kt" "hr_rep L kt vt S t r" "hr_can_set L kt vt S r k v" "MAX_LEVELS < n"
  shows "\<exists>t'. pm_set n L kt vt t (h_root L r) k v = Some (h_root L (hr_set L r k v), t')
     \<and> hr_rep L kt vt (S \<union> h_stored L (hr_set L r k v)) t' (hr_set L r k v)
     \<and> map_of (hr_entries (hr_set L r k v)) = (map_of (hr_entries r))(k \<mapsto> v)"
proof -
  have hold: "pm_holds L S t" using assms(2) by (simp add: hr_rep_def)
  note L = pm_holds_ok [OF hold]
  have e: "entry_ok L kt vt (k, v)" and nc: "no_collision pmap_cell_key (S \<union> h_stored L (hr_set L r k v))"
    using assms(3) by (auto simp: hr_can_set_def)
  obtain h where h: "hash_key L k = Some h" using hash_key_ok [OF L e] by auto
  obtain n' where n: "n = Suc n'" using assms(4) by (cases n) auto
  show ?thesis
  proof (cases r)
    case None
    then have "\<exists>t'. pm_write_leaf L t [(k, v)] = Some (h_hash L (HLeaf [(k, v)]), t') \<and> pm_holds L (S \<union> h_cells L (HLeaf [(k, v)])) t'"
      using pm_write_leaf_stored [OF hold, of kt vt "[(k, v)]"] e nc hleaf_single [OF L e] by (simp add: hr_set_def)
    moreover have "hinv L 0 (HLeaf [(k, v)])" "h_wf L kt vt (HLeaf [(k, v)])" using e by auto
    ultimately show ?thesis using None h nc n by (auto simp: pm_set_def hr_set_def hr_rep_def)
  next
    case (Some T)
    have T: "h_wf L kt vt T" "hinv L 0 T" "h_cells L T \<subseteq> S" "hclean L T k 0" "length (hentries T) + 1 < 2 ^ 32"
      using assms(2,3) Some by (auto simp: hr_rep_def hr_can_set_def hr_clean_def)
    have "h_height T < n" using hr_good_height [of L kt vt T n] T assms(4) by simp
    from pm_set_at_refines [OF hold T(1,3) this T(5) h e, of 0] nc Some obtain t' where
      "pm_set_at n L kt vt t (h_hash L T) k v h 0 = Some (h_hash L (hset L T k v 0), t')"
      "pm_holds L (S \<union> h_cells L (hset L T k v 0)) t'" by (auto simp: hr_set_def)
    then show ?thesis using Some h nc hset_wf [OF L e T(1,5), of 0] hset_map [OF L assms(1) e T(5,1,2,4)]
      by (simp add: pm_set_def hr_set_def hr_rep_def)
  qed
qed

lemma pm_remove_root:
  assumes "is_keyable kt" "hr_rep L kt vt S t r" "k \<in> hkeys L kt" "MAX_LEVELS < n"
    and "no_collision pmap_cell_key (S \<union> h_stored L (fst (hr_remove L r k)))"
  shows "\<exists>t'. pm_remove n L kt vt t (h_root L r) k = Some ((h_root L (fst (hr_remove L r k)), k \<in> fst ` set (hr_entries r)), t')
     \<and> hr_rep L kt vt (S \<union> h_stored L (fst (hr_remove L r k))) t' (fst (hr_remove L r k))
     \<and> map_of (hr_entries (fst (hr_remove L r k))) = (map_of (hr_entries r))(k := None)"
proof (cases r)
  case None
  then show ?thesis using assms(2) by (auto simp: pm_remove_def hr_rep_def hr_remove_def)
next
  case (Some T)
  from assms(2) Some have T: "pm_holds L S t" "h_wf L kt vt T" "h_cells L T \<subseteq> S" "hinv L 0 T" "no_collision pmap_cell_key S"
    by (auto simp: hr_rep_def)
  obtain h where h: "hash_key L k = Some h" using hkeys_hash [OF pm_holds_ok [OF T(1)] assms(3)] by blast
  have ht: "h_height T < n" using hr_good_height [of L kt vt T n] T assms(4) by simp
  obtain R f where R: "hremove L T k 0 = (R, f)" by fastforce
  have m: "hr_removed L kt vt 0 k T (R, f)" using hremove_map [OF assms(1,3) T(2,4)] R by simp
  from pm_remove_at_refines [OF T(1-3) ht h R T(5)] assms(5) Some R show ?thesis
    using h h_hash_nonempty [OF T(5,3)] m by (auto simp: pm_remove_def hr_remove_def hr_rep_def hr_removed_def)
qed

lemma pm_entries_root:
  assumes "hr_rep L kt vt S t r" "MAX_LEVELS < n"
  shows "\<exists>t'. pm_entries n L kt vt t (h_root L r) = Some (hr_entries r, t') \<and> pm_holds L S t'"
proof (cases r)
  case None
  then show ?thesis using assms(1) by (simp add: pm_entries_def hr_rep_def)
next
  case (Some T)
  from assms(1) Some have T: "pm_holds L S t" "no_collision pmap_cell_key S" "h_wf L kt vt T" "h_cells L T \<subseteq> S" "hinv L 0 T"
    by (auto simp: hr_rep_def)
  have "h_height T < n" using hr_good_height [of L kt vt T n] T assms(2) by simp
  from pm_collect_refines [OF T(1-4) this] show ?thesis using Some h_hash_nonempty [OF T(2,4)] by (simp add: pm_entries_def)
qed

interpretation pm: persistent_map "hr_rep L kt vt" "h_root L" "\<lambda>r. map_of (hr_entries r)" "hr_set L"
  "\<lambda>S r k v. S \<union> h_stored L (hr_set L r k v)" "\<lambda>S r k v. is_keyable kt \<and> MAX_LEVELS < n \<and> hr_can_set L kt vt S r k v"
  "{k \<in> hkeys L kt. MAX_LEVELS < n}" "pm_get n L kt vt" "pm_set n L kt vt" for L kt vt n
proof
  fix S t r k v
  assume r: "hr_rep L kt vt S t r" and k: "k \<in> {k \<in> hkeys L kt. MAX_LEVELS < n}"
  then have kt: "is_keyable kt" by (simp add: hkeys_def)
  show "\<exists>t'. pm_get n L kt vt t (h_root L r) k = Some (map_of (hr_entries r) k, t') \<and> (\<forall>q. hr_rep L kt vt S t q \<longrightarrow> hr_rep L kt vt S t' q)"
    using pm_get_root [OF kt r, of k n] k by (auto simp: hr_rep_def)
  assume c: "is_keyable kt \<and> MAX_LEVELS < n \<and> hr_can_set L kt vt S r k v"
  then show "\<exists>t'. pm_set n L kt vt t (h_root L r) k v = Some (h_root L (hr_set L r k v), t')
      \<and> hr_rep L kt vt (S \<union> h_stored L (hr_set L r k v)) t' (hr_set L r k v)
      \<and> (\<forall>q. hr_rep L kt vt S t q \<longrightarrow> hr_rep L kt vt (S \<union> h_stored L (hr_set L r k v)) t' q)"
    using pm_set_root [OF kt r, of k v n] by (auto simp: hr_rep_def hr_can_set_def)
  show "map_of (hr_entries (hr_set L r k v)) k' = (if k' = k then Some v else map_of (hr_entries r) k')" for k'
    using pm_set_root [OF kt r, of k v n] c by auto
qed
end
