(* ===== verification/PMapProps.thy ===== *)
theory PMapProps
  imports PMapMap
begin

section \<open>Properties of the persistent map\<close>

subsection \<open>A concrete map\<close>

text \<open>One key in a leaf, and the tries after a second key with another, respectively the same,
  first slot. The node hashes are computed by evaluation.\<close>

definition demo_leaf :: "u64 \<Rightarrow> u64 \<Rightarrow> htree" where
  "demo_leaf k v = HLeaf [(VU64 k, VU64 v)]"

definition demo_split :: htree where
  "demo_split = HNode [(5, demo_leaf 0 100), (10, demo_leaf 1 200)]"

definition demo_skipped :: htree where
  "demo_skipped = HNode [(18, demo_leaf 0 100), (23, demo_leaf 32 200)]"

lemma pmap_ns_bytes: "be_bytes 16 (unat PMAP_NODE_NS)
   = [0x50, 0x4D, 0x41, 0x50, 0x4E, 0x4F, 0x44, 0x45, 0x50, 0x4D, 0x41, 0x50, 0x4E, 0x4F, 0x44, 0x45]"
  by (simp add: PMAP_NODE_NS_def eval_simps)

lemmas pmap_cell_key_eval = pmap_cell_key_def child_def pmap_ns_bytes

lemma zero_ns_bytes: "be_bytes 16 (unat (0 :: u128)) = [0, 0, 0, 0, 0, 0, 0, 0, 0, 0, 0, 0, 0, 0, 0, 0]"
  by (simp add: eval_simps)

lemma demo_leaf_bytes:
  "h_bytes twos_lib (demo_leaf k v) = [2, 0, 0, 0, 1, 0, 0, 0, 9, 0x12] @ be_bytes 8 (unat k) @ [0, 0, 0, 9, 0x12] @ be_bytes 8 (unat v)"
  by (simp add: demo_leaf_def h_bytes.simps serialize_leaf_def sort_entries_def entry_to_bytes_def eval_simps)

lemma demo_leaf_hash:
  "h_hash twos_lib (demo_leaf 0 100) = 0xef83020fc1630b55f5f3908920f425a8"
  "h_hash twos_lib (demo_leaf 1 200) = 0x35c1e73d78a06d11c25b13f91e45fe71"
  "h_hash twos_lib (demo_leaf 32 200) = 0x55b373668328b1e7075e2737ae9b0ebc"
  unfolding h_hash_def demo_leaf_bytes pmap_cell_key_eval by (simp_all add: eval_simps) code_simp+

lemma demo_bitmaps: "be_bytes 4 (unat (bitmap_of [5, 10])) = [0, 0, 4, 32]" "be_bytes 4 (unat (bitmap_of [18, 23])) = [0, 132, 0, 0]"
  by (simp_all add: bitmap_of_def slot_bit_def push_bit_eq_mult eval_simps)

lemma demo_hash_bytes:
  "be_bytes 16 0xef83020fc1630b55f5f3908920f425a8 = [239, 131, 2, 15, 193, 99, 11, 85, 245, 243, 144, 137, 32, 244, 37, 168]"
  "be_bytes 16 0x35c1e73d78a06d11c25b13f91e45fe71 = [53, 193, 231, 61, 120, 160, 109, 17, 194, 91, 19, 249, 30, 69, 254, 113]"
  "be_bytes 16 0x55b373668328b1e7075e2737ae9b0ebc = [85, 179, 115, 102, 131, 40, 177, 231, 7, 94, 39, 55, 174, 155, 14, 188]"
  by (simp_all add: eval_simps)

lemma h_bytes_node: "h_bytes L (HNode kids) = serialize_inner (bitmap_of (map fst kids)) (map (\<lambda>p. h_hash L (snd p)) kids)"
  by (simp add: h_bytes.simps h_hash_def)

lemma demo_inner_bytes:
  "h_bytes twos_lib demo_split = [1, 0, 0, 4, 32, 2, 239, 131, 2, 15, 193, 99, 11, 85, 245, 243, 144, 137, 32, 244, 37, 168,
     53, 193, 231, 61, 120, 160, 109, 17, 194, 91, 19, 249, 30, 69, 254, 113]"
  "h_bytes twos_lib demo_skipped = [1, 0, 132, 0, 0, 2, 239, 131, 2, 15, 193, 99, 11, 85, 245, 243, 144, 137, 32, 244, 37, 168,
     85, 179, 115, 102, 131, 40, 177, 231, 7, 94, 39, 55, 174, 155, 14, 188]"
  unfolding demo_split_def demo_skipped_def h_bytes_node serialize_inner_def
  by (simp_all add: demo_leaf_hash demo_hash_bytes demo_bitmaps)

lemma demo_inner_hash:
  "h_hash twos_lib demo_split = 0x0b4d2f2924cef179f8d13c8bdbd2675a"
  "h_hash twos_lib demo_skipped = 0x5dde6992088e474985e8972ccab00de5"
  unfolding h_hash_def demo_inner_bytes pmap_cell_key_eval by code_simp+

lemma demo_key_hash:
  "hash_key twos_lib (VU64 0) = Some 0xda3666810ead8645"
  "hash_key twos_lib (VU64 1) = Some 0xda3666810ead850a"
  "hash_key twos_lib (VU64 32) = Some 0xda3666810ead5ee5"
  by (simp_all add: hash_key_def child_def zero_ns_bytes eval_simps) code_simp+

lemma demo_slots:
  "hslot twos_lib (VU64 0) 0 = 5" "hslot twos_lib (VU64 1) 0 = 10" "hslot twos_lib (VU64 32) 0 = 5"
  "hslot twos_lib (VU64 0) (Suc 0) = 18" "hslot twos_lib (VU64 32) (Suc 0) = 23"
  unfolding hslot_def demo_key_hash option.sel bits_at_def by code_simp+

lemma demo_entry: "entry_ok twos_lib TU64 TU64 (VU64 k, VU64 v)"
  by (simp add: entry_ok_def eval_simps)

lemma upto_32: "[0..<32] = [0,1,2,3,4,5,6,7,8,9,10,11,12,13,14,15,16,17,18,19,20,21,22,23,24,25,26,27,28,29,30,31::nat]"
  by code_simp

lemma demo_buckets:
  "hbuckets twos_lib 0 [(VU64 0, v), (VU64 1, w)] = [(5, [(VU64 0, v)]), (10, [(VU64 1, w)])]"
  "hbuckets twos_lib 0 [(VU64 0, v), (VU64 32, w)] = [(5, [(VU64 0, v), (VU64 32, w)])]"
  "hbuckets twos_lib (Suc 0) [(VU64 0, v), (VU64 32, w)] = [(18, [(VU64 0, v)]), (23, [(VU64 32, w)])]"
  by (simp_all add: hbuckets_def upto_32 demo_slots)

lemma hbuild_single: "bigint_ok L \<Longrightarrow> entry_ok L kt vt e \<Longrightarrow> hbuild L [e] level = HLeaf [e]"
  by (simp add: hbuild.simps [of L "[e]"] hleaf_single)

lemma demo_builds:
  "hset twos_lib (demo_leaf 0 100) (VU64 1) (VU64 200) 0 = demo_split"
  "hset twos_lib (demo_leaf 0 100) (VU64 32) (VU64 200) 0 = demo_skipped"
  by (simp_all add: demo_leaf_def demo_split_def demo_skipped_def position_def value_eq_def MAX_LEVELS_def
      hbuild.simps [of twos_lib "[_, _]"] demo_buckets hbuild_single [OF bigint_ok_twos_lib demo_entry])

definition demo_map_tx :: tx where
  "demo_map_tx = (tx_new empty_kv)\<lparr>writes := [(0xef83020fc1630b55f5f3908920f425a8, VBytes (h_bytes twos_lib (demo_leaf 0 100)))]\<rparr>"

lemma demo_map_holds: "pm_holds twos_lib (h_cells twos_lib (demo_leaf 0 100)) demo_map_tx"
  using demo_leaf_hash(1)
  by (simp add: demo_leaf_def h_hash_def holds_def bigint_ok_twos_lib demo_map_tx_def settled_def tx_new_def tx_new_with_context_def
      resolved_map_def parent_lookup_def stored_in_def node_view_def cell_value_def hm_get_def as_node_bytes_def)

lemma demo_split_cells: "h_cells twos_lib demo_split = {h_bytes twos_lib demo_split, h_bytes twos_lib (demo_leaf 0 100), h_bytes twos_lib (demo_leaf 1 200)}"
  "h_cells twos_lib demo_skipped = {h_bytes twos_lib demo_skipped, h_bytes twos_lib (demo_leaf 0 100), h_bytes twos_lib (demo_leaf 32 200)}"
  by (simp_all add: demo_split_def demo_skipped_def demo_leaf_def insert_commute)

lemma demo_cells: "h_cells twos_lib (demo_leaf k v) = {h_bytes twos_lib (demo_leaf k v)}"
  by (simp add: demo_leaf_def)

lemma demo_nc:
  "no_collision pmap_cell_key (h_cells twos_lib (demo_leaf 0 100))"
  "no_collision pmap_cell_key (h_cells twos_lib (demo_leaf 0 100) \<union> h_cells twos_lib demo_split)"
  "no_collision pmap_cell_key (h_cells twos_lib (demo_leaf 0 100) \<union> h_cells twos_lib demo_skipped)"
  unfolding demo_split_cells demo_cells no_collision_def
  using demo_leaf_hash demo_inner_hash unfolding h_hash_def by auto

lemma demo_wf: "h_wf twos_lib TU64 TU64 (demo_leaf k v)" "hinv twos_lib 0 (demo_leaf k v)"
  "h_wf twos_lib TU64 TU64 demo_skipped"
  using demo_entry by (auto simp: demo_leaf_def demo_skipped_def)

lemma demo_rep: "hr_rep twos_lib TU64 TU64 (h_cells twos_lib (demo_leaf 0 100)) demo_map_tx (Some (demo_leaf 0 100))"
  using demo_map_holds demo_nc(1) demo_wf by (simp add: hr_rep_def)

lemma demo_root_hash: "h_root twos_lib (Some (demo_leaf 0 100)) = 0xef83020fc1630b55f5f3908920f425a8"
  by (simp add: demo_leaf_hash)

lemma demo_can_set: "hr_can_set twos_lib TU64 TU64 (h_cells twos_lib (demo_leaf 0 100)) (Some (demo_leaf 0 100)) (VU64 1) (VU64 200)"
  using demo_nc(2) demo_entry demo_builds(1)
  by (simp add: hr_can_set_def hr_clean_def hr_set_def) (simp add: demo_leaf_def demo_slots)

lemma demo_levels: "MAX_LEVELS < 11"
  by (simp add: MAX_LEVELS_def)

lemma demo_hkeys: "VU64 k \<in> hkeys twos_lib TU64"
  by (simp add: hkeys_def)

subsection \<open>Properties\<close>

text \<open>C15 (refinement): \<^verbatim>\<open>pmap::get\<close> is the lookup in the finite map the trie represents. On a stored
  version that satisfies the trie invariant it returns, for any key of a keyable type, the value
  bound to the key or nothing; eleven levels of recursion are enough; every stored node stays
  readable.\<close>

theorem pm_get_correct:
  assumes "is_keyable kt" and "hr_rep L kt vt S t r" and "k \<in> hkeys L kt" and "MAX_LEVELS < n"
  shows "\<exists>t'. pm_get n L kt vt t (h_root L r) k = Some (map_of (hr_entries r) k, t') \<and> pm_holds L S t'"
  using assms by (rule pm_get_root)

theorem pm_get_correct_witness:
  "\<exists>t'. pm_get 11 twos_lib TU64 TU64 demo_map_tx 0xef83020fc1630b55f5f3908920f425a8 (VU64 0) = Some (Some (VU64 100), t')"
  using pm_get_correct [OF _ demo_rep demo_hkeys demo_levels, of 0, unfolded demo_root_hash] by (auto simp: demo_leaf_def)



text \<open>C16 (refinement): \<^verbatim>\<open>pmap::remove\<close> deletes the binding and reports whether there was one. It
  returns; the version at the returned hash (\<open>EMPTY\<close> for an empty map) satisfies the trie invariant
  and its map is the old one without the key.\<close>

theorem pm_remove_correct:
  assumes "is_keyable kt" and "hr_rep L kt vt S t r" and "k \<in> hkeys L kt" and "MAX_LEVELS < n"
    and "no_collision pmap_cell_key (S \<union> h_stored L (fst (hr_remove L r k)))"
  shows "\<exists>r' S' t'. pm_remove n L kt vt t (h_root L r) k = Some ((h_root L r', k \<in> fst ` set (hr_entries r)), t')
     \<and> hr_rep L kt vt S' t' r' \<and> S \<subseteq> S' \<and> map_of (hr_entries r') = (map_of (hr_entries r))(k := None)"
  using pm_remove_root [OF assms] by blast

theorem pm_remove_correct_witness:
  "\<exists>r' S' t'. pm_remove 11 twos_lib TU64 TU64 demo_map_tx 0xef83020fc1630b55f5f3908920f425a8 (VU64 0) = Some ((h_root twos_lib r', True), t')
     \<and> hr_rep twos_lib TU64 TU64 S' t' r' \<and> map_of (hr_entries r') = Map.empty"
proof -
  have "fst (hr_remove twos_lib (Some (demo_leaf 0 100)) (VU64 0)) = None"
    by (simp add: hr_remove_def demo_leaf_def position_def remove_at_def)
  then have "no_collision pmap_cell_key (h_cells twos_lib (demo_leaf 0 100) \<union> h_stored twos_lib (fst (hr_remove twos_lib (Some (demo_leaf 0 100)) (VU64 0))))"
    using demo_nc(1) by simp
  from pm_remove_correct [OF _ demo_rep demo_hkeys demo_levels this, unfolded demo_root_hash] show ?thesis
    by (fastforce simp: demo_leaf_def)
qed

text \<open>\<^verbatim>\<open>pmap::entries\<close> returns every binding of the map exactly once: the entries have
  distinct keys and a lookup in the version finds exactly them.\<close>

theorem pm_entries_correct:
  assumes "is_keyable kt" and "hr_rep L kt vt S t r" and "MAX_LEVELS < n"
  shows "\<exists>es t'. pm_entries n L kt vt t (h_root L r) = Some (es, t') \<and> distinct (map fst es)
     \<and> (\<forall>k\<in>hkeys L kt. \<exists>t''. pm_get n L kt vt t' (h_root L r) k = Some (map_of es k, t''))"
proof -
  obtain t' where t': "pm_entries n L kt vt t (h_root L r) = Some (hr_entries r, t')" "pm_holds L S t'"
    using pm_entries_root [OF assms(2,3)] by blast
  have "hr_rep L kt vt S t' r" using assms(2) t'(2) by (simp add: hr_rep_def)
  from pm_get_root [OF assms(1) this _ assms(3)]
  have "\<forall>k\<in>hkeys L kt. \<exists>t''. pm_get n L kt vt t' (h_root L r) k = Some (map_of (hr_entries r) k, t'')" by blast
  moreover have "distinct (map fst (hr_entries r))"
    using assms(2) hentries_distinct [of L kt vt _ 0] by (cases r) (auto simp: hr_rep_def)
  ultimately show ?thesis using t'(1) by blast
qed

theorem pm_entries_correct_witness:
  "\<exists>es t'. pm_entries 11 twos_lib TU64 TU64 demo_map_tx 0xef83020fc1630b55f5f3908920f425a8 = Some (es, t') \<and> distinct (map fst es)"
  using pm_entries_correct [OF _ demo_rep demo_levels, unfolded demo_root_hash] by auto

text \<open>Persistence. A \<^verbatim>\<open>set\<close> on any version leaves every other stored version as it was:
  a lookup through an older root hash after the update still gives the older value.\<close>

theorem pm_set_keeps_versions:
  assumes "is_keyable kt" and "hr_rep L kt vt S t r" and "hr_can_set L kt vt S r k v" and "MAX_LEVELS < n"
    and "hr_rep L kt vt S t q" and "k' \<in> hkeys L kt"
  shows "\<exists>h t1 t2. pm_set n L kt vt t (h_root L r) k v = Some (h, t1)
     \<and> pm_get n L kt vt t1 (h_root L q) k' = Some (map_of (hr_entries q) k', t2)"
proof -
  have "k \<in> hkeys L kt" using assms(1,3) by (simp add: hr_can_set_def hkeys_def entry_ok_def)
  then show ?thesis using pm.old_version_after_put [OF assms(2) _ _ assms(5), where n = n] assms by auto
qed

theorem pm_set_keeps_versions_witness:
  "\<exists>h t1 t2. pm_set 11 twos_lib TU64 TU64 demo_map_tx 0xef83020fc1630b55f5f3908920f425a8 (VU64 1) (VU64 200) = Some (h, t1)
     \<and> pm_get 11 twos_lib TU64 TU64 t1 0xef83020fc1630b55f5f3908920f425a8 (VU64 1) = Some (None, t2)"
  using pm_set_keeps_versions [OF _ demo_rep demo_can_set demo_levels demo_rep demo_hkeys [of 1], unfolded demo_root_hash]
  by (auto simp: demo_leaf_def)


end
