(* ===== verification/PVec.thy ===== *)
theory PVec
  imports PMap
begin

section \<open>The persistent vector\<close>

text \<open>
  \<^verbatim>\<open>crates/rend/src/pvec.rs\<close>: a 32-way trie over indices whose nodes are content-addressed cells.
  The node format, the depth for a length, the slot of an index, and the operations \<^verbatim>\<open>to_vec\<close>,
  \<^verbatim>\<open>get\<close>, \<^verbatim>\<open>set\<close>, \<^verbatim>\<open>push\<close>, \<^verbatim>\<open>reachable_cells\<close> and \<^verbatim>\<open>merge_three_way\<close>. The recursion goes down the
  level, so it needs no fuel; \<open>None\<close> is a panic (an encoding or decoding panic, or \<^verbatim>\<open>level - 1\<close> on
  level 0, which a well-formed vector never reaches). A \<^verbatim>\<open>Result\<close> is a \<open>res\<close>.
\<close>

definition BRANCH :: nat where "BRANCH = 32"
definition BITS_PER_LEVEL :: nat where "BITS_PER_LEVEL = 5"
definition PVEC_NODE_NS :: u128 where "PVEC_NODE_NS = 0x505645434E4F4445505645434E4F4445"

datatype pvec_node = VInner "u128 list" | VLeaf "val list"

definition leading_zeros :: "u64 \<Rightarrow> nat" where
  "leading_zeros w = length (takeWhile (\<lambda>i. \<not> bit w i) (rev [0..<64]))"

definition div_ceil :: "nat \<Rightarrow> nat \<Rightarrow> nat" where
  "div_ceil a b = (if a mod b = 0 then a div b else a div b + 1)"

definition depth_for :: "u64 \<Rightarrow> nat" where
  "depth_for len =
     (if len \<le> of_nat BRANCH then 0
      else (let high = len - 1; bits = 64 - leading_zeros high in div_ceil bits BITS_PER_LEVEL - 1))"

definition slot_at :: "u64 \<Rightarrow> nat \<Rightarrow> nat" where
  "slot_at i level = unat (drop_bit (level * BITS_PER_LEVEL) i AND (of_nat BRANCH - 1))"

definition pv_cell_key :: "bytes \<Rightarrow> u128" where
  "pv_cell_key bs = child PVEC_NODE_NS bs"

subsection \<open>Node format\<close>

definition pv_serialize_inner :: "u128 list \<Rightarrow> bytes" where
  "pv_serialize_inner children =
     TAG_INNER # of_nat (length children) # concat (map (\<lambda>h. be_bytes 16 (unat h)) children)"

definition elem_to_bytes :: "bigint_lib \<Rightarrow> val \<Rightarrow> bytes option" where
  "elem_to_bytes L v = do { vb \<leftarrow> serialize L v; Some (u32_be (length vb) @ vb) }"

definition pv_serialize_leaf :: "bigint_lib \<Rightarrow> val list \<Rightarrow> bytes option" where
  "pv_serialize_leaf L elements = do {
     bss \<leftarrow> mapM (elem_to_bytes L) elements;
     Some (TAG_LEAF # of_nat (length elements) # concat bss) }"

primrec read_elems :: "bigint_lib \<Rightarrow> ty \<Rightarrow> nat \<Rightarrow> bytes \<Rightarrow> val list parse" where
  "read_elems L et 0 bs = Got []"
| "read_elems L et (Suc n) bs =
     pbind (or_miss (do { (vl, r) \<leftarrow> read_u32 bs; split_at vl r })) (\<lambda>(vb, r1).
     pbind (deserialize L vb et) (\<lambda>v.
     pbind (read_elems L et n r1) (\<lambda>vs. Got (v # vs))))"

definition pv_deserialize_node :: "bigint_lib \<Rightarrow> ty \<Rightarrow> bytes \<Rightarrow> pvec_node parse" where
  "pv_deserialize_node L et bs = (case bs of [] \<Rightarrow> Miss | tag # rest \<Rightarrow>
     if tag = TAG_INNER then or_miss (do {
       (nb, r) \<leftarrow> split_at 1 rest;
       children \<leftarrow> read_hashes (unat (hd nb)) r;
       Some (VInner children) })
     else if tag = TAG_LEAF then
       pbind (or_miss (split_at 1 rest)) (\<lambda>(nb, r).
       pbind (read_elems L et (unat (hd nb)) r) (\<lambda>vs. Got (VLeaf vs)))
     else Miss)"

definition pv_read_node :: "bigint_lib \<Rightarrow> ty \<Rightarrow> tx \<Rightarrow> u128 \<Rightarrow> (pvec_node option \<times> tx) option" where
  "pv_read_node L et t h = read_node_with (pv_deserialize_node L et) L t h"

definition pv_write_node :: "bigint_lib \<Rightarrow> tx \<Rightarrow> bytes \<Rightarrow> (u128 \<times> tx) option" where
  "pv_write_node L t b = write_node_with pv_cell_key L t b"

definition pv_write_leaf :: "bigint_lib \<Rightarrow> tx \<Rightarrow> val list \<Rightarrow> (u128 \<times> tx) option" where
  "pv_write_leaf L t vs = do { b \<leftarrow> pv_serialize_leaf L vs; pv_write_node L t b }"

definition pv_write_inner :: "bigint_lib \<Rightarrow> tx \<Rightarrow> u128 list \<Rightarrow> (u128 \<times> tx) option" where
  "pv_write_inner L t cs = pv_write_node L t (pv_serialize_inner cs)"

subsection \<open>Reading\<close>

fun pv_collect_kids :: "(tx \<Rightarrow> u128 \<Rightarrow> nat \<Rightarrow> val list res) \<Rightarrow> tx \<Rightarrow> u128 list \<Rightarrow> nat \<Rightarrow> nat \<Rightarrow> nat \<Rightarrow> val list res" where
  "pv_collect_kids f t [] subtree_capacity remaining emitted = rok [] t"
| "pv_collect_kids f t (c # cs) subtree_capacity remaining emitted =
     (if emitted \<ge> remaining then rok [] t
      else (let want = min subtree_capacity (remaining - emitted) in
        rbind (f t c want) (\<lambda>xs t1.
        rbind (pv_collect_kids f t1 cs subtree_capacity remaining (emitted + length xs)) (\<lambda>ys t2.
        rok (xs @ ys) t2))))"

fun pv_collect_elements :: "nat \<Rightarrow> bigint_lib \<Rightarrow> ty \<Rightarrow> tx \<Rightarrow> u128 \<Rightarrow> nat \<Rightarrow> val list res" where
  "pv_collect_elements level L et t node_hash remaining = do {
     (node, t1) \<leftarrow> pv_read_node L et t node_hash;
     (case node of
        None \<Rightarrow> rerr (PVecMissingNode ''missing node during full-walk'') t1
      | Some (VLeaf elements) \<Rightarrow> rok (take (min (length elements) remaining) elements) t1
      | Some (VInner children) \<Rightarrow>
          pv_collect_kids
            (\<lambda>t' c want. case level of 0 \<Rightarrow> None | Suc l \<Rightarrow> pv_collect_elements l L et t' c want) t1 children
            (unat (push_bit (level * BITS_PER_LEVEL) 1 :: u64)) remaining 0) }"

definition pv_to_vec :: "bigint_lib \<Rightarrow> ty \<Rightarrow> tx \<Rightarrow> u128 \<Rightarrow> u64 \<Rightarrow> val list res" where
  "pv_to_vec L et t root len =
     (if len = 0 then rok [] t else pv_collect_elements (depth_for len) L et t root (unat len))"

fun pv_get_at :: "nat \<Rightarrow> bigint_lib \<Rightarrow> ty \<Rightarrow> tx \<Rightarrow> u128 \<Rightarrow> u64 \<Rightarrow> (val option \<times> tx) option" where
  "pv_get_at level L et t node_hash i = do {
     (node, t1) \<leftarrow> pv_read_node L et t node_hash;
     (case node of
        None \<Rightarrow> Some (None, t1)
      | Some (VLeaf elements) \<Rightarrow>
          Some (if slot_at i 0 < length elements then Some (elements ! slot_at i 0) else None, t1)
      | Some (VInner children) \<Rightarrow>
          (let slot = slot_at i level in
           if slot < length children
           then (case level of 0 \<Rightarrow> None | Suc l \<Rightarrow> pv_get_at l L et t1 (children ! slot) i)
           else Some (None, t1))) }"

definition pv_get :: "bigint_lib \<Rightarrow> ty \<Rightarrow> tx \<Rightarrow> u128 \<Rightarrow> u64 \<Rightarrow> u64 \<Rightarrow> val res" where
  "pv_get L et t root len i =
     (if i \<ge> len then rerr (PVecOutOfBounds i len) t
      else do {
        (v, t1) \<leftarrow> pv_get_at (depth_for len) L et t root i;
        (case v of Some x \<Rightarrow> rok x t1 | None \<Rightarrow> rerr (PVecMissingNode ''missing node along read path'') t1) })"

declare pv_collect_elements.simps [simp del] pv_get_at.simps [simp del]

subsection \<open>Updating\<close>

fun pv_set_at :: "nat \<Rightarrow> bigint_lib \<Rightarrow> ty \<Rightarrow> tx \<Rightarrow> u128 \<Rightarrow> u64 \<Rightarrow> val \<Rightarrow> (u128 option \<times> tx) option" where
  "pv_set_at level L et t node_hash i v = do {
     (node, t1) \<leftarrow> pv_read_node L et t node_hash;
     (case node of
        None \<Rightarrow> Some (None, t1)
      | Some (VLeaf elements) \<Rightarrow>
          (if slot_at i 0 < length elements then do {
             (w, t2) \<leftarrow> pv_write_leaf L t1 (elements[slot_at i 0 := v]);
             Some (Some w, t2) }
           else Some (None, t1))
      | Some (VInner children) \<Rightarrow>
          (let slot = slot_at i level in
           if slot < length children then do {
             (c, t2) \<leftarrow> (case level of 0 \<Rightarrow> None | Suc l \<Rightarrow> pv_set_at l L et t1 (children ! slot) i v);
             (case c of
                None \<Rightarrow> Some (None, t2)
              | Some new_child \<Rightarrow> do {
                  (w, t3) \<leftarrow> pv_write_inner L t2 (children[slot := new_child]);
                  Some (Some w, t3) }) }
           else Some (None, t1))) }"

declare pv_set_at.simps [simp del]

definition pv_set :: "bigint_lib \<Rightarrow> ty \<Rightarrow> tx \<Rightarrow> u128 \<Rightarrow> u64 \<Rightarrow> u64 \<Rightarrow> val \<Rightarrow> u128 res" where
  "pv_set L et t root len i v =
     (if i \<ge> len then rerr (PVecOutOfBounds i len) t
      else do {
        (r, t1) \<leftarrow> pv_set_at (depth_for len) L et t root i v;
        (case r of Some h \<Rightarrow> rok h t1 | None \<Rightarrow> rerr (PVecMissingNode ''missing node along write path'') t1) })"

primrec pv_push_at :: "nat \<Rightarrow> bigint_lib \<Rightarrow> ty \<Rightarrow> tx \<Rightarrow> u128 \<Rightarrow> u64 \<Rightarrow> val \<Rightarrow> (u128 \<times> tx) option" where
  "pv_push_at 0 L et t node_hash i v = do {
     (node, t1) \<leftarrow> pv_read_node L et t node_hash;
     let elements = (case node of Some (VLeaf es) \<Rightarrow> es | _ \<Rightarrow> []);
     pv_write_leaf L t1 (elements @ [v]) }"
| "pv_push_at (Suc l) L et t node_hash i v = do {
     (node, t1) \<leftarrow> pv_read_node L et t node_hash;
     let children = (case node of Some (VInner cs) \<Rightarrow> cs | _ \<Rightarrow> []);
     let slot = slot_at i (Suc l);
     (if slot \<ge> length children then do {
        (new_child, t2) \<leftarrow> pv_push_at l L et t1 EMPTY i v;
        pv_write_inner L t2 (children @ [new_child]) }
      else do {
        (new_child, t2) \<leftarrow> pv_push_at l L et t1 (children ! slot) i v;
        pv_write_inner L t2 (children[slot := new_child]) }) }"

function pv_grow :: "bigint_lib \<Rightarrow> tx \<Rightarrow> u128 \<Rightarrow> nat \<Rightarrow> nat \<Rightarrow> (u128 \<times> tx) option" where
  \<comment> \<open>the \<^verbatim>\<open>while working_level < new_depth\<close> loop of \<^verbatim>\<open>push\<close>\<close>
  "pv_grow L t working_root working_level new_depth =
     (if working_level < new_depth then do {
        (w, t1) \<leftarrow> pv_write_inner L t [working_root];
        pv_grow L t1 w (working_level + 1) new_depth }
      else Some (working_root, t))"
  by pat_completeness auto
termination
  by (relation "measure (\<lambda>(L, t, w, working_level, new_depth). new_depth - working_level)") auto

declare pv_grow.simps [simp del]

definition pv_push :: "bigint_lib \<Rightarrow> ty \<Rightarrow> tx \<Rightarrow> u128 \<Rightarrow> u64 \<Rightarrow> val \<Rightarrow> (u128 \<times> u64) res" where
  "pv_push L et t root len v =
     (if len = - 1 then rerr PVecOverflow t
      else do {
        (working_root, t1) \<leftarrow> pv_grow L t root (depth_for len) (depth_for (len + 1));
        (new_root, t2) \<leftarrow> pv_push_at (depth_for (len + 1)) L et t1 working_root len v;
        rok (new_root, len + 1) t2 })"

subsection \<open>Reachable cells and merging\<close>

definition pv_read_node_kv :: "bigint_lib \<Rightarrow> fkv \<Rightarrow> ty \<Rightarrow> u128 \<Rightarrow> pvec_node option option" where
  "pv_read_node_kv L s et h = read_node_kv_with (pv_deserialize_node L et) s h"

definition pv_kids :: "bigint_lib \<Rightarrow> kv \<Rightarrow> ty \<Rightarrow> u128 \<Rightarrow> u128 list option" where
  "pv_kids L s et h = do {
     node \<leftarrow> pv_read_node_kv L (\<lambda>k. Some (s k)) et h;
     Some (case node of Some (VInner children) \<Rightarrow> children | _ \<Rightarrow> []) }"

definition pv_reachable_cells :: "bigint_lib \<Rightarrow> kv \<Rightarrow> ty \<Rightarrow> u128 \<Rightarrow> u128 set option" where
  "pv_reachable_cells L s et root = walk_reachable (pv_kids L s et) [root] {}"

definition merge_elem :: "val \<Rightarrow> val \<Rightarrow> val option \<Rightarrow> val option" where
  "merge_elem va vb vbase =
     (if value_eq va vb then Some va
      else if opt_eq (Some va) vbase then Some vb
      else if opt_eq (Some vb) vbase then Some va
      else None)"

primrec merge_elems :: "val list \<Rightarrow> val list \<Rightarrow> val list \<Rightarrow> val list option" where
  "merge_elems [] eb base_elems = Some []"
| "merge_elems (va # ea) eb base_elems = do {
     v \<leftarrow> merge_elem va (hd eb) (case base_elems of [] \<Rightarrow> None | x # _ \<Rightarrow> Some x);
     vs \<leftarrow> merge_elems ea (tl eb) (tl base_elems);
     Some (v # vs) }"

primrec pv_merge_kids :: "(u128 \<Rightarrow> u128 \<Rightarrow> u128 \<Rightarrow> new_cells \<Rightarrow> merge_out) \<Rightarrow> u128 list \<Rightarrow> u128 list \<Rightarrow> u128 list
    \<Rightarrow> new_cells \<Rightarrow> (u128 list \<times> new_cells) option option" where
  "pv_merge_kids f [] cb base_children out = Some (Some ([], out))"
| "pv_merge_kids f (child_a # ca) cb base_children out = do {
     r \<leftarrow> f child_a (hd cb) (case base_children of [] \<Rightarrow> EMPTY | x # _ \<Rightarrow> x) out;
     (case r of
        None \<Rightarrow> Some None
      | Some (m, out1) \<Rightarrow> do {
          rs \<leftarrow> pv_merge_kids f ca (tl cb) (tl base_children) out1;
          Some (map_option (\<lambda>(ms, out2). (m # ms, out2)) rs) }) }"

fun pv_merge_at :: "nat \<Rightarrow> bigint_lib \<Rightarrow> fkv \<Rightarrow> ty \<Rightarrow> u128 \<Rightarrow> u128 \<Rightarrow> u128 \<Rightarrow> new_cells \<Rightarrow> merge_out" where
  "pv_merge_at level L s et a b base out =
     (if a = b then Some (Some (a, out))
      else if a = base then Some (Some (b, out))
      else if b = base then Some (Some (a, out))
      else do {
        na \<leftarrow> pv_read_node_kv L s et a;
        (case na of None \<Rightarrow> Some None | Some node_a \<Rightarrow> do {
        nb \<leftarrow> pv_read_node_kv L s et b;
        (case nb of None \<Rightarrow> Some None | Some node_b \<Rightarrow> do {
        nbase \<leftarrow> pv_read_node_kv L s et base;
        (case (node_a, node_b) of
           (VLeaf ea, VLeaf eb) \<Rightarrow>
             (let base_elems = (case nbase of Some (VLeaf elements) \<Rightarrow> elements | _ \<Rightarrow> []) in
              if length ea \<noteq> length eb then Some None
              else (case merge_elems ea eb base_elems of
                 None \<Rightarrow> Some None
               | Some merged \<Rightarrow> do {
                   bytes \<leftarrow> pv_serialize_leaf L merged;
                   Some (Some (pv_cell_key bytes, out @ [(pv_cell_key bytes, bytes)])) }))
         | (VInner ca, VInner cb) \<Rightarrow>
             (let base_children = (case nbase of Some (VInner children) \<Rightarrow> children | _ \<Rightarrow> []) in
              if length ca \<noteq> length cb then Some None
              else do {
                r \<leftarrow> pv_merge_kids
                       (\<lambda>x y z o'. case level of 0 \<Rightarrow> None | Suc l \<Rightarrow> pv_merge_at l L s et x y z o') ca cb base_children out;
                Some (map_option (\<lambda>(merged, out1).
                   (let bytes = pv_serialize_inner merged in
                    (pv_cell_key bytes, out1 @ [(pv_cell_key bytes, bytes)]))) r) })
         | _ \<Rightarrow> Some None) }) }) })"

declare pv_merge_at.simps [simp del]

definition pv_merge_three_way :: "bigint_lib \<Rightarrow> fkv \<Rightarrow> ty \<Rightarrow> u128 \<Rightarrow> u64 \<Rightarrow> u128 \<Rightarrow> u64 \<Rightarrow> u128 \<Rightarrow> u64 \<Rightarrow> merge_out" where
  "pv_merge_three_way L s et new_a len_a live_b len_b ancestor len_ancestor =
     (if len_a \<noteq> len_ancestor \<or> len_b \<noteq> len_ancestor then Some None
      else pv_merge_at (depth_for len_a) L s et new_a live_b ancestor [])"

end
