(* ===== verification/PVecRefine.thy ===== *)
theory PVecRefine
  imports PVec
begin

section \<open>Refinement of the vector to tries in memory\<close>

text \<open>
  A stored vector is the image of a trie \<open>vtree\<close>. \<open>v_shape level\<close> is the shape the code keeps: a node
  at level \<open>l\<close> has at most 32 children, all of them full (\<open>32 ^ l\<close> elements) except the last. The pure
  operations \<open>vget\<close>, \<open>vset\<close>, \<open>vpush\<close> are what the code computes on any transaction that stores the trie,
  and on well-shaped tries they are indexing, update and append on the list of elements.
\<close>

datatype vtree = VTLeaf "val list" | VTNode "vtree list"

fun v_bytes :: "bigint_lib \<Rightarrow> vtree \<Rightarrow> bytes" where
  "v_bytes L (VTLeaf es) = the (pv_serialize_leaf L es)"
| "v_bytes L (VTNode ts) = pv_serialize_inner (map (\<lambda>t. pv_cell_key (v_bytes L t)) ts)"

definition v_hash :: "bigint_lib \<Rightarrow> vtree \<Rightarrow> u128" where
  "v_hash L T = pv_cell_key (v_bytes L T)"

fun v_cells :: "bigint_lib \<Rightarrow> vtree \<Rightarrow> bytes set" where
  "v_cells L (VTLeaf es) = {v_bytes L (VTLeaf es)}"
| "v_cells L (VTNode ts) = insert (v_bytes L (VTNode ts)) (\<Union>t\<in>set ts. v_cells L t)"

fun v_elems :: "vtree \<Rightarrow> val list" where
  "v_elems (VTLeaf es) = es"
| "v_elems (VTNode ts) = concat (map v_elems ts)"

definition elem_ok :: "bigint_lib \<Rightarrow> ty \<Rightarrow> val \<Rightarrow> bool" where
  "elem_ok L et v \<longleftrightarrow> wt L et v \<and> (\<exists>b. serialize L v = Some b \<and> length b < 2 ^ 32)"

fun v_shape :: "bigint_lib \<Rightarrow> ty \<Rightarrow> nat \<Rightarrow> vtree \<Rightarrow> bool" where
  "v_shape L et level (VTLeaf es) = (level = 0 \<and> es \<noteq> [] \<and> length es \<le> 32 \<and> list_all (elem_ok L et) es)"
| "v_shape L et level (VTNode ts) = (level > 0 \<and> ts \<noteq> [] \<and> length ts \<le> 32
     \<and> list_all (v_shape L et (level - 1)) ts \<and> list_all (\<lambda>t. length (v_elems t) = 32 ^ level) (butlast ts))"

subsection \<open>The encoding of a trie decodes to its root node\<close>

fun v_top :: "bigint_lib \<Rightarrow> vtree \<Rightarrow> pvec_node" where
  "v_top L (VTLeaf es) = VLeaf es"
| "v_top L (VTNode ts) = VInner (map (v_hash L) ts)"

lemma v_bytes_in_cells: "v_bytes L T \<in> v_cells L T"
  by (cases T) auto

lemma read_elems_concat:
  assumes "bigint_ok L" "list_all (elem_ok L et) es"
  shows "\<exists>bss. mapM (elem_to_bytes L) es = Some bss \<and> read_elems L et (length es) (concat bss @ r) = Got es"
  using assms(2)
proof (induction es)
  case (Cons v es)
  then obtain b where b: "serialize L v = Some b" "length b < 2 ^ 32" "wt L et v" by (auto simp: elem_ok_def)
  from wt_vcodec [OF b(3) assms(1)] b(1) have d: "deserialize L b et = Got v" by (auto simp: vcodec_def codec_def vc_def)
  obtain bss where bss: "mapM (elem_to_bytes L) es = Some bss" "read_elems L et (length es) (concat bss @ r) = Got es"
    using Cons by auto
  have "mapM (elem_to_bytes L) (v # es) = Some ((u32_be (length b) @ b) # bss)" using b bss by (simp add: elem_to_bytes_def)
  moreover have "read_elems L et (length (v # es)) (concat ((u32_be (length b) @ b) # bss) @ r) = Got (v # es)"
    using b(2) bss(2) d by (simp add: codec_simps)
  ultimately show ?case by blast
qed simp

lemma u8_length: "n \<le> 32 \<Longrightarrow> unat (of_nat n :: u8) = n"
  by (simp add: unat_of_nat_u8)

lemma pv_leaf_bytes:
  assumes "bigint_ok L" "list_all (elem_ok L et) es" "length es \<le> 32"
  shows "\<exists>b. pv_serialize_leaf L es = Some b \<and> pv_deserialize_node L et b = Got (VLeaf es)"
  using read_elems_concat [OF assms(1,2), of "[]"] u8_length [OF assms(3)]
  by (auto simp: pv_serialize_leaf_def pv_deserialize_node_def split_at_def or_miss_def)

lemma v_decode:
  assumes "bigint_ok L" "v_shape L et level T"
  shows "pv_deserialize_node L et (v_bytes L T) = Got (v_top L T)"
proof (cases T)
  case (VTLeaf es)
  then show ?thesis using assms pv_leaf_bytes [OF assms(1), of et es] by auto
next
  case (VTNode ts)
  then have "unat (of_nat (length ts) :: u8) = length ts" using assms(2) by (simp add: u8_length)
  then show ?thesis using VTNode read_hashes_concat [of "map (v_hash L) ts" "[]"]
    by (simp add: pv_deserialize_node_def pv_serialize_inner_def split_at_def or_miss_def v_hash_def comp_def)
qed

abbreviation pv_holds :: "bigint_lib \<Rightarrow> bytes set \<Rightarrow> tx \<Rightarrow> bool" where
  "pv_holds \<equiv> holds pv_cell_key"

lemma pv_read_stored:
  assumes "pv_holds L S t" "no_collision pv_cell_key S" "v_shape L et level T" "v_cells L T \<subseteq> S"
  shows "\<exists>t'. pv_read_node L et t (v_hash L T) = Some (Some (v_top L T), t') \<and> pv_holds L S t'"
proof -
  have b: "v_bytes L T \<in> S" using assms(4) v_bytes_in_cells by blast
  have "pv_deserialize_node L et (v_bytes L T) = Got (v_top L T)" using assms(1,3) v_decode by (auto simp: holds_def)
  from holds_read [where dec = "pv_deserialize_node L et", OF assms(1) b assms(2) this] show ?thesis by (simp add: pv_read_node_def v_hash_def)
qed

lemma pv_write_leaf_stored:
  assumes "pv_holds L S t" "list_all (elem_ok L et) es" "length es \<le> 32"
    and "no_collision pv_cell_key (insert (v_bytes L (VTLeaf es)) S)"
  shows "\<exists>t'. pv_write_leaf L t es = Some (v_hash L (VTLeaf es), t') \<and> pv_holds L (insert (v_bytes L (VTLeaf es)) S) t'"
proof -
  have "bigint_ok L" using assms(1) by (simp add: holds_def)
  from pv_leaf_bytes [OF this assms(2,3)] holds_write [OF assms(1,4)] show ?thesis
    by (auto simp: pv_write_leaf_def pv_write_node_def v_hash_def)
qed

lemma pv_write_inner_stored:
  assumes "pv_holds L S t" "no_collision pv_cell_key (insert (v_bytes L (VTNode ts)) S)"
  shows "\<exists>t'. pv_write_inner L t (map (v_hash L) ts) = Some (v_hash L (VTNode ts), t')
     \<and> pv_holds L (insert (v_bytes L (VTNode ts)) S) t'"
  using holds_write [OF assms] by (simp add: pv_write_inner_def pv_write_node_def v_hash_def [abs_def] comp_def)

declare v_bytes.simps [simp del]

subsection \<open>The operations on tries in memory\<close>

definition vslot :: "nat \<Rightarrow> nat \<Rightarrow> nat" where
  "vslot i level = i div 32 ^ level mod 32"

lemma slot_at_eq: "slot_at i level = vslot (unat i) level"
proof -
  have "(32 :: nat) ^ level = 2 ^ (level * 5)" using power_mult [of "2 :: nat" 5 level] by (simp add: mult.commute)
  moreover have "drop_bit (level * 5) i AND 31 = take_bit 5 (drop_bit (level * 5) i)"
    using take_bit_eq_mask [of 5 "drop_bit (level * 5) i"] by (simp add: mask_eq_exp_minus_1)
  moreover have "unat (take_bit 5 (drop_bit (level * 5) i)) = unat i div 2 ^ (level * 5) mod 32"
    unfolding unsigned_take_bit_eq unat_drop_bit_eq by (simp add: take_bit_eq_mod drop_bit_eq_div)
  ultimately show ?thesis by (simp add: slot_at_def vslot_def BRANCH_def BITS_PER_LEVEL_def)
qed

fun vget :: "vtree \<Rightarrow> nat \<Rightarrow> nat \<Rightarrow> val option" where
  "vget (VTLeaf es) level i = (if vslot i 0 < length es then Some (es ! vslot i 0) else None)"
| "vget (VTNode ts) level i =
     (if vslot i level < length ts then map (\<lambda>t. vget t (level - 1) i) ts ! vslot i level else None)"

fun vset :: "vtree \<Rightarrow> nat \<Rightarrow> nat \<Rightarrow> val \<Rightarrow> vtree" where
  "vset (VTLeaf es) level i v = VTLeaf (es[vslot i 0 := v])"
| "vset (VTNode ts) level i v = VTNode (ts[vslot i level := map (\<lambda>t. vset t (level - 1) i v) ts ! vslot i level])"

primrec vpush :: "nat \<Rightarrow> vtree option \<Rightarrow> nat \<Rightarrow> val \<Rightarrow> vtree" where
  "vpush 0 T i v = VTLeaf ((case T of Some (VTLeaf es) \<Rightarrow> es | _ \<Rightarrow> []) @ [v])"
| "vpush (Suc l) T i v =
     (let ts = (case T of Some (VTNode ts) \<Rightarrow> ts | _ \<Rightarrow> []) in
      if vslot i (Suc l) \<ge> length ts then VTNode (ts @ [vpush l None i v])
      else VTNode (ts[vslot i (Suc l) := vpush l (Some (ts ! vslot i (Suc l))) i v]))"

subsection \<open>Lists in chunks\<close>

text \<open>A list of lists of length \<open>c\<close>, except that the last may be shorter.\<close>

definition chunked :: "nat \<Rightarrow> 'a list list \<Rightarrow> bool" where
  "chunked c xs \<longleftrightarrow> 0 < c \<and> (\<forall>x\<in>set (butlast xs). length x = c) \<and> (\<forall>x\<in>set xs. x \<noteq> [] \<and> length x \<le> c)"

lemma chunked_Cons: "chunked c (x # y # ys) \<longleftrightarrow> length x = c \<and> 0 < c \<and> chunked c (y # ys)"
  by (auto simp: chunked_def)

lemma chunk_nth:
  "chunked c xs \<Longrightarrow> j < length (concat xs) \<Longrightarrow>
   j div c < length xs \<and> j mod c < length (xs ! (j div c)) \<and> concat xs ! j = xs ! (j div c) ! (j mod c)"
proof (induction xs arbitrary: j rule: induct_list012)
  case (2 x)
  then have "j < c" by (auto simp: chunked_def)
  then show ?case using 2 by simp
next
  case (3 x y ys)
  have c: "length x = c" "0 < c" "chunked c (y # ys)" using "3.prems"(1) by (simp_all add: chunked_Cons)
  show ?case
  proof (cases "j < c")
    case True
    then show ?thesis using c by (simp add: nth_append)
  next
    case False
    then have j: "j div c = Suc ((j - c) div c)" "j mod c = (j - c) mod c"
      using c(2) by (auto simp: le_div_geq le_mod_geq)
    have "j - c < length (concat (y # ys))" using False "3.prems"(2) c(1) by simp
    from "3.IH"(2) [OF c(3) this] show ?thesis using False c(1) j by (simp add: nth_append)
  qed
qed simp

lemma chunk_update:
  "chunked c xs \<Longrightarrow> j < length (concat xs) \<Longrightarrow>
   concat (xs[j div c := (xs ! (j div c))[j mod c := v]]) = (concat xs)[j := v]"
proof (induction xs arbitrary: j rule: induct_list012)
  case (2 x)
  then have "j < c" by (auto simp: chunked_def)
  then show ?case by simp
next
  case (3 x y ys)
  have c: "length x = c" "0 < c" "chunked c (y # ys)" using "3.prems"(1) by (simp_all add: chunked_Cons)
  show ?case
  proof (cases "j < c")
    case True
    then show ?thesis using c by (simp add: list_update_append)
  next
    case False
    then have j: "j div c = Suc ((j - c) div c)" "j mod c = (j - c) mod c"
      using c(2) by (auto simp: le_div_geq le_mod_geq)
    have "j - c < length (concat (y # ys))" using False "3.prems"(2) c(1) by simp
    from "3.IH"(2) [OF c(3) this] show ?thesis using False c(1) j by (simp add: list_update_append)
  qed
qed simp

lemma chunk_push:
  "chunked c xs \<Longrightarrow> n = length (concat xs) \<Longrightarrow>
   (if length xs \<le> n div c then n mod c = 0 \<and> n div c = length xs \<and> (\<forall>x\<in>set xs. length x = c)
    else xs \<noteq> [] \<and> n div c = length xs - 1 \<and> n mod c = length (last xs) \<and> length (last xs) < c)"
proof (induction xs arbitrary: n rule: induct_list012)
  case (2 x)
  then have "length x \<le> c" "0 < c" "n = length x" by (auto simp: chunked_def)
  then show ?case by (cases "length x = c") auto
next
  case (3 x y ys)
  have c: "length x = c" "0 < c" "chunked c (y # ys)" using "3.prems"(1) by (simp_all add: chunked_Cons)
  define m where "m = length (concat (y # ys))"
  have "n = c + m" using "3.prems"(2) c(1) by (simp add: m_def)
  then have n: "n div c = Suc (m div c)" "n mod c = m mod c" using c(2) by (simp_all add: div_add_self1)
  note IH = "3.IH"(2) [OF c(3) m_def]
  show ?case
  proof (cases "length (y # ys) \<le> m div c")
    case True
    from IH [unfolded if_P [OF True]] show ?thesis using n c(1) by simp
  next
    case False
    from IH [unfolded if_not_P [OF False]] show ?thesis using n by simp
  qed
qed simp

lemma chunk_div: "i mod 32 ^ Suc l div 32 ^ l = vslot i l" "i mod 32 ^ Suc l mod 32 ^ l = i mod 32 ^ l"
proof -
  have "i mod (32 ^ l * 32) = 32 ^ l * (i div 32 ^ l mod 32) + i mod 32 ^ l" by (rule mod_mult2_eq)
  then show "i mod 32 ^ Suc l div 32 ^ l = vslot i l" "i mod 32 ^ Suc l mod 32 ^ l = i mod 32 ^ l"
    by (simp_all add: vslot_def mult.commute)
qed

lemma v_size: "v_shape L et level T \<Longrightarrow> v_elems T \<noteq> [] \<and> length (v_elems T) \<le> 32 ^ Suc level"
proof (induction T arbitrary: level)
  case (VTNode ts)
  then obtain l where l: "level = Suc l" by (cases level) auto
  have ts: "v_elems t \<noteq> [] \<and> length (v_elems t) \<le> 32 ^ level" if "t \<in> set ts" for t
    using VTNode.IH [OF that, of l] VTNode.prems that l by (auto simp: list_all_iff)
  have "length (v_elems (VTNode ts)) = sum_list (map (\<lambda>t. length (v_elems t)) ts)" by (simp add: length_concat comp_def)
  also have "\<dots> \<le> sum_list (map (\<lambda>t. 32 ^ level) ts)" by (rule sum_list_mono) (use ts in auto)
  also have "\<dots> \<le> 32 ^ Suc level" using VTNode.prems by (simp add: sum_list_triv)
  finally show ?case using VTNode.prems ts by (cases ts) auto
qed auto

lemma v_chunked: "v_shape L et (Suc l) (VTNode ts) \<Longrightarrow> chunked (32 ^ Suc l) (map v_elems ts)"
proof -
  assume sh: "v_shape L et (Suc l) (VTNode ts)"
  have "v_elems t \<noteq> [] \<and> length (v_elems t) \<le> 32 ^ Suc l" if "t \<in> set ts" for t
    using v_size [of L et l t] sh that by (simp add: list_all_iff)
  moreover have "\<forall>t\<in>set (butlast ts). length (v_elems t) = 32 ^ Suc l" using sh by (simp add: list_all_iff)
  ultimately show ?thesis by (simp add: chunked_def map_butlast [symmetric])
qed

text \<open>The child on the path of an index, and the index within it.\<close>

lemma v_path:
  assumes "v_shape L et (Suc l) (VTNode ts)" "i mod 32 ^ Suc (Suc l) < length (v_elems (VTNode ts))"
  shows "vslot i (Suc l) < length ts" "i mod 32 ^ Suc l < length (v_elems (ts ! vslot i (Suc l)))"
    "v_elems (VTNode ts) ! (i mod 32 ^ Suc (Suc l)) = v_elems (ts ! vslot i (Suc l)) ! (i mod 32 ^ Suc l)"
    "v_shape L et l (ts ! vslot i (Suc l))"
  using chunk_nth [OF v_chunked [OF assms(1)], of "i mod 32 ^ Suc (Suc l)"] assms chunk_div [of i "Suc l"]
  by (auto simp: list_all_length)

subsection \<open>The pure operations are list operations\<close>

lemma vget_nth:
  "v_shape L et level T \<Longrightarrow> i mod 32 ^ Suc level < length (v_elems T) \<Longrightarrow>
   vget T level i = Some (v_elems T ! (i mod 32 ^ Suc level))"
proof (induction level arbitrary: T)
  case 0
  then obtain es where "T = VTLeaf es" by (cases T) auto
  with 0 show ?case by (simp add: vslot_def)
next
  case (Suc l)
  then obtain ts where T: "T = VTNode ts" by (cases T) auto
  note p = v_path [OF Suc.prems [unfolded T]]
  from Suc.IH [OF p(4,2)] p(1,3) T show ?case by (simp del: v_elems.simps power_Suc)
qed

lemma vset_update:
  "v_shape L et level T \<Longrightarrow> i mod 32 ^ Suc level < length (v_elems T) \<Longrightarrow> elem_ok L et v \<Longrightarrow>
   v_shape L et level (vset T level i v) \<and> v_elems (vset T level i v) = (v_elems T)[i mod 32 ^ Suc level := v]"
proof (induction level arbitrary: T)
  case 0
  then obtain es where "T = VTLeaf es" by (cases T) auto
  moreover have "set (es[i mod 32 := v]) \<subseteq> insert v (set es)" by (rule set_update_subset_insert)
  ultimately show ?case using 0 by (auto simp: vslot_def list_all_iff)
next
  case (Suc l)
  then obtain ts where T: "T = VTNode ts" by (cases T) auto
  let ?s = "vslot i (Suc l)"
  let ?c = "vset (ts ! ?s) l i v"
  note p = v_path [OF Suc.prems(1,2) [unfolded T]]
  have c: "v_shape L et l ?c" "v_elems ?c = (v_elems (ts ! ?s))[i mod 32 ^ Suc l := v]"
    using Suc.IH [OF p(4,2) Suc.prems(3)] by auto
  have eq: "vset T (Suc l) i v = VTNode (ts[?s := ?c])" using T p(1) by simp
  have "v_elems (VTNode (ts[?s := ?c])) = (v_elems T)[i mod 32 ^ Suc (Suc l) := v]"
    using chunk_update [OF v_chunked [OF Suc.prems(1) [unfolded T]], of "i mod 32 ^ Suc (Suc l)" v] Suc.prems(2) T c(2) p(1)
    by (simp add: chunk_div map_update del: power_Suc)
  moreover have "v_shape L et (Suc l) (VTNode (ts[?s := ?c]))"
  proof -
    have "list_all (v_shape L et l) (ts[?s := ?c])"
      using Suc.prems(1) T c(1) set_update_subset_insert [of ts ?s ?c] by (auto simp: list_all_iff)
    moreover have "length (v_elems ?c) = length (v_elems (ts ! ?s))" using c(2) by simp
    then have "map (\<lambda>t. length (v_elems t)) (ts[?s := ?c]) = map (\<lambda>t. length (v_elems t)) ts"
      by (simp add: map_update list_update_same_conv p(1))
    then have "map (\<lambda>t. length (v_elems t)) (butlast (ts[?s := ?c])) = map (\<lambda>t. length (v_elems t)) (butlast ts)"
      by (simp add: map_butlast)
    then have "list_all (\<lambda>n. n = 32 ^ Suc l) (map (\<lambda>t. length (v_elems t)) (butlast (ts[?s := ?c])))"
      using Suc.prems(1) T by (simp add: list_all_iff)
    ultimately show ?thesis using Suc.prems(1) T by (auto simp: list_all_iff)
  qed
  ultimately show ?case using eq by simp
qed

definition vo_elems :: "vtree option \<Rightarrow> val list" where
  "vo_elems T = (case T of None \<Rightarrow> [] | Some T \<Rightarrow> v_elems T)"

definition vo_shape :: "bigint_lib \<Rightarrow> ty \<Rightarrow> nat \<Rightarrow> vtree option \<Rightarrow> bool" where
  "vo_shape L et level T = (case T of None \<Rightarrow> True | Some T \<Rightarrow> v_shape L et level T)"

lemmas vo_simps [simp] = vo_elems_def vo_shape_def

lemma v_push_path:
  assumes "ts \<noteq> [] \<longrightarrow> v_shape L et (Suc l) (VTNode ts)" "i mod 32 ^ Suc (Suc l) = length (concat (map v_elems ts))"
  shows "length ts \<le> vslot i (Suc l) \<Longrightarrow>
       i mod 32 ^ Suc l = 0 \<and> vslot i (Suc l) = length ts \<and> (\<forall>t\<in>set ts. length (v_elems t) = 32 ^ Suc l)"
    and "\<not> length ts \<le> vslot i (Suc l) \<Longrightarrow> ts \<noteq> [] \<and> vslot i (Suc l) = length ts - 1 \<and> ts ! vslot i (Suc l) = last ts
       \<and> v_shape L et l (last ts) \<and> i mod 32 ^ Suc l = length (v_elems (last ts))"
proof -
  have ch: "chunked (32 ^ Suc l) (map v_elems ts)"
  proof (cases "ts = []")
    case False
    then show ?thesis using assms(1) by (intro v_chunked) blast
  qed (simp add: chunked_def)
  note cp = chunk_push [OF ch refl, folded assms(2), unfolded chunk_div]
  show "length ts \<le> vslot i (Suc l) \<Longrightarrow>
       i mod 32 ^ Suc l = 0 \<and> vslot i (Suc l) = length ts \<and> (\<forall>t\<in>set ts. length (v_elems t) = 32 ^ Suc l)"
    using cp by (auto split: if_splits)
  assume "\<not> length ts \<le> vslot i (Suc l)"
  then show "ts \<noteq> [] \<and> vslot i (Suc l) = length ts - 1 \<and> ts ! vslot i (Suc l) = last ts
       \<and> v_shape L et l (last ts) \<and> i mod 32 ^ Suc l = length (v_elems (last ts))"
    using cp assms(1) by (auto simp: last_map last_conv_nth list_all_iff split: if_splits)
qed

lemma vpush_append:
  "vo_shape L et level T \<Longrightarrow> i mod 32 ^ Suc level = length (vo_elems T) \<Longrightarrow> elem_ok L et v \<Longrightarrow>
   v_shape L et level (vpush level T i v) \<and> v_elems (vpush level T i v) = vo_elems T @ [v]"
proof (induction level arbitrary: T)
  case 0
  obtain es where es: "(case T of Some (VTLeaf es) \<Rightarrow> es | _ \<Rightarrow> []) = es" "vo_elems T = es" "list_all (elem_ok L et) es"
    using 0 by (cases T; cases "the T") auto
  then have "length es < 32" using 0(2) mod_less_divisor [of 32 i] by simp
  then show ?case using es 0(3) by auto
next
  case (Suc l)
  obtain ts where ts: "(case T of Some (VTNode ts) \<Rightarrow> ts | _ \<Rightarrow> []) = ts" "vo_elems T = concat (map v_elems ts)"
    "ts \<noteq> [] \<longrightarrow> v_shape L et (Suc l) (VTNode ts)"
    using Suc.prems(1) by (cases T; cases "the T") auto
  let ?s = "vslot i (Suc l)"
  have n: "i mod 32 ^ Suc (Suc l) = length (concat (map v_elems ts))" using Suc.prems(2) ts(2) by simp
  have s32: "?s < 32" by (simp add: vslot_def)
  note path = v_push_path [OF ts(3) n]
  show ?case
  proof (cases "length ts \<le> ?s")
    case True
    then have full: "i mod 32 ^ Suc l = 0" "?s = length ts" "\<forall>t\<in>set ts. length (v_elems t) = 32 ^ Suc l" using path(1) by auto
    have IH: "v_shape L et l (vpush l None i v)" "v_elems (vpush l None i v) = [v]"
      using Suc.IH [of None] full(1) Suc.prems(3) by auto
    then show ?thesis using True ts full s32 by (cases "ts = []") (auto simp: list_all_iff)
  next
    case False
    then have part: "ts \<noteq> []" "?s = length ts - 1" "i mod 32 ^ Suc l = length (v_elems (last ts))"
      and sl: "ts ! ?s = last ts" "ts = butlast ts @ [last ts]" and "v_shape L et l (last ts)" using path(2) by auto
    have sh: "v_shape L et (Suc l) (VTNode ts)" using ts(3) part(1) by simp
    have IH: "v_shape L et l (vpush l (Some (last ts)) i v)" "v_elems (vpush l (Some (last ts)) i v) = v_elems (last ts) @ [v]"
      using Suc.IH [of "Some (last ts)"] part(3) Suc.prems(3) \<open>v_shape L et l (last ts)\<close> by auto
    have up: "ts[?s := c] = butlast ts @ [c]" for c
      by (subst sl(2)) (simp add: part(2) list_update_append)
    have "concat (map v_elems ts) = concat (map v_elems (butlast ts)) @ v_elems (last ts)" by (subst sl(2)) simp
    moreover have "list_all (v_shape L et l) (butlast ts)" using sh by (auto simp: list_all_iff dest: in_set_butlastD)
    ultimately show ?thesis using False ts(1,2) IH sh part(1) up sl(1) by simp
  qed
qed

subsection \<open>The operations refine\<close>

lemma v_hash_nonempty: "no_collision pv_cell_key S \<Longrightarrow> v_cells L T \<subseteq> S \<Longrightarrow> v_hash L T \<noteq> EMPTY"
  using no_collision_key [of pv_cell_key S "v_bytes L T"] v_bytes_in_cells [of L T] by (auto simp: v_hash_def)

lemma v_kid_cells: "v_cells L (VTNode ts) \<subseteq> S \<Longrightarrow> s < length ts \<Longrightarrow> v_cells L (ts ! s) \<subseteq> S"
  using nth_mem by fastforce

lemma pv_get_at_refines:
  assumes "pv_holds L S t" "no_collision pv_cell_key S" "v_shape L et level T" "v_cells L T \<subseteq> S"
  shows "\<exists>t'. pv_get_at level L et t (v_hash L T) i = Some (vget T level (unat i), t') \<and> pv_holds L S t'"
  using assms
proof (induction level arbitrary: T t)
  case 0
  obtain t1 where t1: "pv_read_node L et t (v_hash L T) = Some (Some (v_top L T), t1)" "pv_holds L S t1"
    using pv_read_stored [OF 0] by blast
  obtain es where "T = VTLeaf es" using 0(3) by (cases T) auto
  with t1 show ?case by (simp add: pv_get_at.simps [of 0] slot_at_eq)
next
  case (Suc l)
  obtain t1 where t1: "pv_read_node L et t (v_hash L T) = Some (Some (v_top L T), t1)" "pv_holds L S t1"
    using pv_read_stored [OF Suc.prems] by blast
  obtain ts where T: "T = VTNode ts" using Suc.prems(3) by (cases T) auto
  let ?s = "vslot (unat i) (Suc l)"
  have "\<exists>t'. pv_get_at l L et t1 (v_hash L (ts ! ?s)) i = Some (vget (ts ! ?s) l (unat i), t') \<and> pv_holds L S t'" if "?s < length ts"
    using Suc.prems T that v_kid_cells by (intro Suc.IH [OF t1(2)]) (auto simp: list_all_length simp del: v_cells.simps)
  then show ?case using t1 T by (auto simp: pv_get_at.simps [of "Suc l"] slot_at_eq)
qed

lemma pv_update_stored:
  assumes "pv_holds L (S \<union> v_cells L c) t" "\<forall>t\<in>set ts. v_cells L t \<subseteq> S" "ts' = ts[s := c] \<or> ts' = ts @ [c]" "c \<in> set ts'"
    and "no_collision pv_cell_key (S \<union> v_cells L (VTNode ts'))"
  shows "\<exists>t'. pv_write_inner L t (map (v_hash L) ts') = Some (v_hash L (VTNode ts'), t')
     \<and> pv_holds L (S \<union> v_cells L (VTNode ts')) t'"
proof -
  have "set ts' \<subseteq> insert c (set ts)" using assms(3) set_update_subset_insert by fastforce
  then have eq: "insert (v_bytes L (VTNode ts')) (S \<union> v_cells L c) = S \<union> v_cells L (VTNode ts')"
    using assms(2,4) by fastforce
  have "no_collision pv_cell_key (insert (v_bytes L (VTNode ts')) (S \<union> v_cells L c))" unfolding eq by (rule assms(5))
  from pv_write_inner_stored [OF assms(1) this] show ?thesis unfolding eq .
qed

lemma pv_set_at_refines:
  assumes "pv_holds L S t" "v_shape L et level T" "v_cells L T \<subseteq> S" "elem_ok L et v"
    and "unat i mod 32 ^ Suc level < length (v_elems T)"
    and "no_collision pv_cell_key (S \<union> v_cells L (vset T level (unat i) v))"
  shows "\<exists>t'. pv_set_at level L et t (v_hash L T) i v = Some (Some (v_hash L (vset T level (unat i) v)), t')
     \<and> pv_holds L (S \<union> v_cells L (vset T level (unat i) v)) t'"
  using assms
proof (induction level arbitrary: T t)
  case 0
  have nc: "no_collision pv_cell_key S" using 0(6) by (rule no_collision_subset) auto
  obtain t1 where t1: "pv_read_node L et t (v_hash L T) = Some (Some (v_top L T), t1)" "pv_holds L S t1"
    using pv_read_stored [OF 0(1) nc 0(2,3)] by blast
  obtain es where T: "T = VTLeaf es" using 0(2) by (cases T) auto
  have "list_all (elem_ok L et) (es[vslot (unat i) 0 := v])" "length (es[vslot (unat i) 0 := v]) \<le> 32"
    using 0(2,4) T set_update_subset_insert [of es "vslot (unat i) 0" v] by (auto simp: list_all_iff)
  from pv_write_leaf_stored [OF t1(2) this] 0(5,6) t1(1) T show ?case
    by (auto simp: pv_set_at.simps [of 0] slot_at_eq) (auto simp: vslot_def)
next
  case (Suc l)
  have nc: "no_collision pv_cell_key S" using Suc.prems(6) by (rule no_collision_subset) auto
  obtain t1 where t1: "pv_read_node L et t (v_hash L T) = Some (Some (v_top L T), t1)" "pv_holds L S t1"
    using pv_read_stored [OF Suc.prems(1) nc Suc.prems(2,3)] by blast
  obtain ts where T: "T = VTNode ts" using Suc.prems(2) by (cases T) auto
  let ?s = "vslot (unat i) (Suc l)"
  let ?c = "vset (ts ! ?s) l (unat i) v"
  note p = v_path [OF Suc.prems(2,5) [unfolded T]]
  have eq: "vset T (Suc l) (unat i) v = VTNode (ts[?s := ?c])" using T p(1) by simp
  have mem: "?c \<in> set (ts[?s := ?c])" using p(1) by (rule set_update_memI)
  have cs: "v_cells L (ts ! ?s) \<subseteq> S" using v_kid_cells Suc.prems(3) T p(1) by blast
  have "no_collision pv_cell_key (S \<union> v_cells L ?c)"
    by (rule no_collision_subset [OF Suc.prems(6)]) (use mem eq in auto)
  from Suc.IH [OF t1(2) p(4) cs Suc.prems(4) p(2) this] obtain t2 where
    t2: "pv_set_at l L et t1 (v_hash L (ts ! ?s)) i v = Some (Some (v_hash L ?c), t2)" "pv_holds L (S \<union> v_cells L ?c) t2" by blast
  obtain t3 where "pv_write_inner L t2 (map (v_hash L) (ts[?s := ?c])) = Some (v_hash L (VTNode (ts[?s := ?c])), t3)"
    "pv_holds L (S \<union> v_cells L (VTNode (ts[?s := ?c]))) t3"
    using pv_update_stored [OF t2(2) _ _ mem, of ts ?s] Suc.prems(3,6) T eq by auto
  then show ?case using t1(1) t2(1) T p(1) unfolding eq by (simp add: pv_set_at.simps [of "Suc l"] slot_at_eq map_update Let_def)
qed

definition vo_hash :: "bigint_lib \<Rightarrow> vtree option \<Rightarrow> u128" where
  "vo_hash L T = (case T of None \<Rightarrow> EMPTY | Some T \<Rightarrow> v_hash L T)"

definition vo_cells :: "bigint_lib \<Rightarrow> vtree option \<Rightarrow> bytes set" where
  "vo_cells L T = (case T of None \<Rightarrow> {} | Some T \<Rightarrow> v_cells L T)"

lemmas vo_store [simp] = vo_hash_def vo_cells_def

lemma pv_read_root:
  assumes "pv_holds L S t" "no_collision pv_cell_key S" "vo_shape L et level T" "vo_cells L T \<subseteq> S"
  shows "\<exists>t'. pv_read_node L et t (vo_hash L T) = Some (map_option (v_top L) T, t') \<and> pv_holds L S t'"
proof (cases T)
  case None
  then show ?thesis using assms(1) by (simp add: pv_read_node_def read_node_with_def)
next
  case (Some U)
  then show ?thesis using pv_read_stored [OF assms(1,2), of et level U] assms(3,4) by auto
qed

lemma pv_push_at_refines:
  assumes "pv_holds L S t" "vo_shape L et level T" "vo_cells L T \<subseteq> S" "elem_ok L et v"
    and "unat i mod 32 ^ Suc level = length (vo_elems T)"
    and "no_collision pv_cell_key (S \<union> v_cells L (vpush level T (unat i) v))"
  shows "\<exists>t'. pv_push_at level L et t (vo_hash L T) i v = Some (v_hash L (vpush level T (unat i) v), t')
     \<and> pv_holds L (S \<union> v_cells L (vpush level T (unat i) v)) t'"
  using assms
proof (induction level arbitrary: T t)
  case 0
  have nc: "no_collision pv_cell_key S" using 0(6) by (rule no_collision_subset) auto
  obtain t1 where t1: "pv_read_node L et t (vo_hash L T) = Some (map_option (v_top L) T, t1)" "pv_holds L S t1"
    using pv_read_root [OF 0(1) nc 0(2,3)] by blast
  let ?es = "case T of Some (VTLeaf es) \<Rightarrow> es | _ \<Rightarrow> []"
  have es: "(case map_option (v_top L) T of Some (VLeaf es) \<Rightarrow> es | _ \<Rightarrow> []) = ?es" "vo_elems T = ?es"
    using 0(2) by (cases T; cases "the T"; auto)+
  have "list_all (elem_ok L et) (?es @ [v])" using 0(2,4) by (cases T; cases "the T") auto
  moreover have "length ?es < 32" using 0(5) es(2) mod_less_divisor [of 32 "unat i"] by simp
  ultimately show ?case using pv_write_leaf_stored [OF t1(2), of et "?es @ [v]"] 0(6) t1(1) es(1) by (auto simp del: vo_store)
next
  case (Suc l)
  have nc: "no_collision pv_cell_key S" using Suc.prems(6) by (rule no_collision_subset) auto
  obtain t1 where t1: "pv_read_node L et t (vo_hash L T) = Some (map_option (v_top L) T, t1)" "pv_holds L S t1"
    using pv_read_root [OF Suc.prems(1) nc Suc.prems(2,3)] by blast
  define ts where "ts = (case T of Some (VTNode ts) \<Rightarrow> ts | _ \<Rightarrow> [])"
  have ts: "(case map_option (v_top L) T of Some (VInner cs) \<Rightarrow> cs | _ \<Rightarrow> []) = map (v_hash L) ts"
    "vo_elems T = concat (map v_elems ts)" "ts \<noteq> [] \<longrightarrow> v_shape L et (Suc l) (VTNode ts)"
    "\<forall>t\<in>set ts. v_cells L t \<subseteq> S"
    using Suc.prems(2,3) by (cases T; cases "the T"; auto simp: ts_def)+
  let ?s = "vslot (unat i) (Suc l)" and ?T = "vpush (Suc l) T (unat i) v"
  have n: "unat i mod 32 ^ Suc (Suc l) = length (concat (map v_elems ts))" using Suc.prems(5) ts(2) by simp
  note path = v_push_path [OF ts(3) n]
  define child where "child = (if length ts \<le> ?s then None else Some (ts ! ?s))"
  define ts' where "ts' = (if length ts \<le> ?s then ts @ [vpush l child (unat i) v] else ts[?s := vpush l child (unat i) v])"
  have T: "?T = VTNode ts'" by (simp add: ts'_def child_def Let_def ts_def)
  have mem: "vpush l child (unat i) v \<in> set ts'" by (auto simp: ts'_def set_update_memI)
  have c: "vo_shape L et l child" "vo_cells L child \<subseteq> S" "unat i mod 32 ^ Suc l = length (vo_elems child)"
    using path ts(4) nth_mem [of ?s ts] by (auto simp: child_def simp del: power_Suc)
  have ncc: "no_collision pv_cell_key (S \<union> v_cells L (vpush l child (unat i) v))"
    by (rule no_collision_subset [OF Suc.prems(6)]) (use mem T in auto)
  from Suc.IH [OF t1(2) c(1,2) Suc.prems(4) c(3) ncc] obtain t2 where
    t2: "pv_push_at l L et t1 (vo_hash L child) i v = Some (v_hash L (vpush l child (unat i) v), t2)"
    "pv_holds L (S \<union> v_cells L (vpush l child (unat i) v)) t2" by blast
  have "ts' = ts[?s := vpush l child (unat i) v] \<or> ts' = ts @ [vpush l child (unat i) v]" by (simp add: ts'_def)
  from pv_update_stored [OF t2(2) ts(4) this mem] Suc.prems(6) T obtain t3 where
    t3: "pv_write_inner L t2 (map (v_hash L) ts') = Some (v_hash L ?T, t3)" "pv_holds L (S \<union> v_cells L ?T) t3" by auto
  have "pv_push_at (Suc l) L et t (vo_hash L T) i v = Some (v_hash L ?T, t3)"
    using t1(1) t2(1) t3(1) ts(1) by (auto simp: slot_at_eq Let_def child_def ts'_def map_update split: if_splits)
  then show ?case using t3(2) by blast
qed

subsection \<open>Depth for a length\<close>

lemma takeWhile_rev_upt:
  assumes "\<exists>i<n. P i"
  shows "\<exists>m<n. P m \<and> (\<forall>i. m < i \<and> i < n \<longrightarrow> \<not> P i) \<and> length (takeWhile (\<lambda>i. \<not> P i) (rev [0..<n])) = n - 1 - m"
  using assms
proof (induction n)
  case (Suc n)
  show ?case
  proof (cases "P n")
    case True
    then show ?thesis by (intro exI [of _ n]) auto
  next
    case False
    then have "\<exists>i<n. P i" using Suc.prems less_Suc_eq by blast
    with Suc.IH obtain m where "m < n" "P m" "\<forall>i. m < i \<and> i < n \<longrightarrow> \<not> P i"
      "length (takeWhile (\<lambda>i. \<not> P i) (rev [0..<n])) = n - 1 - m" by blast
    then show ?thesis using False by (intro exI [of _ m]) (auto simp: less_Suc_eq)
  qed
qed simp

lemma bit_length:
  assumes "w \<noteq> (0 :: u64)"
  shows "\<exists>b. 64 - leading_zeros w = Suc b \<and> b < 64 \<and> 2 ^ b \<le> unat w \<and> unat w < 2 ^ Suc b"
proof -
  have "\<exists>i<64. bit w i" using assms bit_imp_le_length [of w] by (auto simp: bit_eq_iff)
  from takeWhile_rev_upt [OF this] obtain m where m: "m < 64" "bit w m" "\<forall>i. m < i \<and> i < 64 \<longrightarrow> \<not> bit w i"
    "leading_zeros w = 63 - m" by (auto simp: leading_zeros_def)
  have top: "\<not> bit w i" if "m < i" for i using m(3) that bit_imp_le_length [of w i] by fastforce
  have "take_bit (Suc m) (unat w) = unat w"
    by (auto simp: bit_eq_iff bit_simps less_Suc_eq_le) (use top not_less in blast)
  then have lt: "unat w < 2 ^ Suc m" by (metis take_bit_nat_less_exp)
  have "2 ^ m \<le> unat w"
  proof (rule ccontr)
    assume "\<not> 2 ^ m \<le> unat w"
    then have "take_bit m (unat w) = unat w" by (simp add: take_bit_nat_eq_self)
    then have "bit (take_bit m (unat w)) m" using m(1,2) by (simp add: bit_simps)
    then show False by (simp add: bit_simps)
  qed
  with lt m(1,4) show ?thesis by (intro exI [of _ m]) auto
qed

lemma pow32: "(32 :: nat) ^ d = 2 ^ (d * 5)"
  using power_mult [of "2 :: nat" 5 d] by (simp add: mult.commute)

lemma div_ceil_bounds: "0 < b \<Longrightarrow> (div_ceil b 5 - 1) * 5 < b \<and> b \<le> (div_ceil b 5) * 5 \<and> 0 < div_ceil b 5"
  unfolding div_ceil_def by presburger

lemma depth_bounds:
  "unat len \<le> 32 ^ Suc (depth_for len)" "0 < depth_for len \<Longrightarrow> 32 ^ depth_for len < unat len" "depth_for len \<le> 12"
proof -
  have "unat len \<le> 32 ^ Suc (depth_for len) \<and> (0 < depth_for len \<longrightarrow> 32 ^ depth_for len < unat len) \<and> depth_for len \<le> 12"
  proof (cases "len \<le> 32")
    case True
    then show ?thesis by (simp add: depth_for_def BRANCH_def word_le_nat_alt)
  next
    case False
    then have n: "unat (len - 1) = unat len - 1" "0 < unat len" "len - 1 \<noteq> 0"
      by (auto simp: word_le_nat_alt unat_sub unat_eq_zero)
    obtain b where b: "64 - leading_zeros (len - 1) = Suc b" "b < 64" "2 ^ b \<le> unat (len - 1)" "unat (len - 1) < 2 ^ Suc b"
      using bit_length [OF n(3)] by blast
    define d where "d = div_ceil (Suc b) 5 - 1"
    note dc = div_ceil_bounds [of "Suc b"]
    have D: "depth_for len = d" using False b(1) by (simp add: depth_for_def BRANCH_def BITS_PER_LEVEL_def d_def Let_def)
    have D': "d * 5 < Suc b" "Suc b \<le> Suc d * 5" using dc by (auto simp: d_def)
    have "(2 :: nat) ^ Suc b \<le> 2 ^ (Suc d * 5)" using D'(2) by (rule power_increasing) simp
    then have "unat len \<le> 32 ^ Suc d" using b(4) n unfolding pow32 by linarith
    moreover have "(2 :: nat) ^ (d * 5) \<le> 2 ^ b" using D'(1) by (intro power_increasing) auto
    then have "32 ^ d < unat len" using b(3) n unfolding pow32 by linarith
    moreover have "d \<le> 12" using D'(1) b(2) by linarith
    ultimately show ?thesis using D by simp
  qed
  then show "unat len \<le> 32 ^ Suc (depth_for len)" "0 < depth_for len \<Longrightarrow> 32 ^ depth_for len < unat len" "depth_for len \<le> 12" by auto
qed

lemma depth_push:
  assumes "len \<noteq> - 1"
  shows "depth_for (len + 1) = depth_for len \<or>
     (depth_for (len + 1) = Suc (depth_for len) \<and> unat len = 32 ^ Suc (depth_for len))"
proof -
  let ?d = "depth_for len" and ?e = "depth_for (len + 1)"
  have s: "unat (len + 1) = Suc (unat len)" using assms unatSuc [of len] by (metis add.commute add_eq_0_iff)
  have pow: "(32 :: nat) ^ a \<le> 32 ^ b \<longleftrightarrow> a \<le> b" "(32 :: nat) ^ a < 32 ^ b \<longleftrightarrow> a < b" for a b by simp_all
  have "?d \<le> ?e"
  proof (cases "?d = 0")
    case False
    then have "32 ^ ?d < unat len" using depth_bounds(2) by auto
    then have "(32 :: nat) ^ ?d < 32 ^ Suc ?e" using depth_bounds(1) [of "len + 1"] s by linarith
    then have "?d < Suc ?e" by (simp only: pow(2))
    then show ?thesis by simp
  qed simp
  moreover have "?e \<le> ?d \<or> (?e = Suc ?d \<and> unat len = 32 ^ Suc ?d)"
  proof (cases "?e \<le> ?d")
    case False
    then have "32 ^ ?e < Suc (unat len)" using depth_bounds(2) [of "len + 1"] s by auto
    then have "(32 :: nat) ^ ?e \<le> unat len" by simp
    then have "(32 :: nat) ^ ?e \<le> 32 ^ Suc ?d" using depth_bounds(1) [of len] by linarith
    then have "?e = Suc ?d" using False pow by (metis le_antisym not_less_eq_eq)
    then show ?thesis using \<open>32 ^ ?e \<le> unat len\<close> depth_bounds(1) [of len] by simp
  qed simp
  ultimately show ?thesis by auto
qed

subsection \<open>The full walk\<close>

lemma capacity: "level \<le> 12 \<Longrightarrow> unat (push_bit (level * BITS_PER_LEVEL) 1 :: u64) = 32 ^ level"
proof -
  assume "level \<le> 12"
  then have "(2 :: nat) ^ (level * 5) < 2 ^ 64" by (intro power_strict_increasing) auto
  then have "unat (of_nat (2 ^ (level * 5)) :: u64) = 2 ^ (level * 5)" by (simp only: unat_of_nat) simp
  then show ?thesis by (simp add: BITS_PER_LEVEL_def push_bit_eq_mult pow32)
qed

lemma pv_collect_kids_refines:
  assumes "\<And>c t. c \<in> set ts \<Longrightarrow> pv_holds L S t \<Longrightarrow>
      \<exists>t'. f t (v_hash L c) (length (v_elems c)) = rok (v_elems c) t' \<and> pv_holds L S t'"
    and "chunked cap (map v_elems ts)" "remaining = emitted + length (concat (map v_elems ts))" "pv_holds L S t"
  shows "\<exists>t'. pv_collect_kids f t (map (v_hash L) ts) cap remaining emitted = rok (concat (map v_elems ts)) t' \<and> pv_holds L S t'"
  using assms
proof (induction ts arbitrary: t emitted)
  case (Cons c ts)
  have ch: "chunked cap (map v_elems ts)" and c: "v_elems c \<noteq> []" using Cons.prems(2) by (cases ts; auto simp: chunked_def)+
  have "min cap (remaining - emitted) = length (v_elems c)"
  proof (cases ts)
    case Nil
    then show ?thesis using Cons.prems(2,3) by (auto simp: chunked_def)
  next
    case (Cons d ds)
    then have "length (v_elems c) = cap" using Cons.prems(2) by (simp add: chunked_def)
    then show ?thesis using Cons.prems(3) by simp
  qed
  moreover obtain t1 where t1: "f t (v_hash L c) (length (v_elems c)) = rok (v_elems c) t1" "pv_holds L S t1"
    using Cons.prems(1) [of c t] Cons.prems(4) by auto
  moreover have "\<exists>t'. pv_collect_kids f t1 (map (v_hash L) ts) cap remaining (emitted + length (v_elems c)) = rok (concat (map v_elems ts)) t'
      \<and> pv_holds L S t'"
    using Cons.prems(1,3) by (intro Cons.IH [OF _ ch _ t1(2)]) auto
  moreover have "emitted < remaining" using Cons.prems(3) c by simp
  ultimately show ?case by (auto simp: rok_def Let_def)
qed auto

lemma pv_collect_refines:
  assumes "pv_holds L S t" "no_collision pv_cell_key S" "v_shape L et level T" "v_cells L T \<subseteq> S" "level \<le> 12"
  shows "\<exists>t'. pv_collect_elements level L et t (v_hash L T) (length (v_elems T)) = rok (v_elems T) t' \<and> pv_holds L S t'"
  using assms
proof (induction level arbitrary: T t)
  case 0
  obtain t1 where t1: "pv_read_node L et t (v_hash L T) = Some (Some (v_top L T), t1)" "pv_holds L S t1"
    using pv_read_stored [OF 0(1-4)] by blast
  obtain es where "T = VTLeaf es" using 0(3) by (cases T) auto
  with t1 show ?case by (auto simp: pv_collect_elements.simps [of 0])
next
  case (Suc l)
  obtain t1 where t1: "pv_read_node L et t (v_hash L T) = Some (Some (v_top L T), t1)" "pv_holds L S t1"
    using pv_read_stored [OF Suc.prems(1-4)] by blast
  obtain ts where T: "T = VTNode ts" using Suc.prems(3) by (cases T) auto
  have "\<exists>t'. pv_collect_elements l L et t (v_hash L c) (length (v_elems c)) = rok (v_elems c) t' \<and> pv_holds L S t'"
    if "c \<in> set ts" "pv_holds L S t" for c t
    using Suc.prems T that by (intro Suc.IH [OF that(2)]) (auto simp: list_all_iff)
  from pv_collect_kids_refines [where f = "pv_collect_elements l L et" and remaining = "length (v_elems T)" and emitted = 0,
      OF this v_chunked [OF Suc.prems(3) [unfolded T]] _ t1(2)]
  show ?case using t1 T capacity [OF Suc.prems(5)] by (simp add: pv_collect_elements.simps [of "Suc l"])
qed

subsection \<open>Growing by a level\<close>

lemma pv_grow_same: "pv_grow L t w d d = Some (w, t)"
  by (simp add: pv_grow.simps)

lemma pv_grow_one: "pv_grow L t w d (Suc d) = pv_write_inner L t [w]"
  by (subst pv_grow.simps) (auto simp: pv_grow_same split: bind_split)

subsection \<open>Merging\<close>

lemma pv_read_kv_stored:
  assumes "bigint_ok L" "kv_stores pv_cell_key s S" "no_collision pv_cell_key S" "v_shape L et level T" "v_cells L T \<subseteq> S"
  shows "pv_read_node_kv L s et (v_hash L T) = Some (Some (v_top L T))"
  unfolding pv_read_node_kv_def v_hash_def
  by (rule kv_read_stored [where dec = "pv_deserialize_node L et", OF assms(2,3) _ v_decode [OF assms(1,4)]]) (use assms(5) v_bytes_in_cells in blast)

lemma v_hash_inj:
  assumes "bigint_ok L" "no_collision pv_cell_key S"
  shows "v_shape L et level A \<Longrightarrow> v_shape L et level B \<Longrightarrow> v_cells L A \<subseteq> S \<Longrightarrow> v_cells L B \<subseteq> S \<Longrightarrow>
     v_hash L A = v_hash L B \<Longrightarrow> A = B"
proof (induction level arbitrary: A B)
  case 0
  have "v_bytes L A = v_bytes L B" using 0 no_collision_eq [OF assms(2)] v_bytes_in_cells unfolding v_hash_def by blast
  then have "v_top L A = v_top L B" using v_decode [OF assms(1) 0(1)] v_decode [OF assms(1) 0(2)] by simp
  then show ?case using 0 by (cases A; cases B) auto
next
  case (Suc l)
  obtain as bs where T: "A = VTNode as" "B = VTNode bs" using Suc.prems(1,2) by (cases A; cases B) auto
  have "v_bytes L A = v_bytes L B" using Suc.prems no_collision_eq [OF assms(2)] v_bytes_in_cells unfolding v_hash_def by blast
  then have "v_top L A = v_top L B" using v_decode [OF assms(1) Suc.prems(1)] v_decode [OF assms(1) Suc.prems(2)] by simp
  then have h: "map (v_hash L) as = map (v_hash L) bs" using T by simp
  then have len: "length as = length bs" by (rule map_eq_imp_length_eq)
  have "as ! i = bs ! i" if i: "i < length as" for i
  proof (rule Suc.IH)
    show "v_shape L et l (as ! i)" "v_shape L et l (bs ! i)" using Suc.prems(1,2) T i len by (auto simp: list_all_length)
    show "v_cells L (as ! i) \<subseteq> S" "v_cells L (bs ! i) \<subseteq> S" 
      using v_kid_cells [OF Suc.prems(3) [unfolded T(1)] i] v_kid_cells [OF Suc.prems(4) [unfolded T(2)], of i] i len by auto
    show "v_hash L (as ! i) = v_hash L (bs ! i)" using h i len by (metis nth_map)
  qed
  then show ?case using T len by (simp add: nth_equalityI)
qed

lemma merge_elems_append:
  assumes "length ys = length xs" "length zs = length xs"
  shows "merge_elems (xs @ xs') (ys @ ys') (zs @ zs') = do { a \<leftarrow> merge_elems xs ys zs; b \<leftarrow> merge_elems xs' ys' zs'; Some (a @ b) }"
  using assms
proof (induction xs arbitrary: ys zs)
  case (Cons x xs)
  then obtain y ys2 z zs2 where "ys = y # ys2" "zs = z # zs2" by (cases ys; cases zs) auto
  then show ?case using Cons by (auto split: bind_split)
qed simp

lemma merge_elems_length: "merge_elems xs ys zs = Some rs \<Longrightarrow> length rs = length xs"
  by (induction xs arbitrary: ys zs rs) (auto split: bind_splits)

lemma merge_elems_same: "merge_elems xs xs zs = Some xs"
  by (induction xs arbitrary: zs) (auto simp: merge_elem_def)

lemma merge_elems_theirs:
  "length ys = length xs \<Longrightarrow> \<exists>rs. merge_elems xs ys xs = Some rs \<and> list_all2 value_eq ys rs"
proof (induction xs arbitrary: ys)
  case (Cons x xs)
  then obtain y ys2 where y: "ys = y # ys2" by (cases ys) auto
  then obtain rs where "merge_elems xs ys2 xs = Some rs" "list_all2 value_eq ys2 rs" using Cons by auto
  then show ?case using y by (auto simp: merge_elem_def opt_eq_def intro: value_eq_sym)
qed simp

lemma merge_elems_ours: "length ys = length xs \<Longrightarrow> merge_elems xs ys ys = Some xs"
proof (induction xs arbitrary: ys)
  case (Cons x xs)
  then obtain y ys2 where y: "ys = y # ys2" by (cases ys) auto
  then show ?case using Cons by (auto simp: merge_elem_def opt_eq_def)
qed simp

lemma merge_elems_set: "merge_elems xs ys zs = Some rs \<Longrightarrow> length ys = length xs \<Longrightarrow> set rs \<subseteq> set xs \<union> set ys"
proof (induction xs arbitrary: ys zs rs)
  case (Cons x xs)
  then obtain y ys2 where y: "ys = y # ys2" by (cases ys) auto
  from Cons.prems(1) y obtain r rs2 where r: "rs = r # rs2" "merge_elem x y (case zs of [] \<Rightarrow> None | z # _ \<Rightarrow> Some z) = Some r"
    "merge_elems xs ys2 (tl zs) = Some rs2" by (auto split: bind_splits)
  then have "r = x \<or> r = y" by (auto simp: merge_elem_def split: if_splits)
  moreover have "set rs2 \<subseteq> set xs \<union> set ys2" using Cons.IH [OF r(3)] Cons.prems(2) y by simp
  ultimately show ?case using r(1) y by auto
qed simp

text \<open>What a merge returns: the root of a well-shaped trie whose nodes are old ones or among the new cells.\<close>

definition v_merged :: "bigint_lib \<Rightarrow> ty \<Rightarrow> nat \<Rightarrow> bytes set \<Rightarrow> val list option \<Rightarrow> new_cells \<Rightarrow> merge_out \<Rightarrow> bool" where
  "v_merged L et level S spec out r \<longleftrightarrow>
     (case spec of None \<Rightarrow> r = Some None
      | Some rs \<Rightarrow> (\<exists>T new. r = Some (Some (v_hash L T, out @ new)) \<and> v_shape L et level T
          \<and> v_cells L T \<subseteq> S \<union> snd ` set new \<and> (\<forall>c\<in>set new. fst c = pv_cell_key (snd c)) \<and> list_all2 value_eq (v_elems T) rs))"

lemma value_eq_list: "list_all2 value_eq xs xs"
  by (simp add: list.rel_refl)

lemma v_merged_old:
  "v_shape L et level T \<Longrightarrow> v_cells L T \<subseteq> S \<Longrightarrow> list_all2 value_eq (v_elems T) rs \<Longrightarrow>
   v_merged L et level S (Some rs) out (Some (Some (v_hash L T, out)))"
  unfolding v_merged_def option.case by (intro exI [of _ T] exI [of _ "[]"]) simp

lemma v_merged_shortcut:
  assumes "bigint_ok L" "no_collision pv_cell_key S"
    and "v_shape L et level A" "v_shape L et level B" "v_shape L et level C"
    and "v_cells L A \<subseteq> S" "v_cells L B \<subseteq> S" "v_cells L C \<subseteq> S"
    and "length (v_elems B) = length (v_elems A)"
    and "v_hash L A = v_hash L B \<or> v_hash L A = v_hash L C \<or> v_hash L B = v_hash L C"
  shows "v_merged L et level S (merge_elems (v_elems A) (v_elems B) (v_elems C)) out
     (pv_merge_at level L s et (v_hash L A) (v_hash L B) (v_hash L C) out)"
proof -
  note inj = v_hash_inj [OF assms(1,2)]
  from assms(10) consider "A = B" | "A = C" "v_hash L A \<noteq> v_hash L B" | "B = C" "v_hash L A \<noteq> v_hash L B" "v_hash L A \<noteq> v_hash L C"
    using inj [OF assms(3,4,6,7)] inj [OF assms(3,5,6,8)] inj [OF assms(4,5,7,8)] by blast
  then show ?thesis
  proof cases
    case 1
    then show ?thesis using v_merged_old [OF assms(3,6) value_eq_list] by (simp add: pv_merge_at.simps [of level] merge_elems_same)
  next
    case 2
    from merge_elems_theirs [OF assms(9)] 2(1) obtain rs where "merge_elems (v_elems A) (v_elems B) (v_elems C) = Some rs"
      "list_all2 value_eq (v_elems B) rs" by auto
    then show ?thesis using v_merged_old [OF assms(4,7)] 2 by (simp add: pv_merge_at.simps [of level])
  next
    case 3
    then show ?thesis using v_merged_old [OF assms(3,6) value_eq_list] merge_elems_ours [OF assms(9)]
      by (simp add: pv_merge_at.simps [of level])
  qed
qed

lemma pv_merge_kids_refines:
  assumes "\<And>a b c out. a \<in> set as \<Longrightarrow> b \<in> set bs \<Longrightarrow> c \<in> set cs \<Longrightarrow> length (v_elems b) = length (v_elems a) \<Longrightarrow>
      length (v_elems c) = length (v_elems a) \<Longrightarrow>
      v_merged L et l S (merge_elems (v_elems a) (v_elems b) (v_elems c)) out (f (v_hash L a) (v_hash L b) (v_hash L c) out)"
    and "map (\<lambda>t. length (v_elems t)) bs = map (\<lambda>t. length (v_elems t)) as"
    and "map (\<lambda>t. length (v_elems t)) cs = map (\<lambda>t. length (v_elems t)) as"
  shows "case merge_elems (concat (map v_elems as)) (concat (map v_elems bs)) (concat (map v_elems cs)) of
       None \<Rightarrow> pv_merge_kids f (map (v_hash L) as) (map (v_hash L) bs) (map (v_hash L) cs) out = Some None
     | Some rs \<Rightarrow> (\<exists>ts new. pv_merge_kids f (map (v_hash L) as) (map (v_hash L) bs) (map (v_hash L) cs) out
           = Some (Some (map (v_hash L) ts, out @ new)) \<and> list_all (v_shape L et l) ts
         \<and> map (\<lambda>t. length (v_elems t)) ts = map (\<lambda>t. length (v_elems t)) as
         \<and> (\<forall>t\<in>set ts. v_cells L t \<subseteq> S \<union> snd ` set new) \<and> (\<forall>c\<in>set new. fst c = pv_cell_key (snd c))
         \<and> list_all2 value_eq (concat (map v_elems ts)) rs)"
  using assms
proof (induction as arbitrary: bs cs out)
  case Nil
  then show ?case by (simp add: exI [of _ "[]"])
next
  case (Cons a as)
  then obtain b bs' c cs' where bc: "bs = b # bs'" "cs = c # cs'" by (cases bs; cases cs) auto
  have len: "length (v_elems b) = length (v_elems a)" "length (v_elems c) = length (v_elems a)" using Cons.prems(2,3) bc by auto
  note m = merge_elems_append [OF len, of "concat (map v_elems as)" "concat (map v_elems bs')" "concat (map v_elems cs')"]
  have f: "v_merged L et l S (merge_elems (v_elems a) (v_elems b) (v_elems c)) out (f (v_hash L a) (v_hash L b) (v_hash L c) out)"
    using Cons.prems(1) [of a b c] len bc by simp
  show ?case
  proof (cases "merge_elems (v_elems a) (v_elems b) (v_elems c)")
    case None
    then show ?thesis using f m bc by (simp add: v_merged_def)
  next
    case (Some r1)
    then obtain T new1 where T: "f (v_hash L a) (v_hash L b) (v_hash L c) out = Some (Some (v_hash L T, out @ new1))"
      "v_shape L et l T" "v_cells L T \<subseteq> S \<union> snd ` set new1" "\<forall>c\<in>set new1. fst c = pv_cell_key (snd c)"
      "list_all2 value_eq (v_elems T) r1" using f by (auto simp: v_merged_def)
    have lT: "length (v_elems T) = length (v_elems a)" using merge_elems_length [OF Some] list_all2_lengthD [OF T(5)] by simp
    have IH: "case merge_elems (concat (map v_elems as)) (concat (map v_elems bs')) (concat (map v_elems cs')) of
       None \<Rightarrow> pv_merge_kids f (map (v_hash L) as) (map (v_hash L) bs') (map (v_hash L) cs') (out @ new1) = Some None
     | Some rs \<Rightarrow> (\<exists>ts new. pv_merge_kids f (map (v_hash L) as) (map (v_hash L) bs') (map (v_hash L) cs') (out @ new1)
           = Some (Some (map (v_hash L) ts, (out @ new1) @ new)) \<and> list_all (v_shape L et l) ts
         \<and> map (\<lambda>t. length (v_elems t)) ts = map (\<lambda>t. length (v_elems t)) as
         \<and> (\<forall>t\<in>set ts. v_cells L t \<subseteq> S \<union> snd ` set new) \<and> (\<forall>c\<in>set new. fst c = pv_cell_key (snd c))
         \<and> list_all2 value_eq (concat (map v_elems ts)) rs)"
      using Cons.prems bc by (intro Cons.IH) auto
    show ?thesis
    proof (cases "merge_elems (concat (map v_elems as)) (concat (map v_elems bs')) (concat (map v_elems cs'))")
      case None
      then show ?thesis using IH m bc Some T(1) by simp
    next
      case (Some r2)
      with IH obtain ts new where ts: "pv_merge_kids f (map (v_hash L) as) (map (v_hash L) bs') (map (v_hash L) cs') (out @ new1)
           = Some (Some (map (v_hash L) ts, (out @ new1) @ new))" "list_all (v_shape L et l) ts"
         "map (\<lambda>t. length (v_elems t)) ts = map (\<lambda>t. length (v_elems t)) as"
         "\<forall>t\<in>set ts. v_cells L t \<subseteq> S \<union> snd ` set new" "\<forall>c\<in>set new. fst c = pv_cell_key (snd c)"
         "list_all2 value_eq (concat (map v_elems ts)) r2" by auto
      have "list_all2 value_eq (v_elems T @ concat (map v_elems ts)) (r1 @ r2)" using T(5) ts(6) by (rule list_all2_appendI)
      moreover have "\<forall>t\<in>set (T # ts). v_cells L t \<subseteq> S \<union> snd ` set (new1 @ new)" using T(3) ts(4) by fastforce
      moreover have "merge_elems (concat (map v_elems (a # as))) (concat (map v_elems bs)) (concat (map v_elems cs)) = Some (r1 @ r2)"
        using m Some \<open>merge_elems (v_elems a) (v_elems b) (v_elems c) = Some r1\<close> bc by simp
      moreover have "\<forall>c\<in>set (new1 @ new). fst c = pv_cell_key (snd c)" using T(4) ts(5) by auto
      ultimately show ?thesis using bc T(1,2) ts(1-3) lT
        by (simp only: option.case) (intro exI [of _ "T # ts"] exI [of _ "new1 @ new"], simp)
    qed
  qed
qed

lemma chunk_lengths:
  "chunked c xs \<Longrightarrow> chunked c ys \<Longrightarrow> length (concat xs) = length (concat ys) \<Longrightarrow> map length xs = map length ys"
proof (induction xs arbitrary: ys)
  case Nil
  then show ?case by (cases ys) (auto simp: chunked_def)
next
  case (Cons x xs)
  then obtain y ys2 where y: "ys = y # ys2" by (cases ys) (auto simp: chunked_def)
  have le: "length x \<le> c" "length y \<le> c" using Cons.prems y by (auto simp: chunked_def)
  have same: "length x = length y"
  proof (cases "xs = [] \<or> ys2 = []")
    case False
    then show ?thesis using Cons.prems(1,2) y by (auto simp: chunked_def neq_Nil_conv)
  next
    case True
    then show ?thesis
    proof
      assume xs: "xs = []"
      show ?thesis
      proof (cases ys2)
        case (Cons z zs)
        then have "length y = c" "z \<noteq> []" using Cons.prems(2) y by (auto simp: chunked_def)
        then show ?thesis using Cons.prems(3) y xs Cons le by auto
      qed (use Cons.prems(3) y xs in auto)
    next
      assume ys2: "ys2 = []"
      show ?thesis
      proof (cases xs)
        case (Cons z zs)
        then have "length x = c" "z \<noteq> []" using Cons.prems(1) by (auto simp: chunked_def)
        then show ?thesis using Cons.prems(3) y ys2 Cons le by auto
      qed (use Cons.prems(3) y ys2 in auto)
    qed
  qed
  have "chunked c xs" "chunked c ys2" using Cons.prems(1,2) y by (auto simp: chunked_def split: if_splits)
  moreover have "length (concat xs) = length (concat ys2)" using Cons.prems(3) y same by simp
  ultimately show ?case using Cons.IH y same by simp
qed

lemma pv_merge_leaf_refines:
  assumes "bigint_ok L" "kv_stores pv_cell_key s S" "no_collision pv_cell_key S"
    and "v_shape L et level (VTLeaf ea)" "v_shape L et level (VTLeaf eb)" "v_shape L et level (VTLeaf ec)"
    and "v_cells L (VTLeaf ea) \<subseteq> S" "v_cells L (VTLeaf eb) \<subseteq> S" "v_cells L (VTLeaf ec) \<subseteq> S" "length eb = length ea"
    and ne: "v_hash L (VTLeaf ea) \<noteq> v_hash L (VTLeaf eb)" "v_hash L (VTLeaf ea) \<noteq> v_hash L (VTLeaf ec)" "v_hash L (VTLeaf eb) \<noteq> v_hash L (VTLeaf ec)"
  shows "v_merged L et level S (merge_elems ea eb ec) out
     (pv_merge_at level L s et (v_hash L (VTLeaf ea)) (v_hash L (VTLeaf eb)) (v_hash L (VTLeaf ec)) out)"
proof -
  note rd = pv_read_kv_stored [OF assms(1-3)]
  note r = rd [OF assms(4,7)] rd [OF assms(5,8)] rd [OF assms(6,9)]
  show ?thesis
  proof (cases "merge_elems ea eb ec")
    case None
    then show ?thesis using r ne assms(10) by (simp add: v_merged_def pv_merge_at.simps [of level])
  next
    case (Some rs)
    have sh: "v_shape L et level (VTLeaf rs)"
      using merge_elems_set [OF Some assms(10)] merge_elems_length [OF Some] assms(4,5) by (auto simp: list_all_iff)
    then obtain b where b: "pv_serialize_leaf L rs = Some b" using pv_leaf_bytes [OF assms(1), of et rs] by auto
    then have vb: "v_bytes L (VTLeaf rs) = b" by (simp add: v_bytes.simps)
    have "pv_merge_at level L s et (v_hash L (VTLeaf ea)) (v_hash L (VTLeaf eb)) (v_hash L (VTLeaf ec)) out
        = Some (Some (v_hash L (VTLeaf rs), out @ [(pv_cell_key b, b)]))"
      using r ne assms(10) Some b vb by (simp add: pv_merge_at.simps [of level] v_hash_def)
    then show ?thesis using Some sh vb value_eq_list [of rs] unfolding v_merged_def
      by (simp del: v_shape.simps) (intro exI [of _ "VTLeaf rs"], simp del: v_shape.simps)
  qed
qed

lemma v_merged_node:
  assumes "v_shape L et (Suc l) (VTNode as)" "list_all (v_shape L et l) ts"
    "map (\<lambda>t. length (v_elems t)) ts = map (\<lambda>t. length (v_elems t)) as"
  shows "v_shape L et (Suc l) (VTNode ts)"
proof -
  have "list_all (\<lambda>n. n = 32 ^ Suc l) (butlast (map (\<lambda>t. length (v_elems t)) as))"
    using assms(1) by (simp add: map_butlast [symmetric] list_all_iff)
  then have "list_all (\<lambda>t. length (v_elems t) = 32 ^ Suc l) (butlast ts)"
    unfolding assms(3) [symmetric] by (simp add: map_butlast [symmetric] list_all_iff)
  moreover have "length ts = length as" using assms(3) by (rule map_eq_imp_length_eq)
  ultimately show ?thesis using assms(1,2) by auto
qed

lemma pv_merge_at_refines:
  assumes "bigint_ok L" "kv_stores pv_cell_key s S" "no_collision pv_cell_key S"
    and "v_shape L et level A" "v_shape L et level B" "v_shape L et level C"
    and "v_cells L A \<subseteq> S" "v_cells L B \<subseteq> S" "v_cells L C \<subseteq> S"
    and "length (v_elems B) = length (v_elems A)" "length (v_elems C) = length (v_elems A)"
  shows "v_merged L et level S (merge_elems (v_elems A) (v_elems B) (v_elems C)) out
     (pv_merge_at level L s et (v_hash L A) (v_hash L B) (v_hash L C) out)"
  using assms(4-)
proof (induction level arbitrary: A B C out)
  case 0
  then obtain ea eb ec where T: "A = VTLeaf ea" "B = VTLeaf eb" "C = VTLeaf ec" by (cases A; cases B; cases C) auto
  show ?case
  proof (cases "v_hash L A = v_hash L B \<or> v_hash L A = v_hash L C \<or> v_hash L B = v_hash L C")
    case True
    show ?thesis by (rule v_merged_shortcut [OF assms(1,3) 0(1-7) True])
  next
    case False
    then show ?thesis using pv_merge_leaf_refines [OF assms(1-3) 0(1-6) [unfolded T]] 0(7) T by simp
  qed
next
  case (Suc l)
  show ?case
  proof (cases "v_hash L A = v_hash L B \<or> v_hash L A = v_hash L C \<or> v_hash L B = v_hash L C")
    case True
    show ?thesis by (rule v_merged_shortcut [OF assms(1,3) Suc.prems(1-7) True])
  next
    case ne: False
    obtain as bs cs where T: "A = VTNode as" "B = VTNode bs" "C = VTNode cs" using Suc.prems(1-3) by (cases A; cases B; cases C) auto
    note rd = pv_read_kv_stored [OF assms(1-3)]
    note r = rd [OF Suc.prems(1,4), unfolded T] rd [OF Suc.prems(2,5), unfolded T] rd [OF Suc.prems(3,6), unfolded T]
    note ch = v_chunked [OF Suc.prems(1) [unfolded T]] v_chunked [OF Suc.prems(2) [unfolded T]] v_chunked [OF Suc.prems(3) [unfolded T]]
    have len: "map (\<lambda>t. length (v_elems t)) bs = map (\<lambda>t. length (v_elems t)) as" "map (\<lambda>t. length (v_elems t)) cs = map (\<lambda>t. length (v_elems t)) as"
      using chunk_lengths [OF ch(2,1)] chunk_lengths [OF ch(3,1)] Suc.prems(7,8) T by (simp_all add: comp_def)
    then have ll: "length bs = length as" by (metis length_map)
    let ?f = "pv_merge_at l L s et"
    have IH: "v_merged L et l S (merge_elems (v_elems a) (v_elems b) (v_elems c)) out (?f (v_hash L a) (v_hash L b) (v_hash L c) out)"
      if "a \<in> set as" "b \<in> set bs" "c \<in> set cs" "length (v_elems b) = length (v_elems a)" "length (v_elems c) = length (v_elems a)" for a b c out
      using Suc.prems T that by (intro Suc.IH) (auto simp: list_all_iff)
    note kids = pv_merge_kids_refines [where f = ?f and out = out, OF IH len]
    have eq: "pv_merge_at (Suc l) L s et (v_hash L A) (v_hash L B) (v_hash L C) out = do {
        r \<leftarrow> pv_merge_kids ?f (map (v_hash L) as) (map (v_hash L) bs) (map (v_hash L) cs) out;
        Some (map_option (\<lambda>(merged, out1). (pv_cell_key (pv_serialize_inner merged), out1 @ [(pv_cell_key (pv_serialize_inner merged), pv_serialize_inner merged)])) r) }"
      using r ne ll unfolding T by (subst pv_merge_at.simps) (simp add: Let_def)
    show ?thesis
    proof (cases "merge_elems (v_elems A) (v_elems B) (v_elems C)")
      case None
      then have n: "merge_elems (concat (map v_elems as)) (concat (map v_elems bs)) (concat (map v_elems cs)) = None" using T by simp
      have "pv_merge_kids ?f (map (v_hash L) as) (map (v_hash L) bs) (map (v_hash L) cs) out = Some None"
        by (rule kids [unfolded n option.case])
      then show ?thesis unfolding None eq by (simp only: v_merged_def option.case) simp
    next
      case (Some rs)
      then have rs: "merge_elems (concat (map v_elems as)) (concat (map v_elems bs)) (concat (map v_elems cs)) = Some rs" using T by simp
      from kids [unfolded rs option.case] obtain ts new where ts: "pv_merge_kids ?f (map (v_hash L) as) (map (v_hash L) bs) (map (v_hash L) cs) out
           = Some (Some (map (v_hash L) ts, out @ new))" "list_all (v_shape L et l) ts"
         "map (\<lambda>t. length (v_elems t)) ts = map (\<lambda>t. length (v_elems t)) as"
         "\<forall>t\<in>set ts. v_cells L t \<subseteq> S \<union> snd ` set new" "\<forall>c\<in>set new. fst c = pv_cell_key (snd c)"
         "list_all2 value_eq (concat (map v_elems ts)) rs" by blast
      let ?b = "v_bytes L (VTNode ts)"
      have b: "pv_serialize_inner (map (v_hash L) ts) = ?b" by (simp add: v_bytes.simps v_hash_def [abs_def])
      have "pv_merge_at (Suc l) L s et (v_hash L A) (v_hash L B) (v_hash L C) out
          = Some (Some (v_hash L (VTNode ts), out @ (new @ [(pv_cell_key ?b, ?b)])))"
        unfolding eq ts(1) by (simp add: b) (simp add: v_hash_def)
      moreover have "v_cells L (VTNode ts) \<subseteq> S \<union> snd ` set (new @ [(pv_cell_key ?b, ?b)])" using ts(4) by fastforce
      moreover have "\<forall>c\<in>set (new @ [(pv_cell_key ?b, ?b)]). fst c = pv_cell_key (snd c)" using ts(5) by simp
      moreover have "v_shape L et (Suc l) (VTNode ts)" by (rule v_merged_node [OF Suc.prems(1) [unfolded T] ts(2,3)])
      moreover have "list_all2 value_eq (v_elems (VTNode ts)) rs" using ts(6) by simp
      ultimately show ?thesis unfolding Some v_merged_def option.case by blast
    qed
  qed
qed

end
