(* ===== verification/PVecProps.thy ===== *)
theory PVecProps
  imports PVecRefine
begin

section \<open>Properties of the persistent vector\<close>

text \<open>
  The contract of the public operations of \<^verbatim>\<open>pvec.rs\<close> on a stored version: \<open>vr_rep\<close> says that the
  transaction stores the nodes of the trie \<open>r\<close>, that the trie has the shape the length prescribes and
  that it has that many elements. The operations are indexing, update, append and conversion on the
  list of elements, out-of-bounds indices are the error the code reports, and a merge of three
  versions of one length is the element-wise merge.
\<close>

definition vr_rep :: "bigint_lib \<Rightarrow> ty \<Rightarrow> bytes set \<Rightarrow> tx \<Rightarrow> u64 \<Rightarrow> vtree option \<Rightarrow> bool" where
  "vr_rep L et S t len r \<longleftrightarrow> pv_holds L S t \<and> no_collision pv_cell_key S \<and> vo_shape L et (depth_for len) r
     \<and> vo_cells L r \<subseteq> S \<and> length (vo_elems r) = unat len"

definition vr_grow :: "u64 \<Rightarrow> vtree option \<Rightarrow> vtree option" where
  "vr_grow len r = (if depth_for (len + 1) = depth_for len then r else map_option (\<lambda>T. VTNode [T]) r)"

definition vr_push :: "u64 \<Rightarrow> vtree option \<Rightarrow> val \<Rightarrow> vtree" where
  "vr_push len r v = vpush (depth_for (len + 1)) (vr_grow len r) (unat len) v"

lemma vr_index: "vr_rep L et S t len r \<Longrightarrow> i < len \<Longrightarrow>
  \<exists>T. r = Some T \<and> unat i mod 32 ^ Suc (depth_for len) = unat i \<and> unat i < length (v_elems T)"
  using depth_bounds(1) [of len] by (cases r) (auto simp: vr_rep_def word_less_nat_alt)

lemma pv_get_root:
  assumes "vr_rep L et S t len r"
  shows "i < len \<Longrightarrow> \<exists>t'. pv_get L et t (vo_hash L r) len i = rok (vo_elems r ! unat i) t' \<and> vr_rep L et S t' len r"
    and "\<not> i < len \<Longrightarrow> pv_get L et t (vo_hash L r) len i = rerr (PVecOutOfBounds i len) t"
proof -
  assume i: "i < len"
  from vr_index [OF assms i] obtain T where T: "r = Some T" "unat i mod 32 ^ Suc (depth_for len) = unat i" "unat i < length (v_elems T)" by blast
  have R: "pv_holds L S t" "no_collision pv_cell_key S" "v_shape L et (depth_for len) T" "v_cells L T \<subseteq> S" using assms T(1) by (auto simp: vr_rep_def)
  have "vget T (depth_for len) (unat i) = Some (v_elems T ! unat i)" using vget_nth [OF R(3), of "unat i"] T(2,3) by simp
  then show "\<exists>t'. pv_get L et t (vo_hash L r) len i = rok (vo_elems r ! unat i) t' \<and> vr_rep L et S t' len r"
    using pv_get_at_refines [OF R, of i] T(1) i assms by (auto simp: pv_get_def vr_rep_def not_le)
qed (simp add: pv_get_def not_less)

lemma pv_set_root:
  assumes "vr_rep L et S t len (Some T)" "i < len" "elem_ok L et v"
    and "no_collision pv_cell_key (S \<union> v_cells L (vset T (depth_for len) (unat i) v))"
  shows "\<exists>t'. pv_set L et t (v_hash L T) len i v = rok (v_hash L (vset T (depth_for len) (unat i) v)) t'
     \<and> vr_rep L et (S \<union> v_cells L (vset T (depth_for len) (unat i) v)) t' len (Some (vset T (depth_for len) (unat i) v))
     \<and> v_elems (vset T (depth_for len) (unat i) v) = (v_elems T)[unat i := v]"
proof -
  from vr_index [OF assms(1,2)] have T: "unat i mod 32 ^ Suc (depth_for len) = unat i" "unat i < length (v_elems T)" by auto
  have R: "pv_holds L S t" "v_shape L et (depth_for len) T" "v_cells L T \<subseteq> S" using assms(1) by (auto simp: vr_rep_def)
  have b: "unat i mod 32 ^ Suc (depth_for len) < length (v_elems T)" using T by simp
  show ?thesis
    using pv_set_at_refines [OF R assms(3) b assms(4)] vset_update [OF R(2) b assms(3)] T(1) assms(1,2,4)
    by (auto simp: pv_set_def vr_rep_def not_le rok_def)
qed

lemma pv_push_root:
  assumes "vr_rep L et S t len r" "len \<noteq> - 1" "elem_ok L et v"
    and nc: "no_collision pv_cell_key (S \<union> vo_cells L (vr_grow len r) \<union> v_cells L (vr_push len r v))"
  shows "\<exists>t'. pv_push L et t (vo_hash L r) len v = rok (v_hash L (vr_push len r v), len + 1) t'
     \<and> vr_rep L et (S \<union> vo_cells L (vr_grow len r) \<union> v_cells L (vr_push len r v)) t' (len + 1) (Some (vr_push len r v))
     \<and> v_elems (vr_push len r v) = vo_elems r @ [v]"
proof -
  let ?d = "depth_for len" and ?e = "depth_for (len + 1)" and ?g = "vr_grow len r"
  have s: "unat (len + 1) = Suc (unat len)" using assms(2) unatSuc [of len] by (metis add.commute add_eq_0_iff)
  have R: "pv_holds L S t" "vo_shape L et ?d r" "vo_cells L r \<subseteq> S" "length (vo_elems r) = unat len" using assms(1) by (auto simp: vr_rep_def)
  have grown: "vo_shape L et ?e ?g \<and> vo_elems ?g = vo_elems r \<and>
      (\<exists>t1. pv_grow L t (vo_hash L r) ?d ?e = Some (vo_hash L ?g, t1) \<and> pv_holds L (S \<union> vo_cells L ?g) t1)"
  proof (cases "?e = ?d")
    case True
    then show ?thesis using R by (auto simp: vr_grow_def pv_grow_same Un_absorb2 simp del: vo_simps vo_store)
  next
    case False
    then have e: "?e = Suc ?d" "unat len = 32 ^ Suc ?d" using depth_push [OF assms(2)] by auto
    then obtain T where T: "r = Some T" using R(4) by (cases r) auto
    then have g: "?g = Some (VTNode [T])" using False by (simp add: vr_grow_def)
    have eq: "insert (v_bytes L (VTNode [T])) S = S \<union> vo_cells L ?g" using R(3) T g by auto
    have "no_collision pv_cell_key (insert (v_bytes L (VTNode [T])) S)" unfolding eq by (rule no_collision_subset [OF nc]) auto
    from pv_write_inner_stored [OF R(1) this] show ?thesis using R(2) T g e(1) unfolding eq by (auto simp: pv_grow_one)
  qed
  then obtain t1 where t1: "pv_grow L t (vo_hash L r) ?d ?e = Some (vo_hash L ?g, t1)" "pv_holds L (S \<union> vo_cells L ?g) t1" by blast
  have m: "unat len mod 32 ^ Suc ?e = length (vo_elems ?g)" using grown R(4) depth_bounds(1) [of "len + 1"] s by simp
  obtain t2 where t2: "pv_push_at ?e L et t1 (vo_hash L ?g) len v = Some (v_hash L (vr_push len r v), t2)"
    "pv_holds L (S \<union> vo_cells L ?g \<union> v_cells L (vr_push len r v)) t2"
    using pv_push_at_refines [OF t1(2) _ _ assms(3) m] nc grown unfolding vr_push_def by blast
  have "v_shape L et ?e (vr_push len r v)" "v_elems (vr_push len r v) = vo_elems r @ [v]"
    using vpush_append [OF _ m assms(3)] grown unfolding vr_push_def by auto
  moreover have "vo_cells L (Some T) = v_cells L T" for T by simp
  ultimately show ?thesis using t1(1) t2 assms(2) nc s R(4)
    by (auto simp: pv_push_def vr_rep_def rok_def simp del: vo_store)
qed

subsection \<open>A concrete vector\<close>

definition demo_vec :: "u64 list \<Rightarrow> vtree" where
  "demo_vec ns = VTLeaf (map VU64 ns)"

lemma pvec_ns_bytes: "be_bytes 16 (unat PVEC_NODE_NS) = [80, 86, 69, 67, 78, 79, 68, 69, 80, 86, 69, 67, 78, 79, 68, 69]"
  by (simp add: PVEC_NODE_NS_def eval_simps)

lemma demo_vec_bytes:
  "v_bytes twos_lib (demo_vec [a, b]) = [2, 2, 0, 0, 0, 9, 0x12] @ be_bytes 8 (unat a) @ [0, 0, 0, 9, 0x12] @ be_bytes 8 (unat b)"
  "v_bytes twos_lib (demo_vec [a, b, c]) = [2, 3, 0, 0, 0, 9, 0x12] @ be_bytes 8 (unat a) @ [0, 0, 0, 9, 0x12] @ be_bytes 8 (unat b)
     @ [0, 0, 0, 9, 0x12] @ be_bytes 8 (unat c)"
  by (simp_all add: demo_vec_def v_bytes.simps pv_serialize_leaf_def elem_to_bytes_def eval_simps)

lemma demo_vec_hash:
  "v_hash twos_lib (demo_vec [1, 2]) = 0x92b6f066306baccff0a6b562f0c32cdc"
  "v_hash twos_lib (demo_vec [9, 2]) = 0x5d10a667767af68f97e3176214baf894"
  "v_hash twos_lib (demo_vec [1, 8]) = 0x92b6f0663a6baccff0a6b562f0c3392a"
  "v_hash twos_lib (demo_vec [1, 2, 3]) = 0xc21d7b0048106f5b552a66ff9329a56b"
  unfolding v_hash_def pv_cell_key_def child_def pvec_ns_bytes demo_vec_bytes by (simp_all add: eval_simps) code_simp+

lemma demo_vec_cells: "v_cells twos_lib (demo_vec ns) = {v_bytes twos_lib (demo_vec ns)}"
  by (simp add: demo_vec_def)

lemma demo_vec_shape: "elem_ok twos_lib TU64 (VU64 n)" "ns \<noteq> [] \<Longrightarrow> length ns \<le> 32 \<Longrightarrow> v_shape twos_lib TU64 0 (demo_vec ns)"
proof -
  show e: "elem_ok twos_lib TU64 (VU64 n)" for n by (simp add: elem_ok_def)
  show "ns \<noteq> [] \<Longrightarrow> length ns \<le> 32 \<Longrightarrow> v_shape twos_lib TU64 0 (demo_vec ns)" by (auto simp: demo_vec_def list_all_iff e)
qed

lemma demo_depth: "depth_for 2 = 0" "depth_for 3 = 0"
  by (simp_all add: depth_for_def BRANCH_def)

definition demo_vec_tx :: tx where
  "demo_vec_tx = (tx_new empty_kv)\<lparr>writes := [(0x92b6f066306baccff0a6b562f0c32cdc, VBytes (v_bytes twos_lib (demo_vec [1, 2])))]\<rparr>"

lemma demo_vec_holds: "pv_holds twos_lib {v_bytes twos_lib (demo_vec [1, 2])} demo_vec_tx"
  using demo_vec_hash(1)
  by (simp add: v_hash_def holds_def bigint_ok_twos_lib demo_vec_tx_def settled_def tx_new_def tx_new_with_context_def
      resolved_map_def parent_lookup_def stored_in_def node_view_def cell_value_def hm_get_def as_node_bytes_def)

lemma demo_vec_nc:
  "no_collision pv_cell_key {v_bytes twos_lib (demo_vec [1, 2])}"
  "no_collision pv_cell_key ({v_bytes twos_lib (demo_vec [1, 2])} \<union> {v_bytes twos_lib (demo_vec [1, 8])})"
  "no_collision pv_cell_key ({v_bytes twos_lib (demo_vec [1, 2])} \<union> {v_bytes twos_lib (demo_vec [1, 2])} \<union> {v_bytes twos_lib (demo_vec [1, 2, 3])})"
  "no_collision pv_cell_key {v_bytes twos_lib (demo_vec [1, 2]), v_bytes twos_lib (demo_vec [9, 2]), v_bytes twos_lib (demo_vec [1, 8])}"
  using demo_vec_hash unfolding no_collision_def v_hash_def by auto

lemma demo_vec_rep: "vr_rep twos_lib TU64 {v_bytes twos_lib (demo_vec [1, 2])} demo_vec_tx 2 (Some (demo_vec [1, 2]))"
  using demo_vec_holds demo_vec_nc(1) demo_vec_shape(2) [of "[1, 2]"]
  by (simp add: vr_rep_def demo_depth demo_vec_cells) (simp add: demo_vec_def)

lemma demo_vec_root: "vo_hash twos_lib (Some (demo_vec [1, 2])) = 0x92b6f066306baccff0a6b562f0c32cdc"
  by (simp add: demo_vec_hash)

lemma demo_vec_ops:
  "vset (demo_vec [1, 2]) 0 (Suc 0) (VU64 8) = demo_vec [1, 8]" "vr_grow 2 (Some (demo_vec [1, 2])) = Some (demo_vec [1, 2])"
  "vr_push 2 (Some (demo_vec [1, 2])) (VU64 3) = demo_vec [1, 2, 3]"
  by (simp_all add: demo_vec_def vslot_def vr_push_def vr_grow_def demo_depth)

subsection \<open>Properties\<close>

text \<open>C18 (functional): \<^verbatim>\<open>pvec::get\<close> is indexing. On a stored vector it returns the element at the index
  when the index is below the length, and the out-of-bounds error with the index and the length
  otherwise; the "missing node" error and the panic on a level underflow do not occur.\<close>

theorem pv_get_correct:
  assumes "vr_rep L et S t len r"
  shows "\<exists>t'. pv_get L et t (vo_hash L r) len i =
       (if i < len then rok (vo_elems r ! unat i) t' else rerr (PVecOutOfBounds i len) t)"
  using pv_get_root [OF assms, of i] by (cases "i < len") auto

theorem pv_get_correct_witness:
  "(\<exists>t'. pv_get twos_lib TU64 demo_vec_tx 0x92b6f066306baccff0a6b562f0c32cdc 2 1 = rok (VU64 2) t')
   \<and> pv_get twos_lib TU64 demo_vec_tx 0x92b6f066306baccff0a6b562f0c32cdc 2 2 = rerr (PVecOutOfBounds 2 2) demo_vec_tx"
  using pv_get_correct [OF demo_vec_rep, of 1, unfolded demo_vec_root] pv_get_correct [OF demo_vec_rep, of 2, unfolded demo_vec_root]
  by (simp add: demo_vec_def)

text \<open>C19 (refinement): \<^verbatim>\<open>pvec::set\<close> is list update at an index in range: the returned root stores the
  updated list with the same length, and every node stored before stays stored.\<close>

theorem pv_set_correct:
  assumes "vr_rep L et S t len (Some T)" and "i < len" and "elem_ok L et v"
    and "no_collision pv_cell_key (S \<union> v_cells L (vset T (depth_for len) (unat i) v))"
  shows "\<exists>T' S' t'. pv_set L et t (v_hash L T) len i v = rok (v_hash L T') t' \<and> vr_rep L et S' t' len (Some T')
     \<and> S \<subseteq> S' \<and> v_elems T' = (v_elems T)[unat i := v]"
  using pv_set_root [OF assms] by blast

theorem pv_set_correct_witness:
  "\<exists>T' S' t'. pv_set twos_lib TU64 demo_vec_tx 0x92b6f066306baccff0a6b562f0c32cdc 2 1 (VU64 8) = rok (v_hash twos_lib T') t'
     \<and> v_elems T' = [VU64 1, VU64 8]"
proof -
  have "no_collision pv_cell_key ({v_bytes twos_lib (demo_vec [1, 2])} \<union> v_cells twos_lib (vset (demo_vec [1, 2]) (depth_for 2) (unat (1 :: u64)) (VU64 8)))"
    using demo_vec_nc(2) by (simp add: demo_depth demo_vec_ops demo_vec_cells insert_commute)
  from pv_set_correct [OF demo_vec_rep _ demo_vec_shape(1) this] demo_vec_hash(1) show ?thesis by (auto simp: demo_vec_def)
qed

text \<open>C20 (refinement): \<^verbatim>\<open>pvec::push\<close> appends. For every length below \<^verbatim>\<open>u64::MAX\<close> it returns the length
  plus one and a root that stores the list with the value appended, in the shape the new length
  prescribes (the tree grows by one level exactly when it is full).\<close>

theorem pv_push_correct:
  assumes "vr_rep L et S t len r" and "len \<noteq> - 1" and "elem_ok L et v"
    and "no_collision pv_cell_key (S \<union> vo_cells L (vr_grow len r) \<union> v_cells L (vr_push len r v))"
  shows "\<exists>T' S' t'. pv_push L et t (vo_hash L r) len v = rok (v_hash L T', len + 1) t' \<and> vr_rep L et S' t' (len + 1) (Some T')
     \<and> S \<subseteq> S' \<and> v_elems T' = vo_elems r @ [v]"
  using pv_push_root [OF assms] by blast

theorem pv_push_correct_witness:
  "\<exists>T' S' t'. pv_push twos_lib TU64 demo_vec_tx 0x92b6f066306baccff0a6b562f0c32cdc 2 (VU64 3) = rok (v_hash twos_lib T', 3) t'
     \<and> v_elems T' = [VU64 1, VU64 2, VU64 3]"
proof -
  have "no_collision pv_cell_key ({v_bytes twos_lib (demo_vec [1, 2])} \<union> vo_cells twos_lib (vr_grow 2 (Some (demo_vec [1, 2])))
      \<union> v_cells twos_lib (vr_push 2 (Some (demo_vec [1, 2])) (VU64 3)))"
    using demo_vec_nc(3) by (simp add: demo_vec_ops demo_vec_cells)
  from pv_push_correct [OF demo_vec_rep _ demo_vec_shape(1) this] demo_vec_hash(1) show ?thesis by (auto simp: demo_vec_def)
qed

text \<open>\<^verbatim>\<open>pvec::to_vec\<close> returns all elements in index order.\<close>

theorem pv_to_vec_correct:
  assumes "vr_rep L et S t len r"
  shows "\<exists>t'. pv_to_vec L et t (vo_hash L r) len = rok (vo_elems r) t'"
proof (cases r)
  case None
  then have "len = 0" using assms by (simp add: vr_rep_def unat_eq_zero)
  then show ?thesis using None by (auto simp: pv_to_vec_def)
next
  case (Some T)
  then have R: "pv_holds L S t" "no_collision pv_cell_key S" "v_shape L et (depth_for len) T" "v_cells L T \<subseteq> S" "length (v_elems T) = unat len"
    using assms by (auto simp: vr_rep_def)
  then have "len \<noteq> 0" using v_size [OF R(3)] by auto
  then show ?thesis using pv_collect_refines [OF R(1-4) depth_bounds(3)] R(5) Some by (auto simp: pv_to_vec_def)
qed

theorem pv_to_vec_correct_witness:
  "\<exists>t'. pv_to_vec twos_lib TU64 demo_vec_tx 0x92b6f066306baccff0a6b562f0c32cdc 2 = rok [VU64 1, VU64 2] t'"
  using pv_to_vec_correct [OF demo_vec_rep, unfolded demo_vec_root] by (simp add: demo_vec_def)

text \<open>The depth of a vector is the least one whose capacity holds the length, for every
  64-bit length; it is at most 12, so the shift amounts of \<^verbatim>\<open>slot_at\<close> and of the subtree capacity
  stay below 64.\<close>

theorem depth_for_correct:
  "unat len \<le> 32 ^ (depth_for len + 1) \<and> (depth_for len = 0 \<or> 32 ^ depth_for len < unat len) \<and> depth_for len \<le> 12"
  using depth_bounds [of len] by auto

text \<open>C21 (refinement): \<^verbatim>\<open>pvec::merge_three_way\<close> on three stored versions of one length is the
  element-wise three-way merge: it reports a conflict exactly when some index was changed on both
  sides to different values; otherwise it returns the root of a well-formed vector of that length
  whose elements are the merged ones (up to the equality of values), and every node of it is an old
  node or one of the returned new cells, which carry their own content key.\<close>

theorem pv_merge_correct:
  assumes "bigint_ok L" and "kv_stores pv_cell_key s S" and "no_collision pv_cell_key S"
    and "\<forall>T\<in>{A, B, C}. v_shape L et (depth_for len) T \<and> v_cells L T \<subseteq> S \<and> length (v_elems T) = unat len"
  shows "case merge_elems (v_elems A) (v_elems B) (v_elems C) of
       None \<Rightarrow> pv_merge_three_way L s et (v_hash L A) len (v_hash L B) len (v_hash L C) len = Some None
     | Some rs \<Rightarrow> \<exists>T new. pv_merge_three_way L s et (v_hash L A) len (v_hash L B) len (v_hash L C) len = Some (Some (v_hash L T, new))
         \<and> v_shape L et (depth_for len) T \<and> v_cells L T \<subseteq> S \<union> snd ` set new
         \<and> (\<forall>c\<in>set new. fst c = pv_cell_key (snd c)) \<and> list_all2 value_eq (v_elems T) rs"
proof -
  have "v_merged L et (depth_for len) S (merge_elems (v_elems A) (v_elems B) (v_elems C)) []
     (pv_merge_at (depth_for len) L s et (v_hash L A) (v_hash L B) (v_hash L C) [])"
    by (rule pv_merge_at_refines [OF assms(1-3)]) (use assms(4) in auto)
  then show ?thesis unfolding v_merged_def pv_merge_three_way_def by (simp only: append_Nil) (simp split: option.split)
qed

definition demo_vec_kv :: fkv where
  "demo_vec_kv h = Some (map_option (\<lambda>b. the (serialize twos_lib (VBytes b))) (map_of
     (map (\<lambda>ns. (v_hash twos_lib (demo_vec ns), v_bytes twos_lib (demo_vec ns))) [[1, 2], [9, 2], [1, 8]]) h))"

theorem pv_merge_correct_witness:
  "\<exists>T new. pv_merge_three_way twos_lib demo_vec_kv TU64 0x5d10a667767af68f97e3176214baf894 2 0x92b6f0663a6baccff0a6b562f0c3392a 2
      0x92b6f066306baccff0a6b562f0c32cdc 2 = Some (Some (v_hash twos_lib T, new)) \<and> list_all2 value_eq (v_elems T) [VU64 9, VU64 8]"
proof -
  let ?S = "{v_bytes twos_lib (demo_vec [1, 2]), v_bytes twos_lib (demo_vec [9, 2]), v_bytes twos_lib (demo_vec [1, 8])}"
  note cell = bytes_cell_serialize [OF bigint_ok_twos_lib]
  have st: "kv_stores pv_cell_key demo_vec_kv ?S"
    using demo_vec_hash cell unfolding kv_stores_def demo_vec_kv_def v_hash_def by (auto simp: demo_vec_bytes)
  have sh: "\<forall>T\<in>{demo_vec [9, 2], demo_vec [1, 8], demo_vec [1, 2]}. v_shape twos_lib TU64 (depth_for 2) T \<and> v_cells twos_lib T \<subseteq> ?S
      \<and> length (v_elems T) = unat (2 :: u64)"
    using demo_vec_shape(2) by (simp add: demo_depth demo_vec_cells) (simp add: demo_vec_def)
  have "merge_elems (v_elems (demo_vec [9, 2])) (v_elems (demo_vec [1, 8])) (v_elems (demo_vec [1, 2])) = Some [VU64 9, VU64 8]"
    by (simp add: demo_vec_def merge_elem_def value_eq_def opt_eq_def)
  then show ?thesis using pv_merge_correct [OF bigint_ok_twos_lib st demo_vec_nc(4) sh] demo_vec_hash by auto
qed

end
