(* ===== verification/Gc.thy ===== *)
theory Gc
  imports PBTreeMap PMapProps PVecProps
begin

section \<open>Garbage collection\<close>

text \<open>
  \<^verbatim>\<open>crates/rend/src/gc.rs\<close>: \<^verbatim>\<open>sweep\<close> marks what is reachable from the live states and removes the
  other candidates from the in-memory store. The candidate set is given as the list of its elements
  in iteration order; the outer \<open>None\<close> is a panic of the decoder during the walk.

  The theorems: a sweep removes exactly the candidates that are not live; a map or vector state that
  is listed as live denotes the same version afterwards; B+-tree states are not walked, so their
  nodes are removed although the state is live.
\<close>

record gc_report =
  kept :: nat
  swept :: nat

definition gc_live :: "bigint_lib \<Rightarrow> kv \<Rightarrow> u128 \<times> ty \<Rightarrow> u128 set option" where
  "gc_live L s st = (case st of (cell, t) \<Rightarrow>
     (case t of
        TPMap k v \<Rightarrow>
          (case s cell of
             None \<Rightarrow> Some {cell}
           | Some bytes \<Rightarrow>
               (case deserialize L bytes t of
                  Got (VPMap root) \<Rightarrow> map_option (insert cell) (pm_reachable_cells L s k v root)
                | Panic \<Rightarrow> None
                | _ \<Rightarrow> Some {cell}))
      | TPVec e \<Rightarrow>
          (case s cell of
             None \<Rightarrow> Some {cell}
           | Some bytes \<Rightarrow>
               (case deserialize L bytes t of
                  Got (VPVec _ root) \<Rightarrow> map_option (insert cell) (pv_reachable_cells L s e root)
                | Panic \<Rightarrow> None
                | _ \<Rightarrow> Some {cell}))
      | _ \<Rightarrow> Some {cell}))"

definition kv_remove :: "in_memory_kv \<Rightarrow> u128 \<Rightarrow> in_memory_kv" where
  "kv_remove s k = s\<lparr>kv_data := hm_remove k (kv_data s)\<rparr>"

fun gc_sweep_loop :: "u128 set \<Rightarrow> u128 list \<Rightarrow> in_memory_kv \<Rightarrow> nat \<Rightarrow> nat \<times> in_memory_kv" where
  "gc_sweep_loop live [] s n = (n, s)"
| "gc_sweep_loop live (c # cs) s n =
     (if c \<notin> live \<and> kv_get s c \<noteq> None then gc_sweep_loop live cs (kv_remove s c) (n + 1)
      else gc_sweep_loop live cs s n)"

definition gc_sweep :: "bigint_lib \<Rightarrow> (u128 \<times> ty) list \<Rightarrow> u128 list \<Rightarrow> in_memory_kv \<Rightarrow> (gc_report \<times> in_memory_kv) option" where
  "gc_sweep L live_states candidates s = do {
     lives \<leftarrow> mapM (gc_live L (kv_get s)) live_states;
     let live = \<Union> (set lives);
     let (n, s') = gc_sweep_loop live candidates s 0;
     Some (\<lparr>kept = card live, swept = n\<rparr>, s') }"

subsection \<open>What a sweep removes\<close>

lemma kv_get_remove [simp]: "kv_get (kv_remove s k) k' = (if k' = k then None else kv_get s k')"
  by (simp add: kv_get_def kv_remove_def hm_get_remove)

lemma gc_sweep_loop_get:
  "kv_get (snd (gc_sweep_loop live cs s n)) k = (if k \<in> set cs \<and> k \<notin> live then None else kv_get s k)"
  by (induction live cs s n rule: gc_sweep_loop.induct) auto

lemma gc_sweep_loop_count:
  "distinct cs \<Longrightarrow> fst (gc_sweep_loop live cs s n) = n + card {c \<in> set cs. c \<notin> live \<and> kv_get s c \<noteq> None}"
proof (induction live cs s n rule: gc_sweep_loop.induct)
  case (2 live c cs s n)
  let ?A = "\<lambda>s. {c' \<in> set cs. c' \<notin> live \<and> kv_get s c' \<noteq> None}"
  have "{c' \<in> set (c # cs). c' \<notin> live \<and> kv_get s c' \<noteq> None} = (if c \<notin> live \<and> kv_get s c \<noteq> None then insert c (?A s) else ?A s)"
    by auto
  moreover have "?A (kv_remove s c) = ?A s" using "2.prems" by auto
  ultimately show ?case using 2 by simp
qed simp

lemma mapM_in: "mapM f xs = Some ys \<Longrightarrow> x \<in> set xs \<Longrightarrow> \<exists>y\<in>set ys. f x = Some y"
  by (induction xs arbitrary: ys) (auto split: bind_splits)

lemma gc_sweep_keeps:
  assumes "gc_sweep L live_states cands s = Some (r, s')" "st \<in> set live_states" "gc_live L (kv_get s) st = Some A" "k \<in> A"
  shows "kv_get s' k = kv_get s k"
proof -
  obtain lives where m: "mapM (gc_live L (kv_get s)) live_states = Some lives"
    and s': "s' = snd (gc_sweep_loop (\<Union> (set lives)) cands s 0)"
    using assms(1) by (auto simp: gc_sweep_def Let_def split: bind_splits prod.splits)
  have "A \<in> set lives" using mapM_in [OF m assms(2)] assms(3) by auto
  then show ?thesis using assms(4) unfolding s' gc_sweep_loop_get by auto
qed

subsection \<open>Live versions survive\<close>

text \<open>The nodes of a stored trie are reachable from its root.\<close>

lemma reachable_trans: "reachable kids r h \<Longrightarrow> reachable kids h g \<Longrightarrow> reachable kids r g"
  by (rotate_tac 1, induction rule: reachable.induct) (auto intro: reachable.intros)

lemma node_view_new: "node_view (tx_new s) h = as_node_bytes (stored_bytes (s h))"
  by (simp add: node_view_def cell_value_def backing_def tx_new_def tx_new_with_context_def parent_lookup_def hm_get_def)

lemma stored_bytes_Bytes: "as_node_bytes (stored_bytes bz) = Some b \<Longrightarrow> b \<noteq> [] \<Longrightarrow> \<exists>w. bz = Some w \<and> bytes_cell w = Got (VBytes b)"
  using bytes_cell_cases [of "the bz"] by (auto simp: stored_bytes_def as_node_bytes_def split: option.splits)

lemma kv_stores_new:
  assumes "stored_in key (node_view (tx_new s)) S" "[] \<notin> S"
  shows "kv_stores key (\<lambda>k. Some (s k)) S"
  using assms stored_bytes_Bytes by (fastforce simp: kv_stores_def stored_in_def node_view_new)

lemma holds_new_cong:
  assumes "holds key L S (tx_new s)" "\<And>b. b \<in> S \<Longrightarrow> s' (key b) = s (key b)"
  shows "holds key L S (tx_new s')"
  using assms by (simp add: holds_def settled_new stored_in_def node_view_new)

lemma h_bytes_not_Nil: "bigint_ok L \<Longrightarrow> h_wf L kt vt T \<Longrightarrow> h_bytes L T \<noteq> []"
  using h_decode [of L kt vt T] by (auto simp: deserialize_node_def)

lemma h_cells_not_Nil: "bigint_ok L \<Longrightarrow> h_wf L kt vt T \<Longrightarrow> [] \<notin> h_cells L T"
proof (induction T)
  case (HLeaf es)
  then show ?case using h_bytes_not_Nil [OF HLeaf] by auto
next
  case (HNode kids)
  have "[] \<notin> h_cells L (snd p)" if "p \<in> set kids" for p
    using that HNode.prems by (intro HNode.IH [of p "snd p"]) (auto simp: list_all_iff snds.simps)
  then show ?case using h_bytes_not_Nil [OF HNode.prems] by auto
qed

lemma pm_kids_stored:
  assumes "bigint_ok L" "kv_stores pmap_cell_key (\<lambda>k. Some (s k)) S" "no_collision pmap_cell_key S" "h_wf L kt vt T" "h_cells L T \<subseteq> S"
  shows "pm_kids L s kt vt (h_hash L T) = Some (case T of HLeaf es \<Rightarrow> [] | HNode kids \<Rightarrow> map (\<lambda>p. h_hash L (snd p)) kids)"
proof -
  have "pm_read_node_kv L (\<lambda>k. Some (s k)) kt vt (h_hash L T) = Some (Some (h_top L T))"
    unfolding pm_read_node_kv_def h_hash_def
    by (rule kv_read_stored [where dec = "\<lambda>b. deserialize_node L b kt vt", OF assms(2,3)])
       (use assms(1,4,5) h_bytes_in_cells h_decode in blast)+
  then show ?thesis by (cases T) (auto simp: pm_kids_def)
qed

lemma h_cells_reachable:
  assumes "bigint_ok L" "kv_stores pmap_cell_key (\<lambda>k. Some (s k)) S" "no_collision pmap_cell_key S"
  shows "h_wf L kt vt T \<Longrightarrow> h_cells L T \<subseteq> S \<Longrightarrow> b \<in> h_cells L T \<Longrightarrow> reachable (pm_kids L s kt vt) (h_hash L T) (pmap_cell_key b)"
proof (induction T)
  case (HLeaf es)
  then show ?case using h_hash_nonempty [OF assms(3) HLeaf.prems(2)] by (auto simp: h_hash_def intro: reach_root)
next
  case (HNode kids)
  let ?T = "HNode kids"
  have root: "reachable (pm_kids L s kt vt) (h_hash L ?T) (h_hash L ?T)"
    using h_hash_nonempty [OF assms(3) HNode.prems(2)] by (rule reach_root)
  show ?case
  proof (cases "b = h_bytes L ?T")
    case True
    then show ?thesis using root by (simp add: h_hash_def)
  next
    case False
    then obtain p where p: "p \<in> set kids" "b \<in> h_cells L (snd p)" using HNode.prems(3) by auto
    have pw: "h_wf L kt vt (snd p)" "h_cells L (snd p) \<subseteq> S" using HNode.prems p(1) by (auto simp: list_all_iff)
    have "reachable (pm_kids L s kt vt) (h_hash L ?T) (h_hash L (snd p))"
      using pm_kids_stored [OF assms HNode.prems(1,2)] p(1) h_hash_nonempty [OF assms(3) pw(2)] by (intro reach_kid [OF root]) auto
    moreover have "reachable (pm_kids L s kt vt) (h_hash L (snd p)) (pmap_cell_key b)"
      using p(1) by (intro HNode.IH [OF _ _ pw p(2)]) (auto simp: snds.simps)
    ultimately show ?thesis by (rule reachable_trans)
  qed
qed

lemma v_bytes_not_Nil: "bigint_ok L \<Longrightarrow> v_shape L et level T \<Longrightarrow> v_bytes L T \<noteq> []"
  using v_decode [of L et level T] by (auto simp: pv_deserialize_node_def)

lemma v_cells_not_Nil: "bigint_ok L \<Longrightarrow> v_shape L et level T \<Longrightarrow> [] \<notin> v_cells L T"
proof (induction T arbitrary: level)
  case (VTLeaf es)
  then show ?case using v_bytes_not_Nil [OF VTLeaf] by auto
next
  case (VTNode ts)
  have "[] \<notin> v_cells L t" if "t \<in> set ts" for t
    using that VTNode.prems by (intro VTNode.IH [of t "level - 1"]) (auto simp: list_all_iff)
  then show ?case using v_bytes_not_Nil [OF VTNode.prems] by auto
qed

lemma pv_kids_stored:
  assumes "bigint_ok L" "kv_stores pv_cell_key (\<lambda>k. Some (s k)) S" "no_collision pv_cell_key S" "v_shape L et level T" "v_cells L T \<subseteq> S"
  shows "pv_kids L s et (v_hash L T) = Some (case T of VTLeaf es \<Rightarrow> [] | VTNode ts \<Rightarrow> map (v_hash L) ts)"
  using pv_read_kv_stored [OF assms] by (cases T) (auto simp: pv_kids_def)

lemma v_cells_reachable:
  assumes "bigint_ok L" "kv_stores pv_cell_key (\<lambda>k. Some (s k)) S" "no_collision pv_cell_key S"
  shows "v_shape L et level T \<Longrightarrow> v_cells L T \<subseteq> S \<Longrightarrow> b \<in> v_cells L T \<Longrightarrow> reachable (pv_kids L s et) (v_hash L T) (pv_cell_key b)"
proof (induction T arbitrary: level)
  case (VTLeaf es)
  then show ?case using v_hash_nonempty [OF assms(3) VTLeaf.prems(2)] by (auto simp: v_hash_def intro: reach_root)
next
  case (VTNode ts)
  let ?T = "VTNode ts"
  have root: "reachable (pv_kids L s et) (v_hash L ?T) (v_hash L ?T)"
    using v_hash_nonempty [OF assms(3) VTNode.prems(2)] by (rule reach_root)
  show ?case
  proof (cases "b = v_bytes L ?T")
    case True
    then show ?thesis using root by (simp add: v_hash_def)
  next
    case False
    then obtain c where c: "c \<in> set ts" "b \<in> v_cells L c" using VTNode.prems(3) by auto
    have cw: "v_shape L et (level - 1) c" "v_cells L c \<subseteq> S" using VTNode.prems c(1) by (auto simp: list_all_iff)
    have "reachable (pv_kids L s et) (v_hash L ?T) (v_hash L c)"
      using pv_kids_stored [OF assms VTNode.prems(1,2)] c(1) v_hash_nonempty [OF assms(3) cw(2)] by (intro reach_kid [OF root]) auto
    then show ?thesis using VTNode.IH [OF c(1) cw c(2)] by (rule reachable_trans)
  qed
qed

text \<open>Both collections through one interface: a version of which every node is reachable in the store
  it was read from stays readable when the reachable cells keep their bytes.\<close>

lemma gc_sweep_panic_free:
  assumes "gc_sweep L live_states cands s = Some (r, s')" "st \<in> set live_states"
  shows "\<exists>A. gc_live L (kv_get s) st = Some A"
  using assms mapM_in by (fastforce simp: gc_sweep_def split: bind_splits)

subsection \<open>A concrete store with a live map and a live vector\<close>

lemma node_view_cell:
  "bigint_ok L \<Longrightarrow> length b < 2 ^ 32 \<Longrightarrow> s h = Some (the (serialize L (VBytes b))) \<Longrightarrow> node_view (tx_new s) h = Some b"
  using bytes_cell_serialize [of L b] by (simp add: node_view_new stored_bytes_def as_node_bytes_def)

definition gc_demo_kv :: in_memory_kv where
  "gc_demo_kv = \<lparr>kv_data =
     [(1, the (serialize twos_lib (VPMap (h_hash twos_lib (demo_leaf 0 100))))),
      (2, the (serialize twos_lib (VPVec 2 (v_hash twos_lib (demo_vec [1, 2]))))),
      (h_hash twos_lib (demo_leaf 0 100), the (serialize twos_lib (VBytes (h_bytes twos_lib (demo_leaf 0 100))))),
      (v_hash twos_lib (demo_vec [1, 2]), the (serialize twos_lib (VBytes (v_bytes twos_lib (demo_vec [1, 2])))))]\<rparr>"

lemma gc_demo_get:
  "kv_get gc_demo_kv 1 = Some (the (serialize twos_lib (VPMap (h_hash twos_lib (demo_leaf 0 100)))))"
  "kv_get gc_demo_kv 2 = Some (the (serialize twos_lib (VPVec 2 (v_hash twos_lib (demo_vec [1, 2])))))"
  "kv_get gc_demo_kv (h_hash twos_lib (demo_leaf 0 100)) = Some (the (serialize twos_lib (VBytes (h_bytes twos_lib (demo_leaf 0 100)))))"
  "kv_get gc_demo_kv (v_hash twos_lib (demo_vec [1, 2])) = Some (the (serialize twos_lib (VBytes (v_bytes twos_lib (demo_vec [1, 2])))))"
  unfolding kv_get_def gc_demo_kv_def hm_get_def demo_leaf_hash demo_vec_hash by simp_all

lemma gc_demo_rep:
  "hr_rep twos_lib TU64 TU64 (h_stored twos_lib (Some (demo_leaf 0 100))) (tx_new (kv_get gc_demo_kv)) (Some (demo_leaf 0 100))"
  "vr_rep twos_lib TU64 (vo_cells twos_lib (Some (demo_vec [1, 2]))) (tx_new (kv_get gc_demo_kv)) 2 (Some (demo_vec [1, 2]))"
proof -
  have "node_view (tx_new (kv_get gc_demo_kv)) (h_hash twos_lib (demo_leaf 0 100)) = Some (h_bytes twos_lib (demo_leaf 0 100))"
    by (rule node_view_cell [where s = "kv_get gc_demo_kv", OF bigint_ok_twos_lib _ gc_demo_get(3)]) (simp add: demo_leaf_bytes)
  then show "hr_rep twos_lib TU64 TU64 (h_stored twos_lib (Some (demo_leaf 0 100))) (tx_new (kv_get gc_demo_kv)) (Some (demo_leaf 0 100))"
    using demo_nc(1) demo_wf by (simp add: hr_rep_def holds_def bigint_ok_twos_lib settled_new stored_in_def demo_cells h_hash_def)
  have "node_view (tx_new (kv_get gc_demo_kv)) (v_hash twos_lib (demo_vec [1, 2])) = Some (v_bytes twos_lib (demo_vec [1, 2]))"
    by (rule node_view_cell [where s = "kv_get gc_demo_kv", OF bigint_ok_twos_lib _ gc_demo_get(4)]) (simp add: demo_vec_bytes)
  then show "vr_rep twos_lib TU64 (vo_cells twos_lib (Some (demo_vec [1, 2]))) (tx_new (kv_get gc_demo_kv)) 2 (Some (demo_vec [1, 2]))"
    using demo_vec_rep by (simp add: vr_rep_def holds_def settled_new stored_in_def demo_vec_cells v_hash_def)
qed

lemma gc_demo_decode:
  "deserialize twos_lib (the (serialize twos_lib (VPMap (h_hash twos_lib (demo_leaf 0 100))))) (TPMap TU64 TU64) = Got (VPMap (h_root twos_lib (Some (demo_leaf 0 100))))"
  "deserialize twos_lib (the (serialize twos_lib (VPVec 2 (v_hash twos_lib (demo_vec [1, 2]))))) (TPVec TU64) = Got (VPVec 2 (vo_hash twos_lib (Some (demo_vec [1, 2]))))"
  using wt_vcodec [of twos_lib "TPMap TU64 TU64" "VPMap (h_hash twos_lib (demo_leaf 0 100))"]
    wt_vcodec [of twos_lib "TPVec TU64" "VPVec 2 (v_hash twos_lib (demo_vec [1, 2]))"] bigint_ok_twos_lib
  by (auto simp: vcodec_def codec_def vc_def simp del: deserialize.simps serialize.simps)

lemma gc_demo_sweep: "\<exists>r s'. gc_sweep twos_lib [(1, TPMap TU64 TU64), (2, TPVec TU64)] [h_hash twos_lib (demo_leaf 0 100), 9] gc_demo_kv = Some (r, s')"
proof -
  let ?s = "kv_get gc_demo_kv"
  have st: "kv_stores pmap_cell_key (\<lambda>k. Some (?s k)) (h_cells twos_lib (demo_leaf 0 100))"
    "kv_stores pv_cell_key (\<lambda>k. Some (?s k)) (v_cells twos_lib (demo_vec [1, 2]))"
    using gc_demo_get(3,4) bytes_cell_serialize [OF bigint_ok_twos_lib]
    by (simp_all add: kv_stores_def demo_cells demo_vec_cells h_hash_def v_hash_def demo_leaf_bytes demo_vec_bytes del: serialize.simps)
  have k: "pm_kids twos_lib ?s TU64 TU64 (h_hash twos_lib (demo_leaf 0 100)) = Some []"
    using pm_kids_stored [OF bigint_ok_twos_lib st(1) demo_nc(1) demo_wf(1) order_refl] by (simp add: demo_leaf_def)
  have v: "pv_kids twos_lib ?s TU64 (v_hash twos_lib (demo_vec [1, 2])) = Some []"
    using pv_kids_stored [OF bigint_ok_twos_lib st(2) _ demo_vec_shape(2) [of "[1, 2]"] order_refl] demo_vec_nc(1)
    by (simp add: demo_vec_cells) (simp add: demo_vec_def)
  have "\<exists>A. gc_live twos_lib ?s (1, TPMap TU64 TU64) = Some A" "\<exists>A. gc_live twos_lib ?s (2, TPVec TU64) = Some A"
    using gc_demo_get(1,2) gc_demo_decode k v
    by (simp_all add: gc_live_def pm_reachable_cells_def pv_reachable_cells_def del: deserialize.simps serialize.simps split: if_splits)
  then show ?thesis by (auto simp: gc_sweep_def Let_def split: prod.split)
qed

subsection \<open>Properties\<close>

text \<open>C22 (functional): a sweep removes exactly the candidates outside the live set and counts them.
  With the live set computed from the states, every other cell keeps its bytes, the report counts
  the removed cells that were present and the size of the live set.\<close>

theorem gc_sweep_exact:
  assumes "mapM (gc_live L (kv_get s)) live_states = Some lives" and "distinct cands"
  shows "\<exists>s'. gc_sweep L live_states cands s
       = Some (\<lparr>kept = card (\<Union> (set lives)), swept = card {c \<in> set cands. c \<notin> \<Union> (set lives) \<and> kv_get s c \<noteq> None}\<rparr>, s')
     \<and> (\<forall>k. kv_get s' k = (if k \<in> set cands \<and> k \<notin> \<Union> (set lives) then None else kv_get s k))"
  using gc_sweep_loop_get [of "\<Union> (set lives)" cands s 0] gc_sweep_loop_count [OF assms(2), of "\<Union> (set lives)" s 0] assms(1)
  by (auto simp: gc_sweep_def Let_def split: prod.split)

theorem gc_sweep_exact_witness:
  "\<exists>s'. gc_sweep twos_lib [(1, TU64)] [1, 2] \<lparr>kv_data = [(1, [0]), (2, [0])]\<rparr> = Some (\<lparr>kept = 1, swept = 1\<rparr>, s')
     \<and> kv_get s' 1 = Some [0] \<and> kv_get s' 2 = None"
proof -
  let ?s = "\<lparr>kv_data = [(1, [0]), (2, [0])]\<rparr> :: in_memory_kv"
  have "mapM (gc_live twos_lib (kv_get ?s)) [(1, TU64)] = Some [{1}]" by (simp add: gc_live_def)
  moreover have "distinct [1, 2 :: u128]" by simp
  moreover have "{c \<in> set [1, 2]. c \<notin> \<Union> (set [{1}]) \<and> kv_get ?s c \<noteq> None} = {2}" by (auto simp: kv_get_def hm_get_def)
  ultimately show ?thesis using gc_sweep_exact [of twos_lib ?s "[(1, TU64)]" "[{1}]" "[1, 2]"]
    by (auto simp: kv_get_def hm_get_def)
qed

text \<open>Garbage collection never loses a live map. If a state cell listed as live holds a
  map root, and the store holds the version \<open>r\<close> at that root, then after any sweep the store still
  holds the version, whatever the candidates.\<close>

theorem gc_preserves_pmap:
  assumes "gc_sweep L live_states cands s = Some (rep, s')" and "(cell, TPMap kt vt) \<in> set live_states"
    and "kv_get s cell = Some b" and "deserialize L b (TPMap kt vt) = Got (VPMap (h_root L r))"
    and "hr_rep L kt vt (h_stored L r) (tx_new (kv_get s)) r"
  shows "hr_rep L kt vt (h_stored L r) (tx_new (kv_get s')) r \<and> kv_get s' cell = Some b"
proof -
  obtain A where A: "gc_live L (kv_get s) (cell, TPMap kt vt) = Some A" using gc_sweep_panic_free [OF assms(1,2)] by blast
  with assms(3,4) obtain out where out: "pm_reachable_cells L (kv_get s) kt vt (h_root L r) = Some out" "A = insert cell out"
    by (auto simp: gc_live_def simp del: h_root_simps deserialize.simps)
  note keep = gc_sweep_keeps [OF assms(1,2) A]
  have hold: "pm_holds L (h_stored L r) (tx_new (kv_get s))" using assms(5) by (simp add: hr_rep_def)
  have "kv_get s' (pmap_cell_key c) = kv_get s (pmap_cell_key c)" if c: "c \<in> h_stored L r" for c
  proof -
    from c obtain T where T: "r = Some T" "c \<in> h_cells L T" by (cases r) auto
    have R: "bigint_ok L" "no_collision pmap_cell_key (h_cells L T)" "h_wf L kt vt T"
      using assms(5) T(1) hold by (auto simp: hr_rep_def holds_def)
    have "kv_stores pmap_cell_key (\<lambda>k. Some (kv_get s k)) (h_cells L T)"
      using hold T(1) h_cells_not_Nil [OF R(1,3)] by (intro kv_stores_new) (auto simp: holds_def)
    from h_cells_reachable [OF R(1) this R(2,3) order_refl T(2)] have "pmap_cell_key c \<in> out"
      using walk_reachable_complete out(1) T(1) by (auto simp: pm_reachable_cells_def)
    then show ?thesis using keep out(2) by blast
  qed
  then have "pm_holds L (h_stored L r) (tx_new (kv_get s'))" using holds_new_cong [OF hold] by blast
  then show ?thesis using assms(3,5) keep [of cell] out(2) by (auto simp: hr_rep_def)
qed

theorem gc_preserves_pmap_witness:
  "\<exists>r s'. gc_sweep twos_lib [(1, TPMap TU64 TU64), (2, TPVec TU64)] [h_hash twos_lib (demo_leaf 0 100), 9] gc_demo_kv = Some (r, s')
     \<and> hr_rep twos_lib TU64 TU64 (h_stored twos_lib (Some (demo_leaf 0 100))) (tx_new (kv_get s')) (Some (demo_leaf 0 100))"
  using gc_demo_sweep gc_preserves_pmap [OF _ _ gc_demo_get(1) gc_demo_decode(1) gc_demo_rep(1)] by fastforce

text \<open>Garbage collection never loses a live vector.\<close>

theorem gc_preserves_pvec:
  assumes "gc_sweep L live_states cands s = Some (rep, s')" and "(cell, TPVec et) \<in> set live_states"
    and "kv_get s cell = Some b" and "deserialize L b (TPVec et) = Got (VPVec len (vo_hash L r))"
    and "vr_rep L et (vo_cells L r) (tx_new (kv_get s)) len r"
  shows "vr_rep L et (vo_cells L r) (tx_new (kv_get s')) len r \<and> kv_get s' cell = Some b"
proof -
  obtain A where A: "gc_live L (kv_get s) (cell, TPVec et) = Some A" using gc_sweep_panic_free [OF assms(1,2)] by blast
  with assms(3,4) obtain out where out: "pv_reachable_cells L (kv_get s) et (vo_hash L r) = Some out" "A = insert cell out"
    by (auto simp: gc_live_def simp del: vo_store deserialize.simps)
  note keep = gc_sweep_keeps [OF assms(1,2) A]
  have hold: "pv_holds L (vo_cells L r) (tx_new (kv_get s))" using assms(5) by (simp add: vr_rep_def)
  have "kv_get s' (pv_cell_key c) = kv_get s (pv_cell_key c)" if c: "c \<in> vo_cells L r" for c
  proof -
    from c obtain T where T: "r = Some T" "c \<in> v_cells L T" by (cases r) auto
    have R: "bigint_ok L" "no_collision pv_cell_key (v_cells L T)" "v_shape L et (depth_for len) T"
      using assms(5) T(1) hold by (auto simp: vr_rep_def holds_def)
    have "kv_stores pv_cell_key (\<lambda>k. Some (kv_get s k)) (v_cells L T)"
      using hold T(1) v_cells_not_Nil [OF R(1,3)] by (intro kv_stores_new) (auto simp: holds_def)
    from v_cells_reachable [OF R(1) this R(2,3) order_refl T(2)] have "pv_cell_key c \<in> out"
      using walk_reachable_complete out(1) T(1) by (auto simp: pv_reachable_cells_def)
    then show ?thesis using keep out(2) by blast
  qed
  then have "pv_holds L (vo_cells L r) (tx_new (kv_get s'))" using holds_new_cong [OF hold] by blast
  then show ?thesis using assms(3,5) keep [of cell] out(2) by (auto simp: vr_rep_def)
qed

theorem gc_preserves_pvec_witness:
  "\<exists>r s'. gc_sweep twos_lib [(1, TPMap TU64 TU64), (2, TPVec TU64)] [h_hash twos_lib (demo_leaf 0 100), 9] gc_demo_kv = Some (r, s')
     \<and> vr_rep twos_lib TU64 (vo_cells twos_lib (Some (demo_vec [1, 2]))) (tx_new (kv_get s')) 2 (Some (demo_vec [1, 2]))"
  using gc_demo_sweep gc_preserves_pvec [OF _ _ gc_demo_get(2) gc_demo_decode(2) gc_demo_rep(2)] by fastforce

text \<open>A B+-tree state listed as live does not protect its nodes. Whatever is stored, a
  sweep whose only live state is a B+-tree cell removes every other candidate, the nodes of the live
  tree included (and \<^verbatim>\<open>pbtree::write_node\<close> records every node it writes as a candidate).\<close>

theorem gc_sweeps_live_pbtree:
  assumes "h \<in> set cands" and "h \<noteq> cell"
  shows "\<exists>r s'. gc_sweep L [(cell, TPBTree kt vt)] cands s = Some (r, s') \<and> kv_get s' h = None"
  using gc_sweep_loop_get [of "{cell}" cands s 0 h] assms by (auto simp: gc_sweep_def gc_live_def Let_def split: prod.split)

theorem gc_sweeps_live_pbtree_witness:
  "\<exists>r s'. gc_sweep twos_lib [(1, TPBTree TU64 TU64)] [2] \<lparr>kv_data = [(1, [0]), (2, [0])]\<rparr> = Some (r, s') \<and> kv_get s' 2 = None"
  by (rule gc_sweeps_live_pbtree) simp_all

text \<open>\<^verbatim>\<open>pbtree::reachable_cells\<close> stops at the root. The walk decodes the bytes of a cell
  as they are stored, without unwrapping the \<^verbatim>\<open>Value::Bytes\<close> encoding the commit writes, so on a
  committed tree it never finds a child: only the root is reported.\<close>

theorem bt_reachable_only_root:
  assumes "root \<noteq> EMPTY" and "s root = Some w" and "serialize L (VBytes node) = Some w"
  shows "bt_reachable_cells L s kt vt root = Some {root}"
  using assms by (auto simp: bt_reachable_cells_def bt_kids_def bt_deserialize_node_def tagged_str_def)

theorem bt_reachable_only_root_witness:
  "bt_reachable_cells twos_lib [7 \<mapsto> the (serialize twos_lib (VBytes demo_bytes))] TU64 TU64 7 = Some {7}"
  by (rule bt_reachable_only_root) (simp_all add: tagged_str_def)

end
