(* ===== verification/PMapMerge.thy ===== *)
theory PMapMerge
  imports PMapProps
begin

section \<open>Merging maps: two counterexamples\<close>

text \<open>
  \<^verbatim>\<open>pmap::merge_three_way\<close> is documented as byte-identical to running the two transactions serially.
  Both deviations below are computed on concrete stored tries: two first inserts merge into a leaf
  that no sequence of \<^verbatim>\<open>set\<close>s builds, and a deletion is undone when the ancestor is a leaf and both
  sides have grown to inner nodes.
\<close>

definition trie_store :: "htree list \<Rightarrow> fkv" where
  "trie_store Ts h = Some (map_option (\<lambda>b. the (serialize twos_lib (VBytes b)))
     (map_of (map (\<lambda>T. (h_hash twos_lib T, h_bytes twos_lib T)) Ts) h))"

lemma trie_store_read:
  assumes "map_of (map (\<lambda>T. (h_hash twos_lib T, h_bytes twos_lib T)) Ts) (h_hash twos_lib T) = Some (h_bytes twos_lib T)"
    and "h_wf twos_lib kt vt T" "length (h_bytes twos_lib T) < 2 ^ 32" "h_hash twos_lib T \<noteq> EMPTY"
  shows "pm_read_node_kv twos_lib (trie_store Ts) kt vt (h_hash twos_lib T) = Some (Some (h_top twos_lib T))"
  using assms h_decode [OF bigint_ok_twos_lib assms(2)] bytes_cell_serialize [OF bigint_ok_twos_lib assms(3)]
  by (simp add: pm_read_node_kv_def read_node_kv_with_def trie_store_def parsed_def del: serialize.simps)

subsection \<open>The concrete tries\<close>

definition demo_other :: htree where
  "demo_other = HNode [(15, demo_leaf 2 300), (20, demo_leaf 3 400)]"

lemma demo_other_bytes:
  "h_bytes twos_lib demo_other = [1, 0, 16, 128, 0, 2, 165, 112, 37, 21, 185, 190, 176, 178, 200, 89, 73, 163, 235, 161, 44, 211,
     108, 154, 210, 97, 172, 253, 124, 135, 18, 34, 173, 180, 37, 77, 1, 98]"
  and demo_leaf_hash2:
  "h_hash twos_lib (demo_leaf 2 300) = 0xa5702515b9beb0b2c85949a3eba12cd3"
  "h_hash twos_lib (demo_leaf 3 400) = 0x6c9ad261acfd7c871222adb4254d0162"
proof -
  show h: "h_hash twos_lib (demo_leaf 2 300) = 0xa5702515b9beb0b2c85949a3eba12cd3"
    "h_hash twos_lib (demo_leaf 3 400) = 0x6c9ad261acfd7c871222adb4254d0162"
    unfolding h_hash_def demo_leaf_bytes pmap_cell_key_eval by (simp_all add: eval_simps) code_simp+
  have b: "be_bytes 4 (unat (bitmap_of [15, 20])) = [0, 16, 128, 0]"
    by (simp add: bitmap_of_def slot_bit_def push_bit_eq_mult eval_simps)
  have hb: "be_bytes 16 0xa5702515b9beb0b2c85949a3eba12cd3 = [165, 112, 37, 21, 185, 190, 176, 178, 200, 89, 73, 163, 235, 161, 44, 211]"
    "be_bytes 16 0x6c9ad261acfd7c871222adb4254d0162 = [108, 154, 210, 97, 172, 253, 124, 135, 18, 34, 173, 180, 37, 77, 1, 98]"
    by (simp_all add: eval_simps)
  show "h_bytes twos_lib demo_other = [1, 0, 16, 128, 0, 2, 165, 112, 37, 21, 185, 190, 176, 178, 200, 89, 73, 163, 235, 161, 44, 211,
     108, 154, 210, 97, 172, 253, 124, 135, 18, 34, 173, 180, 37, 77, 1, 98]"
    unfolding demo_other_def h_bytes_node serialize_inner_def by (simp add: h hb b)
qed

lemma demo_other_hash: "h_hash twos_lib demo_other = 0x756d01c11a56330ca0540518dc63dcdb"
  unfolding h_hash_def demo_other_bytes pmap_cell_key_eval by code_simp

lemma demo_split_wf: "h_wf twos_lib TU64 TU64 demo_split" "h_wf twos_lib TU64 TU64 demo_other"
  using demo_entry by (auto simp: demo_split_def demo_other_def demo_leaf_def)

lemma demo_leaf_length: "length (h_bytes twos_lib (demo_leaf k v)) < 2 ^ 32"
  by (simp add: demo_leaf_bytes)

subsection \<open>Two first inserts\<close>

definition demo_pair :: htree where
  "demo_pair = HLeaf [(VU64 0, VU64 100), (VU64 1, VU64 200)]"

lemma demo_pair_bytes: "serialize_leaf twos_lib [(VU64 0, VU64 100), (VU64 1, VU64 200)]
   = Some [2, 0, 0, 0, 2, 0, 0, 0, 9, 18, 0, 0, 0, 0, 0, 0, 0, 0, 0, 0, 0, 9, 18, 0, 0, 0, 0, 0, 0, 0, 100, 0, 0, 0, 9, 18, 0, 0, 0, 0, 0, 0, 0, 1,
     0, 0, 0, 9, 18, 0, 0, 0, 0, 0, 0, 0, 200]"
  by (simp add: serialize_leaf_def sort_entries_def entry_to_bytes_def eval_simps)

lemma demo_pair_hash: "h_hash twos_lib demo_pair = 0x75367f7f3efd91fa7e51dabb56584086"
  unfolding h_hash_def demo_pair_def h_bytes.simps demo_pair_bytes option.sel pmap_cell_key_eval by code_simp

lemma demo_merge_leaves:
  "pm_merge_leaves twos_lib [(VU64 1, VU64 200)] [(VU64 0, VU64 100)] [] []
      = Some (Some (h_hash twos_lib demo_pair, [(h_hash twos_lib demo_pair, h_bytes twos_lib demo_pair)]))"
  by (simp add: pm_merge_leaves_def to_map_def hm_insert_def hm_get_def merge_value_def opt_eq_def value_eq_def sort_entries_def
        serialize_leaf_def [of twos_lib "[(VU64 0, VU64 100), (VU64 1, VU64 200)]", symmetric] demo_pair_bytes
        h_hash_def demo_pair_def h_bytes.simps eval_simps)

text \<open>Merging is not byte-identical to serial execution. One transaction sets key 0,
  the other key 1, both on the empty map. Setting both serially gives an inner node with two leaves
  (\<open>demo_split\<close>); the merge returns the root of a single leaf with both entries, whose hash differs,
  so equal maps no longer have equal roots.\<close>

theorem merge_not_serial_bytes:
  "(\<exists>cells. pm_merge_three_way 11 twos_lib (trie_store [demo_leaf 0 100, demo_leaf 1 200]) TU64 TU64
       (h_hash twos_lib (demo_leaf 1 200)) (h_hash twos_lib (demo_leaf 0 100)) EMPTY = Some (Some (h_hash twos_lib demo_pair, cells)))
   \<and> h_hash twos_lib (hset twos_lib (demo_leaf 0 100) (VU64 1) (VU64 200) 0) \<noteq> h_hash twos_lib demo_pair"
proof -
  let ?s = "trie_store [demo_leaf 0 100, demo_leaf 1 200]"
  have rd: "pm_read_node_kv twos_lib ?s TU64 TU64 (h_hash twos_lib (demo_leaf 0 100)) = Some (Some (PLeaf [(VU64 0, VU64 100)]))"
    "pm_read_node_kv twos_lib ?s TU64 TU64 (h_hash twos_lib (demo_leaf 1 200)) = Some (Some (PLeaf [(VU64 1, VU64 200)]))"
    using trie_store_read [of "[demo_leaf 0 100, demo_leaf 1 200]" "demo_leaf 0 100", OF _ demo_wf(1) demo_leaf_length]
      trie_store_read [of "[demo_leaf 0 100, demo_leaf 1 200]" "demo_leaf 1 200", OF _ demo_wf(1) demo_leaf_length] demo_leaf_hash
    by (simp_all add: demo_leaf_def)
  note ml = demo_merge_leaves
  have "pm_read_node_kv twos_lib ?s TU64 TU64 EMPTY = Some None" by (simp add: pm_read_node_kv_def read_node_kv_with_def)
  then have "pm_merge_at (Suc n) twos_lib ?s TU64 TU64 (h_hash twos_lib (demo_leaf 1 200)) (h_hash twos_lib (demo_leaf 0 100)) EMPTY []
      = pm_merge_leaves twos_lib [(VU64 1, VU64 200)] [(VU64 0, VU64 100)] [] []" for n
    using rd demo_leaf_hash by simp
  from this [of 10] show ?thesis using ml demo_builds(1) demo_inner_hash(1) demo_pair_hash by (simp add: pm_merge_three_way_def)
qed

subsection \<open>A deletion undone\<close>

definition demo_resurrected :: htree where
  "demo_resurrected = HNode [(5, demo_leaf 0 100), (10, demo_leaf 1 200), (15, demo_leaf 2 300), (20, demo_leaf 3 400)]"

lemma slot_child_trie:
  assumes "h_wf L kt vt (HNode kids)" "s < 32"
  shows "slot_child (bitmap_of (map fst kids)) (map (\<lambda>p. h_hash L (snd p)) kids) s
     = Some (case map_of kids s of None \<Rightarrow> EMPTY | Some c \<Rightarrow> h_hash L c)"
proof (cases "s \<in> set (map fst kids)")
  case True
  then show ?thesis using h_wf_slots [OF assms] h_wf_kid [OF assms(1) True] kid_nth(2) [OF assms(1) True] by (simp add: slot_child_def)
next
  case False
  moreover have "map_of kids s = None" using False by (simp add: map_of_eq_None_iff)
  ultimately show ?thesis using h_wf_slots [OF assms] by (simp add: slot_child_def)
qed

lemma merge_disjoint_slots:
  \<comment> \<open>slots that only one side fills, with an empty ancestor: the children are taken as they are\<close>
  assumes "h_wf L kt vt (HNode as)" "h_wf L kt vt (HNode bs)" "set (map fst as) \<inter> set (map fst bs) = {}"
    and f: "\<And>x out. f x EMPTY EMPTY out = Some (Some (x, out))" "\<And>x out. f EMPTY x EMPTY out = Some (Some (x, out))"
    and ne: "\<forall>p\<in>set as \<union> set bs. h_hash L (snd p) \<noteq> EMPTY"
  shows "\<forall>s\<in>set ss. s < 32 \<Longrightarrow>
     pm_merge_slots f (bitmap_of (map fst as), map (\<lambda>p. h_hash L (snd p)) as) (bitmap_of (map fst bs), map (\<lambda>p. h_hash L (snd p)) bs) (0, []) ss out
     = Some (Some (map (\<lambda>s. (s, h_hash L (the (map_of (as @ bs) s)))) (filter (\<lambda>s. s \<in> set (map fst (as @ bs))) ss), out))"
proof (induction ss)
  case (Cons s ss)
  let ?a = "bitmap_of (map fst as)" and ?b = "bitmap_of (map fst bs)"
  have s: "s < 32" using Cons.prems by simp
  have r: "\<forall>x\<in>set (map fst as). x < 32" "\<forall>x\<in>set (map fst bs). x < 32" using assms(1,2) by auto
  have bits: "(?a OR ?b OR 0) AND slot_bit s = 0 \<longleftrightarrow> s \<notin> set (map fst (as @ bs))"
    using and_slot_bit [OF s, of "?a OR ?b"] by (auto simp: bit_simps bit_bitmap_of [OF r(1)] bit_bitmap_of [OF r(2)])
  note sc = slot_child_trie [OF assms(1) s] slot_child_trie [OF assms(2) s]
  have z: "slot_child 0 [] s = Some EMPTY" by (simp add: slot_child_def)
  show ?case
  proof (cases "s \<in> set (map fst (as @ bs))")
    case False
    then show ?thesis using bits Cons by simp
  next
    case True
    have no: "map_of as s = None \<longleftrightarrow> s \<notin> set (map fst as)" "map_of bs s = None \<longleftrightarrow> s \<notin> set (map fst bs)"
      by (simp_all add: map_of_eq_None_iff)
    have "s \<notin> set (map fst as) \<or> s \<notin> set (map fst bs)" using assms(3) by blast
    moreover have "s \<in> set (map fst as) \<or> s \<in> set (map fst bs)" using True by simp
    ultimately consider c where "map_of as s = Some c" "map_of bs s = None" | c where "map_of as s = None" "map_of bs s = Some c"
      using no by (cases "map_of as s"; cases "map_of bs s") blast+
    then show ?thesis
    proof cases
      case (1 c)
      then have "h_hash L c \<noteq> EMPTY" using ne by (force dest: map_of_SomeD)
      then show ?thesis using 1 bits True Cons sc z f by (simp add: map_add_def)
    next
      case (2 c)
      then have "h_hash L c \<noteq> EMPTY" using ne by (force dest: map_of_SomeD)
      then show ?thesis using 2 bits True Cons sc z f by (simp add: map_add_def)
    qed
  qed
qed simp

text \<open>C23 (safety): a merge undoes a deletion. The ancestor has the single key 0. One side added key 1;
  the other removed key 0 and added keys 2 and 3. The changes touch disjoint keys, and running them
  in either order leaves 1, 2 and 3; the merge returns a map that still contains key 0, because an
  ancestor that is a leaf counts as empty when both sides are inner nodes.\<close>

theorem merge_undoes_deletion:
  "(\<exists>cells. pm_merge_three_way 11 twos_lib (trie_store [demo_leaf 0 100, demo_split, demo_other]) TU64 TU64
       (h_hash twos_lib demo_split) (h_hash twos_lib demo_other) (h_hash twos_lib (demo_leaf 0 100))
     = Some (Some (h_hash twos_lib demo_resurrected, cells)))
   \<and> map_of (hentries (demo_leaf 0 100)) (VU64 0) = Some (VU64 100) \<and> map_of (hentries demo_other) (VU64 0) = None
   \<and> map_of (hentries demo_resurrected) (VU64 0) = Some (VU64 100)"
proof -
  let ?Ts = "[demo_leaf 0 100, demo_split, demo_other]"
  let ?s = "trie_store ?Ts"
  let ?as = "[(5 :: nat, demo_leaf 0 100), (10, demo_leaf 1 200)]" and ?bs = "[(15 :: nat, demo_leaf 2 300), (20, demo_leaf 3 400)]"
  note hashes = demo_leaf_hash demo_leaf_hash2 demo_inner_hash demo_other_hash
  have rd: "pm_read_node_kv twos_lib ?s TU64 TU64 (h_hash twos_lib demo_split) = Some (Some (h_top twos_lib demo_split))"
    "pm_read_node_kv twos_lib ?s TU64 TU64 (h_hash twos_lib demo_other) = Some (Some (h_top twos_lib demo_other))"
    "pm_read_node_kv twos_lib ?s TU64 TU64 (h_hash twos_lib (demo_leaf 0 100)) = Some (Some (h_top twos_lib (demo_leaf 0 100)))"
    by (rule trie_store_read; simp add: hashes demo_split_wf demo_wf demo_inner_bytes demo_other_bytes demo_leaf_bytes)+
  have merge: "pm_merge_slots (\<lambda>x y z. pm_merge_at (Suc n) twos_lib ?s TU64 TU64 x y z)
      (bitmap_of (map fst ?as), map (\<lambda>p. h_hash twos_lib (snd p)) ?as) (bitmap_of (map fst ?bs), map (\<lambda>p. h_hash twos_lib (snd p)) ?bs) (0, []) [0..<32] []
    = Some (Some (map (\<lambda>s. (s, h_hash twos_lib (the (map_of (?as @ ?bs) s)))) (filter (\<lambda>s. s \<in> set (map fst (?as @ ?bs))) [0..<32]), []))" for n
    by (rule merge_disjoint_slots [OF demo_split_wf [unfolded demo_split_def demo_other_def]]) (auto simp: hashes)
  have ss: "filter (\<lambda>s. s \<in> set (map fst (?as @ ?bs))) [0..<32] = [5, 10, 15, 20]" by (simp add: upto_32)
  have m: "pm_merge_slots (\<lambda>x y z. pm_merge_at (Suc n) twos_lib ?s TU64 TU64 x y z)
      (bitmap_of [5, 10], [h_hash twos_lib (demo_leaf 0 100), h_hash twos_lib (demo_leaf 1 200)])
      (bitmap_of [15, 20], [h_hash twos_lib (demo_leaf 2 300), h_hash twos_lib (demo_leaf 3 400)]) (0, []) [0..<32] []
    = Some (Some ([(5, h_hash twos_lib (demo_leaf 0 100)), (10, h_hash twos_lib (demo_leaf 1 200)), (15, h_hash twos_lib (demo_leaf 2 300)),
        (20, h_hash twos_lib (demo_leaf 3 400))], []))" for n
    using merge [of n] unfolding ss by simp
  have bm: "bitmap_of [5, 10, 15, 20] \<noteq> 0" by (simp add: bitmap_of_zero)
  have tops: "h_top twos_lib demo_split = PInner (bitmap_of [5, 10]) [h_hash twos_lib (demo_leaf 0 100), h_hash twos_lib (demo_leaf 1 200)]"
    "h_top twos_lib demo_other = PInner (bitmap_of [15, 20]) [h_hash twos_lib (demo_leaf 2 300), h_hash twos_lib (demo_leaf 3 400)]"
    "h_top twos_lib (demo_leaf 0 100) = PLeaf [(VU64 0, VU64 100)]"
    "h_hash twos_lib demo_resurrected = pmap_cell_key (serialize_inner (bitmap_of [5, 10, 15, 20])
       [h_hash twos_lib (demo_leaf 0 100), h_hash twos_lib (demo_leaf 1 200), h_hash twos_lib (demo_leaf 2 300), h_hash twos_lib (demo_leaf 3 400)])"
    by (simp_all add: demo_split_def demo_other_def demo_resurrected_def h_hash_def h_bytes_node) (simp add: demo_leaf_def)
  have "\<exists>cells. pm_merge_at (Suc (Suc n)) twos_lib ?s TU64 TU64 (h_hash twos_lib demo_split) (h_hash twos_lib demo_other)
      (h_hash twos_lib (demo_leaf 0 100)) [] = Some (Some (h_hash twos_lib demo_resurrected, cells))" for n
    using rd m [of n] bm unfolding pm_merge_at.simps(2) [of "Suc n"]
    by (simp add: tops hashes [THEN eq_reflection] Let_def del: pm_merge_at.simps)
  from this [of 9] show ?thesis
    by (simp add: pm_merge_three_way_def) (simp add: demo_leaf_def demo_other_def demo_resurrected_def)
qed

end
