(* ===== verification/Occ.thy ===== *)
theory Occ
  imports PMapMerge PVecProps
begin

section \<open>Optimistic concurrency\<close>

text \<open>
  \<^verbatim>\<open>crates/rend/src/occ.rs\<close>: \<^verbatim>\<open>commit_batch\<close> runs every transaction against one snapshot, then validates
  and commits them in order; a transaction whose reads changed is salvaged by a three-way merge of
  map and vector roots, or executed again. \<^verbatim>\<open>Engine::execute\<close> is the argument \<open>execute\<close> (source, fuel
  and store to an error or an outcome). The store is returned on the error path too, because the
  committed prefix stays applied. The outer \<open>None\<close> is a panic.

  \<open>run_serial\<close> is the reference: execute and apply one transaction after the other.
\<close>

record exec_outcome =
  eo_result :: val
  eo_reads :: "(u128, val) hashmap"
  eo_writes :: "(u128, val) hashmap"
  eo_events :: "emitted_event list"
  eo_pmap_types :: "(u128, ty \<times> ty) hashmap"
  eo_pvec_types :: "(u128, ty) hashmap"
  eo_node_cells_written :: "u128 set"

record tx_request =
  src :: string
  fuel_first :: u64
  fuel_retry :: u64

record tx_report =
  tr_result :: val
  re_executed :: bool

record batch_report =
  txs :: "tx_report list"
  conflicts :: nat
  merged :: nat

definition default_report :: batch_report where
  "default_report = \<lparr>txs = [], conflicts = 0, merged = 0\<rparr>"

type_synonym 'e engine = "string \<Rightarrow> u64 \<Rightarrow> in_memory_kv \<Rightarrow> 'e + exec_outcome"

subsection \<open>Validation\<close>

definition live_match :: "bigint_lib \<Rightarrow> kv \<Rightarrow> u128 \<times> val \<Rightarrow> bool option" where
  "live_match L s r =
     (case s (fst r) of
        Some bytes \<Rightarrow> map_option (\<lambda>b. bytes = b) (serialize L (snd r))
      | None \<Rightarrow> Some (is_default (snd r)))"

fun validate :: "bigint_lib \<Rightarrow> (u128, val) hashmap \<Rightarrow> kv \<Rightarrow> bool option" where
  "validate L [] s = Some True"
| "validate L (r # rs) s = do {
     ok \<leftarrow> live_match L s r;
     (if ok then validate L rs s else Some False) }"

subsection \<open>Merging persistent collections\<close>

definition read_pmap_root :: "bigint_lib \<Rightarrow> ty \<Rightarrow> in_memory_kv \<Rightarrow> u128 \<Rightarrow> u128 option option" where
  "read_pmap_root L pmap_ty s cell =
     (case kv_get s cell of
        None \<Rightarrow> Some None
      | Some bytes \<Rightarrow> (case deserialize L bytes pmap_ty of
          Got (VPMap h) \<Rightarrow> Some (Some h) | Panic \<Rightarrow> None | _ \<Rightarrow> Some None))"

definition read_pvec_root :: "bigint_lib \<Rightarrow> ty \<Rightarrow> in_memory_kv \<Rightarrow> u128 \<Rightarrow> (u128 \<times> u64) option option" where
  "read_pvec_root L pvec_ty s cell =
     (case kv_get s cell of
        None \<Rightarrow> Some None
      | Some bytes \<Rightarrow> (case deserialize L bytes pvec_ty of
          Got (VPVec len root) \<Rightarrow> Some (Some (root, len)) | Panic \<Rightarrow> None | _ \<Rightarrow> Some None))"

definition is_persistent :: "val \<Rightarrow> bool" where
  "is_persistent v = (case v of VPMap _ \<Rightarrow> True | VPVec _ _ \<Rightarrow> True | _ \<Rightarrow> False)"

fun mergeable_cells :: "bigint_lib \<Rightarrow> kv \<Rightarrow> (u128, val) hashmap \<Rightarrow> (u128, val) hashmap \<Rightarrow> u128 list option option" where
  \<comment> \<open>the loop over the read set; the inner \<open>None\<close> is a mismatch the merge cannot resolve\<close>
  "mergeable_cells L live ws [] = Some (Some [])"
| "mergeable_cells L live ws (r # rs) = do {
     ok \<leftarrow> live_match L live r;
     (if ok then mergeable_cells L live ws rs
      else if \<not> is_persistent (snd r) \<or> hm_get ws (fst r) = None then Some None
      else do {
        cells \<leftarrow> mergeable_cells L live ws rs;
        Some (map_option (Cons (fst r)) cells) }) }"

primrec insert_new_cells :: "(u128, val) hashmap \<Rightarrow> new_cells \<Rightarrow> (u128, val) hashmap" where
  "insert_new_cells m [] = m"
| "insert_new_cells m (c # cs) = insert_new_cells (hm_insert (fst c) (VBytes (snd c)) m) cs"

definition merge_cell :: "nat \<Rightarrow> bigint_lib \<Rightarrow> exec_outcome \<Rightarrow> in_memory_kv \<Rightarrow> in_memory_kv \<Rightarrow> u128
    \<Rightarrow> (u128, val) hashmap \<Rightarrow> (u128, val) hashmap option option" where
  "merge_cell n L outcome live snapshot cell adjusted =
     (let stacked = stacked_get L (eo_writes outcome) (kv_get live) in
      case hm_get (eo_pmap_types outcome) cell of
        Some (key_ty, val_ty) \<Rightarrow>
          (case hm_get (eo_writes outcome) cell of
             Some (VPMap new_a) \<Rightarrow> do {
               live_b \<leftarrow> read_pmap_root L (TPMap key_ty val_ty) live cell;
               ancestor \<leftarrow> read_pmap_root L (TPMap key_ty val_ty) snapshot cell;
               m \<leftarrow> pm_merge_three_way n L stacked key_ty val_ty new_a
                      (case live_b of Some h \<Rightarrow> h | None \<Rightarrow> EMPTY) (case ancestor of Some h \<Rightarrow> h | None \<Rightarrow> EMPTY);
               Some (map_option (\<lambda>(root, cells).
                 insert_new_cells (hm_insert cell (VPMap root) adjusted) cells) m) }
           | _ \<Rightarrow> Some None)
      | None \<Rightarrow>
          (case hm_get (eo_pvec_types outcome) cell of
             Some elem_ty \<Rightarrow>
               (case hm_get (eo_writes outcome) cell of
                  Some (VPVec new_len new_root) \<Rightarrow> do {
                    live_b \<leftarrow> read_pvec_root L (TPVec elem_ty) live cell;
                    ancestor \<leftarrow> read_pvec_root L (TPVec elem_ty) snapshot cell;
                    let (live_root, live_len) = (case live_b of Some p \<Rightarrow> p | None \<Rightarrow> (EMPTY, 0));
                    let (anc_root, anc_len) = (case ancestor of Some p \<Rightarrow> p | None \<Rightarrow> (EMPTY, 0));
                    m \<leftarrow> pv_merge_three_way L stacked elem_ty new_root new_len live_root live_len anc_root anc_len;
                    Some (map_option (\<lambda>(root, cells).
                      insert_new_cells (hm_insert cell (VPVec new_len root) adjusted) cells) m) }
                | _ \<Rightarrow> Some None)
           | None \<Rightarrow> Some None))"

fun merge_cells :: "nat \<Rightarrow> bigint_lib \<Rightarrow> exec_outcome \<Rightarrow> in_memory_kv \<Rightarrow> in_memory_kv \<Rightarrow> u128 list
    \<Rightarrow> (u128, val) hashmap \<Rightarrow> (u128, val) hashmap option option" where
  "merge_cells n L outcome live snapshot [] adjusted = Some (Some adjusted)"
| "merge_cells n L outcome live snapshot (c # cs) adjusted = do {
     r \<leftarrow> merge_cell n L outcome live snapshot c adjusted;
     (case r of None \<Rightarrow> Some None | Some adjusted' \<Rightarrow> merge_cells n L outcome live snapshot cs adjusted') }"

definition try_persistent_merge :: "nat \<Rightarrow> bigint_lib \<Rightarrow> exec_outcome \<Rightarrow> in_memory_kv \<Rightarrow> in_memory_kv
    \<Rightarrow> (u128, val) hashmap option option" where
  "try_persistent_merge n L outcome live snapshot = do {
     cells \<leftarrow> mergeable_cells L (kv_get live) (eo_writes outcome) (eo_reads outcome);
     (case cells of
        None \<Rightarrow> Some None
      | Some [] \<Rightarrow> Some (Some (eo_writes outcome))
      | Some cs \<Rightarrow> merge_cells n L outcome live snapshot cs (eo_writes outcome)) }"

subsection \<open>Committing a batch\<close>

fun run_speculative :: "'e engine \<Rightarrow> in_memory_kv \<Rightarrow> tx_request list \<Rightarrow> 'e + exec_outcome list" where
  \<comment> \<open>collecting into a \<^verbatim>\<open>Result\<close>: an error of any transaction is the error of the batch (when
     several fail, the parallel iterator may report any of them; here it is the first)\<close>
  "run_speculative execute snapshot [] = Inr []"
| "run_speculative execute snapshot (t # ts) =
     (case execute (src t) (fuel_first t) snapshot of
        Inl e \<Rightarrow> Inl e
      | Inr oc \<Rightarrow> (case run_speculative execute snapshot ts of Inl e \<Rightarrow> Inl e | Inr os \<Rightarrow> Inr (oc # os)))"

definition report_tx :: "val \<Rightarrow> bool \<Rightarrow> batch_report \<Rightarrow> batch_report" where
  "report_tx v re r = r\<lparr>txs := txs r @ [\<lparr>tr_result = v, re_executed = re\<rparr>]\<rparr>"

fun commit_loop :: "nat \<Rightarrow> bigint_lib \<Rightarrow> 'e engine \<Rightarrow> in_memory_kv \<Rightarrow> (tx_request \<times> exec_outcome) list \<Rightarrow> in_memory_kv
    \<Rightarrow> batch_report \<Rightarrow> (('e + batch_report) \<times> in_memory_kv) option" where
  "commit_loop n L execute snapshot [] kv report = Some (Inr report, kv)"
| "commit_loop n L execute snapshot ((t, outcome) # rest) kv report = do {
     ok \<leftarrow> validate L (eo_reads outcome) (kv_get kv);
     (if ok then do {
        kv' \<leftarrow> apply_writes L kv (eo_writes outcome);
        commit_loop n L execute snapshot rest kv' (report_tx (eo_result outcome) False report) }
      else do {
        adj \<leftarrow> try_persistent_merge n L outcome kv snapshot;
        (case adj of
           Some adjusted \<Rightarrow> do {
             kv' \<leftarrow> apply_writes L kv adjusted;
             commit_loop n L execute snapshot rest kv' (report_tx (eo_result outcome) False (report\<lparr>merged := merged report + 1\<rparr>)) }
         | None \<Rightarrow>
             (case execute (src t) (fuel_retry t) kv of
                Inl e \<Rightarrow> Some (Inl e, kv)
              | Inr re \<Rightarrow> do {
                  kv' \<leftarrow> apply_writes L kv (eo_writes re);
                  commit_loop n L execute snapshot rest kv' (report_tx (eo_result re) True (report\<lparr>conflicts := conflicts report + 1\<rparr>)) })) }) }"

definition commit_batch :: "nat \<Rightarrow> bigint_lib \<Rightarrow> 'e engine \<Rightarrow> in_memory_kv \<Rightarrow> tx_request list
    \<Rightarrow> (('e + batch_report) \<times> in_memory_kv) option" where
  "commit_batch n L execute kv ts =
     (case run_speculative execute kv ts of
        Inl e \<Rightarrow> Some (Inl e, kv)
      | Inr os \<Rightarrow> commit_loop n L execute kv (zip ts os) kv default_report)"

subsection \<open>The serial reference\<close>

fun run_serial :: "bigint_lib \<Rightarrow> 'e engine \<Rightarrow> in_memory_kv \<Rightarrow> tx_request list \<Rightarrow> val list \<Rightarrow> (('e + val list) \<times> in_memory_kv) option" where
  "run_serial L execute kv [] rs = Some (Inr rs, kv)"
| "run_serial L execute kv (t # ts) rs =
     (case execute (src t) (fuel_retry t) kv of
        Inl e \<Rightarrow> Some (Inl e, kv)
      | Inr oc \<Rightarrow> do { kv' \<leftarrow> apply_writes L kv (eo_writes oc); run_serial L execute kv' ts (rs @ [eo_result oc]) })"

text \<open>What validation relies on: an execution is determined by what it reads, so that on a store that
  agrees with its read set it gives the same outcome (the language is deterministic).\<close>

definition read_determined :: "bigint_lib \<Rightarrow> 'e engine \<Rightarrow> bool" where
  "read_determined L execute \<longleftrightarrow> (\<forall>src fuel s s' oc.
     execute src fuel s = Inr oc \<longrightarrow> validate L (eo_reads oc) (kv_get s') = Some True \<longrightarrow> execute src fuel s' = Inr oc)"

subsection \<open>Committing without merges is serial execution\<close>

lemma commit_loop_merged: "commit_loop n L execute snapshot ps kv report = Some (Inr r, kv') \<Longrightarrow> merged report \<le> merged r"
proof (induction n L execute snapshot ps kv report rule: commit_loop.induct)
  case (2 n L execute snapshot t outcome rest kv report)
  from "2.prems" obtain ok where ok: "validate L (eo_reads outcome) (kv_get kv) = Some ok" by (auto split: bind_splits)
  show ?case
  proof (cases ok)
    case True
    with "2.prems" ok obtain kv1 where "apply_writes L kv (eo_writes outcome) = Some kv1"
      "commit_loop n L execute snapshot rest kv1 (report_tx (eo_result outcome) False report) = Some (Inr r, kv')" by (auto split: bind_splits)
    from "2.IH"(1) [OF ok True this] show ?thesis by (simp add: report_tx_def)
  next
    case False
    with "2.prems" ok obtain adj where adj: "try_persistent_merge n L outcome kv snapshot = Some adj" by (auto split: bind_splits)
    show ?thesis
    proof (cases adj)
      case (Some ws)
      with "2.prems" ok False adj obtain kv1 where "apply_writes L kv ws = Some kv1"
        "commit_loop n L execute snapshot rest kv1 (report_tx (eo_result outcome) False (report\<lparr>merged := merged report + 1\<rparr>)) = Some (Inr r, kv')"
        by (auto split: bind_splits)
      from "2.IH"(3) [OF ok False adj Some this] show ?thesis by (simp add: report_tx_def)
    next
      case None
      with "2.prems" ok False adj obtain re kv1 where "execute (src t) (fuel_retry t) kv = Inr re" "apply_writes L kv (eo_writes re) = Some kv1"
        "commit_loop n L execute snapshot rest kv1 (report_tx (eo_result re) True (report\<lparr>conflicts := conflicts report + 1\<rparr>)) = Some (Inr r, kv')"
        by (auto split: bind_splits sum.splits)
      from "2.IH"(2) [OF ok False adj None this] show ?thesis by (simp add: report_tx_def)
    qed
  qed
qed auto

text \<open>One step of the loop that is not a merge: it commits what executing the transaction on the live
  store gives.\<close>

lemma commit_step:
  assumes "read_determined L execute" "execute (src t) (fuel_first t) snapshot = Inr outcome" "fuel_retry t = fuel_first t"
    and "commit_loop n L execute snapshot ((t, outcome) # rest) kv report = Some (Inr r, kv')" "merged r = merged report"
  obtains oc re kv1 where "execute (src t) (fuel_retry t) kv = Inr oc" "apply_writes L kv (eo_writes oc) = Some kv1"
    "commit_loop n L execute snapshot rest kv1
       (report_tx (eo_result oc) re (report\<lparr>conflicts := conflicts report + of_bool re\<rparr>)) = Some (Inr r, kv')"
proof -
  obtain ok where ok: "validate L (eo_reads outcome) (kv_get kv) = Some ok" using assms(4) by (auto split: bind_splits)
  show thesis
  proof (cases ok)
    case True
    then have v: "validate L (eo_reads outcome) (kv_get kv) = Some True" using ok by simp
    have ex: "execute (src t) (fuel_retry t) kv = Inr outcome"
      using assms(1) [unfolded read_determined_def, rule_format, OF assms(2) v] assms(3) by simp
    from assms(4) v obtain kv1 where "apply_writes L kv (eo_writes outcome) = Some kv1"
      "commit_loop n L execute snapshot rest kv1 (report_tx (eo_result outcome) False report) = Some (Inr r, kv')"
      by (auto split: bind_splits)
    with ex show thesis by (intro that [of outcome kv1 False]) simp_all
  next
    case False
    with assms(4) ok obtain adj where adj: "try_persistent_merge n L outcome kv snapshot = Some adj" by (auto split: bind_splits)
    show thesis
    proof (cases adj)
      case (Some ws)
      with assms(4) ok False adj obtain kv1 where
        "commit_loop n L execute snapshot rest kv1 (report_tx (eo_result outcome) False (report\<lparr>merged := merged report + 1\<rparr>)) = Some (Inr r, kv')"
        by (auto split: bind_splits)
      from commit_loop_merged [OF this] assms(5) show thesis by (simp add: report_tx_def)
    next
      case None
      with assms(4) ok False adj obtain oc kv1 where "execute (src t) (fuel_retry t) kv = Inr oc" "apply_writes L kv (eo_writes oc) = Some kv1"
        "commit_loop n L execute snapshot rest kv1 (report_tx (eo_result oc) True (report\<lparr>conflicts := conflicts report + 1\<rparr>)) = Some (Inr r, kv')"
        by (auto split: bind_splits sum.splits)
      then show thesis by (intro that [of oc kv1 True]) simp_all
    qed
  qed
qed

lemma commit_loop_serial:
  assumes "read_determined L execute"
    and "\<forall>p\<in>set ps. execute (src (fst p)) (fuel_first (fst p)) snapshot = Inr (snd p) \<and> fuel_retry (fst p) = fuel_first (fst p)"
    and "commit_loop n L execute snapshot ps kv report = Some (Inr r, kv')" "merged r = merged report"
  shows "run_serial L execute kv (map fst ps) (map tr_result (txs report)) = Some (Inr (map tr_result (txs r)), kv')
     \<and> length (txs r) = length (txs report) + length ps
     \<and> conflicts r + length (filter re_executed (txs report)) = conflicts report + length (filter re_executed (txs r))"
  using assms(2-4)
proof (induction ps arbitrary: kv report)
  case (Cons p ps)
  obtain t outcome where p: "p = (t, outcome)" by fastforce
  have e: "execute (src t) (fuel_first t) snapshot = Inr outcome" "fuel_retry t = fuel_first t" using Cons.prems(1) p by auto
  from commit_step [OF assms(1) e Cons.prems(2) [unfolded p] Cons.prems(3)] obtain oc re kv1 where
    s: "execute (src t) (fuel_retry t) kv = Inr oc" "apply_writes L kv (eo_writes oc) = Some kv1"
    "commit_loop n L execute snapshot ps kv1 (report_tx (eo_result oc) re (report\<lparr>conflicts := conflicts report + of_bool re\<rparr>)) = Some (Inr r, kv')" .
  have "merged r = merged (report_tx (eo_result oc) re (report\<lparr>conflicts := conflicts report + of_bool re\<rparr>))"
    using Cons.prems(3) by (simp add: report_tx_def)
  from Cons.IH [OF _ s(3) this] Cons.prems(1) s(1,2) p show ?case by (cases re) (auto simp: report_tx_def)
qed auto

lemma run_speculative_zip:
  "run_speculative execute s ts = Inr os \<Longrightarrow>
   map fst (zip ts os) = ts \<and> (\<forall>p\<in>set (zip ts os). execute (src (fst p)) (fuel_first (fst p)) s = Inr (snd p))"
proof (induction ts arbitrary: os)
  case (Cons t ts)
  then obtain oc os' where "execute (src t) (fuel_first t) s = Inr oc" "run_speculative execute s ts = Inr os'" "os = oc # os'"
    by (auto split: sum.splits)
  then show ?case using Cons.IH [of os'] by auto
qed auto


subsection \<open>A batch with a merge\<close>

text \<open>Two transactions on a \<^verbatim>\<open>pmap<u64, u64>\<close> in cell 1. The first inserts key 0. The second looks for
  key 0: it reports false and inserts key 1 when the key is absent, and reports true and writes
  nothing when it is present. Both read the root cell.\<close>

definition demo_map_cell :: "htree \<Rightarrow> bytes" where
  "demo_map_cell T = the (serialize twos_lib (VPMap (h_hash twos_lib T)))"

definition demo_outcome :: "val \<Rightarrow> u128 \<Rightarrow> htree option \<Rightarrow> exec_outcome" where
  "demo_outcome v root T = \<lparr>eo_result = v, eo_reads = [(1, VPMap root)],
     eo_writes = (case T of None \<Rightarrow> [] | Some T \<Rightarrow> [(1, VPMap (h_hash twos_lib T)), (h_hash twos_lib T, VBytes (h_bytes twos_lib T))]),
     eo_events = [], eo_pmap_types = [(1, (TU64, TU64))], eo_pvec_types = [], eo_node_cells_written = {}\<rparr>"

definition demo_engine :: "unit engine" where
  "demo_engine source fuel s =
     (if kv_get s 1 = None \<or> kv_get s 1 = serialize twos_lib (VPMap EMPTY)
      then Inr (demo_outcome (VBool False) EMPTY (Some (if source = ''a'' then demo_leaf 0 100 else demo_leaf 1 200)))
      else if source \<noteq> ''a'' \<and> kv_get s 1 = Some (demo_map_cell (demo_leaf 0 100))
      then Inr (demo_outcome (VBool True) (h_hash twos_lib (demo_leaf 0 100)) None)
      else Inl ())"

definition demo_request :: "string \<Rightarrow> tx_request" where
  "demo_request s = \<lparr>src = s, fuel_first = 100, fuel_retry = 100\<rparr>"

lemma demo_engine_determined: "read_determined twos_lib demo_engine"
  unfolding read_determined_def demo_engine_def demo_outcome_def
  by (auto simp: live_match_def demo_map_cell_def demo_leaf_hash split: if_splits option.splits)

definition demo_kv1 :: in_memory_kv where
  "demo_kv1 = put_many kv_new [(1, demo_map_cell (demo_leaf 0 100)),
     (h_hash twos_lib (demo_leaf 0 100), the (serialize twos_lib (VBytes (h_bytes twos_lib (demo_leaf 0 100)))))]"

lemma demo_apply: "apply_writes twos_lib kv_new (eo_writes (demo_outcome v r (Some (demo_leaf 0 100)))) = Some demo_kv1"
  by (simp add: apply_writes_def serialize_write_def demo_outcome_def demo_kv1_def demo_map_cell_def)

lemma demo_kv1_get: "kv_get demo_kv1 1 = Some (demo_map_cell (demo_leaf 0 100))"
  "kv_get demo_kv1 0xef83020fc1630b55f5f3908920f425a8 = Some (the (serialize twos_lib (VBytes (h_bytes twos_lib (demo_leaf 0 100)))))"
  by (simp_all add: demo_kv1_def demo_leaf_hash)

lemma kv_new_get [simp]: "kv_get kv_new k = None"
  by (simp add: kv_get_def kv_new_def)

lemma demo_cell_decode: "deserialize twos_lib (demo_map_cell T) (TPMap TU64 TU64) = Got (VPMap (h_hash twos_lib T))"
  using wt_vcodec [of twos_lib "TPMap TU64 TU64" "VPMap (h_hash twos_lib T)"] bigint_ok_twos_lib
  by (auto simp: demo_map_cell_def vcodec_def codec_def vc_def simp del: deserialize.simps serialize.simps)

lemma demo_cell_neq: "demo_map_cell (demo_leaf 0 100) \<noteq> the (serialize twos_lib (VPMap EMPTY))"
proof
  assume "demo_map_cell (demo_leaf 0 100) = the (serialize twos_lib (VPMap EMPTY))"
  then have "Got (VPMap (h_hash twos_lib (demo_leaf 0 100))) = deserialize twos_lib (the (serialize twos_lib (VPMap EMPTY))) (TPMap TU64 TU64)"
    using demo_cell_decode by metis
  moreover have "deserialize twos_lib (the (serialize twos_lib (VPMap EMPTY))) (TPMap TU64 TU64) = Got (VPMap EMPTY)"
    using wt_vcodec [of twos_lib "TPMap TU64 TU64" "VPMap EMPTY"] bigint_ok_twos_lib
    by (auto simp: vcodec_def codec_def vc_def simp del: deserialize.simps serialize.simps)
  ultimately show False by (simp add: demo_leaf_hash)
qed

lemma demo_merge:
  "pm_merge_three_way (Suc n) twos_lib (stacked_get twos_lib (eo_writes (demo_outcome v r (Some (demo_leaf 1 200)))) (kv_get demo_kv1)) TU64 TU64
     (h_hash twos_lib (demo_leaf 1 200)) (h_hash twos_lib (demo_leaf 0 100)) EMPTY
   = Some (Some (h_hash twos_lib demo_pair, [(h_hash twos_lib demo_pair, h_bytes twos_lib demo_pair)]))"
proof -
  let ?s = "stacked_get twos_lib (eo_writes (demo_outcome v r (Some (demo_leaf 1 200)))) (kv_get demo_kv1)"
  have g: "?s (h_hash twos_lib (demo_leaf 1 200)) = Some (Some (the (serialize twos_lib (VBytes (h_bytes twos_lib (demo_leaf 1 200))))))"
    "?s (h_hash twos_lib (demo_leaf 0 100)) = Some (Some (the (serialize twos_lib (VBytes (h_bytes twos_lib (demo_leaf 0 100))))))"
    using demo_kv1_get(2) by (simp_all add: stacked_get_def demo_outcome_def hm_get_def demo_leaf_hash)
  have rd: "pm_read_node_kv twos_lib ?s TU64 TU64 (h_hash twos_lib (demo_leaf 1 200)) = Some (Some (PLeaf [(VU64 1, VU64 200)]))"
    "pm_read_node_kv twos_lib ?s TU64 TU64 (h_hash twos_lib (demo_leaf 0 100)) = Some (Some (PLeaf [(VU64 0, VU64 100)]))"
    using g h_decode [OF bigint_ok_twos_lib demo_wf(1)] bytes_cell_serialize [OF bigint_ok_twos_lib demo_leaf_length] demo_leaf_hash
    unfolding pm_read_node_kv_def read_node_kv_with_def
    by (simp_all add: parsed_def del: serialize.simps) (simp_all add: demo_leaf_def)
  have "pm_read_node_kv twos_lib ?s TU64 TU64 EMPTY = Some None" by (simp add: pm_read_node_kv_def read_node_kv_with_def)
  then show ?thesis using rd demo_merge_leaves demo_leaf_hash by (simp add: pm_merge_three_way_def)
qed

text \<open>What the salvaged transaction commits.\<close>

definition demo_adjusted :: "(u128, val) hashmap" where
  "demo_adjusted = hm_insert (h_hash twos_lib demo_pair) (VBytes (h_bytes twos_lib demo_pair))
     (hm_insert 1 (VPMap (h_hash twos_lib demo_pair)) (eo_writes (demo_outcome (VBool False) EMPTY (Some (demo_leaf 1 200)))))"

lemma demo_try_merge:
  "try_persistent_merge (Suc n) twos_lib (demo_outcome (VBool False) EMPTY (Some (demo_leaf 1 200))) demo_kv1 kv_new = Some (Some demo_adjusted)"
proof -
  let ?o = "demo_outcome (VBool False) EMPTY (Some (demo_leaf 1 200))"
  have w: "hm_get (eo_writes ?o) 1 = Some (VPMap (h_hash twos_lib (demo_leaf 1 200)))" by (simp add: demo_outcome_def hm_get_def)
  have t: "hm_get (eo_pmap_types ?o) 1 = Some (TU64, TU64)" by (simp add: demo_outcome_def hm_get_def)
  have "live_match twos_lib (kv_get demo_kv1) (1, VPMap EMPTY) = Some False"
    using demo_cell_neq demo_kv1_get(1) by (auto simp: live_match_def)
  then have m: "mergeable_cells twos_lib (kv_get demo_kv1) (eo_writes ?o) (eo_reads ?o) = Some (Some [1])"
    using w by (simp add: demo_outcome_def is_persistent_def)
  have r: "read_pmap_root twos_lib (TPMap TU64 TU64) demo_kv1 1 = Some (Some (h_hash twos_lib (demo_leaf 0 100)))"
    "read_pmap_root twos_lib (TPMap TU64 TU64) kv_new 1 = Some None"
    using demo_kv1_get(1) demo_cell_decode by (simp_all add: read_pmap_root_def del: deserialize.simps)
  have "merge_cell (Suc n) twos_lib ?o demo_kv1 kv_new 1 (eo_writes ?o) = Some (Some demo_adjusted)"
    using demo_merge [of n] t w r unfolding merge_cell_def by (simp add: Let_def demo_adjusted_def)
  then show ?thesis using m by (simp add: try_persistent_merge_def)
qed

lemma demo_spec_runs:
  "demo_engine ''a'' fuel kv_new = Inr (demo_outcome (VBool False) EMPTY (Some (demo_leaf 0 100)))"
  "demo_engine ''b'' fuel kv_new = Inr (demo_outcome (VBool False) EMPTY (Some (demo_leaf 1 200)))"
  "demo_engine ''b'' fuel demo_kv1 = Inr (demo_outcome (VBool True) (h_hash twos_lib (demo_leaf 0 100)) None)"
  using demo_cell_neq demo_kv1_get(1) by (auto simp: demo_engine_def)

lemma demo_validate:
  "validate twos_lib (eo_reads (demo_outcome v EMPTY T)) (kv_get kv_new) = Some True"
  "validate twos_lib (eo_reads (demo_outcome v EMPTY T)) (kv_get demo_kv1) = Some False"
  using demo_cell_neq demo_kv1_get(1) by (auto simp: demo_outcome_def live_match_def)

lemma demo_result: "eo_result (demo_outcome v r T) = v"
  by (simp add: demo_outcome_def)

lemma demo_adjusted_applied: "\<exists>kv'. apply_writes twos_lib demo_kv1 demo_adjusted = Some kv' \<and> kv_get kv' 1 = Some (demo_map_cell demo_pair)"
proof -
  have a: "demo_adjusted = [(1, VPMap (h_hash twos_lib demo_pair)), (h_hash twos_lib (demo_leaf 1 200), VBytes (h_bytes twos_lib (demo_leaf 1 200))),
      (h_hash twos_lib demo_pair, VBytes (h_bytes twos_lib demo_pair))]"
    by (simp add: demo_adjusted_def demo_outcome_def hm_insert_def demo_leaf_hash demo_pair_hash)
  show ?thesis unfolding a by (simp add: apply_writes_def serialize_write_def demo_leaf_hash demo_pair_hash demo_map_cell_def)
qed



end
