(* ===== verification/Bytecode.thy ===== *)
theory Bytecode
  imports Serialize
begin

section \<open>Bytecode modules\<close>

text \<open>
  The compile output of \<^verbatim>\<open>crates/rend/src/bc.rs\<close>: constants, instructions, functions and modules.
  Instructions keep the source's names with the prefix \<open>I\<close> (constants \<open>C\<close>, binary operators \<open>B\<close>,
  unary operators \<open>U\<close>, batched reads \<open>R\<close>); the operands stand in the order of their declaration,
  which the comment beside each instruction names. Register, constant and state indices are 16-bit
  words, jump offsets 32-bit two's complement words. A \<^verbatim>\<open>HashMap\<close> field is an association list.
  Interface declarations carry source spans in the compiler; the artifact drops them
  (\<^verbatim>\<open>Span::default()\<close> on the way back), and no part of the model reads them, so they are left out.
\<close>

type_synonym u16 = "16 word"

datatype binop = BAdd | BSub | BMul | BDiv | BMod | BEq | BNotEq | BLt | BGt | BLtEq | BGtEq
  | BAnd | BOr | BBitAnd | BBitOr | BBitXor | BShl | BShr

datatype unop = UNeg | UNot

datatype const =
    CInt int
  | CUInt int
  | CFloat u64
  | CI32 i32
  | CU32 u32
  | CU64 u64
  | CU128 u128
  | CBool bool
  | CStr string

datatype read_op =
    RState u16 u16   \<comment> \<open>dst, key_idx\<close>
  | RPath u16 u16    \<comment> \<open>dst, path_idx\<close>

record parallel_range =
  pr_start :: u32
  pr_end :: u32
  pr_dst :: "u16 option"

datatype (plugins only:) instr =
    ILoadConst u16 u16   \<comment> \<open>dst, idx\<close>
  | IMove u16 u16   \<comment> \<open>dst, src\<close>
  | IBin binop u16 u16 u16   \<comment> \<open>op, dst, lhs, rhs\<close>
  | IUn unop u16 u16   \<comment> \<open>op, dst, src\<close>
  | IJump i32   \<comment> \<open>offset\<close>
  | IJumpIfFalse u16 i32   \<comment> \<open>cond, offset\<close>
  | ICall u16 u16 u16 u8   \<comment> \<open>dst, fn_idx, args_start, n_args\<close>
  | ICallHost u16 u16 u16 u8   \<comment> \<open>dst, import_idx, args_start, n_args\<close>
  | ICallExternal u16 u16 u16 u16 u8 bool bool   \<comment> \<open>dst, module_name_idx, fn_name_idx, args_start, n_args, is_view, is_pure\<close>
  | IMakeInterface u16 u16 u16   \<comment> \<open>dst, iface_name_idx, target_reg\<close>
  | ICallExternalDyn u16 u16 u16 u16 u8 bool bool   \<comment> \<open>dst, target_reg, fn_name_idx, args_start, n_args, is_view, is_pure\<close>
  | IReturn u16   \<comment> \<open>src\<close>
  | IReturnUnit
  | IBuiltinResource u16 u16   \<comment> \<open>dst, src\<close>
  | IBuiltinUnwrap u16 u16   \<comment> \<open>dst, src\<close>
  | IBuiltinAddress u16 u16   \<comment> \<open>dst, src\<close>
  | IBuiltinLen u16 u16   \<comment> \<open>dst, src\<close>
  | IConvert u16 u16 u8   \<comment> \<open>dst, src, target\<close>
  | IMakeArray u16 u16 u16   \<comment> \<open>dst, args_start, n\<close>
  | IArrayGet u16 u16 u16   \<comment> \<open>dst, arr, idx\<close>
  | IArrayAppend u16 u16 u16   \<comment> \<open>dst, arr, elem\<close>
  | IMakeSet u16 u16 u16   \<comment> \<open>dst, args_start, n\<close>
  | IMakeDict u16 u16 u16   \<comment> \<open>dst, args_start, n_pairs\<close>
  | IBuiltinCall u16 u16 u16 u8   \<comment> \<open>dst, name_idx, args_start, n_args\<close>
  | IMakeStruct u16 u16 u16 u16   \<comment> \<open>dst, shape_idx, args_start, n\<close>
  | IFieldGet u16 u16 u16   \<comment> \<open>dst, src, name_idx\<close>
  | IFieldSet u16 u16 u16   \<comment> \<open>dst, name_idx, val\<close>
  | IKvGet u16 u16   \<comment> \<open>dst, key_idx\<close>
  | IKvPut u16 u16   \<comment> \<open>src, key_idx\<close>
  | IKvGetPath u16 u16   \<comment> \<open>dst, path_idx\<close>
  | IKvPutPath u16 u16   \<comment> \<open>src, path_idx\<close>
  | IReadBatch u16   \<comment> \<open>group_idx\<close>
  | IPrefetchMap u16 u16   \<comment> \<open>arr_reg, state_idx\<close>
  | IEmit u16   \<comment> \<open>value\<close>
  | IParallelBegin "parallel_range list" u32   \<comment> \<open>ranges, after_pc\<close>
  | IParallelYield "u16 option"   \<comment> \<open>value\<close>
  | IParallelForBegin u32 u32 u16 u16 u16 u16 u32   \<comment> \<open>body_start, body_end, source_reg, output_reg, id_reg, idx_reg, after_pc\<close>
  | IArrayAlloc u16 u16 u16   \<comment> \<open>dst, len_reg, default_reg\<close>
  | IReserve u16 u16 u16   \<comment> \<open>dst, state_idx, count_reg\<close>
  | IParallelForSkip
  | IContext u16 u8   \<comment> \<open>dst, kind\<close>
  | IMakeTuple u16 u16 u16   \<comment> \<open>dst, args_start, n\<close>
  | ITupleGet u16 u16 u16   \<comment> \<open>dst, src, index\<close>
  | IMakeEnum u16 u16 u16 u16 u16   \<comment> \<open>dst, shape_idx, variant_idx, args_start, n\<close>
  | IEnumTag u16 u16   \<comment> \<open>dst, src\<close>
  | IEnumPayload u16 u16 u16   \<comment> \<open>dst, src, index\<close>
  | IMapGet u16 u16 u16   \<comment> \<open>dst, state_idx, key_reg\<close>
  | IMapPut u16 u16 u16   \<comment> \<open>state_idx, key_reg, src\<close>
  | IPMapGet u16 u16 u16   \<comment> \<open>dst, state_idx, key_reg\<close>
  | IPMapPut u16 u16 u16   \<comment> \<open>state_idx, key_reg, src\<close>
  | IPMapContains u16 u16 u16   \<comment> \<open>dst, state_idx, key_reg\<close>
  | IPVecGet u16 u16 u16   \<comment> \<open>dst, state_idx, idx_reg\<close>
  | IPVecSet u16 u16 u16   \<comment> \<open>state_idx, idx_reg, src\<close>
  | IPVecPush u16 u16 u16   \<comment> \<open>dst, state_idx, src\<close>
  | IPVecLen u16 u16   \<comment> \<open>dst, state_idx\<close>
  | IPMapEntries u16 u16   \<comment> \<open>dst, state_idx\<close>
  | IPMapKeys u16 u16   \<comment> \<open>dst, state_idx\<close>
  | IPMapValues u16 u16   \<comment> \<open>dst, state_idx\<close>
  | IPVecToArray u16 u16   \<comment> \<open>dst, state_idx\<close>
  | IPMapAppendUnique u16 u16 u16   \<comment> \<open>state_idx, key_reg, elem_reg\<close>
  | IPMapPutUnique u16 u16 u16   \<comment> \<open>state_idx, key_reg, src\<close>
  | IPMapWalkInit u16 u16   \<comment> \<open>dst, state_idx\<close>
  | IPMapWalkNext u16 u16 i32   \<comment> \<open>cursor_reg, value_reg, end_offset\<close>
  | IPBTreeGet u16 u16 u16   \<comment> \<open>dst, state_idx, key_reg\<close>
  | IPBTreePut u16 u16 u16   \<comment> \<open>state_idx, key_reg, src\<close>
  | IPBTreeContains u16 u16 u16   \<comment> \<open>dst, state_idx, key_reg\<close>
  | IPBTreeRange u16 u16 u16 u16   \<comment> \<open>dst, state_idx, lo_reg, hi_reg\<close>
  | IPBTreeWalkInit u16 u16   \<comment> \<open>dst, state_idx\<close>
  | IPBTreeWalkNext u16 u16 i32   \<comment> \<open>cursor_reg, value_reg, end_offset\<close>
  | IPBTreePutUnique u16 u16 u16   \<comment> \<open>state_idx, key_reg, src\<close>
  | IPBTreeAppendUnique u16 u16 u16   \<comment> \<open>state_idx, key_reg, elem_reg\<close>
  | IPMapDelete u16 u16   \<comment> \<open>state_idx, key_reg\<close>
  | IPBTreeDelete u16 u16   \<comment> \<open>state_idx, key_reg\<close>
  | IPMapRemoveUnique u16 u16 u16   \<comment> \<open>state_idx, key_reg, expected_reg\<close>
  | IPMapRemoveFromList u16 u16 u16   \<comment> \<open>state_idx, key_reg, elem_reg\<close>
  | IPBTreeRemoveUnique u16 u16 u16   \<comment> \<open>state_idx, key_reg, expected_reg\<close>
  | IPBTreeRemoveFromList u16 u16 u16   \<comment> \<open>state_idx, key_reg, elem_reg\<close>
  | IIncReg u16   \<comment> \<open>reg\<close>

record bc_fn =
  fn_name :: string
  n_params :: u16
  n_regs :: u16
  code :: "instr list"
  consts_of :: "const list"
  is_entry :: bool
  is_nore :: bool
  read_groups :: "read_op list list"
  param_types :: "ty list"
  return_type :: ty
  fn_is_view :: bool
  fn_is_pure :: bool

record path_spec =
  leaf_key :: u128
  leaf_type :: ty
  is_blob :: bool

record struct_shape =
  ss_name :: string
  field_names :: "string list"
  field_types :: "ty list"
  field_groups :: "string option list"
  is_pub :: bool

record enum_shape =
  es_name :: string
  variant_names :: "string list"

record iface_method =
  im_name :: string
  im_params :: "(string \<times> ty) list"
  im_return_type :: ty
  im_is_view :: bool
  im_is_pure :: bool

record iface_decl =
  id_name :: string
  id_methods :: "iface_method list"

record bc_module =
  mod_name :: string
  imports_of :: "string list"
  import_index :: "(string, nat) hashmap"
  state_roots :: "u128 list"
  state_types :: "ty list"
  state_defaults :: "val list"
  state_names :: "string list"
  state_index :: "(string, nat) hashmap"
  struct_shapes :: "struct_shape list"
  struct_index :: "(string, nat) hashmap"
  functions_of :: "bc_fn list"
  fn_index :: "(string, nat) hashmap"
  path_specs :: "path_spec list"
  handler_dispatch :: "(string, u16 list) hashmap"
  enum_shapes :: "enum_shape list"
  enum_index :: "(string, nat) hashmap"
  interfaces_of :: "iface_decl list"
  interface_index :: "(string, nat) hashmap"

definition root_of :: "bc_module \<Rightarrow> string \<Rightarrow> u128 option option" where
  \<comment> \<open>the outer \<open>None\<close> is the panic of an index outside \<open>state_roots\<close>\<close>
  "root_of m name = (case hm_get (state_index m) name of
     None \<Rightarrow> Some None
   | Some i \<Rightarrow> if i < length (state_roots m) then Some (Some (state_roots m ! i)) else None)"

end
