(* ===== verification/Reader.thy ===== *)
theory Reader
  imports Serialize
begin

section \<open>Reading a byte slice with a cursor\<close>

text \<open>
  The artifact decoder and the json text parser are recursive-descent readers over a byte slice and
  a position. A step is a state-passing function that returns an error or a value with the advanced
  reader; \<open>None\<close> is a panic or an exhausted recursion measure.

  \<open>reads f x b\<close>: started at the bytes \<open>b\<close>, anywhere in a longer slice, the step \<open>f\<close> returns \<open>x\<close> and
  stops right after \<open>b\<close>. \<open>returns n f\<close>: on at most \<open>n\<close> unread bytes the step returns. \<open>below f g\<close>:
  wherever \<open>f\<close> returns, \<open>g\<close> returns the same.
\<close>

record reader =
  rd_bytes :: bytes
  rd_pos :: nat

type_synonym ('e, 'a) step = "reader \<Rightarrow> ('e + 'a \<times> reader) option"

definition rd_ret :: "'a \<Rightarrow> ('e, 'a) step" where
  "rd_ret x r = Some (Inr (x, r))"

definition rd_fail :: "'e \<Rightarrow> ('e, 'a) step" where
  "rd_fail e r = Some (Inl e)"

definition rd_panic :: "('e, 'a) step" where
  "rd_panic r = None"

definition rd_bind :: "('e, 'a) step \<Rightarrow> ('a \<Rightarrow> ('e, 'b) step) \<Rightarrow> ('e, 'b) step" where
  "rd_bind f k r = (case f r of
     None \<Rightarrow> None
   | Some (Inl e) \<Rightarrow> Some (Inl e)
   | Some (Inr (x, r')) \<Rightarrow> k x r')"

definition rd_map :: "('a \<Rightarrow> 'b) \<Rightarrow> ('e, 'a) step \<Rightarrow> ('e, 'b) step" where
  "rd_map c f = rd_bind f (\<lambda>x. rd_ret (c x))"

primrec read_n :: "nat \<Rightarrow> ('e, 'a) step \<Rightarrow> ('e, 'a list) step" where
  "read_n 0 f = rd_ret []"
| "read_n (Suc n) f = rd_bind f (\<lambda>x. rd_bind (read_n n f) (\<lambda>xs. rd_ret (x # xs)))"

definition reader_new :: "bytes \<Rightarrow> reader" where
  "reader_new bs = \<lparr>rd_bytes = bs, rd_pos = 0\<rparr>"

subsection \<open>Reading what was written\<close>

named_theorems wire_intros \<open>decoding steps that read what was written\<close>

definition reads :: "('e, 'a) step \<Rightarrow> 'a \<Rightarrow> bytes \<Rightarrow> bool" where
  "reads f x b \<longleftrightarrow> (\<forall>pre rest. f \<lparr>rd_bytes = pre @ b @ rest, rd_pos = length pre\<rparr>
     = Some (Inr (x, \<lparr>rd_bytes = pre @ b @ rest, rd_pos = length pre + length b\<rparr>)))"

lemma reads_ret [wire_intros]: "reads (rd_ret x) x []"
  by (simp add: reads_def rd_ret_def)

lemma reads_bind:
  assumes "reads f x b" and "reads (k x) y c"
  shows "reads (rd_bind f k) y (b @ c)"
  unfolding reads_def
proof (intro allI)
  fix pre rest
  have "f \<lparr>rd_bytes = pre @ b @ c @ rest, rd_pos = length pre\<rparr>
      = Some (Inr (x, \<lparr>rd_bytes = pre @ b @ c @ rest, rd_pos = length pre + length b\<rparr>))"
    using assms(1) by (simp add: reads_def)
  moreover have "k x \<lparr>rd_bytes = (pre @ b) @ c @ rest, rd_pos = length (pre @ b)\<rparr>
      = Some (Inr (y, \<lparr>rd_bytes = (pre @ b) @ c @ rest, rd_pos = length (pre @ b) + length c\<rparr>))"
    using assms(2) unfolding reads_def by blast
  ultimately show "rd_bind f k \<lparr>rd_bytes = pre @ (b @ c) @ rest, rd_pos = length pre\<rparr>
      = Some (Inr (y, \<lparr>rd_bytes = pre @ (b @ c) @ rest, rd_pos = length pre + length (b @ c)\<rparr>))"
    by (simp add: rd_bind_def add.assoc)
qed

lemma reads_map: "reads f x b \<Longrightarrow> reads (rd_map c f) (c x) b"
  unfolding rd_map_def using reads_bind [OF _ reads_ret, of f x b "\<lambda>x. rd_ret (c x)"] 
  by (simp add: reads_def rd_bind_def rd_ret_def)

lemma reads_n: "(\<And>x. x \<in> set xs \<Longrightarrow> reads f (g x) (w x)) \<Longrightarrow> reads (read_n (length xs) f) (map g xs) (concat (map w xs))"
proof (induction xs)
  case Nil
  then show ?case by (simp add: reads_ret)
next
  case (Cons x xs)
  then have "reads (rd_bind (read_n (length xs) f) (\<lambda>ys. rd_ret (g x # ys))) (g x # map g xs) (concat (map w xs))"
    by (intro reads_map [unfolded rd_map_def]) simp
  with Cons.prems have "reads (rd_bind f (\<lambda>y. rd_bind (read_n (length xs) f) (\<lambda>ys. rd_ret (y # ys))))
      (g x # map g xs) (w x @ concat (map w xs))"
    by (intro reads_bind [where x = "g x"]) simp_all
  then show ?case by simp
qed

subsection \<open>Totality\<close>

definition unread :: "reader \<Rightarrow> nat" where
  "unread r = length (rd_bytes r) - rd_pos r"

definition returns :: "nat \<Rightarrow> ('e, 'a) step \<Rightarrow> bool" where
  \<comment> \<open>on at most \<open>n\<close> unread bytes the step returns, and does not move backwards\<close>
  "returns n f \<longleftrightarrow> (\<forall>r. unread r \<le> n \<longrightarrow>
     (\<exists>e. f r = Some (Inl e)) \<or> (\<exists>x r'. f r = Some (Inr (x, r')) \<and> unread r' \<le> unread r))"

named_theorems total_intros \<open>decoding steps that return\<close>

lemma returns_ret [total_intros]: "returns n (rd_ret x)"
  by (simp add: returns_def rd_ret_def)

lemma returns_fail [total_intros]: "returns n (rd_fail e)"
  by (simp add: returns_def rd_fail_def)

lemma returns_bind [total_intros]:
  assumes "returns n f" and "\<And>x. returns n (k x)"
  shows "returns n (rd_bind f k)"
  unfolding returns_def
proof (intro allI impI)
  fix r assume r: "unread r \<le> n"
  from assms(1) [unfolded returns_def, rule_format, OF r]
  show "(\<exists>e. rd_bind f k r = Some (Inl e)) \<or> (\<exists>x r'. rd_bind f k r = Some (Inr (x, r')) \<and> unread r' \<le> unread r)"
  proof (elim disjE exE conjE)
    fix x r1 assume x: "f r = Some (Inr (x, r1))" "unread r1 \<le> unread r"
    then have "unread r1 \<le> n" using r by simp
    from assms(2) [unfolded returns_def, rule_format, OF this, of x] x show ?thesis
      by (fastforce simp: rd_bind_def)
  qed (simp add: rd_bind_def)
qed

lemma returns_map [total_intros]: "returns n f \<Longrightarrow> returns n (rd_map c f)"
  by (simp add: rd_map_def returns_bind returns_ret)

lemma returns_if [total_intros]: "returns n f \<Longrightarrow> returns n g \<Longrightarrow> returns n (if b then f else g)"
  by simp

lemma returns_read_n [total_intros]: "returns n f \<Longrightarrow> returns n (read_n k f)"
  by (induction k) (simp_all add: total_intros)

subsection \<open>Agreement where the first step returns\<close>

definition below :: "('e, 'a) step \<Rightarrow> ('e, 'a) step \<Rightarrow> bool" where
  "below f g \<longleftrightarrow> (\<forall>r. f r \<noteq> None \<longrightarrow> g r = f r)"

named_theorems below_intros \<open>readers that agree where the first returns\<close>

lemma below_refl [below_intros]: "below f f"
  by (simp add: below_def)

lemma below_bind [below_intros]: "below f f' \<Longrightarrow> (\<And>x. below (k x) (k' x)) \<Longrightarrow> below (rd_bind f k) (rd_bind f' k')"
  unfolding below_def rd_bind_def by (fastforce split: option.splits sum.splits)

lemma below_map [below_intros]: "below f f' \<Longrightarrow> below (rd_map c f) (rd_map c f')"
  unfolding rd_map_def by (intro below_intros)

lemma below_if [below_intros]: "below f f' \<Longrightarrow> below g g' \<Longrightarrow> below (if b then f else g) (if b then f' else g')"
  by simp

lemma below_n [below_intros]: "below f f' \<Longrightarrow> below (read_n k f) (read_n k f')"
  by (induction k) (simp_all add: below_intros)

end
