(* ===== verification/Wire.thy ===== *)
theory Wire
  imports Bytecode Reader
begin

section \<open>The reader of an artifact and its primitives\<close>

text \<open>
  \<^verbatim>\<open>Reader\<close> of \<^verbatim>\<open>crates/rend/src/artifact.rs\<close> and the low-level \<^verbatim>\<open>write_*\<close> / \<^verbatim>\<open>read_*\<close> functions.
  A decoding step returns the error of \<^verbatim>\<open>decode_err\<close>; it panics only on a truncated state default,
  inside \<^verbatim>\<open>serialize::deserialize\<close>.

  The locale \<open>wire_codec\<close> is the contract between a writer and a reader of the format; every pair
  the artifact uses interprets it, and lists and options of such pairs are codecs again.
\<close>

datatype decode_error =
    Truncated nat nat nat          \<comment> \<open>needed, offset, had\<close>
  | InvalidUtf8
  | UnknownConstTag u8
  | UnknownReadOpTag u8
  | UnknownTypeTag u8
  | UnknownBinop u8
  | UnknownUnop u8
  | UnknownInstrTag u8
  | BadStateDefault
  | BadMagic
  | UnsupportedVersion u8 u8
  | TrailingBytes nat

type_synonym 'a rd = "(decode_error, 'a) step"

subsection \<open>Primitives\<close>

definition take_bytes :: "nat \<Rightarrow> bytes rd" where
  "take_bytes n r = Some (
     if length (rd_bytes r) < rd_pos r + n
     then Inl (Truncated n (rd_pos r) (length (rd_bytes r) - rd_pos r))
     else Inr (take n (drop (rd_pos r) (rd_bytes r)), r\<lparr>rd_pos := rd_pos r + n\<rparr>))"

definition read_u8 :: "u8 rd" where
  "read_u8 = rd_map (\<lambda>b. b ! 0) (take_bytes 1)"

definition read_u16 :: "u16 rd" where
  "read_u16 = rd_map (\<lambda>b. of_nat (be_val b)) (take_bytes 2)"

definition rd_u32 :: "u32 rd" where
  "rd_u32 = rd_map (\<lambda>b. of_nat (be_val b)) (take_bytes 4)"

definition read_u64 :: "u64 rd" where
  "read_u64 = rd_map (\<lambda>b. of_nat (be_val b)) (take_bytes 8)"

definition read_u128 :: "u128 rd" where
  "read_u128 = rd_map (\<lambda>b. of_nat (be_val b)) (take_bytes 16)"

definition read_i32 :: "i32 rd" where
  "read_i32 = rd_map (\<lambda>b. of_nat (be_val b)) (take_bytes 4)"

definition read_flag :: "bool rd" where
  \<comment> \<open>\<^verbatim>\<open>r.read_u8()? != 0\<close>\<close>
  "read_flag = rd_map (\<lambda>b. b \<noteq> 0) read_u8"

definition read_opt :: "'a rd \<Rightarrow> 'a option rd" where
  \<comment> \<open>a presence byte, then the value when the byte is not zero\<close>
  "read_opt f = rd_bind read_flag (\<lambda>has. if has then rd_map Some f else rd_ret None)"

definition read_vec :: "'a rd \<Rightarrow> 'a list rd" where
  "read_vec f = rd_bind rd_u32 (\<lambda>n. read_n (unat n) f)"

definition read_str :: "string rd" where
  "read_str = rd_bind rd_u32 (\<lambda>len. rd_bind (take_bytes (unat len)) (\<lambda>b.
     case from_utf8 b of Some s \<Rightarrow> rd_ret s | None \<Rightarrow> rd_fail InvalidUtf8))"

definition write_u8 :: "u8 \<Rightarrow> bytes" where
  "write_u8 v = [v]"

definition write_u16 :: "u16 \<Rightarrow> bytes" where
  "write_u16 v = be_bytes 2 (unat v)"

definition write_u32 :: "u32 \<Rightarrow> bytes" where
  "write_u32 v = be_bytes 4 (unat v)"

definition write_u64 :: "u64 \<Rightarrow> bytes" where
  "write_u64 v = be_bytes 8 (unat v)"

definition write_u128 :: "u128 \<Rightarrow> bytes" where
  "write_u128 v = be_bytes 16 (unat v)"

definition write_i32 :: "i32 \<Rightarrow> bytes" where
  "write_i32 v = be_bytes 4 (unat v)"

definition write_flag :: "bool \<Rightarrow> bytes" where
  "write_flag b = [if b then 1 else 0]"

primrec write_opt :: "('a \<Rightarrow> bytes) \<Rightarrow> 'a option \<Rightarrow> bytes" where
  "write_opt w None = [0]"
| "write_opt w (Some x) = 1 # w x"

definition write_vec :: "('a \<Rightarrow> bytes) \<Rightarrow> 'a list \<Rightarrow> bytes" where
  "write_vec w xs = u32_be (length xs) @ concat (map w xs)"

definition write_str :: "string \<Rightarrow> bytes" where
  "write_str s = u32_be (length (as_bytes s)) @ as_bytes s"

subsection \<open>Reading what was written\<close>

lemma reads_take: "length b = n \<Longrightarrow> reads (take_bytes n) b b"
  by (auto simp: reads_def take_bytes_def)

lemma reads_word:
  assumes "LENGTH('a::len) = 8 * n"
  shows "reads (rd_map (\<lambda>b. of_nat (be_val b) :: 'a word) (take_bytes n)) v (be_bytes n (unat v))"
proof -
  have "unat v < 2 ^ LENGTH('a)" by (rule unsigned_less)
  also have "(2::nat) ^ LENGTH('a) = 256 ^ n" by (simp add: assms power_mult)
  finally have "of_nat (be_val (be_bytes n (unat v))) = v" by (simp add: be_val_be_bytes)
  moreover have "reads (rd_map (\<lambda>b. of_nat (be_val b) :: 'a word) (take_bytes n))
      (of_nat (be_val (be_bytes n (unat v)))) (be_bytes n (unat v))"
    by (intro reads_map reads_take) simp
  ultimately show ?thesis by simp
qed

lemma reads_u8 [wire_intros]: "reads read_u8 v [v]"
  unfolding read_u8_def using reads_map [OF reads_take [of "[v]" 1], of "\<lambda>b. b ! 0"] by simp

lemma reads_tag: "reads (k tag) x b \<Longrightarrow> reads (rd_bind read_u8 k) x (tag # b)"
  using reads_bind [OF reads_u8] by fastforce

lemma reads_u32_be: "n < 2 ^ 32 \<Longrightarrow> reads (k (of_nat n)) x b \<Longrightarrow> reads (rd_bind rd_u32 k) x (u32_be n @ b)"
  unfolding rd_u32_def
  by (rule reads_bind) (use reads_word [where n = 4 and v = "of_nat n :: u32"] in
      \<open>simp_all add: u32_be_def unat_of_nat\<close>)

lemma reads_str [wire_intros]:
  assumes "utf8_str s"
  shows "reads read_str s (write_str s)"
  unfolding read_str_def write_str_def
proof (rule reads_u32_be)
  let ?k = "\<lambda>b. case from_utf8 b of Some s \<Rightarrow> rd_ret s | None \<Rightarrow> rd_fail InvalidUtf8"
  show "length (as_bytes s) < 2 ^ 32" using assms by (simp add: utf8_str_def)
  then have "reads (take_bytes (unat (of_nat (length (as_bytes s)) :: u32))) (as_bytes s) (as_bytes s)"
    by (intro reads_take) (simp add: unat_of_nat)
  moreover have "reads (?k (as_bytes s)) s []"
    using assms by (simp add: utf8_str_def from_utf8_as_bytes reads_ret)
  ultimately show "reads (rd_bind (take_bytes (unat (of_nat (length (as_bytes s)) :: u32))) ?k) s (as_bytes s)"
    using reads_bind by fastforce
qed

lemma reads_vec_of:
  assumes "\<And>x. x \<in> set xs \<Longrightarrow> reads f (g x) (w x)" and "length xs < 2 ^ 32"
  shows "reads (read_vec f) (map g xs) (u32_be (length xs) @ concat (map w xs))"
  unfolding read_vec_def using assms(2) reads_n [OF assms(1)]
  by (intro reads_u32_be) (simp_all add: unat_of_nat)

subsection \<open>The contract of a writer and a reader\<close>

text \<open>\<open>nrm\<close> is what the format forgets: a value is read back as its normal form.\<close>

locale wire_codec =
  fixes w :: "'a \<Rightarrow> bytes" and f :: "'a rd" and ok :: "'a \<Rightarrow> bool" and nrm :: "'a \<Rightarrow> 'a"
  assumes reads_back: "ok x \<Longrightarrow> reads f (nrm x) (w x)"
begin

lemma reads_vec: "list_all ok xs \<Longrightarrow> length xs < 2 ^ 32 \<Longrightarrow> reads (read_vec f) (map nrm xs) (write_vec w xs)"
  unfolding write_vec_def by (rule reads_vec_of) (auto simp: list_all_iff reads_back)

lemma reads_opt: "pred_option ok x \<Longrightarrow> reads (read_opt f) (map_option nrm x) (write_opt w x)"
proof (cases x)
  case None
  have "reads (rd_bind read_flag (\<lambda>has. if has then rd_map Some f else rd_ret None)) None ([0] @ [])"
    by (rule reads_bind [where x = False])
       (use reads_map [OF reads_u8, of "\<lambda>b. b \<noteq> 0" 0] in \<open>simp_all add: read_flag_def reads_ret\<close>)
  then show ?thesis by (simp add: None read_opt_def)
next
  case (Some y)
  assume "pred_option ok x"
  then have y: "reads f (nrm y) (w y)" by (simp add: Some reads_back)
  have "reads (rd_bind read_flag (\<lambda>has. if has then rd_map Some f else rd_ret None)) (Some (nrm y)) ([1] @ w y)"
    by (rule reads_bind [where x = True])
       (use reads_map [OF reads_u8, of "\<lambda>b. b \<noteq> 0" 1] y in \<open>simp_all add: read_flag_def reads_map\<close>)
  then show ?thesis by (simp add: Some read_opt_def)
qed

lemma reads_self: "ok x \<Longrightarrow> nrm x = x \<Longrightarrow> reads f x (w x)"
  using reads_back [of x] by simp

end

interpretation u8_wire: wire_codec write_u8 read_u8 "\<lambda>_. True" id
  by unfold_locales (simp add: write_u8_def reads_u8)

interpretation u16_wire: wire_codec write_u16 read_u16 "\<lambda>_. True" id
  by unfold_locales (simp add: write_u16_def read_u16_def reads_word)

interpretation u32_wire: wire_codec write_u32 rd_u32 "\<lambda>_. True" id
  by unfold_locales (simp add: write_u32_def rd_u32_def reads_word)

interpretation u64_wire: wire_codec write_u64 read_u64 "\<lambda>_. True" id
  by unfold_locales (simp add: write_u64_def read_u64_def reads_word)

interpretation u128_wire: wire_codec write_u128 read_u128 "\<lambda>_. True" id
  by unfold_locales (simp add: write_u128_def read_u128_def reads_word)

interpretation i32_wire: wire_codec write_i32 read_i32 "\<lambda>_. True" id
  by unfold_locales (simp add: write_i32_def read_i32_def reads_word)

interpretation flag_wire: wire_codec write_flag read_flag "\<lambda>_. True" id
proof
  fix b :: bool
  show "reads read_flag (id b) (write_flag b)"
    using reads_map [OF reads_u8, of "\<lambda>b. b \<noteq> 0" "if b then 1 else 0"]
    by (cases b) (simp_all add: read_flag_def write_flag_def)
qed

interpretation str_wire: wire_codec write_str read_str utf8_str id
  by unfold_locales (simp add: reads_str)

lemmas wire_prims [wire_intros] =
  u8_wire.reads_self [OF TrueI id_apply] u16_wire.reads_self [OF TrueI id_apply]
  u32_wire.reads_self [OF TrueI id_apply] u64_wire.reads_self [OF TrueI id_apply]
  u128_wire.reads_self [OF TrueI id_apply] i32_wire.reads_self [OF TrueI id_apply]
  flag_wire.reads_self [OF TrueI id_apply]

end
