(* ===== verification/Artifact.thy ===== *)
theory Artifact
  imports Wire
begin

section \<open>The artifact format\<close>

text \<open>
  \<^verbatim>\<open>encode\<close> and \<^verbatim>\<open>decode\<close> of \<^verbatim>\<open>crates/rend/src/artifact.rs\<close>, with the writer and the reader of every
  part: constants, batched reads, types, operators, the 78 instructions, functions and modules.
  A writer returns the bytes the code appends to \<^verbatim>\<open>out\<close>; \<open>write_module\<close> returns \<open>None\<close> where the code
  panics (a struct shape whose field lists have different lengths, a default value that cannot be
  serialized). The recursion of \<^verbatim>\<open>read_type\<close> is bounded by the bytes that are left, one of which every
  call consumes. The reserved capacity of a \<^verbatim>\<open>Vec::with_capacity\<close> is not modelled.
\<close>

subsection \<open>Constants, batched reads and operators\<close>

primrec write_const :: "bigint_lib \<Rightarrow> const \<Rightarrow> bytes" where
  "write_const L (CInt n) = 0x01 # u32_be (length (to_signed_bytes_be L n)) @ to_signed_bytes_be L n"
| "write_const L (CUInt n) = 0x08 # u32_be (length (to_signed_bytes_be L n)) @ to_signed_bytes_be L n"
| "write_const L (CFloat n) = 0x09 # be_bytes 8 (unat n)"
| "write_const L (CI32 n) = 0x02 # write_i32 n"
| "write_const L (CU32 n) = 0x03 # write_u32 n"
| "write_const L (CU64 n) = 0x04 # write_u64 n"
| "write_const L (CU128 n) = 0x05 # write_u128 n"
| "write_const L (CBool b) = 0x06 # write_flag b"
| "write_const L (CStr s) = 0x07 # write_str s"

definition read_bigint :: "bigint_lib \<Rightarrow> int rd" where
  "read_bigint L = rd_bind rd_u32 (\<lambda>n. rd_map (from_signed_bytes_be L) (take_bytes (unat n)))"

definition read_const :: "bigint_lib \<Rightarrow> const rd" where
  "read_const L = rd_bind read_u8 (\<lambda>tag.
     if tag = 0x01 then rd_map CInt (read_bigint L)
     else if tag = 0x08 then rd_map CUInt (read_bigint L)
     else if tag = 0x09 then rd_map (\<lambda>b. CFloat (of_nat (be_val b))) (take_bytes 8)
     else if tag = 0x02 then rd_map CI32 read_i32
     else if tag = 0x03 then rd_map CU32 rd_u32
     else if tag = 0x04 then rd_map CU64 read_u64
     else if tag = 0x05 then rd_map CU128 read_u128
     else if tag = 0x06 then rd_map CBool read_flag
     else if tag = 0x07 then rd_map CStr read_str
     else rd_fail (UnknownConstTag tag))"

primrec write_read_op :: "read_op \<Rightarrow> bytes" where
  "write_read_op (RState dst key_idx) = 0x01 # write_u16 dst @ write_u16 key_idx"
| "write_read_op (RPath dst path_idx) = 0x02 # write_u16 dst @ write_u16 path_idx"

definition read_read_op :: "read_op rd" where
  "read_read_op = rd_bind read_u8 (\<lambda>tag.
     if tag = 0x01 then rd_bind read_u16 (\<lambda>dst. rd_map (RState dst) read_u16)
     else if tag = 0x02 then rd_bind read_u16 (\<lambda>dst. rd_map (RPath dst) read_u16)
     else rd_fail (UnknownReadOpTag tag))"

primrec binop_to_byte :: "binop \<Rightarrow> u8" where
  "binop_to_byte BAdd = 0x01"
| "binop_to_byte BSub = 0x02"
| "binop_to_byte BMul = 0x03"
| "binop_to_byte BDiv = 0x04"
| "binop_to_byte BMod = 0x05"
| "binop_to_byte BEq = 0x06"
| "binop_to_byte BNotEq = 0x07"
| "binop_to_byte BLt = 0x08"
| "binop_to_byte BGt = 0x09"
| "binop_to_byte BLtEq = 0x0a"
| "binop_to_byte BGtEq = 0x0b"
| "binop_to_byte BAnd = 0x0c"
| "binop_to_byte BOr = 0x0d"
| "binop_to_byte BBitAnd = 0x0e"
| "binop_to_byte BBitOr = 0x0f"
| "binop_to_byte BBitXor = 0x10"
| "binop_to_byte BShl = 0x11"
| "binop_to_byte BShr = 0x12"

definition binop_from_byte :: "u8 \<Rightarrow> binop rd" where
  "binop_from_byte b =
     (if b = 0x01 then rd_ret BAdd else if b = 0x02 then rd_ret BSub else if b = 0x03 then rd_ret BMul
      else if b = 0x04 then rd_ret BDiv else if b = 0x05 then rd_ret BMod else if b = 0x06 then rd_ret BEq
      else if b = 0x07 then rd_ret BNotEq else if b = 0x08 then rd_ret BLt else if b = 0x09 then rd_ret BGt
      else if b = 0x0a then rd_ret BLtEq else if b = 0x0b then rd_ret BGtEq else if b = 0x0c then rd_ret BAnd
      else if b = 0x0d then rd_ret BOr else if b = 0x0e then rd_ret BBitAnd else if b = 0x0f then rd_ret BBitOr
      else if b = 0x10 then rd_ret BBitXor else if b = 0x11 then rd_ret BShl else if b = 0x12 then rd_ret BShr
      else rd_fail (UnknownBinop b))"

primrec unop_to_byte :: "unop \<Rightarrow> u8" where
  "unop_to_byte UNeg = 0x01"
| "unop_to_byte UNot = 0x02"

definition unop_from_byte :: "u8 \<Rightarrow> unop rd" where
  "unop_from_byte b =
     (if b = 0x01 then rd_ret UNeg else if b = 0x02 then rd_ret UNot else rd_fail (UnknownUnop b))"

definition read_binop :: "binop rd" where
  "read_binop = rd_bind read_u8 binop_from_byte"

definition read_unop :: "unop rd" where
  "read_unop = rd_bind read_u8 unop_from_byte"

subsection \<open>Types\<close>

definition group_at_index :: "string option list \<Rightarrow> nat \<Rightarrow> string option" where
  \<comment> \<open>\<^verbatim>\<open>field_groups.get(i).and_then(|g| g.as_ref())\<close>\<close>
  "group_at_index gs i = (if i < length gs then gs ! i else None)"

fun write_type :: "ty \<Rightarrow> bytes" and write_method :: "method_sig \<Rightarrow> bytes" where
  "write_type TInt = [0x01]"
| "write_type TUInt = [0x1d]"
| "write_type TFloat = [0x1e]"
| "write_type TI32 = [0x02]"
| "write_type TU32 = [0x03]"
| "write_type TU64 = [0x04]"
| "write_type TU128 = [0x05]"
| "write_type TBool = [0x06]"
| "write_type TUnit = [0x07]"
| "write_type TResource = [0x08]"
| "write_type TString = [0x09]"
| "write_type TAddress = [0x0a]"
| "write_type TBytes = [0x0b]"
| "write_type (TArray elem) = 0x10 # write_type elem"
| "write_type (TExplicitLiteral inner) = write_type inner"
| "write_type (TSet elem) = 0x11 # write_type elem"
| "write_type (TDict key v) = 0x12 # write_type key @ write_type v"
| "write_type (TMap key v) = 0x13 # write_type key @ write_type v"
| "write_type (TPMap key v) = 0x17 # write_type key @ write_type v"
| "write_type (TPBTree key v) = 0x1b # write_type key @ write_type v"
| "write_type TJson = [0x1c]"
| "write_type (TPVec elem) = 0x18 # write_type elem"
| "write_type (TStruct name flds groups) =
     0x14 # write_str name @ u32_be (length flds)
       @ concat (map2 (\<lambda>b i. b @ write_opt write_str (group_at_index groups i))
           (map (\<lambda>f. write_str (fst f) @ write_type (snd f)) flds) [0..<length flds])"
| "write_type (TTuple elems) = 0x15 # u32_be (length elems) @ concat (map write_type elems)"
| "write_type (TEnum name variants) =
     0x16 # write_str name @ u32_be (length variants)
       @ concat (map (\<lambda>v. write_str (fst v) @ u32_be (length (snd v)) @ concat (map write_type (snd v))) variants)"
| "write_type (TCap name flds owner_module) =
     0x19 # write_str name @ write_str owner_module @ u32_be (length flds)
       @ concat (map (\<lambda>f. write_str (fst f) @ write_type (snd f)) flds)"
| "write_type (TInterface name methods) =
     0x1a # write_str name @ u32_be (length methods) @ concat (map write_method methods)"
| "write_method (MethodSig name params return_ty is_view is_pure) =
     write_str name @ write_flag is_view @ write_flag is_pure
       @ u32_be (length params) @ concat (map write_type params) @ write_type return_ty"

definition read_field :: "'a rd \<Rightarrow> (string \<times> 'a) rd" where
  "read_field f = rd_bind read_str (\<lambda>name. rd_map (Pair name) f)"

definition read_struct_field :: "ty rd \<Rightarrow> ((string \<times> ty) \<times> string option) rd" where
  "read_struct_field f = rd_bind (read_field f) (\<lambda>field. rd_map (Pair field) (read_opt read_str))"

definition normal_groups :: "string option list \<Rightarrow> string option list" where
  "normal_groups gs = (if list_all (\<lambda>g. g = None) gs then [] else gs)"

definition mk_struct :: "string \<Rightarrow> ((string \<times> ty) \<times> string option) list \<Rightarrow> ty" where
  "mk_struct name fs = TStruct name (map fst fs) (normal_groups (map snd fs))"

definition read_method :: "ty rd \<Rightarrow> method_sig rd" where
  "read_method f = rd_bind read_str (\<lambda>name. rd_bind read_flag (\<lambda>is_view. rd_bind read_flag (\<lambda>is_pure.
     rd_bind (read_vec f) (\<lambda>params. rd_map (\<lambda>ret. MethodSig name params ret is_view is_pure) f))))"

definition read_pair :: "('a \<Rightarrow> 'b \<Rightarrow> 'c) \<Rightarrow> 'a rd \<Rightarrow> 'b rd \<Rightarrow> 'c rd" where
  "read_pair c f g = rd_bind f (\<lambda>x. rd_map (c x) g)"

definition read_type_tagged :: "ty rd \<Rightarrow> u8 \<Rightarrow> ty rd" where
  \<comment> \<open>the match on the tag; \<open>f\<close> is the recursive call\<close>
  "read_type_tagged f tag =
    (if tag = 0x01 then rd_ret TInt
     else if tag = 0x1d then rd_ret TUInt
     else if tag = 0x1e then rd_ret TFloat
     else if tag = 0x02 then rd_ret TI32
     else if tag = 0x03 then rd_ret TU32
     else if tag = 0x04 then rd_ret TU64
     else if tag = 0x05 then rd_ret TU128
     else if tag = 0x06 then rd_ret TBool
     else if tag = 0x07 then rd_ret TUnit
     else if tag = 0x08 then rd_ret TResource
     else if tag = 0x09 then rd_ret TString
     else if tag = 0x0a then rd_ret TAddress
     else if tag = 0x0b then rd_ret TBytes
     else if tag = 0x10 then rd_map TArray f
     else if tag = 0x11 then rd_map TSet f
     else if tag = 0x12 then read_pair TDict f f
     else if tag = 0x13 then read_pair TMap f f
     else if tag = 0x17 then read_pair TPMap f f
     else if tag = 0x1b then read_pair TPBTree f f
     else if tag = 0x1c then rd_ret TJson
     else if tag = 0x18 then rd_map TPVec f
     else if tag = 0x14 then rd_bind read_str (\<lambda>name. rd_map (mk_struct name) (read_vec (read_struct_field f)))
     else if tag = 0x15 then rd_map TTuple (read_vec f)
     else if tag = 0x16 then rd_bind read_str (\<lambda>name. rd_map (TEnum name) (read_vec (read_field (read_vec f))))
     else if tag = 0x19 then rd_bind read_str (\<lambda>name. rd_bind read_str (\<lambda>owner_module.
        rd_map (\<lambda>flds. TCap name flds owner_module) (read_vec (read_field f))))
     else if tag = 0x1a then rd_bind read_str (\<lambda>name. rd_map (TInterface name) (read_vec (read_method f)))
     else rd_fail (UnknownTypeTag tag))"

primrec read_type_n :: "nat \<Rightarrow> ty rd" where
  "read_type_n 0 = rd_panic"
| "read_type_n (Suc n) = rd_bind read_u8 (read_type_tagged (read_type_n n))"

definition read_type :: "ty rd" where
  "read_type r = read_type_n (Suc (length (rd_bytes r) - rd_pos r)) r"

subsection \<open>Instructions\<close>

definition write_parallel_range :: "parallel_range \<Rightarrow> bytes" where
  "write_parallel_range p = write_u32 (pr_start p) @ write_u32 (pr_end p) @ write_opt write_u16 (pr_dst p)"

definition read_parallel_range :: "parallel_range rd" where
  "read_parallel_range = rd_bind rd_u32 (\<lambda>s. rd_bind rd_u32 (\<lambda>e.
     rd_map (\<lambda>d. \<lparr>pr_start = s, pr_end = e, pr_dst = d\<rparr>) (read_opt read_u16)))"

primrec write_instr :: "instr \<Rightarrow> bytes" where
  "write_instr (ILoadConst dst idx) = 0x01 # write_u16 dst @ write_u16 idx"
| "write_instr (IMove dst src) = 0x02 # write_u16 dst @ write_u16 src"
| "write_instr (IBin bop dst lhs rhs) = 0x03 # [binop_to_byte bop] @ write_u16 dst @ write_u16 lhs @ write_u16 rhs"
| "write_instr (IUn bop dst src) = 0x04 # [unop_to_byte bop] @ write_u16 dst @ write_u16 src"
| "write_instr (IJump offset) = 0x05 # write_i32 offset"
| "write_instr (IJumpIfFalse cond offset) = 0x06 # write_u16 cond @ write_i32 offset"
| "write_instr (ICall dst fn_idx args_start n_args) = 0x07 # write_u16 dst @ write_u16 fn_idx @ write_u16 args_start @ write_u8 n_args"
| "write_instr (ICallHost dst import_idx args_start n_args) = 0x08 # write_u16 dst @ write_u16 import_idx @ write_u16 args_start @ write_u8 n_args"
| "write_instr (ICallExternal dst module_name_idx fn_name_idx args_start n_args is_view is_pure) = 0x09 # write_u16 dst @ write_u16 module_name_idx @ write_u16 fn_name_idx @ write_u16 args_start @ write_u8 n_args @ write_flag is_view @ write_flag is_pure"
| "write_instr (IMakeInterface dst iface_name_idx target_reg) = 0x32 # write_u16 dst @ write_u16 iface_name_idx @ write_u16 target_reg"
| "write_instr (ICallExternalDyn dst target_reg fn_name_idx args_start n_args is_view is_pure) = 0x31 # write_u16 dst @ write_u16 target_reg @ write_u16 fn_name_idx @ write_u16 args_start @ write_u8 n_args @ write_flag is_view @ write_flag is_pure"
| "write_instr (IReturn src) = 0x0a # write_u16 src"
| "write_instr IReturnUnit = [0x0b]"
| "write_instr (IBuiltinResource dst src) = 0x0c # write_u16 dst @ write_u16 src"
| "write_instr (IBuiltinUnwrap dst src) = 0x0d # write_u16 dst @ write_u16 src"
| "write_instr (IBuiltinAddress dst src) = 0x0e # write_u16 dst @ write_u16 src"
| "write_instr (IBuiltinLen dst src) = 0x0f # write_u16 dst @ write_u16 src"
| "write_instr (IConvert dst src target) = 0x10 # write_u16 dst @ write_u16 src @ write_u8 target"
| "write_instr (IMakeArray dst args_start n) = 0x11 # write_u16 dst @ write_u16 args_start @ write_u16 n"
| "write_instr (IArrayGet dst arr idx) = 0x12 # write_u16 dst @ write_u16 arr @ write_u16 idx"
| "write_instr (IArrayAppend dst arr elem) = 0x13 # write_u16 dst @ write_u16 arr @ write_u16 elem"
| "write_instr (IMakeSet dst args_start n) = 0x14 # write_u16 dst @ write_u16 args_start @ write_u16 n"
| "write_instr (IMakeDict dst args_start n_pairs) = 0x15 # write_u16 dst @ write_u16 args_start @ write_u16 n_pairs"
| "write_instr (IBuiltinCall dst name_idx args_start n_args) = 0x16 # write_u16 dst @ write_u16 name_idx @ write_u16 args_start @ write_u8 n_args"
| "write_instr (IMakeStruct dst shape_idx args_start n) = 0x17 # write_u16 dst @ write_u16 shape_idx @ write_u16 args_start @ write_u16 n"
| "write_instr (IFieldGet dst src name_idx) = 0x18 # write_u16 dst @ write_u16 src @ write_u16 name_idx"
| "write_instr (IFieldSet dst name_idx v) = 0x19 # write_u16 dst @ write_u16 name_idx @ write_u16 v"
| "write_instr (IKvGet dst key_idx) = 0x1a # write_u16 dst @ write_u16 key_idx"
| "write_instr (IKvPut src key_idx) = 0x1b # write_u16 src @ write_u16 key_idx"
| "write_instr (IKvGetPath dst path_idx) = 0x1c # write_u16 dst @ write_u16 path_idx"
| "write_instr (IKvPutPath src path_idx) = 0x1d # write_u16 src @ write_u16 path_idx"
| "write_instr (IReadBatch group_idx) = 0x1e # write_u16 group_idx"
| "write_instr (IPrefetchMap arr_reg state_idx) = 0x1f # write_u16 arr_reg @ write_u16 state_idx"
| "write_instr (IEmit v) = 0x20 # write_u16 v"
| "write_instr (IParallelBegin ranges after_pc) = 0x49 # write_vec write_parallel_range ranges @ write_u32 after_pc"
| "write_instr (IParallelYield v) = 0x4a # write_opt write_u16 v"
| "write_instr (IParallelForBegin body_start body_end source_reg output_reg id_reg idx_reg after_pc) = 0x4b # write_u32 body_start @ write_u32 body_end @ write_u16 source_reg @ write_u16 output_reg @ write_u16 id_reg @ write_u16 idx_reg @ write_u32 after_pc"
| "write_instr (IArrayAlloc dst len_reg default_reg) = 0x4c # write_u16 dst @ write_u16 len_reg @ write_u16 default_reg"
| "write_instr (IReserve dst state_idx count_reg) = 0x4d # write_u16 dst @ write_u16 state_idx @ write_u16 count_reg"
| "write_instr IParallelForSkip = [0x4e]"
| "write_instr (IContext dst kind) = 0x21 # write_u16 dst @ write_u8 kind"
| "write_instr (IMakeTuple dst args_start n) = 0x22 # write_u16 dst @ write_u16 args_start @ write_u16 n"
| "write_instr (ITupleGet dst src index) = 0x23 # write_u16 dst @ write_u16 src @ write_u16 index"
| "write_instr (IMakeEnum dst shape_idx variant_idx args_start n) = 0x24 # write_u16 dst @ write_u16 shape_idx @ write_u16 variant_idx @ write_u16 args_start @ write_u16 n"
| "write_instr (IEnumTag dst src) = 0x25 # write_u16 dst @ write_u16 src"
| "write_instr (IEnumPayload dst src index) = 0x26 # write_u16 dst @ write_u16 src @ write_u16 index"
| "write_instr (IMapGet dst state_idx key_reg) = 0x27 # write_u16 dst @ write_u16 state_idx @ write_u16 key_reg"
| "write_instr (IMapPut state_idx key_reg src) = 0x28 # write_u16 state_idx @ write_u16 key_reg @ write_u16 src"
| "write_instr (IPMapGet dst state_idx key_reg) = 0x29 # write_u16 dst @ write_u16 state_idx @ write_u16 key_reg"
| "write_instr (IPMapPut state_idx key_reg src) = 0x2a # write_u16 state_idx @ write_u16 key_reg @ write_u16 src"
| "write_instr (IPMapContains dst state_idx key_reg) = 0x2b # write_u16 dst @ write_u16 state_idx @ write_u16 key_reg"
| "write_instr (IPVecGet dst state_idx idx_reg) = 0x2c # write_u16 dst @ write_u16 state_idx @ write_u16 idx_reg"
| "write_instr (IPVecSet state_idx idx_reg src) = 0x2d # write_u16 state_idx @ write_u16 idx_reg @ write_u16 src"
| "write_instr (IPVecPush dst state_idx src) = 0x2e # write_u16 dst @ write_u16 state_idx @ write_u16 src"
| "write_instr (IPVecLen dst state_idx) = 0x2f # write_u16 dst @ write_u16 state_idx"
| "write_instr (IPMapEntries dst state_idx) = 0x33 # write_u16 dst @ write_u16 state_idx"
| "write_instr (IPMapKeys dst state_idx) = 0x34 # write_u16 dst @ write_u16 state_idx"
| "write_instr (IPMapValues dst state_idx) = 0x35 # write_u16 dst @ write_u16 state_idx"
| "write_instr (IPVecToArray dst state_idx) = 0x36 # write_u16 dst @ write_u16 state_idx"
| "write_instr (IPMapAppendUnique state_idx key_reg elem_reg) = 0x37 # write_u16 state_idx @ write_u16 key_reg @ write_u16 elem_reg"
| "write_instr (IPMapPutUnique state_idx key_reg src) = 0x38 # write_u16 state_idx @ write_u16 key_reg @ write_u16 src"
| "write_instr (IPMapWalkInit dst state_idx) = 0x39 # write_u16 dst @ write_u16 state_idx"
| "write_instr (IPMapWalkNext cursor_reg value_reg offset) = 0x3a # write_u16 cursor_reg @ write_u16 value_reg @ write_i32 offset"
| "write_instr (IPBTreeGet dst state_idx key_reg) = 0x3b # write_u16 dst @ write_u16 state_idx @ write_u16 key_reg"
| "write_instr (IPBTreePut state_idx key_reg src) = 0x3c # write_u16 state_idx @ write_u16 key_reg @ write_u16 src"
| "write_instr (IPBTreeContains dst state_idx key_reg) = 0x3d # write_u16 dst @ write_u16 state_idx @ write_u16 key_reg"
| "write_instr (IPBTreeRange dst state_idx lo_reg hi_reg) = 0x3e # write_u16 dst @ write_u16 state_idx @ write_u16 lo_reg @ write_u16 hi_reg"
| "write_instr (IPBTreeWalkInit dst state_idx) = 0x3f # write_u16 dst @ write_u16 state_idx"
| "write_instr (IPBTreeWalkNext cursor_reg value_reg offset) = 0x40 # write_u16 cursor_reg @ write_u16 value_reg @ write_i32 offset"
| "write_instr (IPBTreePutUnique state_idx key_reg src) = 0x41 # write_u16 state_idx @ write_u16 key_reg @ write_u16 src"
| "write_instr (IPBTreeAppendUnique state_idx key_reg elem_reg) = 0x42 # write_u16 state_idx @ write_u16 key_reg @ write_u16 elem_reg"
| "write_instr (IPMapDelete state_idx key_reg) = 0x43 # write_u16 state_idx @ write_u16 key_reg"
| "write_instr (IPBTreeDelete state_idx key_reg) = 0x44 # write_u16 state_idx @ write_u16 key_reg"
| "write_instr (IPMapRemoveUnique state_idx key_reg expected_reg) = 0x45 # write_u16 state_idx @ write_u16 key_reg @ write_u16 expected_reg"
| "write_instr (IPMapRemoveFromList state_idx key_reg elem_reg) = 0x46 # write_u16 state_idx @ write_u16 key_reg @ write_u16 elem_reg"
| "write_instr (IPBTreeRemoveUnique state_idx key_reg expected_reg) = 0x47 # write_u16 state_idx @ write_u16 key_reg @ write_u16 expected_reg"
| "write_instr (IPBTreeRemoveFromList state_idx key_reg elem_reg) = 0x48 # write_u16 state_idx @ write_u16 key_reg @ write_u16 elem_reg"
| "write_instr (IIncReg reg) = 0x30 # write_u16 reg"

definition read_instr_tagged :: "u8 \<Rightarrow> instr rd" where
  "read_instr_tagged tag = (
     if tag = 0x01 then rd_bind read_u16 (\<lambda>dst. rd_map (ILoadConst dst) read_u16)
     else if tag = 0x02 then rd_bind read_u16 (\<lambda>dst. rd_map (IMove dst) read_u16)
     else if tag = 0x03 then rd_bind read_binop (\<lambda>bop. rd_bind read_u16 (\<lambda>dst. rd_bind read_u16 (\<lambda>lhs. rd_map (IBin bop dst lhs) read_u16)))
     else if tag = 0x04 then rd_bind read_unop (\<lambda>bop. rd_bind read_u16 (\<lambda>dst. rd_map (IUn bop dst) read_u16))
     else if tag = 0x05 then rd_map IJump read_i32
     else if tag = 0x06 then rd_bind read_u16 (\<lambda>cond. rd_map (IJumpIfFalse cond) read_i32)
     else if tag = 0x07 then rd_bind read_u16 (\<lambda>dst. rd_bind read_u16 (\<lambda>fn_idx. rd_bind read_u16 (\<lambda>args_start. rd_map (ICall dst fn_idx args_start) read_u8)))
     else if tag = 0x08 then rd_bind read_u16 (\<lambda>dst. rd_bind read_u16 (\<lambda>import_idx. rd_bind read_u16 (\<lambda>args_start. rd_map (ICallHost dst import_idx args_start) read_u8)))
     else if tag = 0x09 then rd_bind read_u16 (\<lambda>dst. rd_bind read_u16 (\<lambda>module_name_idx. rd_bind read_u16 (\<lambda>fn_name_idx. rd_bind read_u16 (\<lambda>args_start. rd_bind read_u8 (\<lambda>n_args. rd_bind read_flag (\<lambda>is_view. rd_map (ICallExternal dst module_name_idx fn_name_idx args_start n_args is_view) read_flag))))))
     else if tag = 0x32 then rd_bind read_u16 (\<lambda>dst. rd_bind read_u16 (\<lambda>iface_name_idx. rd_map (IMakeInterface dst iface_name_idx) read_u16))
     else if tag = 0x31 then rd_bind read_u16 (\<lambda>dst. rd_bind read_u16 (\<lambda>target_reg. rd_bind read_u16 (\<lambda>fn_name_idx. rd_bind read_u16 (\<lambda>args_start. rd_bind read_u8 (\<lambda>n_args. rd_bind read_flag (\<lambda>is_view. rd_map (ICallExternalDyn dst target_reg fn_name_idx args_start n_args is_view) read_flag))))))
     else if tag = 0x0a then rd_map IReturn read_u16
     else if tag = 0x0b then rd_ret IReturnUnit
     else if tag = 0x0c then rd_bind read_u16 (\<lambda>dst. rd_map (IBuiltinResource dst) read_u16)
     else if tag = 0x0d then rd_bind read_u16 (\<lambda>dst. rd_map (IBuiltinUnwrap dst) read_u16)
     else if tag = 0x0e then rd_bind read_u16 (\<lambda>dst. rd_map (IBuiltinAddress dst) read_u16)
     else if tag = 0x0f then rd_bind read_u16 (\<lambda>dst. rd_map (IBuiltinLen dst) read_u16)
     else if tag = 0x10 then rd_bind read_u16 (\<lambda>dst. rd_bind read_u16 (\<lambda>src. rd_map (IConvert dst src) read_u8))
     else if tag = 0x11 then rd_bind read_u16 (\<lambda>dst. rd_bind read_u16 (\<lambda>args_start. rd_map (IMakeArray dst args_start) read_u16))
     else if tag = 0x12 then rd_bind read_u16 (\<lambda>dst. rd_bind read_u16 (\<lambda>arr. rd_map (IArrayGet dst arr) read_u16))
     else if tag = 0x13 then rd_bind read_u16 (\<lambda>dst. rd_bind read_u16 (\<lambda>arr. rd_map (IArrayAppend dst arr) read_u16))
     else if tag = 0x14 then rd_bind read_u16 (\<lambda>dst. rd_bind read_u16 (\<lambda>args_start. rd_map (IMakeSet dst args_start) read_u16))
     else if tag = 0x15 then rd_bind read_u16 (\<lambda>dst. rd_bind read_u16 (\<lambda>args_start. rd_map (IMakeDict dst args_start) read_u16))
     else if tag = 0x16 then rd_bind read_u16 (\<lambda>dst. rd_bind read_u16 (\<lambda>name_idx. rd_bind read_u16 (\<lambda>args_start. rd_map (IBuiltinCall dst name_idx args_start) read_u8)))
     else if tag = 0x17 then rd_bind read_u16 (\<lambda>dst. rd_bind read_u16 (\<lambda>shape_idx. rd_bind read_u16 (\<lambda>args_start. rd_map (IMakeStruct dst shape_idx args_start) read_u16)))
     else if tag = 0x18 then rd_bind read_u16 (\<lambda>dst. rd_bind read_u16 (\<lambda>src. rd_map (IFieldGet dst src) read_u16))
     else if tag = 0x19 then rd_bind read_u16 (\<lambda>dst. rd_bind read_u16 (\<lambda>name_idx. rd_map (IFieldSet dst name_idx) read_u16))
     else if tag = 0x1a then rd_bind read_u16 (\<lambda>dst. rd_map (IKvGet dst) read_u16)
     else if tag = 0x1b then rd_bind read_u16 (\<lambda>src. rd_map (IKvPut src) read_u16)
     else if tag = 0x1c then rd_bind read_u16 (\<lambda>dst. rd_map (IKvGetPath dst) read_u16)
     else if tag = 0x1d then rd_bind read_u16 (\<lambda>src. rd_map (IKvPutPath src) read_u16)
     else if tag = 0x1e then rd_map IReadBatch read_u16
     else if tag = 0x1f then rd_bind read_u16 (\<lambda>arr_reg. rd_map (IPrefetchMap arr_reg) read_u16)
     else if tag = 0x20 then rd_map IEmit read_u16
     else if tag = 0x49 then rd_bind (read_vec read_parallel_range) (\<lambda>ranges. rd_map (IParallelBegin ranges) rd_u32)
     else if tag = 0x4a then rd_map IParallelYield (read_opt read_u16)
     else if tag = 0x4b then rd_bind rd_u32 (\<lambda>body_start. rd_bind rd_u32 (\<lambda>body_end. rd_bind read_u16 (\<lambda>source_reg. rd_bind read_u16 (\<lambda>output_reg. rd_bind read_u16 (\<lambda>id_reg. rd_bind read_u16 (\<lambda>idx_reg. rd_map (IParallelForBegin body_start body_end source_reg output_reg id_reg idx_reg) rd_u32))))))
     else if tag = 0x4c then rd_bind read_u16 (\<lambda>dst. rd_bind read_u16 (\<lambda>len_reg. rd_map (IArrayAlloc dst len_reg) read_u16))
     else if tag = 0x4d then rd_bind read_u16 (\<lambda>dst. rd_bind read_u16 (\<lambda>state_idx. rd_map (IReserve dst state_idx) read_u16))
     else if tag = 0x4e then rd_ret IParallelForSkip
     else if tag = 0x21 then rd_bind read_u16 (\<lambda>dst. rd_map (IContext dst) read_u8)
     else if tag = 0x22 then rd_bind read_u16 (\<lambda>dst. rd_bind read_u16 (\<lambda>args_start. rd_map (IMakeTuple dst args_start) read_u16))
     else if tag = 0x23 then rd_bind read_u16 (\<lambda>dst. rd_bind read_u16 (\<lambda>src. rd_map (ITupleGet dst src) read_u16))
     else if tag = 0x24 then rd_bind read_u16 (\<lambda>dst. rd_bind read_u16 (\<lambda>shape_idx. rd_bind read_u16 (\<lambda>variant_idx. rd_bind read_u16 (\<lambda>args_start. rd_map (IMakeEnum dst shape_idx variant_idx args_start) read_u16))))
     else if tag = 0x25 then rd_bind read_u16 (\<lambda>dst. rd_map (IEnumTag dst) read_u16)
     else if tag = 0x26 then rd_bind read_u16 (\<lambda>dst. rd_bind read_u16 (\<lambda>src. rd_map (IEnumPayload dst src) read_u16))
     else if tag = 0x27 then rd_bind read_u16 (\<lambda>dst. rd_bind read_u16 (\<lambda>state_idx. rd_map (IMapGet dst state_idx) read_u16))
     else if tag = 0x28 then rd_bind read_u16 (\<lambda>state_idx. rd_bind read_u16 (\<lambda>key_reg. rd_map (IMapPut state_idx key_reg) read_u16))
     else if tag = 0x29 then rd_bind read_u16 (\<lambda>dst. rd_bind read_u16 (\<lambda>state_idx. rd_map (IPMapGet dst state_idx) read_u16))
     else if tag = 0x2a then rd_bind read_u16 (\<lambda>state_idx. rd_bind read_u16 (\<lambda>key_reg. rd_map (IPMapPut state_idx key_reg) read_u16))
     else if tag = 0x2b then rd_bind read_u16 (\<lambda>dst. rd_bind read_u16 (\<lambda>state_idx. rd_map (IPMapContains dst state_idx) read_u16))
     else if tag = 0x2c then rd_bind read_u16 (\<lambda>dst. rd_bind read_u16 (\<lambda>state_idx. rd_map (IPVecGet dst state_idx) read_u16))
     else if tag = 0x2d then rd_bind read_u16 (\<lambda>state_idx. rd_bind read_u16 (\<lambda>idx_reg. rd_map (IPVecSet state_idx idx_reg) read_u16))
     else if tag = 0x2e then rd_bind read_u16 (\<lambda>dst. rd_bind read_u16 (\<lambda>state_idx. rd_map (IPVecPush dst state_idx) read_u16))
     else if tag = 0x2f then rd_bind read_u16 (\<lambda>dst. rd_map (IPVecLen dst) read_u16)
     else if tag = 0x33 then rd_bind read_u16 (\<lambda>dst. rd_map (IPMapEntries dst) read_u16)
     else if tag = 0x34 then rd_bind read_u16 (\<lambda>dst. rd_map (IPMapKeys dst) read_u16)
     else if tag = 0x35 then rd_bind read_u16 (\<lambda>dst. rd_map (IPMapValues dst) read_u16)
     else if tag = 0x36 then rd_bind read_u16 (\<lambda>dst. rd_map (IPVecToArray dst) read_u16)
     else if tag = 0x37 then rd_bind read_u16 (\<lambda>state_idx. rd_bind read_u16 (\<lambda>key_reg. rd_map (IPMapAppendUnique state_idx key_reg) read_u16))
     else if tag = 0x38 then rd_bind read_u16 (\<lambda>state_idx. rd_bind read_u16 (\<lambda>key_reg. rd_map (IPMapPutUnique state_idx key_reg) read_u16))
     else if tag = 0x39 then rd_bind read_u16 (\<lambda>dst. rd_map (IPMapWalkInit dst) read_u16)
     else if tag = 0x3a then rd_bind read_u16 (\<lambda>cursor_reg. rd_bind read_u16 (\<lambda>value_reg. rd_map (IPMapWalkNext cursor_reg value_reg) read_i32))
     else if tag = 0x3b then rd_bind read_u16 (\<lambda>dst. rd_bind read_u16 (\<lambda>state_idx. rd_map (IPBTreeGet dst state_idx) read_u16))
     else if tag = 0x3c then rd_bind read_u16 (\<lambda>state_idx. rd_bind read_u16 (\<lambda>key_reg. rd_map (IPBTreePut state_idx key_reg) read_u16))
     else if tag = 0x3d then rd_bind read_u16 (\<lambda>dst. rd_bind read_u16 (\<lambda>state_idx. rd_map (IPBTreeContains dst state_idx) read_u16))
     else if tag = 0x3e then rd_bind read_u16 (\<lambda>dst. rd_bind read_u16 (\<lambda>state_idx. rd_bind read_u16 (\<lambda>lo_reg. rd_map (IPBTreeRange dst state_idx lo_reg) read_u16)))
     else if tag = 0x3f then rd_bind read_u16 (\<lambda>dst. rd_map (IPBTreeWalkInit dst) read_u16)
     else if tag = 0x40 then rd_bind read_u16 (\<lambda>cursor_reg. rd_bind read_u16 (\<lambda>value_reg. rd_map (IPBTreeWalkNext cursor_reg value_reg) read_i32))
     else if tag = 0x41 then rd_bind read_u16 (\<lambda>state_idx. rd_bind read_u16 (\<lambda>key_reg. rd_map (IPBTreePutUnique state_idx key_reg) read_u16))
     else if tag = 0x42 then rd_bind read_u16 (\<lambda>state_idx. rd_bind read_u16 (\<lambda>key_reg. rd_map (IPBTreeAppendUnique state_idx key_reg) read_u16))
     else if tag = 0x43 then rd_bind read_u16 (\<lambda>state_idx. rd_map (IPMapDelete state_idx) read_u16)
     else if tag = 0x44 then rd_bind read_u16 (\<lambda>state_idx. rd_map (IPBTreeDelete state_idx) read_u16)
     else if tag = 0x45 then rd_bind read_u16 (\<lambda>state_idx. rd_bind read_u16 (\<lambda>key_reg. rd_map (IPMapRemoveUnique state_idx key_reg) read_u16))
     else if tag = 0x46 then rd_bind read_u16 (\<lambda>state_idx. rd_bind read_u16 (\<lambda>key_reg. rd_map (IPMapRemoveFromList state_idx key_reg) read_u16))
     else if tag = 0x47 then rd_bind read_u16 (\<lambda>state_idx. rd_bind read_u16 (\<lambda>key_reg. rd_map (IPBTreeRemoveUnique state_idx key_reg) read_u16))
     else if tag = 0x48 then rd_bind read_u16 (\<lambda>state_idx. rd_bind read_u16 (\<lambda>key_reg. rd_map (IPBTreeRemoveFromList state_idx key_reg) read_u16))
     else if tag = 0x30 then rd_map IIncReg read_u16
     else rd_fail (UnknownInstrTag tag))"

definition read_instr :: "instr rd" where
  "read_instr = rd_bind read_u8 read_instr_tagged"

subsection \<open>Functions\<close>

definition write_bcfn :: "bigint_lib \<Rightarrow> bc_fn \<Rightarrow> bytes" where
  "write_bcfn L f = write_str (fn_name f) @ write_u16 (n_params f) @ write_u16 (n_regs f)
     @ write_flag (is_entry f) @ write_flag (is_nore f) @ write_flag (fn_is_view f) @ write_flag (fn_is_pure f)
     @ write_vec write_type (param_types f) @ write_type (return_type f)
     @ write_vec (write_const L) (consts_of f) @ write_vec write_instr (code f)
     @ write_vec (write_vec write_read_op) (read_groups f)"

definition read_bcfn :: "bigint_lib \<Rightarrow> bc_fn rd" where
  "read_bcfn L = rd_bind read_str (\<lambda>name. rd_bind read_u16 (\<lambda>np. rd_bind read_u16 (\<lambda>nr.
     rd_bind read_flag (\<lambda>entry. rd_bind read_flag (\<lambda>nore. rd_bind read_flag (\<lambda>is_view. rd_bind read_flag (\<lambda>is_pure.
     rd_bind (read_vec read_type) (\<lambda>ptys. rd_bind read_type (\<lambda>rty.
     rd_bind (read_vec (read_const L)) (\<lambda>cs. rd_bind (read_vec read_instr) (\<lambda>is.
     rd_map (\<lambda>gs. \<lparr>fn_name = name, n_params = np, n_regs = nr, code = is, consts_of = cs,
         is_entry = entry, is_nore = nore, read_groups = gs, param_types = ptys, return_type = rty,
         fn_is_view = is_view, fn_is_pure = is_pure\<rparr>)
       (read_vec (read_vec read_read_op)))))))))))))"

subsection \<open>Modules\<close>

definition write_default :: "bigint_lib \<Rightarrow> val \<Rightarrow> bytes option" where
  "write_default L v = do { bs \<leftarrow> serialize L v; Some (u32_be (length bs) @ bs) }"

definition write_struct_shape :: "struct_shape \<Rightarrow> bytes option" where
  "write_struct_shape s =
     (if length (field_types s) < length (field_names s) \<or> length (field_groups s) < length (field_names s) then None
      else Some (write_str (ss_name s) @ u32_be (length (field_names s))
        @ concat (map (\<lambda>(n, t, g). write_str n @ write_type t @ write_opt write_str g)
            (zip (field_names s) (zip (field_types s) (field_groups s))))
        @ write_flag (is_pub s)))"

definition write_path_spec :: "path_spec \<Rightarrow> bytes" where
  "write_path_spec p = write_u128 (leaf_key p) @ write_type (leaf_type p) @ write_flag (is_blob p)"

definition write_enum_shape :: "enum_shape \<Rightarrow> bytes" where
  "write_enum_shape e = write_str (es_name e) @ write_vec write_str (variant_names e)"

definition write_iface_method :: "iface_method \<Rightarrow> bytes" where
  "write_iface_method m = write_str (im_name m) @ write_flag (im_is_view m) @ write_flag (im_is_pure m)
     @ write_vec (\<lambda>p. write_str (fst p) @ write_type (snd p)) (im_params m) @ write_type (im_return_type m)"

definition write_iface :: "iface_decl \<Rightarrow> bytes" where
  "write_iface i = write_str (id_name i) @ write_vec write_iface_method (id_methods i)"

definition sorted_handlers :: "(string, u16 list) hashmap \<Rightarrow> (string \<times> u16 list) list" where
  \<comment> \<open>the keys in the order of \<^verbatim>\<open>String\<close>, which compares bytes\<close>
  "sorted_handlers handlers = sort_key (\<lambda>e. as_bytes (fst e)) handlers"

definition write_handler :: "string \<times> u16 list \<Rightarrow> bytes" where
  "write_handler e = write_str (fst e) @ write_vec write_u16 (snd e)"

definition write_module :: "bigint_lib \<Rightarrow> bc_module \<Rightarrow> bytes option" where
  "write_module L m = do {
     defaults \<leftarrow> mapM (write_default L) (state_defaults m);
     shapes \<leftarrow> mapM write_struct_shape (struct_shapes m);
     Some (write_str (mod_name m) @ write_vec write_str (imports_of m)
       @ write_vec write_u128 (state_roots m) @ write_vec write_type (state_types m)
       @ write_vec (\<lambda>b. b) defaults @ write_vec write_str (state_names m)
       @ write_vec (\<lambda>b. b) shapes @ write_vec (write_bcfn L) (functions_of m)
       @ write_vec write_path_spec (path_specs m) @ write_vec write_enum_shape (enum_shapes m)
       @ write_vec write_iface (interfaces_of m) @ write_vec write_handler (sorted_handlers (handler_dispatch m))) }"

primrec read_defaults :: "bigint_lib \<Rightarrow> ty list \<Rightarrow> nat \<Rightarrow> nat \<Rightarrow> val list rd" where
  \<comment> \<open>the loop over \<open>n\<close> defaults of which \<open>i\<close> have been read\<close>
  "read_defaults L tys i 0 = rd_ret []"
| "read_defaults L tys i (Suc n) = rd_bind rd_u32 (\<lambda>len. rd_bind (take_bytes (unat len)) (\<lambda>b.
     case deserialize L b (if i < length tys then tys ! i else TUnit) of
       Got v \<Rightarrow> rd_map (Cons v) (read_defaults L tys (Suc i) n)
     | Miss \<Rightarrow> rd_fail BadStateDefault
     | Panic \<Rightarrow> rd_panic))"

definition read_struct_shape :: "struct_shape rd" where
  "read_struct_shape = rd_bind read_str (\<lambda>name. rd_bind (read_vec (read_struct_field read_type)) (\<lambda>fs.
     rd_map (\<lambda>p. \<lparr>ss_name = name, field_names = map (\<lambda>f. fst (fst f)) fs, field_types = map (\<lambda>f. snd (fst f)) fs,
         field_groups = map snd fs, is_pub = p\<rparr>) read_flag))"

definition read_path_spec :: "path_spec rd" where
  "read_path_spec = rd_bind read_u128 (\<lambda>k. rd_bind read_type (\<lambda>t.
     rd_map (\<lambda>b. \<lparr>leaf_key = k, leaf_type = t, is_blob = b\<rparr>) read_flag))"

definition read_enum_shape :: "enum_shape rd" where
  "read_enum_shape = rd_bind read_str (\<lambda>name.
     rd_map (\<lambda>vs. \<lparr>es_name = name, variant_names = vs\<rparr>) (read_vec read_str))"

definition read_iface_method :: "iface_method rd" where
  "read_iface_method = rd_bind read_str (\<lambda>name. rd_bind read_flag (\<lambda>is_view. rd_bind read_flag (\<lambda>is_pure.
     rd_bind (read_vec (read_field read_type)) (\<lambda>params.
     rd_map (\<lambda>ret. \<lparr>im_name = name, im_params = params, im_return_type = ret, im_is_view = is_view,
         im_is_pure = is_pure\<rparr>) read_type))))"

definition read_iface :: "iface_decl rd" where
  "read_iface = rd_bind read_str (\<lambda>name.
     rd_map (\<lambda>ms. \<lparr>id_name = name, id_methods = ms\<rparr>) (read_vec read_iface_method))"

definition read_handler :: "(string \<times> u16 list) rd" where
  "read_handler = read_field (read_vec read_u16)"

definition index_names :: "string list \<Rightarrow> (string, nat) hashmap" where
  \<comment> \<open>inserting every name with its position, in order\<close>
  "index_names names = hm_extend [] (zip names [0..<length names])"

definition read_module :: "bigint_lib \<Rightarrow> bc_module rd" where
  "read_module L = rd_bind read_str (\<lambda>name. rd_bind (read_vec read_str) (\<lambda>imports.
     rd_bind (read_vec read_u128) (\<lambda>roots. rd_bind (read_vec read_type) (\<lambda>tys.
     rd_bind rd_u32 (\<lambda>n_defs. rd_bind (read_defaults L tys 0 (unat n_defs)) (\<lambda>defaults.
     rd_bind (read_vec read_str) (\<lambda>names. rd_bind (read_vec read_struct_shape) (\<lambda>shapes.
     rd_bind (read_vec (read_bcfn L)) (\<lambda>fns. rd_bind (read_vec read_path_spec) (\<lambda>paths.
     rd_bind (read_vec read_enum_shape) (\<lambda>enums. rd_bind (read_vec read_iface) (\<lambda>ifaces.
     rd_map (\<lambda>handlers. \<lparr>mod_name = name, imports_of = imports, import_index = index_names imports,
         state_roots = roots, state_types = tys, state_defaults = defaults,
         state_names = names, state_index = index_names names,
         struct_shapes = shapes, struct_index = index_names (map ss_name shapes),
         functions_of = fns, fn_index = index_names (map fn_name fns),
         path_specs = paths, handler_dispatch = hm_extend [] handlers,
         enum_shapes = enums, enum_index = index_names (map es_name enums),
         interfaces_of = ifaces, interface_index = index_names (map id_name ifaces)\<rparr>)
       (read_vec read_handler)))))))))))))"

subsection \<open>Artifacts\<close>

definition MAGIC :: bytes where
  "MAGIC = as_bytes ''REND-BC0''"

definition VERSION_MAJOR :: u8 where "VERSION_MAJOR = 0"
definition VERSION_MINOR :: u8 where "VERSION_MINOR = 17"

definition encode :: "bigint_lib \<Rightarrow> bc_module list \<Rightarrow> bytes option" where
  "encode L modules = do {
     bss \<leftarrow> mapM (write_module L) modules;
     Some (MAGIC @ [VERSION_MAJOR, VERSION_MINOR] @ write_vec (\<lambda>b. b) bss) }"

definition decode_body :: "bigint_lib \<Rightarrow> bc_module list rd" where
  "decode_body L = rd_bind (take_bytes 8) (\<lambda>magic.
     if magic \<noteq> MAGIC then rd_fail BadMagic
     else rd_bind read_u8 (\<lambda>major. rd_bind read_u8 (\<lambda>minor.
       if major \<noteq> VERSION_MAJOR then rd_fail (UnsupportedVersion major minor)
       else read_vec (read_module L))))"

definition decode :: "bigint_lib \<Rightarrow> bytes \<Rightarrow> (decode_error + bc_module list) option" where
  "decode L bs = (case decode_body L (reader_new bs) of
     None \<Rightarrow> None
   | Some (Inl e) \<Rightarrow> Some (Inl e)
   | Some (Inr (modules, r)) \<Rightarrow>
       Some (if rd_pos r \<noteq> length (rd_bytes r) then Inl (TrailingBytes (length (rd_bytes r) - rd_pos r))
             else Inr modules))"

record artifact =
  art_bytes :: bytes
  content_hash :: u128
  modules_of :: "bc_module list"

definition from_modules :: "bigint_lib \<Rightarrow> bc_module list \<Rightarrow> artifact option" where
  "from_modules L modules = do {
     bs \<leftarrow> encode L modules;
     Some \<lparr>art_bytes = bs, content_hash = child 0 bs, modules_of = modules\<rparr> }"

definition from_bytes :: "bigint_lib \<Rightarrow> bytes \<Rightarrow> (decode_error + artifact) option" where
  "from_bytes L bs = (case decode L bs of
     None \<Rightarrow> None
   | Some (Inl e) \<Rightarrow> Some (Inl e)
   | Some (Inr modules) \<Rightarrow> Some (Inr \<lparr>art_bytes = bs, content_hash = child 0 bs, modules_of = modules\<rparr>))"

primrec main_module_from :: "string option \<Rightarrow> bc_module list \<Rightarrow> string option option" where
  \<comment> \<open>\<open>None\<close> is the error of two modules with a \<^verbatim>\<open>main\<close>\<close>
  "main_module_from found [] = Some found"
| "main_module_from found (m # ms) =
     (if hm_get (fn_index m) ''main'' = None then main_module_from found ms
      else case found of Some _ \<Rightarrow> None | None \<Rightarrow> main_module_from (Some (mod_name m)) ms)"

definition main_module :: "artifact \<Rightarrow> string option option" where
  "main_module a = main_module_from None (modules_of a)"

end
