(* ===== verification/ArtifactCodec.thy ===== *)
theory ArtifactCodec
  imports Artifact
begin

section \<open>Every part of an artifact reads back\<close>

text \<open>
  Every writer of the format is a codec with its reader (\<open>wire_codec\<close>), up to what the format
  forgets: explicit-literal markers of types, and storage groups of a struct type that are all
  absent (\<open>norm_type\<close>).
\<close>

subsection \<open>Types\<close>

definition norm_groups :: "nat \<Rightarrow> string option list \<Rightarrow> string option list" where
  "norm_groups n gs = normal_groups (map (group_at_index gs) [0..<n])"

fun norm_type :: "ty \<Rightarrow> ty" and norm_method :: "method_sig \<Rightarrow> method_sig" where
  "norm_type (TArray e) = TArray (norm_type e)"
| "norm_type (TExplicitLiteral t) = norm_type t"
| "norm_type (TSet e) = TSet (norm_type e)"
| "norm_type (TDict k v) = TDict (norm_type k) (norm_type v)"
| "norm_type (TMap k v) = TMap (norm_type k) (norm_type v)"
| "norm_type (TPMap k v) = TPMap (norm_type k) (norm_type v)"
| "norm_type (TPBTree k v) = TPBTree (norm_type k) (norm_type v)"
| "norm_type (TPVec e) = TPVec (norm_type e)"
| "norm_type (TStruct name fs gs) = TStruct name (map (\<lambda>f. (fst f, norm_type (snd f))) fs) (norm_groups (length fs) gs)"
| "norm_type (TTuple ts) = TTuple (map norm_type ts)"
| "norm_type (TEnum name vs) = TEnum name (map (\<lambda>v. (fst v, map norm_type (snd v))) vs)"
| "norm_type (TCap name fs owner) = TCap name (map (\<lambda>f. (fst f, norm_type (snd f))) fs) owner"
| "norm_type (TInterface name ms) = TInterface name (map norm_method ms)"
| "norm_type t = t"
| "norm_method (MethodSig name ps rt v p) = MethodSig name (map norm_type ps) (norm_type rt) v p"

abbreviation small :: "'a list \<Rightarrow> bool" where
  "small xs \<equiv> length xs < 2 ^ 32"

fun type_ok :: "ty \<Rightarrow> bool" and method_ok :: "method_sig \<Rightarrow> bool" where
  "type_ok (TArray e) = type_ok e"
| "type_ok (TExplicitLiteral t) = type_ok t"
| "type_ok (TSet e) = type_ok e"
| "type_ok (TDict k v) = (type_ok k \<and> type_ok v)"
| "type_ok (TMap k v) = (type_ok k \<and> type_ok v)"
| "type_ok (TPMap k v) = (type_ok k \<and> type_ok v)"
| "type_ok (TPBTree k v) = (type_ok k \<and> type_ok v)"
| "type_ok (TPVec e) = type_ok e"
| "type_ok (TStruct name fs gs) = (utf8_str name \<and> small fs \<and> list_all (\<lambda>f. utf8_str (fst f) \<and> type_ok (snd f)) fs
     \<and> list_all (pred_option utf8_str) gs)"
| "type_ok (TTuple ts) = (small ts \<and> list_all type_ok ts)"
| "type_ok (TEnum name vs) = (utf8_str name \<and> small vs \<and>
     list_all (\<lambda>v. utf8_str (fst v) \<and> small (snd v) \<and> list_all type_ok (snd v)) vs)"
| "type_ok (TCap name fs owner) = (utf8_str name \<and> utf8_str owner \<and> small fs \<and>
     list_all (\<lambda>f. utf8_str (fst f) \<and> type_ok (snd f)) fs)"
| "type_ok (TInterface name ms) = (utf8_str name \<and> small ms \<and> list_all method_ok ms)"
| "type_ok t = True"
| "method_ok (MethodSig name ps rt v p) = (utf8_str name \<and> small ps \<and> list_all type_ok ps \<and> type_ok rt)"

subsection \<open>Constants, operators, batched reads and instructions\<close>

lemmas reads_steps = reads_tag reads_bind reads_map wire_intros

primrec const_ok :: "bigint_lib \<Rightarrow> const \<Rightarrow> bool" where
  "const_ok L (CInt n) = fits_int L n"
| "const_ok L (CUInt n) = fits_int L n"
| "const_ok L (CFloat n) = True"
| "const_ok L (CI32 n) = True"
| "const_ok L (CU32 n) = True"
| "const_ok L (CU64 n) = True"
| "const_ok L (CU128 n) = True"
| "const_ok L (CBool b) = True"
| "const_ok L (CStr s) = utf8_str s"

lemma reads_bigint:
  assumes "bigint_ok L" and "fits_int L n"
  shows "reads (read_bigint L) n (u32_be (length (to_signed_bytes_be L n)) @ to_signed_bytes_be L n)"
proof -
  let ?b = "to_signed_bytes_be L n"
  have "reads (rd_map (from_signed_bytes_be L) (take_bytes (length ?b))) (from_signed_bytes_be L ?b) ?b"
    by (intro reads_map reads_take) simp
  then show ?thesis using assms unfolding read_bigint_def
    by (intro reads_u32_be) (simp_all add: fits_int_def bigint_ok_def unat_of_nat)
qed

lemma reads_const:
  assumes "bigint_ok L" and "const_ok L c"
  shows "reads (read_const L) c (write_const L c)"
proof (cases c)
  case (CFloat n)
  have "reads (rd_map (\<lambda>b. CFloat (of_nat (be_val b))) (take_bytes 8)) (CFloat (of_nat (be_val (be_bytes 8 (unat n))))) (be_bytes 8 (unat n))"
    by (rule reads_map) (simp add: reads_take)
  then show ?thesis unfolding read_const_def CFloat
    by (simp add: reads_tag be_val_be_bytes word_codecs)
next
  case (CInt n)
  then show ?thesis using assms unfolding read_const_def by (simp add: reads_tag reads_map reads_bigint)
next
  case (CUInt n)
  then show ?thesis using assms unfolding read_const_def by (simp add: reads_tag reads_map reads_bigint)
qed (use assms in \<open>simp_all add: read_const_def reads_tag reads_map wire_intros\<close>)

lemma reads_read_op: "reads read_read_op x (write_read_op x)"
  unfolding read_read_op_def by (cases x; simp; rule reads_tag; simp; (rule reads_bind reads_map wire_intros)+)

lemma reads_binop [wire_intros]: "reads read_binop x [binop_to_byte x]"
  unfolding read_binop_def by (rule reads_tag) (cases x; simp add: binop_from_byte_def reads_ret)

lemma reads_unop [wire_intros]: "reads read_unop x [unop_to_byte x]"
  unfolding read_unop_def by (rule reads_tag) (cases x; simp add: unop_from_byte_def reads_ret)

lemma reads_op: "reads (k b) y c \<Longrightarrow> reads (rd_bind read_binop k) y (binop_to_byte b # c)"
  "reads (h u) y c \<Longrightarrow> reads (rd_bind read_unop h) y (unop_to_byte u # c)"
  using reads_bind [OF reads_binop] reads_bind [OF reads_unop] by fastforce+

lemma reads_range: "reads read_parallel_range p (write_parallel_range p)"
proof -
  have "reads (read_opt read_u16) (pr_dst p) (write_opt write_u16 (pr_dst p))"
    using u16_wire.reads_opt [of "pr_dst p"] by (simp add: option.pred_set option.map_id)
  then have "reads read_parallel_range \<lparr>pr_start = pr_start p, pr_end = pr_end p, pr_dst = pr_dst p\<rparr>
      (write_u32 (pr_start p) @ write_u32 (pr_end p) @ write_opt write_u16 (pr_dst p))"
    unfolding read_parallel_range_def by - ((rule reads_bind wire_intros)+, rule reads_map)
  then show ?thesis by (cases p) (simp add: write_parallel_range_def)
qed

interpretation const_wire: wire_codec "write_const twos_lib" "read_const twos_lib" "const_ok twos_lib" id
  by unfold_locales (simp add: reads_const bigint_ok_twos_lib)

interpretation range_wire: wire_codec write_parallel_range read_parallel_range "\<lambda>_. True" id
  by unfold_locales (simp add: reads_range)

fun instr_ok :: "instr \<Rightarrow> bool" where
  "instr_ok (IParallelBegin ranges _) = small ranges"
| "instr_ok _ = True"

lemma reads_instr: "instr_ok i \<Longrightarrow> reads read_instr i (write_instr i)"
  unfolding read_instr_def
proof (cases i)
  case (IParallelBegin ranges after_pc)
  assume "instr_ok i"
  then have "reads (read_vec read_parallel_range) ranges (write_vec write_parallel_range ranges)"
    using range_wire.reads_vec [of ranges] IParallelBegin by (simp add: list_all_iff)
  then show "reads (rd_bind read_u8 read_instr_tagged) i (write_instr i)"
    unfolding IParallelBegin write_instr.simps
    by (intro reads_tag) (simp add: read_instr_tagged_def, rule reads_bind, assumption, rule reads_map, rule wire_intros)
next
  case (IParallelYield v)
  have "reads (read_opt read_u16) v (write_opt write_u16 v)"
    using u16_wire.reads_opt [of v] by (simp add: option.pred_set option.map_id)
  then show "reads (rd_bind read_u8 read_instr_tagged) i (write_instr i)"
    by (simp add: IParallelYield read_instr_tagged_def reads_tag reads_map)
qed (simp, rule reads_tag, simp add: read_instr_tagged_def, (rule reads_op reads_bind reads_map wire_intros)+)+

subsection \<open>Types\<close>

lemma length_member: "x \<in> set xs \<Longrightarrow> length (w x) \<le> length (concat (map w xs))"
  by (induction xs) auto

lemma concat_map2_enum:
  "concat (map2 (\<lambda>b i. b @ h i) (map w xs) [0..<length xs]) = concat (map (\<lambda>e. w (fst e) @ h (snd e)) (zip xs [0..<length xs]))"
  by (simp add: zip_map1 comp_def case_prod_beta)

lemma map_fst_enum: "map (\<lambda>e. h (fst e)) (zip xs [0..<length xs]) = map h xs"
proof -
  have "map (\<lambda>e. h (fst e)) (zip xs [0..<length xs]) = map h (map fst (zip xs [0..<length xs]))"
    by (simp only: map_map comp_def)
  then show ?thesis by simp
qed

lemma map_snd_enum: "map (\<lambda>e. h (snd e)) (zip xs [0..<length xs]) = map h [0..<length xs]"
proof -
  have "map (\<lambda>e. h (snd e)) (zip xs [0..<length xs]) = map h (map snd (zip xs [0..<length xs]))"
    by (simp only: map_map comp_def)
  then show ?thesis by simp
qed

lemma reads_field:
  "utf8_str (fst p) \<Longrightarrow> reads f (g (snd p)) (w (snd p)) \<Longrightarrow>
     reads (read_field f) (fst p, g (snd p)) (write_str (fst p) @ w (snd p))"
  unfolding read_field_def by (rule reads_bind, rule reads_str, assumption, rule reads_map)

lemma reads_struct_field:
  assumes "utf8_str (fst p)" and "reads f (g (snd p)) (w (snd p))" and "pred_option utf8_str grp"
  shows "reads (read_struct_field f) ((fst p, g (snd p)), grp) (write_str (fst p) @ w (snd p) @ write_opt write_str grp)"
proof -
  have "reads (read_opt read_str) grp (write_opt write_str grp)"
    using str_wire.reads_opt [OF assms(3)] by (simp add: option.map_id)
  then have "reads (read_struct_field f) ((fst p, g (snd p)), grp)
      ((write_str (fst p) @ w (snd p)) @ write_opt write_str grp)"
    unfolding read_struct_field_def using assms(1,2) by - (rule reads_bind [OF reads_field], assumption+, rule reads_map)
  then show ?thesis by simp
qed

lemma group_ok: "list_all (pred_option utf8_str) gs \<Longrightarrow> pred_option utf8_str (group_at_index gs i)"
  by (simp add: group_at_index_def list_all_length)

lemma reads_struct:
  assumes "utf8_str name" and "small fs" and "list_all (pred_option utf8_str) gs"
    and "\<And>p. p \<in> set fs \<Longrightarrow> utf8_str (fst p) \<and> reads f (g (snd p)) (w (snd p))"
  shows "reads (rd_bind read_str (\<lambda>name. rd_map (mk_struct name) (read_vec (read_struct_field f))))
     (TStruct name (map (\<lambda>p. (fst p, g (snd p))) fs) (norm_groups (length fs) gs))
     (write_str name @ u32_be (length fs) @ concat (map2 (\<lambda>b i. b @ write_opt write_str (group_at_index gs i))
         (map (\<lambda>p. write_str (fst p) @ w (snd p)) fs) [0..<length fs]))"
proof -
  let ?xs = "zip fs [0..<length fs]"
  let ?g = "\<lambda>e. ((fst (fst e), g (snd (fst e))), group_at_index gs (snd e))"
  let ?w = "\<lambda>e. write_str (fst (fst e)) @ w (snd (fst e)) @ write_opt write_str (group_at_index gs (snd e))"
  have "reads (read_vec (read_struct_field f)) (map ?g ?xs) (u32_be (length ?xs) @ concat (map ?w ?xs))"
    by (rule reads_vec_of) (use assms in \<open>auto simp: group_ok dest!: set_zip_leftD intro!: reads_struct_field\<close>)
  then have "reads (rd_bind read_str (\<lambda>name. rd_map (mk_struct name) (read_vec (read_struct_field f))))
      (mk_struct name (map ?g ?xs)) (write_str name @ u32_be (length ?xs) @ concat (map ?w ?xs))"
    using assms(1) by - (rule reads_bind [OF reads_str], assumption, rule reads_map)
  moreover have "map fst (map ?g ?xs) = map (\<lambda>p. (fst p, g (snd p))) fs"
    by (simp only: map_map comp_def fst_conv map_fst_enum [where h = "\<lambda>p. (fst p, g (snd p))"])
  moreover have "map snd (map ?g ?xs) = map (group_at_index gs) [0..<length fs]"
    by (simp only: map_map comp_def snd_conv map_snd_enum)
  ultimately show ?thesis
    by (simp add: mk_struct_def norm_groups_def concat_map2_enum)
qed

lemma length_member2:
  "length bs = length is \<Longrightarrow> b \<in> set bs \<Longrightarrow> length b \<le> length (concat (map2 (\<lambda>b i. b @ h i) bs is))"
  by (induction bs "is" rule: list_induct2) auto

lemma reads_type_tag:
  assumes "length (tag # b) \<le> n" and "\<And>m. length b \<le> m \<Longrightarrow> reads (read_type_tagged (read_type_n m) tag) x b"
  shows "reads (read_type_n n) x (tag # b)"
  using assms by (cases n) (simp_all add: reads_tag)

lemma reads_type_leaf: "1 \<le> n \<Longrightarrow> (\<And>f. read_type_tagged f tag = rd_ret t) \<Longrightarrow> reads (read_type_n n) t [tag]"
  by (rule reads_type_tag) (simp_all add: reads_ret)

lemma reads_pair: "reads f x b \<Longrightarrow> reads g y c \<Longrightarrow> reads (read_pair h f g) (h x y) (b @ c)"
  unfolding read_pair_def by (rule reads_bind, assumption, rule reads_map)

lemma reads_vec_sub:
  assumes "length (u32_be (length xs) @ concat (map w xs)) \<le> m" and "small xs"
    and "\<And>x. x \<in> set xs \<Longrightarrow> length (w x) \<le> m \<Longrightarrow> reads f (g x) (w x)"
  shows "reads (read_vec f) (map g xs) (u32_be (length xs) @ concat (map w xs))"
proof (rule reads_vec_of)
  fix x assume "x \<in> set xs"
  then show "reads f (g x) (w x)" using assms(1) length_member [of x xs w] by (intro assms(3)) auto
qed (rule assms(2))

lemma length_struct_field:
  assumes "p \<in> set fs"
  shows "length (write_type (snd p)) \<le> length (concat (map2 (\<lambda>b i. b @ write_opt write_str (group_at_index gs i))
     (map (\<lambda>f. write_str (fst f) @ write_type (snd f)) fs) [0..<length fs]))"
proof -
  have "length (write_type (snd p)) \<le> length (write_str (fst p) @ write_type (snd p))" by simp
  also have "\<dots> \<le> length (concat (map2 (\<lambda>b i. b @ write_opt write_str (group_at_index gs i))
     (map (\<lambda>f. write_str (fst f) @ write_type (snd f)) fs) [0..<length fs]))"
    by (rule length_member2) (use assms in auto)
  finally show ?thesis .
qed

lemma reads_type_n:
  "length (write_type t) \<le> n \<Longrightarrow> type_ok t \<Longrightarrow> reads (read_type_n n) (norm_type t) (write_type t)"
  "length (write_method m) \<le> n \<Longrightarrow> method_ok m \<Longrightarrow> reads (read_method (read_type_n n)) (norm_method m) (write_method m)"
proof (induction t and m arbitrary: n and n rule: write_type_write_method.induct)
  case (14 elem)
  then show ?case unfolding write_type.simps norm_type.simps
    by (intro reads_type_tag) (simp_all add: read_type_tagged_def reads_map)
next
  case (16 elem)
  then show ?case unfolding write_type.simps norm_type.simps
    by (intro reads_type_tag) (simp_all add: read_type_tagged_def reads_map)
next
  case (22 elem)
  then show ?case unfolding write_type.simps norm_type.simps
    by (intro reads_type_tag) (simp_all add: read_type_tagged_def reads_map)
next
  case (17 key v)
  then show ?case unfolding write_type.simps norm_type.simps
    by (intro reads_type_tag) (simp_all add: read_type_tagged_def reads_pair)
next
  case (18 key v)
  then show ?case unfolding write_type.simps norm_type.simps
    by (intro reads_type_tag) (simp_all add: read_type_tagged_def reads_pair)
next
  case (19 key v)
  then show ?case unfolding write_type.simps norm_type.simps
    by (intro reads_type_tag) (simp_all add: read_type_tagged_def reads_pair)
next
  case (20 key v)
  then show ?case unfolding write_type.simps norm_type.simps
    by (intro reads_type_tag) (simp_all add: read_type_tagged_def reads_pair)
next
  case (15 inner)
  then show ?case by simp
next
  case (23 name fs gs)
  show ?case unfolding write_type.simps norm_type.simps
  proof (rule reads_type_tag)
    fix m assume m: "length (write_str name @ u32_be (length fs) @ concat (map2 (\<lambda>b i. b @ write_opt write_str (group_at_index gs i))
         (map (\<lambda>f. write_str (fst f) @ write_type (snd f)) fs) [0..<length fs])) \<le> m"
    have "utf8_str (fst p) \<and> reads (read_type_n m) (norm_type (snd p)) (write_type (snd p))" if "p \<in> set fs" for p
      using 23(1) [OF that, of m] m length_struct_field [OF that, of gs] 23(3) that by (auto simp: list_all_iff)
    then show "reads (read_type_tagged (read_type_n m) 20)
        (TStruct name (map (\<lambda>f. (fst f, norm_type (snd f))) fs) (norm_groups (length fs) gs))
        (write_str name @ u32_be (length fs) @ concat (map2 (\<lambda>b i. b @ write_opt write_str (group_at_index gs i))
         (map (\<lambda>f. write_str (fst f) @ write_type (snd f)) fs) [0..<length fs]))"
      using 23(3) by (simp add: read_type_tagged_def) (rule reads_struct; simp)
  qed (use 23(2) in simp)
next
  case (24 elems)
  show ?case unfolding write_type.simps norm_type.simps
  proof (rule reads_type_tag)
    fix m assume m: "length (u32_be (length elems) @ concat (map write_type elems)) \<le> m"
    have "reads (read_vec (read_type_n m)) (map norm_type elems) (u32_be (length elems) @ concat (map write_type elems))"
      by (rule reads_vec_sub [OF m]) (use 24(1,3) in \<open>auto simp: list_all_iff\<close>)
    then show "reads (read_type_tagged (read_type_n m) 21) (TTuple (map norm_type elems))
        (u32_be (length elems) @ concat (map write_type elems))"
      by (simp add: read_type_tagged_def reads_map)
  qed (use 24(2) in simp)
next
  case (25 name vs)
  let ?w = "\<lambda>v. write_str (fst v) @ u32_be (length (snd v)) @ concat (map write_type (snd v))"
  show ?case unfolding write_type.simps norm_type.simps
  proof (rule reads_type_tag)
    fix m assume m: "length (write_str name @ u32_be (length vs) @ concat (map ?w vs)) \<le> m"
    have "reads (read_vec (read_field (read_vec (read_type_n m)))) (map (\<lambda>v. (fst v, map norm_type (snd v))) vs)
        (u32_be (length vs) @ concat (map ?w vs))"
    proof (rule reads_vec_sub [where m = m])
      fix v assume v: "v \<in> set vs" and l: "length (?w v) \<le> m"
      have "reads (read_vec (read_type_n m)) (map norm_type (snd v)) (u32_be (length (snd v)) @ concat (map write_type (snd v)))"
        by (rule reads_vec_sub [where m = m]) (use l 25(1,3) v in \<open>auto simp: list_all_iff\<close>)
      then show "reads (read_field (read_vec (read_type_n m))) (fst v, map norm_type (snd v)) (?w v)"
        using 25(3) v by (intro reads_field [where w = "\<lambda>ts. u32_be (length ts) @ concat (map write_type ts)"])
          (auto simp: list_all_iff)
    qed (use m 25(3) in auto)
    then show "reads (read_type_tagged (read_type_n m) 22) (TEnum name (map (\<lambda>v. (fst v, map norm_type (snd v))) vs))
        (write_str name @ u32_be (length vs) @ concat (map ?w vs))"
      using 25(3) by (simp add: read_type_tagged_def) (rule reads_bind [OF reads_str], simp, rule reads_map, simp)
  qed (use 25(2) in simp)
next
  case (26 name fs owner)
  let ?w = "\<lambda>f. write_str (fst f) @ write_type (snd f)"
  show ?case unfolding write_type.simps norm_type.simps
  proof (rule reads_type_tag)
    fix m assume m: "length (write_str name @ write_str owner @ u32_be (length fs) @ concat (map ?w fs)) \<le> m"
    have "reads (read_vec (read_field (read_type_n m))) (map (\<lambda>f. (fst f, norm_type (snd f))) fs) (u32_be (length fs) @ concat (map ?w fs))"
      by (rule reads_vec_sub [where m = m]) (use m 26(1,3) in \<open>auto simp: list_all_iff intro!: reads_field\<close>)
    then show "reads (read_type_tagged (read_type_n m) 25) (TCap name (map (\<lambda>f. (fst f, norm_type (snd f))) fs) owner)
        (write_str name @ write_str owner @ u32_be (length fs) @ concat (map ?w fs))"
      using 26(3) by (simp add: read_type_tagged_def)
        (rule reads_bind [OF reads_str], simp, rule reads_bind [OF reads_str], simp, rule reads_map, simp)
  qed (use 26(2) in simp)
next
  case (27 name ms)
  show ?case unfolding write_type.simps norm_type.simps
  proof (rule reads_type_tag)
    fix m assume m: "length (write_str name @ u32_be (length ms) @ concat (map write_method ms)) \<le> m"
    have "reads (read_vec (read_method (read_type_n m))) (map norm_method ms) (u32_be (length ms) @ concat (map write_method ms))"
      by (rule reads_vec_sub [where m = m]) (use m 27(1,3) in \<open>auto simp: list_all_iff\<close>)
    then show "reads (read_type_tagged (read_type_n m) 26) (TInterface name (map norm_method ms))
        (write_str name @ u32_be (length ms) @ concat (map write_method ms))"
      using 27(3) by (simp add: read_type_tagged_def) (rule reads_bind [OF reads_str], simp, rule reads_map, simp)
  qed (use 27(2) in simp)
next
  case (28 name ps rt is_view is_pure)
  have "reads (read_vec (read_type_n n)) (map norm_type ps) (u32_be (length ps) @ concat (map write_type ps))"
    by (rule reads_vec_sub [where m = n]) (use 28(1,3,4) in \<open>auto simp: list_all_iff\<close>)
  moreover have "reads (read_type_n n) (norm_type rt) (write_type rt)" using 28(2,3,4) by simp
  ultimately have "reads (read_method (read_type_n n)) (MethodSig name (map norm_type ps) (norm_type rt) is_view is_pure)
     (write_str name @ write_flag is_view @ write_flag is_pure @ (u32_be (length ps) @ concat (map write_type ps)) @ write_type rt)"
    unfolding read_method_def using 28(4)
    by - (rule reads_bind [OF reads_str], simp, rule reads_bind, rule wire_intros, rule reads_bind, rule wire_intros,
        rule reads_bind, assumption, rule reads_map)
  then show ?case by simp
qed (unfold write_type.simps norm_type.simps, (rule reads_type_leaf, simp, simp add: read_type_tagged_def)+)

lemma reads_read_type:
  assumes "type_ok t"
  shows "reads read_type (norm_type t) (write_type t)"
  unfolding reads_def
proof (intro allI)
  fix pre rest
  have "reads (read_type_n (Suc (length (write_type t @ rest)))) (norm_type t) (write_type t)"
    by (rule reads_type_n(1)) (use assms in simp_all)
  then show "read_type \<lparr>rd_bytes = pre @ write_type t @ rest, rd_pos = length pre\<rparr>
      = Some (Inr (norm_type t, \<lparr>rd_bytes = pre @ write_type t @ rest, rd_pos = length pre + length (write_type t)\<rparr>))"
    unfolding reads_def read_type_def by simp
qed

interpretation type_wire: wire_codec write_type read_type type_ok norm_type
  by unfold_locales (rule reads_read_type)

interpretation instr_wire: wire_codec write_instr read_instr instr_ok id
  by unfold_locales (simp add: reads_instr)

interpretation read_op_wire: wire_codec write_read_op read_read_op "\<lambda>_. True" id
  by unfold_locales (simp add: reads_read_op)

interpretation ops_wire: wire_codec "write_vec write_read_op" "read_vec read_read_op" small id
  by unfold_locales (use read_op_wire.reads_vec in \<open>simp add: list_all_iff\<close>)

subsection \<open>Functions\<close>

definition fn_ok :: "bigint_lib \<Rightarrow> bc_fn \<Rightarrow> bool" where
  "fn_ok L f \<longleftrightarrow> utf8_str (fn_name f) \<and> list_all type_ok (param_types f) \<and> small (param_types f) \<and> type_ok (return_type f)
     \<and> list_all (const_ok L) (consts_of f) \<and> small (consts_of f) \<and> list_all instr_ok (code f) \<and> small (code f)
     \<and> list_all small (read_groups f) \<and> small (read_groups f)"

definition norm_fn :: "bc_fn \<Rightarrow> bc_fn" where
  "norm_fn f = f\<lparr>param_types := map norm_type (param_types f), return_type := norm_type (return_type f)\<rparr>"

lemma reads_consts:
  "bigint_ok L \<Longrightarrow> list_all (const_ok L) cs \<Longrightarrow> small cs \<Longrightarrow> reads (read_vec (read_const L)) cs (write_vec (write_const L) cs)"
  using reads_vec_of [of cs "read_const L" id "write_const L"] by (simp add: write_vec_def list_all_iff reads_const)

lemma reads_bcfn:
  assumes "bigint_ok L" and "fn_ok L f"
  shows "reads (read_bcfn L) (norm_fn f) (write_bcfn L f)"
proof -
  have "reads (read_vec read_type) (map norm_type (param_types f)) (write_vec write_type (param_types f))"
    and "reads (read_vec read_instr) (code f) (write_vec write_instr (code f))"
    and "reads (read_vec (read_vec read_read_op)) (read_groups f) (write_vec (write_vec write_read_op) (read_groups f))"
    and "reads (read_vec (read_const L)) (consts_of f) (write_vec (write_const L) (consts_of f))"
    and "reads read_type (norm_type (return_type f)) (write_type (return_type f))"
    and "reads read_str (fn_name f) (write_str (fn_name f))"
    using assms type_wire.reads_vec [of "param_types f"] instr_wire.reads_vec [of "code f"] ops_wire.reads_vec [of "read_groups f"]
    by (simp_all add: fn_ok_def reads_consts reads_read_type reads_str)
  then have "reads (read_bcfn L) \<lparr>fn_name = fn_name f, n_params = n_params f, n_regs = n_regs f, code = code f,
      consts_of = consts_of f, is_entry = is_entry f, is_nore = is_nore f, read_groups = read_groups f,
      param_types = map norm_type (param_types f), return_type = norm_type (return_type f),
      fn_is_view = fn_is_view f, fn_is_pure = fn_is_pure f\<rparr> (write_bcfn L f)"
    unfolding read_bcfn_def write_bcfn_def
    by - (rule reads_bind, assumption, (rule reads_bind, rule wire_intros)+, rule reads_bind, assumption, rule reads_bind, assumption,
        rule reads_bind, assumption, rule reads_bind, assumption, rule reads_map)
  then show ?thesis by (cases f) (simp add: norm_fn_def)
qed

subsection \<open>Modules\<close>

definition shape_ok :: "struct_shape \<Rightarrow> bool" where
  "shape_ok s \<longleftrightarrow> utf8_str (ss_name s) \<and> small (field_names s) \<and> list_all utf8_str (field_names s)
     \<and> length (field_types s) = length (field_names s) \<and> list_all type_ok (field_types s)
     \<and> length (field_groups s) = length (field_names s) \<and> list_all (pred_option utf8_str) (field_groups s)"

definition norm_shape :: "struct_shape \<Rightarrow> struct_shape" where
  "norm_shape s = s\<lparr>field_types := map norm_type (field_types s)\<rparr>"

definition path_ok :: "path_spec \<Rightarrow> bool" where
  "path_ok p \<longleftrightarrow> type_ok (leaf_type p)"

definition norm_path :: "path_spec \<Rightarrow> path_spec" where
  "norm_path p = p\<lparr>leaf_type := norm_type (leaf_type p)\<rparr>"

definition enum_ok :: "enum_shape \<Rightarrow> bool" where
  "enum_ok e \<longleftrightarrow> utf8_str (es_name e) \<and> small (variant_names e) \<and> list_all utf8_str (variant_names e)"

definition iface_method_ok :: "iface_method \<Rightarrow> bool" where
  "iface_method_ok m \<longleftrightarrow> utf8_str (im_name m) \<and> small (im_params m) \<and>
     list_all (\<lambda>p. utf8_str (fst p) \<and> type_ok (snd p)) (im_params m) \<and> type_ok (im_return_type m)"

definition norm_iface_method :: "iface_method \<Rightarrow> iface_method" where
  "norm_iface_method m = m\<lparr>im_params := map (\<lambda>p. (fst p, norm_type (snd p))) (im_params m),
     im_return_type := norm_type (im_return_type m)\<rparr>"

definition iface_ok :: "iface_decl \<Rightarrow> bool" where
  "iface_ok i \<longleftrightarrow> utf8_str (id_name i) \<and> small (id_methods i) \<and> list_all iface_method_ok (id_methods i)"

definition norm_iface :: "iface_decl \<Rightarrow> iface_decl" where
  "norm_iface i = i\<lparr>id_methods := map norm_iface_method (id_methods i)\<rparr>"

definition handlers_ok :: "(string, u16 list) hashmap \<Rightarrow> bool" where
  "handlers_ok hs \<longleftrightarrow> hm_ok hs \<and> small hs \<and> list_all (\<lambda>e. utf8_str (fst e) \<and> small (snd e)) hs"

lemma reads_shape:
  assumes "shape_ok s"
  shows "\<exists>b. write_struct_shape s = Some b \<and> reads read_struct_shape (norm_shape s) b"
proof -
  let ?xs = "zip (field_names s) (zip (field_types s) (field_groups s))"
  let ?w = "\<lambda>(n, t, g). write_str n @ write_type t @ write_opt write_str g"
  let ?g = "\<lambda>(n, t, g). ((n, norm_type t), g)"
  have len: "length ?xs = length (field_names s)" using assms by (simp add: shape_ok_def)
  have elem: "reads (read_struct_field read_type) (?g x) (?w x)" if "x \<in> set ?xs" for x
  proof -
    obtain n t g where x: "x = (n, t, g)" by (cases x)
    with that have "n \<in> set (field_names s)" "t \<in> set (field_types s)" "g \<in> set (field_groups s)"
      by (auto dest: set_zip_leftD set_zip_rightD)
    then show ?thesis using assms reads_struct_field [of "(n, t)" read_type norm_type write_type g]
      by (simp add: x shape_ok_def list_all_iff reads_read_type)
  qed
  have "reads (read_vec (read_struct_field read_type)) (map ?g ?xs) (u32_be (length ?xs) @ concat (map ?w ?xs))"
    using assms by (intro reads_vec_of elem) (simp_all add: len shape_ok_def)
  moreover have "reads read_str (ss_name s) (write_str (ss_name s))" using assms by (simp add: shape_ok_def reads_str)
  ultimately have "reads read_struct_shape \<lparr>ss_name = ss_name s, field_names = map (\<lambda>f. fst (fst f)) (map ?g ?xs),
      field_types = map (\<lambda>f. snd (fst f)) (map ?g ?xs), field_groups = map snd (map ?g ?xs), is_pub = is_pub s\<rparr>
      (write_str (ss_name s) @ (u32_be (length ?xs) @ concat (map ?w ?xs)) @ write_flag (is_pub s))"
    unfolding read_struct_shape_def
    by - (rule reads_bind, assumption, rule reads_bind, assumption, rule reads_map, rule wire_intros)
  moreover have "map (\<lambda>f. fst (fst f)) (map ?g ?xs) = field_names s" "map (\<lambda>f. snd (fst f)) (map ?g ?xs) = map norm_type (field_types s)"
    "map snd (map ?g ?xs) = field_groups s"
    using assms by (simp_all add: shape_ok_def list_eq_iff_nth_eq split_beta)
  ultimately have "reads read_struct_shape (norm_shape s)
      (write_str (ss_name s) @ (u32_be (length ?xs) @ concat (map ?w ?xs)) @ write_flag (is_pub s))"
    by (cases s) (simp add: norm_shape_def)
  then show ?thesis using assms by (simp add: write_struct_shape_def shape_ok_def)
qed

interpretation path_wire: wire_codec write_path_spec read_path_spec path_ok norm_path
proof
  fix p assume "path_ok p"
  then have "reads read_type (norm_type (leaf_type p)) (write_type (leaf_type p))"
    by (simp add: path_ok_def reads_read_type)
  then have "reads read_path_spec \<lparr>leaf_key = leaf_key p, leaf_type = norm_type (leaf_type p), is_blob = is_blob p\<rparr> (write_path_spec p)"
    unfolding read_path_spec_def write_path_spec_def
    by - (rule reads_bind, rule wire_intros, rule reads_bind, assumption, rule reads_map, rule wire_intros)
  then show "reads read_path_spec (norm_path p) (write_path_spec p)" by (cases p) (simp add: norm_path_def)
qed

interpretation enum_wire: wire_codec write_enum_shape read_enum_shape enum_ok id
proof
  fix e assume e: "enum_ok e"
  then have "reads (read_vec read_str) (variant_names e) (write_vec write_str (variant_names e))"
    using str_wire.reads_vec [of "variant_names e"] by (simp add: enum_ok_def)
  then have "reads read_enum_shape \<lparr>es_name = es_name e, variant_names = variant_names e\<rparr> (write_enum_shape e)"
    unfolding read_enum_shape_def write_enum_shape_def using e
    by - (rule reads_bind, rule reads_str, simp add: enum_ok_def, rule reads_map)
  then show "reads read_enum_shape (id e) (write_enum_shape e)" by (cases e) simp
qed

interpretation method_wire: wire_codec write_iface_method read_iface_method iface_method_ok norm_iface_method
proof
  fix m assume m: "iface_method_ok m"
  have "reads (read_vec (read_field read_type)) (map (\<lambda>p. (fst p, norm_type (snd p))) (im_params m))
      (write_vec (\<lambda>p. write_str (fst p) @ write_type (snd p)) (im_params m))"
    unfolding write_vec_def using m
    by (intro reads_vec_of reads_field) (auto simp: iface_method_ok_def list_all_iff reads_read_type)
  moreover have "reads read_type (norm_type (im_return_type m)) (write_type (im_return_type m))"
    and "reads read_str (im_name m) (write_str (im_name m))"
    using m by (simp_all add: iface_method_ok_def reads_read_type reads_str)
  ultimately have "reads read_iface_method \<lparr>im_name = im_name m, im_params = map (\<lambda>p. (fst p, norm_type (snd p))) (im_params m),
      im_return_type = norm_type (im_return_type m), im_is_view = im_is_view m, im_is_pure = im_is_pure m\<rparr> (write_iface_method m)"
    unfolding read_iface_method_def write_iface_method_def
    by - (rule reads_bind, assumption, (rule reads_bind, rule wire_intros)+, rule reads_bind, assumption, rule reads_map)
  then show "reads read_iface_method (norm_iface_method m) (write_iface_method m)"
    by (cases m) (simp add: norm_iface_method_def)
qed

interpretation iface_wire: wire_codec write_iface read_iface iface_ok norm_iface
proof
  fix i assume i: "iface_ok i"
  then have "reads (read_vec read_iface_method) (map norm_iface_method (id_methods i)) (write_vec write_iface_method (id_methods i))"
    by (intro method_wire.reads_vec) (simp_all add: iface_ok_def)
  then have "reads read_iface \<lparr>id_name = id_name i, id_methods = map norm_iface_method (id_methods i)\<rparr> (write_iface i)"
    unfolding read_iface_def write_iface_def using i
    by - (rule reads_bind, rule reads_str, simp add: iface_ok_def, rule reads_map)
  then show "reads read_iface (norm_iface i) (write_iface i)" by (cases i) (simp add: norm_iface_def)
qed

interpretation handler_wire: wire_codec write_handler read_handler "\<lambda>e. utf8_str (fst e) \<and> small (snd e)" id
proof
  fix e :: "string \<times> u16 list" assume e: "utf8_str (fst e) \<and> small (snd e)"
  have "reads (read_vec read_u16) (snd e) (write_vec write_u16 (snd e))"
    using u16_wire.reads_vec [of "snd e"] e by (simp add: list_all_iff)
  then show "reads read_handler (id e) (write_handler e)"
    using reads_field [of e "read_vec read_u16" id "write_vec write_u16"] e by (simp add: read_handler_def write_handler_def)
qed

definition default_ok :: "bigint_lib \<Rightarrow> ty \<Rightarrow> val \<Rightarrow> bool" where
  "default_ok L t v \<longleftrightarrow> wt L (norm_type t) v \<and> (\<forall>b. serialize L v = Some b \<longrightarrow> small b)"

lemma default_bytes:
  assumes "bigint_ok L" and "default_ok L t v"
  obtains b where "serialize L v = Some b" "deserialize L b (norm_type t) = Got v" "small b"
    "write_default L v = Some (u32_be (length b) @ b)"
proof -
  have "\<exists>b. serialize L v = Some b \<and> deserialize L b (norm_type t) = Got v"
    using wt_vcodec [OF _ assms(1), of "norm_type t" v] assms(2) by (auto simp: default_ok_def vcodec_def codec_def vc_def)
  with assms(2) that show thesis by (auto simp: default_ok_def write_default_def)
qed

lemma reads_defaults:
  assumes "bigint_ok L" and "list_all2 (default_ok L) (drop i ts) vs"
  shows "\<exists>bs. mapM (write_default L) vs = Some bs \<and> reads (read_defaults L (map norm_type ts) i (length vs)) vs (concat bs)"
  using assms(2)
proof (induction vs arbitrary: i rule: list.induct)
  case Nil
  then show ?case by (simp add: reads_ret)
next
  case (Cons v vs)
  then have i: "i < length ts" by (auto simp: list_all2_Cons2 intro: ccontr)
  then have d: "drop i ts = ts ! i # drop (Suc i) ts" by (simp add: Cons_nth_drop_Suc)
  with Cons.prems have v: "default_ok L (ts ! i) v" and vs: "list_all2 (default_ok L) (drop (Suc i) ts) vs" by auto
  obtain b where b: "deserialize L b (norm_type (ts ! i)) = Got v" "small b" "write_default L v = Some (u32_be (length b) @ b)"
    using default_bytes [OF assms(1) v] by metis
  obtain bs where bs: "mapM (write_default L) vs = Some bs"
    "reads (read_defaults L (map norm_type ts) (Suc i) (length vs)) vs (concat bs)" using Cons.IH [OF vs] by blast
  have "reads (rd_bind (take_bytes (length b)) (\<lambda>c. case deserialize L c (norm_type (ts ! i)) of
       Got v \<Rightarrow> rd_map (Cons v) (read_defaults L (map norm_type ts) (Suc i) (length vs))
     | Miss \<Rightarrow> rd_fail BadStateDefault | Panic \<Rightarrow> rd_panic)) (v # vs) (b @ concat bs)"
    by (rule reads_bind [OF reads_take]) (use b(1) bs(2) in \<open>simp_all add: reads_map\<close>)
  then have "reads (read_defaults L (map norm_type ts) i (length (v # vs))) (v # vs) (u32_be (length b) @ b @ concat bs)"
    using i b(2) by (simp, intro reads_u32_be) (simp_all add: unat_of_nat)
  then show ?case using b(3) bs(1) by simp
qed

definition module_ok :: "bigint_lib \<Rightarrow> bc_module \<Rightarrow> bool" where
  "module_ok L m \<longleftrightarrow> utf8_str (mod_name m) \<and> small (imports_of m) \<and> list_all utf8_str (imports_of m)
     \<and> small (state_roots m) \<and> small (state_types m) \<and> list_all type_ok (state_types m)
     \<and> list_all2 (default_ok L) (state_types m) (state_defaults m)
     \<and> small (state_names m) \<and> list_all utf8_str (state_names m)
     \<and> small (struct_shapes m) \<and> list_all shape_ok (struct_shapes m)
     \<and> small (functions_of m) \<and> list_all (fn_ok L) (functions_of m)
     \<and> small (path_specs m) \<and> list_all path_ok (path_specs m)
     \<and> small (enum_shapes m) \<and> list_all enum_ok (enum_shapes m)
     \<and> small (interfaces_of m) \<and> list_all iface_ok (interfaces_of m) \<and> handlers_ok (handler_dispatch m)"

definition norm_module :: "bc_module \<Rightarrow> bc_module" where
  "norm_module m = m\<lparr>import_index := index_names (imports_of m),
     state_types := map norm_type (state_types m), state_index := index_names (state_names m),
     struct_shapes := map norm_shape (struct_shapes m), struct_index := index_names (map ss_name (struct_shapes m)),
     functions_of := map norm_fn (functions_of m), fn_index := index_names (map fn_name (functions_of m)),
     path_specs := map norm_path (path_specs m), handler_dispatch := sorted_handlers (handler_dispatch m),
     enum_index := index_names (map es_name (enum_shapes m)),
     interfaces_of := map norm_iface (interfaces_of m), interface_index := index_names (map id_name (interfaces_of m))\<rparr>"

lemma hm_extend_fresh: "hm_ok (m @ ps) \<Longrightarrow> hm_extend m ps = m @ ps"
proof (induction ps arbitrary: m)
  case (Cons p ps)
  have "AList.update k v xs = xs @ [(k, v)]" if "k \<notin> fst ` set xs" for k :: 'a and v :: 'b and xs
    using that by (induction xs) auto
  then have "hm_insert (fst p) (snd p) m = m @ [p]" using Cons.prems by (auto simp: hm_insert_def hm_ok_def)
  then show ?case using Cons by simp
qed simp

lemma handlers_read:
  assumes "handlers_ok hs"
  shows "reads (read_vec read_handler) (sorted_handlers hs) (write_vec write_handler (sorted_handlers hs))"
    and "hm_extend [] (sorted_handlers hs) = sorted_handlers hs"
proof -
  have "set (sorted_handlers hs) = set hs" "length (sorted_handlers hs) = length hs" by (simp_all add: sorted_handlers_def)
  then show "reads (read_vec read_handler) (sorted_handlers hs) (write_vec write_handler (sorted_handlers hs))"
    using handler_wire.reads_vec [of "sorted_handlers hs"] assms by (simp add: handlers_ok_def list_all_iff)
  have "distinct (map fst (sorted_handlers hs)) = distinct (map fst hs)" by (simp add: sorted_handlers_def distinct_map)
  then show "hm_extend [] (sorted_handlers hs) = sorted_handlers hs"
    using assms hm_extend_fresh [of "[]" "sorted_handlers hs"] by (simp add: handlers_ok_def hm_ok_def)
qed

lemma reads_shapes:
  assumes "list_all shape_ok ss" and "small ss"
  shows "\<exists>bs. mapM write_struct_shape ss = Some bs \<and> reads (read_vec read_struct_shape) (map norm_shape ss) (write_vec (\<lambda>b. b) bs)"
proof -
  have all: "write_struct_shape s = Some (the (write_struct_shape s)) \<and> reads read_struct_shape (norm_shape s) (the (write_struct_shape s))"
    if "s \<in> set ss" for s
    using assms(1) that reads_shape [of s] by (auto simp: list_all_iff)
  then have "mapM write_struct_shape ss = Some (map (\<lambda>s. the (write_struct_shape s)) ss)" by (intro mapM_Some) blast
  moreover have "reads (read_vec read_struct_shape) (map norm_shape ss)
      (u32_be (length ss) @ concat (map (\<lambda>s. the (write_struct_shape s)) ss))"
    using all assms(2) by (intro reads_vec_of) blast+
  ultimately show ?thesis by (simp add: write_vec_def)
qed

lemma unat_small: "n < 2 ^ 32 \<Longrightarrow> unat (of_nat n :: u32) = n"
  by (simp add: unat_of_nat)

lemma reads_module_parts:
  assumes "bigint_ok L" and "module_ok L m"
  shows "reads read_str (mod_name m) (write_str (mod_name m))"
    and "reads (read_vec read_str) (imports_of m) (write_vec write_str (imports_of m))"
    and "reads (read_vec read_u128) (state_roots m) (write_vec write_u128 (state_roots m))"
    and "reads (read_vec read_type) (map norm_type (state_types m)) (write_vec write_type (state_types m))"
    and "reads (read_vec read_str) (state_names m) (write_vec write_str (state_names m))"
    and "reads (read_vec (read_bcfn L)) (map norm_fn (functions_of m)) (write_vec (write_bcfn L) (functions_of m))"
    and "reads (read_vec read_path_spec) (map norm_path (path_specs m)) (write_vec write_path_spec (path_specs m))"
    and "reads (read_vec read_enum_shape) (enum_shapes m) (write_vec write_enum_shape (enum_shapes m))"
    and "reads (read_vec read_iface) (map norm_iface (interfaces_of m)) (write_vec write_iface (interfaces_of m))"
    and "reads (read_vec read_handler) (sorted_handlers (handler_dispatch m)) (write_vec write_handler (sorted_handlers (handler_dispatch m)))"
  using assms reads_vec_of [of "functions_of m" "read_bcfn L" norm_fn "write_bcfn L"]
      str_wire.reads_vec u128_wire.reads_vec [of "state_roots m"] type_wire.reads_vec path_wire.reads_vec
      enum_wire.reads_vec [of "enum_shapes m"] iface_wire.reads_vec handlers_read(1)
  by (simp_all add: module_ok_def reads_str reads_bcfn list_all_iff write_vec_def)

lemma reads_module:
  assumes "bigint_ok L" and ok: "module_ok L m"
  shows "\<exists>b. write_module L m = Some b \<and> reads (read_module L) (norm_module m) b"
proof -
  obtain defs where defs: "mapM (write_default L) (state_defaults m) = Some defs"
    "reads (read_defaults L (map norm_type (state_types m)) 0 (length (state_defaults m))) (state_defaults m) (concat defs)"
    using reads_defaults [OF assms(1), of 0 "state_types m" "state_defaults m"] ok by (auto simp: module_ok_def)
  obtain shapes where shapes: "mapM write_struct_shape (struct_shapes m) = Some shapes"
    "reads (read_vec read_struct_shape) (map norm_shape (struct_shapes m)) (write_vec (\<lambda>b. b) shapes)"
    using reads_shapes [of "struct_shapes m"] ok by (auto simp: module_ok_def)
  have n: "length (state_defaults m) < 2 ^ 32" "length defs = length (state_defaults m)"
    using ok list_all2_lengthD [of "default_ok L" "state_types m" "state_defaults m"] mapM_length [OF defs(1)]
    by (simp_all add: module_ok_def)
  note parts = reads_module_parts [OF assms]
  let ?b = "write_str (mod_name m) @ write_vec write_str (imports_of m) @ write_vec write_u128 (state_roots m)
    @ write_vec write_type (state_types m) @ u32_be (length (state_defaults m)) @ concat defs @ write_vec write_str (state_names m)
    @ write_vec (\<lambda>b. b) shapes @ write_vec (write_bcfn L) (functions_of m) @ write_vec write_path_spec (path_specs m)
    @ write_vec write_enum_shape (enum_shapes m) @ write_vec write_iface (interfaces_of m)
    @ write_vec write_handler (sorted_handlers (handler_dispatch m))"
  have "reads (read_module L) \<lparr>mod_name = mod_name m, imports_of = imports_of m, import_index = index_names (imports_of m),
         state_roots = state_roots m, state_types = map norm_type (state_types m), state_defaults = state_defaults m,
         state_names = state_names m, state_index = index_names (state_names m),
         struct_shapes = map norm_shape (struct_shapes m), struct_index = index_names (map ss_name (map norm_shape (struct_shapes m))),
         functions_of = map norm_fn (functions_of m), fn_index = index_names (map fn_name (map norm_fn (functions_of m))),
         path_specs = map norm_path (path_specs m), handler_dispatch = hm_extend [] (sorted_handlers (handler_dispatch m)),
         enum_shapes = enum_shapes m, enum_index = index_names (map es_name (enum_shapes m)),
         interfaces_of = map norm_iface (interfaces_of m), interface_index = index_names (map id_name (map norm_iface (interfaces_of m)))\<rparr> ?b"
    unfolding read_module_def
    by (rule reads_bind [OF parts(1)], rule reads_bind [OF parts(2)], rule reads_bind [OF parts(3)], rule reads_bind [OF parts(4)],
        rule reads_u32_be [OF n(1)], unfold unat_small [OF n(1)], rule reads_bind [OF defs(2)], rule reads_bind [OF parts(5)],
        rule reads_bind [OF shapes(2)], rule reads_bind [OF parts(6)], rule reads_bind [OF parts(7)], rule reads_bind [OF parts(8)],
        rule reads_bind [OF parts(9)], rule reads_map [OF parts(10)])
  moreover have "map ss_name (map norm_shape xs) = map ss_name xs" "map fn_name (map norm_fn ys) = map fn_name ys"
    "map id_name (map norm_iface zs) = map id_name zs" for xs ys zs
    by (simp_all add: norm_shape_def norm_fn_def norm_iface_def comp_def)
  moreover have "hm_extend [] (sorted_handlers (handler_dispatch m)) = sorted_handlers (handler_dispatch m)"
    using ok by (intro handlers_read(2)) (simp add: module_ok_def)
  ultimately have "reads (read_module L) (norm_module m) ?b"
    by (cases m) (simp add: norm_module_def del: map_map)
  moreover have "write_module L m = Some ?b" by (simp add: write_module_def defs(1) shapes(1) write_vec_def [where w = "\<lambda>b. b"] n(2))
  ultimately show ?thesis by blast
qed

end
