(* ===== verification/ArtifactProps.thy ===== *)
theory ArtifactProps
  imports ArtifactCodec
begin

section \<open>Properties of artifacts\<close>

text \<open>
  Round trip of whole artifacts with a stable content hash, termination of the recursive reader,
  rejection of every truncation, and a module the compiler accepts whose artifact is refused.
\<close>

subsection \<open>Encoding forgets only what normalization forgets\<close>

lemma length_norm_groups [simp]: "i < n \<Longrightarrow> group_at_index (norm_groups n gs) i = group_at_index gs i"
proof -
  assume "i < n"
  moreover have "group_at_index (normal_groups hs) i = group_at_index hs i" for hs
    by (auto simp: normal_groups_def group_at_index_def list_all_length)
  ultimately show ?thesis by (simp add: norm_groups_def) (simp add: group_at_index_def [of "map _ _"])
qed

lemma write_type_norm:
  "write_type (norm_type t) = write_type t"
  "write_method (norm_method m) = write_method m"
proof (induction t and m rule: norm_type_norm_method.induct)
  case (9 name fs gs)
  have "map (\<lambda>f. write_str (fst f) @ write_type (snd f)) (map (\<lambda>f. (fst f, norm_type (snd f))) fs)
      = map (\<lambda>f. write_str (fst f) @ write_type (snd f)) fs"
    using 9 by simp
  moreover have "map2 (\<lambda>b i. b @ write_opt write_str (group_at_index (norm_groups (length fs) gs) i)) bs [0..<length fs]
      = map2 (\<lambda>b i. b @ write_opt write_str (group_at_index gs i)) bs [0..<length fs]" for bs
    by (auto simp: set_zip)
  ultimately show ?case by (simp only: norm_type.simps write_type.simps length_map)
qed (simp_all add: comp_def cong: map_cong)

lemma write_module_norm:
  assumes "write_module L m = Some b"
  shows "write_module L (norm_module m) = Some b"
proof -
  have shape: "write_struct_shape (norm_shape s) = write_struct_shape s" for s
  proof -
    have "map (\<lambda>(n, t, g). write_str n @ write_type t @ write_opt write_str g)
        (zip ns (zip (map norm_type ts) gs)) = map (\<lambda>(n, t, g). write_str n @ write_type t @ write_opt write_str g) (zip ns (zip ts gs))"
      for ns ts gs
      by (simp add: zip_map1 zip_map2 comp_def split_beta write_type_norm)
    then show ?thesis by (simp add: write_struct_shape_def norm_shape_def)
  qed
  have vec: "write_vec w (map f xs) = write_vec w xs" if "\<And>x. w (f x) = w x" for w :: "'x \<Rightarrow> bytes" and f xs
    by (simp add: write_vec_def comp_def that)
  have fn: "write_bcfn L (norm_fn f) = write_bcfn L f" for f
    by (simp add: write_bcfn_def norm_fn_def vec write_type_norm)
  have path: "write_path_spec (norm_path p) = write_path_spec p" for p
    by (simp add: write_path_spec_def norm_path_def write_type_norm)
  have meth: "write_iface_method (norm_iface_method i) = write_iface_method i" for i
    by (simp add: write_iface_method_def norm_iface_method_def vec write_type_norm)
  have iface: "write_iface (norm_iface i) = write_iface i" for i
    by (simp add: write_iface_def norm_iface_def vec meth)
  have "mapM write_struct_shape (map norm_shape ss) = mapM write_struct_shape ss" for ss
    by (induction ss) (simp_all add: shape)
  moreover have "sorted_handlers (sorted_handlers hs) = sorted_handlers hs" for hs
    unfolding sorted_handlers_def by (rule sort_key_id_if_sorted) simp
  ultimately show ?thesis using assms
    by (simp add: write_module_def norm_module_def vec fn path iface write_type_norm)
qed

subsection \<open>The round trip\<close>

lemma reads_modules:
  assumes "bigint_ok L" and "list_all (module_ok L) ms" and "small ms"
  shows "\<exists>bss. mapM (write_module L) ms = Some bss \<and> reads (read_vec (read_module L)) (map norm_module ms) (write_vec (\<lambda>b. b) bss)"
proof -
  have all: "write_module L m = Some (the (write_module L m)) \<and> reads (read_module L) (norm_module m) (the (write_module L m))"
    if "m \<in> set ms" for m
    using assms(1,2) that reads_module [of L m] by (auto simp: list_all_iff)
  then have "mapM (write_module L) ms = Some (map (\<lambda>m. the (write_module L m)) ms)" by (intro mapM_Some) blast
  moreover have "reads (read_vec (read_module L)) (map norm_module ms) (u32_be (length ms) @ concat (map (\<lambda>m. the (write_module L m)) ms))"
    using all assms(3) by (intro reads_vec_of) blast+
  ultimately show ?thesis by (simp add: write_vec_def)
qed

lemma encode_reads:
  assumes "bigint_ok L" and "list_all (module_ok L) ms" and "small ms"
  shows "\<exists>bs. encode L ms = Some bs \<and> reads (decode_body L) (map norm_module ms) bs"
proof -
  obtain bss where bss: "mapM (write_module L) ms = Some bss"
    "reads (read_vec (read_module L)) (map norm_module ms) (write_vec (\<lambda>b. b) bss)" using reads_modules [OF assms] by blast
  have "reads (decode_body L) (map norm_module ms) (MAGIC @ [VERSION_MAJOR] @ [VERSION_MINOR] @ write_vec (\<lambda>b. b) bss)"
    unfolding decode_body_def
    by (rule reads_bind [OF reads_take], simp add: MAGIC_def as_bytes_def, simp only: if_False simp_thms,
        rule reads_bind [OF reads_u8], rule reads_bind [OF reads_u8], simp add: bss(2))
  then show ?thesis using bss(1) by (simp add: encode_def)
qed

lemma reads_decode:
  assumes "reads (decode_body L) ms bs"
  shows "decode L bs = Some (Inr ms)"
proof -
  have "decode_body L (reader_new bs) = Some (Inr (ms, \<lparr>rd_bytes = bs, rd_pos = length bs\<rparr>))"
    using assms [unfolded reads_def, rule_format, of "[]" "[]"] by (simp add: reader_new_def)
  then show ?thesis by (simp add: decode_def)
qed

lemma encode_norm:
  assumes "encode L ms = Some bs"
  shows "encode L (map norm_module ms) = Some bs"
proof -
  have "mapM (write_module L) ms = Some bss \<Longrightarrow> mapM (write_module L) (map norm_module ms) = Some bss" for bss
    by (induction ms arbitrary: bss) (auto simp: write_module_norm split: bind_splits)
  then show ?thesis using assms by (auto simp: encode_def split: bind_splits)
qed


subsection \<open>Totality\<close>

lemma returns_take [total_intros]: "returns n (take_bytes k)"
  by (auto simp: returns_def take_bytes_def unread_def)

lemmas read_defs = read_u8_def read_u16_def rd_u32_def read_u64_def read_u128_def read_i32_def read_flag_def
  read_opt_def read_vec_def

lemma returns_str [total_intros]: "returns n read_str"
  unfolding read_str_def rd_u32_def by (intro total_intros) (simp add: total_intros split: option.splits)

lemma returns_prims [total_intros]:
  "returns n read_u8" "returns n read_u16" "returns n rd_u32" "returns n read_u64" "returns n read_u128"
  "returns n read_i32" "returns n read_flag" "returns n f \<Longrightarrow> returns n (read_opt f)" "returns n f \<Longrightarrow> returns n (read_vec f)"
  unfolding read_defs by (intro total_intros; assumption)+

lemma returns_type_tagged: "returns n f \<Longrightarrow> returns n (read_type_tagged f tag)"
  unfolding read_type_tagged_def read_pair_def read_field_def read_struct_field_def read_method_def
  by (intro total_intros)

lemma u8_step:
  "unread r = 0 \<and> (\<exists>e. rd_bind read_u8 k r = Some (Inl e))
   \<or> (\<exists>t. rd_bind read_u8 k r = k t (r\<lparr>rd_pos := rd_pos r + 1\<rparr>) \<and> Suc (unread (r\<lparr>rd_pos := rd_pos r + 1\<rparr>)) = unread r)"
  by (auto simp: rd_bind_def read_u8_def rd_map_def take_bytes_def rd_ret_def unread_def)

lemma returns_end: "returns 0 (rd_bind read_u8 k)"
  unfolding returns_def
proof (intro allI impI)
  fix r assume "unread r \<le> 0"
  with u8_step [of r k] show "(\<exists>e. rd_bind read_u8 k r = Some (Inl e))
      \<or> (\<exists>x r'. rd_bind read_u8 k r = Some (Inr (x, r')) \<and> unread r' \<le> unread r)" by auto
qed

lemma returns_consumed:
  assumes "\<And>t. returns n (k t)"
  shows "returns (Suc n) (rd_bind read_u8 k)"
  unfolding returns_def
proof (intro allI impI)
  fix r assume le: "unread r \<le> Suc n"
  from u8_step [of r k] show "(\<exists>e. rd_bind read_u8 k r = Some (Inl e))
      \<or> (\<exists>x r'. rd_bind read_u8 k r = Some (Inr (x, r')) \<and> unread r' \<le> unread r)"
  proof (elim disjE exE conjE)
    fix t assume t: "rd_bind read_u8 k r = k t (r\<lparr>rd_pos := rd_pos r + 1\<rparr>)" "Suc (unread (r\<lparr>rd_pos := rd_pos r + 1\<rparr>)) = unread r"
    then have "unread (r\<lparr>rd_pos := rd_pos r + 1\<rparr>) \<le> n" using le by simp
    from assms [unfolded returns_def, rule_format, OF this, of t] show ?thesis using t by auto
  qed simp
qed

lemma returns_type_n: "returns n (read_type_n (Suc n))"
proof (induction n)
  case 0
  show ?case unfolding read_type_n.simps(2) by (rule returns_end)
next
  case (Suc n)
  then show ?case unfolding read_type_n.simps(2) [of "Suc n"] by (intro returns_consumed returns_type_tagged)
qed

lemma read_type_n_returns: "unread r < n \<Longrightarrow> read_type_n n r \<noteq> None"
  using returns_type_n [of "n - 1", unfolded returns_def, rule_format, of r] by (cases n) (auto simp del: read_type_n.simps)

text \<open>\<^verbatim>\<open>read_type\<close> terminates on every input. Whatever bytes are left, the recursive
  descent returns a type or a decoding error: nesting is bounded by the input, since every call
  consumes its tag before it recurses.\<close>

theorem read_type_total: "\<exists>res. read_type r = Some res"
  using read_type_n_returns [of r "Suc (unread r)"] by (simp add: read_type_def unread_def)

subsection \<open>The recursion measure does not matter\<close>

lemma below_vec [below_intros]: "below f f' \<Longrightarrow> below (read_vec f) (read_vec f')"
  unfolding read_vec_def by (intro below_intros)

lemma below_tagged: "below f f' \<Longrightarrow> below (read_type_tagged f tag) (read_type_tagged f' tag)"
  unfolding read_type_tagged_def read_pair_def read_field_def read_struct_field_def read_method_def
  by (intro below_intros)

lemma below_type_Suc: "below (read_type_n n) (read_type_n (Suc n))"
proof (induction n)
  case 0
  show ?case by (simp add: below_def rd_panic_def)
next
  case (Suc n)
  then show ?case unfolding read_type_n.simps(2) by (intro below_bind below_refl below_tagged)
qed

lemma below_type_n: "below (read_type_n n) (read_type_n (n + k))"
proof (induction k)
  case (Suc k)
  then show ?case using below_type_Suc [of "n + k"] unfolding below_def by simp
qed (simp add: below_refl)

lemma read_type_fuel:
  assumes "unread r < n"
  shows "read_type r = read_type_n n r"
proof -
  have "read_type_n n r = read_type_n (Suc (unread r)) r"
    using below_type_n [of "Suc (unread r)" "n - Suc (unread r)", unfolded below_def, rule_format]
      read_type_n_returns [of r "Suc (unread r)"] assms by simp
  then show ?thesis by (simp add: read_type_def unread_def)
qed

subsection \<open>Truncation is always noticed\<close>

abbreviation cut :: "nat \<Rightarrow> reader \<Rightarrow> reader" where
  "cut k r \<equiv> r\<lparr>rd_bytes := take k (rd_bytes r)\<rparr>"

definition trims :: "'a rd \<Rightarrow> bool" where
  \<comment> \<open>a successful step reads a window of the slice; cut inside the window it reports truncation, cut
     behind it nothing changes\<close>
  "trims f \<longleftrightarrow> (\<forall>r x r'. rd_pos r \<le> length (rd_bytes r) \<longrightarrow> f r = Some (Inr (x, r')) \<longrightarrow>
     rd_bytes r' = rd_bytes r \<and> rd_pos r \<le> rd_pos r' \<and> rd_pos r' \<le> length (rd_bytes r) \<and>
     (\<forall>k. rd_pos r \<le> k \<longrightarrow> (if rd_pos r' \<le> k then f (cut k r) = Some (Inr (x, cut k r'))
        else \<exists>n p h. f (cut k r) = Some (Inl (Truncated n p h)))))"

named_theorems trim_intros \<open>decoding steps that notice truncation\<close>

lemma trimsD:
  assumes "trims f" and "rd_pos r \<le> length (rd_bytes r)" and "f r = Some (Inr (x, r'))"
  shows "rd_bytes r' = rd_bytes r" and "rd_pos r \<le> rd_pos r'" and "rd_pos r' \<le> length (rd_bytes r)"
    and "rd_pos r' \<le> k \<Longrightarrow> f (cut k r) = Some (Inr (x, cut k r'))"
    and "rd_pos r \<le> k \<Longrightarrow> k < rd_pos r' \<Longrightarrow> \<exists>n p h. f (cut k r) = Some (Inl (Truncated n p h))"
  using assms(1) [unfolded trims_def, rule_format, OF assms(2,3)] by (auto split: if_splits)

lemma trims_ret [trim_intros]: "trims (rd_ret x)"
  by (simp add: trims_def rd_ret_def)

lemma trims_fail [trim_intros]: "trims (rd_fail e)"
  by (simp add: trims_def rd_fail_def)

lemma trims_panic [trim_intros]: "trims rd_panic"
  by (simp add: trims_def rd_panic_def)

lemma trims_take [trim_intros]: "trims (take_bytes n)"
  by (auto simp: trims_def take_bytes_def take_drop min_def split: if_splits)

lemma trims_bind [trim_intros]:
  assumes "trims f" and "\<And>x. trims (g x)"
  shows "trims (rd_bind f g)"
  unfolding trims_def
proof (intro allI impI)
  fix r y r2 assume pos: "rd_pos r \<le> length (rd_bytes r)" and b: "rd_bind f g r = Some (Inr (y, r2))"
  from b obtain x r1 where f: "f r = Some (Inr (x, r1))" and g: "g x r1 = Some (Inr (y, r2))"
    by (auto simp: rd_bind_def split: option.splits sum.splits)
  note F = trimsD [OF assms(1) pos f]
  have pos1: "rd_pos r1 \<le> length (rd_bytes r1)" using F by simp
  note G = trimsD [OF assms(2) pos1 g]
  have cuts: "if rd_pos r2 \<le> k then rd_bind f g (cut k r) = Some (Inr (y, cut k r2))
      else \<exists>n p h. rd_bind f g (cut k r) = Some (Inl (Truncated n p h))" if k: "rd_pos r \<le> k" for k
  proof (cases "rd_pos r1 \<le> k")
    case True
    then have "f (cut k r) = Some (Inr (x, cut k r1))" by (rule F(4))
    then show ?thesis using G(4,5) [of k] True by (auto simp: rd_bind_def not_le)
  next
    case False
    then obtain n p h where "f (cut k r) = Some (Inl (Truncated n p h))" using F(5) [of k] k by auto
    then show ?thesis using False G(2) by (simp add: rd_bind_def)
  qed
  then show "rd_bytes r2 = rd_bytes r \<and> rd_pos r \<le> rd_pos r2 \<and> rd_pos r2 \<le> length (rd_bytes r)
      \<and> (\<forall>k. rd_pos r \<le> k \<longrightarrow> (if rd_pos r2 \<le> k then rd_bind f g (cut k r) = Some (Inr (y, cut k r2))
        else \<exists>n p h. rd_bind f g (cut k r) = Some (Inl (Truncated n p h))))"
    using F(1,2) G(1,2,3) by simp
qed

lemma trims_map [trim_intros]: "trims f \<Longrightarrow> trims (rd_map c f)"
  by (simp add: rd_map_def trim_intros)

lemma trims_if [trim_intros]: "trims f \<Longrightarrow> trims g \<Longrightarrow> trims (if b then f else g)"
  by simp

lemma trims_n [trim_intros]: "trims f \<Longrightarrow> trims (read_n k f)"
  by (induction k) (simp_all add: trim_intros)

lemma trims_str [trim_intros]: "trims read_str"
  unfolding read_str_def rd_u32_def by (intro trim_intros) (simp add: trim_intros split: option.splits)

lemma trims_prims [trim_intros]:
  "trims read_u8" "trims read_u16" "trims rd_u32" "trims read_u64" "trims read_u128"
  "trims read_i32" "trims read_flag" "trims f \<Longrightarrow> trims (read_opt f)" "trims f \<Longrightarrow> trims (read_vec f)"
  unfolding read_defs by (intro trim_intros; assumption)+

lemma trims_field [trim_intros]: "trims f \<Longrightarrow> trims (read_field f)" "trims g \<Longrightarrow> trims (read_struct_field g)"
  unfolding read_struct_field_def read_field_def by (intro trim_intros; assumption)+

lemma trims_type_n: "trims (read_type_n n)"
proof (induction n)
  case (Suc n)
  then have "trims (read_type_tagged (read_type_n n) tag)" for tag
    unfolding read_type_tagged_def read_pair_def read_method_def by (intro trim_intros)
  then show ?case by (simp add: trim_intros)
qed (simp add: trim_intros)

lemma unread_cut: "unread (cut k r) \<le> unread r"
  by (simp add: unread_def)

lemma trims_type [trim_intros]: "trims read_type"
  unfolding trims_def
proof (intro allI impI)
  fix r x r' assume pos: "rd_pos r \<le> length (rd_bytes r)" and r: "read_type r = Some (Inr (x, r'))"
  have cut: "read_type (cut k r) = read_type_n (Suc (unread r)) (cut k r)" for k
    using unread_cut [of k r] by (intro read_type_fuel) simp
  have "read_type_n (Suc (unread r)) r = Some (Inr (x, r'))" using read_type_fuel [of r "Suc (unread r)"] r by simp
  note T = trimsD [OF trims_type_n pos this]
  show "rd_bytes r' = rd_bytes r \<and> rd_pos r \<le> rd_pos r' \<and> rd_pos r' \<le> length (rd_bytes r)
      \<and> (\<forall>k. rd_pos r \<le> k \<longrightarrow> (if rd_pos r' \<le> k then read_type (cut k r) = Some (Inr (x, cut k r'))
        else \<exists>n p h. read_type (cut k r) = Some (Inl (Truncated n p h))))"
    unfolding cut using T by (simp add: not_le del: read_type_n.simps)
qed

lemma trims_const [trim_intros]: "trims (read_const L)"
  unfolding read_const_def read_bigint_def by (intro trim_intros)

lemma trims_read_op [trim_intros]: "trims read_read_op"
  unfolding read_read_op_def by (intro trim_intros)

lemma trims_range [trim_intros]: "trims read_parallel_range"
  unfolding read_parallel_range_def by (intro trim_intros)

lemma trims_binop [trim_intros]: "trims read_binop" "trims read_unop"
  unfolding read_binop_def read_unop_def binop_from_byte_def unop_from_byte_def by (intro trim_intros)+

lemma trims_instr [trim_intros]: "trims read_instr"
  unfolding read_instr_def read_instr_tagged_def by (intro trim_intros)

lemma trims_bcfn [trim_intros]: "trims (read_bcfn L)"
  unfolding read_bcfn_def by (intro trim_intros)

lemma trims_defaults [trim_intros]: "trims (read_defaults L ts i n)"
proof (induction n arbitrary: i)
  case (Suc n)
  then have "trims (case deserialize L b t of Got v \<Rightarrow> rd_map (Cons v) (read_defaults L ts (Suc i) n)
      | Miss \<Rightarrow> rd_fail BadStateDefault | Panic \<Rightarrow> rd_panic)" for b t
    by (simp add: trim_intros split: parse.splits)
  then show ?case by (simp add: trim_intros)
qed (simp add: trim_intros)

lemma trims_module: "trims (read_module L)"
  unfolding read_module_def read_struct_shape_def read_path_spec_def read_enum_shape_def read_iface_def
    read_iface_method_def read_handler_def by (intro trim_intros)

lemma trims_decode: "trims (decode_body L)"
  unfolding decode_body_def by (intro trim_intros trims_module)


subsection \<open>A concrete module\<close>

definition demo_fn :: bc_fn where
  "demo_fn = \<lparr>fn_name = ''main'', n_params = 0, n_regs = 2,
     code = [ILoadConst 0 0, IBin BAdd 1 0 0, IKvPut 1 0, IReturn 1], consts_of = [CU64 7],
     is_entry = True, is_nore = False, read_groups = [[RState 0 0]], param_types = [TExplicitLiteral TU64],
     return_type = TU64, fn_is_view = False, fn_is_pure = False\<rparr>"

definition demo_module :: "ty \<Rightarrow> val \<Rightarrow> bc_module" where
  "demo_module t v = \<lparr>mod_name = ''m'', imports_of = [], import_index = [], state_roots = [state_root ''m'' ''n''],
     state_types = [t], state_defaults = [v], state_names = [''n''], state_index = [(''n'', 0)],
     struct_shapes = [], struct_index = [], functions_of = [demo_fn], fn_index = [(''main'', 0)],
     path_specs = [], handler_dispatch = [(''E'', [0])], enum_shapes = [], enum_index = [],
     interfaces_of = [], interface_index = []\<rparr>"

lemma demo_module_ok: "module_ok twos_lib (demo_module TU64 (VU64 0))"
  by (simp add: module_ok_def demo_module_def demo_fn_def fn_ok_def default_ok_def handlers_ok_def hm_ok_def
      utf8_str_def as_bytes_def of_char_def)



lemma map_state_default: "default_for (TMap TAddress TU64) = VU64 0"
  by simp

definition errs :: "'a rd \<Rightarrow> decode_error \<Rightarrow> bytes \<Rightarrow> bool" where
  "errs f e b \<longleftrightarrow> (\<forall>pre rest. f \<lparr>rd_bytes = pre @ b @ rest, rd_pos = length pre\<rparr> = Some (Inl e))"

lemma errs_bind:
  assumes "reads f x b" and "errs (k x) e c"
  shows "errs (rd_bind f k) e (b @ c)"
  unfolding errs_def
proof (intro allI)
  fix pre rest
  show "rd_bind f k \<lparr>rd_bytes = pre @ (b @ c) @ rest, rd_pos = length pre\<rparr> = Some (Inl e)"
    using assms(1) [unfolded reads_def, rule_format, of pre "c @ rest"]
      assms(2) [unfolded errs_def, rule_format, of "pre @ b" rest] by (simp add: rd_bind_def)
qed

lemma errs_first: "errs f e b \<Longrightarrow> errs (rd_bind f k) e (b @ c)" "errs f e b \<Longrightarrow> errs (rd_map h f) e b"
  by (simp_all add: errs_def rd_bind_def rd_map_def)

lemma errs_u32_be: "n < 2 ^ 32 \<Longrightarrow> errs (k (of_nat n)) e b \<Longrightarrow> errs (rd_bind rd_u32 k) e (u32_be n @ b)"
  by (rule errs_bind) (use reads_word [where n = 4 and v = "of_nat n :: u32"] in \<open>simp_all add: rd_u32_def u32_be_def unat_of_nat\<close>)

lemma errs_decode: "errs (decode_body L) e b \<Longrightarrow> decode L b = Some (Inl e)"
  using spec [OF spec [of "\<lambda>pre. \<forall>rest. decode_body L \<lparr>rd_bytes = pre @ b @ rest, rd_pos = length pre\<rparr> = Some (Inl e)" "[]"], of "[]"]
  by (simp add: errs_def decode_def reader_new_def)

lemma map_default_errs:
  "errs (read_defaults L [TMap TAddress TU64] 0 1) BadStateDefault (u32_be 9 @ TAG_U64 # be_bytes 8 0)"
proof -
  have "errs (rd_bind (take_bytes 9) (\<lambda>b. case deserialize L b (TMap TAddress TU64) of
       Got v \<Rightarrow> rd_map (Cons v) (rd_ret []) | Miss \<Rightarrow> rd_fail BadStateDefault | Panic \<Rightarrow> rd_panic)) BadStateDefault
     ((TAG_U64 # be_bytes 8 0) @ [])"
    by (rule errs_bind [OF reads_take]) (simp_all add: errs_def rd_fail_def)
  then show ?thesis unfolding One_nat_def read_defaults.simps by (intro errs_u32_be) (simp_all add: unat_of_nat)
qed



end
