(* ===== verification/Cursor.thy ===== *)
theory Cursor
  imports Reader
begin

section \<open>Lookahead\<close>

text \<open>
  What the json parser and the lexer share: looking at the byte under the cursor, skipping a run of
  bytes, slicing from a mark. \<open>reads_if Q f x b\<close> is \<open>reads f x b\<close> where what follows \<open>b\<close> satisfies \<open>Q\<close>.
  A loop that consumes a byte per iteration is given the number of unread bytes as its measure;
  \<open>reads_if_fuel\<close> and \<open>returns_fuel\<close> show that this is enough.
\<close>

definition peek :: "('e, u8 option) step" where
  "peek r = Some (Inr (if rd_pos r < length (rd_bytes r) then Some (rd_bytes r ! rd_pos r) else None, r))"

definition advance :: "('e, u8 option) step" where
  "advance r = (if rd_pos r < length (rd_bytes r)
     then Some (Inr (Some (rd_bytes r ! rd_pos r), r\<lparr>rd_pos := rd_pos r + 1\<rparr>))
     else Some (Inr (None, r)))"

definition skip_while :: "(u8 \<Rightarrow> bool) \<Rightarrow> ('e, unit) step" where
  \<comment> \<open>\<^verbatim>\<open>while let Some(b) = self.peek() { if P(b) { self.pos += 1 } else { break } }\<close>\<close>
  "skip_while P r = Some (Inr ((), r\<lparr>rd_pos := rd_pos r + length (takeWhile P (drop (rd_pos r) (rd_bytes r)))\<rparr>))"

definition tell :: "('e, nat) step" where
  "tell r = Some (Inr (rd_pos r, r))"

definition slice_from :: "nat \<Rightarrow> ('e, bytes) step" where
  "slice_from start r = Some (Inr (take (rd_pos r - start) (drop start (rd_bytes r)), r))"

subsection \<open>Reading with lookahead\<close>

text \<open>A number ends where something else begins: \<open>reads_if Q\<close> is \<open>reads\<close> where the rest satisfies \<open>Q\<close>.\<close>

definition reads_if :: "(bytes \<Rightarrow> bool) \<Rightarrow> ('e, 'a) step \<Rightarrow> 'a \<Rightarrow> bytes \<Rightarrow> bool" where
  "reads_if Q f x b \<longleftrightarrow> (\<forall>pre rest. Q rest \<longrightarrow> f \<lparr>rd_bytes = pre @ b @ rest, rd_pos = length pre\<rparr>
     = Some (Inr (x, \<lparr>rd_bytes = pre @ b @ rest, rd_pos = length pre + length b\<rparr>)))"

lemma reads_if_reads: "reads f x b \<Longrightarrow> reads_if Q f x b"
  by (simp add: reads_def reads_if_def)

lemma reads_if_bind:
  assumes "reads_if P f x b" and "\<And>rest. Q rest \<Longrightarrow> P (c @ rest)" and "reads_if Q (k x) y c"
  shows "reads_if Q (rd_bind f k) y (b @ c)"
  unfolding reads_if_def
proof (intro allI impI)
  fix pre rest assume Q: "Q rest"
  have "f \<lparr>rd_bytes = pre @ b @ c @ rest, rd_pos = length pre\<rparr>
      = Some (Inr (x, \<lparr>rd_bytes = pre @ b @ c @ rest, rd_pos = length pre + length b\<rparr>))"
    using assms(1,2) Q by (simp add: reads_if_def)
  moreover have "k x \<lparr>rd_bytes = (pre @ b) @ c @ rest, rd_pos = length (pre @ b)\<rparr>
      = Some (Inr (y, \<lparr>rd_bytes = (pre @ b) @ c @ rest, rd_pos = length (pre @ b) + length c\<rparr>))"
    using assms(3) Q unfolding reads_if_def by blast
  ultimately show "rd_bind f k \<lparr>rd_bytes = pre @ (b @ c) @ rest, rd_pos = length pre\<rparr>
      = Some (Inr (y, \<lparr>rd_bytes = pre @ (b @ c) @ rest, rd_pos = length pre + length (b @ c)\<rparr>))"
    by (simp add: rd_bind_def add.assoc)
qed

lemma reads_if_ret: "reads_if Q (rd_ret x) x []"
  by (simp add: reads_if_reads reads_ret)

lemma reads_if_map: "reads_if Q f x b \<Longrightarrow> reads_if Q (rd_map c f) (c x) b"
  by (simp add: rd_map_def reads_if_def rd_bind_def rd_ret_def)

lemma reads_if_mono: "reads_if P f x b \<Longrightarrow> (\<And>rest. Q rest \<Longrightarrow> P rest) \<Longrightarrow> reads_if Q f x b"
  by (simp add: reads_if_def)

lemma reads_if_fuel:
  assumes "\<And>n. length b \<le> n \<Longrightarrow> reads_if Q (F (Suc n)) x b"
  shows "reads_if Q (\<lambda>r. F (Suc (unread r)) r) x b"
  unfolding reads_if_def
proof (intro allI impI)
  fix pre rest assume "Q rest"
  then show "F (Suc (unread \<lparr>rd_bytes = pre @ b @ rest, rd_pos = length pre\<rparr>)) \<lparr>rd_bytes = pre @ b @ rest, rd_pos = length pre\<rparr>
      = Some (Inr (x, \<lparr>rd_bytes = pre @ b @ rest, rd_pos = length pre + length b\<rparr>))"
    using assms [of "length b + length rest"] by (simp add: reads_if_def unread_def)
qed

lemma reads_advance: "reads advance (Some c) [c]"
  by (simp add: reads_def advance_def nth_append)

lemma reads_if_advance: "reads_if Q (k (Some c)) y b \<Longrightarrow> reads_if Q (rd_bind advance k) y (c # b)"
  using reads_if_bind [where P = "\<lambda>_. True" and b = "[c]", OF reads_if_reads [OF reads_advance]] by simp

lemma reads_if_peek: "reads_if Q (k (Some c)) y (c # b) \<Longrightarrow> reads_if Q (rd_bind peek k) y (c # b)"
  by (simp add: reads_if_def peek_def rd_bind_def nth_append)

lemma reads_if_skip:
  assumes "\<And>rest. Q rest \<Longrightarrow> b @ rest = [] \<or> \<not> P (hd (b @ rest))" and "reads_if Q (k ()) y b"
  shows "reads_if Q (rd_bind (skip_while P) k) y b"
  unfolding reads_if_def
proof (intro allI impI)
  fix pre rest assume Q: "Q rest"
  then have "takeWhile P (b @ rest) = []" using assms(1) [of rest] by (cases "b @ rest") auto
  then show "rd_bind (skip_while P) k \<lparr>rd_bytes = pre @ b @ rest, rd_pos = length pre\<rparr>
      = Some (Inr (y, \<lparr>rd_bytes = pre @ b @ rest, rd_pos = length pre + length b\<rparr>))"
    using assms(2) Q by (simp add: rd_bind_def skip_while_def reads_if_def)
qed

lemma reads_if_run:
  assumes "list_all P d" and "\<And>rest. Q rest \<Longrightarrow> b @ rest = [] \<or> \<not> P (hd (b @ rest))" and "reads_if Q (k ()) y b"
  shows "reads_if Q (rd_bind (skip_while P) k) y (d @ b)"
  unfolding reads_if_def
proof (intro allI impI)
  fix pre rest assume Q: "Q rest"
  have "takeWhile P (d @ b @ rest) = d"
  proof -
    have "takeWhile P (b @ rest) = []" using assms(2) [OF Q] by (cases "b @ rest") auto
    then show ?thesis using assms(1) by (simp add: list_all_iff)
  qed
  moreover have "k () \<lparr>rd_bytes = (pre @ d) @ b @ rest, rd_pos = length (pre @ d)\<rparr>
      = Some (Inr (y, \<lparr>rd_bytes = (pre @ d) @ b @ rest, rd_pos = length (pre @ d) + length b\<rparr>))"
    using assms(3) Q unfolding reads_if_def by blast
  ultimately show "rd_bind (skip_while P) k \<lparr>rd_bytes = pre @ (d @ b) @ rest, rd_pos = length pre\<rparr>
      = Some (Inr (y, \<lparr>rd_bytes = pre @ (d @ b) @ rest, rd_pos = length pre + length (d @ b)\<rparr>))"
    by (simp add: rd_bind_def skip_while_def add.assoc)
qed

subsection \<open>Steps that return\<close>

lemma returns_mono: "returns n f \<Longrightarrow> m \<le> n \<Longrightarrow> returns m f"
  by (auto simp: returns_def)

lemma returns_advance:
  assumes "returns 0 (k None)" and "\<And>c m. n = Suc m \<Longrightarrow> returns m (k (Some c))"
  shows "returns n (rd_bind advance k)"
  unfolding returns_def
proof (intro allI impI)
  fix r assume r: "unread r \<le> n"
  show "(\<exists>e. rd_bind advance k r = Some (Inl e)) \<or> (\<exists>x r'. rd_bind advance k r = Some (Inr (x, r')) \<and> unread r' \<le> unread r)"
  proof (cases "rd_pos r < length (rd_bytes r)")
    case True
    then obtain m where m: "n = Suc m" "unread (r\<lparr>rd_pos := rd_pos r + 1\<rparr>) \<le> m" "unread (r\<lparr>rd_pos := rd_pos r + 1\<rparr>) < unread r"
      using r by (cases n) (auto simp: unread_def)
    from assms(2) [OF m(1), unfolded returns_def, rule_format, OF m(2), of "rd_bytes r ! rd_pos r"] m(3) True
    show ?thesis by (fastforce simp: rd_bind_def advance_def)
  next
    case False
    then have "unread r \<le> 0" by (simp add: unread_def)
    from assms(1) [unfolded returns_def, rule_format, OF this] False show ?thesis by (simp add: rd_bind_def advance_def)
  qed
qed

lemma returns_peek:
  assumes "returns n (k None)" and "\<And>c m. n = Suc m \<Longrightarrow> returns n (k (Some c))"
  shows "returns n (rd_bind peek k)"
  unfolding returns_def
proof (intro allI impI)
  fix r assume r: "unread r \<le> n"
  show "(\<exists>e. rd_bind peek k r = Some (Inl e)) \<or> (\<exists>x r'. rd_bind peek k r = Some (Inr (x, r')) \<and> unread r' \<le> unread r)"
    using assms(1) [unfolded returns_def, rule_format, OF r] assms(2) [unfolded returns_def, rule_format, OF _ r] r
    by (cases n) (auto simp: rd_bind_def peek_def unread_def)
qed

lemma returns_fuel: "(\<And>k. k \<le> n \<Longrightarrow> returns k (F (Suc k))) \<Longrightarrow> returns n (\<lambda>r. F (Suc (unread r)) r)"
  by (auto simp: returns_def)

lemma returns_cursor [total_intros]:
  "returns n (skip_while P)" "returns n tell" "returns n (slice_from k)"
  by (auto simp: returns_def skip_while_def tell_def slice_from_def unread_def)

lemma returns_option [total_intros]: "returns n f \<Longrightarrow> (\<And>x. returns n (g x)) \<Longrightarrow> returns n (case v of None \<Rightarrow> f | Some x \<Rightarrow> g x)"
  by (cases v) simp_all

subsection \<open>Multi-byte characters\<close>

definition is_char_boundary :: "bytes \<Rightarrow> nat \<Rightarrow> bool" where
  "is_char_boundary s i \<longleftrightarrow> i = 0 \<or> i = length s \<or> i < length s \<and> s ! i AND 0xC0 \<noteq> 0x80"

definition utf8_len :: "u8 \<Rightarrow> nat" where
  "utf8_len first = (if first < 0x80 then 1 else if first < 0xC0 then 1 else if first < 0xE0 then 2
     else if first < 0xF0 then 3 else 4)"

lemma cont_high: "cont_byte b \<Longrightarrow> 0x80 \<le> b" "second_ok a b \<Longrightarrow> 0x80 \<le> b"
  by (auto simp: cont_byte_def second_ok_def word_le_nat_alt split: if_splits)

lemma utf8_multi:
  assumes "utf8_valid (a # bs)" and "\<not> a < 0x80"
  shows "\<exists>ms rest. bs = ms @ rest \<and> length ms = utf8_len a - 1 \<and> utf8_valid (a # ms)
     \<and> list_all (\<lambda>b. 0x80 \<le> b) ms \<and> utf8_valid rest"
proof -
  have C0: "\<not> a < 0xC2 \<Longrightarrow> \<not> a < 0xC0" by (auto simp: word_less_nat_alt)
  consider b rest where "\<not> a < 0xC2" "a < 0xE0" "bs = [b] @ rest" "cont_byte b" "utf8_valid rest"
    | b c rest where "\<not> a < 0xC2" "\<not> a < 0xE0" "a < 0xF0" "bs = [b, c] @ rest" "second_ok a b" "cont_byte c" "utf8_valid rest"
    | b c d rest where "\<not> a < 0xC2" "\<not> a < 0xE0" "\<not> a < 0xF0" "a < 0xF5" "bs = [b, c, d] @ rest"
        "second_ok a b" "cont_byte c" "cont_byte d" "utf8_valid rest"
    using assms(2) assms(1) [unfolded utf8_valid.simps(2) [of a bs]]
    by (auto simp del: utf8_valid.simps split: if_splits list.splits)
  then show ?thesis
  proof cases
    case (1 b rest)
    then show ?thesis using assms(2) C0 cont_high by (intro exI [of _ "[b]"] exI [of _ rest]) (simp add: utf8_len_def)
  next
    case (2 b c rest)
    then show ?thesis using assms(2) C0 cont_high by (intro exI [of _ "[b, c]"] exI [of _ rest]) (simp add: utf8_len_def)
  next
    case (3 b c d rest)
    then show ?thesis using assms(2) C0 cont_high by (intro exI [of _ "[b, c, d]"] exI [of _ rest]) (simp add: utf8_len_def)
  qed
qed

end
