(* ===== verification/JsonText.thy ===== *)
theory JsonText
  imports Cursor
begin

section \<open>Json as text\<close>

text \<open>
  The textual half of \<^verbatim>\<open>crates/rend/src/json.rs\<close>: path access, the canonical printer
  (\<^verbatim>\<open>write_canonical_value\<close>) and the recursive-descent parser (\<^verbatim>\<open>Parser\<close>, \<^verbatim>\<open>parse\<close>).

  A string is its UTF-8 bytes; the printer escapes single-byte characters only, so going through the
  bytes is going through the characters. The decimal text of \<^verbatim>\<open>num_bigint\<close> and of \<^verbatim>\<open>f64\<close>
  (\<^verbatim>\<open>to_string\<close>, \<^verbatim>\<open>format!\<close>, \<^verbatim>\<open>parse\<close>) is a parameter, \<open>text_lib\<close>; \<open>text_ok\<close> states what is documented of it.
  A parser step carries the position into the error (\<^verbatim>\<open>ParseError\<close>). A loop of the parser is bounded
  by the bytes that are left, of which every iteration consumes one.
\<close>

record text_lib =
  bigint_to_string :: "int \<Rightarrow> bytes"
  bigint_parse :: "bytes \<Rightarrow> int option"
  f64_to_string :: "u64 \<Rightarrow> bytes"
  f64_parse :: "bytes \<Rightarrow> u64 option"

subsection \<open>Path access\<close>

fun get_field :: "json \<Rightarrow> string \<Rightarrow> val option" where
  "get_field (JObject m) key = hm_get m key"
| "get_field _ key = None"

fun get_index :: "json \<Rightarrow> nat \<Rightarrow> val option" where
  "get_index (JArray items) i = (if i < length items then Some (items ! i) else None)"
| "get_index _ i = None"

subsection \<open>Printing\<close>

definition ascii :: "string \<Rightarrow> bytes" where
  "ascii s = as_bytes s"

definition is_finite_f64 :: "u64 \<Rightarrow> bool" where
  \<comment> \<open>the exponent bits of the pattern are not all ones\<close>
  "is_finite_f64 n \<longleftrightarrow> drop_bit 52 n AND 0x7FF \<noteq> 0x7FF"

definition hex_digit :: "nat \<Rightarrow> u8" where
  "hex_digit d = (if d < 10 then of_nat (48 + d) else of_nat (87 + d))"

definition escape_byte :: "u8 \<Rightarrow> bytes" where
  "escape_byte c =
     (if c = 0x22 then [0x5C, 0x22]
      else if c = 0x5C then [0x5C, 0x5C]
      else if c = 0x0A then [0x5C, 0x6E]
      else if c = 0x0D then [0x5C, 0x72]
      else if c = 0x09 then [0x5C, 0x74]
      else if c < 0x20 then [0x5C, 0x75, 0x30, 0x30, hex_digit (unat c div 16), hex_digit (unat c mod 16)]
      else [c])"

definition write_string :: "string \<Rightarrow> bytes" where
  "write_string s = 0x22 # concat (map escape_byte (as_bytes s)) @ [0x22]"

definition sep_concat :: "bytes list \<Rightarrow> bytes" where
  \<comment> \<open>a comma before every item but the first\<close>
  "sep_concat bss = (case bss of [] \<Rightarrow> [] | b # rest \<Rightarrow> b @ concat (map (\<lambda>c. 0x2C # c) rest))"

definition write_float :: "text_lib \<Rightarrow> u64 \<Rightarrow> bytes" where
  "write_float T n =
     (if is_finite_f64 n then
        (let s = f64_to_string T n in
         if 0x2E \<in> set s \<or> 0x65 \<in> set s \<or> 0x45 \<in> set s then s else s @ [0x2E, 0x30])
      else ascii ''null'')"

fun write_canonical_value :: "text_lib \<Rightarrow> val \<Rightarrow> bytes"
and write_canonical_json :: "text_lib \<Rightarrow> json \<Rightarrow> bytes" where
  "write_canonical_value T (VBool b) = (if b then ascii ''true'' else ascii ''false'')"
| "write_canonical_value T (VInt n) = bigint_to_string T n"
| "write_canonical_value T (VUInt n) = bigint_to_string T n"
| "write_canonical_value T (VFloat n) = write_float T n"
| "write_canonical_value T (VStr s) = write_string s"
| "write_canonical_value T (VJson j) = write_canonical_json T j"
| "write_canonical_value T _ = ascii ''null''"
| "write_canonical_json T JNull = ascii ''null''"
| "write_canonical_json T (JArray items) = 0x5B # sep_concat (map (write_canonical_value T) items) @ [0x5D]"
| "write_canonical_json T (JObject m) =
     0x7B # sep_concat (map (\<lambda>e. write_string (fst e) @ 0x3A # write_canonical_value T (snd e)) m) @ [0x7D]"

definition to_string_canonical :: "text_lib \<Rightarrow> json \<Rightarrow> bytes" where
  "to_string_canonical T j = write_canonical_json T j"

subsection \<open>Parsing: characters and strings\<close>

datatype json_error =
    UnexpectedByte u8 | UnexpectedEnd | ExpectedLiteral string | ExpectedQuote
  | IncompleteUnicodeEscape | InvalidHexDigit | InvalidCodePoint | InvalidEscape u8 | IncompleteEscape
  | ControlCharacter | IncompleteUtf8 | InvalidUtf8Sequence | UnterminatedString
  | ExpectedInArray u8 | UnterminatedArray | ExpectedColon | ExpectedInObject u8 | UnterminatedObject
  | ExpectedDigits | ExpectedFraction | ExpectedExponent | InvalidNumber | InvalidFloat | InvalidInteger
  | TrailingData

type_synonym 'a jp = "(json_error \<times> nat, 'a) step"

definition jerr :: "json_error \<Rightarrow> 'a jp" where
  "jerr e r = Some (Inl (e, rd_pos r))"

definition is_ws :: "u8 \<Rightarrow> bool" where
  "is_ws b \<longleftrightarrow> b = 0x20 \<or> b = 0x09 \<or> b = 0x0A \<or> b = 0x0D"

definition skip_ws :: "unit jp" where
  "skip_ws = skip_while is_ws"

primrec expect_bytes :: "string \<Rightarrow> bytes \<Rightarrow> unit jp" where
  "expect_bytes lit [] = rd_ret ()"
| "expect_bytes lit (c # cs) = rd_bind advance (\<lambda>b. if b = Some c then expect_bytes lit cs else jerr (ExpectedLiteral lit))"

definition parse_lit :: "string \<Rightarrow> val \<Rightarrow> val jp" where
  "parse_lit lit v = rd_map (\<lambda>_. v) (expect_bytes lit (ascii lit))"

definition hex_value :: "u8 \<Rightarrow> nat option" where
  "hex_value b = (if 0x30 \<le> b \<and> b \<le> 0x39 then Some (unat b - 48)
     else if 0x61 \<le> b \<and> b \<le> 0x66 then Some (unat b - 87)
     else if 0x41 \<le> b \<and> b \<le> 0x46 then Some (unat b - 55) else None)"

primrec read_hex :: "nat \<Rightarrow> nat \<Rightarrow> nat jp" where
  "read_hex 0 hex = rd_ret hex"
| "read_hex (Suc n) hex = rd_bind advance (\<lambda>b. case b of
     None \<Rightarrow> jerr IncompleteUnicodeEscape
   | Some c \<Rightarrow> (case hex_value c of
       None \<Rightarrow> jerr InvalidHexDigit
     | Some v \<Rightarrow> read_hex n (hex * 16 + v)))"

definition utf8_encode :: "nat \<Rightarrow> bytes" where
  \<comment> \<open>\<^verbatim>\<open>String::push\<close> of a code point below \<^verbatim>\<open>0x10000\<close>\<close>
  "utf8_encode c = (if c < 0x80 then [of_nat c]
     else if c < 0x800 then [of_nat (0xC0 + c div 64), of_nat (0x80 + c mod 64)]
     else [of_nat (0xE0 + c div 4096), of_nat (0x80 + c div 64 mod 64), of_nat (0x80 + c mod 64)])"

definition char_from_u32 :: "nat \<Rightarrow> bytes option" where
  "char_from_u32 c = (if 0xD800 \<le> c \<and> c < 0xE000 then None else Some (utf8_encode c))"

definition parse_escape :: "bytes jp" where
  "parse_escape = rd_bind advance (\<lambda>b. case b of
     None \<Rightarrow> jerr IncompleteEscape
   | Some c \<Rightarrow>
      (if c = 0x22 then rd_ret [0x22] else if c = 0x5C then rd_ret [0x5C] else if c = 0x2F then rd_ret [0x2F]
       else if c = 0x6E then rd_ret [0x0A] else if c = 0x72 then rd_ret [0x0D] else if c = 0x74 then rd_ret [0x09]
       else if c = 0x62 then rd_ret [0x08] else if c = 0x66 then rd_ret [0x0C]
       else if c = 0x75 then rd_bind (read_hex 4 0) (\<lambda>hex.
         case char_from_u32 hex of None \<Rightarrow> jerr InvalidCodePoint | Some s \<Rightarrow> rd_ret s)
       else jerr (InvalidEscape c)))"

primrec advance_n :: "nat \<Rightarrow> bytes jp" where
  \<comment> \<open>the continuation bytes of a multi-byte character\<close>
  "advance_n 0 = rd_ret []"
| "advance_n (Suc n) = rd_bind advance (\<lambda>b. case b of
     None \<Rightarrow> jerr IncompleteUtf8 | Some c \<Rightarrow> rd_map (Cons c) (advance_n n))"

definition parse_char :: "u8 \<Rightarrow> bytes jp" where
  "parse_char b = rd_bind (advance_n (utf8_len b - 1)) (\<lambda>more.
     if utf8_valid (b # more) then rd_ret (b # more) else jerr InvalidUtf8Sequence)"

primrec string_loop :: "nat \<Rightarrow> bytes \<Rightarrow> string jp" where
  "string_loop 0 out = rd_panic"
| "string_loop (Suc n) out = rd_bind advance (\<lambda>b. case b of
     None \<Rightarrow> jerr UnterminatedString
   | Some c \<Rightarrow>
      (if c = 0x22 then rd_ret (map (\<lambda>b. char_of (unat b)) out)
       else if c = 0x5C then rd_bind parse_escape (\<lambda>s. string_loop n (out @ s))
       else if c < 0x20 then jerr ControlCharacter
       else rd_bind (parse_char c) (\<lambda>s. string_loop n (out @ s))))"

definition parse_string :: "string jp" where
  "parse_string = rd_bind advance (\<lambda>b.
     if b \<noteq> Some 0x22 then jerr ExpectedQuote else (\<lambda>r. string_loop (Suc (unread r)) [] r))"

subsection \<open>Parsing: numbers and composites\<close>

definition is_digit :: "u8 \<Rightarrow> bool" where
  "is_digit b \<longleftrightarrow> 0x30 \<le> b \<and> b \<le> 0x39"

definition digits_or :: "json_error \<Rightarrow> unit jp" where
  \<comment> \<open>skip digits; an error when there is none\<close>
  "digits_or e = rd_bind tell (\<lambda>p. rd_bind (skip_while is_digit) (\<lambda>_. rd_bind tell (\<lambda>q.
     if p = q then jerr e else rd_ret ())))"

definition skip_if :: "(u8 \<Rightarrow> bool) \<Rightarrow> bool jp" where
  \<comment> \<open>\<^verbatim>\<open>if matches!(self.peek(), ..) { self.advance(); }\<close> and whether it did\<close>
  "skip_if P = rd_bind peek (\<lambda>b. if \<exists>c. b = Some c \<and> P c then rd_map (\<lambda>_. True) advance else rd_ret False)"

definition parse_number :: "text_lib \<Rightarrow> val jp" where
  "parse_number T = rd_bind tell (\<lambda>start. rd_bind (skip_if (\<lambda>c. c = 0x2D)) (\<lambda>_.
     rd_bind (digits_or ExpectedDigits) (\<lambda>_.
     rd_bind (skip_if (\<lambda>c. c = 0x2E)) (\<lambda>dot.
     rd_bind (if dot then digits_or ExpectedFraction else rd_ret ()) (\<lambda>_.
     rd_bind (skip_if (\<lambda>c. c = 0x65 \<or> c = 0x45)) (\<lambda>expo.
     rd_bind (if expo then rd_bind (skip_if (\<lambda>c. c = 0x2B \<or> c = 0x2D)) (\<lambda>_. digits_or ExpectedExponent) else rd_ret ()) (\<lambda>_.
     rd_bind (slice_from start) (\<lambda>s.
       if dot \<or> expo then (case f64_parse T s of Some f \<Rightarrow> rd_ret (VFloat f) | None \<Rightarrow> jerr InvalidFloat)
       else (case bigint_parse T s of Some n \<Rightarrow> rd_ret (VInt n) | None \<Rightarrow> jerr InvalidInteger)))))))))"

primrec array_loop :: "nat \<Rightarrow> val jp \<Rightarrow> val list \<Rightarrow> json jp" where
  "array_loop 0 f items = rd_panic"
| "array_loop (Suc n) f items = rd_bind f (\<lambda>v. rd_bind skip_ws (\<lambda>_. rd_bind advance (\<lambda>b. case b of
     None \<Rightarrow> jerr UnterminatedArray
   | Some c \<Rightarrow> (if c = 0x2C then rd_bind skip_ws (\<lambda>_. array_loop n f (items @ [v]))
       else if c = 0x5D then rd_ret (JArray (items @ [v])) else jerr (ExpectedInArray c)))))"

definition parse_array :: "val jp \<Rightarrow> json jp" where
  "parse_array f = rd_bind advance (\<lambda>_. rd_bind skip_ws (\<lambda>_. rd_bind (skip_if (\<lambda>c. c = 0x5D)) (\<lambda>close.
     if close then rd_ret (JArray []) else (\<lambda>r. array_loop (Suc (unread r)) f [] r))))"

primrec object_loop :: "nat \<Rightarrow> val jp \<Rightarrow> (string, val) hashmap \<Rightarrow> json jp" where
  "object_loop 0 f m = rd_panic"
| "object_loop (Suc n) f m = rd_bind skip_ws (\<lambda>_. rd_bind parse_string (\<lambda>key. rd_bind skip_ws (\<lambda>_. rd_bind advance (\<lambda>b.
     if b \<noteq> Some 0x3A then jerr ExpectedColon
     else rd_bind skip_ws (\<lambda>_. rd_bind f (\<lambda>v. rd_bind skip_ws (\<lambda>_. rd_bind advance (\<lambda>b. case b of
         None \<Rightarrow> jerr UnterminatedObject
       | Some c \<Rightarrow> (if c = 0x2C then object_loop n f (hm_insert key v m)
           else if c = 0x7D then rd_ret (JObject (hm_insert key v m)) else jerr (ExpectedInObject c)))))))))) "

definition parse_object :: "val jp \<Rightarrow> json jp" where
  "parse_object f = rd_bind advance (\<lambda>_. rd_bind skip_ws (\<lambda>_. rd_bind (skip_if (\<lambda>c. c = 0x7D)) (\<lambda>close.
     if close then rd_ret (JObject []) else (\<lambda>r. object_loop (Suc (unread r)) f [] r))))"

primrec parse_value_n :: "nat \<Rightarrow> text_lib \<Rightarrow> val jp" where
  "parse_value_n 0 T = rd_panic"
| "parse_value_n (Suc n) T = rd_bind skip_ws (\<lambda>_. rd_bind peek (\<lambda>b. case b of
     None \<Rightarrow> jerr UnexpectedEnd
   | Some c \<Rightarrow>
      (if c = 0x6E then parse_lit ''null'' (VJson JNull)
       else if c = 0x74 then parse_lit ''true'' (VBool True)
       else if c = 0x66 then parse_lit ''false'' (VBool False)
       else if c = 0x22 then rd_map VStr parse_string
       else if c = 0x5B then rd_map VJson (parse_array (parse_value_n n T))
       else if c = 0x7B then rd_map VJson (parse_object (parse_value_n n T))
       else if c = 0x2D \<or> is_digit c then parse_number T
       else jerr (UnexpectedByte c))))"

definition parse_value :: "text_lib \<Rightarrow> val jp" where
  "parse_value T r = parse_value_n (Suc (unread r)) T r"

definition parse_json :: "text_lib \<Rightarrow> bytes \<Rightarrow> (json_error \<times> nat + val) option" where
  "parse_json T s = (case rd_bind skip_ws (\<lambda>_. rd_bind (parse_value T) (\<lambda>v. rd_bind skip_ws (\<lambda>_. rd_ret v))) (reader_new s) of
     None \<Rightarrow> None
   | Some (Inl e) \<Rightarrow> Some (Inl e)
   | Some (Inr (v, r)) \<Rightarrow> Some (if rd_pos r \<noteq> length (rd_bytes r) then Inl (TrailingData, rd_pos r) else Inr v))"

end
