(* ===== verification/JsonTextProps.thy ===== *)
theory JsonTextProps
  imports JsonText
begin

section \<open>Printed json parses to the same value\<close>

subsection \<open>Strings\<close>

lemma hex_value_digit: "d < 16 \<Longrightarrow> hex_value (hex_digit d) = Some d"
proof -
  have "list_all (\<lambda>d. hex_value (hex_digit d) = Some d) [0..<16]" by code_simp
  then show "d < 16 \<Longrightarrow> hex_value (hex_digit d) = Some d" by (simp add: list_all_iff)
qed

lemma read_hex_step:
  "hex_value c = Some v \<Longrightarrow> reads_if Q (read_hex n (hex * 16 + v)) y b \<Longrightarrow> reads_if Q (read_hex (Suc n) hex) y (c # b)"
  unfolding read_hex.simps by (rule reads_if_advance) simp

lemma reads_control:
  fixes c :: u8
  assumes "c < 0x20"
  shows "reads_if Q (read_hex 4 0) (unat c) [0x30, 0x30, hex_digit (unat c div 16), hex_digit (unat c mod 16)]"
proof -
  have "unat c < 32" using assms by (simp add: word_less_nat_alt)
  then have h: "hex_value (hex_digit (unat c div 16)) = Some (unat c div 16)" "hex_value (hex_digit (unat c mod 16)) = Some (unat c mod 16)"
    by (simp_all add: hex_value_digit)
  have z: "hex_value 0x30 = Some 0" by (simp add: hex_value_def)
  have "reads_if Q (read_hex 0 ((((0 * 16 + 0) * 16 + 0) * 16 + unat c div 16) * 16 + unat c mod 16)) (unat c) []"
    by (simp add: reads_if_ret)
  then have "reads_if Q (read_hex (Suc (Suc (Suc (Suc 0)))) 0) (unat c) [0x30, 0x30, hex_digit (unat c div 16), hex_digit (unat c mod 16)]"
    by (intro read_hex_step [OF z] read_hex_step [OF h(1)] read_hex_step [OF h(2)])
  then show ?thesis by (simp only: eval_nat_numeral BitM.simps)
qed

lemma escape_high: "0x80 \<le> c \<Longrightarrow> escape_byte c = [c]"
  by (auto simp: escape_byte_def word_le_nat_alt word_less_nat_alt)

lemma string_loop_escape:
  assumes "reads_if (\<lambda>_. True) parse_escape s e" and "reads_if Q (string_loop n (out @ s)) y b"
  shows "reads_if Q (string_loop (Suc n) out) y (0x5C # e @ b)"
  unfolding string_loop.simps by (rule reads_if_advance) (simp, rule reads_if_bind [OF assms(1)], simp, rule assms(2))

lemma string_loop_plain:
  assumes "c \<noteq> 0x22" and "c \<noteq> 0x5C" and "\<not> c < 0x20"
    and "reads_if (\<lambda>_. True) (parse_char c) s e" and "reads_if Q (string_loop n (out @ s)) y b"
  shows "reads_if Q (string_loop (Suc n) out) y (c # e @ b)"
  unfolding string_loop.simps by (rule reads_if_advance) (simp add: assms(1-3), rule reads_if_bind [OF assms(4)], simp, rule assms(5))

lemma parse_escape_reads:
  assumes "escape_byte a = 0x5C # e" and "a \<noteq> 0x5C \<or> e \<noteq> []"
  shows "reads_if (\<lambda>_. True) parse_escape [a] e"
proof -
  consider "a = 0x22" | "a = 0x5C" | "a = 0x0A" | "a = 0x0D" | "a = 0x09"
    | "a < 0x20" "e = [0x75, 0x30, 0x30, hex_digit (unat a div 16), hex_digit (unat a mod 16)]"
    using assms by (auto simp: escape_byte_def split: if_splits)
  then show ?thesis
  proof cases
    case 6
    have "char_from_u32 (unat a) = Some [a]" using 6(1) by (simp add: char_from_u32_def utf8_encode_def word_less_nat_alt)
    then have "reads_if (\<lambda>_. True) (rd_bind (read_hex 4 0) (\<lambda>hex. case char_from_u32 hex of None \<Rightarrow> jerr InvalidCodePoint | Some s \<Rightarrow> rd_ret s)) [a]
        ([0x30, 0x30, hex_digit (unat a div 16), hex_digit (unat a mod 16)] @ [])"
      by (intro reads_if_bind [OF reads_control [OF 6(1)]]) (simp_all add: reads_if_ret)
    then show ?thesis unfolding parse_escape_def 6(2) by (intro reads_if_advance) simp
  qed (use assms in \<open>auto simp: escape_byte_def parse_escape_def intro!: reads_if_advance reads_if_ret\<close>)
qed

lemma string_loop_ascii:
  assumes "a < 0x80" and "reads_if Q (string_loop n (out @ [a])) y b"
  shows "reads_if Q (string_loop (Suc n) out) y (escape_byte a @ b)"
proof (cases "\<exists>e. escape_byte a = 0x5C # e \<and> e \<noteq> []")
  case True
  then obtain e where e: "escape_byte a = 0x5C # e" "e \<noteq> []" by blast
  show ?thesis unfolding e(1) append_Cons using e by (intro string_loop_escape [OF parse_escape_reads assms(2)]) auto
next
  case False
  then have a: "a \<noteq> 0x22" "a \<noteq> 0x5C" "\<not> a < 0x20" "escape_byte a = [a]" by (auto simp: escape_byte_def split: if_splits)
  have "reads_if (\<lambda>_. True) (parse_char a) [a] []"
    using assms(1) by (simp add: parse_char_def utf8_len_def reads_if_def rd_bind_def rd_ret_def)
  then show ?thesis unfolding a(4) using string_loop_plain [OF a(1-3) _ assms(2), of "[]"] by simp
qed

lemma reads_advance_n: "reads_if Q (advance_n (length ms)) ms ms"
proof (induction ms)
  case (Cons c ms)
  have "reads_if Q (rd_map (Cons c) (advance_n (length ms))) (c # ms) ms" by (rule reads_if_map [OF Cons.IH])
  then show ?case by (simp add: reads_if_advance)
qed (simp add: reads_if_ret)

lemma string_loop_multi:
  assumes "0x80 \<le> c" and "length ms = utf8_len c - 1" and "utf8_valid (c # ms)" and "list_all (\<lambda>b. 0x80 \<le> b) ms"
    and "reads_if Q (string_loop n (out @ c # ms)) y b"
  shows "reads_if Q (string_loop (Suc n) out) y (concat (map escape_byte (c # ms)) @ b)"
proof -
  have "reads_if (\<lambda>_. True) (parse_char c) (c # ms) (ms @ [])"
    unfolding parse_char_def assms(2) [symmetric]
    by (rule reads_if_bind [OF reads_advance_n]) (use assms(3) in \<open>simp_all add: reads_if_ret del: utf8_valid.simps\<close>)
  moreover have "concat (map escape_byte (c # ms)) = c # ms"
    using assms(1,4) by (induction ms) (simp_all add: escape_high)
  moreover have "c \<noteq> 0x22" "c \<noteq> 0x5C" "\<not> c < 0x20" using assms(1) by (auto simp: word_le_nat_alt word_less_nat_alt)
  ultimately show ?thesis using string_loop_plain [OF _ _ _ _ assms(5), where e = "ms @ []"] by simp
qed

lemma reads_string_loop:
  assumes "utf8_valid bs" and "length (concat (map escape_byte bs)) \<le> n"
  shows "reads_if Q (string_loop (Suc n) out) (map (\<lambda>b. char_of (unat b)) (out @ bs)) (concat (map escape_byte bs) @ [0x22])"
  using assms
proof (induction "length bs" arbitrary: bs n out rule: less_induct)
  case less
  have len: "1 \<le> length (escape_byte c)" for c by (simp add: escape_byte_def)
  show ?case
  proof (cases bs)
    case Nil
    show ?thesis unfolding Nil string_loop.simps by (simp, rule reads_if_advance) (simp add: reads_if_ret)
  next
    case (Cons a bs')
    obtain m where m: "n = Suc m" using less.prems(2) len [of a] Cons by (cases n) auto
    obtain ms rest where bs: "bs' = ms @ rest" and ms: "utf8_valid rest"
      "\<And>y b. reads_if Q (string_loop n (out @ a # ms)) y b \<Longrightarrow>
         reads_if Q (string_loop (Suc n) out) y (concat (map escape_byte (a # ms)) @ b)"
    proof (cases "a < 0x80")
      case True
      then show thesis using that [of "[]" bs'] string_loop_ascii [OF True] less.prems(1) Cons by simp
    next
      case False
      then show thesis using that utf8_multi [OF less.prems(1) [unfolded Cons] False] string_loop_multi by (metis linorder_not_less)
    qed
    have "length (concat (map escape_byte rest)) \<le> m" using less.prems(2) Cons bs m len [of a] by simp
    then have "reads_if Q (string_loop (Suc m) (out @ a # ms)) (map (\<lambda>b. char_of (unat b)) ((out @ a # ms) @ rest))
        (concat (map escape_byte rest) @ [0x22])"
      using Cons bs ms(1) by (intro less.hyps) simp_all
    from ms(2) [OF this [folded m]] show ?thesis by (simp add: Cons bs)
  qed
qed

lemma as_bytes_chars: "map (\<lambda>b. char_of (unat b)) (as_bytes s) = s"
  by (simp add: as_bytes_def comp_def)

lemma reads_parse_string:
  assumes "utf8_valid (as_bytes s)"
  shows "reads_if Q parse_string s (write_string s)"
proof -
  have "reads_if Q (string_loop (Suc n) []) s (concat (map escape_byte (as_bytes s)) @ [0x22])"
    if "length (concat (map escape_byte (as_bytes s)) @ [0x22]) \<le> n" for n
    using reads_string_loop [OF assms, of n Q "[]"] that by (simp add: as_bytes_chars)
  then have "reads_if Q (\<lambda>r. string_loop (Suc (unread r)) [] r) s (concat (map escape_byte (as_bytes s)) @ [0x22])"
    by (rule reads_if_fuel)
  then show ?thesis unfolding parse_string_def write_string_def by (intro reads_if_advance) simp
qed

subsection \<open>Numbers\<close>

definition digits :: "bytes \<Rightarrow> bool" where
  "digits d \<longleftrightarrow> d \<noteq> [] \<and> list_all is_digit d"

definition signed :: "bytes \<Rightarrow> bool" where
  "signed s \<longleftrightarrow> s = [] \<or> s = [0x2D]"

text \<open>What is documented of the decimal texts: an integer prints as an optional minus sign and digits
  and parses back; a finite double prints as an optional minus sign, digits and possibly a point and
  digits, never with an exponent, and parses back to the same double, also with \<^verbatim>\<open>.0\<close> appended to an
  integral one.\<close>

definition text_ok :: "text_lib \<Rightarrow> bool" where
  "text_ok T \<longleftrightarrow>
     (\<forall>n. bigint_parse T (bigint_to_string T n) = Some n \<and> (\<exists>s d. bigint_to_string T n = s @ d \<and> signed s \<and> digits d)) \<and>
     (\<forall>f. is_finite_f64 f \<longrightarrow> (\<exists>s d e. signed s \<and> digits d \<and> digits e \<and> f64_parse T (s @ d @ 0x2E # e) = Some f \<and>
        (f64_to_string T f = s @ d @ 0x2E # e \<or> f64_to_string T f = s @ d \<and> e = [0x30])))"

abbreviation at :: "bytes \<Rightarrow> bytes \<Rightarrow> reader" where
  "at pre b \<equiv> \<lparr>rd_bytes = pre @ b, rd_pos = length pre\<rparr>"

definition stops :: "bytes \<Rightarrow> bool" where
  \<comment> \<open>what follows a value inside a printed array or object, or at the end\<close>
  "stops rest \<longleftrightarrow> rest = [] \<or> hd rest \<in> {0x2C, 0x5D, 0x7D}"

lemma skip_if_at:
  "skip_if P \<lparr>rd_bytes = pre, rd_pos = length pre\<rparr> = Some (Inr (False, \<lparr>rd_bytes = pre, rd_pos = length pre\<rparr>))"
  "skip_if P (at pre (c # b)) = Some (Inr (if P c then (True, at (pre @ [c]) b) else (False, at pre (c # b))))"
  by (simp_all add: skip_if_def rd_bind_def peek_def rd_map_def advance_def rd_ret_def nth_append)

lemma digits_or_at:
  assumes "digits d" and "b = [] \<or> \<not> is_digit (hd b)"
  shows "digits_or e (at pre (d @ b)) = Some (Inr ((), at (pre @ d) b))"
proof -
  have "takeWhile is_digit (d @ b) = d"
    using assms by (cases b) (auto simp: digits_def list_all_iff takeWhile_append)
  then show ?thesis using assms(1) by (simp add: digits_or_def rd_bind_def tell_def skip_while_def rd_ret_def digits_def)
qed

lemma slice_at: "(slice_from (length pre) :: bytes jp) (at (pre @ s) b) = Some (Inr (s, at (pre @ s) b))"
  by (simp add: slice_from_def)

lemma digit_not: "is_digit c \<Longrightarrow> c \<noteq> 0x2D \<and> c \<noteq> 0x2E \<and> c \<noteq> 0x65 \<and> c \<noteq> 0x45"
  by (auto simp: is_digit_def)

lemma sign_digits:
  assumes "signed s" and "digits d" and "b = [] \<or> \<not> is_digit (hd b)"
  shows "rd_bind (skip_if (\<lambda>c. c = 0x2D)) (\<lambda>_. rd_bind (digits_or ExpectedDigits) k) (at pre (s @ d @ b)) = k () (at (pre @ s @ d) b)"
proof -
  obtain c d' where d: "d = c # d'" "c \<noteq> 0x2D" using assms(2) digit_not by (cases d) (auto simp: digits_def)
  have "skip_if (\<lambda>c. c = 0x2D) (at pre (s @ d @ b)) = Some (Inr (s \<noteq> [], at (pre @ s) (d @ b)))"
    using assms(1) d by (auto simp: signed_def skip_if_at)
  then show ?thesis using digits_or_at [OF assms(2,3), of ExpectedDigits "pre @ s"] by (simp add: rd_bind_def)
qed

lemma stops_digit: "stops rest \<Longrightarrow> rest = [] \<or> \<not> is_digit (hd rest)"
  by (auto simp: stops_def is_digit_def)

lemma skip_if_stops:
  assumes "stops rest" and "\<And>c. c \<in> {0x2C, 0x5D, 0x7D} \<Longrightarrow> \<not> P c"
  shows "skip_if P (at pre rest) = Some (Inr (False, at pre rest))"
  using assms by (cases rest) (auto simp: stops_def skip_if_at)

lemma reads_int:
  assumes "signed s" and "digits d" and "bigint_parse T (s @ d) = Some n"
  shows "reads_if stops (parse_number T) (VInt n) (s @ d)"
  unfolding reads_if_def
proof (intro allI impI)
  fix pre rest assume rest: "stops rest"
  have dot: "skip_if (\<lambda>c. c = 0x2E) (at (pre @ s @ d) rest) = Some (Inr (False, at (pre @ s @ d) rest))"
    and expo: "skip_if (\<lambda>c. c = 0x65 \<or> c = 0x45) (at (pre @ s @ d) rest) = Some (Inr (False, at (pre @ s @ d) rest))"
    by (rule skip_if_stops [OF rest], fastforce)+
  have "parse_number T (at pre (s @ d @ rest)) = Some (Inr (VInt n, at (pre @ s @ d) rest))"
    using slice_at [of pre "s @ d" rest] assms(3) dot expo
    by (simp add: parse_number_def rd_bind_def [of tell] tell_def sign_digits [OF assms(1,2) stops_digit [OF rest]])
       (simp add: rd_bind_def rd_ret_def)
  then show "parse_number T \<lparr>rd_bytes = pre @ (s @ d) @ rest, rd_pos = length pre\<rparr>
      = Some (Inr (VInt n, \<lparr>rd_bytes = pre @ (s @ d) @ rest, rd_pos = length pre + length (s @ d)\<rparr>))" by simp
qed

lemma reads_float:
  assumes "signed s" and "digits d" and "digits e" and "f64_parse T (s @ d @ 0x2E # e) = Some f"
  shows "reads_if stops (parse_number T) (VFloat f) (s @ d @ 0x2E # e)"
  unfolding reads_if_def
proof (intro allI impI)
  fix pre rest assume rest: "stops rest"
  let ?p = "pre @ s @ d @ 0x2E # e"
  have dot: "skip_if (\<lambda>c. c = 0x2E) (at (pre @ s @ d) (0x2E # e @ rest)) = Some (Inr (True, at (pre @ s @ d @ [0x2E]) (e @ rest)))"
    using skip_if_at(2) [of "\<lambda>c. c = 0x2E" "pre @ s @ d" "0x2E" "e @ rest"] by simp
  have frac: "digits_or ExpectedFraction (at (pre @ s @ d @ [0x2E]) (e @ rest)) = Some (Inr ((), at ?p rest))"
    using digits_or_at [OF assms(3) stops_digit [OF rest], of ExpectedFraction "pre @ s @ d @ [0x2E]"] by simp
  have expo: "skip_if (\<lambda>c. c = 0x65 \<or> c = 0x45) (at ?p rest) = Some (Inr (False, at ?p rest))"
    by (rule skip_if_stops [OF rest]) auto
  have "parse_number T (at pre (s @ d @ 0x2E # e @ rest)) = Some (Inr (VFloat f, at ?p rest))"
    using slice_at [of pre "s @ d @ 0x2E # e" rest] assms(4) dot frac expo
    by (simp add: parse_number_def rd_bind_def [of tell] tell_def sign_digits [OF assms(1,2)] is_digit_def)
       (simp add: rd_bind_def rd_ret_def)
  then show "parse_number T \<lparr>rd_bytes = pre @ (s @ d @ 0x2E # e) @ rest, rd_pos = length pre\<rparr>
      = Some (Inr (VFloat f, \<lparr>rd_bytes = pre @ (s @ d @ 0x2E # e) @ rest, rd_pos = length pre + length (s @ d @ 0x2E # e)\<rparr>))" by simp
qed

subsection \<open>Values\<close>

fun printable :: "val \<Rightarrow> bool" and printable_json :: "json \<Rightarrow> bool" where
  "printable (VBool b) = True"
| "printable (VInt n) = True"
| "printable (VFloat n) = is_finite_f64 n"
| "printable (VStr s) = utf8_valid (as_bytes s)"
| "printable (VJson j) = printable_json j"
| "printable _ = False"
| "printable_json JNull = True"
| "printable_json (JArray items) = list_all printable items"
| "printable_json (JObject m) = (distinct (map fst m) \<and> list_all (\<lambda>e. utf8_valid (as_bytes (fst e)) \<and> printable (snd e)) m)"

definition visible :: "bytes \<Rightarrow> bool" where
  "visible b \<longleftrightarrow> b \<noteq> [] \<and> \<not> is_ws (hd b)"

lemma visible_append [simp]: "visible b \<Longrightarrow> visible (b @ c)"
  by (simp add: visible_def)

lemma reads_if_ws: "visible b \<Longrightarrow> reads_if Q (k ()) y b \<Longrightarrow> reads_if Q (rd_bind skip_ws k) y b"
  unfolding skip_ws_def by (rule reads_if_skip) (simp_all add: visible_def)

definition commas :: "bytes list \<Rightarrow> bytes" where
  "commas bss = concat (map (\<lambda>c. 0x2C # c) bss)"

lemma stops_close [simp]: "stops (0x5D # b)" "stops (0x7D # b)" "stops (0x2C # b)"
  by (simp_all add: stops_def)

lemma stops_commas: "stops (commas bss @ c # rest)" if "c \<in> {0x2C, 0x5D, 0x7D}"
  using that by (cases bss) (auto simp: commas_def stops_def)

lemma visible_commas: "c \<in> {0x2C, 0x5D, 0x7D} \<Longrightarrow> visible (commas bss @ c # b)"
  by (cases bss) (auto simp: commas_def visible_def is_ws_def)

lemma reads_array_loop:
  assumes "\<And>v. v \<in> set (v0 # vs) \<Longrightarrow> reads_if stops f v (w v) \<and> visible (w v)" and "length vs < n"
  shows "reads_if Q (array_loop n f acc) (JArray (acc @ v0 # vs)) (w v0 @ commas (map w vs) @ [0x5D])"
  using assms
proof (induction vs arbitrary: v0 n acc)
  case Nil
  then obtain m where n: "n = Suc m" by (cases n) auto
  show ?case unfolding n array_loop.simps
    by (rule reads_if_bind [where P = stops and x = v0])
       (use Nil in \<open>auto simp: commas_def visible_def is_ws_def intro!: reads_if_ws reads_if_advance reads_if_ret\<close>)
next
  case (Cons v1 vs)
  then obtain m where n: "n = Suc m" by (cases n) auto
  have IH: "reads_if Q (array_loop m f (acc @ [v0])) (JArray ((acc @ [v0]) @ v1 # vs)) (w v1 @ commas (map w vs) @ [0x5D])"
    using Cons.prems n by (intro Cons.IH) auto
  have "visible (w v1 @ commas (map w vs) @ [0x5D])" using Cons.prems(1) by simp
  with IH show ?case unfolding n array_loop.simps
    by (intro reads_if_bind [where P = stops and x = v0])
       (use Cons.prems in \<open>auto simp: commas_def visible_def is_ws_def intro!: reads_if_ws reads_if_advance\<close>)
qed

abbreviation entry_text :: "(val \<Rightarrow> bytes) \<Rightarrow> string \<times> val \<Rightarrow> bytes" where
  "entry_text w e \<equiv> write_string (fst e) @ 0x3A # w (snd e)"

lemma visible_string [simp]: "visible (write_string s)" "visible (write_string s @ b)"
  by (simp_all add: visible_def write_string_def is_ws_def)

lemma reads_object_loop:
  assumes "\<And>e. e \<in> set (e0 # es) \<Longrightarrow> utf8_valid (as_bytes (fst e)) \<and> reads_if stops f (snd e) (w (snd e)) \<and> visible (w (snd e))"
    and "length es < n" and "distinct (map fst (acc @ e0 # es))"
  shows "reads_if Q (object_loop n f acc) (JObject (acc @ e0 # es)) (entry_text w e0 @ commas (map (entry_text w) es) @ [0x7D])"
  using assms
proof (induction es arbitrary: e0 n acc)
  case Nil
  then obtain m where n: "n = Suc m" by (cases n) auto
  have ins: "hm_insert (fst e0) (snd e0) acc = acc @ [e0]" using Nil(3) by (auto simp: hm_insert_fresh)
  have "reads_if Q (object_loop (Suc m) f acc) (JObject (acc @ [e0])) (write_string (fst e0) @ 0x3A # w (snd e0) @ [0x7D])"
    unfolding object_loop.simps
    by (rule reads_if_ws, simp, rule reads_if_bind [where P = "\<lambda>_. True", OF reads_parse_string], use Nil in simp, simp,
        rule reads_if_ws, simp add: visible_def is_ws_def, rule reads_if_advance, simp, rule reads_if_ws, use Nil in simp,
        rule reads_if_bind [where P = stops and x = "snd e0"], use Nil in simp, simp,
        rule reads_if_ws, simp add: visible_def is_ws_def, rule reads_if_advance, simp add: ins reads_if_ret)
  then show ?case by (simp add: n commas_def)
next
  case (Cons e1 es)
  then obtain m where n: "n = Suc m" by (cases n) auto
  have ins: "hm_insert (fst e0) (snd e0) acc = acc @ [e0]" using Cons.prems(3) by (auto simp: hm_insert_fresh)
  have IH: "reads_if Q (object_loop m f (acc @ [e0])) (JObject ((acc @ [e0]) @ e1 # es)) (entry_text w e1 @ commas (map (entry_text w) es) @ [0x7D])"
    using Cons.prems n by (intro Cons.IH) auto
  let ?b = "write_string (fst e1) @ 0x3A # w (snd e1) @ commas (map (entry_text w) es) @ [0x7D]"
  have "reads_if Q (object_loop (Suc m) f acc) (JObject (acc @ e0 # e1 # es)) (write_string (fst e0) @ 0x3A # w (snd e0) @ 0x2C # ?b)"
    unfolding object_loop.simps
    by (rule reads_if_ws, simp, rule reads_if_bind [where P = "\<lambda>_. True", OF reads_parse_string], use Cons.prems in simp, simp,
        rule reads_if_ws, simp add: visible_def is_ws_def, rule reads_if_advance, simp, rule reads_if_ws, use Cons.prems in simp,
        rule reads_if_bind [where P = stops and x = "snd e0"], use Cons.prems in simp, simp,
        rule reads_if_ws, simp add: visible_def is_ws_def, rule reads_if_advance, use IH in \<open>simp add: ins\<close>)
  then show ?case by (simp add: n commas_def)
qed

subsection \<open>The round trip\<close>

definition opens :: "bytes \<Rightarrow> bool" where
  \<comment> \<open>how a printed value starts\<close>
  "opens b \<longleftrightarrow> visible b \<and> hd b \<noteq> 0x5D"

lemma number_head:
  assumes "signed s" and "digits d"
  shows "\<exists>c b. s @ d @ e = c # b \<and> (c = 0x2D \<or> is_digit c)"
  using assms by (cases d) (auto simp: signed_def digits_def)

lemma number_start:
  fixes c :: u8
  assumes "c = 0x2D \<or> is_digit c"
  shows "\<not> is_ws c" "c \<noteq> 0x6E" "c \<noteq> 0x74" "c \<noteq> 0x66" "c \<noteq> 0x22" "c \<noteq> 0x5B" "c \<noteq> 0x7B" "c \<noteq> 0x5D"
  using assms by (auto simp: is_digit_def is_ws_def)

lemma int_text:
  assumes "text_ok T"
  obtains s d where "bigint_to_string T n = s @ d" "signed s" "digits d" "bigint_parse T (s @ d) = Some n"
  using assms unfolding text_ok_def by metis

lemma digits_plain: "signed s \<Longrightarrow> digits d \<Longrightarrow> c \<in> {0x2E, 0x65, 0x45} \<Longrightarrow> c \<notin> set (s @ d)"
  using digit_not [of c] by (auto simp: signed_def digits_def list_all_iff)

lemma float_text:
  assumes "text_ok T" and "is_finite_f64 f"
  obtains s d e where "write_float T f = s @ d @ 0x2E # e" "signed s" "digits d" "digits e" "f64_parse T (s @ d @ 0x2E # e) = Some f"
proof -
  obtain s d e where p: "signed s" "digits d" "digits e" "f64_parse T (s @ d @ 0x2E # e) = Some f"
    and t: "f64_to_string T f = s @ d @ 0x2E # e \<or> f64_to_string T f = s @ d \<and> e = [0x30]"
    using assms unfolding text_ok_def by blast
  have "write_float T f = s @ d @ 0x2E # e"
  proof -
    have n: "0x2E \<notin> set (s @ d)" "0x65 \<notin> set (s @ d)" "0x45 \<notin> set (s @ d)" by (rule digits_plain [OF p(1,2)], simp)+
    from t show ?thesis
    proof (elim disjE conjE)
      assume "f64_to_string T f = s @ d" "e = [0x30]"
      then show ?thesis using assms(2) n by (simp add: write_float_def Let_def del: set_append)
    qed (use assms(2) in \<open>simp add: write_float_def\<close>)
  qed
  then show thesis using that p by blast
qed

lemma reads_number:
  assumes "reads_if Q (parse_number T) v (s @ d @ e)" and "signed s" and "digits d"
  shows "reads_if Q (parse_value_n (Suc n) T) v (s @ d @ e) \<and> opens (s @ d @ e)"
proof -
  obtain c b where c: "s @ d @ e = c # b" "c = 0x2D \<or> is_digit c" using number_head [OF assms(2,3)] by blast
  have v: "visible (c # b)" using number_start(1) [OF c(2)] by (simp add: visible_def)
  have "reads_if Q (parse_value_n (Suc n) T) v (c # b)"
    unfolding parse_value_n.simps
    by (rule reads_if_ws [OF v], rule reads_if_peek) (use assms(1) c(1) c(2) number_start [OF c(2)] in simp)
  then show ?thesis using c(1) v number_start(8) [OF c(2)] by (simp add: opens_def)
qed

lemma reads_expect: "reads_if Q (expect_bytes lit cs) () cs"
proof (induction cs)
  case (Cons c cs)
  then show ?case by (simp add: reads_if_advance)
qed (simp add: reads_if_ret)

lemma reads_lit: "reads_if Q (parse_lit lit v) v (ascii lit)"
  unfolding parse_lit_def using reads_if_map [OF reads_expect] by fast

lemma reads_keyword:
  assumes "lit \<in> {''null'', ''true'', ''false''}"
    and "v = (if lit = ''null'' then VJson JNull else VBool (lit = ''true''))"
  shows "reads_if Q (parse_value_n (Suc n) T) v (ascii lit) \<and> opens (ascii lit)"
proof -
  have lits: "ascii ''null'' = [0x6E, 0x75, 0x6C, 0x6C]" "ascii ''true'' = [0x74, 0x72, 0x75, 0x65]"
    "ascii ''false'' = [0x66, 0x61, 0x6C, 0x73, 0x65]" by code_simp+
  have v: "visible (ascii lit)" using assms(1) by (auto simp: lits visible_def is_ws_def)
  show ?thesis using assms reads_lit [of Q lit v] v unfolding parse_value_n.simps
    by (auto simp: lits opens_def intro!: reads_if_ws reads_if_peek)
qed

lemma sep_concat_Cons: "sep_concat (b # bs) = b @ commas bs"
  by (simp add: sep_concat_def commas_def)

lemma commas_length: "length bss \<le> length (commas bss)"
  by (induction bss) (simp_all add: commas_def)

lemma sep_concat_part: "b \<in> set bss \<Longrightarrow> length b \<le> length (sep_concat bss)"
proof (induction bss)
  case (Cons a bss)
  have "b \<in> set bss \<Longrightarrow> length b \<le> length (commas bss)"
    by (induction bss) (auto simp: commas_def)
  then show ?case using Cons.prems by (auto simp: sep_concat_Cons)
qed simp

lemma skip_if_other:
  assumes "reads_if Q (k False) y (c # b)" and "\<not> P c"
  shows "reads_if Q (rd_bind (skip_if P) k) y (c # b)"
  using assms by (simp add: reads_if_def rd_bind_def skip_if_at)

lemma skip_if_this:
  assumes "reads_if Q (k True) y b" and "P c"
  shows "reads_if Q (rd_bind (skip_if P) k) y (c # b)"
  unfolding reads_if_def
proof (intro allI impI)
  fix pre rest assume "Q rest"
  then have "k True (at (pre @ [c]) (b @ rest)) = Some (Inr (y, \<lparr>rd_bytes = (pre @ [c]) @ b @ rest, rd_pos = length (pre @ [c]) + length b\<rparr>))"
    using assms(1) unfolding reads_if_def by blast
  then show "rd_bind (skip_if P) k (at pre ((c # b) @ rest)) = Some (Inr (y, \<lparr>rd_bytes = pre @ (c # b) @ rest, rd_pos = length pre + length (c # b)\<rparr>))"
    using assms(2) by (simp add: rd_bind_def [of "skip_if P"] skip_if_at)
qed

definition round_trips :: "text_lib \<Rightarrow> val \<Rightarrow> bool" where
  "round_trips T v \<longleftrightarrow> opens (write_canonical_value T v) \<and>
     (\<forall>n \<ge> length (write_canonical_value T v). reads_if stops (parse_value_n (Suc n) T) v (write_canonical_value T v))"

lemma round_trips_part:
  assumes "round_trips T v" and "length (write_canonical_value T v) < n"
  shows "reads_if stops (parse_value_n n T) v (write_canonical_value T v) \<and> visible (write_canonical_value T v)"
  using assms by (cases n) (simp_all add: round_trips_def opens_def del: parse_value_n.simps)

lemma reads_parse_array:
  assumes "\<And>v. v \<in> set items \<Longrightarrow> reads_if stops f v (w v) \<and> opens (w v)"
  shows "reads_if Q (parse_array f) (JArray items) (0x5B # sep_concat (map w items) @ [0x5D])"
proof (cases items)
  case Nil
  have v: "visible [0x5D]" by (simp add: visible_def is_ws_def)
  show ?thesis unfolding parse_array_def Nil sep_concat_def list.simps append_Nil
    by (rule reads_if_advance, rule reads_if_ws [OF v], rule skip_if_this) (simp_all add: reads_if_ret)
next
  case (Cons v0 vs)
  have parts: "reads_if stops f v (w v) \<and> visible (w v)" if "v \<in> set (v0 # vs)" for v
    using that assms [of v] Cons by (auto simp: opens_def)
  obtain c b where cb: "w v0 = c # b" "c \<noteq> 0x5D" "visible (c # b)"
    using assms [of v0] Cons by (cases "w v0") (auto simp: opens_def visible_def)
  have loop: "reads_if Q (\<lambda>r. array_loop (Suc (unread r)) f [] r) (JArray ([] @ v0 # vs)) (w v0 @ commas (map w vs) @ [0x5D])"
  proof (rule reads_if_fuel)
    fix n assume "length (w v0 @ commas (map w vs) @ [0x5D]) \<le> n"
    then have "length vs < Suc n" using commas_length [of "map w vs"] by simp
    then show "reads_if Q (array_loop (Suc n) f []) (JArray ([] @ v0 # vs)) (w v0 @ commas (map w vs) @ [0x5D])"
      using parts by (intro reads_array_loop)
  qed
  have "visible (c # b @ commas (map w vs) @ [0x5D])" using cb(3) by (simp add: visible_def)
  then show ?thesis unfolding parse_array_def Cons list.simps sep_concat_Cons cb(1) append_Cons append_assoc
    by (intro reads_if_advance) (rule reads_if_ws, assumption, rule skip_if_other, use loop cb in simp_all)
qed

lemma reads_parse_object:
  assumes "\<And>e. e \<in> set m \<Longrightarrow> utf8_valid (as_bytes (fst e)) \<and> reads_if stops f (snd e) (w (snd e)) \<and> visible (w (snd e))"
    and "distinct (map fst m)"
  shows "reads_if Q (parse_object f) (JObject m) (0x7B # sep_concat (map (entry_text w) m) @ [0x7D])"
proof (cases m)
  case Nil
  have v: "visible [0x7D]" by (simp add: visible_def is_ws_def)
  show ?thesis unfolding parse_object_def Nil sep_concat_def list.simps append_Nil
    by (rule reads_if_advance, rule reads_if_ws [OF v], rule skip_if_this) (simp_all add: reads_if_ret)
next
  case (Cons e0 es)
  define t where "t = entry_text w e0 @ commas (map (entry_text w) es) @ [0x7D]"
  have loop: "reads_if Q (\<lambda>r. object_loop (Suc (unread r)) f [] r) (JObject ([] @ e0 # es)) t"
  proof (rule reads_if_fuel)
    fix n assume "length t \<le> n"
    then have "length es < Suc n" using commas_length [of "map (entry_text w) es"] by (simp add: t_def)
    then show "reads_if Q (object_loop (Suc n) f []) (JObject ([] @ e0 # es)) t"
      unfolding t_def using assms Cons by (intro reads_object_loop) auto
  qed
  obtain b where b: "t = 0x22 # b" by (simp add: t_def write_string_def)
  have "visible (0x22 # b)" by (simp add: visible_def is_ws_def)
  then have "reads_if Q (parse_object f) (JObject (e0 # es)) (0x7B # 0x22 # b)" unfolding parse_object_def
    by (intro reads_if_advance) (rule reads_if_ws, assumption, rule skip_if_other, use loop b in simp_all)
  then show ?thesis unfolding b [symmetric] by (simp add: t_def Cons sep_concat_Cons)
qed


lemma value_round_trips:
  assumes "text_ok T"
  shows "printable v \<Longrightarrow> round_trips T v"
    and "printable_json j \<Longrightarrow> round_trips T (VJson j)"
proof (induction v and j rule: printable_printable_json.induct)
  case (1 b)
  show ?case unfolding round_trips_def write_canonical_value.simps
    by (cases b) (simp_all add: reads_keyword del: parse_value_n.simps)
next
  case (2 n)
  obtain s d where sd: "bigint_to_string T n = s @ d" "signed s" "digits d" "bigint_parse T (s @ d) = Some n"
    by (rule int_text [OF assms])
  have "reads_if stops (parse_value_n (Suc k) T) (VInt n) (s @ d) \<and> opens (s @ d)" for k
    using reads_number [of stops T "VInt n" s d "[]", OF _ sd(2,3)] reads_int [OF sd(2-4)] by (simp del: parse_value_n.simps)
  then show ?case by (simp add: round_trips_def sd(1) del: parse_value_n.simps)
next
  case (3 f)
  then obtain s d e where t: "write_float T f = s @ d @ 0x2E # e" "signed s" "digits d" "digits e" "f64_parse T (s @ d @ 0x2E # e) = Some f"
    using float_text [OF assms] by (metis printable.simps(3))
  show ?case using reads_number [OF reads_float [OF t(2-5)] t(2,3)] by (simp add: round_trips_def t(1) del: parse_value_n.simps)
next
  case (4 s)
  obtain b where b: "write_string s = 0x22 # b" by (simp add: write_string_def)
  have "reads_if stops (rd_map VStr parse_string) (VStr s) (0x22 # b)"
    unfolding b [symmetric] using 4 by (intro reads_if_map reads_parse_string) simp
  moreover have v: "visible (0x22 # b)" by (simp add: visible_def is_ws_def)
  ultimately have "reads_if stops (parse_value_n (Suc n) T) (VStr s) (0x22 # b)" for n
    unfolding parse_value_n.simps by (intro reads_if_ws) (rule v, rule reads_if_peek, simp)
  then show ?case using v by (simp add: round_trips_def b opens_def del: parse_value_n.simps)
next
  case (8 items)
  define t where "t = sep_concat (map (write_canonical_value T) items) @ [0x5D]"
  have v: "visible (0x5B # t)" by (simp add: visible_def is_ws_def)
  have "reads_if stops (parse_value_n (Suc n) T) (VJson (JArray items)) (0x5B # t)" if "length (0x5B # t) \<le> n" for n
  proof -
    have "reads_if stops (parse_value_n n T) v (write_canonical_value T v) \<and> opens (write_canonical_value T v)" if "v \<in> set items" for v
    proof -
      have r: "round_trips T v" using 8 that by (simp add: list_all_iff)
      have "length (write_canonical_value T v) < n"
        using that \<open>length (0x5B # t) \<le> n\<close> sep_concat_part [of "write_canonical_value T v" "map (write_canonical_value T) items"] by (simp add: t_def)
      then show ?thesis using round_trips_part [OF r] r by (simp add: round_trips_def)
    qed
    then have "reads_if stops (rd_map VJson (parse_array (parse_value_n n T))) (VJson (JArray items)) (0x5B # t)"
      unfolding t_def by (intro reads_if_map reads_parse_array)
    then show ?thesis unfolding parse_value_n.simps by (intro reads_if_ws) (rule v, rule reads_if_peek, simp)
  qed
  then show ?case using v by (simp add: round_trips_def t_def [symmetric] opens_def del: parse_value_n.simps)
next
  case (9 m)
  define t where "t = sep_concat (map (entry_text (write_canonical_value T)) m) @ [0x7D]"
  have v: "visible (0x7B # t)" by (simp add: visible_def is_ws_def)
  have "reads_if stops (parse_value_n (Suc n) T) (VJson (JObject m)) (0x7B # t)" if "length (0x7B # t) \<le> n" for n
  proof -
    have "utf8_valid (as_bytes (fst e)) \<and> reads_if stops (parse_value_n n T) (snd e) (write_canonical_value T (snd e)) \<and> visible (write_canonical_value T (snd e))"
      if "e \<in> set m" for e
    proof -
      have r: "round_trips T (snd e)" using 9 that by (cases e) (auto simp: list_all_iff)
      have "length (write_canonical_value T (snd e)) < n"
        using that \<open>length (0x7B # t) \<le> n\<close> sep_concat_part [of "entry_text (write_canonical_value T) e" "map (entry_text (write_canonical_value T)) m"]
        by (simp add: t_def)
      then show ?thesis using round_trips_part [OF r] 9 that by (simp add: list_all_iff)
    qed
    then have "reads_if stops (rd_map VJson (parse_object (parse_value_n n T))) (VJson (JObject m)) (0x7B # t)"
      unfolding t_def using 9 by (intro reads_if_map reads_parse_object) auto
    then show ?thesis unfolding parse_value_n.simps by (intro reads_if_ws) (rule v, rule reads_if_peek, simp)
  qed
  then show ?case using v by (simp add: round_trips_def t_def [symmetric] opens_def del: parse_value_n.simps)
qed (use reads_keyword [of "''null''"] in \<open>simp_all add: round_trips_def del: parse_value_n.simps\<close>)

subsection \<open>The parser terminates\<close>

lemma returns_steps [total_intros]: "returns n (jerr e)" "returns n skip_ws"
  by (auto simp: returns_def jerr_def skip_ws_def skip_while_def unread_def)

lemma returns_read_hex [total_intros]: "returns n (read_hex k h)"
  by (induction k arbitrary: n h) (simp_all add: total_intros returns_advance)

lemma returns_escape [total_intros]: "returns n parse_escape"
  unfolding parse_escape_def by (rule returns_advance) (simp_all add: total_intros)

lemma returns_advance_n [total_intros]: "returns n (advance_n k)"
  by (induction k arbitrary: n) (simp_all add: total_intros returns_advance)

lemma returns_parse_char [total_intros]: "returns n (parse_char c)"
  unfolding parse_char_def by (intro total_intros)

lemma returns_string_loop: "returns n (string_loop (Suc n) out)"
  by (induction n arbitrary: out) (subst string_loop.simps(2), rule returns_advance, simp_all add: total_intros del: string_loop.simps)+

lemma returns_parse_string [total_intros]: "returns n parse_string"
  unfolding parse_string_def by (rule returns_advance) (simp_all add: total_intros returns_fuel [where F = "\<lambda>n. string_loop n []"] returns_string_loop del: string_loop.simps)

lemma returns_skip_if [total_intros]: "returns n (skip_if P)"
  unfolding skip_if_def rd_map_def by (rule returns_peek) (auto intro!: total_intros returns_advance)

lemma returns_parse_number [total_intros]: "returns n (parse_number T)"
  unfolding parse_number_def digits_or_def by (intro total_intros)

lemma returns_expect [total_intros]: "returns n (expect_bytes lit cs)"
  by (induction cs arbitrary: n) (simp_all add: total_intros returns_advance)

lemma returns_array_loop: "returns n f \<Longrightarrow> returns n (array_loop (Suc n) f items)"
proof (induction n arbitrary: items)
  case 0
  show ?case unfolding array_loop.simps
    by (rule returns_bind [OF 0], rule returns_bind, rule total_intros, rule returns_advance) (simp_all add: total_intros)
next
  case (Suc n)
  have "returns n (array_loop (Suc n) f items)" for items using Suc.IH returns_mono [OF Suc.prems] by simp
  then show ?case unfolding array_loop.simps(2) [of "Suc n"]
    by (intro returns_bind [OF Suc.prems] returns_bind [OF returns_steps(2)] returns_advance)
       (auto simp: total_intros simp del: array_loop.simps)
qed

lemma returns_object_loop: "returns n f \<Longrightarrow> returns n (object_loop (Suc n) f m)"
proof (induction n arbitrary: m)
  case 0
  show ?case unfolding object_loop.simps
    by (intro returns_bind [OF returns_steps(2)] returns_bind [OF returns_parse_string] returns_advance) (simp_all add: total_intros 0)
next
  case (Suc n)
  have f: "returns k f" if "k \<le> n" for k using returns_mono [OF Suc.prems] that by simp
  have IH: "returns k (object_loop (Suc n) f m)" if "k \<le> n" for k m using returns_mono [OF Suc.IH that] f by simp
  have step: "returns n (rd_bind advance (\<lambda>b. case b of None \<Rightarrow> jerr UnterminatedObject
     | Some c \<Rightarrow> if c = 0x2C then object_loop (Suc n) f (hm_insert key v m)
           else if c = 0x7D then rd_ret (JObject (hm_insert key v m)) else jerr (ExpectedInObject c)))" for key v
    using IH by (intro returns_advance) (auto simp: total_intros simp del: object_loop.simps)
  show ?case unfolding object_loop.simps(2) [of "Suc n"]
    by (intro returns_bind [OF returns_steps(2)] returns_bind [OF returns_parse_string] returns_advance)
       (auto simp: step f simp del: object_loop.simps intro!: returns_if returns_bind [OF returns_steps(2)] returns_bind [OF f] returns_steps(1))
qed

lemma returns_composite:
  assumes "returns (n - 1) f"
  shows "returns n (parse_array f)" and "returns n (parse_object f)"
proof -
  have f: "returns k f" if "k \<le> n - 1" for k using returns_mono [OF assms that] .
  have a: "returns k (\<lambda>r. array_loop (Suc (unread r)) f [] r)" and o: "returns k (\<lambda>r. object_loop (Suc (unread r)) f [] r)"
    if "k \<le> n - 1" for k
    using that f returns_array_loop returns_object_loop
    by (auto intro!: returns_fuel [where F = "\<lambda>n. array_loop n f []"] returns_fuel [where F = "\<lambda>n. object_loop n f []"] simp del: array_loop.simps object_loop.simps)
  show "returns n (parse_array f)" unfolding parse_array_def using a
    by (intro returns_advance returns_bind [OF returns_steps(2)] returns_bind [OF returns_skip_if] returns_if returns_ret) auto
  show "returns n (parse_object f)" unfolding parse_object_def using o
    by (intro returns_advance returns_bind [OF returns_steps(2)] returns_bind [OF returns_skip_if] returns_if returns_ret) auto
qed

lemma returns_parse_value_n: "returns n (parse_value_n (Suc n) T)"
proof (induction n)
  case 0
  show ?case unfolding parse_value_n.simps
    by (rule returns_bind [OF returns_steps(2)], rule returns_peek) (simp_all add: total_intros)
next
  case (Suc n)
  then have "returns (Suc n) (parse_array (parse_value_n (Suc n) T))" "returns (Suc n) (parse_object (parse_value_n (Suc n) T))"
    by (simp_all add: returns_composite del: parse_value_n.simps)
  then show ?case unfolding parse_value_n.simps(2) [of "Suc n"] parse_lit_def
    by (intro returns_bind [OF returns_steps(2)] returns_peek) (auto intro!: total_intros simp del: parse_value_n.simps)
qed

lemma returns_parse_value: "returns n (parse_value T)"
  unfolding parse_value_def [abs_def] by (rule returns_fuel [where F = "\<lambda>n. parse_value_n n T"]) (rule returns_parse_value_n)

text \<open>C31 (termination): parsing json terminates on every input. Whatever the bytes, \<^verbatim>\<open>parse\<close> returns a
  value or a \<^verbatim>\<open>ParseError\<close>: every loop iteration and every nested value consumes a byte, so the bytes
  left bound both, and no slice or index of the parser is ever out of range.\<close>

theorem parse_json_total: "\<exists>res. parse_json T s = Some res"
proof -
  have "returns n (rd_bind skip_ws (\<lambda>_. rd_bind (parse_value T) (\<lambda>v. rd_bind skip_ws (\<lambda>_. rd_ret v))))" for n
    by (intro total_intros returns_parse_value)
  then show ?thesis
    unfolding returns_def parse_json_def by (auto split: option.splits sum.splits)
qed

subsection \<open>Printing and parsing back\<close>


subsection \<open>A decimal text library\<close>

text \<open>A concrete instance of the parameter, with which the hypotheses can be met: integers in decimal;
  the text of a double is the decimal numeral of its bit pattern, which is not the number it stands
  for but has every documented property the round trip uses.\<close>

function nat_text :: "nat \<Rightarrow> bytes" where
  "nat_text n = (if n < 10 then [of_nat (48 + n)] else nat_text (n div 10) @ [of_nat (48 + n mod 10)])"
  by auto
termination by (relation "measure id") auto

declare nat_text.simps [simp del]

definition text_nat :: "bytes \<Rightarrow> nat" where
  "text_nat bs = foldl (\<lambda>n b. n * 10 + (unat b - 48)) 0 bs"

definition int_text_of :: "int \<Rightarrow> bytes" where
  "int_text_of n = (if n < 0 then 0x2D # nat_text (nat (- n)) else nat_text (nat n))"

definition text_int :: "bytes \<Rightarrow> int option" where
  "text_int bs = (case bs of [] \<Rightarrow> None | b # rest \<Rightarrow> Some (if b = 0x2D then - int (text_nat rest) else int (text_nat bs)))"

definition decimal_lib :: text_lib where
  "decimal_lib = \<lparr>bigint_to_string = int_text_of, bigint_parse = text_int,
     f64_to_string = (\<lambda>n. nat_text (unat n)), f64_parse = (\<lambda>bs. Some (of_nat (text_nat (takeWhile is_digit bs))))\<rparr>"

lemma digit_byte: "d < 10 \<Longrightarrow> is_digit (of_nat (48 + d)) \<and> unat (of_nat (48 + d) :: u8) = 48 + d"
proof -
  have "list_all (\<lambda>d. is_digit (of_nat (48 + d)) \<and> unat (of_nat (48 + d) :: u8) = 48 + d) [0..<10]" by code_simp
  then show "d < 10 \<Longrightarrow> is_digit (of_nat (48 + d)) \<and> unat (of_nat (48 + d) :: u8) = 48 + d" by (simp add: list_all_iff)
qed

lemma nat_text_digits: "digits (nat_text n)"
proof (induction n rule: nat_text.induct)
  case (1 n)
  show ?case
  proof (cases "n < 10")
    case True
    then show ?thesis using digit_byte [of n] by (subst nat_text.simps) (simp add: digits_def)
  next
    case False
    then show ?thesis using 1 digit_byte [of "n mod 10"] by (subst nat_text.simps) (simp add: digits_def)
  qed
qed

lemma text_nat_text: "text_nat (nat_text n) = n"
proof (induction n rule: nat_text.induct)
  case (1 n)
  show ?case
  proof (cases "n < 10")
    case True
    then show ?thesis using digit_byte [of n] by (subst nat_text.simps) (simp add: text_nat_def)
  next
    case False
    then show ?thesis using 1 digit_byte [of "n mod 10"] by (subst nat_text.simps) (simp add: text_nat_def)
  qed
qed

lemma text_int_text: "text_int (int_text_of n) = Some n"
proof -
  obtain c b where c: "nat_text (nat n) = c # b" "c \<noteq> 0x2D"
    using nat_text_digits [of "nat n"] digit_not by (cases "nat_text (nat n)") (auto simp: digits_def)
  have "text_nat (c # b) = nat n" using c(1) text_nat_text [of "nat n"] by simp
  then show ?thesis using c by (auto simp: text_int_def int_text_of_def text_nat_text)
qed

lemma text_ok_decimal: "text_ok decimal_lib"
proof -
  have i: "\<exists>s d. int_text_of n = s @ d \<and> signed s \<and> digits d" for n
    by (rule exI [of _ "if n < 0 then [0x2D] else []"], rule exI [of _ "nat_text (nat \<bar>n\<bar>)"])
       (simp add: int_text_of_def signed_def nat_text_digits)
  have z: "digits [0x30]" by (simp add: digits_def is_digit_def)
  have t: "takeWhile is_digit (nat_text n @ 0x2E # e) = nat_text n" for n e
    using nat_text_digits [of n] by (subst takeWhile_append2) (auto simp: digits_def list_all_iff is_digit_def)
  have "\<exists>s d e. signed s \<and> digits d \<and> digits e \<and> f64_parse decimal_lib (s @ d @ 0x2E # e) = Some f \<and>
      (f64_to_string decimal_lib f = s @ d @ 0x2E # e \<or> f64_to_string decimal_lib f = s @ d \<and> e = [0x30])" for f
    by (rule exI [of _ "[]"], rule exI [of _ "nat_text (unat f)"], rule exI [of _ "[0x30]"])
       (simp add: signed_def nat_text_digits t text_nat_text decimal_lib_def z)
  with i show ?thesis unfolding text_ok_def by (simp add: decimal_lib_def text_int_text)
qed


end
