(* ===== verification/Ops.thy ===== *)
theory Ops
  imports Bytecode JsonTextProps "HOL-Library.Signed_Division"
begin

section \<open>Operators, builtins and conversions\<close>

text \<open>
  \<^verbatim>\<open>crates/rend/src/ops.rs\<close>, the arithmetic and builtin kernels shared by the interpreter and the VM:
  the checked fixed-width arithmetic (\<^verbatim>\<open>int_arith!\<close>), the arbitrary-precision arithmetic
  (\<^verbatim>\<open>bigint_arith\<close>), \<^verbatim>\<open>float_arith\<close>, \<^verbatim>\<open>eval_binary\<close>, \<^verbatim>\<open>inc\<close>, \<^verbatim>\<open>eval_unary\<close>, \<^verbatim>\<open>call_builtin\<close> and \<^verbatim>\<open>convert\<close>.

  A result is a sum, \<open>Inl\<close> the error: a constructor of \<open>op_error\<close> per message of the source. \<^verbatim>\<open>BigInt\<close> is
  \<open>int\<close> with truncating division and remainder (\<open>sdiv\<close>, \<open>smod\<close>) and two's complement bit operations.
  An \<^verbatim>\<open>i32\<close> is a 32-bit word read by \<open>sint\<close>. Rust's checked operations are the exact operation on
  integers followed by the range check. Double arithmetic is a parameter (\<open>float_lib\<close>); comparison and
  negation of doubles are computed on the bit patterns. \<^verbatim>\<open>usize\<close> is 64 bits wide.
\<close>

subsection \<open>Errors and the double-precision unit\<close>

datatype op_error =
    EOverflow | EDivZero | EBadShift | EUintUnderflow | EUndefined binop | EMismatch
  | ENonNumeric | EUintNegation | EUnaryMismatch
  | EUsage string           \<comment> \<open>a builtin called with arguments of the wrong shape\<close>
  | EStartRange | EEndRange | ESliceRange | ECharBoundary
  | EAssert "string option"
  | EParse json_error nat
  | EIndexRange | ENotA string | EU64Range | EOddArgs | EKeyString
  | EUnknownBuiltin string
  | EBounds | EConvert

record float_lib =
  f_add :: "u64 \<Rightarrow> u64 \<Rightarrow> u64"
  f_sub :: "u64 \<Rightarrow> u64 \<Rightarrow> u64"
  f_mul :: "u64 \<Rightarrow> u64 \<Rightarrow> u64"
  f_div :: "u64 \<Rightarrow> u64 \<Rightarrow> u64"
  f_rem :: "u64 \<Rightarrow> u64 \<Rightarrow> u64"

definition f64_is_nan :: "u64 \<Rightarrow> bool" where
  "f64_is_nan n \<longleftrightarrow> drop_bit 52 n AND 0x7FF = 0x7FF \<and> n AND 0xFFFFFFFFFFFFF \<noteq> 0"

definition f64_rank :: "u64 \<Rightarrow> int" where
  \<comment> \<open>sign and magnitude: monotone in the number; both zeros have rank 0\<close>
  "f64_rank n = (let m = uint (n AND 0x7FFFFFFFFFFFFFFF) in if bit n 63 then - m else m)"

definition f64_lt :: "u64 \<Rightarrow> u64 \<Rightarrow> bool" where
  "f64_lt a b \<longleftrightarrow> \<not> f64_is_nan a \<and> \<not> f64_is_nan b \<and> f64_rank a < f64_rank b"

definition f64_le :: "u64 \<Rightarrow> u64 \<Rightarrow> bool" where
  "f64_le a b \<longleftrightarrow> \<not> f64_is_nan a \<and> \<not> f64_is_nan b \<and> f64_rank a \<le> f64_rank b"

definition f64_eq :: "u64 \<Rightarrow> u64 \<Rightarrow> bool" where
  "f64_eq a b \<longleftrightarrow> \<not> f64_is_nan a \<and> \<not> f64_is_nan b \<and> f64_rank a = f64_rank b"

definition f64_neg :: "u64 \<Rightarrow> u64" where
  "f64_neg n = n XOR 0x8000000000000000"

definition f64_one :: u64 where
  "f64_one = 0x3FF0000000000000"

subsection \<open>Fixed-width integers\<close>

text \<open>The macro is instantiated per variant: \<open>rd\<close> reads the word (\<open>sint\<close> or \<open>uint\<close>), \<open>lo\<close> and \<open>hi\<close> are
  the bounds of the type, \<open>wrap\<close> is the variant.\<close>

definition checked :: "int \<Rightarrow> int \<Rightarrow> int \<Rightarrow> 'w::len word option" where
  "checked lo hi x = (if lo \<le> x \<and> x \<le> hi then Some (word_of_int x) else None)"

definition ok_or :: "op_error \<Rightarrow> 'a option \<Rightarrow> op_error + 'a" where
  "ok_or e v = (case v of None \<Rightarrow> Inl e | Some x \<Rightarrow> Inr x)"

definition checked_rem :: "int \<Rightarrow> int \<Rightarrow> int \<Rightarrow> int \<Rightarrow> 'w::len word option" where
  \<comment> \<open>\<^verbatim>\<open>checked_rem\<close> fails where the quotient overflows\<close>
  "checked_rem lo hi x y = (case checked lo hi (x sdiv y) of None \<Rightarrow> None | Some (_ :: 'w word) \<Rightarrow> checked lo hi (x smod y))"

definition shift_amount :: "int \<Rightarrow> nat option" where
  \<comment> \<open>\<^verbatim>\<open>try_into\<close> \<^verbatim>\<open>u32\<close>\<close>
  "shift_amount x = (if 0 \<le> x \<and> x < 2 ^ 32 then Some (nat x) else None)"

definition shifted :: "(nat \<Rightarrow> int \<Rightarrow> int) \<Rightarrow> int \<Rightarrow> int \<Rightarrow> 'w::len word option" where
  \<comment> \<open>\<^verbatim>\<open>checked_shl\<close> and \<^verbatim>\<open>checked_shr\<close> check the amount, not the bits that fall out\<close>
  "shifted sh x y = (case shift_amount y of None \<Rightarrow> None
     | Some n \<Rightarrow> if n < LENGTH('w) then Some (word_of_int (sh n x)) else None)"

fun int_arith :: "('w::len word \<Rightarrow> int) \<Rightarrow> int \<Rightarrow> int \<Rightarrow> ('w word \<Rightarrow> val) \<Rightarrow> binop \<Rightarrow> 'w word \<Rightarrow> 'w word \<Rightarrow> op_error + val" where
  "int_arith rd lo hi wrap BAdd a b = ok_or EOverflow (map_option wrap (checked lo hi (rd a + rd b)))"
| "int_arith rd lo hi wrap BSub a b = ok_or EOverflow (map_option wrap (checked lo hi (rd a - rd b)))"
| "int_arith rd lo hi wrap BMul a b = ok_or EOverflow (map_option wrap (checked lo hi (rd a * rd b)))"
| "int_arith rd lo hi wrap BDiv a b = (if rd b = 0 then Inl EDivZero
     else ok_or EOverflow (map_option wrap (checked lo hi (rd a sdiv rd b))))"
| "int_arith rd lo hi wrap BMod a b = (if rd b = 0 then Inl EDivZero
     else ok_or EOverflow (map_option wrap (checked_rem lo hi (rd a) (rd b))))"
| "int_arith rd lo hi wrap BLt a b = Inr (VBool (rd a < rd b))"
| "int_arith rd lo hi wrap BGt a b = Inr (VBool (rd a > rd b))"
| "int_arith rd lo hi wrap BLtEq a b = Inr (VBool (rd a \<le> rd b))"
| "int_arith rd lo hi wrap BGtEq a b = Inr (VBool (rd a \<ge> rd b))"
| "int_arith rd lo hi wrap BEq a b = Inr (VBool (a = b))"
| "int_arith rd lo hi wrap BNotEq a b = Inr (VBool (a \<noteq> b))"
| "int_arith rd lo hi wrap BBitAnd a b = Inr (wrap (a AND b))"
| "int_arith rd lo hi wrap BBitOr a b = Inr (wrap (a OR b))"
| "int_arith rd lo hi wrap BBitXor a b = Inr (wrap (a XOR b))"
| "int_arith rd lo hi wrap BShl a b = ok_or EOverflow (map_option wrap (shifted push_bit (rd a) (rd b)))"
| "int_arith rd lo hi wrap BShr a b = ok_or EOverflow (map_option wrap (shifted drop_bit (rd a) (rd b)))"
| "int_arith rd lo hi wrap other a b = Inl (EUndefined other)"

subsection \<open>Arbitrary-precision integers and doubles\<close>

definition big_wrap :: "bool \<Rightarrow> int \<Rightarrow> val" where
  "big_wrap u n = (if u then VUInt n else VInt n)"

fun bigint_arith :: "binop \<Rightarrow> int \<Rightarrow> int \<Rightarrow> bool \<Rightarrow> op_error + val" where
  "bigint_arith BAdd a b u = Inr (big_wrap u (a + b))"
| "bigint_arith BSub a b u = (if u \<and> a - b < 0 then Inl EUintUnderflow else Inr (big_wrap u (a - b)))"
| "bigint_arith BMul a b u = Inr (big_wrap u (a * b))"
| "bigint_arith BDiv a b u = (if b = 0 then Inl EDivZero else Inr (big_wrap u (a sdiv b)))"
| "bigint_arith BMod a b u = (if b = 0 then Inl EDivZero else Inr (big_wrap u (a smod b)))"
| "bigint_arith BLt a b u = Inr (VBool (a < b))"
| "bigint_arith BGt a b u = Inr (VBool (a > b))"
| "bigint_arith BLtEq a b u = Inr (VBool (a \<le> b))"
| "bigint_arith BGtEq a b u = Inr (VBool (a \<ge> b))"
| "bigint_arith BEq a b u = Inr (VBool (a = b))"
| "bigint_arith BNotEq a b u = Inr (VBool (a \<noteq> b))"
| "bigint_arith BBitAnd a b u = Inr (big_wrap u (a AND b))"
| "bigint_arith BBitOr a b u = Inr (big_wrap u (a OR b))"
| "bigint_arith BBitXor a b u = Inr (big_wrap u (a XOR b))"
| "bigint_arith BShl a b u = (if b < 0 then Inl EBadShift else
     (case shift_amount b of None \<Rightarrow> Inl EBadShift | Some n \<Rightarrow> Inr (big_wrap u (push_bit n a))))"
| "bigint_arith BShr a b u = (if b < 0 then Inl EBadShift else
     (case shift_amount b of None \<Rightarrow> Inl EBadShift | Some n \<Rightarrow> Inr (big_wrap u (drop_bit n a))))"
| "bigint_arith other a b u = Inl (EUndefined other)"

fun float_arith :: "float_lib \<Rightarrow> binop \<Rightarrow> u64 \<Rightarrow> u64 \<Rightarrow> op_error + val" where
  "float_arith F BAdd a b = Inr (VFloat (f_add F a b))"
| "float_arith F BSub a b = Inr (VFloat (f_sub F a b))"
| "float_arith F BMul a b = Inr (VFloat (f_mul F a b))"
| "float_arith F BDiv a b = Inr (VFloat (f_div F a b))"
| "float_arith F BMod a b = Inr (VFloat (f_rem F a b))"
| "float_arith F BLt a b = Inr (VBool (f64_lt a b))"
| "float_arith F BGt a b = Inr (VBool (f64_lt b a))"
| "float_arith F BLtEq a b = Inr (VBool (f64_le a b))"
| "float_arith F BGtEq a b = Inr (VBool (f64_le b a))"
| "float_arith F BEq a b = Inr (VBool (f64_eq a b))"
| "float_arith F BNotEq a b = Inr (VBool (\<not> f64_eq a b))"
| "float_arith F other a b = Inl (EUndefined other)"

subsection \<open>Operators on values\<close>

primrec discriminant :: "val \<Rightarrow> nat" where
  "discriminant (VInt _) = 0" | "discriminant (VUInt _) = 1" | "discriminant (VFloat _) = 2"
| "discriminant (VI32 _) = 3" | "discriminant (VU32 _) = 4" | "discriminant (VU64 _) = 5"
| "discriminant (VU128 _) = 6" | "discriminant (VBool _) = 7" | "discriminant VUnit = 8"
| "discriminant (VResource _) = 9" | "discriminant (VStr _) = 10" | "discriminant (VAddress _) = 11"
| "discriminant (VBytes _) = 12" | "discriminant (VArray _) = 13" | "discriminant (VSet _) = 14"
| "discriminant (VDict _) = 15" | "discriminant (VStruct _ _) = 16" | "discriminant (VTuple _) = 17"
| "discriminant (VEnum _ _ _) = 18" | "discriminant (VPending _) = 19" | "discriminant (VPMap _) = 20"
| "discriminant (VPBTree _) = 21" | "discriminant (VJson _) = 22" | "discriminant (VPVec _ _) = 23"
| "discriminant (VInterface _ _) = 24" | "discriminant (VPMapCursor _ _ _ _) = 25"
| "discriminant (VPBTreeCursor _ _ _ _) = 26"

definition bool_binary :: "binop \<Rightarrow> bool \<Rightarrow> bool \<Rightarrow> op_error + val" where
  "bool_binary op a b = (case op of
     BAnd \<Rightarrow> Inr (VBool (a \<and> b)) | BOr \<Rightarrow> Inr (VBool (a \<or> b))
   | BEq \<Rightarrow> Inr (VBool (a = b)) | BNotEq \<Rightarrow> Inr (VBool (a \<noteq> b))
   | _ \<Rightarrow> Inl EMismatch)"

definition same_binary :: "binop \<Rightarrow> val \<Rightarrow> val \<Rightarrow> op_error + val" where
  \<comment> \<open>the last two arms: equality of two values of one variant\<close>
  "same_binary op l r = (if discriminant l = discriminant r
     then (case op of BEq \<Rightarrow> Inr (VBool (value_eq l r)) | BNotEq \<Rightarrow> Inr (VBool (\<not> value_eq l r)) | _ \<Rightarrow> Inl EMismatch)
     else Inl EMismatch)"

definition eval_binary :: "float_lib \<Rightarrow> binop \<Rightarrow> val \<Rightarrow> val \<Rightarrow> op_error + val" where
  "eval_binary F op l r = (case (l, r) of
     (VInt a, VInt b) \<Rightarrow> bigint_arith op a b False
   | (VUInt a, VUInt b) \<Rightarrow> bigint_arith op a b True
   | (VFloat a, VFloat b) \<Rightarrow> float_arith F op a b
   | (VI32 a, VI32 b) \<Rightarrow> int_arith sint (- (2 ^ 31)) (2 ^ 31 - 1) VI32 op a b
   | (VU32 a, VU32 b) \<Rightarrow> int_arith uint 0 (2 ^ 32 - 1) VU32 op a b
   | (VU64 a, VU64 b) \<Rightarrow> int_arith uint 0 (2 ^ 64 - 1) VU64 op a b
   | (VU128 a, VU128 b) \<Rightarrow> int_arith uint 0 (2 ^ 128 - 1) VU128 op a b
   | (VBool a, VBool b) \<Rightarrow> bool_binary op a b
   | _ \<Rightarrow> same_binary op l r)"

definition inc :: "float_lib \<Rightarrow> val \<Rightarrow> op_error + val" where
  "inc F v = (case v of
     VInt n \<Rightarrow> Inr (VInt (n + 1))
   | VUInt n \<Rightarrow> Inr (VUInt (n + 1))
   | VFloat n \<Rightarrow> Inr (VFloat (f_add F n f64_one))
   | VI32 n \<Rightarrow> ok_or EOverflow (map_option VI32 (checked (- (2 ^ 31)) (2 ^ 31 - 1) (sint n + 1)))
   | VU32 n \<Rightarrow> ok_or EOverflow (map_option VU32 (checked 0 (2 ^ 32 - 1) (uint n + 1)))
   | VU64 n \<Rightarrow> ok_or EOverflow (map_option VU64 (checked 0 (2 ^ 64 - 1) (uint n + 1)))
   | VU128 n \<Rightarrow> ok_or EOverflow (map_option VU128 (checked 0 (2 ^ 128 - 1) (uint n + 1)))
   | _ \<Rightarrow> Inl ENonNumeric)"

definition eval_unary :: "unop \<Rightarrow> val \<Rightarrow> op_error + val" where
  "eval_unary op v = (case (op, v) of
     (UNeg, VInt n) \<Rightarrow> Inr (VInt (- n))
   | (UNeg, VUInt n) \<Rightarrow> if n = 0 then Inr (VUInt n) else Inl EUintNegation
   | (UNeg, VFloat n) \<Rightarrow> Inr (VFloat (f64_neg n))
   | (UNeg, VI32 n) \<Rightarrow> ok_or EOverflow (map_option VI32 (checked (- (2 ^ 31)) (2 ^ 31 - 1) (- sint n)))
   | (UNeg, VU32 n) \<Rightarrow> if n = 0 then Inr (VU32 0) else Inl EOverflow
   | (UNeg, VU64 n) \<Rightarrow> if n = 0 then Inr (VU64 0) else Inl EOverflow
   | (UNeg, VU128 n) \<Rightarrow> if n = 0 then Inr (VU128 0) else Inl EOverflow
   | (UNot, VBool b) \<Rightarrow> Inr (VBool (\<not> b))
   | _ \<Rightarrow> Inl EUnaryMismatch)"

subsection \<open>Builtins\<close>

definition set_insert :: "val list \<Rightarrow> op_error + val" where
  "set_insert args = (case args of
     [VSet s, v] \<Rightarrow> Inr (VSet (if list_ex (\<lambda>e. value_eq e v) s then s else s @ [v]))
   | _ \<Rightarrow> Inl (EUsage ''set_insert''))"

definition set_remove :: "val list \<Rightarrow> op_error + val" where
  "set_remove args = (case args of
     [VSet s, v] \<Rightarrow> Inr (VSet (filter (\<lambda>e. \<not> value_eq e v) s))
   | _ \<Rightarrow> Inl (EUsage ''set_remove''))"

definition set_contains :: "val list \<Rightarrow> op_error + val" where
  "set_contains args = (case args of
     [VSet s, v] \<Rightarrow> Inr (VBool (list_ex (\<lambda>e. value_eq e v) s))
   | _ \<Rightarrow> Inl (EUsage ''set_contains''))"

definition set_len :: "val list \<Rightarrow> op_error + val" where
  "set_len args = (case args of [VSet s] \<Rightarrow> Inr (VInt (int (length s))) | _ \<Rightarrow> Inl (EUsage ''set_len''))"

primrec dict_assign :: "val \<Rightarrow> val \<Rightarrow> (val \<times> val) list \<Rightarrow> (val \<times> val) list" where
  \<comment> \<open>overwrite the first entry of the key, or push a new one\<close>
  "dict_assign k v [] = [(k, v)]"
| "dict_assign k v (e # d) = (if value_eq (fst e) k then (fst e, v) # d else e # dict_assign k v d)"

definition dict_set :: "val list \<Rightarrow> op_error + val" where
  "dict_set args = (case args of
     [VDict d, k, v] \<Rightarrow> Inr (VDict (dict_assign k v d))
   | _ \<Rightarrow> Inl (EUsage ''dict_set''))"

definition dict_remove :: "val list \<Rightarrow> op_error + val" where
  "dict_remove args = (case args of
     [VDict d, k] \<Rightarrow> Inr (VDict (filter (\<lambda>e. \<not> value_eq (fst e) k) d))
   | _ \<Rightarrow> Inl (EUsage ''dict_remove''))"

definition dict_get :: "val list \<Rightarrow> op_error + val" where
  "dict_get args = (case args of
     [VDict d, k, dflt] \<Rightarrow> Inr (case find (\<lambda>e. value_eq (fst e) k) d of None \<Rightarrow> dflt | Some e \<Rightarrow> snd e)
   | _ \<Rightarrow> Inl (EUsage ''dict_get''))"

definition dict_has :: "val list \<Rightarrow> op_error + val" where
  "dict_has args = (case args of
     [VDict d, k] \<Rightarrow> Inr (VBool (list_ex (\<lambda>e. value_eq (fst e) k) d))
   | _ \<Rightarrow> Inl (EUsage ''dict_has''))"

definition dict_len :: "val list \<Rightarrow> op_error + val" where
  "dict_len args = (case args of [VDict d] \<Rightarrow> Inr (VInt (int (length d))) | _ \<Rightarrow> Inl (EUsage ''dict_len''))"

definition to_bytes :: "val list \<Rightarrow> op_error + val" where
  "to_bytes args = (case args of [VStr s] \<Rightarrow> Inr (VBytes (as_bytes s)) | _ \<Rightarrow> Inl (EUsage ''to_bytes''))"

definition string_concat :: "val list \<Rightarrow> op_error + val" where
  "string_concat args = (case args of
     [VStr a, VStr b] \<Rightarrow> Inr (VStr (a @ b)) | _ \<Rightarrow> Inl (EUsage ''string_concat''))"

definition to_usize :: "int \<Rightarrow> nat option" where
  "to_usize n = (if 0 \<le> n \<and> n < 2 ^ 64 then Some (nat n) else None)"

definition slice_range :: "int \<Rightarrow> int \<Rightarrow> nat \<Rightarrow> op_error + nat \<times> nat" where
  \<comment> \<open>the range check of \<^verbatim>\<open>string_slice\<close> and \<^verbatim>\<open>bytes_slice\<close>\<close>
  "slice_range start fin len = (case to_usize start of None \<Rightarrow> Inl EStartRange | Some st \<Rightarrow>
     (case to_usize fin of None \<Rightarrow> Inl EEndRange | Some en \<Rightarrow>
       if st > en \<or> en > len then Inl ESliceRange else Inr (st, en)))"

definition string_slice :: "val list \<Rightarrow> op_error + val" where
  "string_slice args = (case args of
     [VStr s, VInt start, VInt fin] \<Rightarrow>
       (case slice_range start fin (length (as_bytes s)) of Inl e \<Rightarrow> Inl e
        | Inr (st, en) \<Rightarrow>
          if \<not> is_char_boundary (as_bytes s) st \<or> \<not> is_char_boundary (as_bytes s) en then Inl ECharBoundary
          else Inr (VStr (take (en - st) (drop st s))))
   | _ \<Rightarrow> Inl (EUsage ''string_slice''))"

fun contains_at :: "string \<Rightarrow> string \<Rightarrow> bool" where
  "contains_at [] needle = (needle = [])"
| "contains_at (c # s) needle = (take (length needle) (c # s) = needle \<or> contains_at s needle)"

definition string_contains :: "val list \<Rightarrow> op_error + val" where
  "string_contains args = (case args of
     [VStr haystack, VStr needle] \<Rightarrow> Inr (VBool (contains_at haystack needle))
   | _ \<Rightarrow> Inl (EUsage ''string_contains''))"

definition bytes_len :: "val list \<Rightarrow> op_error + val" where
  "bytes_len args = (case args of [VBytes b] \<Rightarrow> Inr (VInt (int (length b))) | _ \<Rightarrow> Inl (EUsage ''bytes_len''))"

definition bytes_concat :: "val list \<Rightarrow> op_error + val" where
  "bytes_concat args = (case args of
     [VBytes a, VBytes b] \<Rightarrow> Inr (VBytes (a @ b)) | _ \<Rightarrow> Inl (EUsage ''bytes_concat''))"

definition bytes_eq :: "val list \<Rightarrow> op_error + val" where
  "bytes_eq args = (case args of
     [VBytes a, VBytes b] \<Rightarrow> Inr (VBool (a = b)) | _ \<Rightarrow> Inl (EUsage ''bytes_eq''))"

definition to_be_bytes :: "val list \<Rightarrow> op_error + val" where
  "to_be_bytes args = (case args of
     [VU32 n] \<Rightarrow> Inr (VBytes (be_bytes 4 (unat n)))
   | [VU64 n] \<Rightarrow> Inr (VBytes (be_bytes 8 (unat n)))
   | [VU128 n] \<Rightarrow> Inr (VBytes (be_bytes 16 (unat n)))
   | [VI32 n] \<Rightarrow> Inr (VBytes (be_bytes 4 (unat (n XOR 0x80000000))))
   | _ \<Rightarrow> Inl (EUsage ''to_be_bytes''))"

definition bit_not_bytes :: "val list \<Rightarrow> op_error + val" where
  "bit_not_bytes args = (case args of
     [VBytes b] \<Rightarrow> Inr (VBytes (map (\<lambda>x. NOT x) b)) | _ \<Rightarrow> Inl (EUsage ''bit_not_bytes''))"

definition bytes_slice :: "val list \<Rightarrow> op_error + val" where
  "bytes_slice args = (case args of
     [VBytes b, VInt start, VInt fin] \<Rightarrow>
       (case slice_range start fin (length b) of Inl e \<Rightarrow> Inl e
        | Inr (st, en) \<Rightarrow> Inr (VBytes (take (en - st) (drop st b))))
   | _ \<Rightarrow> Inl (EUsage ''bytes_slice''))"

definition assert_builtin :: "val list \<Rightarrow> op_error + val" where
  "assert_builtin args = (case args of
     [VBool b] \<Rightarrow> (if b then Inr VUnit else Inl (EAssert None))
   | [VBool b, VStr msg] \<Rightarrow> (if b then Inr VUnit else Inl (EAssert (Some msg)))
   | _ \<Rightarrow> Inl (EUsage ''assert''))"

primrec sum_loop :: "float_lib \<Rightarrow> val list \<Rightarrow> val \<Rightarrow> op_error + val" where
  "sum_loop F [] acc = Inr acc"
| "sum_loop F (e # es) acc = (case eval_binary F BAdd acc e of Inl err \<Rightarrow> Inl err | Inr acc' \<Rightarrow> sum_loop F es acc')"

definition sum_builtin :: "float_lib \<Rightarrow> val list \<Rightarrow> op_error + val" where
  "sum_builtin F args = (case args of [VArray elems, init] \<Rightarrow> sum_loop F elems init | _ \<Rightarrow> Inl (EUsage ''sum''))"

primrec pick_loop :: "float_lib \<Rightarrow> binop \<Rightarrow> val list \<Rightarrow> val \<Rightarrow> op_error + val" where
  "pick_loop F cmp [] acc = Inr acc"
| "pick_loop F cmp (e # es) acc = (case eval_binary F cmp e acc of Inl err \<Rightarrow> Inl err
     | Inr b \<Rightarrow> pick_loop F cmp es (if b = VBool True then e else acc))"

definition pick_builtin :: "string \<Rightarrow> float_lib \<Rightarrow> binop \<Rightarrow> val list \<Rightarrow> op_error + val" where
  \<comment> \<open>\<^verbatim>\<open>max\<close> and \<^verbatim>\<open>min\<close> differ in the comparison\<close>
  "pick_builtin nm F cmp args = (case args of
     [VArray elems, dflt] \<Rightarrow> (case elems of [] \<Rightarrow> Inr dflt | e # es \<Rightarrow> pick_loop F cmp es e)
   | _ \<Rightarrow> Inl (EUsage nm))"

definition bytes_string :: "bytes \<Rightarrow> string" where
  "bytes_string bs = map (\<lambda>b. char_of (unat b)) bs"

definition parse_json_builtin :: "text_lib \<Rightarrow> val list \<Rightarrow> op_error + val" where
  \<comment> \<open>\<open>parse_json\<close> always returns (\<open>parse_json_total\<close>)\<close>
  "parse_json_builtin T args = (case args of
     [VStr s] \<Rightarrow> (case the (parse_json T (as_bytes s)) of Inl (e, pos) \<Rightarrow> Inl (EParse e pos) | Inr v \<Rightarrow> Inr v)
   | _ \<Rightarrow> Inl (EUsage ''parse_json''))"

definition json_stringify :: "text_lib \<Rightarrow> val list \<Rightarrow> op_error + val" where
  "json_stringify T args = (case args of
     [v] \<Rightarrow> Inr (VStr (bytes_string (write_canonical_value T v))) | _ \<Rightarrow> Inl (EUsage ''json_stringify''))"

definition or_null :: "val option \<Rightarrow> val" where
  "or_null v = (case v of None \<Rightarrow> VJson JNull | Some x \<Rightarrow> x)"

definition json_get_field :: "val list \<Rightarrow> op_error + val" where
  "json_get_field args = (case args of
     [VJson j, VStr k] \<Rightarrow> Inr (or_null (get_field j k))
   | [_, VStr _] \<Rightarrow> Inr (VJson JNull)
   | _ \<Rightarrow> Inl (EUsage ''json_get_field''))"

definition json_get_index :: "val list \<Rightarrow> op_error + val" where
  "json_get_index args = (case args of
     [VJson j, VInt i] \<Rightarrow> (case to_usize i of None \<Rightarrow> Inl EIndexRange | Some idx \<Rightarrow> Inr (or_null (get_index j idx)))
   | [VJson j, VU64 i] \<Rightarrow> Inr (or_null (get_index j (unat i)))
   | [_, _] \<Rightarrow> Inr (VJson JNull)
   | _ \<Rightarrow> Inl (EUsage ''json_get_index''))"

definition json_to_string :: "val list \<Rightarrow> op_error + val" where
  "json_to_string args = (case args of
     [VStr s] \<Rightarrow> Inr (VStr s) | [_] \<Rightarrow> Inl (ENotA ''string'') | _ \<Rightarrow> Inl (EUsage ''json_to_string''))"

definition json_to_i64 :: "val list \<Rightarrow> op_error + val" where
  "json_to_i64 args = (case args of
     [VInt n] \<Rightarrow> Inr (VInt n) | [VUInt n] \<Rightarrow> Inr (VInt n)
   | [_] \<Rightarrow> Inl (ENotA ''integer'') | _ \<Rightarrow> Inl (EUsage ''json_to_i64''))"

definition to_u64 :: "int \<Rightarrow> op_error + val" where
  "to_u64 n = (if 0 \<le> n \<and> n < 2 ^ 64 then Inr (VU64 (word_of_int n)) else Inl EU64Range)"

definition json_to_u64 :: "val list \<Rightarrow> op_error + val" where
  "json_to_u64 args = (case args of
     [VInt n] \<Rightarrow> to_u64 n | [VUInt n] \<Rightarrow> to_u64 n
   | [_] \<Rightarrow> Inl (ENotA ''non-negative integer'') | _ \<Rightarrow> Inl (EUsage ''json_to_u64''))"

definition json_to_bool :: "val list \<Rightarrow> op_error + val" where
  "json_to_bool args = (case args of
     [VBool b] \<Rightarrow> Inr (VBool b) | [_] \<Rightarrow> Inl (ENotA ''bool'') | _ \<Rightarrow> Inl (EUsage ''json_to_bool''))"

definition json_is_null :: "val list \<Rightarrow> op_error + val" where
  "json_is_null args = (case args of
     [VJson JNull] \<Rightarrow> Inr (VBool True) | [_] \<Rightarrow> Inr (VBool False) | _ \<Rightarrow> Inl (EUsage ''json_is_null''))"

definition json_null :: "val list \<Rightarrow> op_error + val" where
  "json_null args = (case args of [] \<Rightarrow> Inr (VJson JNull) | _ \<Rightarrow> Inl (EUsage ''_json_null''))"

fun object_pairs :: "val list \<Rightarrow> (string, val) hashmap \<Rightarrow> op_error + val" where
  "object_pairs (VStr key # v # rest) m = object_pairs rest (hm_insert key v m)"
| "object_pairs [] m = Inr (VJson (JObject m))"
| "object_pairs _ m = Inl EKeyString"

definition json_object :: "val list \<Rightarrow> op_error + val" where
  "json_object args = (if length args mod 2 \<noteq> 0 then Inl EOddArgs else object_pairs args [])"

definition call_builtin :: "float_lib \<Rightarrow> text_lib \<Rightarrow> string \<Rightarrow> val list \<Rightarrow> op_error + val" where
  "call_builtin F T nm args =
    (if nm = ''set_insert'' then set_insert args
     else if nm = ''set_remove'' then set_remove args
     else if nm = ''set_contains'' then set_contains args
     else if nm = ''set_len'' then set_len args
     else if nm = ''dict_set'' then dict_set args
     else if nm = ''dict_remove'' then dict_remove args
     else if nm = ''dict_get'' then dict_get args
     else if nm = ''dict_has'' then dict_has args
     else if nm = ''dict_len'' then dict_len args
     else if nm = ''to_bytes'' then to_bytes args
     else if nm = ''string_concat'' then string_concat args
     else if nm = ''string_slice'' then string_slice args
     else if nm = ''string_contains'' then string_contains args
     else if nm = ''bytes_len'' then bytes_len args
     else if nm = ''bytes_concat'' then bytes_concat args
     else if nm = ''bytes_eq'' then bytes_eq args
     else if nm = ''to_be_bytes'' then to_be_bytes args
     else if nm = ''bit_not_bytes'' then bit_not_bytes args
     else if nm = ''bytes_slice'' then bytes_slice args
     else if nm = ''assert'' then assert_builtin args
     else if nm = ''sum'' then sum_builtin F args
     else if nm = ''max'' then pick_builtin ''max'' F BGt args
     else if nm = ''parse_json'' then parse_json_builtin T args
     else if nm = ''json_stringify'' then json_stringify T args
     else if nm = ''json_get_field'' then json_get_field args
     else if nm = ''json_get_index'' then json_get_index args
     else if nm = ''json_to_string'' then json_to_string args
     else if nm = ''json_to_i64'' then json_to_i64 args
     else if nm = ''json_to_u64'' then json_to_u64 args
     else if nm = ''json_to_bool'' then json_to_bool args
     else if nm = ''json_is_null'' then json_is_null args
     else if nm = ''_json_null'' then json_null args
     else if nm = ''_json_array'' then Inr (VJson (JArray args))
     else if nm = ''_json_object'' then json_object args
     else if nm = ''min'' then pick_builtin ''min'' F BLt args
     else Inl (EUnknownBuiltin nm))"

subsection \<open>Conversions\<close>

definition from_int :: "nat \<Rightarrow> int \<Rightarrow> op_error + val" where
  \<comment> \<open>\<^verbatim>\<open>from_i128\<close>, and the same table for a \<^verbatim>\<open>BigInt\<close>\<close>
  "from_int target n =
    (if target = 0 then Inr (VInt n)
     else if target = 1 then ok_or EBounds (map_option VI32 (checked (- (2 ^ 31)) (2 ^ 31 - 1) n))
     else if target = 2 then ok_or EBounds (map_option VU32 (checked 0 (2 ^ 32 - 1) n))
     else if target = 3 then ok_or EBounds (map_option VU64 (checked 0 (2 ^ 64 - 1) n))
     else if target = 4 then ok_or EBounds (map_option VU128 (checked 0 (2 ^ 128 - 1) n))
     else Inl EBounds)"

definition convert :: "val \<Rightarrow> nat \<Rightarrow> op_error + val" where
  "convert v target = (case v of
     VInt n \<Rightarrow> from_int target n
   | VI32 n \<Rightarrow> from_int target (sint n)
   | VU32 n \<Rightarrow> from_int target (uint n)
   | VU64 n \<Rightarrow> from_int target (uint n)
   | VU128 n \<Rightarrow> (if target = 4 then Inr (VU128 n)
       else if uint n > 2 ^ 127 - 1 then Inl EBounds
       else from_int target (uint n))
   | _ \<Rightarrow> Inl EConvert)"

end
