(* ===== verification/OpsProps.thy ===== *)
theory OpsProps
  imports Ops
begin

section \<open>What the operators compute\<close>

text \<open>
  Properties of the kernels of \<open>Ops\<close>: the variant of a result follows from the operands, fixed-width
  and arbitrary-precision arithmetic is exact or fails, big-endian encodings sort like the integers,
  conversions keep the number, and the set and dictionary builtins keep their uniqueness invariants.
\<close>

subsection \<open>Dispatch\<close>

lemma eval_binary_same:
  assumes "discriminant l \<noteq> discriminant r \<or> 8 \<le> discriminant l"
  shows "eval_binary F op l r = same_binary op l r"
  using assms unfolding eval_binary_def by (cases l; simp; cases r; simp)

lemma eval_binary_simps [simp]:
  "eval_binary F op (VInt n) (VInt m) = bigint_arith op n m False"
  "eval_binary F op (VUInt n) (VUInt m) = bigint_arith op n m True"
  "eval_binary F op (VFloat x) (VFloat y) = float_arith F op x y"
  "eval_binary F op (VI32 i) (VI32 j) = int_arith sint (- (2 ^ 31)) (2 ^ 31 - 1) VI32 op i j"
  "eval_binary F op (VU32 a) (VU32 b) = int_arith uint 0 (2 ^ 32 - 1) VU32 op a b"
  "eval_binary F op (VU64 c) (VU64 d) = int_arith uint 0 (2 ^ 64 - 1) VU64 op c d"
  "eval_binary F op (VU128 e) (VU128 f) = int_arith uint 0 (2 ^ 128 - 1) VU128 op e f"
  "eval_binary F op (VBool p) (VBool q) = bool_binary op p q"
  by (simp_all add: eval_binary_def)

lemma ok_or_Inr [simp]: "ok_or e v = Inr x \<longleftrightarrow> v = Some x"
  by (auto simp: ok_or_def split: option.splits)

lemma ok_or_Inl [simp]: "ok_or e v = Inl e' \<longleftrightarrow> v = None \<and> e' = e"
  by (auto simp: ok_or_def split: option.splits)

inductive numeric_pair :: "val \<Rightarrow> val \<Rightarrow> bool" where
  "numeric_pair (VInt n) (VInt m)"
| "numeric_pair (VUInt n) (VUInt m)"
| "numeric_pair (VFloat x) (VFloat y)"
| "numeric_pair (VI32 i) (VI32 j)"
| "numeric_pair (VU32 a) (VU32 b)"
| "numeric_pair (VU64 c) (VU64 d)"
| "numeric_pair (VU128 e) (VU128 f)"
| "numeric_pair (VBool p) (VBool q)"

lemma binary_dispatch:
  obtains "numeric_pair l r" | "eval_binary F op l r = same_binary op l r"
proof (cases "discriminant l \<noteq> discriminant r \<or> 8 \<le> discriminant l")
  case True
  then show thesis using that(2) eval_binary_same by blast
next
  case False
  then have "numeric_pair l r" by (cases l; simp; cases r; simp add: numeric_pair.intros)
  then show thesis using that(1) by blast
qed

subsection \<open>The type of a result\<close>

definition is_predicate :: "binop \<Rightarrow> bool" where
  "is_predicate op \<longleftrightarrow> op \<in> {BEq, BNotEq, BLt, BGt, BLtEq, BGtEq, BAnd, BOr}"

definition result_kind :: "binop \<Rightarrow> val \<Rightarrow> nat" where
  "result_kind op l = (if is_predicate op then 7 else discriminant l)"

lemma int_arith_kind:
  assumes "int_arith rd lo hi wrap op a b = Inr v" and "\<And>x. discriminant (wrap x) = d"
  shows "discriminant v = (if is_predicate op then 7 else d)"
  using assms by (cases op) (auto simp: is_predicate_def split: if_splits option.splits)

lemma bigint_arith_kind:
  assumes "bigint_arith op a b u = Inr v"
  shows "discriminant v = (if is_predicate op then 7 else of_bool u)"
  using assms by (cases op) (auto simp: is_predicate_def big_wrap_def split: if_splits option.splits)

lemma float_arith_kind:
  assumes "float_arith F op a b = Inr v"
  shows "discriminant v = (if is_predicate op then 7 else 2)"
  using assms by (cases op) (auto simp: is_predicate_def)

lemma same_binary_kind: "same_binary op l r = Inr v \<Longrightarrow> discriminant l = discriminant r \<and> discriminant v = result_kind op l"
  by (cases op) (auto simp: same_binary_def result_kind_def is_predicate_def split: if_splits)

lemma bool_binary_kind: "bool_binary op a b = Inr v \<Longrightarrow> discriminant v = 7"
  by (cases op) (auto simp: bool_binary_def)

text \<open>C33 (type): the variant of a binary operator's result is determined by the operator and the
  operands. When \<^verbatim>\<open>eval_binary\<close> succeeds, both operands have the same variant; a comparison or logical
  operator yields a bool, every other operator a value of the operands' variant.\<close>

theorem eval_binary_type:
  assumes "eval_binary F op l r = Inr v"
  shows "discriminant l = discriminant r \<and> discriminant v = result_kind op l"
proof (cases rule: binary_dispatch [where l = l and r = r and F = F and op = op])
  case 1
  then show ?thesis using assms
    by cases (auto simp: result_kind_def dest: int_arith_kind bigint_arith_kind float_arith_kind bool_binary_kind)
next
  case 2
  then have "same_binary op l r = Inr v" using assms by simp
  then show ?thesis by (rule same_binary_kind)
qed

theorem eval_binary_type_witness:
  "discriminant (VU32 7) = discriminant (VU32 8) \<and> discriminant (VBool True) = result_kind BLt (VU32 7)"
  by (rule eval_binary_type [where F = "\<lparr>f_add = \<lambda>a b. a, f_sub = \<lambda>a b. a, f_mul = \<lambda>a b. a, f_div = \<lambda>a b. a, f_rem = \<lambda>a b. a\<rparr>"])
     (simp add: eval_binary_def)

subsection \<open>Exact arithmetic\<close>

primrec int_of_val :: "val \<Rightarrow> int option" where
  "int_of_val (VInt n) = Some n" | "int_of_val (VUInt n) = Some n" | "int_of_val (VFloat _) = None"
| "int_of_val (VI32 n) = Some (sint n)" | "int_of_val (VU32 n) = Some (uint n)" | "int_of_val (VU64 n) = Some (uint n)"
| "int_of_val (VU128 n) = Some (uint n)" | "int_of_val (VBool _) = None" | "int_of_val VUnit = None"
| "int_of_val (VResource _) = None" | "int_of_val (VStr _) = None" | "int_of_val (VAddress _) = None"
| "int_of_val (VBytes _) = None" | "int_of_val (VArray _) = None" | "int_of_val (VSet _) = None"
| "int_of_val (VDict _) = None" | "int_of_val (VStruct _ _) = None" | "int_of_val (VTuple _) = None"
| "int_of_val (VEnum _ _ _) = None" | "int_of_val (VPending _) = None" | "int_of_val (VPMap _) = None"
| "int_of_val (VPBTree _) = None" | "int_of_val (VJson _) = None" | "int_of_val (VPVec _ _) = None"
| "int_of_val (VInterface _ _) = None" | "int_of_val (VPMapCursor _ _ _ _) = None"
| "int_of_val (VPBTreeCursor _ _ _ _) = None"

definition fits :: "val \<Rightarrow> int \<Rightarrow> bool" where
  \<comment> \<open>the number is one of the variant's\<close>
  "fits v n = (case v of VInt _ \<Rightarrow> True | VUInt _ \<Rightarrow> 0 \<le> n
     | VI32 _ \<Rightarrow> - (2 ^ 31) \<le> n \<and> n < 2 ^ 31 | VU32 _ \<Rightarrow> 0 \<le> n \<and> n < 2 ^ 32
     | VU64 _ \<Rightarrow> 0 \<le> n \<and> n < 2 ^ 64 | VU128 _ \<Rightarrow> 0 \<le> n \<and> n < 2 ^ 128 | _ \<Rightarrow> False)"

fun exact :: "binop \<Rightarrow> int \<Rightarrow> int \<Rightarrow> int" where
  "exact BAdd a b = a + b"
| "exact BSub a b = a - b"
| "exact BMul a b = a * b"
| "exact BDiv a b = a sdiv b"
| "exact BMod a b = a smod b"
| "exact _ a b = 0"

definition arithmetic :: "binop \<Rightarrow> bool" where
  "arithmetic op \<longleftrightarrow> op \<in> {BAdd, BSub, BMul, BDiv, BMod}"

definition exact_result :: "binop \<Rightarrow> val \<Rightarrow> int \<Rightarrow> int \<Rightarrow> op_error + val \<Rightarrow> bool" where
  "exact_result op l a b res = (case res of
     Inr v \<Rightarrow> discriminant v = discriminant l \<and> int_of_val v = Some (exact op a b) \<and> fits l (exact op a b)
   | Inl e \<Rightarrow> e = EDivZero \<and> b = 0 \<and> op \<in> {BDiv, BMod}
       \<or> e \<in> {EOverflow, EUintUnderflow} \<and> \<not> fits l (exact (if op = BMod then BDiv else op) a b))"

lemma smod_between:
  fixes a b lo hi :: int
  assumes "lo \<le> a" and "a \<le> hi" and "lo \<le> 0" and "0 \<le> hi"
  shows "lo \<le> a smod b \<and> a smod b \<le> hi"
proof -
  have "\<bar>a\<bar> mod \<bar>b\<bar> \<le> \<bar>a\<bar>" by (rule zmod_le_nonneg_dividend) simp
  moreover have "0 \<le> \<bar>a\<bar> mod \<bar>b\<bar>" by (cases "b = 0") simp_all
  ultimately show ?thesis using assms by (cases a "0 :: int" rule: linorder_cases) (auto simp: smod_int_alt_def sgn_if)
qed

lemma int_arith_exact:
  fixes rd :: "'w::len word \<Rightarrow> int"
  assumes "arithmetic op" and "\<And>x. lo \<le> x \<Longrightarrow> x \<le> hi \<Longrightarrow> rd (word_of_int x) = x"
    and "\<And>w. int_of_val (wrap w) = Some (rd w)" and "\<And>w. discriminant (wrap w) = discriminant l"
    and "\<And>n. fits l n \<longleftrightarrow> lo \<le> n \<and> n \<le> hi" and "lo \<le> 0" and "0 \<le> hi" and "lo \<le> rd a" and "rd a \<le> hi"
  shows "exact_result op l (rd a) (rd b) (int_arith rd lo hi wrap op a b)"
proof -
  have ck: "exact_result op l (rd a) (rd b) (ok_or EOverflow (map_option wrap (checked lo hi (exact op (rd a) (rd b)))))"
    if "op \<noteq> BMod"
    using assms(2-5) that by (auto simp: exact_result_def ok_or_def checked_def)
  show ?thesis
  proof (cases op)
    case BMod
    then show ?thesis using assms(2-5) smod_between [OF assms(8,9,6,7), of "rd b"]
      by (auto simp: exact_result_def ok_or_def checked_rem_def checked_def)
  qed (use ck assms(1) in \<open>auto simp: arithmetic_def exact_result_def\<close>)
qed

lemma sdiv_nonneg: "0 \<le> (a::int) \<Longrightarrow> 0 \<le> b \<Longrightarrow> 0 \<le> a sdiv b"
  by (cases "b = 0") (auto simp: signed_divide_int_def sgn_if pos_imp_zdiv_nonneg_iff)

lemma smod_nonneg: "0 \<le> (a::int) \<Longrightarrow> 0 \<le> b \<Longrightarrow> 0 \<le> a smod b"
  using smod_between [of 0 a a b] by simp

lemma sint_i32: "- (2 ^ 31) \<le> x \<Longrightarrow> x \<le> 2 ^ 31 - 1 \<Longrightarrow> sint (word_of_int x :: i32) = x"
  by (simp add: signed_of_int signed_take_bit_int_eq_self)

lemma uint_of_int_range: "0 \<le> x \<Longrightarrow> x \<le> 2 ^ LENGTH('w) - 1 \<Longrightarrow> uint (word_of_int x :: 'w::len word) = x"
  by (simp add: unsigned_of_int take_bit_int_eq_self)

lemma sint_range_i32: "- (2 ^ 31) \<le> sint (w :: i32)" "sint w \<le> 2 ^ 31 - 1" "sint w < 2 ^ 31"
  using sint_ge [of w] sint_lt [of w] by simp_all

lemma uint_range_le: "uint (w :: 'w::len word) \<le> 2 ^ LENGTH('w) - 1"
  using uint_lt2p [of w] by simp

definition yields :: "(val \<Rightarrow> bool) \<Rightarrow> op_error + val \<Rightarrow> bool" where
  "yields P res = (case res of Inl _ \<Rightarrow> True | Inr v \<Rightarrow> P v)"

lemma yieldsI: "(\<And>v. res = Inr v \<Longrightarrow> P v) \<Longrightarrow> yields P res"
  by (cases res) (simp_all add: yields_def)

text \<open>C32 (bounds): integer arithmetic is exact or fails, at every width. For two operands of one integer
  variant, \<^verbatim>\<open>+ - * / %\<close> yield the number arithmetic over the integers yields (division truncating), in
  the same variant and within its range; the only failures are a zero divisor and a result (for
  \<^verbatim>\<open>%\<close>: a quotient) the variant cannot hold. Nothing wraps.\<close>

theorem arithmetic_exact:
  assumes "arithmetic op" and "discriminant l = discriminant r"
    and "int_of_val l = Some a" and "int_of_val r = Some b" and "fits l a" and "fits r b"
  shows "exact_result op l a b (eval_binary F op l r)"
proof -
  have "numeric_pair l r" using assms(2-4) by (cases l; simp; cases r; simp add: numeric_pair.intros)
  then show ?thesis
  proof cases
    case (1 n m)
    then show ?thesis using assms by (cases op) (auto simp: exact_result_def arithmetic_def big_wrap_def fits_def)
  next
    case (2 n m)
    then show ?thesis using assms
      by (cases op) (auto simp: exact_result_def arithmetic_def big_wrap_def fits_def sdiv_nonneg smod_nonneg)
  next
    case (4 i j)
    have "exact_result op l (sint i) (sint j) (int_arith sint (- (2 ^ 31)) (2 ^ 31 - 1) VI32 op i j)"
      using assms(1) sint_range_i32 [of i] by (intro int_arith_exact) (auto simp: 4 fits_def sint_i32)
    then show ?thesis using assms 4 by simp
  next
    case (5 i j)
    have "exact_result op l (uint i) (uint j) (int_arith uint 0 (2 ^ 32 - 1) VU32 op i j)"
      using assms(1) uint_range_le [of i] uint_of_int_range [where 'w = 32] by (intro int_arith_exact) (auto simp: 5 fits_def)
    then show ?thesis using assms 5 by simp
  next
    case (6 i j)
    have "exact_result op l (uint i) (uint j) (int_arith uint 0 (2 ^ 64 - 1) VU64 op i j)"
      using assms(1) uint_range_le [of i] uint_of_int_range [where 'w = 64] by (intro int_arith_exact) (auto simp: 6 fits_def)
    then show ?thesis using assms 6 by simp
  next
    case (7 i j)
    have "exact_result op l (uint i) (uint j) (int_arith uint 0 (2 ^ 128 - 1) VU128 op i j)"
      using assms(1) uint_range_le [of i] uint_of_int_range [where 'w = 128] by (intro int_arith_exact) (auto simp: 7 fits_def)
    then show ?thesis using assms 7 by simp
  qed (use assms in auto)
qed

definition null_float :: float_lib where
  "null_float = \<lparr>f_add = \<lambda>a b. a, f_sub = \<lambda>a b. a, f_mul = \<lambda>a b. a, f_div = \<lambda>a b. a, f_rem = \<lambda>a b. a\<rparr>"

theorem arithmetic_exact_witness:
  "exact_result BMul (VU32 70000) 70000 70000 (eval_binary null_float BMul (VU32 70000) (VU32 70000))
   \<and> exact_result BDiv (VI32 (-2147483648)) (-2147483648) (-1) (eval_binary null_float BDiv (VI32 (-2147483648)) (VI32 (-1)))
   \<and> eval_binary null_float BDiv (VI32 (-2147483648)) (VI32 (-1)) = Inl EOverflow"
proof (intro conjI)
  show "exact_result BMul (VU32 70000) 70000 70000 (eval_binary null_float BMul (VU32 70000) (VU32 70000))"
    by (rule arithmetic_exact) (simp_all add: arithmetic_def fits_def)
  show "exact_result BDiv (VI32 (-2147483648)) (-2147483648) (-1) (eval_binary null_float BDiv (VI32 (-2147483648)) (VI32 (-1)))"
    by (rule arithmetic_exact) (simp_all add: arithmetic_def fits_def)
  show "eval_binary null_float BDiv (VI32 (-2147483648)) (VI32 (-1)) = Inl EOverflow"
    by (simp add: checked_def)
qed

subsection \<open>Unsigned integers stay non-negative\<close>

definition uint_ok :: "val \<Rightarrow> bool" where
  "uint_ok v = (case v of VUInt n \<Rightarrow> 0 \<le> n | _ \<Rightarrow> True)"

lemma uint_ok_other: "discriminant v \<noteq> 1 \<Longrightarrow> uint_ok v"
  by (cases v) (simp_all add: uint_ok_def)

lemma bigint_uint_ok: "bigint_arith op a b True = Inr v \<Longrightarrow> 0 \<le> a \<Longrightarrow> 0 \<le> b \<Longrightarrow> uint_ok v"
  by (cases op) (auto simp: uint_ok_def big_wrap_def sdiv_nonneg smod_nonneg split: if_splits option.splits)

lemma binary_kind:
  assumes "eval_binary F op l r = Inr v"
  shows "numeric_pair l r \<or> discriminant v = 7"
proof (cases rule: binary_dispatch [where l = l and r = r and F = F and op = op])
  case 2
  then have s: "same_binary op l r = Inr v" using assms by simp
  then have "op = BEq \<or> op = BNotEq" by (cases op) (auto simp: same_binary_def split: if_splits)
  then show ?thesis using same_binary_kind [OF s] by (auto simp: result_kind_def is_predicate_def)
qed simp

lemma binary_uint_ok:
  assumes "eval_binary F op l r = Inr v" and "uint_ok l" and "uint_ok r"
  shows "uint_ok v"
  using binary_kind [OF assms(1)]
proof
  assume "numeric_pair l r"
  then show ?thesis
  proof cases
    case (2 n m)
    then show ?thesis using assms bigint_uint_ok [of op n m v] by (simp add: uint_ok_def)
  qed (use assms(1) in \<open>auto intro!: uint_ok_other dest!: int_arith_kind bigint_arith_kind float_arith_kind bool_binary_kind split: if_splits\<close>)
qed (simp add: uint_ok_other)

text \<open>A \<^verbatim>\<open>uint\<close> is never negative. If the operands are not negative \<^verbatim>\<open>uint\<close>s, then no result of
  \<^verbatim>\<open>eval_binary\<close>, \<^verbatim>\<open>inc\<close>, \<^verbatim>\<open>eval_unary\<close> or \<^verbatim>\<open>convert\<close> is: subtraction below zero and negation fail instead.\<close>

theorem uint_never_negative:
  assumes "uint_ok l" and "uint_ok r"
  shows "yields uint_ok (eval_binary F op l r) \<and> yields uint_ok (inc F l) \<and> yields uint_ok (eval_unary uop l) \<and> yields uint_ok (convert l t)"
proof (intro conjI yieldsI)
  show "uint_ok v" if "eval_binary F op l r = Inr v" for v using binary_uint_ok [OF that assms] .
  show "uint_ok v" if "inc F l = Inr v" for v
    using that assms(1) by (cases l) (auto simp: inc_def uint_ok_def)
  show "uint_ok v" if "eval_unary uop l = Inr v" for v
    using that assms(1) by (cases uop; cases l) (auto simp: eval_unary_def uint_ok_def split: if_splits)
  show "uint_ok v" if "convert l t = Inr v" for v
    using that by (cases l) (auto simp: convert_def from_int_def uint_ok_def split: if_splits)
qed

theorem uint_never_negative_witness:
  "yields uint_ok (eval_binary null_float BSub (VUInt 3) (VUInt 5)) \<and> yields uint_ok (inc null_float (VUInt 3))
    \<and> yields uint_ok (eval_unary UNeg (VUInt 3)) \<and> yields uint_ok (convert (VUInt 3) 2)"
  by (rule uint_never_negative) (simp_all add: uint_ok_def)

subsection \<open>Sortable encodings\<close>

lemma append_less_append:
  fixes xs ys us vs :: "'a::linorder list"
  shows "length xs = length ys \<Longrightarrow> xs @ us < ys @ vs \<longleftrightarrow> xs < ys \<or> xs = ys \<and> us < vs"
  by (induction xs ys rule: list_induct2) auto

lemma be_bytes_less:
  "x < 256 ^ n \<Longrightarrow> y < 256 ^ n \<Longrightarrow> be_bytes n x < be_bytes n y \<longleftrightarrow> x < y"
proof (induction n arbitrary: x y)
  case (Suc n)
  have d: "x div 256 < 256 ^ n" "y div 256 < 256 ^ n" using Suc.prems by (simp_all add: less_mult_imp_div_less mult.commute)
  have last: "(of_nat x :: u8) < of_nat y \<longleftrightarrow> x mod 256 < y mod 256" by (simp add: word_less_nat_alt unat_of_nat)
  have eq: "be_bytes n (x div 256) = be_bytes n (y div 256) \<longleftrightarrow> x div 256 = y div 256" using be_bytes_inj [OF _ d] by auto
  have "256 * a + b < 256 * c + d \<longleftrightarrow> a < c \<or> a = c \<and> b < d" if "b < 256" "d < 256" for a b c d :: nat
    using that by (cases a c rule: linorder_cases) auto
  from this [of "x mod 256" "y mod 256" "x div 256" "y div 256"]
  have "x < y \<longleftrightarrow> x div 256 < y div 256 \<or> x div 256 = y div 256 \<and> x mod 256 < y mod 256" by simp
  then show ?case by (simp add: append_less_append Suc.IH [OF d] eq last)
qed simp

lemma not_bytes_less:
  fixes xs ys :: bytes
  assumes "length xs = length ys"
  shows "map (\<lambda>x. NOT x) xs < map (\<lambda>x. NOT x) ys \<longleftrightarrow> ys < xs"
proof -
  have u: "unat (NOT a) = 255 - unat a" for a :: u8
  proof -
    have "NOT a = - 1 - a" by (simp add: not_eq_complement)
    moreover have "unat (- 1 :: u8) = 255" by code_simp
    ultimately show ?thesis using unat_sub [of a "- 1"] by simp
  qed
  have n: "NOT a < NOT b \<longleftrightarrow> b < a" for a b :: u8
    using unsigned_less [of a, where 'a = nat] unsigned_less [of b, where 'a = nat] by (simp add: word_less_nat_alt u) linarith
  show ?thesis using assms by (induction xs ys rule: list_induct2) (auto simp: n)
qed

lemma uint_flip_sign: "uint (w XOR 0x80000000 :: 32 word) = sint w + 2 ^ 31"
proof -
  have "uint (w XOR 0x80000000) = flip_bit 31 (uint w)"
    by (simp add: unsigned_xor_eq flip_bit_eq_xor push_bit_eq_mult)
  also have "\<dots> = (if bit (uint w) 31 then uint w - 2 ^ 31 else uint w + 2 ^ 31)"
    by (simp add: flip_bit_eq_if unset_bit_eq set_bit_eq)
  also have "\<dots> = sint w + 2 ^ 31"
    using signed_take_bit_eq_take_bit_minus [of 31 "uint w"] uint_lt2p [of w] by (simp add: sint_uint take_bit_int_eq_self)
  finally show ?thesis .
qed

definition sized :: "val \<Rightarrow> bool" where
  "sized v \<longleftrightarrow> discriminant v \<in> {3, 4, 5, 6}"

definition num :: "val \<Rightarrow> int" where
  "num v = the (int_of_val v)"

definition key_width :: "nat \<Rightarrow> nat" where
  "key_width d = (if d = 6 then 16 else if d = 5 then 8 else 4)"

lemma to_be_bytes_sized:
  assumes "sized v"
  shows "\<exists>m < 256 ^ key_width (discriminant v). to_be_bytes [v] = Inr (VBytes (be_bytes (key_width (discriminant v)) m))
     \<and> int m = num v + (if discriminant v = 3 then 2 ^ 31 else 0)"
proof -
  consider n where "v = VI32 n" | n where "v = VU32 n" | n where "v = VU64 n" | n where "v = VU128 n"
    using assms by (cases v) (auto simp: sized_def)
  then show ?thesis
  proof cases
    case (1 n)
    have "unat (n XOR 0x80000000) < 2 ^ 32" by (rule unsigned_less [THEN order_less_le_trans]) simp
    moreover have "int (unat (n XOR 0x80000000)) = sint n + 2 ^ 31" using uint_flip_sign [of n] by simp
    ultimately show ?thesis unfolding 1 by (intro exI [of _ "unat (n XOR 0x80000000)"]) (simp add: to_be_bytes_def key_width_def num_def)
  next
    case (2 n)
    have "unat n < 2 ^ 32" by (rule unsigned_less [THEN order_less_le_trans]) simp
    then show ?thesis unfolding 2 by (intro exI [of _ "unat n"]) (simp add: to_be_bytes_def key_width_def num_def)
  next
    case (3 n)
    have "unat n < 2 ^ 64" by (rule unsigned_less [THEN order_less_le_trans]) simp
    then show ?thesis unfolding 3 by (intro exI [of _ "unat n"]) (simp add: to_be_bytes_def key_width_def num_def)
  next
    case (4 n)
    have "unat n < 2 ^ 128" by (rule unsigned_less [THEN order_less_le_trans]) simp
    then show ?thesis unfolding 4 by (intro exI [of _ "unat n"]) (simp add: to_be_bytes_def key_width_def num_def)
  qed
qed

definition desc_key :: "val \<Rightarrow> val \<Rightarrow> op_error + val" where
  \<comment> \<open>\<^verbatim>\<open>bytes_concat(to_be_bytes(a), bit_not_bytes(to_be_bytes(b)))\<close>\<close>
  "desc_key a b = (case to_be_bytes [a] of Inl e \<Rightarrow> Inl e | Inr x \<Rightarrow> (case to_be_bytes [b] of Inl e \<Rightarrow> Inl e
     | Inr y \<Rightarrow> (case bit_not_bytes [y] of Inl e \<Rightarrow> Inl e | Inr z \<Rightarrow> bytes_concat [x, z])))"

text \<open>Composite index keys sort as intended. For fixed-width integers, signed or not,
  the lexicographic order of the bytes \<^verbatim>\<open>bytes_concat(to_be_bytes(a), bit_not_bytes(to_be_bytes(b)))\<close> is
  the order by \<^verbatim>\<open>a\<close> ascending and then by \<^verbatim>\<open>b\<close> descending.\<close>

theorem composite_key_order:
  assumes "sized a1" and "sized b1" and "discriminant a2 = discriminant a1" and "discriminant b2 = discriminant b1"
  shows "\<exists>k1 k2. desc_key a1 b1 = Inr (VBytes k1) \<and> desc_key a2 b2 = Inr (VBytes k2)
     \<and> (k1 < k2 \<longleftrightarrow> num a1 < num a2 \<or> num a1 = num a2 \<and> num b2 < num b1)"
proof -
  have s: "sized a2" "sized b2" using assms by (simp_all add: sized_def)
  define n where "n = key_width (discriminant a1)"
  define k where "k = key_width (discriminant b1)"
  obtain x1 x2 where x: "x1 < 256 ^ n" "to_be_bytes [a1] = Inr (VBytes (be_bytes n x1))"
      "x2 < 256 ^ n" "to_be_bytes [a2] = Inr (VBytes (be_bytes n x2))" and xn: "int x1 - num a1 = int x2 - num a2"
    using to_be_bytes_sized [OF assms(1)] to_be_bytes_sized [OF s(1)] assms(3) unfolding n_def by fastforce
  obtain y1 y2 where y: "y1 < 256 ^ k" "to_be_bytes [b1] = Inr (VBytes (be_bytes k y1))"
      "y2 < 256 ^ k" "to_be_bytes [b2] = Inr (VBytes (be_bytes k y2))" and yn: "int y1 - num b1 = int y2 - num b2"
    using to_be_bytes_sized [OF assms(2)] to_be_bytes_sized [OF s(2)] assms(4) unfolding k_def by fastforce
  have "be_bytes n x1 @ map (\<lambda>x. NOT x) (be_bytes k y1) < be_bytes n x2 @ map (\<lambda>x. NOT x) (be_bytes k y2)
      \<longleftrightarrow> x1 < x2 \<or> x1 = x2 \<and> y2 < y1"
    using be_bytes_inj [of n x1 x2] x(1,3) y(1,3) by (auto simp: append_less_append not_bytes_less be_bytes_less)
  then show ?thesis using x y xn yn by (auto simp: desc_key_def bit_not_bytes_def bytes_concat_def)
qed

theorem composite_key_order_witness:
  "\<exists>k1 k2. desc_key (VI32 (-1)) (VU64 9) = Inr (VBytes k1) \<and> desc_key (VI32 1) (VU64 9) = Inr (VBytes k2)
     \<and> (k1 < k2 \<longleftrightarrow> num (VI32 (-1)) < num (VI32 1) \<or> num (VI32 (-1)) = num (VI32 1) \<and> num (VU64 9) < num (VU64 9))"
  by (rule composite_key_order) (simp_all add: sized_def)

subsection \<open>Conversions\<close>

definition target_of :: "nat \<Rightarrow> val" where
  \<comment> \<open>a value of the variant a conversion target names\<close>
  "target_of t = (if t = 0 then VInt 0 else if t = 1 then VI32 0 else if t = 2 then VU32 0 else if t = 3 then VU64 0 else VU128 0)"

lemma from_int_exact:
  assumes "t \<le> 4"
  shows "if fits (target_of t) n then \<exists>w. from_int t n = Inr w \<and> int_of_val w = Some n \<and> discriminant w = discriminant (target_of t)
     else from_int t n = Inl EBounds"
proof -
  consider "t = 0" | "t = 1" | "t = 2" | "t = 3" | "t = 4" using assms by linarith
  then show ?thesis
  proof cases
    case 2
    then show ?thesis using sint_i32 [of n] by (simp add: from_int_def target_of_def fits_def checked_def ok_or_def)
  next
    case 3
    then show ?thesis using uint_of_int_range [of n, where 'w = 32] by (simp add: from_int_def target_of_def fits_def checked_def ok_or_def)
  next
    case 4
    then show ?thesis using uint_of_int_range [of n, where 'w = 64] by (simp add: from_int_def target_of_def fits_def checked_def ok_or_def)
  next
    case 5
    then show ?thesis using uint_of_int_range [of n, where 'w = 128] by (simp add: from_int_def target_of_def fits_def checked_def ok_or_def)
  qed (simp add: from_int_def target_of_def fits_def)
qed

text \<open>A numeric conversion keeps the number or fails. For every integer value but a
  \<^verbatim>\<open>u128\<close> beyond \<^verbatim>\<open>i128::MAX\<close>, \<^verbatim>\<open>convert\<close> to \<^verbatim>\<open>int\<close>, \<^verbatim>\<open>i32\<close>, \<^verbatim>\<open>u32\<close>, \<^verbatim>\<open>u64\<close> or \<^verbatim>\<open>u128\<close> yields the same number in the
  target variant exactly when the variant can hold it, and the range error otherwise.\<close>

theorem convert_exact:
  assumes "int_of_val v = Some n" and "discriminant v \<noteq> 1" and "t \<le> 4" and "discriminant v = 6 \<Longrightarrow> n < 2 ^ 127"
  shows "if fits (target_of t) n then \<exists>w. convert v t = Inr w \<and> int_of_val w = Some n \<and> discriminant w = discriminant (target_of t)
     else convert v t = Inl EBounds"
proof -
  have c: "convert v t = (if discriminant v = 6 \<and> t = 4 then Inr v else from_int t n)"
    using assms(1,2,4) by (cases v) (simp_all add: convert_def)
  show ?thesis
  proof (cases "discriminant v = 6 \<and> t = 4")
    case True
    then obtain w where "v = VU128 w" by (cases v) simp_all
    then show ?thesis using True c assms(1) uint_lt2p [of w] by (auto simp: fits_def target_of_def)
  next
    case False
    then have "convert v t = from_int t n" using c by (simp only: if_False)
    then show ?thesis using from_int_exact [OF assms(3), of n] by simp
  qed
qed

theorem convert_exact_witness:
  "if fits (target_of 2) (-3) then \<exists>w. convert (VI32 (-3)) 2 = Inr w \<and> int_of_val w = Some (-3) \<and> discriminant w = discriminant (target_of 2)
     else convert (VI32 (-3)) 2 = Inl EBounds"
  by (rule convert_exact) simp_all

text \<open>A large \<^verbatim>\<open>u128\<close> does not convert to \<^verbatim>\<open>int\<close>. The arbitrary-precision \<^verbatim>\<open>int\<close> can hold every
  \<^verbatim>\<open>u128\<close>, but a value beyond \<^verbatim>\<open>i128::MAX\<close> is rejected as out of range before the target is looked at.\<close>

theorem convert_large_u128_fails:
  assumes "2 ^ 127 \<le> uint n"
  shows "convert (VU128 n) 0 = Inl EBounds \<and> fits (target_of 0) (uint n)"
  using assms by (simp add: convert_def fits_def target_of_def)

theorem convert_large_u128_fails_witness:
  "convert (VU128 (- 1)) 0 = Inl EBounds \<and> fits (target_of 0) (uint (- 1 :: u128))"
  by (rule convert_large_u128_fails) code_simp

subsection \<open>Sets and dictionaries\<close>

text \<open>A set value stands for the set of its elements up to \<^verbatim>\<open>==\<close>, a dictionary for a finite map; both
  keep at most one entry per element or key.\<close>

definition set_ok :: "val list \<Rightarrow> bool" where
  "set_ok s \<longleftrightarrow> distinct (map canon s)"

definition set_abs :: "val list \<Rightarrow> val set" where
  "set_abs s = canon ` set s"

definition dict_ok :: "(val \<times> val) list \<Rightarrow> bool" where
  "dict_ok d \<longleftrightarrow> distinct (map (canon \<circ> fst) d)"

definition dict_abs :: "(val \<times> val) list \<Rightarrow> val \<rightharpoonup> val" where
  "dict_abs d = map_of (map (\<lambda>e. (canon (fst e), snd e)) d)"

lemma set_mem: "list_ex (\<lambda>e. value_eq e v) s \<longleftrightarrow> canon v \<in> set_abs s"
  by (induction s) (auto simp: value_eq_def set_abs_def)

lemma set_filter: "set_ok s \<Longrightarrow> set_ok (filter (\<lambda>e. \<not> value_eq e v) s) \<and> set_abs (filter (\<lambda>e. \<not> value_eq e v) s) = set_abs s - {canon v}"
  by (auto simp: set_ok_def set_abs_def value_eq_def distinct_map_filter)

lemma set_push: "set_ok s \<Longrightarrow> canon v \<notin> set_abs s \<Longrightarrow> set_ok (s @ [v]) \<and> set_abs (s @ [v]) = insert (canon v) (set_abs s)"
  by (auto simp: set_ok_def set_abs_def)

lemma set_length: "set_ok s \<Longrightarrow> length s = card (set_abs s)"
  using distinct_card [of "map canon s"] by (simp add: set_ok_def set_abs_def)

text \<open>The set builtins implement finite sets. On a set value without duplicates,
  \<^verbatim>\<open>set_insert\<close> and \<^verbatim>\<open>set_remove\<close> return a set value without duplicates that stands for the set with the element
  added or removed, \<^verbatim>\<open>set_contains\<close> decides membership, \<^verbatim>\<open>set_len\<close> is the number of elements.\<close>

theorem set_builtins_correct:
  assumes "set_ok s"
  shows "(\<exists>s'. call_builtin F T ''set_insert'' [VSet s, v] = Inr (VSet s') \<and> set_ok s' \<and> set_abs s' = insert (canon v) (set_abs s))
    \<and> (\<exists>s'. call_builtin F T ''set_remove'' [VSet s, v] = Inr (VSet s') \<and> set_ok s' \<and> set_abs s' = set_abs s - {canon v})
    \<and> call_builtin F T ''set_contains'' [VSet s, v] = Inr (VBool (canon v \<in> set_abs s))
    \<and> call_builtin F T ''set_len'' [VSet s] = Inr (VInt (int (card (set_abs s))))"
  using assms set_filter [OF assms] set_push [OF assms, of v]
  by (simp add: call_builtin_def set_insert_def set_remove_def set_contains_def set_len_def set_mem set_length insert_absorb)

theorem set_builtins_correct_witness:
  "(\<exists>s'. call_builtin null_float decimal_lib ''set_insert'' [VSet [VInt 1], VInt 2] = Inr (VSet s') \<and> set_ok s' \<and> set_abs s' = insert (canon (VInt 2)) (set_abs [VInt 1]))
    \<and> (\<exists>s'. call_builtin null_float decimal_lib ''set_remove'' [VSet [VInt 1], VInt 2] = Inr (VSet s') \<and> set_ok s' \<and> set_abs s' = set_abs [VInt 1] - {canon (VInt 2)})
    \<and> call_builtin null_float decimal_lib ''set_contains'' [VSet [VInt 1], VInt 2] = Inr (VBool (canon (VInt 2) \<in> set_abs [VInt 1]))
    \<and> call_builtin null_float decimal_lib ''set_len'' [VSet [VInt 1]] = Inr (VInt (int (card (set_abs [VInt 1]))))"
  by (rule set_builtins_correct) (simp add: set_ok_def)

lemma dict_find: "dict_abs d (canon k) = map_option snd (find (\<lambda>e. value_eq (fst e) k) d)"
  by (induction d) (auto simp: dict_abs_def value_eq_def)

lemma dict_mem: "list_ex (\<lambda>e. value_eq (fst e) k) d \<longleftrightarrow> dict_abs d (canon k) \<noteq> None"
  by (induction d) (auto simp: dict_abs_def value_eq_def)

lemma dict_assign_keys: "set (map (canon \<circ> fst) (dict_assign k v d)) = insert (canon k) (set (map (canon \<circ> fst) d))"
  by (induction d) (auto simp: value_eq_def)

lemma dict_assign_ok: "dict_ok d \<Longrightarrow> dict_ok (dict_assign k v d)"
  unfolding dict_ok_def
proof (induction d)
  case (Cons e d)
  then show ?case using dict_assign_keys [of k v d] by (auto simp: value_eq_def simp del: set_map) (auto simp: image_iff)
qed simp

lemma dict_assign_abs: "dict_abs (dict_assign k v d) = (dict_abs d)(canon k \<mapsto> v)"
  by (induction d) (auto simp: dict_abs_def value_eq_def)

lemma dict_filter_ok: "dict_ok d \<Longrightarrow> dict_ok (filter (\<lambda>e. \<not> value_eq (fst e) k) d)"
  by (simp add: dict_ok_def distinct_map_filter)

lemma dict_filter_abs: "dict_abs (filter (\<lambda>e. \<not> value_eq (fst e) k) d) = (dict_abs d)(canon k := None)"
  by (induction d) (auto simp: dict_abs_def value_eq_def)

lemma dict_length: "dict_ok d \<Longrightarrow> length d = card (dom (dict_abs d))"
  using distinct_card [of "map (canon \<circ> fst) d"] by (simp add: dict_ok_def dict_abs_def dom_map_of_conv_image_fst image_image)

text \<open>The dictionary builtins implement finite maps. On a dictionary value with one
  entry per key, \<^verbatim>\<open>dict_set\<close> and \<^verbatim>\<open>dict_remove\<close> return such a dictionary, standing for the updated map;
  \<^verbatim>\<open>dict_get\<close> is the lookup with a default, \<^verbatim>\<open>dict_has\<close> decides whether the key is there, \<^verbatim>\<open>dict_len\<close> counts the keys.\<close>

theorem dict_builtins_correct:
  assumes "dict_ok d"
  shows "(\<exists>d'. call_builtin F T ''dict_set'' [VDict d, k, v] = Inr (VDict d') \<and> dict_ok d' \<and> dict_abs d' = (dict_abs d)(canon k \<mapsto> v))
    \<and> (\<exists>d'. call_builtin F T ''dict_remove'' [VDict d, k] = Inr (VDict d') \<and> dict_ok d' \<and> dict_abs d' = (dict_abs d)(canon k := None))
    \<and> call_builtin F T ''dict_get'' [VDict d, k, v] = Inr (case dict_abs d (canon k) of None \<Rightarrow> v | Some w \<Rightarrow> w)
    \<and> call_builtin F T ''dict_has'' [VDict d, k] = Inr (VBool (canon k \<in> dom (dict_abs d)))
    \<and> call_builtin F T ''dict_len'' [VDict d] = Inr (VInt (int (card (dom (dict_abs d)))))"
proof (intro conjI)
  show "\<exists>d'. call_builtin F T ''dict_set'' [VDict d, k, v] = Inr (VDict d') \<and> dict_ok d' \<and> dict_abs d' = (dict_abs d)(canon k \<mapsto> v)"
    using assms by (simp add: call_builtin_def dict_set_def dict_assign_ok dict_assign_abs)
  show "\<exists>d'. call_builtin F T ''dict_remove'' [VDict d, k] = Inr (VDict d') \<and> dict_ok d' \<and> dict_abs d' = (dict_abs d)(canon k := None)"
    using assms by (simp add: call_builtin_def dict_remove_def dict_filter_ok dict_filter_abs)
  show "call_builtin F T ''dict_get'' [VDict d, k, v] = Inr (case dict_abs d (canon k) of None \<Rightarrow> v | Some w \<Rightarrow> w)"
    by (cases "find (\<lambda>e. value_eq (fst e) k) d") (simp_all add: call_builtin_def dict_get_def dict_find)
  show "call_builtin F T ''dict_has'' [VDict d, k] = Inr (VBool (canon k \<in> dom (dict_abs d)))"
    by (simp add: call_builtin_def dict_has_def dict_mem dom_def)
  show "call_builtin F T ''dict_len'' [VDict d] = Inr (VInt (int (card (dom (dict_abs d)))))"
    using assms by (simp add: call_builtin_def dict_len_def dict_length)
qed

theorem dict_builtins_correct_witness:
  "(\<exists>d'. call_builtin null_float decimal_lib ''dict_set'' [VDict [(VInt 1, VUnit)], VInt 1, VBool True] = Inr (VDict d') \<and> dict_ok d' \<and> dict_abs d' = (dict_abs [(VInt 1, VUnit)])(canon (VInt 1) \<mapsto> VBool True))
    \<and> (\<exists>d'. call_builtin null_float decimal_lib ''dict_remove'' [VDict [(VInt 1, VUnit)], VInt 1] = Inr (VDict d') \<and> dict_ok d' \<and> dict_abs d' = (dict_abs [(VInt 1, VUnit)])(canon (VInt 1) := None))
    \<and> call_builtin null_float decimal_lib ''dict_get'' [VDict [(VInt 1, VUnit)], VInt 1, VBool True] = Inr (case dict_abs [(VInt 1, VUnit)] (canon (VInt 1)) of None \<Rightarrow> VBool True | Some w \<Rightarrow> w)
    \<and> call_builtin null_float decimal_lib ''dict_has'' [VDict [(VInt 1, VUnit)], VInt 1] = Inr (VBool (canon (VInt 1) \<in> dom (dict_abs [(VInt 1, VUnit)])))
    \<and> call_builtin null_float decimal_lib ''dict_len'' [VDict [(VInt 1, VUnit)]] = Inr (VInt (int (card (dom (dict_abs [(VInt 1, VUnit)])))))"
  by (rule dict_builtins_correct) (simp add: dict_ok_def)

end
