(* ===== verification/Lexer.thy ===== *)
theory Lexer
  imports JsonText
begin

section \<open>The lexer\<close>

text \<open>
  \<^verbatim>\<open>crates/rend/src/token.rs\<close> and \<^verbatim>\<open>crates/rend/src/lexer.rs\<close>: the tokens with their spans and \<^verbatim>\<open>tokenize\<close>.

  The lexer is a cursor over the bytes of the source, which is a \<^verbatim>\<open>&str\<close>; slicing it off a character
  boundary panics (\<open>None\<close>). An error carries its span. Numerals go through the \<open>text_lib\<close> of the json
  parser, fixed-width ones through \<open>parse_word\<close>. The main loop and the string loop are bounded by the
  unread bytes: every token and every character consumes one.
\<close>

datatype (plugins only:) token =
    TkInt int | TkUInt int | TkFloat u64 | TkI32 i32 | TkU32 u32 | TkU64 u64 | TkU128 u128 | TkStr string
  | TkIdent string | TkFn | TkLet | TkReturn | TkIf | TkElse | TkTrue | TkFalse | TkImport | TkState
  | TkEntry | TkStruct | TkGroup | TkPub | TkModule | TkEmit | TkNore | TkModifier | TkEnum | TkMatch
  | TkConst | TkCap | TkView | TkPure | TkInterface | TkDollar | TkWhile | TkParallel | TkFor | TkIn
  | TkBreak | TkContinue | TkSet | TkDict | TkIndex | TkUniqueIndex | TkAsc | TkDesc | TkOn | TkDelete
  | TkReserve | TkArr | TkLParen | TkRParen | TkLBrace | TkRBrace | TkLBracket | TkRBracket | TkComma
  | TkSemi | TkColon | TkArrow | TkFatArrow | TkDotDot | TkDotDotEq | TkEq | TkAmp | TkCaret | TkShl | TkShr
  | TkPipeBar | TkDot | TkColonColon | TkPipeArrow | TkDollarDollar | TkPlus | TkMinus | TkStar | TkSlash
  | TkPercent | TkEqEq | TkBangEq | TkLt | TkGt | TkLtEq | TkGtEq | TkAmpAmp | TkPipePipe | TkBang
  | TkBacktick | TkEof

record span =
  sp_start :: nat
  sp_end :: nat

record spanned =
  sp_token :: token
  sp_span :: span

datatype lex_error =
    UnexpectedCharacter u8 | UnterminatedLiteral | UnknownEscape u8 | EndedAfterBackslash
  | ExpectedExponentDigits | InvalidFloatLiteral | InvalidIntLiteral string | UnknownSuffix string

type_synonym 'a lx = "(lex_error \<times> span, 'a) step"

subsection \<open>Cursor\<close>

definition lex_fail :: "lex_error \<Rightarrow> nat \<Rightarrow> 'a lx" where
  \<comment> \<open>an error from \<open>start\<close> to the current position\<close>
  "lex_fail e start r = Some (Inl (e, \<lparr>sp_start = start, sp_end = rd_pos r\<rparr>))"

definition peek_byte_at :: "nat \<Rightarrow> u8 option lx" where
  "peek_byte_at off r = Some (Inr (if rd_pos r + off < length (rd_bytes r) then Some (rd_bytes r ! (rd_pos r + off)) else None, r))"

definition bump :: "token \<Rightarrow> token lx" where
  \<comment> \<open>\<^verbatim>\<open>{ self.pos += 1; token }\<close> where the byte under the cursor was seen\<close>
  "bump t = rd_map (\<lambda>_. t) advance"

definition bump_if :: "u8 \<Rightarrow> token \<Rightarrow> token lx \<Rightarrow> token lx" where
  "bump_if c t f = rd_bind peek (\<lambda>b. if b = Some c then bump t else f)"

definition two_or_one :: "u8 \<Rightarrow> token \<Rightarrow> token \<Rightarrow> token lx" where
  "two_or_one second both single = rd_bind advance (\<lambda>_. bump_if second both (rd_ret single))"

definition slice_str :: "nat \<Rightarrow> string lx" where
  \<comment> \<open>\<^verbatim>\<open>&self.src[start..self.pos]\<close>\<close>
  "slice_str start r = (if start \<le> rd_pos r \<and> is_char_boundary (rd_bytes r) start \<and> is_char_boundary (rd_bytes r) (rd_pos r)
     then Some (Inr (map (\<lambda>b. char_of (unat b)) (take (rd_pos r - start) (drop start (rd_bytes r))), r)) else None)"

definition next_char :: "bytes lx" where
  \<comment> \<open>\<^verbatim>\<open>self.src[self.pos..].chars().next()\<close> and the advance by its length\<close>
  "next_char r = (if rd_pos r < length (rd_bytes r) \<and> is_char_boundary (rd_bytes r) (rd_pos r)
     then (let n = utf8_len (rd_bytes r ! rd_pos r) in
       Some (Inr (take n (drop (rd_pos r) (rd_bytes r)), r\<lparr>rd_pos := rd_pos r + n\<rparr>)))
     else None)"

subsection \<open>Strings, numbers, words\<close>

definition lex_escape :: "nat \<Rightarrow> bytes lx" where
  "lex_escape start = rd_bind peek (\<lambda>b. case b of
     None \<Rightarrow> lex_fail EndedAfterBackslash start
   | Some c \<Rightarrow>
      (if c = 0x22 then rd_map (\<lambda>_. [0x22]) advance else if c = 0x5C then rd_map (\<lambda>_. [0x5C]) advance
       else if c = 0x6E then rd_map (\<lambda>_. [0x0A]) advance else if c = 0x74 then rd_map (\<lambda>_. [0x09]) advance
       else if c = 0x72 then rd_map (\<lambda>_. [0x0D]) advance else if c = 0x30 then rd_map (\<lambda>_. [0]) advance
       else lex_fail (UnknownEscape c) start))"

primrec lex_string_loop :: "nat \<Rightarrow> nat \<Rightarrow> bytes \<Rightarrow> token lx" where
  "lex_string_loop 0 start s = rd_panic"
| "lex_string_loop (Suc n) start s = rd_bind peek (\<lambda>b. case b of
     None \<Rightarrow> lex_fail UnterminatedLiteral start
   | Some c \<Rightarrow>
      (if c = 0x22 then bump (TkStr (map (\<lambda>b. char_of (unat b)) s))
       else if c = 0x5C then rd_bind advance (\<lambda>_. rd_bind (lex_escape start) (\<lambda>e. lex_string_loop n start (s @ e)))
       else rd_bind next_char (\<lambda>ch. lex_string_loop n start (s @ ch))))"

definition lex_string :: "nat \<Rightarrow> token lx" where
  "lex_string start = rd_bind advance (\<lambda>_ r. lex_string_loop (Suc (unread r)) start [] r)"

definition is_alpha :: "u8 \<Rightarrow> bool" where
  "is_alpha b \<longleftrightarrow> 0x41 \<le> b \<and> b \<le> 0x5A \<or> 0x61 \<le> b \<and> b \<le> 0x7A"

definition parse_word :: "int \<Rightarrow> string \<Rightarrow> 'w::len word option" where
  \<comment> \<open>\<^verbatim>\<open>digits.parse::<iN or uN>()\<close> of decimal digits: an error when the value exceeds the maximum\<close>
  "parse_word hi ds = (let n = foldl (\<lambda>n b. n * 10 + (uint b - 48)) 0 (as_bytes ds) in
     if n \<le> hi then Some (word_of_int n) else None)"

definition literal :: "string \<Rightarrow> nat \<Rightarrow> token option \<Rightarrow> token lx" where
  "literal digs start t = (case t of Some tok \<Rightarrow> rd_ret tok | None \<Rightarrow> lex_fail (InvalidIntLiteral digs) start)"

definition lex_suffix :: "text_lib \<Rightarrow> nat \<Rightarrow> string \<Rightarrow> token lx" where
  "lex_suffix T start digs = rd_bind tell (\<lambda>suffix_start. rd_bind (skip_while (\<lambda>c. is_digit c \<or> is_alpha c)) (\<lambda>_.
     rd_bind (slice_str suffix_start) (\<lambda>suffix.
       if suffix = [] \<or> suffix = ''i64'' then literal digs start (map_option TkInt (bigint_parse T (as_bytes digs)))
       else if suffix = ''u'' then literal digs start (map_option TkUInt (bigint_parse T (as_bytes digs)))
       else if suffix = ''i32'' then literal digs start (map_option TkI32 (parse_word (2 ^ 31 - 1) digs))
       else if suffix = ''u32'' then literal digs start (map_option TkU32 (parse_word (2 ^ 32 - 1) digs))
       else if suffix = ''u64'' then literal digs start (map_option TkU64 (parse_word (2 ^ 64 - 1) digs))
       else if suffix = ''u128'' then literal digs start (map_option TkU128 (parse_word (2 ^ 128 - 1) digs))
       else lex_fail (UnknownSuffix suffix) start)))"

definition lex_exponent :: "nat \<Rightarrow> unit lx" where
  "lex_exponent start = rd_bind peek (\<lambda>b. if b = Some 0x65 \<or> b = Some 0x45
     then rd_bind advance (\<lambda>_. rd_bind peek (\<lambda>s.
       rd_bind (if s = Some 0x2B \<or> s = Some 0x2D then rd_map (\<lambda>_. ()) advance else rd_ret ()) (\<lambda>_.
       rd_bind tell (\<lambda>p. rd_bind (skip_while is_digit) (\<lambda>_. rd_bind tell (\<lambda>q.
         if q = p then lex_fail ExpectedExponentDigits start else rd_ret ()))))))
     else rd_ret ())"

definition lex_float :: "text_lib \<Rightarrow> nat \<Rightarrow> bool \<Rightarrow> token lx" where
  "lex_float T start saw_dot =
     rd_bind (if saw_dot then rd_bind advance (\<lambda>_. skip_while is_digit) else rd_ret ()) (\<lambda>_.
     rd_bind (lex_exponent start) (\<lambda>_. rd_bind (slice_str start) (\<lambda>txt.
       case f64_parse T (as_bytes txt) of Some f \<Rightarrow> rd_ret (TkFloat f) | None \<Rightarrow> lex_fail InvalidFloatLiteral start)))"

definition prev_byte_is_dot :: "nat \<Rightarrow> bool lx" where
  "prev_byte_is_dot start r = Some (Inr (start > 0 \<and> rd_bytes r ! (start - 1) = 0x2E, r))"

definition lex_int :: "text_lib \<Rightarrow> nat \<Rightarrow> token lx" where
  "lex_int T start = rd_bind (skip_while is_digit) (\<lambda>_. rd_bind (slice_str start) (\<lambda>digs.
     rd_bind (prev_byte_is_dot start) (\<lambda>dotted. rd_bind peek (\<lambda>b. rd_bind (peek_byte_at 1) (\<lambda>b1.
       let saw_dot = \<not> dotted \<and> b = Some 0x2E \<and> (case b1 of Some c \<Rightarrow> is_digit c | None \<Rightarrow> False);
           saw_exp = \<not> dotted \<and> (b = Some 0x65 \<or> b = Some 0x45) in
       if saw_dot \<or> saw_exp then lex_float T start saw_dot else lex_suffix T start digs)))))"

definition keyword_table :: "(string \<times> token) list" where
  "keyword_table = [
    (''fn'', TkFn), (''let'', TkLet), (''if'', TkIf), (''else'', TkElse), (''return'', TkReturn), 
    (''true'', TkTrue), (''false'', TkFalse), (''import'', TkImport), (''state'', TkState), 
    (''entry'', TkEntry), (''struct'', TkStruct), (''group'', TkGroup), (''module'', TkModule), 
    (''pub'', TkPub), (''emit'', TkEmit), (''nore'', TkNore), (''modifier'', TkModifier), 
    (''enum'', TkEnum), (''match'', TkMatch), (''const'', TkConst), (''cap'', TkCap), 
    (''view'', TkView), (''pure'', TkPure), (''interface'', TkInterface), (''while'', TkWhile), 
    (''parallel'', TkParallel), (''for'', TkFor), (''in'', TkIn), (''break'', TkBreak), 
    (''continue'', TkContinue), (''set'', TkSet), (''dict'', TkDict), (''index'', TkIndex), 
    (''unique_index'', TkUniqueIndex), (''ASC'', TkAsc), (''DESC'', TkDesc), (''on'', TkOn), 
    (''delete'', TkDelete), (''reserve'', TkReserve), (''arr'', TkArr)]"

definition lex_ident :: "nat \<Rightarrow> token lx" where
  "lex_ident start = rd_bind (skip_while (\<lambda>c. is_digit c \<or> is_alpha c \<or> c = 0x5F)) (\<lambda>_.
     rd_bind (slice_str start) (\<lambda>s. rd_ret (case map_of keyword_table s of Some t \<Rightarrow> t | None \<Rightarrow> TkIdent s)))"

subsection \<open>Tokens\<close>

primrec skip_blank :: "nat \<Rightarrow> unit lx" where
  \<comment> \<open>\<^verbatim>\<open>skip_ws_and_comments\<close>\<close>
  "skip_blank 0 = rd_panic"
| "skip_blank (Suc n) = rd_bind (skip_while is_ws) (\<lambda>_. rd_bind peek (\<lambda>b. rd_bind (peek_byte_at 1) (\<lambda>b1.
     if b = Some 0x2F \<and> b1 = Some 0x2F then rd_bind (skip_while (\<lambda>c. c \<noteq> 0x0A)) (\<lambda>_. skip_blank n)
     else rd_ret ())))"

definition skip_ws_and_comments :: "unit lx" where
  "skip_ws_and_comments r = skip_blank (Suc (unread r)) r"

definition lex_token :: "text_lib \<Rightarrow> nat \<Rightarrow> u8 \<Rightarrow> token lx" where
  "lex_token T start c =
    (if c = 0x28 then bump TkLParen else if c = 0x29 then bump TkRParen
     else if c = 0x7B then bump TkLBrace else if c = 0x7D then bump TkRBrace
     else if c = 0x5B then bump TkLBracket else if c = 0x5D then bump TkRBracket
     else if c = 0x2C then bump TkComma else if c = 0x3B then bump TkSemi
     else if c = 0x3A then two_or_one 0x3A TkColonColon TkColon
     else if c = 0x2E then rd_bind advance (\<lambda>_. rd_bind peek (\<lambda>b. if b = Some 0x2E
       then rd_bind advance (\<lambda>_. bump_if 0x3D TkDotDotEq (rd_ret TkDotDot)) else rd_ret TkDot))
     else if c = 0x2B then bump TkPlus
     else if c = 0x2D then two_or_one 0x3E TkArrow TkMinus
     else if c = 0x2A then bump TkStar else if c = 0x2F then bump TkSlash else if c = 0x25 then bump TkPercent
     else if c = 0x3D then rd_bind advance (\<lambda>_. bump_if 0x3D TkEqEq (bump_if 0x3E TkFatArrow (rd_ret TkEq)))
     else if c = 0x21 then two_or_one 0x3D TkBangEq TkBang
     else if c = 0x3C then rd_bind advance (\<lambda>_. bump_if 0x3D TkLtEq (bump_if 0x3C TkShl (rd_ret TkLt)))
     else if c = 0x3E then rd_bind advance (\<lambda>_. bump_if 0x3D TkGtEq (bump_if 0x3E TkShr (rd_ret TkGt)))
     else if c = 0x26 then two_or_one 0x26 TkAmpAmp TkAmp
     else if c = 0x5E then bump TkCaret else if c = 0x60 then bump TkBacktick
     else if c = 0x7C then rd_bind advance (\<lambda>_. bump_if 0x7C TkPipePipe (bump_if 0x3E TkPipeArrow (rd_ret TkPipeBar)))
     else if c = 0x24 then two_or_one 0x24 TkDollarDollar TkDollar
     else if c = 0x22 then lex_string start
     else if is_digit c then lex_int T start
     else if is_alpha c \<or> c = 0x5F then lex_ident start
     else rd_fail (UnexpectedCharacter c, \<lparr>sp_start = start, sp_end = start + 1\<rparr>))"

primrec token_loop :: "nat \<Rightarrow> text_lib \<Rightarrow> spanned list \<Rightarrow> spanned list lx" where
  "token_loop 0 T out = rd_panic"
| "token_loop (Suc n) T out = rd_bind skip_ws_and_comments (\<lambda>_. rd_bind tell (\<lambda>start. rd_bind peek (\<lambda>b. case b of
     None \<Rightarrow> rd_ret (out @ [\<lparr>sp_token = TkEof, sp_span = \<lparr>sp_start = start, sp_end = start\<rparr>\<rparr>])
   | Some c \<Rightarrow> rd_bind (lex_token T start c) (\<lambda>tok. rd_bind tell (\<lambda>fin.
       token_loop n T (out @ [\<lparr>sp_token = tok, sp_span = \<lparr>sp_start = start, sp_end = fin\<rparr>\<rparr>]))))))"

definition tokenize :: "text_lib \<Rightarrow> bytes \<Rightarrow> (lex_error \<times> span + spanned list) option" where
  "tokenize T src = (case token_loop (Suc (length src)) T [] (reader_new src) of
     None \<Rightarrow> None | Some (Inl e) \<Rightarrow> Some (Inl e) | Some (Inr (toks, _)) \<Rightarrow> Some (Inr toks))"

end
