(* ===== verification/LexerProps.thy ===== *)
theory LexerProps
  imports Lexer JsonTextProps
begin

section \<open>What the lexer returns\<close>

text \<open>
  \<open>runs bs P f R\<close> is a total-correctness triple for a lexer step on the source \<open>bs\<close>: from every position
  that satisfies \<open>P\<close> and starts a character, the step returns (an error or a value), and a value \<open>x\<close>
  with the new position satisfies \<open>R x\<close>; the new position starts a character again.
\<close>

subsection \<open>Characters of the source\<close>

definition at_char :: "bytes \<Rightarrow> nat \<Rightarrow> bool" where
  "at_char bs p \<longleftrightarrow> p \<le> length bs \<and> utf8_valid (drop p bs)"

lemma lead_byte: "utf8_valid (b # bs) \<Longrightarrow> b AND 0xC0 \<noteq> 0x80"
proof -
  have "list_all (\<lambda>n. (of_nat n :: u8) < 0x80 \<or> \<not> (of_nat n :: u8) < 0xC2 \<longrightarrow> (of_nat n :: u8) AND 0xC0 \<noteq> 0x80) [0..<256]"
    by code_simp
  then have "(of_nat (unat b) :: u8) < 0x80 \<or> \<not> (of_nat (unat b) :: u8) < 0xC2 \<longrightarrow> (of_nat (unat b) :: u8) AND 0xC0 \<noteq> 0x80"
    using unsigned_less [of b, where 'a = nat] unfolding list_all_iff by (intro bspec [where x = "unat b"]) auto
  then show "utf8_valid (b # bs) \<Longrightarrow> b AND 0xC0 \<noteq> 0x80" by (auto split: if_splits)
qed

lemma at_char_boundary: "at_char bs p \<Longrightarrow> is_char_boundary bs p"
proof (cases "p < length bs")
  case True
  then have "drop p bs = bs ! p # drop (Suc p) bs" by (simp add: Cons_nth_drop_Suc)
  then show "at_char bs p \<Longrightarrow> is_char_boundary bs p"
    using lead_byte [of "bs ! p" "drop (Suc p) bs"] True by (simp add: at_char_def is_char_boundary_def del: utf8_valid.simps)
qed (simp add: at_char_def is_char_boundary_def)

lemma at_char_ascii:
  assumes "at_char bs p" and "p < length bs" and "bs ! p < 0x80"
  shows "at_char bs (Suc p)"
  using assms by (simp add: at_char_def flip: Cons_nth_drop_Suc)

lemma at_char_next:
  assumes "at_char bs p" and "p < length bs"
  shows "at_char bs (p + utf8_len (bs ! p)) \<and> 0 < utf8_len (bs ! p)"
proof (cases "bs ! p < 0x80")
  case True
  then show ?thesis using at_char_ascii [OF assms True] by (simp add: utf8_len_def)
next
  case False
  have d: "drop p bs = bs ! p # drop (Suc p) bs" using assms(2) by (simp add: Cons_nth_drop_Suc)
  have "utf8_valid (bs ! p # drop (Suc p) bs)" using assms(1) by (simp add: at_char_def d del: utf8_valid.simps)
  from utf8_multi [OF this False] obtain ms rest where ms: "drop (Suc p) bs = ms @ rest" "length ms = utf8_len (bs ! p) - 1" "utf8_valid rest"
    by blast
  have l: "0 < utf8_len (bs ! p)" by (simp add: utf8_len_def)
  have "drop (length ms) (drop (Suc p) bs) = rest" using ms(1) by simp
  moreover have "length ms + Suc p \<le> length bs" using arg_cong [OF ms(1), of length] assms(2) by simp
  ultimately show ?thesis using ms(2,3) l by (simp add: at_char_def add.commute)
qed

lemma utf8_dropWhile: "utf8_valid b \<Longrightarrow> utf8_valid (dropWhile (\<lambda>c. c \<noteq> 0x0A) b)"
proof (induction "length b" arbitrary: b rule: less_induct)
  case less
  show ?case
  proof (cases b)
    case (Cons a bs)
    show ?thesis
    proof (cases "a < 0x80")
      case True
      then show ?thesis using less Cons by auto
    next
      case False
      from utf8_multi [OF less.prems [unfolded Cons] False] obtain ms rest
        where ms: "bs = ms @ rest" "list_all (\<lambda>b. 0x80 \<le> b) ms" "utf8_valid rest" by blast
      have "\<forall>c \<in> set (a # ms). c \<noteq> 0x0A" using ms(2) False by (auto simp: list_all_iff word_le_nat_alt word_less_nat_alt)
      then have "dropWhile (\<lambda>c. c \<noteq> 0x0A) (a # ms @ rest) = dropWhile (\<lambda>c. c \<noteq> 0x0A) rest"
        using dropWhile_append2 [of "a # ms" "\<lambda>c. c \<noteq> 0x0A" rest] by simp
      then show ?thesis using less.hyps [of rest] ms Cons by simp
    qed
  qed simp
qed

subsection \<open>Triples\<close>

definition runs :: "bytes \<Rightarrow> (nat \<Rightarrow> bool) \<Rightarrow> 'a lx \<Rightarrow> ('a \<Rightarrow> nat \<Rightarrow> bool) \<Rightarrow> bool" where
  "runs bs P f R \<longleftrightarrow> (\<forall>p. at_char bs p \<longrightarrow> P p \<longrightarrow>
     (\<exists>e. f \<lparr>rd_bytes = bs, rd_pos = p\<rparr> = Some (Inl e)) \<or>
     (\<exists>x q. f \<lparr>rd_bytes = bs, rd_pos = p\<rparr> = Some (Inr (x, \<lparr>rd_bytes = bs, rd_pos = q\<rparr>)) \<and> at_char bs q \<and> R x q))"

named_theorems run_rules \<open>triples of the lexer's steps\<close>

lemma runs_bind:
  assumes "runs bs P f R" and "\<And>x. runs bs (R x) (k x) S"
  shows "runs bs P (rd_bind f k) S"
  unfolding runs_def
proof (intro allI impI)
  fix p assume "at_char bs p" and "P p"
  with assms(1) show "(\<exists>e. rd_bind f k \<lparr>rd_bytes = bs, rd_pos = p\<rparr> = Some (Inl e)) \<or>
     (\<exists>x q. rd_bind f k \<lparr>rd_bytes = bs, rd_pos = p\<rparr> = Some (Inr (x, \<lparr>rd_bytes = bs, rd_pos = q\<rparr>)) \<and> at_char bs q \<and> S x q)"
    using assms(2) unfolding runs_def rd_bind_def by fastforce
qed

lemma runs_ret: "(\<And>p. at_char bs p \<Longrightarrow> P p \<Longrightarrow> R x p) \<Longrightarrow> runs bs P (rd_ret x) R"
  by (simp add: runs_def rd_ret_def)

lemma runs_fail [run_rules]: "runs bs P (rd_fail e) R" "runs bs P (lex_fail err start) R"
  by (simp_all add: runs_def rd_fail_def lex_fail_def)

lemma runs_conseq: "runs bs P f R \<Longrightarrow> (\<And>p. at_char bs p \<Longrightarrow> Q p \<Longrightarrow> P p) \<Longrightarrow> (\<And>x q. at_char bs q \<Longrightarrow> R x q \<Longrightarrow> S x q) \<Longrightarrow> runs bs Q f S"
  unfolding runs_def by metis

lemma runs_if: "(b \<Longrightarrow> runs bs P f R) \<Longrightarrow> (\<not> b \<Longrightarrow> runs bs P g R) \<Longrightarrow> runs bs P (if b then f else g) R"
  by simp

lemma runs_map: "runs bs P f R \<Longrightarrow> (\<And>x q. at_char bs q \<Longrightarrow> R x q \<Longrightarrow> S (c x) q) \<Longrightarrow> runs bs P (rd_map c f) S"
  unfolding rd_map_def by (rule runs_bind) (auto intro: runs_ret)

lemma runs_advance:
  assumes "\<And>p. P p \<Longrightarrow> p < length bs \<and> bs ! p < 0x80" and "\<And>p. P p \<Longrightarrow> R (Some (bs ! p)) (Suc p)"
  shows "runs bs P advance R"
  using assms at_char_ascii by (auto simp: runs_def advance_def)

lemma runs_peek: "(\<And>p. at_char bs p \<Longrightarrow> P p \<Longrightarrow> R (if p < length bs then Some (bs ! p) else None) p) \<Longrightarrow> runs bs P peek R"
  unfolding runs_def peek_def by simp metis

lemma runs_peek_bind:
  assumes "runs bs (\<lambda>p. P p \<and> p = length bs) (k None) R" and "\<And>c. runs bs (\<lambda>p. P p \<and> p < length bs \<and> bs ! p = c) (k (Some c)) R"
  shows "runs bs P (rd_bind peek k) R"
proof (rule runs_bind [where R = "\<lambda>b p. P p \<and> (case b of None \<Rightarrow> p = length bs | Some c \<Rightarrow> p < length bs \<and> bs ! p = c)"])
  show "runs bs P peek (\<lambda>b p. P p \<and> (case b of None \<Rightarrow> p = length bs | Some c \<Rightarrow> p < length bs \<and> bs ! p = c))"
    by (rule runs_peek) (auto simp: at_char_def)
  show "runs bs (\<lambda>p. P p \<and> (case b of None \<Rightarrow> p = length bs | Some c \<Rightarrow> p < length bs \<and> bs ! p = c)) (k b) R" for b
    using assms by (cases b) simp_all
qed

lemma runs_vacuous: "(\<And>p. \<not> P p) \<Longrightarrow> runs bs P f R"
  by (simp add: runs_def)

lemma runs_peek_at:
  "(\<And>p. at_char bs p \<Longrightarrow> P p \<Longrightarrow> R (if p + off < length bs then Some (bs ! (p + off)) else None) p) \<Longrightarrow> runs bs P (peek_byte_at off) R"
  unfolding runs_def peek_byte_at_def by simp metis

lemma runs_tell: "(\<And>p. at_char bs p \<Longrightarrow> P p \<Longrightarrow> R p p) \<Longrightarrow> runs bs P tell R"
  by (simp add: runs_def tell_def)

lemma runs_prev: "(\<And>p b. P p \<Longrightarrow> R b p) \<Longrightarrow> runs bs P (prev_byte_is_dot start) R"
  by (simp add: runs_def prev_byte_is_dot_def)

lemma at_char_drop:
  assumes "at_char bs p" and "utf8_valid (dropWhile C (drop p bs))"
  shows "at_char bs (p + length (takeWhile C (drop p bs)))"
proof -
  have "length (takeWhile C (drop p bs)) \<le> length (drop p bs)" by (rule length_takeWhile_le)
  then have "p + length (takeWhile C (drop p bs)) \<le> length bs" using assms(1) unfolding at_char_def length_drop by linarith
  then show ?thesis using assms by (simp add: at_char_def dropWhile_eq_drop add.commute)
qed

lemma at_char_run:
  assumes "at_char bs p" and "\<And>c. C c \<Longrightarrow> c < 0x80"
  shows "at_char bs (p + length (takeWhile C (drop p bs)))"
proof -
  have "utf8_valid b \<Longrightarrow> utf8_valid (dropWhile C b)" for b
  proof (induction b)
    case (Cons a b)
    then show ?case using assms(2) [of a] by (cases "C a") auto
  qed simp
  then show ?thesis using assms(1) by (intro at_char_drop) (simp_all add: at_char_def)
qed

lemma runs_skip_while:
  assumes "\<And>c. C c \<Longrightarrow> c < 0x80" and "\<And>p q. P p \<Longrightarrow> p \<le> q \<Longrightarrow> (p < length bs \<Longrightarrow> C (bs ! p) \<Longrightarrow> p < q) \<Longrightarrow>
     q = p + length (takeWhile C (drop p bs)) \<Longrightarrow> R () q"
  shows "runs bs P (skip_while C) R"
  unfolding runs_def
proof (intro allI impI disjI2)
  fix p assume p: "at_char bs p" "P p"
  let ?q = "p + length (takeWhile C (drop p bs))"
  have "p < ?q" if "p < length bs" "C (bs ! p)" using that by (simp flip: Cons_nth_drop_Suc)
  then have "R () ?q" using p(2) assms(2) [of p ?q] by simp
  then show "\<exists>x q. skip_while C \<lparr>rd_bytes = bs, rd_pos = p\<rparr> = Some (Inr (x, \<lparr>rd_bytes = bs, rd_pos = q\<rparr>)) \<and> at_char bs q \<and> R x q"
    using at_char_run [OF p(1) assms(1)] by (simp add: skip_while_def)
qed

lemma runs_skip_line:
  assumes "\<And>p q. P p \<Longrightarrow> p \<le> q \<Longrightarrow> (p < length bs \<Longrightarrow> bs ! p \<noteq> 0x0A \<Longrightarrow> p < q) \<Longrightarrow> R () q"
  shows "runs bs P (skip_while (\<lambda>c. c \<noteq> 0x0A)) R"
  unfolding runs_def
proof (intro allI impI disjI2)
  fix p assume p: "at_char bs p" "P p"
  let ?n = "length (takeWhile (\<lambda>c. c \<noteq> 0x0A) (drop p bs))"
  have "0 < ?n" if "p < length bs" "bs ! p \<noteq> 0x0A" using that by (simp flip: Cons_nth_drop_Suc)
  then have "R () (p + ?n)" using assms [of p "p + ?n"] p(2) by simp
  moreover have "at_char bs (p + ?n)" using p(1) utf8_dropWhile [of "drop p bs"] by (intro at_char_drop) (simp_all add: at_char_def)
  ultimately show "\<exists>x q. skip_while (\<lambda>c. c \<noteq> 0x0A) \<lparr>rd_bytes = bs, rd_pos = p\<rparr> = Some (Inr (x, \<lparr>rd_bytes = bs, rd_pos = q\<rparr>)) \<and> at_char bs q \<and> R x q"
    by (simp add: skip_while_def)
qed

definition text_at :: "bytes \<Rightarrow> nat \<Rightarrow> nat \<Rightarrow> string" where
  "text_at bs s q = map (\<lambda>b. char_of (unat b)) (take (q - s) (drop s bs))"

lemma runs_slice:
  assumes "at_char bs s" and "\<And>p. P p \<Longrightarrow> s \<le> p" and "\<And>p. P p \<Longrightarrow> R (text_at bs s p) p"
  shows "runs bs P (slice_str s) R"
  using assms by (auto simp: runs_def slice_str_def at_char_boundary text_at_def)

lemma runs_next_char:
  assumes "\<And>p. P p \<Longrightarrow> p < length bs" and "\<And>p q x. P p \<Longrightarrow> p < q \<Longrightarrow> R x q"
  shows "runs bs P next_char R"
  unfolding runs_def
proof (intro allI impI disjI2)
  fix p assume p: "at_char bs p" "P p"
  have "at_char bs (p + utf8_len (bs ! p)) \<and> 0 < utf8_len (bs ! p)" using at_char_next p assms(1) by blast
  then show "\<exists>x q. next_char \<lparr>rd_bytes = bs, rd_pos = p\<rparr> = Some (Inr (x, \<lparr>rd_bytes = bs, rd_pos = q\<rparr>)) \<and> at_char bs q \<and> R x q"
    using p assms at_char_boundary by (simp add: next_char_def Let_def)
qed

subsection \<open>Tokens\<close>

definition ident_ok :: "bytes \<Rightarrow> nat \<Rightarrow> token \<Rightarrow> nat \<Rightarrow> bool" where
  \<comment> \<open>a token ends after its start; an identifier is the source text it spans\<close>
  "ident_ok bs s tok q \<longleftrightarrow> s < q \<and> (case tok of TkIdent x \<Rightarrow> x = text_at bs s q | _ \<Rightarrow> True)"

definition plain :: "token \<Rightarrow> bool" where
  "plain tok \<longleftrightarrow> (case tok of TkIdent x \<Rightarrow> False | _ \<Rightarrow> True)"

lemma ident_ok_plain: "plain tok \<Longrightarrow> s < q \<Longrightarrow> ident_ok bs s tok q"
  by (simp add: ident_ok_def plain_def split: token.splits)

lemma runs_bump:
  assumes "\<And>p. P p \<Longrightarrow> p < length bs \<and> bs ! p < 0x80 \<and> s \<le> p" and "plain t"
  shows "runs bs P (bump t) (ident_ok bs s)"
  unfolding bump_def
  by (rule runs_map [where R = "\<lambda>_ q. s < q"], rule runs_advance) (use assms in \<open>auto simp: ident_ok_plain less_Suc_eq_le\<close>)

lemma runs_bump_if:
  assumes "runs bs (\<lambda>p. s < p) f (ident_ok bs s)" and "plain t" and "c < 0x80"
  shows "runs bs (\<lambda>p. s < p) (bump_if c t f) (ident_ok bs s)"
  unfolding bump_if_def using assms
  by (intro runs_peek_bind) (auto intro!: runs_if runs_bump intro: runs_conseq [OF assms(1)])

lemma runs_done: "plain t \<Longrightarrow> runs bs (\<lambda>p. s < p) (rd_ret t) (ident_ok bs s)"
  by (rule runs_ret) (rule ident_ok_plain)

abbreviation here :: "bytes \<Rightarrow> nat \<Rightarrow> nat \<Rightarrow> bool" where
  "here bs s p \<equiv> p = s \<and> s < length bs \<and> bs ! s < 0x80"

lemma runs_advance_then:
  assumes "\<And>b. runs bs (\<lambda>p. s < p) (k b) R"
  shows "runs bs (here bs s) (rd_bind advance k) R"
  by (rule runs_bind [where R = "\<lambda>_ p. s < p"], rule runs_advance) (use assms in auto)

lemma runs_two_or_one:
  assumes "plain both" and "plain single" and "c < 0x80"
  shows "runs bs (here bs s) (two_or_one c both single) (ident_ok bs s)"
  unfolding two_or_one_def using assms by (intro runs_advance_then runs_bump_if runs_done)

lemma runs_option:
  assumes "v = None \<Longrightarrow> runs bs P f R" and "\<And>x. v = Some x \<Longrightarrow> runs bs P (g x) R"
  shows "runs bs P (case v of None \<Rightarrow> f | Some x \<Rightarrow> g x) R"
  using assms by (cases v) simp_all

lemma runs_escape: "runs bs (\<lambda>p. m \<le> p) (lex_escape s) (\<lambda>_ q. m \<le> q)"
  unfolding lex_escape_def
proof (rule runs_peek_bind)
  fix c
  have adv: "runs bs (\<lambda>p. m \<le> p \<and> p < length bs \<and> bs ! p = c) (rd_map (\<lambda>_. e) advance) (\<lambda>_ q. m \<le> q)"
    if "c < 0x80" for e :: bytes
    by (rule runs_map [where R = "\<lambda>_ q. m \<le> q"], rule runs_advance) (use that in auto)
  show "runs bs (\<lambda>p. m \<le> p \<and> p < length bs \<and> bs ! p = c)
     (case Some c of None \<Rightarrow> lex_fail EndedAfterBackslash s | Some c \<Rightarrow>
      (if c = 0x22 then rd_map (\<lambda>_. [0x22] :: bytes) advance else if c = 0x5C then rd_map (\<lambda>_. [0x5C]) advance
       else if c = 0x6E then rd_map (\<lambda>_. [0x0A]) advance else if c = 0x74 then rd_map (\<lambda>_. [0x09]) advance
       else if c = 0x72 then rd_map (\<lambda>_. [0x0D]) advance else if c = 0x30 then rd_map (\<lambda>_. [0]) advance
       else lex_fail (UnknownEscape c) s)) (\<lambda>_ q. m \<le> q)"
    unfolding option.case by (intro runs_if adv run_rules) simp_all
qed (simp add: run_rules)

lemma runs_string_loop:
  "runs bs (\<lambda>p. s < p \<and> length bs - p \<le> n) (lex_string_loop (Suc n) s acc) (ident_ok bs s)"
proof (induction n arbitrary: acc)
  case 0
  show ?case unfolding lex_string_loop.simps
    by (rule runs_peek_bind) (auto simp: run_rules intro!: runs_vacuous)
next
  case (Suc n)
  let ?L = "\<lambda>e. lex_string_loop (Suc n) s (acc @ e)"
  have esc: "runs bs (\<lambda>p. Suc s < p \<and> length bs - p \<le> n) (rd_bind (lex_escape s) ?L) (ident_ok bs s)" 
  proof (rule runs_bind)
    show "runs bs (\<lambda>p. s < p \<and> length bs - p \<le> n) (?L x) (ident_ok bs s)" for x by (rule Suc.IH)
    show "runs bs (\<lambda>p. Suc s < p \<and> length bs - p \<le> n) (lex_escape s) (\<lambda>_ p. s < p \<and> length bs - p \<le> n)"
      unfolding runs_def
    proof (intro allI impI)
      fix p assume p: "at_char bs p" "Suc s < p \<and> length bs - p \<le> n"
      show "(\<exists>e. lex_escape s \<lparr>rd_bytes = bs, rd_pos = p\<rparr> = Some (Inl e)) \<or>
         (\<exists>x q. lex_escape s \<lparr>rd_bytes = bs, rd_pos = p\<rparr> = Some (Inr (x, \<lparr>rd_bytes = bs, rd_pos = q\<rparr>)) \<and> at_char bs q \<and> s < q \<and> length bs - q \<le> n)"
        using runs_escape [of bs p s, unfolded runs_def, rule_format, OF p(1)] p(2) by fastforce
    qed
  qed
  show ?case unfolding lex_string_loop.simps(2) [of "Suc n"]
  proof (rule runs_peek_bind)
    fix c
    have 1: "runs bs (\<lambda>p. (s < p \<and> length bs - p \<le> Suc n) \<and> p < length bs \<and> bs ! p = c) (bump (TkStr (map (\<lambda>b. char_of (unat b)) acc))) (ident_ok bs s)"
      if "c = 0x22" using that by (intro runs_bump) (auto simp: plain_def)
    have 2: "runs bs (\<lambda>p. (s < p \<and> length bs - p \<le> Suc n) \<and> p < length bs \<and> bs ! p = c) (rd_bind advance (\<lambda>_. rd_bind (lex_escape s) ?L)) (ident_ok bs s)"
      if "c = 0x5C" by (rule runs_bind [OF _ esc], rule runs_advance) (use that in auto)
    have 3: "runs bs (\<lambda>p. (s < p \<and> length bs - p \<le> Suc n) \<and> p < length bs \<and> bs ! p = c) (rd_bind next_char ?L) (ident_ok bs s)"
      by (rule runs_bind [OF _ Suc.IH], rule runs_next_char) auto
    show "runs bs (\<lambda>p. (s < p \<and> length bs - p \<le> Suc n) \<and> p < length bs \<and> bs ! p = c)
      (case Some c of None \<Rightarrow> lex_fail UnterminatedLiteral s | Some c \<Rightarrow>
        (if c = 0x22 then bump (TkStr (map (\<lambda>b. char_of (unat b)) acc))
         else if c = 0x5C then rd_bind advance (\<lambda>_. rd_bind (lex_escape s) ?L)
         else rd_bind next_char ?L)) (ident_ok bs s)"
      unfolding option.case using 1 2 3 by (intro runs_if)
  qed (simp add: run_rules)
qed

lemma runs_fuel:
  assumes "\<And>n. runs bs (\<lambda>p. P p \<and> length bs - p \<le> n) (F (Suc n)) R"
  shows "runs bs P (\<lambda>r. F (Suc (unread r)) r) R"
  using assms unfolding runs_def by (simp add: unread_def)

lemma runs_string: "runs bs (here bs s) (lex_string s) (ident_ok bs s)"
  unfolding lex_string_def
  by (rule runs_advance_then, rule runs_fuel [where F = "\<lambda>n. lex_string_loop n s []"]) (rule runs_string_loop)

lemma runs_pure: "(A \<Longrightarrow> runs bs P f R) \<Longrightarrow> runs bs (\<lambda>p. A \<and> P p) f R"
  by (auto simp: runs_def)

lemma ascii_class: "is_digit c \<Longrightarrow> c < 0x80" "is_alpha c \<Longrightarrow> c < 0x80" "is_ws c \<Longrightarrow> c < 0x80"
  by (auto simp: is_digit_def is_alpha_def is_ws_def word_le_nat_alt word_less_nat_alt)

lemma runs_literal: "(\<And>t. v = Some t \<Longrightarrow> plain t) \<Longrightarrow> runs bs (\<lambda>p. s < p) (literal ds s v) (ident_ok bs s)"
  unfolding literal_def by (auto intro!: runs_option run_rules runs_done)

lemma runs_suffix: "runs bs (\<lambda>p. s < p) (lex_suffix T s ds) (ident_ok bs s)"
  unfolding lex_suffix_def
proof (rule runs_bind [where R = "\<lambda>x p. (at_char bs x \<and> s < x) \<and> p = x"])
  show "runs bs (\<lambda>p. s < p) tell (\<lambda>x p. (at_char bs x \<and> s < x) \<and> p = x)" by (rule runs_tell) simp
  fix x
  have lit: "runs bs (\<lambda>p. s < p) (if suffix = [] \<or> suffix = ''i64'' then literal ds s (map_option TkInt (bigint_parse T (as_bytes ds)))
       else if suffix = ''u'' then literal ds s (map_option TkUInt (bigint_parse T (as_bytes ds)))
       else if suffix = ''i32'' then literal ds s (map_option TkI32 (parse_word (2 ^ 31 - 1) ds))
       else if suffix = ''u32'' then literal ds s (map_option TkU32 (parse_word (2 ^ 32 - 1) ds))
       else if suffix = ''u64'' then literal ds s (map_option TkU64 (parse_word (2 ^ 64 - 1) ds))
       else if suffix = ''u128'' then literal ds s (map_option TkU128 (parse_word (2 ^ 128 - 1) ds))
       else lex_fail (UnknownSuffix suffix) s) (ident_ok bs s)" for suffix
    by (intro runs_if runs_literal run_rules) (auto simp: plain_def)
  show "runs bs (\<lambda>p. (at_char bs x \<and> s < x) \<and> p = x) (rd_bind (skip_while (\<lambda>c. is_digit c \<or> is_alpha c)) (\<lambda>_. rd_bind (slice_str x) (\<lambda>suffix.
       if suffix = [] \<or> suffix = ''i64'' then literal ds s (map_option TkInt (bigint_parse T (as_bytes ds)))
       else if suffix = ''u'' then literal ds s (map_option TkUInt (bigint_parse T (as_bytes ds)))
       else if suffix = ''i32'' then literal ds s (map_option TkI32 (parse_word (2 ^ 31 - 1) ds))
       else if suffix = ''u32'' then literal ds s (map_option TkU32 (parse_word (2 ^ 32 - 1) ds))
       else if suffix = ''u64'' then literal ds s (map_option TkU64 (parse_word (2 ^ 64 - 1) ds))
       else if suffix = ''u128'' then literal ds s (map_option TkU128 (parse_word (2 ^ 128 - 1) ds))
       else lex_fail (UnknownSuffix suffix) s))) (ident_ok bs s)"
    by (rule runs_pure, rule runs_bind [where R = "\<lambda>_ p. x \<le> p"], rule runs_skip_while, use ascii_class in blast, simp,
        rule runs_bind [OF runs_slice lit]) auto
qed

lemma runs_digits: "runs bs (\<lambda>p. s < p) (skip_while is_digit) (\<lambda>_ p. s < p)"
  by (rule runs_skip_while) (use ascii_class in auto)

lemma runs_exponent: "runs bs (\<lambda>p. s < p) (lex_exponent s) (\<lambda>_ p. s < p)"
proof -
  have fin: "runs bs (\<lambda>p. s < p) (rd_bind tell (\<lambda>p. rd_bind (skip_while is_digit) (\<lambda>_. rd_bind tell (\<lambda>q.
      if q = p then lex_fail ExpectedExponentDigits s else rd_ret ())))) (\<lambda>_ p. s < p)"
    by (rule runs_bind [where R = "\<lambda>_ p. s < p"], rule runs_tell, assumption, rule runs_bind [OF runs_digits],
        rule runs_bind [where R = "\<lambda>_ p. s < p"], rule runs_tell, assumption) (auto intro: runs_if run_rules runs_ret)
  have sign: "runs bs (\<lambda>p. s < p) (rd_bind peek (\<lambda>b. rd_bind (if b = Some 0x2B \<or> b = Some 0x2D then rd_map (\<lambda>_. ()) advance else rd_ret ()) (\<lambda>_.
      rd_bind tell (\<lambda>p. rd_bind (skip_while is_digit) (\<lambda>_. rd_bind tell (\<lambda>q.
      if q = p then lex_fail ExpectedExponentDigits s else rd_ret ())))))) (\<lambda>_ p. s < p)"
    by (rule runs_peek_bind; rule runs_bind [OF _ fin]; rule runs_if)
       (auto intro!: runs_ret runs_map [OF runs_advance [where R = "\<lambda>_ p. s < p"]])
  show ?thesis unfolding lex_exponent_def
    by (rule runs_peek_bind; rule runs_if)
       (auto intro!: runs_ret runs_bind [OF runs_advance [where R = "\<lambda>_ p. s < p"] sign])
qed

lemma runs_float:
  assumes "at_char bs s"
  shows "runs bs (\<lambda>p. s < p \<and> (saw_dot \<longrightarrow> p < length bs \<and> bs ! p = 0x2E)) (lex_float T s saw_dot) (ident_ok bs s)"
  unfolding lex_float_def
proof (rule runs_bind)
  show "runs bs (\<lambda>p. s < p \<and> (saw_dot \<longrightarrow> p < length bs \<and> bs ! p = 0x2E))
     (if saw_dot then rd_bind advance (\<lambda>_. skip_while is_digit) else rd_ret ()) (\<lambda>_ p. s < p)"
    by (rule runs_if) (auto intro!: runs_ret runs_bind [OF runs_advance [where R = "\<lambda>_ p. s < p"] runs_digits])
  show "runs bs (\<lambda>p. s < p) (rd_bind (lex_exponent s) (\<lambda>_. rd_bind (slice_str s) (\<lambda>txt.
       case f64_parse T (as_bytes txt) of None \<Rightarrow> lex_fail InvalidFloatLiteral s | Some f \<Rightarrow> rd_ret (TkFloat f)))) (ident_ok bs s)"
    by (rule runs_bind [OF runs_exponent], rule runs_bind [where R = "\<lambda>_ p. s < p"], rule runs_slice [OF assms])
       (auto intro!: runs_option run_rules runs_done simp: plain_def)
qed

lemma runs_int:
  assumes "at_char bs s" and "s < length bs" and "is_digit (bs ! s)"
  shows "runs bs (\<lambda>p. p = s) (lex_int T s) (ident_ok bs s)"
proof -
  let ?S = "\<lambda>p. s < p"
  have tail: "runs bs (\<lambda>p. s < p \<and> (b = Some 0x2E \<longrightarrow> p < length bs \<and> bs ! p = 0x2E)) (rd_bind (peek_byte_at 1) (\<lambda>b1.
       let saw_dot = \<not> dotted \<and> b = Some 0x2E \<and> (case b1 of None \<Rightarrow> False | Some c \<Rightarrow> is_digit c);
           saw_exp = \<not> dotted \<and> (b = Some 0x65 \<or> b = Some 0x45) in
       if saw_dot \<or> saw_exp then lex_float T s saw_dot else lex_suffix T s digs)) (ident_ok bs s)" for b dotted digs
  proof (rule runs_bind)
    show "runs bs (\<lambda>p. s < p \<and> (b = Some 0x2E \<longrightarrow> p < length bs \<and> bs ! p = 0x2E)) (peek_byte_at 1)
        (\<lambda>_ p. s < p \<and> (b = Some 0x2E \<longrightarrow> p < length bs \<and> bs ! p = 0x2E))" by (rule runs_peek_at)
    show "runs bs (\<lambda>p. s < p \<and> (b = Some 0x2E \<longrightarrow> p < length bs \<and> bs ! p = 0x2E))
       (let saw_dot = \<not> dotted \<and> b = Some 0x2E \<and> (case b1 of None \<Rightarrow> False | Some c \<Rightarrow> is_digit c);
           saw_exp = \<not> dotted \<and> (b = Some 0x65 \<or> b = Some 0x45) in
       if saw_dot \<or> saw_exp then lex_float T s saw_dot else lex_suffix T s digs) (ident_ok bs s)" for b1
      unfolding Let_def by (intro runs_if) (auto intro: runs_conseq [OF runs_float [OF assms(1)]] runs_conseq [OF runs_suffix])
  qed
  show ?thesis unfolding lex_int_def
  proof (rule runs_bind [where R = "\<lambda>_. ?S"])
    show "runs bs (\<lambda>p. p = s) (skip_while is_digit) (\<lambda>_. ?S)"
      by (rule runs_skip_while) (use assms ascii_class in auto)
    show "runs bs ?S (rd_bind (slice_str s) (\<lambda>digs. rd_bind (prev_byte_is_dot s) (\<lambda>dotted. rd_bind peek (\<lambda>b. rd_bind (peek_byte_at 1) (\<lambda>b1.
       let saw_dot = \<not> dotted \<and> b = Some 0x2E \<and> (case b1 of None \<Rightarrow> False | Some c \<Rightarrow> is_digit c);
           saw_exp = \<not> dotted \<and> (b = Some 0x65 \<or> b = Some 0x45) in
       if saw_dot \<or> saw_exp then lex_float T s saw_dot else lex_suffix T s digs))))) (ident_ok bs s)"
      by (rule runs_bind [where R = "\<lambda>_. ?S"], rule runs_slice [OF assms(1)], simp, simp,
          rule runs_bind [where R = "\<lambda>_. ?S"], rule runs_prev, assumption, rule runs_peek_bind)
         (rule runs_conseq [OF tail]; auto)+
  qed
qed

lemma keyword_plain: "map_of keyword_table x = Some t \<Longrightarrow> plain t"
proof -
  have "list_all (\<lambda>e. plain (snd e)) keyword_table" by (simp add: keyword_table_def plain_def)
  then show "map_of keyword_table x = Some t \<Longrightarrow> plain t" by (metis list_all_iff map_of_SomeD snd_conv)
qed

lemma runs_ident:
  assumes "at_char bs s" and "s < length bs" and "is_alpha (bs ! s) \<or> bs ! s = 0x5F"
  shows "runs bs (\<lambda>p. p = s) (lex_ident s) (ident_ok bs s)"
  unfolding lex_ident_def
proof (rule runs_bind [where R = "\<lambda>_ p. s < p"])
  show "runs bs (\<lambda>p. p = s) (skip_while (\<lambda>c. is_digit c \<or> is_alpha c \<or> c = 0x5F)) (\<lambda>_ p. s < p)"
    by (rule runs_skip_while) (use assms ascii_class in auto)
  have "ident_ok bs s (case map_of keyword_table x of None \<Rightarrow> TkIdent x | Some t \<Rightarrow> t) p" if "s < p" "x = text_at bs s p" for x p
  proof (cases "map_of keyword_table x")
    case None
    then show ?thesis using that by (simp add: ident_ok_def)
  next
    case (Some t)
    then show ?thesis using that(1) ident_ok_plain [OF keyword_plain [OF Some]] by simp
  qed
  then show "runs bs (\<lambda>p. s < p) (rd_bind (slice_str s) (\<lambda>x. rd_ret (case map_of keyword_table x of None \<Rightarrow> TkIdent x | Some t \<Rightarrow> t))) (ident_ok bs s)"
    by (intro runs_bind [where R = "\<lambda>x p. s < p \<and> x = text_at bs s p"] runs_slice [OF assms(1)] runs_ret) auto
qed

lemma runs_dot: "runs bs (here bs s) (rd_bind advance (\<lambda>_. rd_bind peek (\<lambda>b. if b = Some 0x2E
       then rd_bind advance (\<lambda>_. bump_if 0x3D TkDotDotEq (rd_ret TkDotDot)) else rd_ret TkDot))) (ident_ok bs s)"
proof (rule runs_advance_then, rule runs_peek_bind)
  have two: "runs bs (\<lambda>p. s < p) (bump_if 0x3D TkDotDotEq (rd_ret TkDotDot)) (ident_ok bs s)"
    by (intro runs_bump_if runs_done) (simp_all add: plain_def)
  show "runs bs (\<lambda>p. s < p \<and> p < length bs \<and> bs ! p = c) (if Some c = Some 0x2E
       then rd_bind advance (\<lambda>_. bump_if 0x3D TkDotDotEq (rd_ret TkDotDot)) else rd_ret TkDot) (ident_ok bs s)" for c
    by (rule runs_if) (auto intro!: runs_bind [OF runs_advance two] runs_ret ident_ok_plain simp: plain_def)
qed (auto intro!: runs_ret ident_ok_plain simp: plain_def)

lemma runs_token:
  assumes "at_char bs s" and "s < length bs"
  shows "runs bs (\<lambda>p. p = s) (lex_token T s (bs ! s)) (ident_ok bs s)"
proof -
  have *: "runs bs (\<lambda>p. p = s) f R" if "runs bs (here bs s) f R" "bs ! s < 0x80" for f :: "token lx" and R
    using that assms by (auto intro: runs_conseq)
  have b: "runs bs (\<lambda>p. p = s) (bump t) (ident_ok bs s)" if "plain t" "bs ! s < 0x80" for t
    using that assms by (intro runs_bump) auto
  have three: "runs bs (\<lambda>p. p = s) (rd_bind advance (\<lambda>_. bump_if c t (bump_if d u (rd_ret v)))) (ident_ok bs s)"
    if "plain t" "plain u" "plain v" "c < 0x80" "d < 0x80" "bs ! s < 0x80" for c t d u v
    by (rule *, rule runs_advance_then) (use that in \<open>auto intro!: runs_bump_if runs_done\<close>)
  have two: "runs bs (\<lambda>p. p = s) (two_or_one c t u) (ident_ok bs s)" if "plain t" "plain u" "c < 0x80" "bs ! s < 0x80" for c t u
    using that by (intro * runs_two_or_one)
  show ?thesis unfolding lex_token_def
    by (intro runs_if b three two * [OF runs_dot] * [OF runs_string] runs_int [OF assms] runs_ident [OF assms] run_rules)
       (simp_all add: plain_def)
qed

subsection \<open>The token stream\<close>

lemma runs_skip_blank: "runs bs (\<lambda>p. s \<le> p \<and> length bs - p \<le> n) (skip_blank (Suc n)) (\<lambda>_ q. s \<le> q)"
proof (induction n)
  case 0
  show ?case unfolding skip_blank.simps
    by (rule runs_bind [where R = "\<lambda>_ p. s \<le> p \<and> length bs \<le> p"], rule runs_skip_while, use ascii_class in blast, force, rule runs_peek_bind,
        rule runs_bind [where R = "\<lambda>_ p. s \<le> p"], rule runs_peek_at, simp, simp add: runs_ret, rule runs_vacuous) simp
next
  case (Suc n)
  show ?case unfolding skip_blank.simps(2) [of "Suc n"]
  proof (rule runs_bind [where R = "\<lambda>_ p. s \<le> p \<and> length bs - p \<le> Suc n"])
    show "runs bs (\<lambda>p. s \<le> p \<and> length bs - p \<le> Suc n) (skip_while is_ws) (\<lambda>_ p. s \<le> p \<and> length bs - p \<le> Suc n)"
      by (rule runs_skip_while) (use ascii_class in auto)
    show "runs bs (\<lambda>p. s \<le> p \<and> length bs - p \<le> Suc n) (rd_bind peek (\<lambda>b. rd_bind (peek_byte_at 1) (\<lambda>b1.
        if b = Some 0x2F \<and> b1 = Some 0x2F then rd_bind (skip_while (\<lambda>c. c \<noteq> 0x0A)) (\<lambda>_. skip_blank (Suc n)) else rd_ret ()))) (\<lambda>_ q. s \<le> q)"
    proof (rule runs_peek_bind)
      fix c
      let ?P = "\<lambda>p. (s \<le> p \<and> length bs - p \<le> Suc n) \<and> p < length bs \<and> bs ! p = c"
      have line: "runs bs ?P (rd_bind (skip_while (\<lambda>c. c \<noteq> 0x0A)) (\<lambda>_. skip_blank (Suc n))) (\<lambda>_ q. s \<le> q)" if "c = 0x2F"
        by (rule runs_bind [OF _ Suc.IH], rule runs_skip_line) (use that in force)
      show "runs bs ?P (rd_bind (peek_byte_at 1) (\<lambda>b1.
          if Some c = Some 0x2F \<and> b1 = Some 0x2F then rd_bind (skip_while (\<lambda>c. c \<noteq> 0x0A)) (\<lambda>_. skip_blank (Suc n)) else rd_ret ())) (\<lambda>_ q. s \<le> q)"
        by (rule runs_bind [where R = "\<lambda>_. ?P"], rule runs_peek_at, assumption, rule runs_if, rule line, simp)
           (auto intro: runs_ret)
    qed (auto intro!: runs_bind [where R = "\<lambda>_ p. s \<le> p"] runs_peek_at runs_ret)
  qed
qed

lemma runs_skip: "runs bs (\<lambda>p. s \<le> p) skip_ws_and_comments (\<lambda>_ q. s \<le> q)"
  unfolding skip_ws_and_comments_def [abs_def] by (rule runs_fuel [where F = skip_blank]) (rule runs_skip_blank)

fun stream_ok :: "bytes \<Rightarrow> nat \<Rightarrow> spanned list \<Rightarrow> bool" where
  \<comment> \<open>what is promised of the tokens from a position on\<close>
  "stream_ok bs p [] = False"
| "stream_ok bs p [t] = (sp_token t = TkEof \<and> sp_start (sp_span t) = length bs \<and> sp_end (sp_span t) = length bs \<and> p \<le> length bs)"
| "stream_ok bs p (t # ts) = (p \<le> sp_start (sp_span t) \<and> sp_end (sp_span t) \<le> length bs
     \<and> ident_ok bs (sp_start (sp_span t)) (sp_token t) (sp_end (sp_span t)) \<and> stream_ok bs (sp_end (sp_span t)) ts)"

lemma stream_ok_Cons:
  assumes "stream_ok bs (sp_end (sp_span t)) ts" and "p \<le> sp_start (sp_span t)" and "sp_end (sp_span t) \<le> length bs"
    and "ident_ok bs (sp_start (sp_span t)) (sp_token t) (sp_end (sp_span t))"
  shows "stream_ok bs p (t # ts)"
  using assms by (cases ts) simp_all

definition extends :: "bytes \<Rightarrow> nat \<Rightarrow> spanned list \<Rightarrow> spanned list \<Rightarrow> nat \<Rightarrow> bool" where
  "extends bs s out toks q \<longleftrightarrow> (\<exists>new. toks = out @ new \<and> stream_ok bs s new)"

abbreviation mk_spanned :: "token \<Rightarrow> nat \<Rightarrow> nat \<Rightarrow> spanned" where
  "mk_spanned tok s q \<equiv> \<lparr>sp_token = tok, sp_span = \<lparr>sp_start = s, sp_end = q\<rparr>\<rparr>"

lemma runs_one_token:
  assumes "\<And>q out'. s < q \<Longrightarrow> q \<le> length bs \<Longrightarrow> runs bs (\<lambda>p. p = q) (f out') (extends bs q out')"
    and "s \<le> x" and "at_char bs x" and "x < length bs"
  shows "runs bs (\<lambda>p. p = x) (rd_bind (lex_token T x (bs ! x)) (\<lambda>tok. rd_bind tell (\<lambda>fin. f (out @ [mk_spanned tok x fin])))) (extends bs s out)"
proof (rule runs_bind [OF runs_token [OF assms(3,4)]], rule runs_bind [where R = "\<lambda>fin p. (ident_ok bs x tok fin \<and> fin \<le> length bs) \<and> p = fin" for tok])
  fix tok
  show "runs bs (ident_ok bs x tok) tell (\<lambda>fin p. (ident_ok bs x tok fin \<and> fin \<le> length bs) \<and> p = fin)"
    by (rule runs_tell) (simp add: at_char_def)
  fix fin
  show "runs bs (\<lambda>p. (ident_ok bs x tok fin \<and> fin \<le> length bs) \<and> p = fin) (f (out @ [mk_spanned tok x fin])) (extends bs s out)"
  proof (rule runs_pure)
    assume fin: "ident_ok bs x tok fin \<and> fin \<le> length bs"
    then have lt: "s < fin" using assms(2) by (simp add: ident_ok_def)
    have "extends bs s out toks q" if ext: "extends bs fin (out @ [mk_spanned tok x fin]) toks q" for toks q
    proof -
      obtain new where "toks = out @ mk_spanned tok x fin # new" "stream_ok bs fin new" using ext unfolding extends_def by auto
      moreover from this have "stream_ok bs s (mk_spanned tok x fin # new)" using fin assms(2) by (intro stream_ok_Cons) simp_all
      ultimately show ?thesis unfolding extends_def by blast
    qed
    then show "runs bs (\<lambda>p. p = fin) (f (out @ [mk_spanned tok x fin])) (extends bs s out)"
      using assms(1) [OF lt] fin by (auto intro: runs_conseq)
  qed
qed

lemma runs_token_step:
  assumes "\<And>q out'. s < q \<Longrightarrow> q \<le> length bs \<Longrightarrow> runs bs (\<lambda>p. p = q) (f out') (extends bs q out')"
  shows "runs bs (\<lambda>p. p = s) (rd_bind skip_ws_and_comments (\<lambda>_. rd_bind tell (\<lambda>start. rd_bind peek (\<lambda>b. case b of
       None \<Rightarrow> rd_ret (out @ [mk_spanned TkEof start start])
     | Some c \<Rightarrow> rd_bind (lex_token T start c) (\<lambda>tok. rd_bind tell (\<lambda>fin. f (out @ [mk_spanned tok start fin]))))))) (extends bs s out)"
proof (rule runs_bind [where R = "\<lambda>_ p. s \<le> p"], rule runs_conseq [OF runs_skip [where s = s]], simp, assumption,
    rule runs_bind [where R = "\<lambda>x p. (at_char bs x \<and> s \<le> x) \<and> p = x"], rule runs_tell, simp, rule runs_pure, rule runs_peek_bind)
  fix x assume x: "at_char bs x \<and> s \<le> x"
  show "runs bs (\<lambda>p. p = x \<and> p = length bs) (case None of None \<Rightarrow> rd_ret (out @ [mk_spanned TkEof x x])
     | Some c \<Rightarrow> rd_bind (lex_token T x c) (\<lambda>tok. rd_bind tell (\<lambda>fin. f (out @ [mk_spanned tok x fin])))) (extends bs s out)"
    using x by (auto intro!: runs_ret simp: extends_def)
  fix c
  have "runs bs (\<lambda>p. (x < length bs \<and> bs ! x = c) \<and> p = x) (rd_bind (lex_token T x c) (\<lambda>tok. rd_bind tell (\<lambda>fin. f (out @ [mk_spanned tok x fin])))) (extends bs s out)"
    using runs_one_token [OF assms] x by (intro runs_pure) auto
  then show "runs bs (\<lambda>p. p = x \<and> p < length bs \<and> bs ! p = c) (case Some c of None \<Rightarrow> rd_ret (out @ [mk_spanned TkEof x x])
     | Some c \<Rightarrow> rd_bind (lex_token T x c) (\<lambda>tok. rd_bind tell (\<lambda>fin. f (out @ [mk_spanned tok x fin])))) (extends bs s out)"
    by (simp add: runs_conseq)
qed

lemma runs_token_loop: "length bs - s \<le> n \<Longrightarrow> runs bs (\<lambda>p. p = s) (token_loop (Suc n) T out) (extends bs s out)"
proof (induction n arbitrary: s out)
  case 0
  then show ?case unfolding token_loop.simps(2) by (intro runs_token_step) simp
next
  case (Suc n)
  then show ?case unfolding token_loop.simps(2) [of "Suc n"] by (intro runs_token_step) simp
qed

text \<open>C29 (invariant): the lexer terminates without a panic on every source text, and the tokens it returns
  tile it: their spans are non-empty, in source order and inside the text, every identifier is exactly
  the text it spans, and the list ends with one end-of-file token at the end of the text. Every token
  consumes at least one byte, and the cursor never rests inside a character.\<close>

theorem tokenize_stream:
  assumes "utf8_valid src"
  shows "(\<exists>e. tokenize T src = Some (Inl e)) \<or> (\<exists>toks. tokenize T src = Some (Inr toks) \<and> stream_ok src 0 toks)"
proof -
  have "at_char src 0" using assms by (simp add: at_char_def)
  from runs_token_loop [of src 0 "length src" T "[]", unfolded runs_def, simplified, rule_format, OF this]
  show ?thesis by (auto simp: tokenize_def reader_new_def extends_def)
qed

theorem tokenize_stream_witness:
  "(\<exists>e. tokenize decimal_lib (as_bytes ''let x = 1;'') = Some (Inl e)) \<or>
   (\<exists>toks. tokenize decimal_lib (as_bytes ''let x = 1;'') = Some (Inr toks) \<and> stream_ok (as_bytes ''let x = 1;'') 0 toks)"
  by (rule tokenize_stream) code_simp

end
