(* ===== verification/VmState.thy ===== *)
theory VmState
  imports PMap PVec PBTree Ops
begin

section \<open>The virtual machine: state, registers and helpers\<close>

text \<open>
  \<^verbatim>\<open>crates/rend/src/host.rs\<close> and the parts of \<^verbatim>\<open>crates/rend/src/vm.rs\<close> below its dispatch loop: the state of a run,
  access to registers, constants and state slots, map cells, tree cursors and the conformance check
  of interfaces.

  A step of the machine is a function on the state \<open>vm\<close>: the remaining fuel (a \<^verbatim>\<open>u64\<close> that is only
  decremented, so a natural number), the transaction, the skip flag of a parallel leg and the
  registers of the current frame. Its outcome is a value or a runtime error, each with the state, or
  a panic: an index outside a table of a malformed module, \<^verbatim>\<open>unreachable!\<close>, or a panic inside the
  transaction, where the tree walks of the collections are also bounded by \<open>tree_fuel\<close>. The fourth
  outcome, \<open>VDeep\<close>, is not one of the program: it marks that the recursion measure of the model ran out.
  16-bit register arithmetic and the \<^verbatim>\<open>u64\<close> counter of \<^verbatim>\<open>reserve\<close> wrap, as in a release build.
\<close>

subsection \<open>Host functions\<close>

record host_error =
  he_code :: u32
  he_msg :: string

type_synonym host = "(string, val list \<Rightarrow> host_error + val) hashmap"

definition host_bind :: "string \<Rightarrow> (val list \<Rightarrow> host_error + val) \<Rightarrow> host \<Rightarrow> host" where
  "host_bind name f h = hm_insert name f h"

definition host_has :: "host \<Rightarrow> string \<Rightarrow> bool" where
  "host_has h name \<longleftrightarrow> hm_get h name \<noteq> None"

definition host_call :: "host \<Rightarrow> string \<Rightarrow> val list \<Rightarrow> host_error + val" where
  "host_call h name args = (case hm_get h name of
     None \<Rightarrow> Inl \<lparr>he_code = 0, he_msg = ''no host impl bound for '' @ name\<rparr>
   | Some f \<Rightarrow> f args)"

subsection \<open>State and outcomes\<close>

datatype vm_error =
    OutOfFuel | PcOutOfBounds | UnknownFunction string | UnknownModule string | NotEntry string string
  | ArgCount nat nat | Reentry string | ConstNotString | InterfaceTarget | InterfaceUnknown string
  | InterfaceModule string | Nonconforming string | NotInterface | UnboundInterface
  | HostFailed string host_error | OpFailed op_error | NodeFailed err
  | ResourceRange | ResourceExpected | AddressExpected | LenExpected | ArrayLength | ReserveCount | ReserveState
  | NoField string | NotStruct | NotArray | ArrayIndexTypes | ArrayBounds int nat
  | NotEnum | UnknownEnum string | UnknownVariant string | PayloadBounds nat nat
  | NotTuple | TupleBounds nat nat | ContextKind nat | EmitExpected
  | ParallelSource | ParallelOutput | ParallelLength nat nat
  | KeyNotKeyable | VecIndexRange | VecIndexType | UniqueViolation | NotCursor

record venv =
  ve_lib :: bigint_lib
  ve_float :: float_lib
  ve_text :: text_lib
  ve_host :: host
  ve_modules :: "bc_module list"
  tree_fuel :: nat

record vm =
  vm_fuel :: nat
  vm_tx :: tx
  parallel_skip :: bool
  regs :: "val list"

datatype 'a outcome = VOk 'a vm | VErr vm_error vm | VPanic | VDeep

type_synonym 'a vmm = "vm \<Rightarrow> 'a outcome"

definition vm_ret :: "'a \<Rightarrow> 'a vmm" where "vm_ret x s = VOk x s"
definition vm_err :: "vm_error \<Rightarrow> 'a vmm" where "vm_err e s = VErr e s"
definition vm_panic :: "'a vmm" where "vm_panic s = VPanic"
definition vm_deep :: "'a vmm" where "vm_deep s = VDeep"

definition vm_bind :: "'a vmm \<Rightarrow> ('a \<Rightarrow> 'b vmm) \<Rightarrow> 'b vmm" where
  "vm_bind f k s = (case f s of VOk x s' \<Rightarrow> k x s' | VErr e s' \<Rightarrow> VErr e s' | VPanic \<Rightarrow> VPanic | VDeep \<Rightarrow> VDeep)"

primrec vm_map :: "('a \<Rightarrow> 'b vmm) \<Rightarrow> 'a list \<Rightarrow> 'b list vmm" where
  "vm_map f [] = vm_ret []"
| "vm_map f (x # xs) = vm_bind (f x) (\<lambda>y. vm_bind (vm_map f xs) (\<lambda>ys. vm_ret (y # ys)))"

definition vm_index :: "'a list \<Rightarrow> nat \<Rightarrow> 'a vmm" where
  \<comment> \<open>\<^verbatim>\<open>xs[i]\<close>\<close>
  "vm_index xs i = (if i < length xs then vm_ret (xs ! i) else vm_panic)"

definition vm_opt :: "vm_error \<Rightarrow> 'a option \<Rightarrow> 'a vmm" where
  \<comment> \<open>\<^verbatim>\<open>ok_or_else(..)?\<close>\<close>
  "vm_opt e v = (case v of None \<Rightarrow> vm_err e | Some x \<Rightarrow> vm_ret x)"

definition vm_op :: "op_error + 'a \<Rightarrow> 'a vmm" where
  "vm_op v = (case v of Inl e \<Rightarrow> vm_err (OpFailed e) | Inr x \<Rightarrow> vm_ret x)"

definition in_tx :: "(tx \<Rightarrow> ('a \<times> tx) option) \<Rightarrow> 'a vmm" where
  "in_tx f s = (case f (vm_tx s) of None \<Rightarrow> VPanic | Some (x, t) \<Rightarrow> VOk x (s\<lparr>vm_tx := t\<rparr>))"

definition to_tx :: "(tx \<Rightarrow> tx option) \<Rightarrow> unit vmm" where
  "to_tx f s = (case f (vm_tx s) of None \<Rightarrow> VPanic | Some t \<Rightarrow> VOk () (s\<lparr>vm_tx := t\<rparr>))"

definition res_tx :: "(tx \<Rightarrow> 'a res) \<Rightarrow> 'a vmm" where
  "res_tx f s = (case f (vm_tx s) of None \<Rightarrow> VPanic
     | Some (Inl e, t) \<Rightarrow> VErr (NodeFailed e) (s\<lparr>vm_tx := t\<rparr>)
     | Some (Inr x, t) \<Rightarrow> VOk x (s\<lparr>vm_tx := t\<rparr>))"

definition tick :: "unit vmm" where
  "tick s = (if vm_fuel s = 0 then VErr OutOfFuel s else VOk () (s\<lparr>vm_fuel := vm_fuel s - 1\<rparr>))"

subsection \<open>Registers and constants\<close>

definition get_reg :: "u16 \<Rightarrow> val vmm" where
  "get_reg r s = vm_index (regs s) (unat r) s"

definition set_reg :: "u16 \<Rightarrow> val \<Rightarrow> unit vmm" where
  "set_reg r v s = (if unat r < length (regs s) then VOk () (s\<lparr>regs := (regs s)[unat r := v]\<rparr>) else VPanic)"

definition vm_force :: "venv \<Rightarrow> val \<Rightarrow> val vmm" where
  "vm_force E v = in_tx (\<lambda>t. force (ve_lib E) t v)"

definition force_reg :: "venv \<Rightarrow> u16 \<Rightarrow> val vmm" where
  "force_reg E r = vm_bind (get_reg r) (\<lambda>x. vm_bind (vm_force E x) (\<lambda>v. vm_bind (set_reg r v) (\<lambda>_. vm_ret v)))"

definition force_reg_spine :: "venv \<Rightarrow> u16 \<Rightarrow> val vmm" where
  "force_reg_spine E r = vm_bind (get_reg r) (\<lambda>x. vm_bind (in_tx (\<lambda>t. force_spine (ve_lib E) t x)) (\<lambda>v.
     vm_bind (set_reg r v) (\<lambda>_. vm_ret v)))"

definition arg_regs :: "u16 \<Rightarrow> nat \<Rightarrow> u16 list" where
  "arg_regs start n = map (\<lambda>i. start + of_nat i) [0..<n]"

definition const_value :: "const \<Rightarrow> val" where
  "const_value c = (case c of CInt n \<Rightarrow> VInt n | CUInt n \<Rightarrow> VUInt n | CFloat n \<Rightarrow> VFloat n | CI32 n \<Rightarrow> VI32 n
     | CU32 n \<Rightarrow> VU32 n | CU64 n \<Rightarrow> VU64 n | CU128 n \<Rightarrow> VU128 n | CBool b \<Rightarrow> VBool b | CStr s \<Rightarrow> VStr s)"

definition const_str :: "bc_fn \<Rightarrow> u16 \<Rightarrow> string vmm" where
  \<comment> \<open>a constant that names a module, function, field or builtin\<close>
  "const_str f i = vm_bind (vm_index (consts_of f) (unat i)) (\<lambda>c. case c of CStr s \<Rightarrow> vm_ret s | _ \<Rightarrow> vm_err ConstNotString)"

definition jump :: "nat \<Rightarrow> i32 \<Rightarrow> nat" where
  \<comment> \<open>\<^verbatim>\<open>((pc as i64) + offset as i64) as usize\<close>\<close>
  "jump pc offset = nat ((int pc + sint offset) mod 2 ^ 64)"

definition walk_jump :: "nat \<Rightarrow> i32 \<Rightarrow> nat" where
  \<comment> \<open>\<^verbatim>\<open>(pc as i32 + end_offset) as usize\<close>\<close>
  "walk_jump pc offset = nat (sint (of_nat pc + offset :: i32) mod 2 ^ 64)"

subsection \<open>Map cells and counts\<close>

fun is_keyable_value :: "val \<Rightarrow> bool" where
  "is_keyable_value (VInt _) = True" | "is_keyable_value (VI32 _) = True" | "is_keyable_value (VU32 _) = True"
| "is_keyable_value (VU64 _) = True" | "is_keyable_value (VU128 _) = True" | "is_keyable_value (VBool _) = True"
| "is_keyable_value (VStr _) = True" | "is_keyable_value (VAddress _) = True" | "is_keyable_value (VBytes _) = True"
| "is_keyable_value (VArray elems) = list_all is_keyable_value elems"
| "is_keyable_value (VStruct _ fs) = list_all (\<lambda>e. is_keyable_value (snd e)) fs"
| "is_keyable_value (VEnum _ _ payload) = list_all is_keyable_value payload"
| "is_keyable_value _ = False"

definition compose_map_cell :: "venv \<Rightarrow> u128 \<Rightarrow> val \<Rightarrow> u128 vmm" where
  "compose_map_cell E root key = (if \<not> is_keyable_value key then vm_err KeyNotKeyable
     else (case serialize (ve_lib E) key of None \<Rightarrow> vm_panic | Some b \<Rightarrow> vm_ret (child root b)))"

definition value_to_u64_arr :: "val \<Rightarrow> nat option" where
  "value_to_u64_arr v = (case v of VU64 n \<Rightarrow> Some (unat n) | VU32 n \<Rightarrow> Some (unat n)
     | VI32 n \<Rightarrow> if 0 \<le> sint n then Some (nat (sint n)) else None
     | VU128 n \<Rightarrow> if unat n < 2 ^ 64 then Some (unat n) else None
     | VInt n \<Rightarrow> if 0 \<le> n \<and> n < 2 ^ 64 then Some (nat n) else None
     | VUInt n \<Rightarrow> if 0 \<le> n \<and> n < 2 ^ 64 then Some (nat n) else None
     | _ \<Rightarrow> None)"

definition value_to_usize_arr :: "val \<Rightarrow> nat option" where
  "value_to_usize_arr v = value_to_u64_arr v"

subsection \<open>State slots\<close>

definition state_root_at :: "bc_module \<Rightarrow> u16 \<Rightarrow> u128 vmm" where
  "state_root_at m i = vm_index (state_roots m) (unat i)"

definition state_type_at :: "bc_module \<Rightarrow> u16 \<Rightarrow> ty vmm" where
  "state_type_at m i = vm_index (state_types m) (unat i)"

definition vm_write :: "venv \<Rightarrow> u128 \<Rightarrow> val \<Rightarrow> unit vmm" where
  "vm_write E cell v = to_tx (\<lambda>t. tx_write (ve_lib E) t cell v)"

definition read_forced :: "venv \<Rightarrow> u128 \<Rightarrow> ty \<Rightarrow> val vmm" where
  \<comment> \<open>\<^verbatim>\<open>read_cell\<close> followed by \<^verbatim>\<open>force\<close>\<close>
  "read_forced E cell t = vm_bind (in_tx (\<lambda>x. read_cell (ve_lib E) x cell t)) (vm_force E)"

definition pmap_slot :: "bc_module \<Rightarrow> u16 \<Rightarrow> (u128 \<times> ty \<times> ty) vmm" where
  "pmap_slot m i = vm_bind (state_root_at m i) (\<lambda>c. vm_bind (state_type_at m i) (\<lambda>t.
     case t of TPMap kt vt \<Rightarrow> vm_ret (c, kt, vt) | _ \<Rightarrow> vm_panic))"

definition pmap_root :: "venv \<Rightarrow> u128 \<Rightarrow> ty \<Rightarrow> ty \<Rightarrow> u128 vmm" where
  "pmap_root E cell kt vt = vm_bind (read_forced E cell (TPMap kt vt)) (\<lambda>v.
     vm_ret (case v of VPMap h \<Rightarrow> h | _ \<Rightarrow> EMPTY))"

definition pbtree_slot :: "bc_module \<Rightarrow> u16 \<Rightarrow> (u128 \<times> ty \<times> ty) vmm" where
  "pbtree_slot m i = vm_bind (state_root_at m i) (\<lambda>c. vm_bind (state_type_at m i) (\<lambda>t.
     case t of TPBTree kt vt \<Rightarrow> vm_ret (c, kt, vt) | _ \<Rightarrow> vm_panic))"

definition pbtree_root :: "venv \<Rightarrow> u128 \<Rightarrow> ty \<Rightarrow> ty \<Rightarrow> u128 vmm" where
  "pbtree_root E cell kt vt = vm_bind (read_forced E cell (TPBTree kt vt)) (\<lambda>v.
     vm_ret (case v of VPBTree h \<Rightarrow> h | _ \<Rightarrow> EMPTY))"

definition pvec_slot :: "bc_module \<Rightarrow> u16 \<Rightarrow> (u128 \<times> ty) vmm" where
  "pvec_slot m i = vm_bind (state_root_at m i) (\<lambda>c. vm_bind (state_type_at m i) (\<lambda>t.
     case t of TPVec et \<Rightarrow> vm_ret (c, et) | _ \<Rightarrow> vm_panic))"

definition pvec_root :: "venv \<Rightarrow> u128 \<Rightarrow> ty \<Rightarrow> (u64 \<times> u128) vmm" where
  "pvec_root E cell t = vm_bind (read_forced E cell t) (\<lambda>v.
     vm_ret (case v of VPVec len root \<Rightarrow> (len, root) | _ \<Rightarrow> (0, EMPTY)))"

subsection \<open>Cursors\<close>

partial_function (option) pmap_walk_advance :: "bigint_lib \<Rightarrow> ty \<Rightarrow> ty \<Rightarrow> (u128 \<times> nat) list \<Rightarrow> (val \<times> val) list \<Rightarrow> tx
    \<Rightarrow> (((u128 \<times> nat) list \<times> (val \<times> val) list \<times> (val \<times> val) option) \<times> tx) option" where
  \<comment> \<open>a stack grows at the end of the list, as \<^verbatim>\<open>Vec::push\<close> and \<^verbatim>\<open>Vec::pop\<close> do\<close>
  "pmap_walk_advance L kt vt stack pend t =
     (if pend \<noteq> [] then Some ((stack, butlast pend, Some (last pend)), t)
      else if stack = [] then Some (([], [], None), t)
      else (case pm_read_node L kt vt t (fst (last stack)) of
         None \<Rightarrow> None
       | Some (None, t') \<Rightarrow> pmap_walk_advance L kt vt (butlast stack) [] t'
       | Some (Some (PLeaf entries), t') \<Rightarrow> pmap_walk_advance L kt vt (butlast stack) (rev entries) t'
       | Some (Some (PInner bm children), t') \<Rightarrow>
           (if snd (last stack) < length children
            then pmap_walk_advance L kt vt (butlast stack @ [(fst (last stack), snd (last stack) + 1), (children ! snd (last stack), 0)]) [] t'
            else pmap_walk_advance L kt vt (butlast stack) [] t')))"

definition pbtree_walk_advance_stable :: "venv \<Rightarrow> u128 \<Rightarrow> val option \<Rightarrow> ty \<Rightarrow> ty \<Rightarrow> (val option \<times> (val \<times> val) option) vmm" where
  \<comment> \<open>the new \<^verbatim>\<open>last_yielded\<close> and the entry\<close>
  "pbtree_walk_advance_stable E cell prev kt vt = vm_bind (read_forced E cell (TPBTree kt vt)) (\<lambda>v. case v of
     VPBTree h \<Rightarrow> vm_bind (in_tx (\<lambda>t. bt_first_greater_than (tree_fuel E) (ve_lib E) kt vt t h prev)) (\<lambda>nxt.
       vm_ret (case nxt of None \<Rightarrow> (prev, None) | Some (k, w) \<Rightarrow> (Some k, Some (k, w))))
   | _ \<Rightarrow> vm_ret (prev, None))"

definition pmap_walk_entries :: "venv \<Rightarrow> bc_module \<Rightarrow> u16 \<Rightarrow> (val \<times> val) list vmm" where
  "pmap_walk_entries E m i = vm_bind (pmap_slot m i) (\<lambda>(cell, kt, vt). vm_bind (pmap_root E cell kt vt) (\<lambda>h.
     in_tx (\<lambda>t. pm_entries (tree_fuel E) (ve_lib E) kt vt t h)))"

subsection \<open>Interface conformance\<close>

primrec check_params :: "ty list \<Rightarrow> nat \<Rightarrow> (string \<times> ty) list \<Rightarrow> bool vmm" where
  "check_params got i [] = vm_ret True"
| "check_params got i (w # ws) = vm_bind (vm_index got i) (\<lambda>g. if g \<noteq> snd w then vm_ret False else check_params got (Suc i) ws)"

definition check_method :: "iface_method \<Rightarrow> bc_module \<Rightarrow> bool vmm" where
  \<comment> \<open>whether the module implements the method: the loop body of \<^verbatim>\<open>check_iface_conformance\<close>\<close>
  "check_method d target = (case hm_get (fn_index target) (im_name d) of
     None \<Rightarrow> vm_ret False
   | Some i \<Rightarrow> vm_bind (vm_index (functions_of target) i) (\<lambda>f.
      if \<not> is_entry f then vm_ret False
      else if unat (n_params f) \<noteq> length (im_params d) then vm_ret False
      else vm_bind (check_params (param_types f) 0 (im_params d)) (\<lambda>ok.
        vm_ret (ok \<and> return_type f = im_return_type d
          \<and> (im_is_pure d \<longrightarrow> fn_is_pure f) \<and> (im_is_view d \<longrightarrow> fn_is_view f \<or> fn_is_pure f)))))"

primrec check_methods :: "iface_method list \<Rightarrow> bc_module \<Rightarrow> string option vmm" where
  "check_methods [] target = vm_ret None"
| "check_methods (d # ds) target = vm_bind (check_method d target) (\<lambda>ok.
     if ok then check_methods ds target else vm_ret (Some (im_name d)))"

definition check_iface_conformance :: "iface_decl \<Rightarrow> bc_module \<Rightarrow> string option vmm" where
  \<comment> \<open>the name of the first method that does not conform\<close>
  "check_iface_conformance d target = check_methods (id_methods d) target"

primrec find_interface :: "bc_module list \<Rightarrow> string \<Rightarrow> iface_decl vmm" where
  "find_interface [] nm = vm_err (InterfaceUnknown nm)"
| "find_interface (m # ms) nm = (case hm_get (interface_index m) nm of
     None \<Rightarrow> find_interface ms nm | Some i \<Rightarrow> vm_index (interfaces_of m) i)"

end
