(* ===== verification/VmInstr.thy ===== *)
theory VmInstr
  imports VmState
begin

section \<open>The virtual machine: instructions\<close>

text \<open>
  The arms of the dispatch loop of \<^verbatim>\<open>call_body_at\<close> in \<^verbatim>\<open>crates/rend/src/vm.rs\<close> that neither call a function nor fork: one
  definition per instruction or per family of instructions, in the order of the source. \<open>E\<close> is the
  environment of the run, \<open>m\<close> the current module, \<open>f\<close> the current function. The instructions on the
  persistent collections that change a list or a unique entry come in the same form for \<^verbatim>\<open>pmap\<close> and
  \<^verbatim>\<open>pbtree\<close>; they share the definitions that take the collection's operations as a record (\<open>coll\<close>).
\<close>

subsection \<open>Values\<close>

definition i_load_const :: "bc_fn \<Rightarrow> u16 \<Rightarrow> u16 \<Rightarrow> unit vmm" where
  "i_load_const f dst idx = vm_bind (vm_index (consts_of f) (unat idx)) (\<lambda>c. set_reg dst (const_value c))"

definition i_convert :: "venv \<Rightarrow> u16 \<Rightarrow> u16 \<Rightarrow> u8 \<Rightarrow> unit vmm" where
  "i_convert E dst src target = vm_bind (force_reg E src) (\<lambda>v. vm_bind (vm_op (convert v (unat target))) (set_reg dst))"

definition i_move :: "u16 \<Rightarrow> u16 \<Rightarrow> unit vmm" where
  "i_move dst src = vm_bind (get_reg src) (set_reg dst)"

definition i_bin :: "venv \<Rightarrow> binop \<Rightarrow> u16 \<Rightarrow> u16 \<Rightarrow> u16 \<Rightarrow> unit vmm" where
  "i_bin E bop dst lhs rhs = vm_bind (force_reg E lhs) (\<lambda>l. vm_bind (force_reg E rhs) (\<lambda>r.
     vm_bind (vm_op (eval_binary (ve_float E) bop l r)) (set_reg dst)))"

definition i_un :: "venv \<Rightarrow> unop \<Rightarrow> u16 \<Rightarrow> u16 \<Rightarrow> unit vmm" where
  "i_un E uop dst src = vm_bind (force_reg E src) (\<lambda>v. vm_bind (vm_op (eval_unary uop v)) (set_reg dst))"

definition i_inc_reg :: "venv \<Rightarrow> u16 \<Rightarrow> unit vmm" where
  "i_inc_reg E r = vm_bind (force_reg E r) (\<lambda>v. vm_bind (vm_op (inc (ve_float E) v)) (set_reg r))"

definition i_make_interface :: "venv \<Rightarrow> bc_fn \<Rightarrow> u16 \<Rightarrow> u16 \<Rightarrow> u16 \<Rightarrow> unit vmm" where
  "i_make_interface E f dst name_idx target_reg = vm_bind (const_str f name_idx) (\<lambda>iface.
     vm_bind (force_reg E target_reg) (\<lambda>tv. case tv of
       VStr target \<Rightarrow> vm_bind (find_interface (ve_modules E) iface) (\<lambda>decl.
         vm_bind (vm_opt (InterfaceModule target) (find (\<lambda>m. mod_name m = target) (ve_modules E))) (\<lambda>tm.
         vm_bind (check_iface_conformance decl tm) (\<lambda>bad. case bad of
           Some nm \<Rightarrow> vm_err (Nonconforming nm)
         | None \<Rightarrow> set_reg dst (VInterface iface target))))
     | _ \<Rightarrow> vm_err InterfaceTarget))"

definition i_call_host :: "venv \<Rightarrow> bc_module \<Rightarrow> u16 \<Rightarrow> u16 \<Rightarrow> u16 \<Rightarrow> u8 \<Rightarrow> unit vmm" where
  "i_call_host E m dst import_idx args_start n_args = vm_bind (vm_map (force_reg E) (arg_regs args_start (unat n_args))) (\<lambda>args.
     vm_bind (vm_index (imports_of m) (unat import_idx)) (\<lambda>name.
       case host_call (ve_host E) name args of Inl e \<Rightarrow> vm_err (HostFailed name e) | Inr v \<Rightarrow> set_reg dst v))"

definition i_resource :: "venv \<Rightarrow> u16 \<Rightarrow> u16 \<Rightarrow> unit vmm" where
  "i_resource E dst src = vm_bind (force_reg E src) (\<lambda>v. case v of
     VInt n \<Rightarrow> (if - (2 ^ 63) \<le> n \<and> n < 2 ^ 63 then set_reg dst (VResource (word_of_int n)) else vm_err ResourceRange)
   | _ \<Rightarrow> vm_err ResourceExpected)"

definition i_unwrap :: "venv \<Rightarrow> u16 \<Rightarrow> u16 \<Rightarrow> unit vmm" where
  "i_unwrap E dst src = vm_bind (force_reg E src) (\<lambda>v. case v of
     VResource n \<Rightarrow> set_reg dst (VInt (sint n)) | _ \<Rightarrow> vm_err ResourceExpected)"

definition i_address :: "venv \<Rightarrow> u16 \<Rightarrow> u16 \<Rightarrow> unit vmm" where
  "i_address E dst src = vm_bind (force_reg E src) (\<lambda>v. case v of
     VStr s \<Rightarrow> set_reg dst (VAddress s) | _ \<Rightarrow> vm_err AddressExpected)"

definition i_len :: "venv \<Rightarrow> u16 \<Rightarrow> u16 \<Rightarrow> unit vmm" where
  "i_len E dst src = vm_bind (force_reg_spine E src) (\<lambda>v. case v of
     VArray elems \<Rightarrow> set_reg dst (VInt (int (length elems)))
   | VStr s \<Rightarrow> set_reg dst (VInt (int (length (as_bytes s))))
   | VSet elems \<Rightarrow> set_reg dst (VInt (int (length elems)))
   | VDict pairs \<Rightarrow> set_reg dst (VInt (int (length pairs)))
   | _ \<Rightarrow> vm_err LenExpected)"

definition i_context :: "u16 \<Rightarrow> u8 \<Rightarrow> unit vmm" where
  "i_context dst kind s = (let c = tx_context (vm_tx s) in
     (if kind = 0 then set_reg dst (sender c) else if kind = 1 then set_reg dst (VU64 (block_timestamp c))
      else if kind = 2 then set_reg dst (VU64 (block_number c)) else vm_err (ContextKind (unat kind))) s)"

subsection \<open>Aggregates\<close>

definition i_make_array :: "u16 \<Rightarrow> u16 \<Rightarrow> u16 \<Rightarrow> unit vmm" where
  "i_make_array dst args_start n = vm_bind (vm_map get_reg (arg_regs args_start (unat n))) (\<lambda>vs. set_reg dst (VArray vs))"

definition i_make_tuple :: "u16 \<Rightarrow> u16 \<Rightarrow> u16 \<Rightarrow> unit vmm" where
  "i_make_tuple dst args_start n = vm_bind (vm_map get_reg (arg_regs args_start (unat n))) (\<lambda>vs. set_reg dst (VTuple vs))"

definition i_array_alloc :: "venv \<Rightarrow> u16 \<Rightarrow> u16 \<Rightarrow> u16 \<Rightarrow> unit vmm" where
  "i_array_alloc E dst len_reg default_reg = vm_bind (force_reg E len_reg) (\<lambda>lv.
     vm_bind (vm_opt ArrayLength (value_to_usize_arr lv)) (\<lambda>n.
     vm_bind (force_reg E default_reg) (\<lambda>d. set_reg dst (VArray (replicate n d)))))"

definition i_reserve :: "venv \<Rightarrow> bc_module \<Rightarrow> u16 \<Rightarrow> u16 \<Rightarrow> u16 \<Rightarrow> unit vmm" where
  "i_reserve E m dst state_idx count_reg = vm_bind (force_reg E count_reg) (\<lambda>cv.
     vm_bind (vm_opt ReserveCount (value_to_u64_arr cv)) (\<lambda>n. vm_bind (state_root_at m state_idx) (\<lambda>root.
     vm_bind (in_tx (\<lambda>t. read_typed_many (ve_lib E) t [(root, TU64)])) (\<lambda>vs. vm_bind (vm_index vs 0) (\<lambda>pv. case pv of
       VU64 prev \<Rightarrow> vm_bind (to_tx (\<lambda>t. write_typed (ve_lib E) t root TU64 (VU64 (prev + of_nat n)))) (\<lambda>_.
         set_reg dst (VArray (map (\<lambda>i. VU64 (prev + of_nat i + 1)) [0..<n])))
     | _ \<Rightarrow> vm_err ReserveState)))))"

definition i_make_struct :: "bc_module \<Rightarrow> u16 \<Rightarrow> u16 \<Rightarrow> u16 \<Rightarrow> u16 \<Rightarrow> unit vmm" where
  "i_make_struct m dst shape_idx args_start n = vm_bind (vm_index (struct_shapes m) (unat shape_idx)) (\<lambda>shape.
     vm_bind (vm_map (\<lambda>i. vm_bind (vm_index (field_names shape) i) (\<lambda>nm.
         vm_bind (get_reg (args_start + of_nat i)) (\<lambda>v. vm_ret (nm, v)))) [0..<unat n]) (\<lambda>fs.
     set_reg dst (VStruct (ss_name shape) fs)))"

definition i_field_get :: "venv \<Rightarrow> bc_fn \<Rightarrow> u16 \<Rightarrow> u16 \<Rightarrow> u16 \<Rightarrow> unit vmm" where
  "i_field_get E f dst src name_idx = vm_bind (const_str f name_idx) (\<lambda>nm. vm_bind (force_reg_spine E src) (\<lambda>v. case v of
     VStruct _ fs \<Rightarrow> vm_bind (vm_opt (NoField nm) (find (\<lambda>e. fst e = nm) fs)) (\<lambda>e. set_reg dst (snd e))
   | _ \<Rightarrow> vm_err NotStruct))"

primrec field_assign :: "string \<Rightarrow> val \<Rightarrow> (string \<times> val) list \<Rightarrow> (string \<times> val) list option" where
  "field_assign nm v [] = None"
| "field_assign nm v (e # es) = (if fst e = nm then Some ((fst e, v) # es) else map_option (Cons e) (field_assign nm v es))"

definition i_field_set :: "venv \<Rightarrow> bc_fn \<Rightarrow> u16 \<Rightarrow> u16 \<Rightarrow> u16 \<Rightarrow> unit vmm" where
  "i_field_set E f dst name_idx src = vm_bind (const_str f name_idx) (\<lambda>nm. vm_bind (get_reg src) (\<lambda>new_val.
     vm_bind (force_reg_spine E dst) (\<lambda>v. case v of
       VStruct sn fs \<Rightarrow> vm_bind (vm_opt (NoField nm) (field_assign nm new_val fs)) (\<lambda>fs'. set_reg dst (VStruct sn fs'))
     | _ \<Rightarrow> vm_err NotStruct)))"

definition i_make_set :: "venv \<Rightarrow> u16 \<Rightarrow> u16 \<Rightarrow> u16 \<Rightarrow> unit vmm" where
  "i_make_set E dst args_start n = vm_bind (vm_map (force_reg E) (arg_regs args_start (unat n))) (\<lambda>vs.
     set_reg dst (VSet (foldl (\<lambda>elems v. if list_ex (\<lambda>x. value_eq x v) elems then elems else elems @ [v]) [] vs)))"

definition i_make_dict :: "venv \<Rightarrow> u16 \<Rightarrow> u16 \<Rightarrow> u16 \<Rightarrow> unit vmm" where
  "i_make_dict E dst args_start n_pairs = vm_bind (vm_map (\<lambda>i. vm_bind (force_reg E (args_start + of_nat i * 2)) (\<lambda>k.
       vm_bind (get_reg (args_start + of_nat i * 2 + 1)) (\<lambda>v. vm_ret (k, v)))) [0..<unat n_pairs]) (\<lambda>kvs.
     set_reg dst (VDict (foldl (\<lambda>d e. dict_assign (fst e) (snd e) d) [] kvs)))"

definition i_builtin_call :: "venv \<Rightarrow> bc_fn \<Rightarrow> u16 \<Rightarrow> u16 \<Rightarrow> u16 \<Rightarrow> u8 \<Rightarrow> unit vmm" where
  "i_builtin_call E f dst name_idx args_start n_args = vm_bind (const_str f name_idx) (\<lambda>nm.
     vm_bind (vm_map (force_reg E) (arg_regs args_start (unat n_args))) (\<lambda>args.
     vm_bind (vm_op (call_builtin (ve_float E) (ve_text E) nm args)) (set_reg dst)))"

definition i_array_append :: "venv \<Rightarrow> u16 \<Rightarrow> u16 \<Rightarrow> u16 \<Rightarrow> unit vmm" where
  "i_array_append E dst arr elem = vm_bind (force_reg_spine E arr) (\<lambda>av. case av of
     VArray vs \<Rightarrow> vm_bind (get_reg elem) (\<lambda>v. set_reg dst (VArray (vs @ [v])))
   | _ \<Rightarrow> vm_err NotArray)"

definition i_array_get :: "venv \<Rightarrow> u16 \<Rightarrow> u16 \<Rightarrow> u16 \<Rightarrow> unit vmm" where
  "i_array_get E dst arr idx = vm_bind (force_reg_spine E arr) (\<lambda>av. vm_bind (force_reg E idx) (\<lambda>iv. case (av, iv) of
     (VArray elems, VInt i) \<Rightarrow> (case to_usize i of
        Some k \<Rightarrow> if k < length elems then set_reg dst (elems ! k) else vm_err (ArrayBounds i (length elems))
      | None \<Rightarrow> vm_err (ArrayBounds i (length elems)))
   | _ \<Rightarrow> vm_err ArrayIndexTypes))"

definition i_tuple_get :: "venv \<Rightarrow> u16 \<Rightarrow> u16 \<Rightarrow> u16 \<Rightarrow> unit vmm" where
  "i_tuple_get E dst src index = vm_bind (force_reg_spine E src) (\<lambda>v. case v of
     VTuple elems \<Rightarrow> (if unat index < length elems then set_reg dst (elems ! unat index)
       else vm_err (TupleBounds (unat index) (length elems)))
   | _ \<Rightarrow> vm_err NotTuple)"

definition i_make_enum :: "bc_module \<Rightarrow> u16 \<Rightarrow> u16 \<Rightarrow> u16 \<Rightarrow> u16 \<Rightarrow> u16 \<Rightarrow> unit vmm" where
  "i_make_enum m dst shape_idx variant_idx args_start n = vm_bind (vm_index (enum_shapes m) (unat shape_idx)) (\<lambda>shape.
     vm_bind (vm_index (variant_names shape) (unat variant_idx)) (\<lambda>variant.
     vm_bind (vm_map get_reg (arg_regs args_start (unat n))) (\<lambda>payload. set_reg dst (VEnum (es_name shape) variant payload))))"

definition i_enum_tag :: "venv \<Rightarrow> bc_module \<Rightarrow> u16 \<Rightarrow> u16 \<Rightarrow> unit vmm" where
  "i_enum_tag E m dst src = vm_bind (force_reg_spine E src) (\<lambda>v. case v of
     VEnum nm variant _ \<Rightarrow> vm_bind (vm_opt (UnknownEnum nm) (hm_get (enum_index m) nm)) (\<lambda>i.
       vm_bind (vm_index (enum_shapes m) i) (\<lambda>shape.
       vm_bind (vm_opt (UnknownVariant variant) (position (\<lambda>n. n = variant) (variant_names shape))) (\<lambda>k. set_reg dst (VInt (int k)))))
   | _ \<Rightarrow> vm_err NotEnum)"

definition i_enum_payload :: "venv \<Rightarrow> u16 \<Rightarrow> u16 \<Rightarrow> u16 \<Rightarrow> unit vmm" where
  "i_enum_payload E dst src index = vm_bind (force_reg_spine E src) (\<lambda>v. case v of
     VEnum _ _ payload \<Rightarrow> (if unat index < length payload then set_reg dst (payload ! unat index)
       else vm_err (PayloadBounds (unat index) (length payload)))
   | _ \<Rightarrow> vm_err NotEnum)"

subsection \<open>State cells and maps\<close>

definition i_kv_get :: "venv \<Rightarrow> bc_module \<Rightarrow> u16 \<Rightarrow> u16 \<Rightarrow> unit vmm" where
  "i_kv_get E m dst key_idx = vm_bind (state_root_at m key_idx) (\<lambda>key. vm_bind (state_type_at m key_idx) (\<lambda>t.
     vm_bind (in_tx (\<lambda>x. read_typed (ve_lib E) x key t)) (set_reg dst)))"

definition i_kv_put :: "venv \<Rightarrow> bc_module \<Rightarrow> u16 \<Rightarrow> u16 \<Rightarrow> unit vmm" where
  "i_kv_put E m src key_idx = vm_bind (state_root_at m key_idx) (\<lambda>key. vm_bind (state_type_at m key_idx) (\<lambda>t.
     vm_bind (get_reg src) (\<lambda>v. to_tx (\<lambda>x. write_typed (ve_lib E) x key t v))))"

definition i_kv_get_path :: "venv \<Rightarrow> bc_module \<Rightarrow> u16 \<Rightarrow> u16 \<Rightarrow> unit vmm" where
  "i_kv_get_path E m dst path_idx = vm_bind (vm_index (path_specs m) (unat path_idx)) (\<lambda>spec.
     vm_bind (in_tx (\<lambda>x. if is_blob spec then read_cell (ve_lib E) x (leaf_key spec) (leaf_type spec)
       else read_typed (ve_lib E) x (leaf_key spec) (leaf_type spec))) (set_reg dst))"

definition i_kv_put_path :: "venv \<Rightarrow> bc_module \<Rightarrow> u16 \<Rightarrow> u16 \<Rightarrow> unit vmm" where
  "i_kv_put_path E m src path_idx = vm_bind (vm_index (path_specs m) (unat path_idx)) (\<lambda>spec. vm_bind (get_reg src) (\<lambda>v.
     if is_blob spec then vm_write E (leaf_key spec) v
     else to_tx (\<lambda>x. write_typed (ve_lib E) x (leaf_key spec) (leaf_type spec) v)))"

definition read_op_target :: "bc_module \<Rightarrow> read_op \<Rightarrow> (u128 \<times> ty) vmm" where
  "read_op_target m rop = (case rop of
     RState dst key_idx \<Rightarrow> vm_bind (state_root_at m key_idx) (\<lambda>r. vm_bind (state_type_at m key_idx) (\<lambda>t. vm_ret (r, t)))
   | RPath dst path_idx \<Rightarrow> vm_bind (vm_index (path_specs m) (unat path_idx)) (\<lambda>spec. vm_ret (leaf_key spec, leaf_type spec)))"

definition read_op_dst :: "read_op \<Rightarrow> u16" where
  "read_op_dst rop = (case rop of RState dst _ \<Rightarrow> dst | RPath dst _ \<Rightarrow> dst)"

definition i_read_batch :: "venv \<Rightarrow> bc_module \<Rightarrow> bc_fn \<Rightarrow> u16 \<Rightarrow> unit vmm" where
  "i_read_batch E m f group_idx = vm_bind (vm_index (read_groups f) (unat group_idx)) (\<lambda>grp.
     vm_bind (vm_map (read_op_target m) grp) (\<lambda>ops. vm_bind (in_tx (\<lambda>x. read_typed_many (ve_lib E) x ops)) (\<lambda>vs.
     vm_bind (vm_map (\<lambda>(rop, v). set_reg (read_op_dst rop) v) (zip grp vs)) (\<lambda>_. vm_ret ()))))"

definition i_prefetch_map :: "venv \<Rightarrow> bc_module \<Rightarrow> u16 \<Rightarrow> u16 \<Rightarrow> unit vmm" where
  "i_prefetch_map E m arr_reg state_idx = vm_bind (force_reg E arr_reg) (\<lambda>av. case av of
     VArray elems \<Rightarrow> vm_bind (state_type_at m state_idx) (\<lambda>t. case t of
         TMap _ vt \<Rightarrow> vm_bind (state_root_at m state_idx) (\<lambda>root.
           vm_bind (vm_map (compose_map_cell E root) (filter is_keyable_value elems)) (\<lambda>cells.
           vm_bind (in_tx (\<lambda>x. read_typed_many (ve_lib E) x (map (\<lambda>c. (c, vt)) cells))) (\<lambda>_. vm_ret ())))
       | _ \<Rightarrow> vm_ret ())
   | _ \<Rightarrow> vm_ret ())"

definition i_map_get :: "venv \<Rightarrow> bc_module \<Rightarrow> u16 \<Rightarrow> u16 \<Rightarrow> u16 \<Rightarrow> unit vmm" where
  "i_map_get E m dst state_idx key_reg = vm_bind (state_root_at m state_idx) (\<lambda>root. vm_bind (force_reg E key_reg) (\<lambda>k.
     vm_bind (compose_map_cell E root k) (\<lambda>cell. vm_bind (state_type_at m state_idx) (\<lambda>t.
     vm_bind (in_tx (\<lambda>x. read_cell (ve_lib E) x cell (case t of TMap _ vt \<Rightarrow> vt | _ \<Rightarrow> t))) (set_reg dst)))))"

definition i_map_put :: "venv \<Rightarrow> bc_module \<Rightarrow> u16 \<Rightarrow> u16 \<Rightarrow> u16 \<Rightarrow> unit vmm" where
  "i_map_put E m state_idx key_reg src = vm_bind (state_root_at m state_idx) (\<lambda>root. vm_bind (force_reg E key_reg) (\<lambda>k.
     vm_bind (compose_map_cell E root k) (\<lambda>cell. vm_bind (get_reg src) (\<lambda>v. vm_write E cell v))))"

end
