(* ===== verification/VmColl.thy ===== *)
theory VmColl
  imports VmInstr
begin

section \<open>The virtual machine: persistent collections\<close>

text \<open>
  The arms of \<^verbatim>\<open>call_body_at\<close> (\<^verbatim>\<open>crates/rend/src/vm.rs\<close>) on \<^verbatim>\<open>pmap\<close>, \<^verbatim>\<open>pbtree\<close> and \<^verbatim>\<open>pvec\<close> states. The source repeats each
  of the index-maintenance arms for the two maps; here the arm is written once over the operations of
  the collection (\<open>coll\<close>) and instantiated for both.
\<close>

record coll =
  c_slot :: "bc_module \<Rightarrow> u16 \<Rightarrow> (u128 \<times> ty \<times> ty) vmm"
  c_root :: "u128 \<Rightarrow> ty \<Rightarrow> ty \<Rightarrow> u128 vmm"
  c_get :: "ty \<Rightarrow> ty \<Rightarrow> u128 \<Rightarrow> val \<Rightarrow> val option vmm"
  c_contains :: "ty \<Rightarrow> ty \<Rightarrow> u128 \<Rightarrow> val \<Rightarrow> bool vmm"
  c_set :: "ty \<Rightarrow> ty \<Rightarrow> u128 \<Rightarrow> val \<Rightarrow> val \<Rightarrow> u128 vmm"
  c_remove :: "ty \<Rightarrow> ty \<Rightarrow> u128 \<Rightarrow> val \<Rightarrow> u128 vmm"
  c_wrap :: "u128 \<Rightarrow> val"

definition pmap_coll :: "venv \<Rightarrow> coll" where
  "pmap_coll E = (let n = tree_fuel E; L = ve_lib E in
     \<lparr>c_slot = pmap_slot, c_root = pmap_root E,
      c_get = (\<lambda>kt vt h k. in_tx (\<lambda>t. pm_get n L kt vt t h k)),
      c_contains = (\<lambda>kt vt h k. in_tx (\<lambda>t. pm_contains n L kt vt t h k)),
      c_set = (\<lambda>kt vt h k v. in_tx (\<lambda>t. pm_set n L kt vt t h k v)),
      c_remove = (\<lambda>kt vt h k. vm_bind (in_tx (\<lambda>t. pm_remove n L kt vt t h k)) (\<lambda>(h', removed). vm_ret h')),
      c_wrap = VPMap\<rparr>)"

definition pbtree_coll :: "venv \<Rightarrow> coll" where
  "pbtree_coll E = (let n = tree_fuel E; L = ve_lib E in
     \<lparr>c_slot = pbtree_slot, c_root = pbtree_root E,
      c_get = (\<lambda>kt vt h k. in_tx (\<lambda>t. bt_get n L kt vt t h k)),
      c_contains = (\<lambda>kt vt h k. in_tx (\<lambda>t. bt_contains n L kt vt t h k)),
      c_set = (\<lambda>kt vt h k v. res_tx (\<lambda>t. bt_set n L kt vt t h k v)),
      c_remove = (\<lambda>kt vt h k. res_tx (\<lambda>t. bt_remove n L kt vt t h k)),
      c_wrap = VPBTree\<rparr>)"

definition coll_put :: "venv \<Rightarrow> coll \<Rightarrow> bc_module \<Rightarrow> u16 \<Rightarrow> u16 \<Rightarrow> u16 \<Rightarrow> unit vmm" where
  "coll_put E C m state_idx key_reg src = vm_bind (force_reg E key_reg) (\<lambda>k. vm_bind (force_reg E src) (\<lambda>v.
     vm_bind (c_slot C m state_idx) (\<lambda>(cell, kt, vt). vm_bind (c_root C cell kt vt) (\<lambda>h.
     vm_bind (c_set C kt vt h k v) (\<lambda>h'. vm_write E cell (c_wrap C h'))))))"

definition coll_contains :: "venv \<Rightarrow> coll \<Rightarrow> bc_module \<Rightarrow> u16 \<Rightarrow> u16 \<Rightarrow> u16 \<Rightarrow> unit vmm" where
  "coll_contains E C m dst state_idx key_reg = vm_bind (force_reg E key_reg) (\<lambda>k. vm_bind (c_slot C m state_idx) (\<lambda>(cell, kt, vt).
     vm_bind (c_root C cell kt vt) (\<lambda>h. vm_bind (c_contains C kt vt h k) (\<lambda>b. set_reg dst (VBool b)))))"

definition coll_put_unique :: "venv \<Rightarrow> coll \<Rightarrow> bc_module \<Rightarrow> u16 \<Rightarrow> u16 \<Rightarrow> u16 \<Rightarrow> unit vmm" where
  "coll_put_unique E C m state_idx key_reg src = vm_bind (c_slot C m state_idx) (\<lambda>(cell, kt, vt).
     vm_bind (force_reg E key_reg) (\<lambda>k. vm_bind (force_reg E src) (\<lambda>v. vm_bind (c_root C cell kt vt) (\<lambda>h.
     vm_bind (c_get C kt vt h k) (\<lambda>existing. case existing of
       Some prior \<Rightarrow> if \<not> value_eq prior v then vm_err UniqueViolation else vm_ret ()
     | None \<Rightarrow> vm_bind (c_set C kt vt h k v) (\<lambda>h'. vm_write E cell (c_wrap C h')))))))"

definition coll_append_unique :: "venv \<Rightarrow> coll \<Rightarrow> bc_module \<Rightarrow> u16 \<Rightarrow> u16 \<Rightarrow> u16 \<Rightarrow> unit vmm" where
  "coll_append_unique E C m state_idx key_reg elem_reg = vm_bind (c_slot C m state_idx) (\<lambda>(cell, kt, vt).
     vm_bind (force_reg E key_reg) (\<lambda>k. vm_bind (force_reg E elem_reg) (\<lambda>e. vm_bind (c_root C cell kt vt) (\<lambda>h.
     vm_bind (c_get C kt vt h k) (\<lambda>existing.
       let arr = (case existing of Some (VArray a) \<Rightarrow> a | _ \<Rightarrow> []) in
       if list_ex (\<lambda>x. value_eq x e) arr then vm_ret ()
       else vm_bind (c_set C kt vt h k (VArray (arr @ [e]))) (\<lambda>h'. vm_write E cell (c_wrap C h')))))))"

definition coll_delete :: "venv \<Rightarrow> coll \<Rightarrow> bc_module \<Rightarrow> u16 \<Rightarrow> u16 \<Rightarrow> unit vmm" where
  "coll_delete E C m state_idx key_reg = vm_bind (c_slot C m state_idx) (\<lambda>(cell, kt, vt). vm_bind (force_reg E key_reg) (\<lambda>k.
     vm_bind (c_root C cell kt vt) (\<lambda>h. vm_bind (c_remove C kt vt h k) (\<lambda>h'. vm_write E cell (c_wrap C h')))))"

definition coll_remove_unique :: "venv \<Rightarrow> coll \<Rightarrow> bc_module \<Rightarrow> u16 \<Rightarrow> u16 \<Rightarrow> u16 \<Rightarrow> unit vmm" where
  "coll_remove_unique E C m state_idx key_reg expected_reg = vm_bind (c_slot C m state_idx) (\<lambda>(cell, kt, vt).
     vm_bind (force_reg E key_reg) (\<lambda>k. vm_bind (force_reg E expected_reg) (\<lambda>expected. vm_bind (c_root C cell kt vt) (\<lambda>h.
     vm_bind (c_get C kt vt h k) (\<lambda>existing. case existing of
       Some v \<Rightarrow> if value_eq v expected then vm_bind (c_remove C kt vt h k) (\<lambda>h'. vm_write E cell (c_wrap C h')) else vm_ret ()
     | None \<Rightarrow> vm_ret ())))))"

definition coll_remove_from_list :: "venv \<Rightarrow> coll \<Rightarrow> bc_module \<Rightarrow> u16 \<Rightarrow> u16 \<Rightarrow> u16 \<Rightarrow> unit vmm" where
  "coll_remove_from_list E C m state_idx key_reg elem_reg = vm_bind (c_slot C m state_idx) (\<lambda>(cell, kt, vt).
     vm_bind (force_reg E key_reg) (\<lambda>k. vm_bind (force_reg E elem_reg) (\<lambda>e. vm_bind (c_root C cell kt vt) (\<lambda>h.
     vm_bind (c_get C kt vt h k) (\<lambda>existing. case existing of
       Some (VArray arr) \<Rightarrow>
        (let arr' = filter (\<lambda>x. \<not> value_eq x e) arr in
         if length arr' = length arr then vm_ret ()
         else if arr' = [] then vm_bind (c_remove C kt vt h k) (\<lambda>h'. vm_write E cell (c_wrap C h'))
         else vm_bind (c_set C kt vt h k (VArray arr')) (\<lambda>h'. vm_write E cell (c_wrap C h')))
     | _ \<Rightarrow> vm_ret ())))))"

subsection \<open>Pmap\<close>

definition record_pmap :: "bc_module \<Rightarrow> u16 \<Rightarrow> unit vmm" where
  "record_pmap m i = vm_bind (state_type_at m i) (\<lambda>t. case t of
     TPMap kt vt \<Rightarrow> vm_bind (state_root_at m i) (\<lambda>c. to_tx (\<lambda>x. Some (record_pmap_types x c kt vt)))
   | _ \<Rightarrow> vm_ret ())"

definition i_pmap_get :: "venv \<Rightarrow> bc_module \<Rightarrow> u16 \<Rightarrow> u16 \<Rightarrow> u16 \<Rightarrow> unit vmm" where
  "i_pmap_get E m dst state_idx key_reg = vm_bind (record_pmap m state_idx) (\<lambda>_. vm_bind (force_reg E key_reg) (\<lambda>k.
     vm_bind (pmap_slot m state_idx) (\<lambda>(cell, kt, vt). vm_bind (pmap_root E cell kt vt) (\<lambda>h.
     vm_bind (in_tx (\<lambda>t. begin_pmap_get (ve_lib E) t h k kt vt)) (set_reg dst)))))"

definition i_pmap_put :: "venv \<Rightarrow> bc_module \<Rightarrow> u16 \<Rightarrow> u16 \<Rightarrow> u16 \<Rightarrow> unit vmm" where
  "i_pmap_put E m state_idx key_reg src = vm_bind (record_pmap m state_idx) (\<lambda>_. coll_put E (pmap_coll E) m state_idx key_reg src)"

definition i_pmap_contains :: "venv \<Rightarrow> bc_module \<Rightarrow> u16 \<Rightarrow> u16 \<Rightarrow> u16 \<Rightarrow> unit vmm" where
  "i_pmap_contains E = coll_contains E (pmap_coll E)"

definition i_pmap_entries :: "venv \<Rightarrow> bc_module \<Rightarrow> u16 \<Rightarrow> u16 \<Rightarrow> unit vmm" where
  "i_pmap_entries E m dst state_idx = vm_bind (pmap_walk_entries E m state_idx) (\<lambda>es. set_reg dst (VArray (map (\<lambda>(k, v). VTuple [k, v]) es)))"

definition i_pmap_keys :: "venv \<Rightarrow> bc_module \<Rightarrow> u16 \<Rightarrow> u16 \<Rightarrow> unit vmm" where
  "i_pmap_keys E m dst state_idx = vm_bind (pmap_walk_entries E m state_idx) (\<lambda>es. set_reg dst (VArray (map fst es)))"

definition i_pmap_values :: "venv \<Rightarrow> bc_module \<Rightarrow> u16 \<Rightarrow> u16 \<Rightarrow> unit vmm" where
  "i_pmap_values E m dst state_idx = vm_bind (pmap_walk_entries E m state_idx) (\<lambda>es. set_reg dst (VArray (map snd es)))"

definition i_pmap_put_unique :: "venv \<Rightarrow> bc_module \<Rightarrow> u16 \<Rightarrow> u16 \<Rightarrow> u16 \<Rightarrow> unit vmm" where
  "i_pmap_put_unique E = coll_put_unique E (pmap_coll E)"

definition i_pmap_append_unique :: "venv \<Rightarrow> bc_module \<Rightarrow> u16 \<Rightarrow> u16 \<Rightarrow> u16 \<Rightarrow> unit vmm" where
  "i_pmap_append_unique E = coll_append_unique E (pmap_coll E)"

definition i_pmap_delete :: "venv \<Rightarrow> bc_module \<Rightarrow> u16 \<Rightarrow> u16 \<Rightarrow> unit vmm" where
  "i_pmap_delete E = coll_delete E (pmap_coll E)"

definition i_pmap_remove_unique :: "venv \<Rightarrow> bc_module \<Rightarrow> u16 \<Rightarrow> u16 \<Rightarrow> u16 \<Rightarrow> unit vmm" where
  "i_pmap_remove_unique E = coll_remove_unique E (pmap_coll E)"

definition i_pmap_remove_from_list :: "venv \<Rightarrow> bc_module \<Rightarrow> u16 \<Rightarrow> u16 \<Rightarrow> u16 \<Rightarrow> unit vmm" where
  "i_pmap_remove_from_list E = coll_remove_from_list E (pmap_coll E)"

definition i_pmap_walk_init :: "venv \<Rightarrow> bc_module \<Rightarrow> u16 \<Rightarrow> u16 \<Rightarrow> unit vmm" where
  "i_pmap_walk_init E m dst state_idx = vm_bind (pmap_slot m state_idx) (\<lambda>(cell, kt, vt). vm_bind (pmap_root E cell kt vt) (\<lambda>h.
     set_reg dst (VPMapCursor (if h \<noteq> EMPTY then [(h, 0)] else []) [] kt vt)))"

definition i_pmap_walk_next :: "venv \<Rightarrow> nat \<Rightarrow> u16 \<Rightarrow> u16 \<Rightarrow> i32 \<Rightarrow> nat vmm" where
  \<comment> \<open>the next program counter\<close>
  "i_pmap_walk_next E pc cursor_reg value_reg end_offset = vm_bind (get_reg cursor_reg) (\<lambda>c. vm_bind (set_reg cursor_reg VUnit) (\<lambda>_. case c of
     VPMapCursor stack pend kt vt \<Rightarrow> vm_bind (in_tx (pmap_walk_advance (ve_lib E) kt vt stack pend)) (\<lambda>(stack', pend', nxt).
       vm_bind (set_reg cursor_reg (VPMapCursor stack' pend' kt vt)) (\<lambda>_. case nxt of
         Some (k, v) \<Rightarrow> vm_bind (set_reg value_reg v) (\<lambda>_. vm_ret pc)
       | None \<Rightarrow> vm_ret (walk_jump pc end_offset)))
   | _ \<Rightarrow> vm_err NotCursor))"

subsection \<open>Pvec\<close>

definition record_pvec :: "u128 \<Rightarrow> ty \<Rightarrow> unit vmm" where
  "record_pvec cell et = to_tx (\<lambda>x. Some (record_pvec_type x cell et))"

definition vec_index :: "int \<Rightarrow> u64 vmm" where
  "vec_index n = (if 0 \<le> n \<and> n < 2 ^ 64 then vm_ret (word_of_int n) else vm_err VecIndexRange)"

definition i_pvec_get :: "venv \<Rightarrow> bc_module \<Rightarrow> u16 \<Rightarrow> u16 \<Rightarrow> u16 \<Rightarrow> unit vmm" where
  "i_pvec_get E m dst state_idx idx_reg = vm_bind (force_reg E idx_reg) (\<lambda>iv. vm_bind (pvec_slot m state_idx) (\<lambda>(cell, et).
     vm_bind (record_pvec cell et) (\<lambda>_. vm_bind (pvec_root E cell (TPVec et)) (\<lambda>(len, root).
     vm_bind (case iv of VInt n \<Rightarrow> vec_index n | VU64 n \<Rightarrow> vm_ret n | _ \<Rightarrow> vm_err VecIndexType) (\<lambda>i.
     vm_bind (res_tx (\<lambda>t. pv_get (ve_lib E) et t root len i)) (set_reg dst))))))"

definition i_pvec_set :: "venv \<Rightarrow> bc_module \<Rightarrow> u16 \<Rightarrow> u16 \<Rightarrow> u16 \<Rightarrow> unit vmm" where
  "i_pvec_set E m state_idx idx_reg src = vm_bind (force_reg E idx_reg) (\<lambda>iv. vm_bind (force_reg E src) (\<lambda>v.
     vm_bind (pvec_slot m state_idx) (\<lambda>(cell, et). vm_bind (record_pvec cell et) (\<lambda>_. vm_bind (pvec_root E cell (TPVec et)) (\<lambda>(len, root).
     vm_bind (case iv of VInt n \<Rightarrow> vec_index n | _ \<Rightarrow> vm_err VecIndexType) (\<lambda>i.
     vm_bind (res_tx (\<lambda>t. pv_set (ve_lib E) et t root len i v)) (\<lambda>root'. vm_write E cell (VPVec len root'))))))))"

definition i_pvec_push :: "venv \<Rightarrow> bc_module \<Rightarrow> u16 \<Rightarrow> u16 \<Rightarrow> u16 \<Rightarrow> unit vmm" where
  "i_pvec_push E m dst state_idx src = vm_bind (force_reg E src) (\<lambda>v. vm_bind (pvec_slot m state_idx) (\<lambda>(cell, et).
     vm_bind (record_pvec cell et) (\<lambda>_. vm_bind (pvec_root E cell (TPVec et)) (\<lambda>(len, root).
     vm_bind (res_tx (\<lambda>t. pv_push (ve_lib E) et t root len v)) (\<lambda>(root', len'). vm_bind (vm_write E cell (VPVec len' root')) (\<lambda>_.
     set_reg dst (VU64 len)))))))"

definition i_pvec_len :: "venv \<Rightarrow> bc_module \<Rightarrow> u16 \<Rightarrow> u16 \<Rightarrow> unit vmm" where
  "i_pvec_len E m dst state_idx = vm_bind (state_root_at m state_idx) (\<lambda>cell. vm_bind (state_type_at m state_idx) (\<lambda>t.
     vm_bind (pvec_root E cell t) (\<lambda>(len, root). set_reg dst (VU64 len))))"

definition i_pvec_to_array :: "venv \<Rightarrow> bc_module \<Rightarrow> u16 \<Rightarrow> u16 \<Rightarrow> unit vmm" where
  "i_pvec_to_array E m dst state_idx = vm_bind (pvec_slot m state_idx) (\<lambda>(cell, et). vm_bind (record_pvec cell et) (\<lambda>_.
     vm_bind (pvec_root E cell (TPVec et)) (\<lambda>(len, root).
     vm_bind (res_tx (\<lambda>t. pv_to_vec (ve_lib E) et t root len)) (\<lambda>vs. set_reg dst (VArray vs)))))"

subsection \<open>Pbtree\<close>

definition i_pbtree_get :: "venv \<Rightarrow> bc_module \<Rightarrow> u16 \<Rightarrow> u16 \<Rightarrow> u16 \<Rightarrow> unit vmm" where
  "i_pbtree_get E m dst state_idx key_reg = vm_bind (force_reg E key_reg) (\<lambda>k. vm_bind (pbtree_slot m state_idx) (\<lambda>(cell, kt, vt).
     vm_bind (pbtree_root E cell kt vt) (\<lambda>h. vm_bind (in_tx (\<lambda>t. bt_get (tree_fuel E) (ve_lib E) kt vt t h k)) (\<lambda>v.
     set_reg dst (case v of Some w \<Rightarrow> w | None \<Rightarrow> default_for vt)))))"

definition i_pbtree_put :: "venv \<Rightarrow> bc_module \<Rightarrow> u16 \<Rightarrow> u16 \<Rightarrow> u16 \<Rightarrow> unit vmm" where
  "i_pbtree_put E = coll_put E (pbtree_coll E)"

definition i_pbtree_contains :: "venv \<Rightarrow> bc_module \<Rightarrow> u16 \<Rightarrow> u16 \<Rightarrow> u16 \<Rightarrow> unit vmm" where
  "i_pbtree_contains E = coll_contains E (pbtree_coll E)"

definition i_pbtree_range :: "venv \<Rightarrow> bc_module \<Rightarrow> u16 \<Rightarrow> u16 \<Rightarrow> u16 \<Rightarrow> u16 \<Rightarrow> unit vmm" where
  "i_pbtree_range E m dst state_idx lo_reg hi_reg = vm_bind (force_reg E lo_reg) (\<lambda>lo. vm_bind (force_reg E hi_reg) (\<lambda>hi.
     vm_bind (pbtree_slot m state_idx) (\<lambda>(cell, kt, vt). vm_bind (pbtree_root E cell kt vt) (\<lambda>h.
     vm_bind (in_tx (\<lambda>t. bt_range (tree_fuel E) (ve_lib E) kt vt t h lo hi)) (\<lambda>vs. set_reg dst (VArray vs))))))"

definition i_pbtree_walk_init :: "bc_module \<Rightarrow> u16 \<Rightarrow> u16 \<Rightarrow> unit vmm" where
  "i_pbtree_walk_init m dst state_idx = vm_bind (pbtree_slot m state_idx) (\<lambda>(cell, kt, vt). set_reg dst (VPBTreeCursor cell None kt vt))"

definition i_pbtree_walk_next :: "venv \<Rightarrow> nat \<Rightarrow> u16 \<Rightarrow> u16 \<Rightarrow> i32 \<Rightarrow> nat vmm" where
  "i_pbtree_walk_next E pc cursor_reg value_reg end_offset = vm_bind (get_reg cursor_reg) (\<lambda>c. vm_bind (set_reg cursor_reg VUnit) (\<lambda>_. case c of
     VPBTreeCursor cell prev kt vt \<Rightarrow> vm_bind (pbtree_walk_advance_stable E cell prev kt vt) (\<lambda>(prev', nxt).
       vm_bind (set_reg cursor_reg (VPBTreeCursor cell prev' kt vt)) (\<lambda>_. case nxt of
         Some (k, v) \<Rightarrow> vm_bind (set_reg value_reg v) (\<lambda>_. vm_ret pc)
       | None \<Rightarrow> vm_ret (walk_jump pc end_offset)))
   | _ \<Rightarrow> vm_err NotCursor))"

definition i_pbtree_put_unique :: "venv \<Rightarrow> bc_module \<Rightarrow> u16 \<Rightarrow> u16 \<Rightarrow> u16 \<Rightarrow> unit vmm" where
  "i_pbtree_put_unique E = coll_put_unique E (pbtree_coll E)"

definition i_pbtree_append_unique :: "venv \<Rightarrow> bc_module \<Rightarrow> u16 \<Rightarrow> u16 \<Rightarrow> u16 \<Rightarrow> unit vmm" where
  "i_pbtree_append_unique E = coll_append_unique E (pbtree_coll E)"

definition i_pbtree_delete :: "venv \<Rightarrow> bc_module \<Rightarrow> u16 \<Rightarrow> u16 \<Rightarrow> unit vmm" where
  "i_pbtree_delete E = coll_delete E (pbtree_coll E)"

definition i_pbtree_remove_unique :: "venv \<Rightarrow> bc_module \<Rightarrow> u16 \<Rightarrow> u16 \<Rightarrow> u16 \<Rightarrow> unit vmm" where
  "i_pbtree_remove_unique E = coll_remove_unique E (pbtree_coll E)"

definition i_pbtree_remove_from_list :: "venv \<Rightarrow> bc_module \<Rightarrow> u16 \<Rightarrow> u16 \<Rightarrow> u16 \<Rightarrow> unit vmm" where
  "i_pbtree_remove_from_list E = coll_remove_from_list E (pbtree_coll E)"

end
