(* ===== verification/Vm.thy ===== *)
theory Vm
  imports VmColl
begin

section \<open>The virtual machine: calls, parallel legs and the dispatch loop\<close>

text \<open>
  \<^verbatim>\<open>call\<close>, \<^verbatim>\<open>call_body\<close>, \<^verbatim>\<open>call_body_at\<close>, \<^verbatim>\<open>dispatch_handlers_parallel\<close> and \<^verbatim>\<open>run_world\<close> of \<^verbatim>\<open>crates/rend/src/vm.rs\<close>.

  The dispatch loop is \<open>exec\<close>: one unfolding per instruction. Functions are entered through \<open>X\<close>, the loop at
  the next smaller recursion measure. The legs of a parallel block run in shadow transactions of the
  same parent; \<^verbatim>\<open>rayon\<close>'s \<^verbatim>\<open>collect\<close> returns their results in order, so the model maps over the legs.
  The three places that merge legs in the source share \<open>merge_legs\<close>.
\<close>

subsection \<open>Calls\<close>

type_synonym runner = "nat \<Rightarrow> nat \<Rightarrow> nat \<Rightarrow> val vmm" \<comment> \<open>module, function, start; the registers are those of the state\<close>

definition in_frame :: "val list \<Rightarrow> 'a vmm \<Rightarrow> 'a vmm" where
  \<comment> \<open>run with a register file of its own\<close>
  "in_frame rs f s = (case f (s\<lparr>regs := rs\<rparr>) of
     VOk x s' \<Rightarrow> VOk x (s'\<lparr>regs := regs s\<rparr>) | VErr e s' \<Rightarrow> VErr e (s'\<lparr>regs := regs s\<rparr>)
   | VPanic \<Rightarrow> VPanic | VDeep \<Rightarrow> VDeep)"

definition call_body :: "runner \<Rightarrow> nat \<Rightarrow> nat \<Rightarrow> bc_fn \<Rightarrow> val list \<Rightarrow> val vmm" where
  "call_body X mi fi f args = (let n = max (unat (n_regs f)) (length args mod 2 ^ 16) in
     if length args \<le> n then in_frame (args @ replicate (n - length args) VUnit) (X mi fi 0) else vm_panic)"

definition finally_tx :: "'a vmm \<Rightarrow> (tx \<Rightarrow> tx) \<Rightarrow> 'a vmm" where
  \<comment> \<open>what is done to the transaction after a result of either kind\<close>
  "finally_tx f g s = (case f s of
     VOk x s' \<Rightarrow> VOk x (s'\<lparr>vm_tx := g (vm_tx s')\<rparr>) | VErr e s' \<Rightarrow> VErr e (s'\<lparr>vm_tx := g (vm_tx s')\<rparr>)
   | VPanic \<Rightarrow> VPanic | VDeep \<Rightarrow> VDeep)"

definition vm_call :: "venv \<Rightarrow> runner \<Rightarrow> nat \<Rightarrow> nat \<Rightarrow> val list \<Rightarrow> val vmm" where
  "vm_call E X mi fi args = vm_bind (vm_index (ve_modules E) mi) (\<lambda>m. vm_bind (vm_index (functions_of m) fi) (\<lambda>f.
     if length args \<noteq> unat (n_params f) then vm_err (ArgCount (unat (n_params f)) (length args))
     else if is_nore f
     then vm_bind (in_tx (\<lambda>t. Some (nore_enter t (of_nat mi) (of_nat fi)))) (\<lambda>entered.
       if \<not> entered then vm_err (Reentry (fn_name f))
       else finally_tx (call_body X mi fi f args) (\<lambda>t. nore_exit t (of_nat mi) (of_nat fi)))
     else call_body X mi fi f args))"

definition i_call :: "venv \<Rightarrow> runner \<Rightarrow> nat \<Rightarrow> u16 \<Rightarrow> u16 \<Rightarrow> u16 \<Rightarrow> u8 \<Rightarrow> unit vmm" where
  "i_call E X mi dst callee args_start n_args = vm_bind (vm_map get_reg (arg_regs args_start (unat n_args))) (\<lambda>args.
     vm_bind (vm_call E X mi (unat callee) args) (set_reg dst))"

definition call_entry :: "venv \<Rightarrow> runner \<Rightarrow> u16 \<Rightarrow> string \<Rightarrow> string \<Rightarrow> u16 \<Rightarrow> u8 \<Rightarrow> unit vmm" where
  \<comment> \<open>the common tail of \<^verbatim>\<open>CallExternal\<close> and \<^verbatim>\<open>CallExternalDyn\<close>\<close>
  "call_entry E X dst mname fname args_start n_args =
     vm_bind (vm_opt (UnknownModule mname) (position (\<lambda>m. mod_name m = mname) (ve_modules E))) (\<lambda>ti.
     vm_bind (vm_index (ve_modules E) ti) (\<lambda>target.
     vm_bind (vm_opt (UnknownFunction fname) (hm_get (fn_index target) fname)) (\<lambda>tfi.
     vm_bind (vm_index (functions_of target) tfi) (\<lambda>tf.
     if \<not> is_entry tf then vm_err (NotEntry mname fname)
     else vm_bind (vm_map get_reg (arg_regs args_start (unat n_args))) (\<lambda>args.
       vm_bind (vm_call E X ti tfi args) (set_reg dst))))))"

definition i_call_external :: "venv \<Rightarrow> runner \<Rightarrow> bc_fn \<Rightarrow> u16 \<Rightarrow> u16 \<Rightarrow> u16 \<Rightarrow> u16 \<Rightarrow> u8 \<Rightarrow> unit vmm" where
  "i_call_external E X f dst mod_idx name_idx args_start n_args = vm_bind (const_str f mod_idx) (\<lambda>mname.
     vm_bind (const_str f name_idx) (\<lambda>fname. call_entry E X dst mname fname args_start n_args))"

definition i_call_dyn :: "venv \<Rightarrow> runner \<Rightarrow> bc_fn \<Rightarrow> u16 \<Rightarrow> u16 \<Rightarrow> u16 \<Rightarrow> u16 \<Rightarrow> u8 \<Rightarrow> unit vmm" where
  "i_call_dyn E X f dst target_reg name_idx args_start n_args = vm_bind (force_reg E target_reg) (\<lambda>tv. case tv of
     VInterface _ mname \<Rightarrow> if mname = [] then vm_err UnboundInterface
       else vm_bind (const_str f name_idx) (\<lambda>fname. call_entry E X dst mname fname args_start n_args)
   | _ \<Rightarrow> vm_err NotInterface)"

subsection \<open>Parallel legs\<close>

record leg_out =
  lg_delta :: handler_delta
  lg_value :: val
  lg_used :: nat
  lg_skip :: bool

definition run_leg :: "val vmm \<Rightarrow> tx \<Rightarrow> nat \<Rightarrow> val list \<Rightarrow> leg_out outcome" where
  \<comment> \<open>a \<^verbatim>\<open>VmState\<close> over a shadow of the parent with the given budget; the state of the outcome is the leg's own\<close>
  "run_leg f parent budget rs =
    (case f \<lparr>vm_fuel = budget, vm_tx = shadow_of parent, parallel_skip = False, regs = rs\<rparr> of
       VOk v s' \<Rightarrow> VOk \<lparr>lg_delta = into_delta (vm_tx s'), lg_value = v, lg_used = budget - vm_fuel s', lg_skip = parallel_skip s'\<rparr> s'
     | VErr e s' \<Rightarrow> VErr e s' | VPanic \<Rightarrow> VPanic | VDeep \<Rightarrow> VDeep)"

primrec run_legs :: "(nat \<Rightarrow> val vmm) \<Rightarrow> (nat \<Rightarrow> val list \<Rightarrow> val list option) \<Rightarrow> nat list \<Rightarrow> (vm_error + leg_out) list vmm" where
  \<comment> \<open>every leg against the same parent; an error stays in its slot, a panic of one leg is a panic of the block\<close>
  "run_legs leg leg_regs [] s = VOk [] s"
| "run_legs leg leg_regs (i # is) s = (case leg_regs i (regs s) of
     None \<Rightarrow> VPanic
   | Some rs \<Rightarrow> (case run_leg (leg i) (vm_tx s) (vm_fuel s) rs of
       VPanic \<Rightarrow> VPanic | VDeep \<Rightarrow> VDeep
     | VOk r _ \<Rightarrow> (case run_legs leg leg_regs is s of VOk rest _ \<Rightarrow> VOk (Inr r # rest) s | bad \<Rightarrow> bad)
     | VErr e _ \<Rightarrow> (case run_legs leg leg_regs is s of VOk rest _ \<Rightarrow> VOk (Inl e # rest) s | bad \<Rightarrow> bad)))"

definition rerun_leg :: "val vmm \<Rightarrow> val list \<Rightarrow> leg_out vmm" where
  \<comment> \<open>again, against the merged parent; its fuel is billed\<close>
  "rerun_leg f rs s = (case run_leg f (vm_tx s) (vm_fuel s) rs of
     VPanic \<Rightarrow> VPanic | VDeep \<Rightarrow> VDeep
   | VErr e _ \<Rightarrow> VErr e s
   | VOk r _ \<Rightarrow> VOk r (s\<lparr>vm_fuel := vm_fuel s - lg_used r\<rparr>))"

definition bill :: "nat \<Rightarrow> unit vmm" where
  "bill used s = VOk () (s\<lparr>vm_fuel := vm_fuel s - used\<rparr>)"

definition merge_tx :: "handler_delta \<Rightarrow> unit vmm" where
  "merge_tx d = to_tx (\<lambda>t. Some (merge_delta t d))"

definition conflicts :: "u128 list \<Rightarrow> handler_delta \<Rightarrow> bool" where
  "conflicts batch_writes d \<longleftrightarrow> list_ex (\<lambda>k. k \<in> set batch_writes) (map fst (d_reads d))"

definition settle_leg :: "(nat \<Rightarrow> val vmm) \<Rightarrow> (nat \<Rightarrow> val list \<Rightarrow> val list option) \<Rightarrow> u128 list \<Rightarrow> nat \<Rightarrow> leg_out \<Rightarrow> leg_out vmm" where
  \<comment> \<open>the leg's own result, or that of a re-run when a merged leg wrote what it read\<close>
  "settle_leg leg leg_regs batch_writes i r s = (if conflicts batch_writes (lg_delta r)
     then (case leg_regs i (regs s) of None \<Rightarrow> VPanic | Some rs \<Rightarrow> rerun_leg (leg i) rs s)
     else VOk r s)"

primrec merge_legs :: "(nat \<Rightarrow> val vmm) \<Rightarrow> (nat \<Rightarrow> val list \<Rightarrow> val list option) \<Rightarrow> (nat \<Rightarrow> leg_out \<Rightarrow> 'a \<Rightarrow> 'a vmm)
    \<Rightarrow> u128 list \<Rightarrow> (nat \<times> (vm_error + leg_out)) list \<Rightarrow> 'a \<Rightarrow> 'a vmm" where
  "merge_legs leg leg_regs finish batch_writes [] acc = vm_ret acc"
| "merge_legs leg leg_regs finish batch_writes (ir # irs) acc = (case snd ir of
     Inl e \<Rightarrow> vm_err e
   | Inr r \<Rightarrow> vm_bind (bill (lg_used r)) (\<lambda>_. vm_bind (settle_leg leg leg_regs batch_writes (fst ir) r) (\<lambda>r'.
       vm_bind (merge_tx (lg_delta r')) (\<lambda>_. vm_bind (finish (fst ir) r' acc) (\<lambda>acc'.
       merge_legs leg leg_regs finish (batch_writes @ map fst (d_writes (lg_delta r'))) irs acc')))))"

definition fork_join :: "(nat \<Rightarrow> val vmm) \<Rightarrow> (nat \<Rightarrow> val list \<Rightarrow> val list option) \<Rightarrow> (nat \<Rightarrow> leg_out \<Rightarrow> 'a \<Rightarrow> 'a vmm) \<Rightarrow> nat \<Rightarrow> 'a \<Rightarrow> 'a vmm" where
  "fork_join leg leg_regs finish n acc = vm_bind (run_legs leg leg_regs [0..<n]) (\<lambda>results.
     merge_legs leg leg_regs finish [] (zip [0..<n] results) acc)"

subsection \<open>Parallel blocks and events\<close>

definition i_parallel_begin :: "runner \<Rightarrow> nat \<Rightarrow> nat \<Rightarrow> parallel_range list \<Rightarrow> unit vmm" where
  "i_parallel_begin X mi fi ranges = fork_join (\<lambda>i. X mi fi (unat (pr_start (ranges ! i)))) (\<lambda>i rs. Some rs)
     (\<lambda>i r _. case pr_dst (ranges ! i) of Some dst \<Rightarrow> set_reg dst (lg_value r) | None \<Rightarrow> vm_ret ()) (length ranges) ()"

definition i_parallel_yield :: "venv \<Rightarrow> u16 option \<Rightarrow> val vmm" where
  "i_parallel_yield E r = (case r of Some x \<Rightarrow> force_reg E x | None \<Rightarrow> vm_ret VUnit)"

definition i_parallel_for_skip :: "val vmm" where
  "i_parallel_for_skip s = VOk VUnit (s\<lparr>parallel_skip := True\<rparr>)"

definition for_regs :: "val list \<Rightarrow> u16 \<Rightarrow> u16 \<Rightarrow> nat \<Rightarrow> val list \<Rightarrow> val list option" where
  "for_regs source id_reg idx_reg i rs = (if unat id_reg < length rs \<and> unat idx_reg < length rs
     then Some (rs[unat id_reg := source ! i, unat idx_reg := VInt (int i)]) else None)"

definition i_parallel_for_begin :: "venv \<Rightarrow> runner \<Rightarrow> nat \<Rightarrow> nat \<Rightarrow> u32 \<Rightarrow> u16 \<Rightarrow> u16 \<Rightarrow> u16 \<Rightarrow> u16 \<Rightarrow> unit vmm" where
  "i_parallel_for_begin E X mi fi body_start source_reg output_reg id_reg idx_reg =
     vm_bind (force_reg E source_reg) (\<lambda>sv. vm_bind (force_reg E output_reg) (\<lambda>ov. case sv of
       VArray source \<Rightarrow> (case ov of
         VArray output \<Rightarrow>
          (if length output \<noteq> length source then vm_err (ParallelLength (length source) (length output))
           else vm_bind (fork_join (\<lambda>i. X mi fi (unat body_start)) (for_regs source id_reg idx_reg)
             (\<lambda>i r out. vm_ret (if lg_skip r then out else out[i := lg_value r])) (length source) output) (\<lambda>out.
             set_reg output_reg (VArray out)))
       | _ \<Rightarrow> vm_err ParallelOutput)
     | _ \<Rightarrow> vm_err ParallelSource))"

definition dispatch_list :: "bc_module list \<Rightarrow> string \<Rightarrow> (nat \<times> u16) list" where
  "dispatch_list ms key = concat (map (\<lambda>(mi, m). case hm_get (handler_dispatch m) key of
     None \<Rightarrow> [] | Some idxs \<Rightarrow> map (Pair mi) idxs) (zip [0..<length ms] ms))"

definition dispatch_handlers_parallel :: "venv \<Rightarrow> runner \<Rightarrow> string \<Rightarrow> string \<Rightarrow> val \<Rightarrow> unit vmm" where
  "dispatch_handlers_parallel E X emit_module struct_name v =
    (let dispatch = dispatch_list (ve_modules E) (emit_module @ ''::'' @ struct_name) in
     if dispatch = [] then vm_ret ()
     else if length dispatch = 1
     then vm_bind (vm_call E X (fst (hd dispatch)) (unat (snd (hd dispatch))) [v]) (\<lambda>_. vm_ret ())
     else fork_join (\<lambda>i. vm_call E X (fst (dispatch ! i)) (unat (snd (dispatch ! i))) [v]) (\<lambda>i rs. Some rs)
       (\<lambda>i r _. vm_ret ()) (length dispatch) ())"

definition i_emit :: "venv \<Rightarrow> runner \<Rightarrow> bc_module \<Rightarrow> u16 \<Rightarrow> unit vmm" where
  "i_emit E X m r = vm_bind (force_reg E r) (\<lambda>v. case v of
     VStruct nm fs \<Rightarrow> vm_bind (to_tx (\<lambda>t. Some (emit t \<lparr>ev_module = mod_name m, ev_name = nm, ev_args = map snd fs\<rparr>))) (\<lambda>_.
       dispatch_handlers_parallel E X (mod_name m) nm v)
   | _ \<Rightarrow> vm_err EmitExpected)"

subsection \<open>The dispatch loop\<close>

datatype flow = Goto nat | Done val

definition go :: "nat \<Rightarrow> unit vmm \<Rightarrow> flow vmm" where
  "go pc f = vm_bind f (\<lambda>_. vm_ret (Goto pc))"

primrec step :: "venv \<Rightarrow> runner \<Rightarrow> nat \<Rightarrow> nat \<Rightarrow> bc_module \<Rightarrow> bc_fn \<Rightarrow> nat \<Rightarrow> instr \<Rightarrow> flow vmm" where
  \<comment> \<open>\<open>pc\<close> is already past the instruction\<close>
  "step E X mi fi m f pc (ILoadConst dst idx) = go pc (i_load_const f dst idx)"
| "step E X mi fi m f pc (IMove dst src) = go pc (i_move dst src)"
| "step E X mi fi m f pc (IBin bop dst lhs rhs) = go pc (i_bin E bop dst lhs rhs)"
| "step E X mi fi m f pc (IUn uop dst src) = go pc (i_un E uop dst src)"
| "step E X mi fi m f pc (IJump offset) = vm_ret (Goto (jump pc offset))"
| "step E X mi fi m f pc (IJumpIfFalse cond offset) =
     vm_bind (force_reg E cond) (\<lambda>v. vm_ret (Goto (if v = VBool False then jump pc offset else pc)))"
| "step E X mi fi m f pc (ICall dst callee a n) = go pc (i_call E X mi dst callee a n)"
| "step E X mi fi m f pc (ICallHost dst imp a n) = go pc (i_call_host E m dst imp a n)"
| "step E X mi fi m f pc (ICallExternal dst mn fn a n vw pu) = go pc (i_call_external E X f dst mn fn a n)"
| "step E X mi fi m f pc (IMakeInterface dst nm r) = go pc (i_make_interface E f dst nm r)"
| "step E X mi fi m f pc (ICallExternalDyn dst r fn a n vw pu) = go pc (i_call_dyn E X f dst r fn a n)"
| "step E X mi fi m f pc (IReturn src) = vm_bind (get_reg src) (\<lambda>v. vm_ret (Done v))"
| "step E X mi fi m f pc IReturnUnit = vm_ret (Done VUnit)"
| "step E X mi fi m f pc (IBuiltinResource dst src) = go pc (i_resource E dst src)"
| "step E X mi fi m f pc (IBuiltinUnwrap dst src) = go pc (i_unwrap E dst src)"
| "step E X mi fi m f pc (IBuiltinAddress dst src) = go pc (i_address E dst src)"
| "step E X mi fi m f pc (IBuiltinLen dst src) = go pc (i_len E dst src)"
| "step E X mi fi m f pc (IConvert dst src target) = go pc (i_convert E dst src target)"
| "step E X mi fi m f pc (IMakeArray dst a n) = go pc (i_make_array dst a n)"
| "step E X mi fi m f pc (IArrayGet dst arr idx) = go pc (i_array_get E dst arr idx)"
| "step E X mi fi m f pc (IArrayAppend dst arr elem) = go pc (i_array_append E dst arr elem)"
| "step E X mi fi m f pc (IMakeSet dst a n) = go pc (i_make_set E dst a n)"
| "step E X mi fi m f pc (IMakeDict dst a n) = go pc (i_make_dict E dst a n)"
| "step E X mi fi m f pc (IBuiltinCall dst nm a n) = go pc (i_builtin_call E f dst nm a n)"
| "step E X mi fi m f pc (IMakeStruct dst sh a n) = go pc (i_make_struct m dst sh a n)"
| "step E X mi fi m f pc (IFieldGet dst src nm) = go pc (i_field_get E f dst src nm)"
| "step E X mi fi m f pc (IFieldSet dst nm v) = go pc (i_field_set E f dst nm v)"
| "step E X mi fi m f pc (IKvGet dst k) = go pc (i_kv_get E m dst k)"
| "step E X mi fi m f pc (IKvPut src k) = go pc (i_kv_put E m src k)"
| "step E X mi fi m f pc (IKvGetPath dst p) = go pc (i_kv_get_path E m dst p)"
| "step E X mi fi m f pc (IKvPutPath src p) = go pc (i_kv_put_path E m src p)"
| "step E X mi fi m f pc (IReadBatch g) = go pc (i_read_batch E m f g)"
| "step E X mi fi m f pc (IPrefetchMap arr st) = go pc (i_prefetch_map E m arr st)"
| "step E X mi fi m f pc (IEmit r) = go pc (i_emit E X m r)"
| "step E X mi fi m f pc (IParallelBegin ranges after_pc) = go (unat after_pc) (i_parallel_begin X mi fi ranges)"
| "step E X mi fi m f pc (IParallelYield r) = vm_bind (i_parallel_yield E r) (\<lambda>v. vm_ret (Done v))"
| "step E X mi fi m f pc (IParallelForBegin body_start body_end src out id_reg idx_reg after_pc) =
     go (unat after_pc) (i_parallel_for_begin E X mi fi body_start src out id_reg idx_reg)"
| "step E X mi fi m f pc (IArrayAlloc dst len d) = go pc (i_array_alloc E dst len d)"
| "step E X mi fi m f pc (IReserve dst st c) = go pc (i_reserve E m dst st c)"
| "step E X mi fi m f pc IParallelForSkip = vm_bind i_parallel_for_skip (\<lambda>v. vm_ret (Done v))"
| "step E X mi fi m f pc (IContext dst kind) = go pc (i_context dst kind)"
| "step E X mi fi m f pc (IMakeTuple dst a n) = go pc (i_make_tuple dst a n)"
| "step E X mi fi m f pc (ITupleGet dst src idx) = go pc (i_tuple_get E dst src idx)"
| "step E X mi fi m f pc (IMakeEnum dst sh v a n) = go pc (i_make_enum m dst sh v a n)"
| "step E X mi fi m f pc (IEnumTag dst src) = go pc (i_enum_tag E m dst src)"
| "step E X mi fi m f pc (IEnumPayload dst src idx) = go pc (i_enum_payload E dst src idx)"
| "step E X mi fi m f pc (IMapGet dst st k) = go pc (i_map_get E m dst st k)"
| "step E X mi fi m f pc (IMapPut st k src) = go pc (i_map_put E m st k src)"
| "step E X mi fi m f pc (IPMapGet dst st k) = go pc (i_pmap_get E m dst st k)"
| "step E X mi fi m f pc (IPMapPut st k src) = go pc (i_pmap_put E m st k src)"
| "step E X mi fi m f pc (IPMapContains dst st k) = go pc (i_pmap_contains E m dst st k)"
| "step E X mi fi m f pc (IPVecGet dst st i) = go pc (i_pvec_get E m dst st i)"
| "step E X mi fi m f pc (IPVecSet st i src) = go pc (i_pvec_set E m st i src)"
| "step E X mi fi m f pc (IPVecPush dst st src) = go pc (i_pvec_push E m dst st src)"
| "step E X mi fi m f pc (IPVecLen dst st) = go pc (i_pvec_len E m dst st)"
| "step E X mi fi m f pc (IPMapEntries dst st) = go pc (i_pmap_entries E m dst st)"
| "step E X mi fi m f pc (IPMapKeys dst st) = go pc (i_pmap_keys E m dst st)"
| "step E X mi fi m f pc (IPMapValues dst st) = go pc (i_pmap_values E m dst st)"
| "step E X mi fi m f pc (IPVecToArray dst st) = go pc (i_pvec_to_array E m dst st)"
| "step E X mi fi m f pc (IPMapAppendUnique st k e) = go pc (i_pmap_append_unique E m st k e)"
| "step E X mi fi m f pc (IPMapPutUnique st k src) = go pc (i_pmap_put_unique E m st k src)"
| "step E X mi fi m f pc (IPMapWalkInit dst st) = go pc (i_pmap_walk_init E m dst st)"
| "step E X mi fi m f pc (IPMapWalkNext c v off) = vm_bind (i_pmap_walk_next E pc c v off) (\<lambda>p. vm_ret (Goto p))"
| "step E X mi fi m f pc (IPBTreeGet dst st k) = go pc (i_pbtree_get E m dst st k)"
| "step E X mi fi m f pc (IPBTreePut st k src) = go pc (i_pbtree_put E m st k src)"
| "step E X mi fi m f pc (IPBTreeContains dst st k) = go pc (i_pbtree_contains E m dst st k)"
| "step E X mi fi m f pc (IPBTreeRange dst st lo hi) = go pc (i_pbtree_range E m dst st lo hi)"
| "step E X mi fi m f pc (IPBTreeWalkInit dst st) = go pc (i_pbtree_walk_init m dst st)"
| "step E X mi fi m f pc (IPBTreeWalkNext c v off) = vm_bind (i_pbtree_walk_next E pc c v off) (\<lambda>p. vm_ret (Goto p))"
| "step E X mi fi m f pc (IPBTreePutUnique st k src) = go pc (i_pbtree_put_unique E m st k src)"
| "step E X mi fi m f pc (IPBTreeAppendUnique st k e) = go pc (i_pbtree_append_unique E m st k e)"
| "step E X mi fi m f pc (IPMapDelete st k) = go pc (i_pmap_delete E m st k)"
| "step E X mi fi m f pc (IPBTreeDelete st k) = go pc (i_pbtree_delete E m st k)"
| "step E X mi fi m f pc (IPMapRemoveUnique st k e) = go pc (i_pmap_remove_unique E m st k e)"
| "step E X mi fi m f pc (IPMapRemoveFromList st k e) = go pc (i_pmap_remove_from_list E m st k e)"
| "step E X mi fi m f pc (IPBTreeRemoveUnique st k e) = go pc (i_pbtree_remove_unique E m st k e)"
| "step E X mi fi m f pc (IPBTreeRemoveFromList st k e) = go pc (i_pbtree_remove_from_list E m st k e)"
| "step E X mi fi m f pc (IIncReg r) = go pc (i_inc_reg E r)"

primrec exec :: "nat \<Rightarrow> venv \<Rightarrow> runner" where
  \<comment> \<open>\<^verbatim>\<open>call_body_at\<close>; the first argument bounds the unfoldings\<close>
  "exec 0 E mi fi pc = vm_deep"
| "exec (Suc n) E mi fi pc = vm_bind (vm_index (ve_modules E) mi) (\<lambda>m. vm_bind (vm_index (functions_of m) fi) (\<lambda>f.
     vm_bind tick (\<lambda>_.
     if pc < length (code f)
     then vm_bind (step E (exec n E) mi fi m f (pc + 1) (code f ! pc)) (\<lambda>fl. case fl of
       Goto pc' \<Rightarrow> exec n E mi fi pc' | Done v \<Rightarrow> vm_ret v)
     else vm_err PcOutOfBounds)))"

subsection \<open>Entry points\<close>

definition run_world :: "venv \<Rightarrow> nat \<Rightarrow> string \<Rightarrow> val list \<Rightarrow> nat \<Rightarrow> tx \<Rightarrow> ((vm_error + val) \<times> tx) outcome" where
  "run_world E main_idx name args fuel t =
    (let s = \<lparr>vm_fuel = fuel, vm_tx = t, parallel_skip = False, regs = []\<rparr> in
     vm_bind (vm_index (ve_modules E) main_idx) (\<lambda>m s. case hm_get (fn_index m) name of
       None \<Rightarrow> VOk (Inl (UnknownFunction name), vm_tx s) s
     | Some fn_idx \<Rightarrow>
        (case vm_bind (vm_call E (exec (Suc fuel) E) main_idx fn_idx args) (vm_force E) (s\<lparr>vm_tx := set_lazy (vm_tx s) True\<rparr>) of
           VPanic \<Rightarrow> VPanic | VDeep \<Rightarrow> VDeep
         | VOk v s' \<Rightarrow> vm_bind (to_tx (flush_pending (ve_lib E))) (\<lambda>_ s2. VOk (Inr v, set_lazy (vm_tx s2) False) s2) s'
         | VErr e s' \<Rightarrow> vm_bind (to_tx (flush_pending (ve_lib E))) (\<lambda>_ s2. VOk (Inl e, set_lazy (vm_tx s2) False) s2) s')) s)"

definition run_full :: "venv \<Rightarrow> bc_module \<Rightarrow> string \<Rightarrow> val list \<Rightarrow> nat \<Rightarrow> tx \<Rightarrow> ((vm_error + val) \<times> tx) outcome" where
  "run_full E m name args fuel t = run_world (E\<lparr>ve_modules := [m]\<rparr>) 0 name args fuel t"

definition run_with_host :: "venv \<Rightarrow> bc_module \<Rightarrow> string \<Rightarrow> val list \<Rightarrow> nat \<Rightarrow> ((vm_error + val) \<times> tx) outcome" where
  "run_with_host E m name args fuel = run_full E m name args fuel (tx_new (\<lambda>_. None))"

definition run_vm :: "venv \<Rightarrow> bc_module \<Rightarrow> string \<Rightarrow> val list \<Rightarrow> nat \<Rightarrow> ((vm_error + val) \<times> tx) outcome" where
  "run_vm E m name args fuel = run_with_host (E\<lparr>ve_host := []\<rparr>) m name args fuel"

end
