(* ===== verification/VmProps.thy ===== *)
theory VmProps
  imports Vm OpsProps
begin

section \<open>The virtual machine: fuel and guards\<close>

text \<open>
  Every step of the machine keeps the fuel or uses some of it (\<open>bounded\<close>), instruction by instruction; the
  instructions on collections are covered once, for every collection whose operations are bounded
  (\<open>bounded_coll\<close>). With that the dispatch loop ends: each of its unfoldings pays one unit of fuel.
\<close>

subsection \<open>Bounded computations\<close>

definition fuel_below :: "nat \<Rightarrow> 'a outcome \<Rightarrow> bool" where
  "fuel_below k r \<longleftrightarrow> (case r of VOk _ s \<Rightarrow> vm_fuel s \<le> k | VErr _ s \<Rightarrow> vm_fuel s \<le> k | VPanic \<Rightarrow> True | VDeep \<Rightarrow> False)"

definition bounded :: "nat \<Rightarrow> 'a vmm \<Rightarrow> bool" where
  \<comment> \<open>from a state with at most \<open>k\<close> units of fuel: ends, and gives no fuel back\<close>
  "bounded k f \<longleftrightarrow> (\<forall>s. vm_fuel s \<le> k \<longrightarrow> fuel_below (vm_fuel s) (f s))"

named_theorems bounds

lemma fuel_below_simps [simp]:
  "fuel_below k (VOk x s) \<longleftrightarrow> vm_fuel s \<le> k" "fuel_below k (VErr e s) \<longleftrightarrow> vm_fuel s \<le> k"
  "fuel_below k VPanic" "\<not> fuel_below k VDeep"
  by (simp_all add: fuel_below_def)

lemma fuel_below_trans: "fuel_below k r \<Longrightarrow> k \<le> k' \<Longrightarrow> fuel_below k' r"
  by (cases r) auto

lemma boundedI: "(\<And>s. vm_fuel s \<le> k \<Longrightarrow> fuel_below (vm_fuel s) (f s)) \<Longrightarrow> bounded k f"
  by (simp add: bounded_def)

lemma boundedD: "bounded k f \<Longrightarrow> vm_fuel s \<le> k \<Longrightarrow> fuel_below (vm_fuel s) (f s)"
  by (simp add: bounded_def)

lemma bounded_mono: "bounded k f \<Longrightarrow> j \<le> k \<Longrightarrow> bounded j f"
  by (simp add: bounded_def)

lemma bounded_ret [bounds]: "bounded k (vm_ret x)"
  by (simp add: bounded_def vm_ret_def)

lemma bounded_err [bounds]: "bounded k (vm_err e)"
  by (simp add: bounded_def vm_err_def)

lemma bounded_panic [bounds]: "bounded k vm_panic"
  by (simp add: bounded_def vm_panic_def)

lemma bounded_bind [bounds]:
  assumes f: "bounded k f" and g: "\<And>x. bounded k (g x)"
  shows "bounded k (vm_bind f g)"
proof (rule boundedI)
  fix s :: vm assume s: "vm_fuel s \<le> k"
  show "fuel_below (vm_fuel s) (vm_bind f g s)"
    using boundedD [OF f s] boundedD [OF g] s
    by (cases "f s") (auto simp: vm_bind_def intro: fuel_below_trans order_trans)
qed

lemma bounded_if [bounds]: "(b \<Longrightarrow> bounded k f) \<Longrightarrow> (\<not> b \<Longrightarrow> bounded k g) \<Longrightarrow> bounded k (if b then f else g)"
  by simp

lemma bounded_let [bounds]: "bounded k (f x) \<Longrightarrow> bounded k (Let x f)"
  by simp

lemma bounded_case_prod [bounds]: "(\<And>a b. bounded k (f a b)) \<Longrightarrow> bounded k (case p of (a, b) \<Rightarrow> f a b)"
  by (cases p) simp

lemma bounded_case_sum [bounds]: "(\<And>a. bounded k (f a)) \<Longrightarrow> (\<And>b. bounded k (g b)) \<Longrightarrow> bounded k (case v of Inl a \<Rightarrow> f a | Inr b \<Rightarrow> g b)"
  by (cases v) simp_all

lemma bounded_case_option [bounds]: "bounded k f \<Longrightarrow> (\<And>x. bounded k (g x)) \<Longrightarrow> bounded k (case v of None \<Rightarrow> f | Some x \<Rightarrow> g x)"
  by (cases v) simp_all

lemma bounded_index [bounds]: "bounded k (vm_index xs i)"
  by (simp add: vm_index_def bounds)

lemma bounded_opt [bounds]: "bounded k (vm_opt e v)"
  by (simp add: vm_opt_def bounds)

lemma bounded_op [bounds]: "bounded k (vm_op v)"
  by (simp add: vm_op_def bounds)

lemma bounded_map [bounds]: "(\<And>x. bounded k (f x)) \<Longrightarrow> bounded k (vm_map f xs)"
  by (induction xs) (simp_all add: bounds)

lemma bounded_in_tx [bounds]: "bounded k (in_tx f)"
  by (rule boundedI) (auto simp: in_tx_def split: option.split)

lemma bounded_to_tx [bounds]: "bounded k (to_tx f)"
  by (rule boundedI) (auto simp: to_tx_def split: option.split)

lemma bounded_res_tx [bounds]: "bounded k (res_tx f)"
  by (rule boundedI) (auto simp: res_tx_def split: option.split sum.split)

lemma bounded_get_reg [bounds]: "bounded k (get_reg r)"
  by (rule boundedI) (simp add: get_reg_def vm_index_def vm_ret_def vm_panic_def)

lemma bounded_set_reg [bounds]: "bounded k (set_reg r v)"
  by (rule boundedI) (simp add: set_reg_def)


subsection \<open>Helpers\<close>

lemma bounded_helpers [bounds]:
  "bounded k (vm_force E v)" "bounded k (force_reg E r)" "bounded k (force_reg_spine E r)"
  "bounded k (state_root_at m i)" "bounded k (state_type_at m i)" "bounded k (vm_write E cell v)"
  "bounded k (read_forced E cell t)" "bounded k (record_pvec cell t)" "bounded k (vec_index n)"
  by (intro bounds | simp only: vm_force_def force_reg_def force_reg_spine_def state_root_at_def state_type_at_def
    vm_write_def read_forced_def record_pvec_def vec_index_def)+

lemma bounded_const_str [bounds]: "bounded k (const_str f i)"
  by (auto simp: const_str_def intro!: bounds split: const.split)

lemma bounded_slots [bounds]:
  "bounded k (pmap_slot m i)" "bounded k (pbtree_slot m i)" "bounded k (pvec_slot m i)" "bounded k (record_pmap m i)"
  by (auto simp: pmap_slot_def pbtree_slot_def pvec_slot_def record_pmap_def intro!: bounds split: ty.split)

lemma bounded_roots [bounds]:
  "bounded k (pmap_root E c kt vt)" "bounded k (pbtree_root E c kt vt)" "bounded k (pvec_root E c t)"
  by (simp_all add: pmap_root_def pbtree_root_def pvec_root_def bounds)

lemma bounded_compose_map_cell [bounds]: "bounded k (compose_map_cell E root key)"
  by (simp add: compose_map_cell_def bounds)

lemma bounded_cursors [bounds]:
  "bounded k (pbtree_walk_advance_stable E cell prev kt vt)" "bounded k (pmap_walk_entries E m i)"
  by (auto simp: pbtree_walk_advance_stable_def pmap_walk_entries_def intro!: bounds split: val.split)

lemma bounded_find_interface [bounds]: "bounded k (find_interface ms nm)"
  by (induction ms) (simp_all add: bounds)

lemma bounded_check_params [bounds]: "bounded k (check_params got i ws)"
  by (induction ws arbitrary: i) (simp_all add: bounds)

lemma bounded_check_method [bounds]: "bounded k (check_method d target)"
  by (simp add: check_method_def bounds)

lemma bounded_conformance [bounds]: "bounded k (check_iface_conformance d target)"
proof -
  have "bounded k (check_methods ds target)" for ds
    by (induction ds) (simp_all add: bounds)
  then show ?thesis by (simp add: check_iface_conformance_def)
qed

subsection \<open>Instructions\<close>

lemma bounded_values [bounds]:
  "bounded k (i_load_const f dst idx)" "bounded k (i_convert E dst src w)" "bounded k (i_move dst src)"
  "bounded k (i_bin E bop dst lhs rhs)" "bounded k (i_un E uop dst src)" "bounded k (i_inc_reg E r)"
  by (intro bounds | simp only: i_load_const_def i_convert_def i_move_def i_bin_def i_un_def i_inc_reg_def)+

lemma bounded_builtin_values [bounds]:
  "bounded k (i_resource E dst src)" "bounded k (i_unwrap E dst src)" "bounded k (i_address E dst src)"
  "bounded k (i_len E dst src)"
  by (auto simp: i_resource_def i_unwrap_def i_address_def i_len_def intro!: bounds split: val.split)

lemma bounded_make_interface [bounds]: "bounded k (i_make_interface E f dst nm r)"
  by (auto simp: i_make_interface_def intro!: bounds split: val.split)

lemma bounded_call_host [bounds]: "bounded k (i_call_host E m dst imp a n)"
  by (auto simp: i_call_host_def intro!: bounds)

lemma bounded_context [bounds]: "bounded k (i_context dst kind)"
  using boundedD [OF bounded_set_reg] by (auto simp: i_context_def Let_def vm_err_def intro!: boundedI)

lemma bounded_makers [bounds]:
  "bounded k (i_make_array dst a n)" "bounded k (i_make_tuple dst a n)" "bounded k (i_array_alloc E dst len d)"
  "bounded k (i_make_struct m dst sh a n)" "bounded k (i_make_set E dst a n)" "bounded k (i_make_dict E dst a n)"
  "bounded k (i_make_enum m dst sh v a n)" "bounded k (i_builtin_call E f dst nm a w)"
  by (intro bounds | simp only: i_make_array_def i_make_tuple_def i_array_alloc_def i_make_struct_def i_make_set_def
    i_make_dict_def i_make_enum_def i_builtin_call_def)+

lemma bounded_reserve [bounds]: "bounded k (i_reserve E m dst st c)"
  by (auto simp: i_reserve_def intro!: bounds split: val.split)

lemma bounded_fields [bounds]:
  "bounded k (i_field_get E f dst src nm)" "bounded k (i_field_set E f dst nm src)"
  by (auto simp: i_field_get_def i_field_set_def intro!: bounds split: val.split)

lemma bounded_elements [bounds]:
  "bounded k (i_array_append E dst arr elem)" "bounded k (i_array_get E dst arr idx)" "bounded k (i_tuple_get E dst src i)"
  "bounded k (i_enum_tag E m dst src)" "bounded k (i_enum_payload E dst src i)"
  by (auto simp: i_array_append_def i_array_get_def i_tuple_get_def i_enum_tag_def i_enum_payload_def
    intro!: bounds split: val.split)

lemma bounded_cells [bounds]:
  "bounded k (i_kv_get E m dst c)" "bounded k (i_kv_put E m src c)" "bounded k (i_kv_get_path E m dst p)"
  "bounded k (i_kv_put_path E m src p)" "bounded k (i_map_get E m dst st r)" "bounded k (i_map_put E m st r src)"
  by (intro bounds | simp only: i_kv_get_def i_kv_put_def i_kv_get_path_def i_kv_put_path_def i_map_get_def i_map_put_def)+

lemma bounded_read_batch [bounds]: "bounded k (i_read_batch E m f g)"
  by (auto simp: i_read_batch_def read_op_target_def intro!: bounds split: read_op.split)

lemma bounded_prefetch_map [bounds]: "bounded k (i_prefetch_map E m arr st)"
  by (auto simp: i_prefetch_map_def intro!: bounds split: val.split ty.split)

locale bounded_coll =
  fixes C :: coll
  assumes slot: "bounded k (c_slot C m i)"
    and root: "bounded k (c_root C c kt vt)"
    and get: "bounded k (c_get C kt vt h key)"
    and contains: "bounded k (c_contains C kt vt h key)"
    and set: "bounded k (c_set C kt vt h key v)"
    and remove: "bounded k (c_remove C kt vt h key)"
begin

lemmas ops = slot root get contains set remove

lemma bounded_coll_put: "bounded k (coll_put E C m st key src)"
  by (auto simp: coll_put_def intro!: bounds ops)

lemma bounded_coll_contains: "bounded k (coll_contains E C m dst st key)"
  by (auto simp: coll_contains_def intro!: bounds ops)

lemma bounded_coll_put_unique: "bounded k (coll_put_unique E C m st key src)"
  by (auto simp: coll_put_unique_def intro!: bounds ops)

lemma bounded_coll_append_unique: "bounded k (coll_append_unique E C m st key e)"
  by (auto simp: coll_append_unique_def Let_def intro!: bounds ops)

lemma bounded_coll_delete: "bounded k (coll_delete E C m st key)"
  by (auto simp: coll_delete_def intro!: bounds ops)

lemma bounded_coll_remove_unique: "bounded k (coll_remove_unique E C m st key e)"
  by (auto simp: coll_remove_unique_def intro!: bounds ops)

lemma bounded_coll_remove_from_list: "bounded k (coll_remove_from_list E C m st key e)"
  by (auto simp: coll_remove_from_list_def Let_def intro!: bounds ops split: val.split)

lemmas coll_ops = bounded_coll_put bounded_coll_contains bounded_coll_put_unique bounded_coll_append_unique
  bounded_coll_delete bounded_coll_remove_unique bounded_coll_remove_from_list

end

interpretation pmc: bounded_coll "pmap_coll E" for E
  by unfold_locales (auto simp: pmap_coll_def Let_def intro!: bounds)

interpretation btc: bounded_coll "pbtree_coll E" for E
  by unfold_locales (auto simp: pbtree_coll_def Let_def intro!: bounds)

lemmas coll_arms = i_pmap_put_def i_pmap_contains_def i_pmap_put_unique_def i_pmap_append_unique_def i_pmap_delete_def
  i_pmap_remove_unique_def i_pmap_remove_from_list_def i_pbtree_put_def i_pbtree_contains_def i_pbtree_put_unique_def
  i_pbtree_append_unique_def i_pbtree_delete_def i_pbtree_remove_unique_def i_pbtree_remove_from_list_def

lemma bounded_coll_arms [bounds]:
  "bounded k (i_pmap_put E m st r src)" "bounded k (i_pmap_contains E m dst st r)" "bounded k (i_pmap_put_unique E m st r src)"
  "bounded k (i_pmap_append_unique E m st r e)" "bounded k (i_pmap_delete E m st r)" "bounded k (i_pmap_remove_unique E m st r e)"
  "bounded k (i_pmap_remove_from_list E m st r e)" "bounded k (i_pbtree_put E m st r src)" "bounded k (i_pbtree_contains E m dst st r)"
  "bounded k (i_pbtree_put_unique E m st r src)" "bounded k (i_pbtree_append_unique E m st r e)" "bounded k (i_pbtree_delete E m st r)"
  "bounded k (i_pbtree_remove_unique E m st r e)" "bounded k (i_pbtree_remove_from_list E m st r e)"
  by (intro bounds pmc.coll_ops btc.coll_ops | simp only: coll_arms)+

lemma bounded_map_arms [bounds]:
  "bounded k (i_pmap_get E m dst st r)" "bounded k (i_pmap_entries E m dst st)" "bounded k (i_pmap_keys E m dst st)"
  "bounded k (i_pmap_values E m dst st)" "bounded k (i_pmap_walk_init E m dst st)" "bounded k (i_pbtree_get E m dst st r)"
  "bounded k (i_pbtree_range E m dst st lo hi)" "bounded k (i_pbtree_walk_init m dst st)"
  by (intro bounds | simp only: i_pmap_get_def i_pmap_entries_def i_pmap_keys_def i_pmap_values_def i_pmap_walk_init_def
    i_pbtree_get_def i_pbtree_range_def i_pbtree_walk_init_def)+

lemma bounded_walks [bounds]:
  "bounded k (i_pmap_walk_next E pc c v off)" "bounded k (i_pbtree_walk_next E pc c v off)"
  by (auto simp: i_pmap_walk_next_def i_pbtree_walk_next_def intro!: bounds split: val.split)

lemma bounded_pvec_arms [bounds]:
  "bounded k (i_pvec_get E m dst st i)" "bounded k (i_pvec_set E m st i src)" "bounded k (i_pvec_push E m dst st src)"
  "bounded k (i_pvec_len E m dst st)" "bounded k (i_pvec_to_array E m dst st)"
  by (auto simp: i_pvec_get_def i_pvec_set_def i_pvec_push_def i_pvec_len_def i_pvec_to_array_def intro!: bounds split: val.split)

subsection \<open>Calls and legs\<close>

lemma bounded_in_frame [bounds]:
  assumes "bounded k f"
  shows "bounded k (in_frame rs f)"
proof (rule boundedI)
  fix s :: vm assume s: "vm_fuel s \<le> k"
  show "fuel_below (vm_fuel s) (in_frame rs f s)"
    using boundedD [OF assms, of "s\<lparr>regs := rs\<rparr>"] s by (cases "f (s\<lparr>regs := rs\<rparr>)") (auto simp: in_frame_def)
qed

lemma bounded_finally [bounds]:
  assumes "bounded k f"
  shows "bounded k (finally_tx f g)"
proof (rule boundedI)
  fix s :: vm assume s: "vm_fuel s \<le> k"
  show "fuel_below (vm_fuel s) (finally_tx f g s)"
    using boundedD [OF assms s] by (cases "f s") (auto simp: finally_tx_def)
qed

lemma run_leg_bounded:
  assumes "bounded k f" and "budget \<le> k"
  shows "run_leg f parent budget rs \<noteq> VDeep"
  using boundedD [OF assms(1), of "\<lparr>vm_fuel = budget, vm_tx = shadow_of parent, parallel_skip = False, regs = rs\<rparr>"] assms(2)
  by (auto simp: run_leg_def split: outcome.split)

lemma run_legs_state: "run_legs leg lr is s = VOk rs s' \<Longrightarrow> s' = s"
  by (cases "is") (auto split: option.splits outcome.splits)

lemma run_legs_no_err: "run_legs leg lr is s \<noteq> VErr e s'"
  by (induction "is" arbitrary: e s') (auto split: option.splits outcome.splits)

lemma bounded_run_legs [bounds]:
  assumes "\<And>i. bounded k (leg i)"
  shows "bounded k (run_legs leg lr is)"
proof (rule boundedI)
  fix s :: vm assume s: "vm_fuel s \<le> k"
  have "run_legs leg lr is s \<noteq> VDeep"
    using run_leg_bounded [OF assms s]
    by (induction "is") (auto simp: run_legs_no_err split: option.split outcome.split)
  then show "fuel_below (vm_fuel s) (run_legs leg lr is s)"
    by (cases "run_legs leg lr is s") (auto simp: run_legs_no_err dest: run_legs_state)
qed

lemma bounded_rerun_leg [bounds]: "bounded k f \<Longrightarrow> bounded k (rerun_leg f rs)"
  by (rule boundedI) (auto simp: rerun_leg_def dest: run_leg_bounded split: outcome.split)

lemma bounded_bill [bounds]: "bounded k (bill n)"
  by (rule boundedI) (simp add: bill_def)

lemma bounded_merge_tx [bounds]: "bounded k (merge_tx d)"
  by (simp add: merge_tx_def bounds)

lemma bounded_settle_leg [bounds]:
  assumes "\<And>i. bounded k (leg i)"
  shows "bounded k (settle_leg leg lr ws i r)"
proof (rule boundedI)
  fix s :: vm assume "vm_fuel s \<le> k"
  then show "fuel_below (vm_fuel s) (settle_leg leg lr ws i r s)"
    using boundedD [OF bounded_rerun_leg [OF assms]] by (auto simp: settle_leg_def split: option.split)
qed

lemma bounded_merge_legs [bounds]:
  assumes "\<And>i. bounded k (leg i)" and "\<And>i r a. bounded k (finish i r a)"
  shows "bounded k (merge_legs leg lr finish ws irs acc)"
  by (induction irs arbitrary: ws acc) (auto intro!: bounds assms)

lemma bounded_fork_join [bounds]:
  "(\<And>i. bounded k (leg i)) \<Longrightarrow> (\<And>i r a. bounded k (finish i r a)) \<Longrightarrow> bounded k (fork_join leg lr finish n acc)"
  by (auto simp: fork_join_def intro!: bounds)

subsection \<open>The dispatch loop\<close>

locale bounded_runner =
  fixes k :: nat and X :: runner
  assumes runs: "bounded k (X mi fi pc)"
begin

lemma bounded_call: "bounded k (vm_call E X mi fi args)"
  by (auto simp: vm_call_def call_body_def Let_def intro!: bounds runs)

lemma bounded_call_entry: "bounded k (call_entry E X dst mn fn a n)"
  by (auto simp: call_entry_def intro!: bounds bounded_call)

lemma bounded_calls:
  "bounded k (i_call E X mi dst callee a n)" "bounded k (i_call_external E X f dst mn fn a n)"
  "bounded k (i_call_dyn E X f dst r fn a n)"
  by (auto simp: i_call_def i_call_external_def i_call_dyn_def intro!: bounds bounded_call bounded_call_entry split: val.split)

lemma bounded_parallel: "bounded k (i_parallel_begin X mi fi ranges)"
  "bounded k (i_parallel_for_begin E X mi fi b src out id_reg idx_reg)"
  by (auto simp: i_parallel_begin_def i_parallel_for_begin_def intro!: bounds runs split: val.split)

lemma bounded_emit: "bounded k (i_emit E X m r)"
  by (auto simp: i_emit_def dispatch_handlers_parallel_def Let_def intro!: bounds bounded_call split: val.split)

lemma bounded_go: "bounded k f \<Longrightarrow> bounded k (go pc f)"
  by (simp add: go_def bounds)

lemma bounded_yields: "bounded k (i_parallel_yield E r)" "bounded k i_parallel_for_skip"
  by (auto simp: i_parallel_yield_def i_parallel_for_skip_def bounded_def intro!: bounds boundedD)

lemma bounded_step: "bounded k (step E X mi fi m f pc i)"
  by (cases i) (simp_all only: step.simps, (intro bounds bounded_go bounded_calls bounded_parallel bounded_emit bounded_yields)+)

end

lemma bounded_tick:
  assumes "\<And>x. bounded k (g x)"
  shows "bounded (Suc k) (vm_bind tick g)"
proof (rule boundedI)
  fix s :: vm assume s: "vm_fuel s \<le> Suc k"
  have "fuel_below (vm_fuel s - 1) (g () (s\<lparr>vm_fuel := vm_fuel s - 1\<rparr>))"
    using boundedD [OF assms, of "s\<lparr>vm_fuel := vm_fuel s - 1\<rparr>" "()"] s by simp
  then show "fuel_below (vm_fuel s) (vm_bind tick g s)"
    by (auto simp: vm_bind_def tick_def intro: fuel_below_trans)
qed

lemma bounded_tick_0: "bounded 0 (vm_bind tick g)"
  by (rule boundedI) (simp add: vm_bind_def tick_def)

lemma bounded_flow: "(\<And>pc. bounded k (f pc)) \<Longrightarrow> (\<And>v. bounded k (g v)) \<Longrightarrow> bounded k (case fl of Goto pc \<Rightarrow> f pc | Done v \<Rightarrow> g v)"
  by (cases fl) simp_all

lemma bounded_exec: "bounded k (exec (Suc k) E mi fi pc)"
proof (induction k arbitrary: mi fi pc)
  case 0
  show ?case by (simp add: bounds bounded_tick_0 del: exec.simps(1))
next
  case (Suc k)
  have X: "bounded_runner k (exec (Suc k) E)" by unfold_locales (rule Suc.IH)
  show ?case
    by (subst exec.simps(2)) (intro bounds bounded_tick bounded_flow bounded_runner.bounded_step [OF X] Suc.IH)
qed

interpretation vmr: bounded_runner k "exec (Suc k) E" for k E
  by unfold_locales (rule bounded_exec)

lemma bounded_call_force: "bounded k (vm_bind (vm_call E (exec (Suc k) E) mi fi args) (vm_force E))"
  by (intro bounds vmr.bounded_call)

lemma bind_index: "i < length xs \<Longrightarrow> vm_bind (vm_index xs i) g s = g (xs ! i) s"
  by (simp add: vm_bind_def vm_index_def vm_ret_def)

lemma bind_index_panic: "\<not> i < length xs \<Longrightarrow> vm_bind (vm_index xs i) g s = VPanic"
  by (simp add: vm_bind_def vm_index_def vm_panic_def)

lemma bind_to_tx: "vm_bind (to_tx f) g s = (case f (vm_tx s) of None \<Rightarrow> VPanic | Some t \<Rightarrow> g () (s\<lparr>vm_tx := t\<rparr>))"
  by (simp add: vm_bind_def to_tx_def split: option.split)


subsection \<open>Reentrancy\<close>

definition guard_free :: "u32 \<times> u32 \<Rightarrow> 'a outcome \<Rightarrow> bool" where
  "guard_free g r = (case r of VOk _ s \<Rightarrow> g \<notin> nore_active (vm_tx s) | VErr _ s \<Rightarrow> g \<notin> nore_active (vm_tx s) | _ \<Rightarrow> True)"

lemma guard_free_finally: "guard_free (a, b) (finally_tx f (\<lambda>t. nore_exit t a b) s)"
  by (simp add: guard_free_def finally_tx_def nore_exit_def split: outcome.split)


subsection \<open>Interfaces\<close>

definition implements :: "iface_method \<Rightarrow> bc_module \<Rightarrow> bool" where
  "implements d m \<longleftrightarrow> (\<exists>g \<in> set (functions_of m). is_entry g \<and> unat (n_params g) = length (im_params d)
     \<and> take (length (im_params d)) (param_types g) = map snd (im_params d) \<and> return_type g = im_return_type d
     \<and> (im_is_pure d \<longrightarrow> fn_is_pure g) \<and> (im_is_view d \<longrightarrow> fn_is_view g \<or> fn_is_pure g))"

lemma bind_VOk: "vm_bind f g s = VOk y s' \<longleftrightarrow> (\<exists>x s1. f s = VOk x s1 \<and> g x s1 = VOk y s')"
  by (cases "f s") (auto simp: vm_bind_def)

lemma index_VOk: "vm_index xs i s = VOk y s' \<longleftrightarrow> i < length xs \<and> y = xs ! i \<and> s' = s"
  by (auto simp: vm_index_def vm_ret_def vm_panic_def)

lemma ret_VOk: "vm_ret x s = VOk y s' \<longleftrightarrow> y = x \<and> s' = s" "vm_err e s \<noteq> VOk y s'" "vm_panic s \<noteq> VOk y s'"
  by (auto simp: vm_ret_def vm_err_def vm_panic_def)

lemma opt_VOk: "vm_opt e v s = VOk y s' \<longleftrightarrow> v = Some y \<and> s' = s"
  by (auto simp: vm_opt_def ret_VOk split: option.split)

lemma set_reg_VOk: "set_reg r v s = VOk y s' \<longleftrightarrow> unat r < length (regs s) \<and> s' = s\<lparr>regs := (regs s)[unat r := v]\<rparr>"
  by (auto simp: set_reg_def)

lemmas VOk_simps = bind_VOk index_VOk ret_VOk opt_VOk set_reg_VOk

lemma check_params_True: "check_params got i ws s = VOk True s' \<Longrightarrow> take (length ws) (drop i got) = map snd ws"
  by (induction ws arbitrary: i) (auto simp: VOk_simps Cons_nth_drop_Suc [symmetric] split: if_splits)

lemma check_method_True: "check_method d m s = VOk True s' \<Longrightarrow> implements d m"
  by (auto simp: check_method_def implements_def VOk_simps split: option.splits if_splits
    dest!: check_params_True intro!: bexI [OF _ nth_mem])

lemma check_methods_None: "check_methods ds m s = VOk None s' \<Longrightarrow> \<forall>d \<in> set ds. implements d m"
  by (induction ds arbitrary: s) (auto simp: VOk_simps split: if_splits dest: check_method_True)

lemma find_interface_VOk: "find_interface ms nm s = VOk d s' \<Longrightarrow> \<exists>m \<in> set ms. d \<in> set (interfaces_of m)"
  by (induction ms) (auto simp: VOk_simps split: option.splits)


subsection \<open>Deferred reads\<close>

lemma mapM_NoneI: "x \<in> set xs \<Longrightarrow> f x = None \<Longrightarrow> mapM f xs = None"
  by (induction xs) (auto split: Option.bind_splits)

lemma substitute_unresolved: "contains_pending v \<Longrightarrow> substitute_resolved [] v = None"
  by (induction v rule: contains_pending.induct) (auto simp: list_ex_iff intro!: mapM_NoneI split: Option.bind_splits)

text \<open>C34 (error): The leg of a parallel block cannot use a value whose read is still queued in the parent: the leg has the
  parent's registers, but neither its queue nor its resolved handles, so forcing the register panics.\<close>
theorem leg_panics_on_queued_read:
  assumes "unat r < length rs" and "contains_pending (rs ! unat r)"
  shows "run_leg (vm_bind (force_reg E r) k) parent budget rs = VPanic"
  using assms
  by (simp add: run_leg_def vm_bind_def force_reg_def get_reg_def vm_index_def vm_ret_def vm_force_def in_tx_def force_def
    force_loop.simps shadow_of_def substitute_unresolved)


subsection \<open>A module to run\<close>

definition demo_fn :: bc_fn where
  "demo_fn = \<lparr>fn_name = ''main'', n_params = 0, n_regs = 2, code = [ILoadConst 0 1, IIncReg 0, IReturn 0],
     consts_of = [CStr ''I'', CInt 6], is_entry = True, is_nore = True, read_groups = [], param_types = [],
     return_type = TInt, fn_is_view = False, fn_is_pure = True\<rparr>"

definition demo_module :: bc_module where
  "demo_module = \<lparr>mod_name = ''M'', imports_of = [], import_index = [], state_roots = [], state_types = [],
     state_defaults = [], state_names = [], state_index = [], struct_shapes = [], struct_index = [],
     functions_of = [demo_fn], fn_index = [(''main'', 0)], path_specs = [], handler_dispatch = [], enum_shapes = [],
     enum_index = [], interfaces_of = [\<lparr>id_name = ''I'', id_methods = [\<lparr>im_name = ''main'', im_params = [],
       im_return_type = TInt, im_is_view = True, im_is_pure = False\<rparr>]\<rparr>], interface_index = [(''I'', 0)]\<rparr>"

definition demo_env :: venv where
  "demo_env = \<lparr>ve_lib = twos_lib, ve_float = null_float, ve_text = decimal_lib, ve_host = [], ve_modules = [demo_module],
     tree_fuel = 0\<rparr>"

definition demo_state :: "(u32 \<times> u32) set \<Rightarrow> vm" where
  "demo_state active = \<lparr>vm_fuel = 9, vm_tx = (tx_new (\<lambda>_. None))\<lparr>nore_active := active\<rparr>, parallel_skip = False,
     regs = [VUnit, VStr ''M'']\<rparr>"

lemmas demo_defs = demo_fn_def demo_module_def demo_env_def demo_state_def

theorem leg_panics_on_queued_read_witness:
  "run_leg (vm_bind (force_reg demo_env 1) vm_ret) (tx_new (\<lambda>_. None)) 5 [VUnit, VTuple [VInt 1, VPending 0]] = VPanic"
  by (rule leg_panics_on_queued_read) simp_all


lemma demo_make_interface:
  "i_make_interface demo_env demo_fn 0 0 1 (demo_state {}) = VOk () ((demo_state {})\<lparr>regs := [VInterface ''I'' ''M'', VStr ''M'']\<rparr>)"
  by code_simp


lemma exec_apply:
  "exec (Suc n) E mi fi pc s = (if mi < length (ve_modules E) \<and> fi < length (functions_of (ve_modules E ! mi))
     then if vm_fuel s = 0 then VErr OutOfFuel s
       else let m = ve_modules E ! mi; f = functions_of m ! fi in
       if pc < length (code f)
       then vm_bind (step E (exec n E) mi fi m f (pc + 1) (code f ! pc))
         (\<lambda>fl. case fl of Goto pc' \<Rightarrow> exec n E mi fi pc' | Done v \<Rightarrow> vm_ret v) (s\<lparr>vm_fuel := vm_fuel s - 1\<rparr>)
       else VErr PcOutOfBounds (s\<lparr>vm_fuel := vm_fuel s - 1\<rparr>)
     else VPanic)"
  by (simp add: vm_bind_def vm_index_def vm_ret_def vm_panic_def vm_err_def tick_def Let_def)

lemma bind_cases:
  "f s = VOk x s' \<Longrightarrow> vm_bind f g s = g x s'" "f s = VErr e s' \<Longrightarrow> vm_bind f g s = VErr e s'"
  by (simp_all add: vm_bind_def)

lemma demo_fetch:
  "ve_modules demo_env = [demo_module]" "functions_of demo_module = [demo_fn]" "fn_index demo_module = [(''main'', 0)]"
  "code demo_fn = [ILoadConst 0 1, IIncReg 0, IReturn 0]" "consts_of demo_fn = [CStr ''I'', CInt 6]"
  "n_params demo_fn = 0" "n_regs demo_fn = 2" "is_nore demo_fn"
  by (simp_all add: demo_defs)

lemmas exec_defs = exec_apply Let_def bind_cases go_def vm_ret_def get_reg_def set_reg_def vm_index_def

lemma demo_exec_2:
  "exec (Suc n) demo_env 0 0 2 \<lparr>vm_fuel = Suc k, vm_tx = t, parallel_skip = p, regs = [a, b]\<rparr>
   = VOk a \<lparr>vm_fuel = k, vm_tx = t, parallel_skip = p, regs = [a, b]\<rparr>"
  by (simp add: exec_defs demo_fetch del: exec.simps)

lemma demo_exec_1:
  "exec (Suc (Suc n)) demo_env 0 0 (Suc 0) \<lparr>vm_fuel = Suc (Suc k), vm_tx = t, parallel_skip = p, regs = [VInt i, b]\<rparr>
   = VOk (VInt (i + 1)) \<lparr>vm_fuel = k, vm_tx = t, parallel_skip = p, regs = [VInt (i + 1), b]\<rparr>"
  by (subst exec_apply) (simp add: exec_defs(2-) demo_fetch demo_exec_2 i_inc_reg_def force_reg_def vm_force_def force_def in_tx_def
    vm_op_def inc_def numeral_2_eq_2 [symmetric] del: exec.simps)

lemma demo_exec_0:
  "exec (Suc (Suc (Suc n))) demo_env 0 0 0 \<lparr>vm_fuel = Suc (Suc (Suc k)), vm_tx = t, parallel_skip = p, regs = [a, b]\<rparr>
   = VOk (VInt 7) \<lparr>vm_fuel = k, vm_tx = t, parallel_skip = p, regs = [VInt 7, b]\<rparr>"
  by (subst exec_apply) (simp add: exec_defs(2-) demo_fetch demo_exec_1 i_load_const_def const_value_def del: exec.simps)

lemma demo_call:
  "vm_call demo_env (exec 4 demo_env) 0 0 [] \<lparr>vm_fuel = 3, vm_tx = t\<lparr>nore_active := {}\<rparr>, parallel_skip = p, regs = rs\<rparr>
   = VOk (VInt 7) \<lparr>vm_fuel = 0, vm_tx = t\<lparr>nore_active := {}\<rparr>, parallel_skip = p, regs = rs\<rparr>"
proof -
  have "exec 4 demo_env = exec (Suc (Suc (Suc 1))) demo_env" and "replicate 2 VUnit = [VUnit, VUnit]"
    by (simp_all add: numeral_eq_Suc del: exec.simps)
  then show ?thesis
    by (simp add: exec_defs(2-) demo_fetch vm_call_def in_tx_def nore_enter_def nore_exit_def finally_tx_def
      call_body_def in_frame_def numeral_3_eq_3 demo_exec_0 del: exec.simps)
qed

end
