(* ===== verification/Optimize.thy ===== *)
theory Optimize
  imports VmInstr
begin

section \<open>Read clustering\<close>

text \<open>
  \<^verbatim>\<open>crates/rend/src/optimize.rs\<close>: the pass over the code of a function that gathers state reads into clusters and
  emits each cluster as one \<open>IReadBatch\<close> where its first read stood. The mutable variables of \<^verbatim>\<open>optimize_fn\<close> are the
  record \<open>opt\<close>, its nested function \<^verbatim>\<open>flush\<close> is \<open>opt_flush\<close>, one round of its loop is \<open>opt_step\<close>. The effect classes of the
  functions of the module come from \<^verbatim>\<open>effects.rs\<close> and are an argument. Offsets are \<^verbatim>\<open>i32\<close> words; \<open>None\<close> is the panic of
  \<^verbatim>\<open>expect("jump origin recorded")\<close>.
\<close>

datatype effect_class = EPure | EReadOnly | EWriteOnly | EReadWrite | EImpure

definition fx_reads :: "effect_class \<Rightarrow> bool" where
  "fx_reads c \<longleftrightarrow> c \<in> {EReadOnly, EReadWrite, EImpure}"

definition fx_writes :: "effect_class \<Rightarrow> bool" where
  "fx_writes c \<longleftrightarrow> c \<in> {EWriteOnly, EReadWrite, EImpure}"

definition fx_impure :: "effect_class \<Rightarrow> bool" where
  "fx_impure c \<longleftrightarrow> c = EImpure"

definition fx_join :: "effect_class \<Rightarrow> effect_class \<Rightarrow> effect_class" where
  "fx_join a b = (let r = fx_reads a \<or> fx_reads b; w = fx_writes a \<or> fx_writes b; i = fx_impure a \<or> fx_impure b in
     if i then EImpure else case (r, w) of
       (False, False) \<Rightarrow> EPure | (True, False) \<Rightarrow> EReadOnly | (False, True) \<Rightarrow> EWriteOnly | (True, True) \<Rightarrow> EReadWrite)"

subsection \<open>Classification of instructions\<close>

primrec instr_srcs :: "instr \<Rightarrow> u16 list" where
  \<comment> \<open>the registers \<^verbatim>\<open>reads_pending_dst\<close> looks up\<close>
  "instr_srcs (ILoadConst x1 x2) = []"
| "instr_srcs (IMove x1 src) = [src]"
| "instr_srcs (IBin x1 x2 lhs rhs) = [lhs, rhs]"
| "instr_srcs (IUn x1 x2 src) = [src]"
| "instr_srcs (IJump x1) = []"
| "instr_srcs (IJumpIfFalse cond x1) = [cond]"
| "instr_srcs (ICall x1 x2 args_start n_args) = arg_regs args_start (unat n_args)"
| "instr_srcs (ICallHost x1 x2 args_start n_args) = arg_regs args_start (unat n_args)"
| "instr_srcs (ICallExternal x1 x2 x3 args_start n_args x4 x5) = arg_regs args_start (unat n_args)"
| "instr_srcs (IMakeInterface x1 x2 target_reg) = [target_reg]"
| "instr_srcs (ICallExternalDyn x1 target_reg x2 args_start n_args x3 x4) = target_reg # arg_regs args_start (unat n_args)"
| "instr_srcs (IReturn src) = [src]"
| "instr_srcs IReturnUnit = []"
| "instr_srcs (IBuiltinResource x1 src) = [src]"
| "instr_srcs (IBuiltinUnwrap x1 src) = [src]"
| "instr_srcs (IBuiltinAddress x1 src) = [src]"
| "instr_srcs (IBuiltinLen x1 src) = [src]"
| "instr_srcs (IConvert x1 src x2) = [src]"
| "instr_srcs (IMakeArray x1 args_start n) = arg_regs args_start (unat n)"
| "instr_srcs (IArrayGet x1 arr idx) = [arr, idx]"
| "instr_srcs (IArrayAppend x1 arr elem) = [arr, elem]"
| "instr_srcs (IMakeSet x1 args_start n) = arg_regs args_start (unat n)"
| "instr_srcs (IMakeDict x1 args_start n_pairs) = arg_regs args_start (unat (n_pairs * 2))"
| "instr_srcs (IBuiltinCall x1 x2 args_start n_args) = arg_regs args_start (unat n_args)"
| "instr_srcs (IMakeStruct x1 x2 args_start n) = arg_regs args_start (unat n)"
| "instr_srcs (IFieldGet x1 src x2) = [src]"
| "instr_srcs (IFieldSet dst x1 w) = [dst, w]"
| "instr_srcs (IKvGet x1 x2) = []"
| "instr_srcs (IKvPut src x1) = [src]"
| "instr_srcs (IKvGetPath x1 x2) = []"
| "instr_srcs (IKvPutPath src x1) = [src]"
| "instr_srcs (IReadBatch x1) = []"
| "instr_srcs (IPrefetchMap arr_reg x1) = [arr_reg]"
| "instr_srcs (IEmit v) = [v]"
| "instr_srcs (IParallelBegin x1 x2) = []"
| "instr_srcs (IParallelYield v) = (case v of Some r \<Rightarrow> [r] | None \<Rightarrow> [])"
| "instr_srcs (IParallelForBegin x1 x2 source_reg output_reg x3 x4 x5) = [source_reg, output_reg]"
| "instr_srcs (IArrayAlloc x1 len_reg default_reg) = [len_reg, default_reg]"
| "instr_srcs (IReserve x1 x2 count_reg) = [count_reg]"
| "instr_srcs IParallelForSkip = []"
| "instr_srcs (IContext x1 x2) = []"
| "instr_srcs (IMakeTuple x1 args_start n) = arg_regs args_start (unat n)"
| "instr_srcs (ITupleGet x1 src x2) = [src]"
| "instr_srcs (IMakeEnum x1 x2 x3 args_start n) = arg_regs args_start (unat n)"
| "instr_srcs (IEnumTag x1 src) = [src]"
| "instr_srcs (IEnumPayload x1 src x2) = [src]"
| "instr_srcs (IMapGet x1 x2 key_reg) = [key_reg]"
| "instr_srcs (IMapPut x1 key_reg src) = [key_reg, src]"
| "instr_srcs (IPMapGet x1 x2 key_reg) = [key_reg]"
| "instr_srcs (IPMapPut x1 key_reg src) = [key_reg, src]"
| "instr_srcs (IPMapContains x1 x2 key_reg) = [key_reg]"
| "instr_srcs (IPVecGet x1 x2 idx_reg) = [idx_reg]"
| "instr_srcs (IPVecSet x1 idx_reg src) = [idx_reg, src]"
| "instr_srcs (IPVecPush x1 x2 src) = [src]"
| "instr_srcs (IPVecLen x1 x2) = []"
| "instr_srcs (IPMapEntries x1 x2) = []"
| "instr_srcs (IPMapKeys x1 x2) = []"
| "instr_srcs (IPMapValues x1 x2) = []"
| "instr_srcs (IPVecToArray x1 x2) = []"
| "instr_srcs (IPMapAppendUnique x1 key_reg elem_reg) = [key_reg, elem_reg]"
| "instr_srcs (IPMapPutUnique x1 key_reg src) = [key_reg, src]"
| "instr_srcs (IPMapWalkInit x1 x2) = []"
| "instr_srcs (IPMapWalkNext cursor_reg x1 x2) = [cursor_reg]"
| "instr_srcs (IPBTreeGet x1 x2 key_reg) = [key_reg]"
| "instr_srcs (IPBTreePut x1 key_reg src) = [key_reg, src]"
| "instr_srcs (IPBTreeContains x1 x2 key_reg) = [key_reg]"
| "instr_srcs (IPBTreeRange x1 x2 lo_reg hi_reg) = [lo_reg, hi_reg]"
| "instr_srcs (IPBTreeWalkInit x1 x2) = []"
| "instr_srcs (IPBTreeWalkNext cursor_reg x1 x2) = [cursor_reg]"
| "instr_srcs (IPBTreePutUnique x1 key_reg src) = [key_reg, src]"
| "instr_srcs (IPBTreeAppendUnique x1 key_reg elem_reg) = [key_reg, elem_reg]"
| "instr_srcs (IPMapDelete x1 key_reg) = [key_reg]"
| "instr_srcs (IPBTreeDelete x1 key_reg) = [key_reg]"
| "instr_srcs (IPMapRemoveUnique x1 key_reg expected_reg) = [key_reg, expected_reg]"
| "instr_srcs (IPMapRemoveFromList x1 key_reg elem_reg) = [key_reg, elem_reg]"
| "instr_srcs (IPBTreeRemoveUnique x1 key_reg expected_reg) = [key_reg, expected_reg]"
| "instr_srcs (IPBTreeRemoveFromList x1 key_reg elem_reg) = [key_reg, elem_reg]"
| "instr_srcs (IIncReg reg) = [reg]"

definition reads_pending_dst :: "instr \<Rightarrow> u16 set \<Rightarrow> bool" where
  "reads_pending_dst i waiting = list_ex (\<lambda>r. r \<in> waiting) (instr_srcs i)"

definition call_breaks :: "(string, effect_class) hashmap \<Rightarrow> (string, nat) hashmap \<Rightarrow> u16 \<Rightarrow> bool" where
  \<comment> \<open>the arm of \<^verbatim>\<open>Instr::Call\<close> in \<^verbatim>\<open>cluster_breaker\<close>\<close>
  "call_breaks fx idx fn_idx = (case map_option fst (List.find (\<lambda>(_, i). of_nat i = fn_idx) idx) of
     None \<Rightarrow> True
   | Some nm \<Rightarrow> hm_get fx nm \<notin> {Some EPure, Some EReadOnly})"

primrec cluster_breaker :: "(string, effect_class) hashmap \<Rightarrow> (string, nat) hashmap \<Rightarrow> instr \<Rightarrow> bool" where
  "cluster_breaker fx idx (ILoadConst x1 x2) = False"
| "cluster_breaker fx idx (IMove x1 x2) = False"
| "cluster_breaker fx idx (IBin x1 x2 x3 x4) = False"
| "cluster_breaker fx idx (IUn x1 x2 x3) = False"
| "cluster_breaker fx idx (IJump x1) = True"
| "cluster_breaker fx idx (IJumpIfFalse x1 x2) = True"
| "cluster_breaker fx idx (ICall x1 fn_idx x2 x3) = call_breaks fx idx fn_idx"
| "cluster_breaker fx idx (ICallHost x1 x2 x3 x4) = True"
| "cluster_breaker fx idx (ICallExternal x1 x2 x3 x4 x5 is_view is_pure) = (\<not> (is_view \<or> is_pure))"
| "cluster_breaker fx idx (IMakeInterface x1 x2 x3) = False"
| "cluster_breaker fx idx (ICallExternalDyn x1 x2 x3 x4 x5 is_view is_pure) = (\<not> (is_view \<or> is_pure))"
| "cluster_breaker fx idx (IReturn x1) = True"
| "cluster_breaker fx idx IReturnUnit = True"
| "cluster_breaker fx idx (IBuiltinResource x1 x2) = False"
| "cluster_breaker fx idx (IBuiltinUnwrap x1 x2) = False"
| "cluster_breaker fx idx (IBuiltinAddress x1 x2) = False"
| "cluster_breaker fx idx (IBuiltinLen x1 x2) = False"
| "cluster_breaker fx idx (IConvert x1 x2 x3) = False"
| "cluster_breaker fx idx (IMakeArray x1 x2 x3) = False"
| "cluster_breaker fx idx (IArrayGet x1 x2 x3) = False"
| "cluster_breaker fx idx (IArrayAppend x1 x2 x3) = False"
| "cluster_breaker fx idx (IMakeSet x1 x2 x3) = False"
| "cluster_breaker fx idx (IMakeDict x1 x2 x3) = False"
| "cluster_breaker fx idx (IBuiltinCall x1 x2 x3 x4) = False"
| "cluster_breaker fx idx (IMakeStruct x1 x2 x3 x4) = False"
| "cluster_breaker fx idx (IFieldGet x1 x2 x3) = False"
| "cluster_breaker fx idx (IFieldSet x1 x2 x3) = False"
| "cluster_breaker fx idx (IKvGet x1 x2) = False"
| "cluster_breaker fx idx (IKvPut x1 x2) = True"
| "cluster_breaker fx idx (IKvGetPath x1 x2) = False"
| "cluster_breaker fx idx (IKvPutPath x1 x2) = True"
| "cluster_breaker fx idx (IReadBatch x1) = False"
| "cluster_breaker fx idx (IPrefetchMap x1 x2) = False"
| "cluster_breaker fx idx (IEmit x1) = False"
| "cluster_breaker fx idx (IParallelBegin x1 x2) = True"
| "cluster_breaker fx idx (IParallelYield x1) = True"
| "cluster_breaker fx idx (IParallelForBegin x1 x2 x3 x4 x5 x6 x7) = True"
| "cluster_breaker fx idx (IArrayAlloc x1 x2 x3) = False"
| "cluster_breaker fx idx (IReserve x1 x2 x3) = True"
| "cluster_breaker fx idx IParallelForSkip = True"
| "cluster_breaker fx idx (IContext x1 x2) = False"
| "cluster_breaker fx idx (IMakeTuple x1 x2 x3) = False"
| "cluster_breaker fx idx (ITupleGet x1 x2 x3) = False"
| "cluster_breaker fx idx (IMakeEnum x1 x2 x3 x4 x5) = False"
| "cluster_breaker fx idx (IEnumTag x1 x2) = False"
| "cluster_breaker fx idx (IEnumPayload x1 x2 x3) = False"
| "cluster_breaker fx idx (IMapGet x1 x2 x3) = False"
| "cluster_breaker fx idx (IMapPut x1 x2 x3) = True"
| "cluster_breaker fx idx (IPMapGet x1 x2 x3) = False"
| "cluster_breaker fx idx (IPMapPut x1 x2 x3) = True"
| "cluster_breaker fx idx (IPMapContains x1 x2 x3) = False"
| "cluster_breaker fx idx (IPVecGet x1 x2 x3) = False"
| "cluster_breaker fx idx (IPVecSet x1 x2 x3) = True"
| "cluster_breaker fx idx (IPVecPush x1 x2 x3) = True"
| "cluster_breaker fx idx (IPVecLen x1 x2) = False"
| "cluster_breaker fx idx (IPMapEntries x1 x2) = False"
| "cluster_breaker fx idx (IPMapKeys x1 x2) = False"
| "cluster_breaker fx idx (IPMapValues x1 x2) = False"
| "cluster_breaker fx idx (IPVecToArray x1 x2) = False"
| "cluster_breaker fx idx (IPMapAppendUnique x1 x2 x3) = True"
| "cluster_breaker fx idx (IPMapPutUnique x1 x2 x3) = True"
| "cluster_breaker fx idx (IPMapWalkInit x1 x2) = False"
| "cluster_breaker fx idx (IPMapWalkNext x1 x2 x3) = False"
| "cluster_breaker fx idx (IPBTreeGet x1 x2 x3) = False"
| "cluster_breaker fx idx (IPBTreePut x1 x2 x3) = True"
| "cluster_breaker fx idx (IPBTreeContains x1 x2 x3) = False"
| "cluster_breaker fx idx (IPBTreeRange x1 x2 x3 x4) = False"
| "cluster_breaker fx idx (IPBTreeWalkInit x1 x2) = False"
| "cluster_breaker fx idx (IPBTreeWalkNext x1 x2 x3) = False"
| "cluster_breaker fx idx (IPBTreePutUnique x1 x2 x3) = True"
| "cluster_breaker fx idx (IPBTreeAppendUnique x1 x2 x3) = True"
| "cluster_breaker fx idx (IPMapDelete x1 x2) = True"
| "cluster_breaker fx idx (IPBTreeDelete x1 x2) = True"
| "cluster_breaker fx idx (IPMapRemoveUnique x1 x2 x3) = True"
| "cluster_breaker fx idx (IPMapRemoveFromList x1 x2 x3) = True"
| "cluster_breaker fx idx (IPBTreeRemoveUnique x1 x2 x3) = True"
| "cluster_breaker fx idx (IPBTreeRemoveFromList x1 x2 x3) = True"
| "cluster_breaker fx idx (IIncReg x1) = False"

definition as_read :: "instr \<Rightarrow> read_op option" where
  "as_read i = (case i of IKvGet dst key_idx \<Rightarrow> Some (RState dst key_idx) | IKvGetPath dst path_idx \<Rightarrow> Some (RPath dst path_idx) | _ \<Rightarrow> None)"

definition of_read :: "read_op \<Rightarrow> instr" where
  "of_read rop = (case rop of RState dst key_idx \<Rightarrow> IKvGet dst key_idx | RPath dst path_idx \<Rightarrow> IKvGetPath dst path_idx)"

definition is_jump :: "instr \<Rightarrow> bool" where
  "is_jump i = (case i of IJump _ \<Rightarrow> True | IJumpIfFalse _ _ \<Rightarrow> True | _ \<Rightarrow> False)"

subsection \<open>The pass\<close>

record opt =
  cluster :: "read_op list"
  cluster_old :: "nat list"
  cluster_dsts :: "u16 set"
  pending_nonreads :: "(nat \<times> instr) list"
  new_code :: "instr list"
  idx_map :: "nat option list"
  new_jump_old :: "(nat, nat) hashmap"
  opt_groups :: "read_op list list"

definition place :: "nat \<Rightarrow> nat option list \<Rightarrow> nat list \<Rightarrow> nat option list" where
  "place pc im olds = foldl (\<lambda>im old. im[old := Some pc]) im olds"

definition emit_at :: "opt \<Rightarrow> nat \<times> instr \<Rightarrow> opt" where
  \<comment> \<open>an instruction that is not a read, at the end of the new code\<close>
  "emit_at st oi = (let new_pc = length (new_code st) in
     st\<lparr>idx_map := (idx_map st)[fst oi := Some new_pc],
        new_jump_old := (if is_jump (snd oi) then hm_insert new_pc (fst oi) (new_jump_old st) else new_jump_old st),
        new_code := new_code st @ [snd oi]\<rparr>)"

definition emit_cluster :: "opt \<Rightarrow> opt" where
  "emit_cluster st = (case cluster st of
     [] \<Rightarrow> st
   | [rop] \<Rightarrow> st\<lparr>cluster := [], cluster_old := [], idx_map := place (length (new_code st)) (idx_map st) (take 1 (cluster_old st)),
       new_code := new_code st @ [of_read rop]\<rparr>
   | rops \<Rightarrow> st\<lparr>cluster := [], cluster_old := [], idx_map := place (length (new_code st)) (idx_map st) (cluster_old st),
       new_code := new_code st @ [IReadBatch (of_nat (length (opt_groups st)))], opt_groups := opt_groups st @ [rops]\<rparr>)"

definition opt_flush :: "opt \<Rightarrow> opt" where
  "opt_flush st = (let st1 = emit_cluster st in
     (foldl emit_at (st1\<lparr>pending_nonreads := []\<rparr>) (pending_nonreads st1))\<lparr>cluster_dsts := {}\<rparr>)"

definition opt_step :: "(string, effect_class) hashmap \<Rightarrow> (string, nat) hashmap \<Rightarrow> opt \<Rightarrow> nat \<times> instr \<Rightarrow> opt" where
  "opt_step fx idx st oi = (case as_read (snd oi) of
     Some rop \<Rightarrow>
      (let st1 = (if reads_pending_dst (snd oi) (cluster_dsts st) then opt_flush st else st) in
       st1\<lparr>cluster := cluster st1 @ [rop], cluster_old := cluster_old st1 @ [fst oi],
           cluster_dsts := insert (read_op_dst rop) (cluster_dsts st1)\<rparr>)
   | None \<Rightarrow>
      (if cluster_breaker fx idx (snd oi) \<or> reads_pending_dst (snd oi) (cluster_dsts st) then emit_at (opt_flush st) oi
       else if cluster st \<noteq> [] then st\<lparr>pending_nonreads := pending_nonreads st @ [oi]\<rparr>
       else emit_at st oi))"

definition map_or_end :: "nat option list \<Rightarrow> nat \<Rightarrow> i32 \<Rightarrow> i32" where
  "map_or_end im new_len old_target = (if sint old_target < 0 then 0
     else (case List.find (\<lambda>x. x \<noteq> None) (drop (nat (sint old_target)) im) of
       Some (Some v) \<Rightarrow> of_nat v | _ \<Rightarrow> of_nat new_len))"

definition new_offset :: "nat option list \<Rightarrow> nat \<Rightarrow> nat \<Rightarrow> nat \<Rightarrow> i32 \<Rightarrow> i32" where
  "new_offset im new_len new_pc old_pc offset = map_or_end im new_len (of_nat old_pc + 1 + offset) - of_nat new_pc - 1"

definition retarget :: "opt \<Rightarrow> nat \<times> instr \<Rightarrow> instr option" where
  "retarget st pi = (let fix_at = (\<lambda>mk offset. map_option (\<lambda>old_pc.
       mk (new_offset (idx_map st) (length (new_code st)) (fst pi) old_pc offset)) (hm_get (new_jump_old st) (fst pi))) in
     case snd pi of IJump offset \<Rightarrow> fix_at IJump offset
     | IJumpIfFalse cond offset \<Rightarrow> fix_at (IJumpIfFalse cond) offset
     | i \<Rightarrow> Some i)"

definition opt_start :: "bc_fn \<Rightarrow> opt" where
  "opt_start f = \<lparr>cluster = [], cluster_old = [], cluster_dsts = {}, pending_nonreads = [], new_code = [],
     idx_map = replicate (length (code f)) None, new_jump_old = [], opt_groups = read_groups f\<rparr>"

definition opt_scan :: "(string, effect_class) hashmap \<Rightarrow> (string, nat) hashmap \<Rightarrow> bc_fn \<Rightarrow> opt" where
  \<comment> \<open>the loop over the code with the flush after it\<close>
  "opt_scan fx idx f = opt_flush (foldl (opt_step fx idx) (opt_start f) (zip [0..<length (code f)] (code f)))"

definition optimize_fn :: "(string, effect_class) hashmap \<Rightarrow> (string, nat) hashmap \<Rightarrow> bc_fn \<Rightarrow> bc_fn option" where
  "optimize_fn fx idx f = (let st = opt_scan fx idx f in
     map_option (\<lambda>c. f\<lparr>code := c, read_groups := opt_groups st\<rparr>)
       (mapM (retarget st) (zip [0..<length (new_code st)] (new_code st))))"

definition optimize :: "(string, effect_class) hashmap \<Rightarrow> bc_module \<Rightarrow> bc_module option" where
  "optimize fx m = map_option (\<lambda>fs. m\<lparr>functions_of := fs\<rparr>) (mapM (optimize_fn fx (fn_index m)) (functions_of m))"

end
