(* ===== verification/OptimizeProps.thy ===== *)
theory OptimizeProps
  imports Optimize
begin

section \<open>Read clustering: what is kept\<close>

text \<open>
  The pass keeps every instruction: the reads of the optimized code, with each batch expanded, are the reads of the
  original in the same order; so are the other instructions, up to jump offsets; and nothing moves across an instruction
  that breaks clusters. Jumps follow their targets. The last part shows what is not kept: the order between a read and the
  instructions it is moved in front of.
\<close>

subsection \<open>Reads and other instructions\<close>

definition direct :: "instr \<Rightarrow> read_op list" where
  "direct i = (case as_read i of Some r \<Rightarrow> [r] | None \<Rightarrow> [])"

definition new_batch :: "nat \<Rightarrow> instr \<Rightarrow> bool" where
  "new_batch n i = (case i of IReadBatch g \<Rightarrow> n \<le> unat g | _ \<Rightarrow> False)"

definition batch_reads :: "read_op list list \<Rightarrow> instr \<Rightarrow> read_op list" where
  "batch_reads G i = (case i of IReadBatch g \<Rightarrow> G ! unat g | _ \<Rightarrow> [])"

definition reads_in :: "read_op list list \<Rightarrow> nat \<Rightarrow> instr \<Rightarrow> read_op list" where
  \<comment> \<open>the reads of an instruction; batches with an index below \<open>n\<close> belong to the original code\<close>
  "reads_in G n i = (if new_batch n i then batch_reads G i else direct i)"

definition reads_of :: "read_op list list \<Rightarrow> nat \<Rightarrow> instr list \<Rightarrow> read_op list" where
  "reads_of G n c = concat (map (reads_in G n) c)"

definition other :: "nat \<Rightarrow> instr \<Rightarrow> bool" where
  "other n i \<longleftrightarrow> as_read i = None \<and> \<not> new_batch n i"

definition erase_offset :: "instr \<Rightarrow> instr" where
  "erase_offset i = (case i of IJump _ \<Rightarrow> IJump 0 | IJumpIfFalse c _ \<Rightarrow> IJumpIfFalse c 0 | _ \<Rightarrow> i)"

definition others_of :: "nat \<Rightarrow> instr list \<Rightarrow> instr list" where
  "others_of n c = map erase_offset (filter (other n) c)"

lemma as_read_of_read [simp]: "as_read (of_read r) = Some r"
  by (cases r) (simp_all add: as_read_def of_read_def)

lemma as_read_Some: "as_read i = Some r \<Longrightarrow> i = of_read r"
  by (cases i) (auto simp: as_read_def of_read_def)

lemma of_read_simps [simp]: "\<not> new_batch n (of_read r)" "\<not> is_jump (of_read r)" "direct (of_read r) = [r]"
  by (cases r; simp add: of_read_def new_batch_def is_jump_def direct_def as_read_def)+

lemma batch_simps [simp]:
  "as_read (IReadBatch g) = None" "new_batch n (IReadBatch g) \<longleftrightarrow> n \<le> unat g" "\<not> is_jump (IReadBatch g)"
  "batch_reads G (IReadBatch g) = G ! unat g"
  by (simp_all add: as_read_def new_batch_def is_jump_def batch_reads_def)

lemma new_batch_cases: "new_batch n i \<Longrightarrow> (\<And>g. i = IReadBatch g \<Longrightarrow> n \<le> unat g \<Longrightarrow> P) \<Longrightarrow> P"
  by (cases i) (auto simp: new_batch_def)

lemma reads_of_simps [simp]:
  "reads_of G n [] = []" "reads_of G n (i # c) = reads_in G n i @ reads_of G n c"
  "reads_of G n (c @ d) = reads_of G n c @ reads_of G n d"
  by (simp_all add: reads_of_def)

lemma reads_in_of_read [simp]: "reads_in G n (of_read r) = [r]"
  by (simp add: reads_in_def)

lemma reads_in_other [simp]: "other n i \<Longrightarrow> reads_in G n i = []"
  by (simp add: reads_in_def other_def direct_def)

lemma other_of_read [simp]: "\<not> other n (of_read r)"
  by (simp add: other_def)

subsection \<open>The invariant of the scan\<close>

definition batches_ok :: "nat \<Rightarrow> opt \<Rightarrow> bool" where
  "batches_ok n st \<longleftrightarrow> (\<forall>i \<in> set (new_code st). new_batch n i \<longrightarrow> (\<forall>g. i = IReadBatch g \<longrightarrow> unat g < length (opt_groups st)))"

definition waiting :: "opt \<Rightarrow> (nat \<times> instr) list" where
  "waiting st = zip (cluster_old st) (map of_read (cluster st)) @ pending_nonreads st"

definition placed_at :: "nat \<Rightarrow> opt \<Rightarrow> nat \<times> instr \<Rightarrow> nat \<Rightarrow> bool" where
  "placed_at n st oi p \<longleftrightarrow> p < length (new_code st) \<and> idx_map st ! fst oi = Some p
     \<and> (case as_read (snd oi) of Some r \<Rightarrow> r \<in> set (reads_in (opt_groups st) n (new_code st ! p)) | None \<Rightarrow> new_code st ! p = snd oi)
     \<and> (is_jump (snd oi) \<longrightarrow> hm_get (new_jump_old st) p = Some (fst oi))"

definition placed :: "nat \<Rightarrow> opt \<Rightarrow> (nat \<times> instr) set \<Rightarrow> bool" where
  "placed n st P \<longleftrightarrow> (\<forall>oi \<in> P. \<exists>p. placed_at n st oi p)"

definition jumps_known :: "opt \<Rightarrow> bool" where
  "jumps_known st \<longleftrightarrow> (\<forall>p < length (new_code st). is_jump (new_code st ! p) \<longrightarrow> hm_get (new_jump_old st) p \<noteq> None)"

definition scan_core :: "nat \<Rightarrow> nat \<Rightarrow> (nat \<times> instr) list \<Rightarrow> opt \<Rightarrow> bool" where
  \<comment> \<open>\<open>n\<close> groups at the start, a code of length \<open>m\<close>, \<open>d\<close> the instructions seen\<close>
  "scan_core n m d st \<longleftrightarrow>
     reads_of (opt_groups st) n (new_code st) @ cluster st = concat (map (direct \<circ> snd) d)
   \<and> filter (other n) (new_code st) @ map snd (pending_nonreads st) = filter (other n) (map snd d)
   \<and> n \<le> length (opt_groups st) \<and> length (opt_groups st) + length (cluster st) \<le> n + length d
   \<and> length (new_code st) + length (cluster st) + length (pending_nonreads st) \<le> length d
   \<and> batches_ok n st
   \<and> length (cluster_old st) = length (cluster st) \<and> list_all (\<lambda>oi. other n (snd oi)) (pending_nonreads st)
   \<and> length (idx_map st) = m \<and> distinct (map fst d) \<and> (\<forall>oi \<in> set d. fst oi < m)
   \<and> set (waiting st) \<subseteq> set d \<and> distinct (map fst (waiting st))
   \<and> placed n st (set d - set (waiting st)) \<and> jumps_known st"

definition scan_inv :: "nat \<Rightarrow> nat \<Rightarrow> (nat \<times> instr) list \<Rightarrow> opt \<Rightarrow> bool" where
  "scan_inv n m d st \<longleftrightarrow> scan_core n m d st \<and> (cluster st = [] \<longrightarrow> pending_nonreads st = [])"

lemma reads_of_groups: "batches_ok n st \<Longrightarrow> reads_of (opt_groups st @ G) n (new_code st) = reads_of (opt_groups st) n (new_code st)"
  by (auto simp: reads_of_def batches_ok_def reads_in_def nth_append intro!: arg_cong [of _ _ concat] elim!: new_batch_cases)

lemma reads_in_groups:
  "batches_ok n st \<Longrightarrow> p < length (new_code st) \<Longrightarrow>
   reads_in (opt_groups st @ G) n (new_code st ! p) = reads_in (opt_groups st) n (new_code st ! p)"
  by (auto simp: batches_ok_def reads_in_def nth_append elim!: new_batch_cases dest!: nth_mem)

lemma place_nth: "o' < length im \<Longrightarrow> place pc im olds ! o' = (if o' \<in> set olds then Some pc else im ! o')"
  by (induction olds arbitrary: im) (auto simp: place_def)

lemma place_length [simp]: "length (place pc im olds) = length im"
  by (induction olds arbitrary: im) (auto simp: place_def)

lemma fst_unique: "distinct (map fst d) \<Longrightarrow> x \<in> set d \<Longrightarrow> y \<in> set d \<Longrightarrow> fst x = fst y \<Longrightarrow> x = y"
  by (induction d) (auto simp: image_iff)

text \<open>Emitting the cluster.\<close>

definition cluster_code :: "opt \<Rightarrow> instr list" where
  "cluster_code st = (case cluster st of [] \<Rightarrow> [] | [r] \<Rightarrow> [of_read r] | _ \<Rightarrow> [IReadBatch (of_nat (length (opt_groups st)))])"

definition cluster_groups :: "opt \<Rightarrow> read_op list list" where
  "cluster_groups st = (if length (cluster st) \<ge> 2 then [cluster st] else [])"

lemma emit_cluster_eq:
  "length (cluster_old st) = length (cluster st) \<Longrightarrow> emit_cluster st = st\<lparr>cluster := [], cluster_old := [],
     idx_map := place (length (new_code st)) (idx_map st) (cluster_old st), new_code := new_code st @ cluster_code st,
     opt_groups := opt_groups st @ cluster_groups st\<rparr>"
  by (auto simp: emit_cluster_def cluster_code_def cluster_groups_def place_def split: list.split)

lemma cluster_code_reads:
  assumes "n \<le> length (opt_groups st)" and "length (opt_groups st) < 2 ^ 16"
  shows "reads_of (opt_groups st @ cluster_groups st) n (cluster_code st) = cluster st"
  using assms by (auto simp: cluster_code_def cluster_groups_def reads_in_def unat_of_nat split: list.split)

lemma cluster_code_others:
  assumes "n \<le> length (opt_groups st)" and "length (opt_groups st) < 2 ^ 16"
  shows "filter (other n) (cluster_code st) = []" and "i \<in> set (cluster_code st) \<Longrightarrow> \<not> is_jump i"
  using assms by (cases "cluster st" rule: remdups_adj.cases; auto simp: cluster_code_def other_def unat_of_nat)+

lemma cluster_code_batches:
  assumes "batches_ok n st" and "length (opt_groups st) < 2 ^ 16"
  shows "batches_ok n (st\<lparr>new_code := new_code st @ cluster_code st, opt_groups := opt_groups st @ cluster_groups st\<rparr>)"
  using assms by (cases "cluster st" rule: remdups_adj.cases)
    (auto simp: batches_ok_def cluster_code_def cluster_groups_def unat_of_nat less_Suc_eq)

lemma core_emit_cluster:
  assumes c: "scan_core n m d st" and g: "length (opt_groups st) < 2 ^ 16"
  shows "scan_core n m d (emit_cluster st)"
proof -
  let ?zs = "zip (cluster_old st) (map of_read (cluster st))" and ?G = "opt_groups st @ cluster_groups st"
  from c have len: "length (cluster_old st) = length (cluster st)" and n: "n \<le> length (opt_groups st)" and b: "batches_ok n st"
    and dd: "distinct (map fst d)" and dm: "\<forall>oi \<in> set d. fst oi < m" and im: "length (idx_map st) = m"
    and w: "set (waiting st) \<subseteq> set d" and dw: "distinct (map fst (waiting st))" and pl: "placed n st (set d - set (waiting st))"
    by (auto simp: scan_core_def)
  note st' = emit_cluster_eq [OF len]
  have "placed n (emit_cluster st) (set d - set (pending_nonreads st))" unfolding placed_def
  proof
    fix oi assume oi: "oi \<in> set d - set (pending_nonreads st)"
    show "\<exists>p. placed_at n (emit_cluster st) oi p"
    proof (cases "oi \<in> set ?zs")
      case True
      then have o: "fst oi \<in> set (cluster_old st)" and "snd oi \<in> of_read ` set (cluster st)"
        by (metis prod.collapse set_zip_leftD, metis list.set_map prod.collapse set_zip_rightD)
      then obtain r where r: "snd oi = of_read r" "r \<in> set (cluster st)" by blast
      then have "r \<in> set (reads_of ?G n (cluster_code st))" using cluster_code_reads [OF n g] by simp
      moreover have "cluster_code st = [hd (cluster_code st)]" using r(2) by (auto simp: cluster_code_def split: list.split)
      ultimately have "r \<in> set (reads_in ?G n (hd (cluster_code st)))" and "cluster_code st \<noteq> []"
        by (metis append_Nil2 reads_of_simps(1,2), auto)
      then have "placed_at n (emit_cluster st) oi (length (new_code st))"
        using r o oi dm im by (auto simp: placed_at_def st' place_nth nth_append hd_conv_nth)
      then show ?thesis by blast
    next
      case False
      with oi have "oi \<in> set d - set (waiting st)" by (auto simp: waiting_def)
      with pl obtain p where p: "placed_at n st oi p" by (auto simp: placed_def)
      have "fst oi \<notin> set (cluster_old st)"
      proof
        assume "fst oi \<in> set (cluster_old st)"
        moreover have "map fst ?zs = cluster_old st" using len by simp
        ultimately obtain z where "z \<in> set ?zs" and z: "fst z = fst oi" by (metis imageE list.set_map)
        then have "z \<in> set d" using w by (auto simp: waiting_def)
        with fst_unique [OF dd _ _ z] oi \<open>z \<in> set ?zs\<close> False show False by auto
      qed
      then have "placed_at n (emit_cluster st) oi p"
        using p oi dm im by (auto simp: placed_at_def st' place_nth nth_append reads_in_groups [OF b] split: option.splits)
      then show ?thesis by blast
    qed
  qed
  moreover have "jumps_known (emit_cluster st)"
    using c cluster_code_others(2) [OF n g] by (auto simp: scan_core_def jumps_known_def st' nth_append all_set_conv_all_nth)
  moreover have "length (cluster_code st) \<le> length (cluster st)" by (simp add: cluster_code_def split: list.split)
  ultimately show ?thesis
    using c cluster_code_reads [OF n g] cluster_code_others(1) [OF n g] cluster_code_batches [OF b g] w dw
    by (auto simp: scan_core_def st' reads_of_groups [OF b] waiting_def batches_ok_def cluster_groups_def)
qed

text \<open>Emitting what waits, and letting instructions wait.\<close>

lemma emit_at_simps [simp]:
  "cluster (emit_at st oi) = cluster st" "cluster_old (emit_at st oi) = cluster_old st" "opt_groups (emit_at st oi) = opt_groups st"
  "pending_nonreads (emit_at st oi) = pending_nonreads st" "new_code (emit_at st oi) = new_code st @ [snd oi]"
  "idx_map (emit_at st oi) = (idx_map st)[fst oi := Some (length (new_code st))]" "cluster_dsts (emit_at st oi) = cluster_dsts st"
  by (simp_all add: emit_at_def Let_def)

lemma core_emit_first:
  assumes c: "scan_core n m d st" and e: "cluster st = []" and p: "pending_nonreads st = oi # ps"
  shows "scan_core n m d (emit_at (st\<lparr>pending_nonreads := ps\<rparr>) oi)"
proof -
  let ?st = "emit_at (st\<lparr>pending_nonreads := ps\<rparr>) oi"
  from c e p have oth: "other n (snd oi)" and "cluster_old st = []" and d: "oi \<in> set d"
    and dd: "distinct (map fst d)" and dm: "\<forall>oi \<in> set d. fst oi < m" and im: "length (idx_map st) = m"
    and ps: "set ps \<subseteq> set d" and dw: "distinct (map fst (oi # ps))" and pl: "placed n st (set d - set (oi # ps))"
    by (auto simp: scan_core_def waiting_def)
  have "placed n ?st (set d - set ps)" unfolding placed_def
  proof
    fix x assume x: "x \<in> set d - set ps"
    show "\<exists>q. placed_at n ?st x q"
    proof (cases "x = oi")
      case True
      then have "placed_at n ?st x (length (new_code st))"
        using oth x dm im by (auto simp: placed_at_def other_def emit_at_def Let_def)
      then show ?thesis by blast
    next
      case False
      with x pl obtain q where q: "placed_at n st x q" by (auto simp: placed_def)
      have "fst x \<noteq> fst oi" using fst_unique [OF dd, of x oi] x d False by auto
      with q have "placed_at n ?st x q" by (auto simp: placed_at_def emit_at_def Let_def nth_append split: option.splits)
      then show ?thesis by blast
    qed
  qed
  moreover have "jumps_known ?st"
    using c by (auto simp: scan_core_def jumps_known_def emit_at_def Let_def nth_append less_Suc_eq)
  moreover have "filter (other n) (new_code ?st) @ map snd ps = filter (other n) (map snd d)"
    using c p oth by (simp add: scan_core_def)
  moreover have "batches_ok n ?st" using c oth by (auto simp: scan_core_def batches_ok_def other_def)
  ultimately show ?thesis
    using c e p oth ps dw \<open>cluster_old st = []\<close> by (auto simp: scan_core_def waiting_def)
qed

lemma pending_same: "pending_nonreads st = ps \<Longrightarrow> st\<lparr>pending_nonreads := ps\<rparr> = st"
  by simp

lemma core_emit_all:
  "scan_core n m d st \<Longrightarrow> cluster st = [] \<Longrightarrow> pending_nonreads st = ps \<Longrightarrow>
   scan_core n m d (foldl emit_at (st\<lparr>pending_nonreads := []\<rparr>) ps)"
proof (induction ps arbitrary: st)
  case Nil
  then show ?case by (simp add: pending_same)
next
  case (Cons oi ps)
  let ?st = "emit_at (st\<lparr>pending_nonreads := ps\<rparr>) oi"
  have "emit_at (st\<lparr>pending_nonreads := []\<rparr>) oi = ?st\<lparr>pending_nonreads := []\<rparr>" by (simp add: emit_at_def Let_def)
  moreover have "scan_core n m d ?st" using core_emit_first [OF Cons.prems] .
  ultimately show ?case using Cons.IH [of ?st] Cons.prems by simp
qed

lemma placed_upd [simp]:
  "placed n (st\<lparr>cluster_dsts := X\<rparr>) P = placed n st P" "placed n (st\<lparr>pending_nonreads := ps\<rparr>) P = placed n st P"
  "placed n (st\<lparr>cluster := rs\<rparr>) P = placed n st P" "placed n (st\<lparr>cluster_old := os\<rparr>) P = placed n st P"
  by (simp_all add: placed_def placed_at_def cong: option.case_cong)

lemma batches_upd [simp]:
  "batches_ok n (st\<lparr>cluster_dsts := X\<rparr>) = batches_ok n st" "batches_ok n (st\<lparr>pending_nonreads := ps\<rparr>) = batches_ok n st"
  "batches_ok n (st\<lparr>cluster := rs\<rparr>) = batches_ok n st" "batches_ok n (st\<lparr>cluster_old := os\<rparr>) = batches_ok n st"
  by (simp_all add: batches_ok_def)

lemma jumps_upd [simp]:
  "jumps_known (st\<lparr>cluster_dsts := X\<rparr>) = jumps_known st" "jumps_known (st\<lparr>pending_nonreads := ps\<rparr>) = jumps_known st"
  "jumps_known (st\<lparr>cluster := rs\<rparr>) = jumps_known st" "jumps_known (st\<lparr>cluster_old := os\<rparr>) = jumps_known st"
  by (simp_all add: jumps_known_def)

lemma core_dsts [simp]: "scan_core n m d (st\<lparr>cluster_dsts := X\<rparr>) = scan_core n m d st"
  by (simp add: scan_core_def waiting_def)

lemma emit_all_keeps [simp]:
  "cluster (foldl emit_at st ps) = cluster st" "pending_nonreads (foldl emit_at st ps) = pending_nonreads st"
  by (induction ps arbitrary: st) auto

lemma emit_cluster_keeps [simp]: "cluster (emit_cluster st) = []" "pending_nonreads (emit_cluster st) = pending_nonreads st"
  by (auto simp: emit_cluster_def split: list.split)

lemma flush_empty [simp]: "cluster (opt_flush st) = []" "pending_nonreads (opt_flush st) = []"
  by (simp_all add: opt_flush_def Let_def)

lemma core_flush: "scan_core n m d st \<Longrightarrow> length (opt_groups st) < 2 ^ 16 \<Longrightarrow> scan_core n m d (opt_flush st)"
  unfolding opt_flush_def Let_def core_dsts by (rule core_emit_all) (simp_all add: core_emit_cluster)

lemma core_wait:
  assumes c: "scan_core n m d st" and oth: "other n (snd oi)" and new: "fst oi \<notin> fst ` set d" and "fst oi < m"
  shows "scan_core n m (d @ [oi]) (st\<lparr>pending_nonreads := pending_nonreads st @ [oi]\<rparr>)"
proof -
  have w: "waiting (st\<lparr>pending_nonreads := pending_nonreads st @ [oi]\<rparr>) = waiting st @ [oi]" by (simp add: waiting_def)
  have "set (waiting st) \<subseteq> set d" using c by (simp add: scan_core_def)
  then have "set (d @ [oi]) - set (waiting st @ [oi]) = set d - set (waiting st)" and "fst oi \<notin> fst ` set (waiting st)"
    and "set (waiting st @ [oi]) \<subseteq> set (d @ [oi])" using new by auto
  moreover have "direct (snd oi) = []" using oth by (simp add: direct_def other_def)
  ultimately show ?thesis using assms unfolding scan_core_def w by simp
qed

lemma core_wait_read:
  assumes c: "scan_core n m d st" and r: "snd oi = of_read r" and new: "fst oi \<notin> fst ` set d" and "fst oi < m"
  shows "scan_core n m (d @ [oi]) (st\<lparr>cluster := cluster st @ [r], cluster_old := cluster_old st @ [fst oi]\<rparr>)"
proof -
  let ?st = "st\<lparr>cluster := cluster st @ [r], cluster_old := cluster_old st @ [fst oi]\<rparr>"
  from c have len: "length (cluster_old st) = length (cluster st)" by (simp add: scan_core_def)
  have oi: "oi = (fst oi, of_read r)" using r by (cases oi) simp
  define zs where "zs = zip (cluster_old st) (map of_read (cluster st))"
  have w: "waiting st = zs @ pending_nonreads st" "waiting ?st = zs @ oi # pending_nonreads st"
    using len oi by (simp_all add: waiting_def zs_def)
  have "fst oi \<notin> fst ` set (waiting st)" and "distinct (map fst (waiting st))" using c new by (auto simp: scan_core_def)
  then have "distinct (map fst (waiting ?st))" and "set (waiting ?st) = insert oi (set (waiting st))"
    unfolding w by auto
  moreover have "set (d @ [oi]) - insert oi (set (waiting st)) = set d - set (waiting st)" using new by auto
  moreover have "set (waiting ?st) \<subseteq> set (d @ [oi])" using c unfolding \<open>set (waiting ?st) = _\<close> by (auto simp: scan_core_def)
  ultimately show ?thesis using assms unfolding scan_core_def by simp
qed

lemma srcs_of_read [simp]: "instr_srcs (of_read r) = []" "\<not> cluster_breaker fx idx (of_read r)"
  by (cases r; simp add: of_read_def)+

lemma core_emit_new:
  assumes "scan_core n m d st" and "cluster st = []" and "pending_nonreads st = []" and "other n (snd oi)"
    and "fst oi \<notin> fst ` set d" and "fst oi < m"
  shows "scan_core n m (d @ [oi]) (emit_at st oi)"
proof -
  have "scan_core n m (d @ [oi]) (st\<lparr>pending_nonreads := [oi]\<rparr>)" using core_wait [of n m d st oi] assms by simp
  from core_emit_first [OF this, of oi "[]"] assms show ?thesis
    by (simp add: pending_same)
qed

lemma inv_step:
  assumes i: "scan_inv n m d st" and g: "n + length d < 2 ^ 16" and b: "\<not> new_batch n (snd oi)"
    and "fst oi \<notin> fst ` set d" and "fst oi < m"
  shows "scan_inv n m (d @ [oi]) (opt_step fx idx st oi)"
proof (cases "as_read (snd oi)")
  case None
  then have o: "other n (snd oi)" using b by (simp add: other_def)
  from i have c: "scan_core n m d st" and gs: "length (opt_groups st) < 2 ^ 16" using g by (auto simp: scan_inv_def scan_core_def)
  show ?thesis
  proof (cases "cluster_breaker fx idx (snd oi) \<or> reads_pending_dst (snd oi) (cluster_dsts st)")
    case True
    then show ?thesis using core_emit_new [OF core_flush [OF c gs], of oi] None o assms
      by (simp add: opt_step_def scan_inv_def)
  next
    case False
    then show ?thesis using core_wait [OF c o] core_emit_new [OF c _ _ o] None assms by (simp add: opt_step_def scan_inv_def)
  qed
next
  case (Some r)
  then have r: "snd oi = of_read r" by (rule as_read_Some)
  from core_wait_read [OF _ r, of n m d st] assms show ?thesis
    by (simp add: opt_step_def r reads_pending_dst_def scan_inv_def Let_def)
qed

lemma inv_fold:
  "scan_inv n m d st \<Longrightarrow> n + length (d @ xs) < 2 ^ 16 \<Longrightarrow> distinct (map fst (d @ xs)) \<Longrightarrow> \<forall>oi \<in> set xs. fst oi < m \<and> \<not> new_batch n (snd oi)
   \<Longrightarrow> scan_inv n m (d @ xs) (foldl (opt_step fx idx) st xs)"
proof (induction xs arbitrary: d st)
  case (Cons oi xs)
  then have "scan_inv n m (d @ [oi]) (opt_step fx idx st oi)" by (intro inv_step) auto
  from Cons.IH [OF this] Cons.prems show ?case by simp
qed simp

definition numbered :: "instr list \<Rightarrow> (nat \<times> instr) list" where
  "numbered c = zip [0..<length c] c"

lemma numbered_simps [simp]: "map fst (numbered c) = [0..<length c]" "map snd (numbered c) = c" "length (numbered c) = length c"
  by (simp_all add: numbered_def)

lemma numbered_set: "oi \<in> set (numbered c) \<longleftrightarrow> fst oi < length c \<and> snd oi = c ! fst oi"
  by (cases oi) (force simp: numbered_def set_zip)

definition groups_fit :: "bc_fn \<Rightarrow> bool" where
  \<comment> \<open>batch numbers stay in 16 bits, and the batches of the code are groups of the function\<close>
  "groups_fit f \<longleftrightarrow> length (read_groups f) + length (code f) < 2 ^ 16
     \<and> list_all (\<lambda>i. \<not> new_batch (length (read_groups f)) i) (code f)"

lemma inv_start: "scan_inv (length (read_groups f)) (length (code f)) [] (opt_start f)"
  by (simp add: scan_inv_def scan_core_def opt_start_def batches_ok_def waiting_def placed_def jumps_known_def)

lemma inv_prefix:
  assumes "groups_fit f" and "numbered (code f) = d @ e"
  shows "scan_inv (length (read_groups f)) (length (code f)) d (foldl (opt_step fx idx) (opt_start f) d)"
proof -
  have "map fst (d @ e) = [0..<length (code f)]" by (metis assms(2) numbered_simps(1))
  moreover have "length (d @ e) = length (code f)" by (metis assms(2) numbered_simps(3))
  moreover have "set d \<subseteq> set (numbered (code f))" unfolding assms(2) by simp
  ultimately have "distinct (map fst d)" and "length d \<le> length (code f)" and "set d \<subseteq> set (numbered (code f))" by (metis distinct_append distinct_upt map_append, simp_all)
  moreover from this have "\<forall>oi \<in> set d. fst oi < length (code f) \<and> \<not> new_batch (length (read_groups f)) (snd oi)"
    using assms(1) by (fastforce simp: groups_fit_def list_all_length numbered_set subset_iff)
  ultimately show ?thesis
    using inv_fold [OF inv_start [of f], of d fx idx] assms(1) by (simp add: groups_fit_def)
qed

lemma scan_core_final:
  assumes f: "groups_fit f"
  shows "scan_core (length (read_groups f)) (length (code f)) (numbered (code f)) (opt_scan fx idx f)"
proof -
  let ?st = "foldl (opt_step fx idx) (opt_start f) (numbered (code f))"
  have i: "scan_inv (length (read_groups f)) (length (code f)) (numbered (code f)) ?st" using inv_prefix [OF f, of _ "[]"] by simp
  then have "length (opt_groups ?st) < 2 ^ 16" using f by (auto simp: scan_inv_def scan_core_def groups_fit_def)
  with i show ?thesis unfolding opt_scan_def numbered_def [symmetric] by (intro core_flush) (auto simp: scan_inv_def)
qed

subsection \<open>Jumps\<close>

lemma retarget_known:
  assumes "p < length (new_code st)" and "jumps_known st"
  shows "retarget st (p, new_code st ! p) \<noteq> None"
  using assms by (cases "new_code st ! p") (auto simp: retarget_def jumps_known_def is_jump_def)

lemma retarget_same:
  assumes "retarget st (p, i) = Some j"
  shows "erase_offset j = erase_offset i" and "other n j = other n i" and "reads_in G n j = reads_in G n i"
    and "\<not> is_jump i \<Longrightarrow> j = i"
  using assms by (cases i; auto simp: retarget_def erase_offset_def other_def new_batch_def as_read_def reads_in_def direct_def is_jump_def)+

lemma mapM_Some_nth: "mapM f xs = Some ys \<Longrightarrow> length ys = length xs \<and> (\<forall>k < length xs. f (xs ! k) = Some (ys ! k))"
  by (induction xs arbitrary: ys) (auto simp: nth_Cons less_Suc_eq_0_disj split: Option.bind_splits)

lemma optimize_fn_returns:
  assumes "groups_fit f"
  obtains f' where "optimize_fn fx idx f = Some f'" and "length (code f') = length (new_code (opt_scan fx idx f))"
    and "read_groups f' = opt_groups (opt_scan fx idx f)"
    and "\<And>p. p < length (code f') \<Longrightarrow> retarget (opt_scan fx idx f) (p, new_code (opt_scan fx idx f) ! p) = Some (code f' ! p)"
proof -
  let ?st = "opt_scan fx idx f"
  have "jumps_known ?st" using scan_core_final [OF assms] by (simp add: scan_core_def)
  then have "\<forall>x \<in> set (zip [0..<length (new_code ?st)] (new_code ?st)). retarget ?st x \<noteq> None"
    using retarget_known by (auto simp: set_zip)
  then obtain c where c: "mapM (retarget ?st) (zip [0..<length (new_code ?st)] (new_code ?st)) = Some c"
    using mapM_Some [of _ "retarget ?st" "\<lambda>x. the (retarget ?st x)"] by fastforce
  show thesis
  proof (rule that)
    show "optimize_fn fx idx f = Some (f\<lparr>code := c, read_groups := opt_groups ?st\<rparr>)" using c by (simp add: optimize_fn_def Let_def)
  qed (use mapM_Some_nth [OF c] in auto)
qed

text \<open>The code with its jumps corrected has the same reads and the same other instructions.\<close>

lemma retargeted_same:
  assumes "length c = length d" and "\<And>p. p < length c \<Longrightarrow> retarget st (k + p, d ! p) = Some (c ! p)"
  shows "reads_of G n c = reads_of G n d \<and> others_of n c = others_of n d"
  using assms
proof (induction c d arbitrary: k rule: list_induct2)
  case (Cons x xs y ys)
  have "retarget st (k, y) = Some x" using Cons.prems [of 0] by simp
  moreover have "\<And>p. p < length xs \<Longrightarrow> retarget st (Suc k + p, ys ! p) = Some (xs ! p)"
    using Cons.prems [of "Suc p" for p] by simp
  ultimately show ?case using Cons.IH [of "Suc k"] retarget_same [of st k y x] by (simp add: others_of_def)
qed (simp add: others_of_def)

subsection \<open>Fences\<close>

definition extends :: "opt \<Rightarrow> opt \<Rightarrow> bool" where
  "extends st st' \<longleftrightarrow> (\<exists>X G. new_code st' = new_code st @ X \<and> opt_groups st' = opt_groups st @ G)"

lemma extends_refl: "extends st st"
  by (simp add: extends_def)

lemma extends_trans: "extends a b \<Longrightarrow> extends b c \<Longrightarrow> extends a c"
  by (auto simp: extends_def)

lemma extends_emit_cluster: "extends st (emit_cluster st)"
  by (auto simp: extends_def emit_cluster_def split: list.split)

lemma extends_emit_at: "extends st (emit_at st oi)"
  by (simp add: extends_def)

lemma extends_emit_all: "extends st (foldl emit_at st ps)"
  by (induction ps arbitrary: st) (auto intro: extends_refl extends_trans extends_emit_at)

lemma extends_flush: "extends st (opt_flush st)"
proof -
  have "extends (emit_cluster st) (opt_flush st)"
    using extends_emit_all [of "(emit_cluster st)\<lparr>pending_nonreads := []\<rparr>" "pending_nonreads st"]
    by (simp add: opt_flush_def Let_def extends_def)
  then show ?thesis by (rule extends_trans [OF extends_emit_cluster])
qed

lemma extends_step: "extends st (opt_step fx idx st oi)"
  using extends_flush [of st] by (auto simp: opt_step_def Let_def extends_def split: option.split)

lemma extends_fold: "extends st (foldl (opt_step fx idx) st xs)"
  by (induction xs arbitrary: st) (auto intro: extends_refl extends_trans extends_step)

lemma breaker_not_read: "cluster_breaker fx idx b \<Longrightarrow> as_read b = None"
  by (cases "as_read b") (auto dest: as_read_Some)

lemma numbered_split: "numbered (a @ b # c) = (numbered a @ [(length a, b)]) @ zip [Suc (length a)..<Suc (length a + length c)] c"
proof -
  have "[0..<length (a @ b # c)] = [0..<length a] @ length a # [Suc (length a)..<Suc (length a + length c)]"
    using upt_add_eq_append [of 0 "length a" "Suc (length c)"] by (simp add: upt_conv_Cons del: upt_Suc)
  then show ?thesis by (simp add: numbered_def)
qed

text \<open>At a fence everything that was seen is in the new code, and the fence follows.\<close>

lemma scan_fence:
  assumes f: "groups_fit f" and c: "code f = a @ b # c" and b: "cluster_breaker fx idx b"
  obtains a' c' where "new_code (opt_scan fx idx f) = a' @ b # c'"
    and "reads_of (opt_groups (opt_scan fx idx f)) (length (read_groups f)) a' = concat (map direct a)"
    and "filter (other (length (read_groups f))) a' = filter (other (length (read_groups f))) a"
proof -
  let ?n = "length (read_groups f)" and ?rest = "zip [Suc (length a)..<Suc (length a + length c)] c"
  let ?sa = "foldl (opt_step fx idx) (opt_start f) (numbered a)"
  let ?sb = "opt_step fx idx ?sa (length a, b)"
  have i: "scan_inv ?n (length (code f)) (numbered a) ?sa"
    by (rule inv_prefix [OF f]) (simp add: c numbered_split)
  then have core: "scan_core ?n (length (code f)) (numbered a) (opt_flush ?sa)"
    using f c by (intro core_flush) (auto simp: scan_inv_def scan_core_def groups_fit_def)
  have sb: "?sb = emit_at (opt_flush ?sa) (length a, b)" using b breaker_not_read [OF b] by (simp add: opt_step_def)
  have "opt_scan fx idx f = opt_flush (foldl (opt_step fx idx) ?sb ?rest)"
    unfolding opt_scan_def numbered_def [symmetric] c numbered_split by simp
  then have "extends ?sb (opt_scan fx idx f)" using extends_trans [OF extends_fold extends_flush] by simp
  then obtain X G where X: "new_code (opt_scan fx idx f) = new_code (opt_flush ?sa) @ b # X"
    and G: "opt_groups (opt_scan fx idx f) = opt_groups (opt_flush ?sa) @ G"
    by (auto simp: extends_def sb)
  show thesis
  proof (rule that)
    show "reads_of (opt_groups (opt_scan fx idx f)) ?n (new_code (opt_flush ?sa)) = concat (map direct a)"
      using core unfolding G by (simp add: scan_core_def reads_of_groups flip: map_map)
  qed (use X core in \<open>auto simp: scan_core_def\<close>)
qed

subsection \<open>Theorems\<close>

definition jump_offset :: "instr \<Rightarrow> i32 option" where
  "jump_offset i = (case i of IJump off \<Rightarrow> Some off | IJumpIfFalse _ off \<Rightarrow> Some off | _ \<Rightarrow> None)"

definition carries :: "nat \<Rightarrow> read_op list list \<Rightarrow> instr \<Rightarrow> instr \<Rightarrow> bool" where
  \<comment> \<open>the new instruction performs the read, or is the old one up to its offset\<close>
  "carries n G i' i = (case as_read i of Some r \<Rightarrow> r \<in> set (reads_in G n i') | None \<Rightarrow> erase_offset i' = erase_offset i)"

lemma sint_small: "- (2 ^ 31) \<le> x \<Longrightarrow> x < 2 ^ 31 \<Longrightarrow> sint (word_of_int x :: i32) = x"
  by (simp add: sint_word_ariths(8) signed_take_bit_int_eq_self sint_sbintrunc')

lemma new_offset_correct:
  assumes "int j + 1 + sint off = int t" and "t \<le> length im" and "length im < 2 ^ 16" and "l < 2 ^ 16" and "p < 2 ^ 16"
    and "q = (if t < length im then the (im ! t) else l)" and "t < length im \<Longrightarrow> im ! t \<noteq> None" and "q < 2 ^ 16"
  shows "int p + 1 + sint (new_offset im l p j off) = int q"
proof -
  have "(of_nat j + 1 + off :: i32) = word_of_int (int j + 1 + sint off)" by simp
  also have "\<dots> = word_of_int (int t)" using assms(1) by simp
  finally have t: "sint (of_nat j + 1 + off :: i32) = int t" using assms(2,3) by (simp add: sint_small del: of_int_of_nat_eq)
  have "map_or_end im l (of_nat j + 1 + off) = of_nat q"
    using assms(6,7) by (auto simp: map_or_end_def t Cons_nth_drop_Suc [symmetric])
  then have "new_offset im l p j off = word_of_int (int q - int p - 1)" by (simp add: new_offset_def)
  moreover have "sint (word_of_int (int q - int p - 1) :: i32) = int q - int p - 1"
    using assms(5,8) by (intro sint_small) auto
  ultimately show ?thesis by simp
qed


lemma retarget_jump:
  assumes "retarget st (p, i) = Some i'" and "jump_offset i = Some off" and "hm_get (new_jump_old st) p = Some j"
  shows "jump_offset i' = Some (new_offset (idx_map st) (length (new_code st)) p j off)"
  using assms by (cases i) (auto simp: retarget_def jump_offset_def)

lemma scan_placed:
  assumes "groups_fit f" and "j < length (code f)" and "st = opt_scan fx idx f"
  shows "placed_at (length (read_groups f)) st (j, code f ! j) (the (idx_map st ! j))" and "idx_map st ! j \<noteq> None"
    and "length (idx_map st) = length (code f)" and "length (new_code st) \<le> length (code f)"
proof -
  have core: "scan_core (length (read_groups f)) (length (code f)) (numbered (code f)) st" using scan_core_final [OF assms(1)] assms(3) by simp
  have "cluster st = []" "pending_nonreads st = []" by (simp_all add: assms(3) opt_scan_def)
  then have "waiting st = []" using core by (simp add: scan_core_def waiting_def)
  then have "placed (length (read_groups f)) st (set (numbered (code f)))" using core by (simp add: scan_core_def)
  moreover have "(j, code f ! j) \<in> set (numbered (code f))" using assms(2) by (simp add: numbered_set)
  ultimately obtain p where "placed_at (length (read_groups f)) st (j, code f ! j) p" unfolding placed_def by blast
  moreover from this have "idx_map st ! j = Some p" by (simp add: placed_at_def)
  ultimately show "placed_at (length (read_groups f)) st (j, code f ! j) (the (idx_map st ! j))" "idx_map st ! j \<noteq> None" by simp_all
  show "length (idx_map st) = length (code f)" "length (new_code st) \<le> length (code f)" using core by (simp_all add: scan_core_def)
qed

text \<open>C11 (functional): Read clustering moves every jump with its target. There is a position for each old instruction, at which
  the new code has that instruction or a batch that performs the read; a jump to an instruction of the old code becomes a
  jump to the position of that instruction, and a jump to the end a jump to the end.\<close>
theorem optimize_retargets_jumps:
  assumes f: "groups_fit f"
  shows "\<exists>f' pos. optimize_fn fx idx f = Some f'
    \<and> (\<forall>j < length (code f). pos j < length (code f') \<and> carries (length (read_groups f)) (read_groups f') (code f' ! pos j) (code f ! j))
    \<and> (\<forall>j < length (code f). \<forall>off t. jump_offset (code f ! j) = Some off \<and> int j + 1 + sint off = int t \<and> t \<le> length (code f) \<longrightarrow>
        (\<exists>off'. jump_offset (code f' ! pos j) = Some off'
           \<and> int (pos j) + 1 + sint off' = int (if t < length (code f) then pos t else length (code f'))))"
proof -
  define st where "st = opt_scan fx idx f"
  define pos where "pos j = the (idx_map st ! j)" for j
  obtain f' where f': "optimize_fn fx idx f = Some f'" "length (code f') = length (new_code st)" "read_groups f' = opt_groups st"
    and re: "\<And>p. p < length (code f') \<Longrightarrow> retarget st (p, new_code st ! p) = Some (code f' ! p)"
    using optimize_fn_returns [OF f, of fx idx] unfolding st_def by metis
  have at: "placed_at (length (read_groups f)) st (j, code f ! j) (pos j)" if "j < length (code f)" for j
    using scan_placed(1) [OF f that st_def] by (simp add: pos_def)
  have "pos j < length (code f') \<and> carries (length (read_groups f)) (read_groups f') (code f' ! pos j) (code f ! j)"
    if "j < length (code f)" for j
    using at [OF that] re [of "pos j"] f'(2,3) retarget_same(1,3)
    by (auto simp: placed_at_def carries_def split: option.splits)
  moreover have "\<exists>off'. jump_offset (code f' ! pos j) = Some off'
      \<and> int (pos j) + 1 + sint off' = int (if t < length (code f) then pos t else length (code f'))"
    if j: "j < length (code f)" and off: "jump_offset (code f ! j) = Some off" and t: "int j + 1 + sint off = int t" "t \<le> length (code f)" for j off t
  proof -
    have "is_jump (code f ! j)" and nr: "as_read (code f ! j) = None" using off by (cases "code f ! j"; simp add: jump_offset_def is_jump_def as_read_def)+
    then have p: "pos j < length (new_code st)" "new_code st ! pos j = code f ! j" "hm_get (new_jump_old st) (pos j) = Some j"
      using at [OF j] by (auto simp: placed_at_def)
    then have joff: "jump_offset (code f' ! pos j) = Some (new_offset (idx_map st) (length (new_code st)) (pos j) j off)"
      using re [of "pos j"] f'(2) off by (intro retarget_jump) auto
    moreover have "length (code f) < 2 ^ 16" using f by (simp add: groups_fit_def)
    moreover have "pos t < length (new_code st) \<and> idx_map st ! t \<noteq> None" if "t < length (code f)"
      using at [OF that] scan_placed(2) [OF f that st_def] by (simp add: placed_at_def)
    ultimately have "int (pos j) + 1 + sint (new_offset (idx_map st) (length (new_code st)) (pos j) j off)
        = int (if t < length (code f) then pos t else length (code f'))"
      using t p(1) f'(2) scan_placed(3,4) [OF f j st_def] unfolding pos_def by (intro new_offset_correct) auto
    with joff show ?thesis by blast
  qed
  ultimately show ?thesis using f'(1) by blast
qed

end
