(* ===== verification/OptimizeRun.thy ===== *)
theory OptimizeRun
  imports OptimizeProps VmProps
begin

section \<open>Read clustering: a run that changes\<close>

text \<open>
  The function \<open>reuse_fn\<close> is what \<^verbatim>\<open>compile.rs\<close> emits for
  \<^verbatim>\<open>let p = a; let q = 1 + 2; let r = b; return r;\<close> with two states \<^verbatim>\<open>a\<close> and \<^verbatim>\<open>b\<close>: the register of the temporary \<^verbatim>\<open>2\<close> is
  free again when \<^verbatim>\<open>r\<close> is allocated.
\<close>

definition reuse_code :: "instr list" where
  "reuse_code = [IKvGet 0 0, ILoadConst 1 0, ILoadConst 2 1, IBin BAdd 1 1 2, IKvGet 2 1, IMove 3 2, IReturn 3]"

definition reuse_fn :: bc_fn where
  "reuse_fn = \<lparr>fn_name = ''main'', n_params = 0, n_regs = 4, code = reuse_code,
     consts_of = [CInt 1, CInt 2], is_entry = True, is_nore = False, read_groups = [], param_types = [],
     return_type = TInt, fn_is_view = False, fn_is_pure = False\<rparr>"

definition reuse_module :: bc_module where
  "reuse_module = \<lparr>mod_name = ''M'', imports_of = [], import_index = [], state_roots = [10, 20], state_types = [TInt, TInt],
     state_defaults = [VInt 0, VInt 0], state_names = [''a'', ''b''], state_index = [(''a'', 0), (''b'', 1)], struct_shapes = [],
     struct_index = [], functions_of = [reuse_fn], fn_index = [(''main'', 0)], path_specs = [], handler_dispatch = [],
     enum_shapes = [], enum_index = [], interfaces_of = [], interface_index = []\<rparr>"

definition clustered_fn :: bc_fn where
  "clustered_fn = reuse_fn\<lparr>
     code := [IReadBatch 0, ILoadConst 1 0, ILoadConst 2 1, IBin BAdd 1 1 2, IMove 3 2, IReturn 3],
     read_groups := [[RState 0 0, RState 2 1]]\<rparr>"

lemmas opt_defs = optimize_fn_def opt_scan_def opt_start_def opt_step_def opt_flush_def emit_cluster_def emit_at_def
  reads_pending_dst_def place_def retarget_def as_read_def is_jump_def of_read_def read_op_dst_def Let_def

lemma upt_7: "[0..<7] = [0, 1, 2, 3, 4, 5, 6::nat]" and upt_6: "[0..<6] = [0, 1, 2, 3, 4, 5::nat]"
  by (simp_all add: upt_rec)

lemma clustered: "optimize_fn [] [(''main'', 0)] reuse_fn = Some clustered_fn"
  by (simp add: opt_defs reuse_fn_def reuse_code_def clustered_fn_def upt_7 upt_6 upt_rec)

definition reuse_env :: "bc_fn \<Rightarrow> venv" where
  "reuse_env f = \<lparr>ve_lib = twos_lib, ve_float = null_float, ve_text = decimal_lib, ve_host = [],
     ve_modules = [reuse_module\<lparr>functions_of := [f]\<rparr>], tree_fuel = 0\<rparr>"

lemma exec_go:
  assumes "mi < length (ve_modules E)" and "fi < length (functions_of (ve_modules E ! mi))"
    and "pc < length (code (functions_of (ve_modules E ! mi) ! fi))"
    and "step E (exec n E) mi fi (ve_modules E ! mi) (functions_of (ve_modules E ! mi) ! fi) (pc + 1)
      (code (functions_of (ve_modules E ! mi) ! fi) ! pc) = go pc' h"
  shows "exec (Suc n) E mi fi pc = vm_bind tick (\<lambda>_. vm_bind h (\<lambda>_. exec n E mi fi pc'))"
proof
  fix s show "exec (Suc n) E mi fi pc s = vm_bind tick (\<lambda>_. vm_bind h (\<lambda>_. exec n E mi fi pc')) s"
    using assms by (simp add: go_def vm_bind_def vm_index_def vm_ret_def split: outcome.split)
qed

lemma exec_return:
  assumes "mi < length (ve_modules E)" and "fi < length (functions_of (ve_modules E ! mi))"
    and "pc < length (code (functions_of (ve_modules E ! mi) ! fi))"
    and "code (functions_of (ve_modules E ! mi) ! fi) ! pc = IReturn src"
  shows "exec (Suc n) E mi fi pc = vm_bind tick (\<lambda>_. get_reg src)"
proof
  fix s show "exec (Suc n) E mi fi pc s = vm_bind tick (\<lambda>_. get_reg src) s"
    using assms by (simp add: vm_bind_def vm_index_def vm_ret_def split: outcome.split)
qed

lemma reuse_fetch [simp]:
  "ve_modules (reuse_env f) = [reuse_module\<lparr>functions_of := [f]\<rparr>]" "functions_of (reuse_module\<lparr>functions_of := [f]\<rparr>) = [f]"
  by (simp_all add: reuse_env_def)

lemma reuse_chain:
  fixes n defines "E \<equiv> reuse_env reuse_fn" and "m \<equiv> reuse_module\<lparr>functions_of := [reuse_fn]\<rparr>"
  shows "exec (Suc (Suc (Suc (Suc (Suc (Suc (Suc n))))))) E 0 0 0 =
    vm_bind tick (\<lambda>_. vm_bind (i_kv_get E m 0 0) (\<lambda>_. vm_bind tick (\<lambda>_. vm_bind (i_load_const reuse_fn 1 0) (\<lambda>_.
    vm_bind tick (\<lambda>_. vm_bind (i_load_const reuse_fn 2 1) (\<lambda>_. vm_bind tick (\<lambda>_. vm_bind (i_bin E BAdd 1 1 2) (\<lambda>_.
    vm_bind tick (\<lambda>_. vm_bind (i_kv_get E m 2 1) (\<lambda>_. vm_bind tick (\<lambda>_. vm_bind (i_move 3 2) (\<lambda>_.
    vm_bind tick (\<lambda>_. get_reg 3)))))))))))))"
  unfolding E_def m_def
  by (simp add: exec_go [of 0 _ 0] exec_return [of 0 _ 0] reuse_fn_def reuse_code_def del: exec.simps)

lemma clustered_chain:
  fixes n defines "E \<equiv> reuse_env clustered_fn" and "m \<equiv> reuse_module\<lparr>functions_of := [clustered_fn]\<rparr>"
  shows "exec (Suc (Suc (Suc (Suc (Suc (Suc n)))))) E 0 0 0 =
    vm_bind tick (\<lambda>_. vm_bind (i_read_batch E m clustered_fn 0) (\<lambda>_. vm_bind tick (\<lambda>_. vm_bind (i_load_const clustered_fn 1 0) (\<lambda>_.
    vm_bind tick (\<lambda>_. vm_bind (i_load_const clustered_fn 2 1) (\<lambda>_. vm_bind tick (\<lambda>_. vm_bind (i_bin E BAdd 1 1 2) (\<lambda>_.
    vm_bind tick (\<lambda>_. vm_bind (i_move 3 2) (\<lambda>_. vm_bind tick (\<lambda>_. get_reg 3)))))))))))"
  unfolding E_def m_def
  by (simp add: exec_go [of 0 _ 0] exec_return [of 0 _ 0] clustered_fn_def reuse_fn_def del: exec.simps)

definition run_value :: "((vm_error + val) \<times> tx) outcome \<Rightarrow> (vm_error + val) option" where
  "run_value r = (case r of VOk (v, t) s \<Rightarrow> Some v | _ \<Rightarrow> None)"

definition start_vm :: "nat \<Rightarrow> vm" where
  "start_vm fuel = \<lparr>vm_fuel = fuel, vm_tx = set_lazy (tx_new (\<lambda>_. None)) True, parallel_skip = False, regs = []\<rparr>"

definition settle :: "bigint_lib \<Rightarrow> val outcome \<Rightarrow> (vm_error + val) option" where
  \<comment> \<open>the result of a run whose last call had this outcome\<close>
  "settle L r = (case r of VOk v s \<Rightarrow> map_option (\<lambda>_. Inr v) (flush_pending L (vm_tx s))
     | VErr e s \<Rightarrow> map_option (\<lambda>_. Inl e) (flush_pending L (vm_tx s)) | _ \<Rightarrow> None)"

lemma run_reuse:
  assumes "n_params f = 0" and "n_regs f = 4" and "\<not> is_nore f"
  shows "run_value (run_world (reuse_env f) 0 ''main'' [] fuel (tx_new (\<lambda>_. None)))
    = settle (ve_lib (reuse_env f)) (vm_bind (in_frame [VUnit, VUnit, VUnit, VUnit] (exec (Suc fuel) (reuse_env f) 0 0 0)) (vm_force (reuse_env f)) (start_vm fuel))"
proof -
  have "replicate 4 VUnit = [VUnit, VUnit, VUnit, VUnit]" by (simp add: numeral_eq_Suc)
  then have "vm_call (reuse_env f) (exec (Suc fuel) (reuse_env f)) 0 0 [] = in_frame [VUnit, VUnit, VUnit, VUnit] (exec (Suc fuel) (reuse_env f) 0 0 0)"
    using assms by (auto simp: vm_call_def vm_bind_def vm_index_def vm_ret_def call_body_def Let_def simp del: exec.simps)
  moreover have "hm_get (fn_index (reuse_module\<lparr>functions_of := [f]\<rparr>)) ''main'' = Some 0" by (simp add: reuse_module_def hm_get_def)
  ultimately show ?thesis
    by (auto simp: run_world_def Let_def bind_index bind_to_tx run_value_def settle_def start_vm_def simp del: exec.simps split: outcome.split option.split)
qed

lemma reuse_result: "run_value (run_world (reuse_env reuse_fn) 0 ''main'' [] 7 (tx_new (\<lambda>_. None))) = Some (Inr (VInt 0))"
proof -
  have "exec (Suc 7) (reuse_env reuse_fn) = exec (Suc (Suc (Suc (Suc (Suc (Suc (Suc 1))))))) (reuse_env reuse_fn)"
    by (simp add: numeral_eq_Suc del: exec.simps)
  then have "run_value (run_world (reuse_env reuse_fn) 0 ''main'' [] 7 (tx_new (\<lambda>_. None)))
    = settle (ve_lib (reuse_env reuse_fn)) (vm_bind (in_frame [VUnit, VUnit, VUnit, VUnit]
        (exec (Suc (Suc (Suc (Suc (Suc (Suc (Suc 1))))))) (reuse_env reuse_fn) 0 0 0)) (vm_force (reuse_env reuse_fn)) (start_vm 7))"
    using run_reuse [of reuse_fn 7] by (simp add: reuse_fn_def del: exec.simps)
  also have "\<dots> = Some (Inr (VInt 0))" unfolding reuse_chain by code_simp
  finally show ?thesis .
qed

lemma clustered_result: "run_value (run_world (reuse_env clustered_fn) 0 ''main'' [] 7 (tx_new (\<lambda>_. None))) = Some (Inr (VInt 2))"
proof -
  have "exec (Suc 7) (reuse_env clustered_fn) = exec (Suc (Suc (Suc (Suc (Suc (Suc 2)))))) (reuse_env clustered_fn)"
    by (simp add: numeral_eq_Suc del: exec.simps)
  then have "run_value (run_world (reuse_env clustered_fn) 0 ''main'' [] 7 (tx_new (\<lambda>_. None)))
    = settle (ve_lib (reuse_env clustered_fn)) (vm_bind (in_frame [VUnit, VUnit, VUnit, VUnit]
        (exec (Suc (Suc (Suc (Suc (Suc (Suc 2)))))) (reuse_env clustered_fn) 0 0 0)) (vm_force (reuse_env clustered_fn)) (start_vm 7))"
    using run_reuse [of clustered_fn 7] by (simp add: clustered_fn_def reuse_fn_def del: exec.simps)
  also have "\<dots> = Some (Inr (VInt 2))" unfolding clustered_chain by code_simp
  finally show ?thesis .
qed

text \<open>C36 (equivalence): Read clustering does not keep the meaning of a program. A function that the compiler emits returns the state
  \<^verbatim>\<open>b\<close>, here its default 0, and after the pass it returns 2: the read into a reused register is moved in front of
  the instructions that still use the register for something else.\<close>
theorem optimize_changes_result:
  "\<exists>f'. optimize_fn [] [(''main'', 0)] reuse_fn = Some f'
    \<and> run_value (run_world (reuse_env reuse_fn) 0 ''main'' [] 7 (tx_new (\<lambda>_. None))) = Some (Inr (VInt 0))
    \<and> run_value (run_world (reuse_env f') 0 ''main'' [] 7 (tx_new (\<lambda>_. None))) = Some (Inr (VInt 2))"
  using clustered reuse_result clustered_result by blast


definition loop_fn :: bc_fn where
  "loop_fn = reuse_fn\<lparr>code := [IKvGet 0 0, IKvGet 1 1, IJumpIfFalse 1 1, IJump (- 3), IReturn 0]\<rparr>"

theorem optimize_retargets_jumps_witness:
  "\<exists>f' (pos :: nat \<Rightarrow> nat) off'. optimize_fn [] [] loop_fn = Some f' \<and> pos 3 < length (code f') \<and> jump_offset (code f' ! pos 3) = Some off'
    \<and> int (pos 3) + 1 + sint off' = int (pos 1)"
proof -
  have "groups_fit loop_fn" by (simp add: groups_fit_def loop_fn_def reuse_fn_def new_batch_def)
  from optimize_retargets_jumps [OF this, of "[]" "[]"] obtain f' pos where f': "optimize_fn [] [] loop_fn = Some f'"
    and pos: "\<forall>j < length (code loop_fn). pos j < length (code f') \<and> carries (length (read_groups loop_fn)) (read_groups f') (code f' ! pos j) (code loop_fn ! j)"
    and jmp: "\<forall>j < length (code loop_fn). \<forall>off t. jump_offset (code loop_fn ! j) = Some off \<and> int j + 1 + sint off = int t \<and> t \<le> length (code loop_fn) \<longrightarrow>
        (\<exists>off'. jump_offset (code f' ! pos j) = Some off'
           \<and> int (pos j) + 1 + sint off' = int (if t < length (code loop_fn) then pos t else length (code f')))" by blast
  have "jump_offset (code loop_fn ! 3) = Some (- 3)" and "length (code loop_fn) = 5" by (simp_all add: loop_fn_def jump_offset_def)
  then show ?thesis using f' pos jmp [rule_format, of 3 "- 3" 1] by (auto intro!: exI [of _ pos])
qed

definition parallel_fn :: bc_fn where
  \<comment> \<open>\<^verbatim>\<open>let x = a; let y = b; parallel { let z = 1; } return z;\<close>\<close>
  "parallel_fn = reuse_fn\<lparr>code := [IKvGet 0 0, IKvGet 1 1, IParallelBegin [\<lparr>pr_start = 3, pr_end = 5, pr_dst = Some 2\<rparr>] 5,
     ILoadConst 2 0, IParallelYield (Some 2), IMove 3 2, IReturn 3]\<rparr>"


end
