(* ===== verification/Ast.thy ===== *)
theory Ast
  imports Bytecode
begin

section \<open>The syntax tree\<close>

text \<open>
  The declarations, statements and expressions of \<^verbatim>\<open>crates/rend/src/ast.rs\<close>. Constructors of statements have the prefix \<open>S\<close>, of
  expressions \<open>X\<close>; operands stand in the order of their declaration. Source spans are left out: they only place
  error messages. \<^verbatim>\<open>Box\<close> is transparent. The types of the language are those of \<^theory_text>\<open>Values\<close>, interface declarations those of
  \<^theory_text>\<open>Bytecode\<close>.
\<close>

datatype match_pattern = PWildcard | PEnumVariant string string "string list"

datatype (plugins only: size) block = Block "stmt list" "expr option"
and stmt =
    SLet string "ty option" expr
  | SAssign expr expr
  | SReturn "expr option"
  | SIf if_stmt
  | SWhile expr block
  | SFor string expr "expr option" block   \<comment> \<open>var, iter, limit, body\<close>
  | SForRange string expr expr bool block   \<comment> \<open>var, start, end, inclusive, body\<close>
  | SBreak
  | SContinue
  | SExpr expr
  | SParallel "stmt list"
  | SParallelForTo string "string option" expr expr block   \<comment> \<open>id_var, idx_var, source, output, body\<close>
  | SEmit expr
  | SDelete expr
  | SLetTuple "string list" expr
  | SPlaceholder
and if_stmt = IfStmt expr block else_branch
and else_branch = ElseNone | ElseBlock block | ElseIf if_stmt
and expr =
    XInt int | XUInt int | XFloat u64 | XI32 i32 | XU32 u32 | XU64 u64 | XU128 u128
  | XJsonObject "(string \<times> expr) list"
  | XJsonArray "expr list"
  | XJsonNull
  | XBool bool
  | XStr string
  | XIdent string
  | XBinary binop expr expr
  | XUnary unop expr
  | XCall "string option" string "expr list"
  | XDynCall string string "expr list" bool bool   \<comment> \<open>target_ident, method, args, method_is_view, method_is_pure\<close>
  | XIndex expr expr
  | XArray "expr list"
  | XExplicitLiteral expr
  | XArrayAlloc ty expr
  | XReserve expr string
  | XStructLit string "(string \<times> expr) list"
  | XField expr string
  | XPipe expr expr
  | XPrev
  | XListComp expr "comp_clause list"
  | XSetLit "expr list"
  | XSetComp expr "comp_clause list"
  | XDictLit "(expr \<times> expr) list"
  | XDictComp expr expr "comp_clause list"
  | XTupleLit "expr list"
  | XTupleIndex expr nat
  | XEnumCtor string string "expr list"
  | XMatch expr "match_arm list"
  | XBlock block
  | XIf expr block else_branch
and match_arm = MatchArm match_pattern expr
and comp_clause = ClFor string expr | ClIf expr

lemmas ast_induct = block.induct stmt.induct if_stmt.induct else_branch.induct expr.induct match_arm.induct comp_clause.induct

subsection \<open>Parts of blocks and conditionals\<close>

primrec b_stmts :: "block \<Rightarrow> stmt list" where "b_stmts (Block ss t) = ss"
primrec b_tail :: "block \<Rightarrow> expr option" where "b_tail (Block ss t) = t"

subsection \<open>Declarations\<close>

record param =
  pa_name :: string
  pa_ty :: ty

record fn_def =
  fd_name :: string
  fd_params :: "param list"
  fd_return_type :: ty
  fd_body :: block
  fd_is_nore :: bool
  fd_is_entry :: bool
  fd_is_view :: bool
  fd_is_pure :: bool
  fd_modifiers :: "(string \<times> expr list) list"

record import_decl =
  imp_name :: string
  imp_params :: "ty list"
  imp_return_type :: ty

record state_decl =
  sd_name :: string
  sd_ty :: ty

record struct_field =
  sf_name :: string
  sf_ty :: ty
  sf_group :: "string option"

record struct_decl =
  st_name :: string
  st_fields :: "struct_field list"
  st_is_pub :: bool

record handler_decl =
  hd_event_module :: "string option"
  hd_event_type :: string
  hd_fn_def :: fn_def

record modifier_decl =
  md_name :: string
  md_params :: "param list"
  md_body :: block

record enum_variant =
  ev_variant :: string
  ev_payload :: "ty list"

record enum_decl =
  ed_name :: string
  ed_variants :: "enum_variant list"

record const_decl =
  cd_name :: string
  cd_ty :: ty
  cd_value :: expr

record cap_decl =
  cap_name :: string
  cap_fields :: "struct_field list"

datatype sort_direction = Asc | Desc
datatype index_kind = IxUnique | IxMulti

record index_field =
  ix_path :: "string list"
  ix_direction :: sort_direction

record index_decl =
  ix_name :: string
  ix_on_state :: string
  ix_fields :: "index_field list"
  ix_kind :: index_kind

record ast_module =
  am_name :: "string option"
  am_imports :: "import_decl list"
  am_states :: "state_decl list"
  am_functions :: "fn_def list"
  am_structs :: "struct_decl list"
  am_handlers :: "handler_decl list"
  am_modifiers :: "modifier_decl list"
  am_enums :: "enum_decl list"
  am_consts :: "const_decl list"
  am_caps :: "cap_decl list"
  am_interfaces :: "iface_decl list"
  am_indexes :: "index_decl list"

end
