(* ===== verification/Effects.thy ===== *)
theory Effects
  imports Ast Optimize
begin

section \<open>Effect classification\<close>

text \<open>
  The analysis of \<^verbatim>\<open>crates/rend/src/effects.rs\<close>: a walk over the body of each function joins the effects of what it finds into an
  accumulator, and a loop over the functions repeats the walks until no class changes. The walk of a node is a function
  of the accumulator. The source walks a block in two ways, with and without its trailing expression; \<open>fx_block\<close> and
  \<open>fx_else\<close> give both. The loop is a partial function, \<open>None\<close> is no result.
\<close>

record fx_ctx =
  fx_locals :: "(string, effect_class) hashmap"
  fx_externals :: "(string, effect_class) hashmap"
  fx_imports :: "string list"
  fx_states :: "string list"
  fx_state_types :: "(string, ty) hashmap"
  fx_iface_names :: "string list"

definition is_pure_builtin :: "string \<Rightarrow> bool" where
  "is_pure_builtin name \<longleftrightarrow> name \<in> set
     [''resource'', ''unwrap'', ''address'', ''len'', ''assert'',
      ''set_insert'', ''set_remove'', ''set_contains'', ''set_len'',
      ''dict_set'', ''dict_remove'', ''dict_get'', ''dict_has'', ''dict_len'',
      ''i64'', ''i32'', ''u32'', ''u64'', ''u128'',
      ''msg_sender'', ''block_timestamp'', ''block_number'',
      ''to_bytes'', ''bytes_len'', ''bytes_concat'', ''bytes_eq'', ''bytes_slice'',
      ''to_be_bytes'', ''bit_not_bytes'',
      ''string_concat'', ''string_slice'', ''string_contains'',
      ''pmap_contains'', ''pvec_len'',
      ''pmap_entries'', ''pmap_keys'', ''pmap_values'', ''pvec_to_array'',
      ''pbtree_contains'', ''pbtree_range'',
      ''sum'', ''max'', ''min'',
      ''parse_json'', ''json_stringify'',
      ''json_get_field'', ''json_get_index'',
      ''json_to_string'', ''json_to_i64'', ''json_to_u64'',
      ''json_to_bool'', ''json_is_null'']"

fun assign_target_is_state :: "fx_ctx \<Rightarrow> expr \<Rightarrow> bool" where
  "assign_target_is_state ctx (XIdent name) = (name \<in> set (fx_states ctx))"
| "assign_target_is_state ctx (XIndex t _) = assign_target_is_state ctx t"
| "assign_target_is_state ctx (XField t _) = assign_target_is_state ctx t"
| "assign_target_is_state ctx _ = False"

subsection \<open>The walk\<close>

type_synonym fx = "effect_class \<Rightarrow> effect_class" \<comment> \<open>what a walk does to the accumulator\<close>

definition fx_seq :: "fx list \<Rightarrow> fx" where
  "fx_seq fs acc = foldl (\<lambda>a f. f a) acc fs"

definition fx_skip :: fx where
  "fx_skip acc = acc"

definition fx_then :: "fx \<Rightarrow> fx \<Rightarrow> fx" where
  "fx_then f g acc = g (f acc)"

definition fx_opt :: "fx option \<Rightarrow> fx" where
  "fx_opt f = (case f of None \<Rightarrow> fx_skip | Some g \<Rightarrow> g)"

definition dyn_call_class :: "fx_ctx \<Rightarrow> string \<Rightarrow> string \<Rightarrow> bool \<Rightarrow> bool \<Rightarrow> effect_class" where
  "dyn_call_class ctx target_ident method is_view is_pure =
    (if is_pure then EPure else if is_view then EReadOnly
     else (case hm_get (fx_state_types ctx) target_ident of
       Some (TInterface _ methods) \<Rightarrow>
         (case List.find (\<lambda>m. case m of MethodSig n _ _ _ _ \<Rightarrow> n = method) methods of
           Some (MethodSig _ _ _ v p) \<Rightarrow> if p then EPure else if v then EReadOnly else EImpure
         | None \<Rightarrow> EImpure)
     | _ \<Rightarrow> EImpure))"

definition module_call_class :: "fx_ctx \<Rightarrow> string \<Rightarrow> string \<Rightarrow> effect_class" where
  "module_call_class ctx mn name =
    (if name = ''bind'' \<and> mn \<in> set (fx_iface_names ctx) then EPure
     else (case hm_get (fx_externals ctx) (mn @ ''::'' @ name) of Some c \<Rightarrow> c | None \<Rightarrow> EImpure))"

definition local_call_class :: "fx_ctx \<Rightarrow> string \<Rightarrow> effect_class" where
  "local_call_class ctx name =
    (if is_pure_builtin name then EPure
     else if name \<in> set [''pmap_contains'', ''pvec_len'', ''pmap_entries'', ''pmap_keys'', ''pmap_values'', ''pvec_to_array'',
       ''pbtree_contains'', ''pbtree_range''] then EReadOnly
     else if name \<in> set (fx_imports ctx) then EImpure
     else (case hm_get (fx_locals ctx) name of Some c \<Rightarrow> c | None \<Rightarrow> EImpure))"

definition fx_add :: "effect_class \<Rightarrow> fx" where
  \<comment> \<open>\<^verbatim>\<open>*acc = acc.join(class)\<close>\<close>
  "fx_add c acc = fx_join acc c"

definition fx_ident :: "fx_ctx \<Rightarrow> string \<Rightarrow> fx" where
  "fx_ident ctx name = (if name \<in> set (fx_states ctx) then fx_add EReadOnly else fx_skip)"

primrec fx_block :: "fx_ctx \<Rightarrow> block \<Rightarrow> fx \<times> fx"
and classify_stmt :: "fx_ctx \<Rightarrow> stmt \<Rightarrow> fx"
and classify_if :: "fx_ctx \<Rightarrow> if_stmt \<Rightarrow> fx"
and fx_else :: "fx_ctx \<Rightarrow> else_branch \<Rightarrow> fx \<times> fx"
and classify_expr :: "fx_ctx \<Rightarrow> expr \<Rightarrow> fx"
and fx_arm :: "fx_ctx \<Rightarrow> match_arm \<Rightarrow> fx"
and fx_clause :: "fx_ctx \<Rightarrow> comp_clause \<Rightarrow> fx" where
  \<comment> \<open>the statements alone, and the statements with the trailing expression\<close>
  "fx_block ctx (Block ss t) = (let body = fx_seq (map (classify_stmt ctx) ss) in
     (body, fx_then body (fx_opt (map_option (classify_expr ctx) t))))"
| "classify_stmt ctx (SLet name t v) = classify_expr ctx v"
| "classify_stmt ctx (SAssign target v) =
     fx_then (if assign_target_is_state ctx target then fx_add EWriteOnly else fx_skip) (classify_expr ctx v)"
| "classify_stmt ctx (SReturn v) = fx_opt (map_option (classify_expr ctx) v)"
| "classify_stmt ctx (SIf i) = classify_if ctx i"
| "classify_stmt ctx (SWhile c b) = fx_then (classify_expr ctx c) (fst (fx_block ctx b))"
| "classify_stmt ctx (SFor x iter lim b) = fx_then (classify_expr ctx iter) (fst (fx_block ctx b))"
| "classify_stmt ctx (SForRange x a e incl b) = fx_then (fx_then (classify_expr ctx a) (classify_expr ctx e)) (fst (fx_block ctx b))"
| "classify_stmt ctx SBreak = fx_skip"
| "classify_stmt ctx SContinue = fx_skip"
| "classify_stmt ctx (SExpr e) = classify_expr ctx e"
| "classify_stmt ctx (SParallel ss) = fx_seq (map (classify_stmt ctx) ss)"
| "classify_stmt ctx (SParallelForTo x ix source out b) =
     fx_then (fx_then (classify_expr ctx source) (classify_expr ctx out)) (fst (fx_block ctx b))"
| "classify_stmt ctx (SEmit v) = fx_then (fx_add EWriteOnly) (classify_expr ctx v)"
| "classify_stmt ctx (SDelete target) = fx_then (fx_add EWriteOnly) (classify_expr ctx target)"
| "classify_stmt ctx (SLetTuple ns v) = classify_expr ctx v"
| "classify_stmt ctx SPlaceholder = fx_skip"
| "classify_if ctx (IfStmt c b e) = fx_then (fx_then (classify_expr ctx c) (fst (fx_block ctx b))) (fst (fx_else ctx e))"
| "fx_else ctx ElseNone = (fx_skip, fx_skip)"
| "fx_else ctx (ElseBlock b) = fx_block ctx b"
| "fx_else ctx (ElseIf i) = (classify_if ctx i, classify_if ctx i)"
| "classify_expr ctx (XInt n) = fx_skip"
| "classify_expr ctx (XUInt n) = fx_skip"
| "classify_expr ctx (XFloat n) = fx_skip"
| "classify_expr ctx (XI32 n) = fx_skip"
| "classify_expr ctx (XU32 n) = fx_skip"
| "classify_expr ctx (XU64 n) = fx_skip"
| "classify_expr ctx (XU128 n) = fx_skip"
| "classify_expr ctx (XJsonObject ps) = fx_seq (map snd (map (map_prod id (classify_expr ctx)) ps))"
| "classify_expr ctx (XJsonArray es) = fx_seq (map (classify_expr ctx) es)"
| "classify_expr ctx XJsonNull = fx_skip"
| "classify_expr ctx (XBool b) = fx_skip"
| "classify_expr ctx (XStr s) = fx_skip"
| "classify_expr ctx (XIdent name) = fx_ident ctx name"
| "classify_expr ctx (XBinary bop a b) = fx_then (classify_expr ctx a) (classify_expr ctx b)"
| "classify_expr ctx (XUnary uop a) = classify_expr ctx a"
| "classify_expr ctx (XCall m name args) =
     fx_then (fx_seq (map (classify_expr ctx) args))
       (fx_add (case m of Some mn \<Rightarrow> module_call_class ctx mn name | None \<Rightarrow> local_call_class ctx name))"
| "classify_expr ctx (XDynCall t method args v p) =
     fx_then (fx_seq (map (classify_expr ctx) args)) (fx_add (dyn_call_class ctx t method v p))"
| "classify_expr ctx (XIndex target key) =
     fx_then (fx_then (case target of XIdent n \<Rightarrow> fx_ident ctx n | _ \<Rightarrow> fx_skip) (classify_expr ctx target)) (classify_expr ctx key)"
| "classify_expr ctx (XArray es) = fx_seq (map (classify_expr ctx) es)"
| "classify_expr ctx (XExplicitLiteral e) = classify_expr ctx e"
| "classify_expr ctx (XArrayAlloc t e) = classify_expr ctx e"
| "classify_expr ctx (XReserve e st) = fx_then (fx_add EWriteOnly) (classify_expr ctx e)"
| "classify_expr ctx (XStructLit n fs) = fx_seq (map snd (map (map_prod id (classify_expr ctx)) fs))"
| "classify_expr ctx (XField e n) = classify_expr ctx e"
| "classify_expr ctx (XPipe a b) = fx_then (classify_expr ctx a) (classify_expr ctx b)"
| "classify_expr ctx XPrev = fx_skip"
| "classify_expr ctx (XListComp e cs) = fx_then (fx_seq (map (fx_clause ctx) cs)) (classify_expr ctx e)"
| "classify_expr ctx (XSetLit es) = fx_seq (map (classify_expr ctx) es)"
| "classify_expr ctx (XSetComp e cs) = fx_then (fx_seq (map (fx_clause ctx) cs)) (classify_expr ctx e)"
| "classify_expr ctx (XDictLit ps) = fx_seq (map (\<lambda>p. fx_then (fst p) (snd p)) (map (map_prod (classify_expr ctx) (classify_expr ctx)) ps))"
| "classify_expr ctx (XDictComp k v cs) = fx_then (fx_then (fx_seq (map (fx_clause ctx) cs)) (classify_expr ctx k)) (classify_expr ctx v)"
| "classify_expr ctx (XTupleLit es) = fx_seq (map (classify_expr ctx) es)"
| "classify_expr ctx (XTupleIndex e i) = classify_expr ctx e"
| "classify_expr ctx (XEnumCtor en v args) = fx_seq (map (classify_expr ctx) args)"
| "classify_expr ctx (XMatch e arms) = fx_then (classify_expr ctx e) (fx_seq (map (fx_arm ctx) arms))"
| "classify_expr ctx (XBlock b) = snd (fx_block ctx b)"
| "classify_expr ctx (XIf c b e) = fx_then (fx_then (classify_expr ctx c) (snd (fx_block ctx b))) (snd (fx_else ctx e))"
| "fx_arm ctx (MatchArm p e) = classify_expr ctx e"
| "fx_clause ctx (ClFor x e) = classify_expr ctx e"
| "fx_clause ctx (ClIf e) = classify_expr ctx e"

definition classify_block :: "fx_ctx \<Rightarrow> block \<Rightarrow> fx" where
  "classify_block ctx b = fst (fx_block ctx b)"

definition classify_fn :: "fx_ctx \<Rightarrow> fn_def \<Rightarrow> effect_class" where
  "classify_fn ctx f = classify_block ctx (fd_body f) EPure"

subsection \<open>The loop over the functions\<close>

definition hm_of :: "('k \<times> 'v) list \<Rightarrow> ('k, 'v) hashmap" where
  \<comment> \<open>\<^verbatim>\<open>collect\<close>\<close>
  "hm_of ps = foldl (\<lambda>m p. hm_insert (fst p) (snd p) m) [] ps"

primrec classify_pass :: "fx_ctx \<Rightarrow> fn_def list \<Rightarrow> (string, effect_class) hashmap \<Rightarrow> bool \<Rightarrow> ((string, effect_class) hashmap \<times> bool) option" where
  "classify_pass ctx [] effects changed = Some (effects, changed)"
| "classify_pass ctx (f # fs) effects changed =
    (let new_class = classify_fn (ctx\<lparr>fx_locals := effects\<rparr>) f in
     case hm_get effects (fd_name f) of
       None \<Rightarrow> None
     | Some old \<Rightarrow> if new_class \<noteq> old then classify_pass ctx fs (hm_insert (fd_name f) new_class effects) True
       else classify_pass ctx fs effects changed)"

partial_function (option) classify_loop :: "fx_ctx \<Rightarrow> fn_def list \<Rightarrow> (string, effect_class) hashmap \<Rightarrow> (string, effect_class) hashmap option" where
  "classify_loop ctx fs effects = (case classify_pass ctx fs effects False of
     None \<Rightarrow> None
   | Some (effects', changed) \<Rightarrow> if changed then classify_loop ctx fs effects' else Some effects')"

definition module_ctx :: "ast_module \<Rightarrow> (string, effect_class) hashmap \<Rightarrow> string list \<Rightarrow> fx_ctx" where
  "module_ctx m externals extra_iface_names = \<lparr>fx_locals = [], fx_externals = externals,
     fx_imports = map imp_name (am_imports m), fx_states = map sd_name (am_states m),
     fx_state_types = hm_of (map (\<lambda>s. (sd_name s, sd_ty s)) (am_states m)),
     fx_iface_names = map id_name (am_interfaces m) @ extra_iface_names\<rparr>"

definition classify_with_externals_and_iface_names ::
    "ast_module \<Rightarrow> (string, effect_class) hashmap \<Rightarrow> string list \<Rightarrow> (string, effect_class) hashmap option" where
  "classify_with_externals_and_iface_names m externals extra_iface_names =
     classify_loop (module_ctx m externals extra_iface_names) (am_functions m) (hm_of (map (\<lambda>f. (fd_name f, EPure)) (am_functions m)))"

definition classify_with_externals :: "ast_module \<Rightarrow> (string, effect_class) hashmap \<Rightarrow> (string, effect_class) hashmap option" where
  "classify_with_externals m externals = classify_with_externals_and_iface_names m externals []"

definition classify :: "ast_module \<Rightarrow> (string, effect_class) hashmap option" where
  "classify m = classify_with_externals m []"

subsection \<open>Purity annotations\<close>

definition allowed_class :: "fn_def \<Rightarrow> effect_class \<Rightarrow> bool" where
  "allowed_class f actual = (if fd_is_pure f then actual = EPure else actual \<in> {EPure, EReadOnly})"

definition effect_label :: "effect_class \<Rightarrow> string" where
  "effect_label c = (case c of EPure \<Rightarrow> ''pure'' | EReadOnly \<Rightarrow> ''read-only'' | EWriteOnly \<Rightarrow> ''write-only''
     | EReadWrite \<Rightarrow> ''read+write'' | EImpure \<Rightarrow> ''impure (host imports or unknown effects)'')"

primrec verify_fns :: "fn_def list \<Rightarrow> (string, effect_class) hashmap \<Rightarrow> (string \<times> string) + unit" where
  \<comment> \<open>an error names the function and the class of its body\<close>
  "verify_fns [] effects = Inr ()"
| "verify_fns (f # fs) effects =
    (if \<not> (fd_is_view f \<or> fd_is_pure f) then verify_fns fs effects
     else let actual = (case hm_get effects (fd_name f) of Some c \<Rightarrow> c | None \<Rightarrow> EImpure) in
       if \<not> allowed_class f actual then Inl (fd_name f, effect_label actual) else verify_fns fs effects)"

definition verify_purity_annotations :: "ast_module \<Rightarrow> (string, effect_class) hashmap \<Rightarrow> (string \<times> string) + unit" where
  "verify_purity_annotations m effects = verify_fns (am_functions m) effects"

end
