(* ===== verification/EffectsProps.thy ===== *)
theory EffectsProps
  imports Effects
begin

section \<open>Effect classification: the least solution\<close>

text \<open>
  The classes form a join semilattice of height three, and a walk is monotone in the accumulator and in the classes of the
  functions it calls. So the loop only ever escalates, ends, and ends at the least classes that agree with the walks.
\<close>

subsection \<open>The lattice\<close>

definition fx_le :: "effect_class \<Rightarrow> effect_class \<Rightarrow> bool" where
  "fx_le a b \<longleftrightarrow> fx_join a b = b"

lemmas fx_defs = fx_join_def fx_reads_def fx_writes_def fx_impure_def Let_def

lemma fx_join_assoc: "fx_join (fx_join a b) c = fx_join a (fx_join b c)"
  by (cases a; cases b; cases c) (simp_all add: fx_defs)

lemma fx_join_comm: "fx_join a b = fx_join b a"
  by (cases a; cases b) (simp_all add: fx_defs)

lemma fx_join_idem [simp]: "fx_join a a = a"
  by (cases a) (simp_all add: fx_defs)

lemma fx_join_pure [simp]: "fx_join EPure a = a" "fx_join a EPure = a"
  by (cases a; simp add: fx_defs)+

lemma fx_le_refl [simp]: "fx_le a a"
  by (simp add: fx_le_def)

lemma fx_le_trans: "fx_le a b \<Longrightarrow> fx_le b c \<Longrightarrow> fx_le a c"
  unfolding fx_le_def by (metis fx_join_assoc)

lemma fx_le_antisym: "fx_le a b \<Longrightarrow> fx_le b a \<Longrightarrow> a = b"
  unfolding fx_le_def by (metis fx_join_comm)

lemma fx_le_pure [simp]: "fx_le EPure a"
  by (simp add: fx_le_def)

lemma fx_le_join: "fx_le a (fx_join a b)"
  unfolding fx_le_def by (metis fx_join_assoc fx_join_idem)

lemma fx_join_mono: "fx_le a b \<Longrightarrow> fx_le c d \<Longrightarrow> fx_le (fx_join a c) (fx_join b d)"
  unfolding fx_le_def by (metis fx_join_assoc fx_join_comm)

definition fx_rank :: "effect_class \<Rightarrow> nat" where
  "fx_rank c = (case c of EPure \<Rightarrow> 0 | EReadOnly \<Rightarrow> 1 | EWriteOnly \<Rightarrow> 1 | EReadWrite \<Rightarrow> 2 | EImpure \<Rightarrow> 3)"

lemma fx_rank_less: "fx_le a b \<Longrightarrow> a \<noteq> b \<Longrightarrow> fx_rank a < fx_rank b"
  by (cases a; cases b) (simp_all add: fx_le_def fx_defs fx_rank_def)

lemma fx_rank_bound: "fx_rank a \<le> 3"
  by (cases a) (simp_all add: fx_rank_def)

subsection \<open>Monotone walks\<close>

definition mono_fx :: "fx \<Rightarrow> fx \<Rightarrow> bool" where
  \<comment> \<open>\<open>g\<close> dominates \<open>f\<close>, and neither loses what is in the accumulator\<close>
  "mono_fx f g \<longleftrightarrow> (\<forall>a b. fx_le a b \<longrightarrow> fx_le (f a) (g b))"

named_theorems dominated

lemma mono_id [dominated]: "mono_fx fx_skip fx_skip"
  by (simp add: mono_fx_def fx_skip_def)

lemma mono_comp [dominated]: "mono_fx f f' \<Longrightarrow> mono_fx g g' \<Longrightarrow> mono_fx (fx_then f g) (fx_then f' g')"
  by (simp add: mono_fx_def fx_then_def)

lemma mono_add [dominated]: "fx_le c d \<Longrightarrow> mono_fx (fx_add c) (fx_add d)"
  by (simp add: mono_fx_def fx_add_def fx_join_mono)

lemma mono_seq [dominated]: "list_all2 mono_fx fs gs \<Longrightarrow> mono_fx (fx_seq fs) (fx_seq gs)"
  by (induction rule: list_all2_induct) (auto simp: mono_fx_def fx_seq_def)

lemma mono_opt [dominated]: "rel_option mono_fx f g \<Longrightarrow> mono_fx (fx_opt f) (fx_opt g)"
  by (cases f; cases g) (auto simp: fx_opt_def mono_id)

definition ctx_le :: "fx_ctx \<Rightarrow> fx_ctx \<Rightarrow> bool" where
  "ctx_le c d \<longleftrightarrow> fx_externals c = fx_externals d \<and> fx_imports c = fx_imports d \<and> fx_states c = fx_states d
     \<and> fx_state_types c = fx_state_types d \<and> fx_iface_names c = fx_iface_names d
     \<and> (\<forall>x. rel_option fx_le (hm_get (fx_locals c) x) (hm_get (fx_locals d) x))"

lemma local_call_mono: "ctx_le c d \<Longrightarrow> fx_le (local_call_class c x) (local_call_class d x)"
  by (auto simp: ctx_le_def local_call_class_def split: option.split dest: spec [of _ x])

lemma ctx_le_same:
  assumes "ctx_le c d"
  shows "fx_ident c = fx_ident d" "module_call_class c = module_call_class d" "dyn_call_class c = dyn_call_class d"
    "assign_target_is_state c e = assign_target_is_state d e"
proof -
  from assms have "fx_states c = fx_states d" by (simp add: ctx_le_def)
  then show "assign_target_is_state c e = assign_target_is_state d e" by (induction c e rule: assign_target_is_state.induct) simp_all
qed (use assms in \<open>auto simp: ctx_le_def fx_ident_def module_call_class_def dyn_call_class_def fun_eq_iff\<close>)

lemma mono_ident: "mono_fx (fx_ident c n) (fx_ident c n)"
  by (simp add: fx_ident_def dominated)

lemma mono_seq_map: "(\<And>x. x \<in> set xs \<Longrightarrow> mono_fx (f x) (g x)) \<Longrightarrow> mono_fx (fx_seq (map f xs)) (fx_seq (map g xs))"
  by (rule mono_seq) (simp add: list_all2_conv_all_nth)

lemma mono_opt_map: "(\<And>x. x \<in> set_option v \<Longrightarrow> mono_fx (f x) (g x)) \<Longrightarrow> mono_fx (fx_opt (map_option f v)) (fx_opt (map_option g v))"
  by (rule mono_opt) (cases v; simp)

lemma walk_mono:
  assumes "ctx_le c d"
  shows walk_mono_block: "mono_fx (fst (fx_block c b)) (fst (fx_block d b)) \<and> mono_fx (snd (fx_block c b)) (snd (fx_block d b))"
    and "mono_fx (classify_stmt c s) (classify_stmt d s)"
    and "mono_fx (classify_if c i) (classify_if d i)"
    and "mono_fx (fst (fx_else c e)) (fst (fx_else d e)) \<and> mono_fx (snd (fx_else c e)) (snd (fx_else d e))"
    and "mono_fx (classify_expr c x) (classify_expr d x)"
    and "mono_fx (fx_arm c a) (fx_arm d a)"
    and "mono_fx (fx_clause c cl) (fx_clause d cl)"
proof (induction b and s and i and e and x and a and cl rule: ast_induct)
  case (XCall m name args)
  then show ?case using local_call_mono [OF assms] ctx_le_same(2) [OF assms] by (cases m) (auto intro!: dominated mono_seq_map)
next
  case (XIndex t k)
  have "mono_fx (case t of XIdent n \<Rightarrow> fx_ident d n | _ \<Rightarrow> fx_skip) (case t of XIdent n \<Rightarrow> fx_ident d n | _ \<Rightarrow> fx_skip)"
    by (cases t) (simp_all add: mono_ident mono_id)
  then show ?case using XIndex unfolding classify_expr.simps ctx_le_same(1) [OF assms] by (intro mono_comp)
next
  case (XIdent n)
  then show ?case using ctx_le_same(1) [OF assms] by (auto intro!: dominated simp: fx_ident_def)
next
  case (SAssign t v)
  then show ?case using ctx_le_same(4) [OF assms] by (auto intro!: dominated)
qed (auto simp: Let_def ctx_le_same [OF assms] intro!: dominated mono_seq_map mono_opt_map)

subsection \<open>The loop\<close>

definition map_le :: "(string, effect_class) hashmap \<Rightarrow> (string, effect_class) hashmap \<Rightarrow> bool" where
  "map_le e d \<longleftrightarrow> (\<forall>x. rel_option fx_le (hm_get e x) (hm_get d x))"

lemma map_le_refl: "map_le e e"
  by (simp add: map_le_def option.rel_refl)

lemma map_le_trans: "map_le a b \<Longrightarrow> map_le b c \<Longrightarrow> map_le a c"
  unfolding map_le_def
proof
  fix x assume "\<forall>x. rel_option fx_le (hm_get a x) (hm_get b x)" "\<forall>x. rel_option fx_le (hm_get b x) (hm_get c x)"
  then have "rel_option fx_le (hm_get a x) (hm_get b x)" "rel_option fx_le (hm_get b x) (hm_get c x)" by simp_all
  then show "rel_option fx_le (hm_get a x) (hm_get c x)"
    by (cases "hm_get a x"; cases "hm_get b x"; cases "hm_get c x") (auto intro: fx_le_trans)
qed

lemma classify_fn_mono: "map_le e d \<Longrightarrow> fx_le (classify_fn (ctx\<lparr>fx_locals := e\<rparr>) f) (classify_fn (ctx\<lparr>fx_locals := d\<rparr>) f)"
proof -
  assume "map_le e d"
  then have "ctx_le (ctx\<lparr>fx_locals := e\<rparr>) (ctx\<lparr>fx_locals := d\<rparr>)" by (simp add: ctx_le_def map_le_def)
  from walk_mono_block [OF this, of "fd_body f"] show ?thesis by (simp add: mono_fx_def classify_fn_def classify_block_def)
qed

definition pre_solution :: "fx_ctx \<Rightarrow> fn_def list \<Rightarrow> (string, effect_class) hashmap \<Rightarrow> bool" where
  \<comment> \<open>no class is above what the walk finds\<close>
  "pre_solution ctx fs e \<longleftrightarrow> (\<forall>f \<in> set fs. \<exists>c. hm_get e (fd_name f) = Some c \<and> fx_le c (classify_fn (ctx\<lparr>fx_locals := e\<rparr>) f))"

definition solution :: "fx_ctx \<Rightarrow> fn_def list \<Rightarrow> (string, effect_class) hashmap \<Rightarrow> bool" where
  "solution ctx fs e \<longleftrightarrow> (\<forall>f \<in> set fs. hm_get e (fd_name f) = Some (classify_fn (ctx\<lparr>fx_locals := e\<rparr>) f))"

definition weight :: "fn_def list \<Rightarrow> (string, effect_class) hashmap \<Rightarrow> nat" where
  "weight fs e = (\<Sum>f\<leftarrow>fs. 3 - fx_rank (the (hm_get e (fd_name f))))"

lemma raise_one:
  assumes e: "pre_solution ctx fs e" and d: "distinct (map fd_name fs)" and f: "f \<in> set fs"
    and old: "hm_get e (fd_name f) = Some old" and new: "new = classify_fn (ctx\<lparr>fx_locals := e\<rparr>) f" "new \<noteq> old"
  shows "pre_solution ctx fs (hm_insert (fd_name f) new e)" "map_le e (hm_insert (fd_name f) new e)"
    "weight fs (hm_insert (fd_name f) new e) < weight fs e"
proof -
  let ?e = "hm_insert (fd_name f) new e"
  have le: "fx_le old new" using e f old new by (auto simp: pre_solution_def)
  then show up: "map_le e ?e" using old by (auto simp: map_le_def option.rel_refl)
  have same: "g = f" if "g \<in> set fs" "fd_name g = fd_name f" for g
    using d f that by (metis distinct_map inj_onD)
  show "pre_solution ctx fs ?e" unfolding pre_solution_def
  proof
    fix g assume g: "g \<in> set fs"
    have m: "fx_le (classify_fn (ctx\<lparr>fx_locals := e\<rparr>) g) (classify_fn (ctx\<lparr>fx_locals := ?e\<rparr>) g)" using classify_fn_mono [OF up] .
    show "\<exists>c. hm_get ?e (fd_name g) = Some c \<and> fx_le c (classify_fn (ctx\<lparr>fx_locals := ?e\<rparr>) g)"
    proof (cases "g = f")
      case True
      then show ?thesis using m new(1) by simp
    next
      case False
      then have "hm_get ?e (fd_name g) = hm_get e (fd_name g)" using same g by auto
      then show ?thesis using e g m by (auto simp: pre_solution_def intro: fx_le_trans)
    qed
  qed
  have "3 - fx_rank new < 3 - fx_rank old" using fx_rank_less [OF le] new(2) fx_rank_bound [of new] by simp
  then show "weight fs ?e < weight fs e"
    unfolding weight_def using f old d
  proof (induction fs)
    case (Cons g gs)
    show ?case
    proof (cases "g = f")
      case True
      moreover have "(\<Sum>h\<leftarrow>gs. 3 - fx_rank (the (hm_get ?e (fd_name h)))) = (\<Sum>h\<leftarrow>gs. 3 - fx_rank (the (hm_get e (fd_name h))))"
        using Cons.prems True by (intro arg_cong [of _ _ sum_list] map_cong) (auto simp: image_iff)
      ultimately show ?thesis using Cons.prems by simp
    next
      case False
      then have "fd_name g \<noteq> fd_name f" using Cons.prems by auto
      then show ?thesis using Cons False by simp
    qed
  qed simp
qed

lemma raise_below:
  assumes "map_le e p" and "solution ctx fs p" and "f \<in> set fs"
  shows "map_le (hm_insert (fd_name f) (classify_fn (ctx\<lparr>fx_locals := e\<rparr>) f) e) p"
  using assms classify_fn_mono [OF assms(1), of ctx f] by (auto simp: map_le_def solution_def)

definition pass_result :: "fx_ctx \<Rightarrow> fn_def list \<Rightarrow> fn_def list \<Rightarrow> (string, effect_class) hashmap \<Rightarrow> bool
    \<Rightarrow> (string, effect_class) hashmap \<Rightarrow> bool \<Rightarrow> bool" where
  "pass_result ctx all fs e ch e' ch' \<longleftrightarrow> pre_solution ctx all e'
     \<and> (e' = e \<and> ch' = ch \<and> solution ctx fs e \<or> ch' \<and> weight all e' < weight all e)
     \<and> (\<forall>p. solution ctx all p \<and> map_le e p \<longrightarrow> map_le e' p)"

lemma pass_works:
  "pre_solution ctx all e \<Longrightarrow> distinct (map fd_name all) \<Longrightarrow> set fs \<subseteq> set all \<Longrightarrow>
   \<exists>e' ch'. classify_pass ctx fs e ch = Some (e', ch') \<and> pass_result ctx all fs e ch e' ch'"
proof (induction fs arbitrary: e ch)
  case Nil
  then show ?case by (simp add: pass_result_def solution_def)
next
  case (Cons f fs)
  let ?new = "classify_fn (ctx\<lparr>fx_locals := e\<rparr>) f"
  have f: "f \<in> set all" and sub: "set fs \<subseteq> set all" using Cons.prems(3) by auto
  then obtain old where old: "hm_get e (fd_name f) = Some old" using Cons.prems(1) by (auto simp: pre_solution_def)
  show ?case
  proof (cases "?new = old")
    case True
    from Cons.IH [OF Cons.prems(1,2) sub, of ch] True old show ?thesis
      by (fastforce simp: Let_def pass_result_def solution_def)
  next
    case False
    let ?e = "hm_insert (fd_name f) ?new e"
    note up = raise_one [OF Cons.prems(1,2) f old refl False]
    from Cons.IH [OF up(1) Cons.prems(2) sub, of True] obtain e' ch'
      where r: "classify_pass ctx fs ?e True = Some (e', ch')" and p: "pass_result ctx all fs ?e True e' ch'" by blast
    have "ch' \<and> weight all e' < weight all e" using p up(3) by (auto simp: pass_result_def)
    moreover have "map_le e' q" if "solution ctx all q" "map_le e q" for q
      using p raise_below [OF that(2,1) f] that(1) by (auto simp: pass_result_def)
    ultimately show ?thesis using r old False p by (auto simp: Let_def pass_result_def)
  qed
qed

lemma loop_works:
  "pre_solution ctx fs e \<Longrightarrow> distinct (map fd_name fs) \<Longrightarrow>
   \<exists>e'. classify_loop ctx fs e = Some e' \<and> solution ctx fs e' \<and> (\<forall>p. solution ctx fs p \<and> map_le e p \<longrightarrow> map_le e' p)"
proof (induction "weight fs e" arbitrary: e rule: less_induct)
  case less
  obtain e' ch where r: "classify_pass ctx fs e False = Some (e', ch)" and p: "pass_result ctx fs fs e False e' ch"
    using pass_works [OF less.prems subset_refl] by blast
  show ?case
  proof (cases ch)
    case True
    then have "weight fs e' < weight fs e" and "pre_solution ctx fs e'" using p by (auto simp: pass_result_def)
    from less.hyps [OF this less.prems(2)] obtain d where "classify_loop ctx fs e' = Some d" "solution ctx fs d"
      "\<forall>q. solution ctx fs q \<and> map_le e' q \<longrightarrow> map_le d q" by blast
    then show ?thesis using True r p by (subst classify_loop.simps) (auto simp: pass_result_def)
  next
    case False
    then show ?thesis using r p by (subst classify_loop.simps) (auto simp: pass_result_def)
  qed
qed

lemma start_get:
  "hm_get (hm_of (map (\<lambda>f. (fd_name f, EPure)) fs)) x = (if x \<in> fd_name ` set fs then Some EPure else None)"
proof -
  have "hm_get (foldl (\<lambda>m p. hm_insert (fst p) (snd p) m) m (map (\<lambda>f. (fd_name f, EPure)) fs)) x
    = (if x \<in> fd_name ` set fs then Some EPure else hm_get m x)" for m :: "(string, effect_class) hashmap"
    by (induction fs arbitrary: m) auto
  then show ?thesis by (simp add: hm_of_def)
qed

text \<open>C9 (termination): The effect analysis of a module whose functions have distinct names ends, and its result is the least one that
  agrees with the walks: every function has exactly the class the walk of its body finds under the result, and no other
  assignment of classes to the functions with this property is below it anywhere.\<close>
theorem classify_least:
  assumes "distinct (map fd_name (am_functions m))"
  shows "\<exists>e. classify_with_externals_and_iface_names m externals ifaces = Some e
    \<and> solution (module_ctx m externals ifaces) (am_functions m) e
    \<and> (\<forall>p. solution (module_ctx m externals ifaces) (am_functions m) p
         \<and> (\<forall>x. hm_get p x \<noteq> None \<longleftrightarrow> x \<in> fd_name ` set (am_functions m)) \<longrightarrow> map_le e p)"
proof -
  let ?ctx = "module_ctx m externals ifaces" and ?fs = "am_functions m"
  let ?start = "hm_of (map (\<lambda>f. (fd_name f, EPure)) ?fs)"
  have "pre_solution ?ctx ?fs ?start" by (simp add: pre_solution_def start_get)
  moreover have "map_le ?start p" if "\<forall>x. hm_get p x \<noteq> None \<longleftrightarrow> x \<in> fd_name ` set ?fs" for p
    unfolding map_le_def
  proof
    fix x
    show "rel_option fx_le (hm_get ?start x) (hm_get p x)"
      using that [rule_format, of x] by (cases "hm_get p x") (auto simp: start_get)
  qed
  ultimately show ?thesis
    using loop_works [OF _ assms, of ?ctx ?start] by (simp add: classify_with_externals_and_iface_names_def) blast
qed

subsection \<open>What the walk leaves out\<close>

definition fn_of :: "string \<Rightarrow> block \<Rightarrow> bool \<Rightarrow> fn_def" where
  "fn_of name b p = \<lparr>fd_name = name, fd_params = [], fd_return_type = TUnit, fd_body = b, fd_is_nore = False,
     fd_is_entry = False, fd_is_view = False, fd_is_pure = p, fd_modifiers = []\<rparr>"

definition module_of :: "state_decl list \<Rightarrow> fn_def list \<Rightarrow> ast_module" where
  "module_of ss fs = \<lparr>am_name = None, am_imports = [], am_states = ss, am_functions = fs, am_structs = [], am_handlers = [],
     am_modifiers = [], am_enums = [], am_consts = [], am_caps = [], am_interfaces = [], am_indexes = []\<rparr>"

definition tail_module :: ast_module where
  \<comment> \<open>\<^verbatim>\<open>state x: int; fn store() { x = 1; } pure fn quiet() { store() }\<close>\<close>
  "tail_module = module_of [\<lparr>sd_name = ''x'', sd_ty = TInt\<rparr>]
     [fn_of ''store'' (Block [SAssign (XIdent ''x'') (XInt 1)] None) False,
      fn_of ''quiet'' (Block [] (Some (XCall None ''store'' []))) True]"

definition tail_ctx :: fx_ctx where
  "tail_ctx = module_ctx tail_module [] []"

lemma tail_pass:
  "classify_pass tail_ctx (am_functions tail_module) [(''store'', EPure), (''quiet'', EPure)] False
     = Some ([(''store'', EWriteOnly), (''quiet'', EPure)], True)"
  "classify_pass tail_ctx (am_functions tail_module) [(''store'', EWriteOnly), (''quiet'', EPure)] False
     = Some ([(''store'', EWriteOnly), (''quiet'', EPure)], False)"
  by (simp_all add: tail_ctx_def tail_module_def module_of_def fn_of_def classify_fn_def classify_block_def module_ctx_def
    hm_of_def hm_insert_def hm_get_def fx_seq_def fx_add_def fx_skip_def fx_then_def fx_defs Let_def)

lemma tail_start:
  "hm_of (map (\<lambda>f. (fd_name f, EPure)) (am_functions tail_module)) = [(''store'', EPure), (''quiet'', EPure)]"
  by (simp add: tail_module_def module_of_def fn_of_def hm_of_def hm_insert_def)

lemma tail_classes: "classify tail_module = Some [(''store'', EWriteOnly), (''quiet'', EPure)]"
  unfolding classify_def classify_with_externals_def classify_with_externals_and_iface_names_def tail_start
    tail_ctx_def [symmetric]
  by (subst classify_loop.simps, simp add: tail_pass, subst classify_loop.simps, simp add: tail_pass)

lemma block_ignores_tail: "classify_block ctx (Block ss t) = classify_block ctx (Block ss None)"
  by (simp add: classify_block_def Let_def)

text \<open>C38 (safety): The walk of a function never looks at the tail expression of its body, so two functions that differ only in the
  tail have the same class. A module with \<^verbatim>\<open>fn store() { x = 1; }\<close> and \<^verbatim>\<open>pure fn quiet() { store() }\<close> passes
  the check of the purity annotations: the call in the tail writes the state and the annotated function is still classed
  pure, while with the call as a statement (\<^verbatim>\<open>store();\<close>) it takes the class of \<^verbatim>\<open>store\<close>.\<close>
theorem purity_ignores_tail:
  "(\<forall>ctx f ss t. classify_fn ctx (f\<lparr>fd_body := Block ss t\<rparr>) = classify_fn ctx (f\<lparr>fd_body := Block ss None\<rparr>))
   \<and> (\<exists>e. classify tail_module = Some e \<and> hm_get e ''store'' = Some EWriteOnly \<and> hm_get e ''quiet'' = Some EPure
        \<and> verify_purity_annotations tail_module e = Inr ()
        \<and> classify_fn (tail_ctx\<lparr>fx_locals := e\<rparr>) (fn_of ''quiet'' (Block [SExpr (XCall None ''store'' [])] None) True) = EWriteOnly)"
proof (intro conjI allI exI)
  show "classify_fn ctx (f\<lparr>fd_body := Block ss t\<rparr>) = classify_fn ctx (f\<lparr>fd_body := Block ss None\<rparr>)" for ctx f ss t
    using block_ignores_tail [of ctx ss t] by (simp add: classify_fn_def)
  let ?e = "[(''store'', EWriteOnly), (''quiet'', EPure)]"
  show "classify tail_module = Some ?e" by (rule tail_classes)
  show "hm_get ?e ''store'' = Some EWriteOnly" "hm_get ?e ''quiet'' = Some EPure" by (simp_all add: hm_get_def)
  show "verify_purity_annotations tail_module ?e = Inr ()"
    by (simp add: verify_purity_annotations_def tail_module_def module_of_def fn_of_def hm_get_def allowed_class_def)
  show "classify_fn (tail_ctx\<lparr>fx_locals := ?e\<rparr>) (fn_of ''quiet'' (Block [SExpr (XCall None ''store'' [])] None) True) = EWriteOnly"
    by (simp add: fn_of_def classify_fn_def classify_block_def tail_ctx_def module_ctx_def tail_module_def module_of_def
      local_call_class_def is_pure_builtin_def hm_get_def fx_seq_def fx_add_def fx_skip_def fx_then_def fx_defs Let_def)
qed

text \<open>The module above has functions with distinct names, and its analysis ends in a solution.\<close>
theorem classify_least_witness:
  "\<exists>e. classify_with_externals_and_iface_names tail_module [] [] = Some e
     \<and> solution (module_ctx tail_module [] []) (am_functions tail_module) e"
proof -
  have "distinct (map fd_name (am_functions tail_module))" by (simp add: tail_module_def module_of_def fn_of_def)
  from classify_least [OF this, of "[]" "[]"] show ?thesis by blast
qed

end
