(* ===== verification/Affine.thy ===== *)
theory Affine
  imports Ast
begin

section \<open>Ownership analysis\<close>

text \<open>
  \<^verbatim>\<open>crates/rend/src/affine.rs\<close>: a walk over every function of a module that follows which bindings of a type that is not
  \<^verbatim>\<open>Copy\<close> have been moved, and rejects the use of a moved one. The environment is the stack of scopes of the walk, here
  with the innermost scope first. A walk is a function of the environment (\<open>aff\<close>) that returns an error or a result with
  the new environment; the three tables that every function of the source passes on are the record \<open>aff_ctx\<close>. Where a move
  happened is only used in the text of a message, so a binding has a flag in its place. The source treats a block with
  and without its trailing expression, a conditional as a statement and as an expression, and an expression as a value, as
  the target of a field access (\<^verbatim>\<open>field_peek\<close>) and as the target of an assignment; the primitive recursion gives these
  readings together, as tuples, and \<open>check_block\<close>, \<open>check_expr\<close>, \<open>field_peek\<close> and \<open>target_key\<close> are their components.
\<close>

datatype affine_error = UsedAfterMove string | UndefinedVariable string | UnknownFunction string
  | NoScope   \<comment> \<open>the panic of \<^verbatim>\<open>env.last_mut().unwrap()\<close>\<close>

record binding =
  b_ty :: ty
  b_moved :: bool

type_synonym env = "(string, binding) hashmap list"
type_synonym 'a aff = "env \<Rightarrow> affine_error + 'a \<times> env"

record aff_ctx =
  ac_sigs :: "(string, ty) hashmap"
  ac_states :: "(string, ty) hashmap"
  ac_caps :: "(string, (string \<times> ty) list) hashmap"

subsection \<open>Steps of a walk\<close>

definition aff_ret :: "'a \<Rightarrow> 'a aff" where
  "aff_ret v env = Inr (v, env)"

definition aff_bind :: "'a aff \<Rightarrow> ('a \<Rightarrow> 'b aff) \<Rightarrow> 'b aff" where
  "aff_bind m f env = (case m env of Inl e \<Rightarrow> Inl e | Inr (v, env') \<Rightarrow> f v env')"

definition aff_do :: "'a aff \<Rightarrow> 'b aff \<Rightarrow> 'b aff" where
  "aff_do m k = aff_bind m (\<lambda>_. k)"

primrec aff_seq :: "'a aff list \<Rightarrow> unit aff" where
  "aff_seq [] = aff_ret ()"
| "aff_seq (m # ms) = aff_do m (aff_seq ms)"

definition aff_opt :: "'a aff option \<Rightarrow> unit aff" where
  "aff_opt m = (case m of None \<Rightarrow> aff_ret () | Some k \<Rightarrow> aff_do k (aff_ret ()))"

definition aff_push :: "unit aff" where
  "aff_push env = Inr ((), [] # env)"

definition aff_pop :: "unit aff" where
  "aff_pop env = Inr ((), tl env)"

definition aff_let :: "string \<Rightarrow> ty \<Rightarrow> unit aff" where
  "aff_let name t env = (case env of [] \<Rightarrow> Inl NoScope
     | s # ss \<Rightarrow> Inr ((), hm_insert name \<lparr>b_ty = t, b_moved = False\<rparr> s # ss))"

definition aff_in_scope :: "(string \<times> ty) list \<Rightarrow> 'a aff \<Rightarrow> unit aff" where
  \<comment> \<open>a new scope with bindings, left at the end\<close>
  "aff_in_scope bs m = aff_do aff_push (aff_do (aff_seq (map (\<lambda>b. aff_let (fst b) (snd b)) bs)) (aff_do m aff_pop))"

definition aff_snapshot :: "'a aff \<Rightarrow> unit aff" where
  \<comment> \<open>the body of a loop: what it does to the environment is dropped\<close>
  "aff_snapshot m env = (case m env of Inl e \<Rightarrow> Inl e | Inr _ \<Rightarrow> Inr ((), env))"

definition merge_scope :: "(string, binding) hashmap \<Rightarrow> (string, binding) hashmap \<Rightarrow> (string, binding) hashmap" where
  "merge_scope sa sb = map (\<lambda>(k, va). let vb = (case hm_get sb k of Some v \<Rightarrow> v | None \<Rightarrow> va) in
     (k, \<lparr>b_ty = b_ty va, b_moved = b_moved va \<or> b_moved vb\<rparr>)) sa"

definition merge :: "env \<Rightarrow> env \<Rightarrow> env" where
  "merge a b = rev (map2 merge_scope (rev a) (rev b))"

definition aff_branch :: "unit aff \<Rightarrow> unit aff option \<Rightarrow> unit aff" where
  \<comment> \<open>\<^verbatim>\<open>check_if\<close> after the condition\<close>
  "aff_branch thn els env = (case thn env of Inl e \<Rightarrow> Inl e | Inr (_, after_then) \<Rightarrow>
     (case els of None \<Rightarrow> Inr ((), merge env after_then)
      | Some k \<Rightarrow> (case k env of Inl e \<Rightarrow> Inl e | Inr (_, after_else) \<Rightarrow> Inr ((), merge after_then after_else))))"

primrec use_in :: "string \<Rightarrow> env \<Rightarrow> (affine_error + ty \<times> env) option" where
  "use_in name [] = None"
| "use_in name (s # ss) = (case hm_get s name of
     Some b \<Rightarrow> Some (if b_moved b then Inl (UsedAfterMove name)
       else Inr (b_ty b, (if is_copy (b_ty b) then s else hm_insert name (b\<lparr>b_moved := True\<rparr>) s) # ss))
   | None \<Rightarrow> map_option (\<lambda>r. case r of Inl e \<Rightarrow> Inl e | Inr (t, ss') \<Rightarrow> Inr (t, s # ss')) (use_in name ss))"

definition use_ident :: "aff_ctx \<Rightarrow> string \<Rightarrow> ty aff" where
  "use_ident ctx name env = (case use_in name env of
     Some r \<Rightarrow> r
   | None \<Rightarrow> (case hm_get (ac_states ctx) name of Some t \<Rightarrow> Inr (t, env) | None \<Rightarrow> Inl (UndefinedVariable name)))"

primrec peek_in :: "string \<Rightarrow> env \<Rightarrow> affine_error + unit" where
  "peek_in name [] = Inr ()"
| "peek_in name (s # ss) = (case hm_get s name of
     Some b \<Rightarrow> if b_moved b then Inl (UsedAfterMove name) else Inr ()
   | None \<Rightarrow> peek_in name ss)"

definition peek_ident :: "string \<Rightarrow> unit aff" where
  \<comment> \<open>this walk of the scopes starts at the outermost one\<close>
  "peek_ident name env = (case peek_in name (rev env) of Inl e \<Rightarrow> Inl e | Inr _ \<Rightarrow> Inr ((), env))"

definition call_type :: "aff_ctx \<Rightarrow> string option \<Rightarrow> string \<Rightarrow> ty aff" where
  "call_type ctx m name env = (if m \<noteq> None then Inr (TInt, env)
     else (case hm_get (ac_sigs ctx) name of Some t \<Rightarrow> Inr (t, env) | None \<Rightarrow> Inl (UnknownFunction name)))"

definition index_type :: "aff_ctx \<Rightarrow> expr \<Rightarrow> ty" where
  "index_type ctx target = (case target of
     XIdent name \<Rightarrow> (case hm_get (ac_states ctx) name of Some (TMap _ v) \<Rightarrow> v | _ \<Rightarrow> TInt)
   | _ \<Rightarrow> TInt)"

definition lit_type :: "aff_ctx \<Rightarrow> string \<Rightarrow> ty" where
  "lit_type ctx name = (case hm_get (ac_caps ctx) name of Some fs \<Rightarrow> TCap name fs '''' | None \<Rightarrow> TInt)"

primrec pattern_names :: "match_pattern \<Rightarrow> string list" where
  "pattern_names PWildcard = []"
| "pattern_names (PEnumVariant en v bs) = bs"

primrec check_comp_clauses :: "nat aff list \<Rightarrow> nat aff" where
  \<comment> \<open>the number of scopes pushed\<close>
  "check_comp_clauses [] = aff_ret 0"
| "check_comp_clauses (c # cs) = aff_bind c (\<lambda>n. aff_bind (check_comp_clauses cs) (\<lambda>k. aff_ret (n + k)))"

primrec aff_pops :: "nat \<Rightarrow> unit aff" where
  "aff_pops 0 = aff_ret ()"
| "aff_pops (Suc n) = aff_do aff_pop (aff_pops n)"

definition aff_comp :: "nat aff list \<Rightarrow> 'a aff \<Rightarrow> ty aff" where
  "aff_comp cs m = aff_bind (check_comp_clauses cs) (\<lambda>pushed. aff_do m (aff_do (aff_pops pushed) (aff_ret TInt)))"

definition aff_int :: "'a aff \<Rightarrow> ty aff" where
  "aff_int m = aff_do m (aff_ret TInt)"

subsection \<open>The walk\<close>

type_synonym aff_expr = "ty aff \<times> unit aff \<times> unit aff"   \<comment> \<open>value, field target, key of an assignment target\<close>

abbreviation value_of :: "aff_expr \<Rightarrow> ty aff" where "value_of \<equiv> fst"
abbreviation peek_of :: "aff_expr \<Rightarrow> unit aff" where "peek_of r \<equiv> fst (snd r)"
abbreviation key_of :: "aff_expr \<Rightarrow> unit aff" where "key_of r \<equiv> snd (snd r)"

definition plain :: "ty aff \<Rightarrow> aff_expr" where
  "plain m = (m, aff_do m (aff_ret ()), aff_ret ())"

primrec ck_block :: "aff_ctx \<Rightarrow> block \<Rightarrow> unit aff \<times> unit aff"
and check_stmt :: "aff_ctx \<Rightarrow> stmt \<Rightarrow> unit aff"
and ck_if :: "aff_ctx \<Rightarrow> if_stmt \<Rightarrow> unit aff \<times> unit aff"
and ck_else :: "aff_ctx \<Rightarrow> else_branch \<Rightarrow> unit aff option \<times> unit aff"
and ck_expr :: "aff_ctx \<Rightarrow> expr \<Rightarrow> aff_expr"
and ck_arm :: "aff_ctx \<Rightarrow> match_arm \<Rightarrow> unit aff"
and ck_clause :: "aff_ctx \<Rightarrow> comp_clause \<Rightarrow> nat aff" where
  \<comment> \<open>the statements alone, and with the trailing expression\<close>
  "ck_block ctx (Block ss t) = (let body = aff_seq (map (check_stmt ctx) ss) in
     (aff_in_scope [] body, aff_in_scope [] (aff_do body (aff_opt (map_option value_of (map_option (ck_expr ctx) t))))))"
| "check_stmt ctx (SLet name t v) = aff_bind (value_of (ck_expr ctx v)) (\<lambda>v_ty. aff_let name (case t of Some t' \<Rightarrow> t' | None \<Rightarrow> v_ty))"
| "check_stmt ctx (SAssign target v) = aff_do (key_of (ck_expr ctx target)) (aff_do (value_of (ck_expr ctx v)) (aff_ret ()))"
| "check_stmt ctx (SReturn v) = aff_opt (map_option value_of (map_option (ck_expr ctx) v))"
| "check_stmt ctx (SIf i) = fst (ck_if ctx i)"
| "check_stmt ctx (SWhile c b) = aff_do (value_of (ck_expr ctx c)) (aff_snapshot (fst (ck_block ctx b)))"
| "check_stmt ctx (SFor x iter lim b) = aff_do (value_of (ck_expr ctx iter)) (aff_snapshot (aff_in_scope [(x, TInt)] (fst (ck_block ctx b))))"
| "check_stmt ctx (SForRange x a e incl b) = aff_do (value_of (ck_expr ctx a)) (aff_do (value_of (ck_expr ctx e))
     (aff_snapshot (aff_in_scope [(x, TInt)] (fst (ck_block ctx b)))))"
| "check_stmt ctx SBreak = aff_ret ()"
| "check_stmt ctx SContinue = aff_ret ()"
| "check_stmt ctx (SExpr e) = aff_do (value_of (ck_expr ctx e)) (aff_ret ())"
| "check_stmt ctx (SParallel ss) = aff_seq (map (check_stmt ctx) ss)"
| "check_stmt ctx (SParallelForTo x ix source out b) = aff_do (value_of (ck_expr ctx source)) (aff_do (value_of (ck_expr ctx out))
     (aff_snapshot (aff_in_scope [(x, TU64)] (fst (ck_block ctx b)))))"
| "check_stmt ctx (SEmit v) = aff_do (value_of (ck_expr ctx v)) (aff_ret ())"
| "check_stmt ctx (SDelete target) = aff_do (value_of (ck_expr ctx target)) (aff_ret ())"
| "check_stmt ctx (SLetTuple ns v) = aff_do (value_of (ck_expr ctx v)) (aff_seq (map (\<lambda>n. aff_let n TInt) ns))"
| "check_stmt ctx SPlaceholder = aff_ret ()"
| "ck_if ctx (IfStmt c b e) = (let cond = value_of (ck_expr ctx c) in
     (aff_do cond (aff_branch (fst (ck_block ctx b)) (fst (ck_else ctx e))),
      aff_do cond (aff_do (snd (ck_block ctx b)) (snd (ck_else ctx e)))))"
| "ck_else ctx ElseNone = (None, aff_ret ())"
| "ck_else ctx (ElseBlock b) = (Some (fst (ck_block ctx b)), snd (ck_block ctx b))"
| "ck_else ctx (ElseIf i) = (Some (fst (ck_if ctx i)), snd (ck_if ctx i))"
| "ck_expr ctx (XInt n) = plain (aff_ret TInt)"
| "ck_expr ctx (XUInt n) = plain (aff_ret TUInt)"
| "ck_expr ctx (XFloat n) = plain (aff_ret TFloat)"
| "ck_expr ctx (XI32 n) = plain (aff_ret TI32)"
| "ck_expr ctx (XU32 n) = plain (aff_ret TU32)"
| "ck_expr ctx (XU64 n) = plain (aff_ret TU64)"
| "ck_expr ctx (XU128 n) = plain (aff_ret TU128)"
| "ck_expr ctx (XJsonObject ps) = plain (aff_ret TJson)"
| "ck_expr ctx (XJsonArray es) = plain (aff_ret TJson)"
| "ck_expr ctx XJsonNull = plain (aff_ret TJson)"
| "ck_expr ctx (XBool b) = plain (aff_ret TBool)"
| "ck_expr ctx (XStr s) = plain (aff_ret TString)"
| "ck_expr ctx (XIdent name) = (use_ident ctx name, peek_ident name, aff_ret ())"
| "ck_expr ctx (XBinary bop a b) = plain (aff_do (value_of (ck_expr ctx a)) (aff_int (value_of (ck_expr ctx b))))"
| "ck_expr ctx (XUnary uop a) = plain (aff_int (value_of (ck_expr ctx a)))"
| "ck_expr ctx (XCall m name args) = plain (aff_do (aff_seq (map value_of (map (ck_expr ctx) args))) (call_type ctx m name))"
| "ck_expr ctx (XDynCall t method args v p) = plain (aff_int (aff_seq (map value_of (map (ck_expr ctx) args))))"
| "ck_expr ctx (XIndex target key) =
     (let m = aff_do (value_of (ck_expr ctx key)) (aff_do (value_of (ck_expr ctx target)) (aff_ret (index_type ctx target))) in
      (m, aff_do m (aff_ret ()), aff_do (value_of (ck_expr ctx key)) (aff_ret ())))"
| "ck_expr ctx (XArray es) = plain (aff_int (aff_seq (map value_of (map (ck_expr ctx) es))))"
| "ck_expr ctx (XExplicitLiteral e) = plain (value_of (ck_expr ctx e))"
| "ck_expr ctx (XArrayAlloc t e) = plain (aff_int (value_of (ck_expr ctx e)))"
| "ck_expr ctx (XReserve e st) = plain (aff_int (value_of (ck_expr ctx e)))"
| "ck_expr ctx (XStructLit n fs) =
     plain (aff_do (aff_seq (map value_of (map snd (map (map_prod id (ck_expr ctx)) fs)))) (aff_ret (lit_type ctx n)))"
| "ck_expr ctx (XField e n) = (aff_int (peek_of (ck_expr ctx e)), peek_of (ck_expr ctx e), aff_ret ())"
| "ck_expr ctx (XPipe a b) = plain (aff_do (value_of (ck_expr ctx a)) (aff_int (value_of (ck_expr ctx b))))"
| "ck_expr ctx XPrev = plain (aff_ret TInt)"
| "ck_expr ctx (XListComp e cs) = plain (aff_comp (map (ck_clause ctx) cs) (value_of (ck_expr ctx e)))"
| "ck_expr ctx (XSetLit es) = plain (aff_int (aff_seq (map value_of (map (ck_expr ctx) es))))"
| "ck_expr ctx (XSetComp e cs) = plain (aff_comp (map (ck_clause ctx) cs) (value_of (ck_expr ctx e)))"
| "ck_expr ctx (XDictLit ps) = plain (aff_int (aff_seq (map (\<lambda>p. aff_do (value_of (fst p)) (value_of (snd p)))
     (map (map_prod (ck_expr ctx) (ck_expr ctx)) ps))))"
| "ck_expr ctx (XDictComp k v cs) = plain (aff_comp (map (ck_clause ctx) cs) (aff_do (value_of (ck_expr ctx k)) (value_of (ck_expr ctx v))))"
| "ck_expr ctx (XTupleLit es) = plain (aff_int (aff_seq (map value_of (map (ck_expr ctx) es))))"
| "ck_expr ctx (XTupleIndex e i) = plain (aff_int (value_of (ck_expr ctx e)))"
| "ck_expr ctx (XEnumCtor en v args) = plain (aff_int (aff_seq (map value_of (map (ck_expr ctx) args))))"
| "ck_expr ctx (XMatch e arms) = plain (aff_do (value_of (ck_expr ctx e)) (aff_int (aff_seq (map (ck_arm ctx) arms))))"
| "ck_expr ctx (XBlock b) = plain (aff_int (snd (ck_block ctx b)))"
| "ck_expr ctx (XIf c b e) = plain (aff_do (value_of (ck_expr ctx c)) (aff_do (snd (ck_block ctx b)) (aff_int (snd (ck_else ctx e)))))"
| "ck_arm ctx (MatchArm p e) = aff_in_scope (map (\<lambda>n. (n, TInt)) (pattern_names p)) (value_of (ck_expr ctx e))"
| "ck_clause ctx (ClFor x e) = aff_do (value_of (ck_expr ctx e)) (aff_do aff_push (aff_do (aff_let x TInt) (aff_ret 1)))"
| "ck_clause ctx (ClIf e) = aff_do (value_of (ck_expr ctx e)) (aff_ret 0)"

definition check_block :: "aff_ctx \<Rightarrow> block \<Rightarrow> unit aff" where
  "check_block ctx b = fst (ck_block ctx b)"

definition check_if :: "aff_ctx \<Rightarrow> if_stmt \<Rightarrow> unit aff" where
  "check_if ctx i = fst (ck_if ctx i)"

definition check_expr :: "aff_ctx \<Rightarrow> expr \<Rightarrow> ty aff" where
  "check_expr ctx e = value_of (ck_expr ctx e)"

definition field_peek :: "aff_ctx \<Rightarrow> expr \<Rightarrow> unit aff" where
  "field_peek ctx e = peek_of (ck_expr ctx e)"

definition target_key :: "aff_ctx \<Rightarrow> expr \<Rightarrow> unit aff" where
  \<comment> \<open>the key of an indexed assignment target\<close>
  "target_key ctx e = key_of (ck_expr ctx e)"

subsection \<open>Functions and modules\<close>

definition check_fn :: "aff_ctx \<Rightarrow> fn_def \<Rightarrow> affine_error + unit" where
  "check_fn ctx f = (case check_block ctx (fd_body f)
     [hm_extend [] (map (\<lambda>p. (pa_name p, \<lparr>b_ty = pa_ty p, b_moved = False\<rparr>)) (fd_params f))] of
     Inl e \<Rightarrow> Inl e | Inr _ \<Rightarrow> Inr ())"

definition builtin_sigs :: "(string \<times> ty) list" where
  "builtin_sigs = [(''resource'', TResource), (''unwrap'', TInt), (''address'', TAddress), (''len'', TInt), (''assert'', TUnit),
    (''msg_sender'', TAddress), (''block_timestamp'', TU64), (''block_number'', TU64),
    (''to_bytes'', TBytes), (''bytes_len'', TInt), (''bytes_concat'', TBytes), (''bytes_eq'', TBool), (''bytes_slice'', TBytes),
    (''to_be_bytes'', TBytes), (''bit_not_bytes'', TBytes), (''string_concat'', TString),
    (''pmap_contains'', TBool), (''pvec_push'', TU64), (''pvec_len'', TU64),
    (''pmap_entries'', TInt), (''pmap_keys'', TInt), (''pmap_values'', TInt), (''pvec_to_array'', TInt),
    (''sum'', TInt), (''max'', TInt), (''min'', TInt), (''pbtree_contains'', TBool), (''pbtree_range'', TInt),
    (''parse_json'', TJson), (''json_stringify'', TString), (''json_get_field'', TJson), (''json_get_index'', TJson),
    (''json_to_string'', TString), (''json_to_i64'', TInt), (''json_to_u64'', TU64), (''json_to_bool'', TBool), (''json_is_null'', TBool),
    (''string_slice'', TString), (''string_contains'', TBool),
    (''i64'', TInt), (''i32'', TI32), (''u32'', TU32), (''u64'', TU64), (''u128'', TU128),
    (''set_insert'', TInt), (''set_remove'', TInt), (''set_contains'', TBool), (''set_len'', TInt),
    (''dict_set'', TInt), (''dict_remove'', TInt), (''dict_get'', TInt), (''dict_has'', TBool), (''dict_len'', TInt)]"

definition build_sigs :: "ast_module \<Rightarrow> (string, ty) hashmap" where
  "build_sigs m = hm_extend [] (builtin_sigs @ map (\<lambda>i. (imp_name i, imp_return_type i)) (am_imports m)
     @ map (\<lambda>f. (fd_name f, fd_return_type f)) (am_functions m))"

definition aff_ctx_of :: "ast_module \<Rightarrow> aff_ctx" where
  "aff_ctx_of m = \<lparr>ac_sigs = build_sigs m,
     ac_states = hm_extend [] (map (\<lambda>s. (sd_name s, sd_ty s)) (am_states m) @ map (\<lambda>c. (cd_name c, cd_ty c)) (am_consts m)),
     ac_caps = hm_extend [] (map (\<lambda>c. (cap_name c, map (\<lambda>f. (sf_name f, sf_ty f)) (cap_fields c))) (am_caps m))\<rparr>"

primrec check_fns :: "aff_ctx \<Rightarrow> fn_def list \<Rightarrow> affine_error + unit" where
  "check_fns ctx [] = Inr ()"
| "check_fns ctx (f # fs) = (case check_fn ctx f of Inl e \<Rightarrow> Inl e | Inr _ \<Rightarrow> check_fns ctx fs)"

definition affine_check :: "ast_module \<Rightarrow> affine_error + unit" where
  "affine_check m = check_fns (aff_ctx_of m) (am_functions m)"

end
