(* ===== verification/AffineProps.thy ===== *)
theory AffineProps
  imports Affine
begin

section \<open>Ownership analysis: a value is used once\<close>

text \<open>
  How often a run can use a name as a value. A run takes one branch of a conditional and one arm of a match, so the bound
  of a conditional is the larger bound of its branches. The field of a struct is read without using the struct. The bound
  counts one evaluation of each expression: \<open>owned_stmt\<close> says that the name is not used where an expression is evaluated
  repeatedly (in a loop or a comprehension), nor in the places the analysis does not walk, and is not bound again.
\<close>

subsection \<open>Counting uses\<close>

definition max_of :: "nat list \<Rightarrow> nat" where
  "max_of ns = foldr max ns 0"

type_synonym uses = "nat \<times> nat \<times> nat \<times> nat"   \<comment> \<open>value, field target, assignment target, its outermost key\<close>

definition plain_uses :: "nat \<Rightarrow> uses" where
  "plain_uses n = (n, n, n, 0)"

definition opt_uses :: "uses option \<Rightarrow> nat" where
  "opt_uses u = (case u of None \<Rightarrow> 0 | Some r \<Rightarrow> fst r)"

primrec uses_block :: "string \<Rightarrow> block \<Rightarrow> nat"
and uses_stmt :: "string \<Rightarrow> stmt \<Rightarrow> nat"
and uses_if :: "string \<Rightarrow> if_stmt \<Rightarrow> nat"
and uses_else :: "string \<Rightarrow> else_branch \<Rightarrow> nat"
and us_expr :: "string \<Rightarrow> expr \<Rightarrow> uses"
and uses_arm :: "string \<Rightarrow> match_arm \<Rightarrow> nat"
and uses_clause :: "string \<Rightarrow> comp_clause \<Rightarrow> nat" where
  "uses_block p (Block ss t) = sum_list (map (uses_stmt p) ss) + opt_uses (map_option (us_expr p) t)"
| "uses_stmt p (SLet name t v) = fst (us_expr p v)"
| "uses_stmt p (SAssign target v) = fst (snd (snd (us_expr p target))) + fst (us_expr p v)"
| "uses_stmt p (SReturn v) = opt_uses (map_option (us_expr p) v)"
| "uses_stmt p (SIf i) = uses_if p i"
| "uses_stmt p (SWhile c b) = fst (us_expr p c) + uses_block p b"
| "uses_stmt p (SFor x iter lim b) = fst (us_expr p iter) + opt_uses (map_option (us_expr p) lim) + uses_block p b"
| "uses_stmt p (SForRange x a e incl b) = fst (us_expr p a) + fst (us_expr p e) + uses_block p b"
| "uses_stmt p SBreak = 0"
| "uses_stmt p SContinue = 0"
| "uses_stmt p (SExpr e) = fst (us_expr p e)"
| "uses_stmt p (SParallel ss) = sum_list (map (uses_stmt p) ss)"
| "uses_stmt p (SParallelForTo x ix source out b) = fst (us_expr p source) + fst (us_expr p out) + uses_block p b"
| "uses_stmt p (SEmit v) = fst (us_expr p v)"
| "uses_stmt p (SDelete target) = fst (us_expr p target)"
| "uses_stmt p (SLetTuple ns v) = fst (us_expr p v)"
| "uses_stmt p SPlaceholder = 0"
| "uses_if p (IfStmt c b e) = fst (us_expr p c) + max (uses_block p b) (uses_else p e)"
| "uses_else p ElseNone = 0"
| "uses_else p (ElseBlock b) = uses_block p b"
| "uses_else p (ElseIf i) = uses_if p i"
| "us_expr p (XInt n) = plain_uses 0"
| "us_expr p (XUInt n) = plain_uses 0"
| "us_expr p (XFloat n) = plain_uses 0"
| "us_expr p (XI32 n) = plain_uses 0"
| "us_expr p (XU32 n) = plain_uses 0"
| "us_expr p (XU64 n) = plain_uses 0"
| "us_expr p (XU128 n) = plain_uses 0"
| "us_expr p (XJsonObject ps) = plain_uses (sum_list (map fst (map snd (map (map_prod id (us_expr p)) ps))))"
| "us_expr p (XJsonArray es) = plain_uses (sum_list (map fst (map (us_expr p) es)))"
| "us_expr p XJsonNull = plain_uses 0"
| "us_expr p (XBool b) = plain_uses 0"
| "us_expr p (XStr s) = plain_uses 0"
| "us_expr p (XIdent name) = (if name = p then 1 else 0, 0, 0, 0)"
| "us_expr p (XBinary bop a b) = plain_uses (fst (us_expr p a) + fst (us_expr p b))"
| "us_expr p (XUnary uop a) = plain_uses (fst (us_expr p a))"
| "us_expr p (XCall m name args) = plain_uses (sum_list (map fst (map (us_expr p) args)))"
| "us_expr p (XDynCall t method args v q) = plain_uses (sum_list (map fst (map (us_expr p) args)))"
| "us_expr p (XIndex target key) = (let n = fst (us_expr p key) + fst (us_expr p target) in
     (n, n, fst (us_expr p key) + fst (snd (snd (us_expr p target))), fst (us_expr p key)))"
| "us_expr p (XArray es) = plain_uses (sum_list (map fst (map (us_expr p) es)))"
| "us_expr p (XExplicitLiteral e) = plain_uses (fst (us_expr p e))"
| "us_expr p (XArrayAlloc t e) = plain_uses (fst (us_expr p e))"
| "us_expr p (XReserve e st) = plain_uses (fst (us_expr p e))"
| "us_expr p (XStructLit n fs) = plain_uses (sum_list (map fst (map snd (map (map_prod id (us_expr p)) fs))))"
| "us_expr p (XField e n) = (fst (snd (us_expr p e)), fst (snd (us_expr p e)), fst (snd (snd (us_expr p e))), 0)"
| "us_expr p (XPipe a b) = plain_uses (fst (us_expr p a) + fst (us_expr p b))"
| "us_expr p XPrev = plain_uses 0"
| "us_expr p (XListComp e cs) = plain_uses (sum_list (map (uses_clause p) cs) + fst (us_expr p e))"
| "us_expr p (XSetLit es) = plain_uses (sum_list (map fst (map (us_expr p) es)))"
| "us_expr p (XSetComp e cs) = plain_uses (sum_list (map (uses_clause p) cs) + fst (us_expr p e))"
| "us_expr p (XDictLit ps) = plain_uses (sum_list (map (\<lambda>q. fst (fst q) + fst (snd q)) (map (map_prod (us_expr p) (us_expr p)) ps)))"
| "us_expr p (XDictComp k v cs) = plain_uses (sum_list (map (uses_clause p) cs) + (fst (us_expr p k) + fst (us_expr p v)))"
| "us_expr p (XTupleLit es) = plain_uses (sum_list (map fst (map (us_expr p) es)))"
| "us_expr p (XTupleIndex e i) = plain_uses (fst (us_expr p e))"
| "us_expr p (XEnumCtor en v args) = plain_uses (sum_list (map fst (map (us_expr p) args)))"
| "us_expr p (XMatch e arms) = plain_uses (fst (us_expr p e) + max_of (map (uses_arm p) arms))"
| "us_expr p (XBlock b) = plain_uses (uses_block p b)"
| "us_expr p (XIf c b e) = plain_uses (fst (us_expr p c) + max (uses_block p b) (uses_else p e))"
| "uses_arm p (MatchArm q e) = fst (us_expr p e)"
| "uses_clause p (ClFor x e) = fst (us_expr p e)"
| "uses_clause p (ClIf e) = fst (us_expr p e)"

abbreviation uses_expr :: "string \<Rightarrow> expr \<Rightarrow> nat" where
  "uses_expr p e \<equiv> fst (us_expr p e)"

definition once_iterated :: "string \<Rightarrow> nat \<Rightarrow> comp_clause list \<Rightarrow> bool" where
  \<comment> \<open>only the first source of a comprehension is evaluated once\<close>
  "once_iterated p body cs \<longleftrightarrow> body = 0 \<and> list_all (\<lambda>c. uses_clause p c = 0) (drop 1 cs)"

definition all_opt :: "bool option \<Rightarrow> bool" where
  "all_opt x = (case x of None \<Rightarrow> True | Some b \<Rightarrow> b)"

primrec ow_block :: "string \<Rightarrow> block \<Rightarrow> bool \<times> bool"
and owned_stmt :: "string \<Rightarrow> stmt \<Rightarrow> bool"
and ow_if :: "string \<Rightarrow> if_stmt \<Rightarrow> bool \<times> bool"
and ow_else :: "string \<Rightarrow> else_branch \<Rightarrow> bool \<times> bool"
and owned_expr :: "string \<Rightarrow> expr \<Rightarrow> bool"
and owned_arm :: "string \<Rightarrow> match_arm \<Rightarrow> bool"
and owned_clause :: "string \<Rightarrow> comp_clause \<Rightarrow> bool" where
  \<comment> \<open>as a statement, where the tail is not walked, and as an expression\<close>
  "ow_block p (Block ss t) = (let body = list_all id (map (owned_stmt p) ss) in
     (body \<and> opt_uses (map_option (us_expr p) t) = 0, body \<and> all_opt (map_option (owned_expr p) t)))"
| "owned_stmt p (SLet name t v) = (name \<noteq> p \<and> owned_expr p v)"
| "owned_stmt p (SAssign target v) = (owned_expr p target \<and> owned_expr p v
     \<and> fst (snd (snd (us_expr p target))) = snd (snd (snd (us_expr p target))))"
| "owned_stmt p (SReturn v) = all_opt (map_option (owned_expr p) v)"
| "owned_stmt p (SIf i) = fst (ow_if p i)"
| "owned_stmt p (SWhile c b) = (owned_expr p c \<and> uses_expr p c = 0 \<and> uses_block p b = 0)"
| "owned_stmt p (SFor x iter lim b) = (owned_expr p iter \<and> opt_uses (map_option (us_expr p) lim) = 0 \<and> uses_block p b = 0)"
| "owned_stmt p (SForRange x a e incl b) = (owned_expr p a \<and> owned_expr p e \<and> uses_block p b = 0)"
| "owned_stmt p SBreak = True"
| "owned_stmt p SContinue = True"
| "owned_stmt p (SExpr e) = owned_expr p e"
| "owned_stmt p (SParallel ss) = list_all id (map (owned_stmt p) ss)"
| "owned_stmt p (SParallelForTo x ix source out b) = (owned_expr p source \<and> owned_expr p out \<and> uses_block p b = 0)"
| "owned_stmt p (SEmit v) = owned_expr p v"
| "owned_stmt p (SDelete target) = owned_expr p target"
| "owned_stmt p (SLetTuple ns v) = (p \<notin> set ns \<and> owned_expr p v)"
| "owned_stmt p SPlaceholder = True"
| "ow_if p (IfStmt c b e) = (owned_expr p c \<and> fst (ow_block p b) \<and> fst (ow_else p e), owned_expr p c \<and> snd (ow_block p b) \<and> snd (ow_else p e))"
| "ow_else p ElseNone = (True, True)"
| "ow_else p (ElseBlock b) = (fst (ow_block p b), snd (ow_block p b))"
| "ow_else p (ElseIf i) = (fst (ow_if p i), snd (ow_if p i))"
| "owned_expr p (XInt n) = True"
| "owned_expr p (XUInt n) = True"
| "owned_expr p (XFloat n) = True"
| "owned_expr p (XI32 n) = True"
| "owned_expr p (XU32 n) = True"
| "owned_expr p (XU64 n) = True"
| "owned_expr p (XU128 n) = True"
| "owned_expr p (XJsonObject ps) = (sum_list (map fst (map snd (map (map_prod id (us_expr p)) ps))) = 0)"
| "owned_expr p (XJsonArray es) = (sum_list (map fst (map (us_expr p) es)) = 0)"
| "owned_expr p XJsonNull = True"
| "owned_expr p (XBool b) = True"
| "owned_expr p (XStr s) = True"
| "owned_expr p (XIdent name) = True"
| "owned_expr p (XBinary bop a b) = (owned_expr p a \<and> owned_expr p b)"
| "owned_expr p (XUnary uop a) = owned_expr p a"
| "owned_expr p (XCall m name args) = list_all id (map (owned_expr p) args)"
| "owned_expr p (XDynCall t method args v q) = list_all id (map (owned_expr p) args)"
| "owned_expr p (XIndex target key) = (owned_expr p target \<and> owned_expr p key)"
| "owned_expr p (XArray es) = list_all id (map (owned_expr p) es)"
| "owned_expr p (XExplicitLiteral e) = owned_expr p e"
| "owned_expr p (XArrayAlloc t e) = owned_expr p e"
| "owned_expr p (XReserve e st) = owned_expr p e"
| "owned_expr p (XStructLit n fs) = list_all id (map snd (map (map_prod id (owned_expr p)) fs))"
| "owned_expr p (XField e n) = owned_expr p e"
| "owned_expr p (XPipe a b) = (owned_expr p a \<and> owned_expr p b)"
| "owned_expr p XPrev = True"
| "owned_expr p (XListComp e cs) = (list_all id (map (owned_clause p) cs) \<and> owned_expr p e \<and> once_iterated p (uses_expr p e) cs)"
| "owned_expr p (XSetLit es) = list_all id (map (owned_expr p) es)"
| "owned_expr p (XSetComp e cs) = (list_all id (map (owned_clause p) cs) \<and> owned_expr p e \<and> once_iterated p (uses_expr p e) cs)"
| "owned_expr p (XDictLit ps) = list_all (\<lambda>q. fst q \<and> snd q) (map (map_prod (owned_expr p) (owned_expr p)) ps)"
| "owned_expr p (XDictComp k v cs) = (list_all id (map (owned_clause p) cs) \<and> owned_expr p k \<and> owned_expr p v
     \<and> once_iterated p (uses_expr p k + uses_expr p v) cs)"
| "owned_expr p (XTupleLit es) = list_all id (map (owned_expr p) es)"
| "owned_expr p (XTupleIndex e i) = owned_expr p e"
| "owned_expr p (XEnumCtor en v args) = list_all id (map (owned_expr p) args)"
| "owned_expr p (XMatch e arms) = (owned_expr p e \<and> list_all id (map (owned_arm p) arms))"
| "owned_expr p (XBlock b) = snd (ow_block p b)"
| "owned_expr p (XIf c b e) = (owned_expr p c \<and> snd (ow_block p b) \<and> snd (ow_else p e))"
| "owned_arm p (MatchArm q e) = (p \<notin> set (pattern_names q) \<and> owned_expr p e)"
| "owned_clause p (ClFor x e) = (x \<noteq> p \<and> owned_expr p e)"
| "owned_clause p (ClIf e) = owned_expr p e"

definition owned_block :: "string \<Rightarrow> block \<Rightarrow> bool" where
  "owned_block p b = fst (ow_block p b)"

subsection \<open>Following one name\<close>

primrec binding_of :: "string \<Rightarrow> env \<Rightarrow> binding option" where
  "binding_of p [] = None"
| "binding_of p (s # ss) = (case hm_get s p of Some b \<Rightarrow> Some b | None \<Rightarrow> binding_of p ss)"

definition same_place :: "string \<Rightarrow> env \<Rightarrow> env \<Rightarrow> bool" where
  \<comment> \<open>the name is bound in the same scopes, with the same types\<close>
  "same_place p = list_all2 (\<lambda>s s'. map_option b_ty (hm_get s p) = map_option b_ty (hm_get s' p))"

definition gone :: "string \<Rightarrow> env \<Rightarrow> nat" where
  \<comment> \<open>1 when the name has been moved\<close>
  "gone p env = (case binding_of p env of Some b \<Rightarrow> of_bool (b_moved b) | None \<Rightarrow> 0)"

definition moves :: "string \<Rightarrow> nat \<Rightarrow> env \<Rightarrow> env \<Rightarrow> bool" where
  "moves p n env env' \<longleftrightarrow> same_place p env env' \<and> gone p env + n \<le> gone p env'"

definition has_owned :: "string \<Rightarrow> env \<Rightarrow> bool" where
  "has_owned p env \<longleftrightarrow> (\<exists>b. binding_of p env = Some b \<and> \<not> is_copy (b_ty b))"

definition tracks :: "string \<Rightarrow> nat \<Rightarrow> 'a aff \<Rightarrow> bool" where
  \<comment> \<open>a walk that succeeds from an environment that owns the name accounts for \<open>n\<close> uses\<close>
  "tracks p n m \<longleftrightarrow> (\<forall>env v env'. has_owned p env \<longrightarrow> m env = Inr (v, env') \<longrightarrow> moves p n env env')"

lemma gone_Cons [simp]: "gone p (s # ss) = (case hm_get s p of Some b \<Rightarrow> of_bool (b_moved b) | None \<Rightarrow> gone p ss)"
  by (simp add: gone_def split: option.splits)

lemma gone_le: "gone p env \<le> 1"
  by (simp add: gone_def split: option.splits)

lemma same_place_refl [simp]: "same_place p env env"
  by (simp add: same_place_def list_all2_refl)

lemma same_place_trans: "same_place p a b \<Longrightarrow> same_place p b c \<Longrightarrow> same_place p a c"
  unfolding same_place_def by (rule list_all2_trans [of _ _ "\<lambda>s s'. map_option b_ty (hm_get s p) = map_option b_ty (hm_get s' p)"]) auto

lemma same_place_sym: "same_place p a b \<Longrightarrow> same_place p b a"
  unfolding same_place_def by (rule list_all2_all_nthI) (auto dest: list_all2_lengthD simp: list_all2_conv_all_nth)

lemma same_place_binding: "same_place p a b \<Longrightarrow> map_option b_ty (binding_of p a) = map_option b_ty (binding_of p b)"
  unfolding same_place_def by (induction rule: list_all2_induct) (auto split: option.splits)

lemma moves_owned: "moves p n env env' \<Longrightarrow> has_owned p env \<Longrightarrow> has_owned p env'"
  using same_place_binding [of p env env'] by (cases "binding_of p env'") (auto simp: moves_def has_owned_def)

lemma moves_trans: "moves p n a b \<Longrightarrow> moves p k b c \<Longrightarrow> moves p (n + k) a c"
  by (auto simp: moves_def intro: same_place_trans)

lemma tracks_mono: "tracks p n m \<Longrightarrow> k \<le> n \<Longrightarrow> tracks p k m"
  by (fastforce simp: tracks_def moves_def)

lemma tracks_ret: "tracks p 0 (aff_ret v)"
  by (auto simp: tracks_def aff_ret_def moves_def has_owned_def)

lemma tracks_bind: "tracks p n m \<Longrightarrow> (\<And>v. tracks p k (f v)) \<Longrightarrow> tracks p (n + k) (aff_bind m f)"
  unfolding tracks_def aff_bind_def
  by (auto split: sum.splits) (meson moves_owned moves_trans)

lemma tracks_do: "tracks p n m \<Longrightarrow> tracks p k f \<Longrightarrow> tracks p (n + k) (aff_do m f)"
  unfolding aff_do_def by (rule tracks_bind)

lemma tracks_then: "tracks p n m \<Longrightarrow> tracks p 0 f \<Longrightarrow> tracks p n (aff_do m f)"
  using tracks_do [of p n m 0 f] by simp

lemma tracks_do_max: "tracks p n m \<Longrightarrow> tracks p k f \<Longrightarrow> tracks p (max n k) (aff_do m f)"
  using tracks_mono [OF tracks_do] by fastforce

lemma tracks_int: "tracks p n m \<Longrightarrow> tracks p n (aff_int m)"
  unfolding aff_int_def by (erule tracks_then) (rule tracks_ret)

lemma tracks_seq: "(\<And>x. x \<in> set xs \<Longrightarrow> tracks p (u x) (f x)) \<Longrightarrow> tracks p (sum_list (map u xs)) (aff_seq (map f xs))"
  by (induction xs) (simp_all add: tracks_ret tracks_do)

lemma tracks_seq_max: "(\<And>x. x \<in> set xs \<Longrightarrow> tracks p (u x) (f x)) \<Longrightarrow> tracks p (max_of (map u xs)) (aff_seq (map f xs))"
proof (rule tracks_mono [OF tracks_seq])
  show "max_of (map u xs) \<le> sum_list (map u xs)" by (induction xs) (auto simp: max_of_def)
qed auto

lemma tracks_let: "name \<noteq> p \<Longrightarrow> tracks p 0 (aff_let name t)"
  by (auto simp: tracks_def aff_let_def moves_def has_owned_def same_place_def list_all2_refl split: list.splits option.splits)

lemma tracks_snapshot: "tracks p 0 (aff_snapshot m)"
  by (auto simp: tracks_def aff_snapshot_def moves_def has_owned_def split: sum.splits)

lemma tracks_peek: "tracks p 0 (peek_ident name)"
  by (auto simp: tracks_def peek_ident_def moves_def has_owned_def split: sum.splits)

lemma tracks_call: "tracks p 0 (call_type ctx m name)"
  by (auto simp: tracks_def call_type_def moves_def has_owned_def split: if_splits option.splits)

lemma use_in_below:
  "use_in name (s # ss) = Some (Inr (t, env')) \<Longrightarrow> hm_get s name = None \<Longrightarrow> \<exists>ss'. env' = s # ss' \<and> use_in name ss = Some (Inr (t, ss'))"
  by (cases "use_in name ss") (auto split: sum.splits)

lemma use_elsewhere: "use_in name env = Some (Inr (t, env')) \<Longrightarrow> name \<noteq> p \<Longrightarrow> same_place p env env'"
proof (induction env arbitrary: env')
  case (Cons s ss)
  show ?case
  proof (cases "hm_get s name")
    case None
    with use_in_below Cons.prems(1) obtain ss' where "env' = s # ss'" "use_in name ss = Some (Inr (t, ss'))" by metis
    with Cons.IH Cons.prems(2) show ?thesis by (simp add: same_place_def)
  next
    case (Some b)
    with Cons.prems show ?thesis by (auto simp: same_place_def list_all2_refl split: if_splits)
  qed
qed simp

lemma use_moves:
  "use_in name env = Some (Inr (t, env')) \<Longrightarrow> has_owned p env \<Longrightarrow> moves p (if name = p then 1 else 0) env env'"
proof (induction env arbitrary: env')
  case (Cons s ss)
  show ?case
  proof (cases "hm_get s name")
    case None
    with use_in_below Cons.prems obtain ss' where ss': "env' = s # ss'" "use_in name ss = Some (Inr (t, ss'))" by metis
    show ?thesis
    proof (cases "hm_get s p")
      case None
      with Cons.IH [OF ss'(2)] Cons.prems(2) ss'(1) show ?thesis by (auto simp: moves_def has_owned_def same_place_def)
    next
      case (Some b)
      with \<open>hm_get s name = None\<close> have "name \<noteq> p" by auto
      moreover from use_elsewhere [OF ss'(2) this] have "same_place p ss ss'" .
      ultimately show ?thesis using Some ss'(1) by (auto simp: moves_def same_place_def)
    qed
  next
    case (Some b)
    with Cons.prems show ?thesis
      by (auto simp: moves_def has_owned_def same_place_def list_all2_refl split: if_splits option.splits)
  qed
qed simp

lemma tracks_use: "tracks p (if name = p then 1 else 0) (use_ident ctx name)"
proof -
  have "name \<noteq> p" if "use_in name env = None" "has_owned p env" for env
    using that by (induction env) (auto simp: has_owned_def split: option.splits)
  then show ?thesis
    by (auto simp: tracks_def use_ident_def moves_def [of _ 0] dest: use_moves split: option.splits)
qed

definition free_of :: "string \<Rightarrow> env \<Rightarrow> bool" where
  "free_of p ss = list_all (\<lambda>s. hm_get s p = None) ss"

lemma binding_of_above: "free_of p ss \<Longrightarrow> binding_of p (ss @ env) = binding_of p env"
  by (induction ss) (simp_all add: free_of_def)

lemma same_place_free: "same_place p ss ss' \<Longrightarrow> free_of p ss \<Longrightarrow> free_of p ss'"
  unfolding same_place_def free_of_def by (induction rule: list_all2_induct) auto

lemma same_place_append:
  assumes "same_place p (ss @ env) env'"
  obtains ss' env1 where "env' = ss' @ env1" and "same_place p ss ss'" and "same_place p env env1" and "length ss' = length ss"
  using assms that unfolding same_place_def list_all2_append1 by blast

lemma tracks_above:
  assumes "tracks p n m" and "has_owned p env" and "free_of p ss" and "m (ss @ env) = Inr (v, env')"
  shows "\<exists>ss' env1. env' = ss' @ env1 \<and> length ss' = length ss \<and> free_of p ss' \<and> moves p n env env1"
proof -
  have "has_owned p (ss @ env)" using assms(2,3) by (simp add: has_owned_def binding_of_above)
  with assms(1,4) have "moves p n (ss @ env) env'" by (auto simp: tracks_def)
  moreover from this obtain ss' env1 where "env' = ss' @ env1" "same_place p ss ss'" "same_place p env env1" "length ss' = length ss"
    unfolding moves_def by (blast elim: same_place_append)
  ultimately show ?thesis
    using assms(3) same_place_free [of p ss ss']
    by (intro exI [of _ ss'] exI [of _ env1]) (auto simp: moves_def gone_def binding_of_above)
qed

lemma lets_scope:
  "aff_seq (map (\<lambda>b. aff_let (fst b) (snd b)) bs) (s # env) = Inr (v, env') \<Longrightarrow> hm_get s p = None \<Longrightarrow> p \<notin> fst ` set bs \<Longrightarrow>
   \<exists>s'. env' = s' # env \<and> hm_get s' p = None"
proof (induction bs arbitrary: s)
  case (Cons b bs)
  from Cons.prems show ?case
    by (intro Cons.IH [of "hm_insert (fst b) \<lparr>b_ty = snd b, b_moved = False\<rparr> s"])
      (auto simp: aff_do_def aff_bind_def aff_let_def)
qed (auto simp: aff_ret_def)

lemma tracks_scope:
  assumes "tracks p n m" and "p \<notin> fst ` set bs"
  shows "tracks p n (aff_in_scope bs m)"
  unfolding tracks_def
proof (intro allI impI)
  fix env v env'
  assume own: "has_owned p env" and run: "aff_in_scope bs m env = Inr (v, env')"
  then obtain u env1 w env2 where "aff_seq (map (\<lambda>b. aff_let (fst b) (snd b)) bs) ([] # env) = Inr (u, env1)"
    and m: "m env1 = Inr (w, env2)" and tl: "env' = tl env2"
    by (auto simp: aff_in_scope_def aff_do_def aff_bind_def aff_push_def aff_pop_def split: sum.splits)
  with lets_scope assms(2) obtain s where "env1 = s # env" "hm_get s p = None" by fastforce
  with tracks_above [OF assms(1) own, of "[s]"] m tl show "moves p n env env'" by (auto simp: free_of_def length_Suc_conv)
qed

lemma merge_get: "hm_get (merge_scope sa sb) p = map_option (\<lambda>va. let vb = (case hm_get sb p of Some v \<Rightarrow> v | None \<Rightarrow> va) in
     \<lparr>b_ty = b_ty va, b_moved = b_moved va \<or> b_moved vb\<rparr>) (hm_get sa p)"
  unfolding merge_scope_def hm_get_def by (induction sa) (auto simp: Let_def split: option.splits)

lemma merge_Cons: "length a = length b \<Longrightarrow> merge (sa # a) (sb # b) = merge_scope sa sb # merge a b"
  by (simp add: merge_def)

lemma moves_merge:
  "same_place p a b \<Longrightarrow> same_place p a (merge a b) \<and> max (gone p a) (gone p b) \<le> gone p (merge a b)"
  unfolding same_place_def
proof (induction rule: list_all2_induct)
  case Nil
  show ?case by (simp add: merge_def gone_def)
next
  case (Cons x xs y ys)
  moreover have "length xs = length ys" using Cons.hyps(2) by (rule list_all2_lengthD)
  ultimately show ?case
    by (cases "hm_get x p"; cases "hm_get y p") (auto simp: merge_Cons merge_get Let_def)
qed

lemma tracks_branch:
  assumes t: "tracks p n thn" and e: "case els of None \<Rightarrow> k = 0 | Some f \<Rightarrow> tracks p k f"
  shows "tracks p (max n k) (aff_branch thn els)"
  unfolding tracks_def
proof (intro allI impI)
  fix env v env'
  assume own: "has_owned p env" and run: "aff_branch thn els env = Inr (v, env')"
  then obtain u at where th: "thn env = Inr (u, at)" by (auto simp: aff_branch_def split: sum.splits)
  then have mt: "moves p n env at" using t own by (auto simp: tracks_def)
  obtain ae where me: "moves p k env ae" and env': "env' = merge at ae \<or> (k = 0 \<and> ae = env \<and> env' = merge env at)"
  proof (cases els)
    case None
    then show ?thesis using that [of env] run th e by (auto simp: aff_branch_def moves_def)
  next
    case (Some f)
    with run th obtain w ae where "f env = Inr (w, ae)" "env' = merge at ae" by (auto simp: aff_branch_def split: sum.splits)
    with Some e own show ?thesis by (intro that [of ae]) (auto simp: tracks_def)
  qed
  have sp: "same_place p env at" "same_place p env ae" "same_place p at ae"
    using mt me by (auto simp: moves_def intro: same_place_trans same_place_sym)
  from env' show "moves p (max n k) env env'"
  proof
    assume "env' = merge at ae"
    with moves_merge [OF sp(3)] mt me sp(1) show ?thesis by (auto simp: moves_def intro: same_place_trans)
  next
    assume "k = 0 \<and> ae = env \<and> env' = merge env at"
    with moves_merge [OF sp(1)] mt show ?thesis by (auto simp: moves_def)
  qed
qed

definition opens :: "string \<Rightarrow> nat \<Rightarrow> nat aff \<Rightarrow> bool" where
  \<comment> \<open>a walk that returns the number of scopes it leaves open\<close>
  "opens p n m \<longleftrightarrow> (\<forall>env k env'. has_owned p env \<longrightarrow> m env = Inr (k, env') \<longrightarrow>
     (\<exists>ss env1. env' = ss @ env1 \<and> length ss = k \<and> free_of p ss \<and> moves p n env env1))"

lemma opens_for: "tracks p n m \<Longrightarrow> x \<noteq> p \<Longrightarrow> opens p n (aff_do m (aff_do aff_push (aff_do (aff_let x t) (aff_ret (Suc 0)))))"
  unfolding opens_def tracks_def
  by (fastforce simp: aff_do_def aff_bind_def aff_push_def aff_let_def aff_ret_def free_of_def split: sum.splits
    intro: exI [of _ "[hm_insert x b []]" for b])

lemma opens_if: "tracks p n m \<Longrightarrow> opens p n (aff_do m (aff_ret 0))"
  unfolding opens_def tracks_def by (auto simp: aff_do_def aff_bind_def aff_ret_def free_of_def split: sum.splits)

lemma opens_clauses: "(\<And>x. x \<in> set xs \<Longrightarrow> opens p (u x) (f x)) \<Longrightarrow> opens p (sum_list (map u xs)) (check_comp_clauses (map f xs))"
proof (induction xs)
  case Nil
  show ?case by (auto simp: opens_def aff_ret_def free_of_def moves_def)
next
  case (Cons x xs)
  have hd: "opens p (u x) (f x)" and tl: "opens p (sum_list (map u xs)) (check_comp_clauses (map f xs))" using Cons by simp_all
  show ?case
    unfolding opens_def
  proof (intro allI impI)
    fix env k env'
    assume own: "has_owned p env" and run: "check_comp_clauses (map f (x # xs)) env = Inr (k, env')"
    then obtain a env1 b where one: "f x env = Inr (a, env1)" and two: "check_comp_clauses (map f xs) env1 = Inr (b, env')" and k: "k = a + b"
      by (auto simp: aff_bind_def aff_ret_def split: sum.splits)
    from hd own one obtain ss rest where e1: "env1 = ss @ rest" "length ss = a" "free_of p ss" "moves p (u x) env rest"
      unfolding opens_def by blast
    from e1 own have "has_owned p env1" by (simp add: has_owned_def binding_of_above [of p ss]) (metis moves_owned has_owned_def)
    with tl two obtain ss2 rest2 where e2: "env' = ss2 @ rest2" "length ss2 = b" "free_of p ss2" "moves p (sum_list (map u xs)) env1 rest2"
      unfolding opens_def by blast
    then obtain ss1 end1 where r2: "rest2 = ss1 @ end1" "same_place p ss ss1" "same_place p rest end1" "length ss1 = length ss"
      unfolding moves_def e1(1) by (blast elim: same_place_append)
    have "length ss1 = a" "free_of p ss1" using r2 e1 same_place_free by auto
    moreover have "moves p (sum_list (map u xs)) rest end1"
      using e2(4) r2 e1(3) \<open>free_of p ss1\<close> unfolding e1(1) by (auto simp: moves_def gone_def binding_of_above)
    ultimately show "\<exists>ss env1. env' = ss @ env1 \<and> length ss = k \<and> free_of p ss \<and> moves p (sum_list (map u (x # xs))) env env1"
      using e1(4) e2 r2(1) k
      by (intro exI [of _ "ss2 @ ss1"] exI [of _ end1]) (auto simp: free_of_def intro: moves_trans)
  qed
qed

lemma aff_pops_drop: "aff_pops n env = Inr ((), drop n env)"
  by (induction n arbitrary: env) (simp_all add: aff_ret_def aff_do_def aff_bind_def aff_pop_def drop_Suc)

lemma tracks_comp:
  assumes cs: "opens p n (check_comp_clauses cs)" and m: "tracks p k m"
  shows "tracks p (n + k) (aff_comp cs m)"
  unfolding tracks_def
proof (intro allI impI)
  fix env v env'
  assume own: "has_owned p env" and run: "aff_comp cs m env = Inr (v, env')"
  then obtain a env1 w env2 where one: "check_comp_clauses cs env = Inr (a, env1)" and two: "m env1 = Inr (w, env2)" and d: "env' = drop a env2"
    by (auto simp: aff_comp_def aff_bind_def aff_do_def aff_pops_drop aff_ret_def split: sum.splits)
  from cs own one obtain ss rest where e1: "env1 = ss @ rest" "length ss = a" "free_of p ss" "moves p n env rest"
    unfolding opens_def by blast
  from tracks_above [OF m moves_owned [OF e1(4) own] e1(3), of w env2] two e1 d show "moves p (n + k) env env'"
    by (auto intro: moves_trans)
qed

lemma tracks_opt_map:
  "(\<And>x. x \<in> set_option v \<Longrightarrow> tracks p (fst (u x)) (f x)) \<Longrightarrow> tracks p (opt_uses (map_option u v)) (aff_opt (map_option f v))"
  by (cases v) (auto simp: opt_uses_def aff_opt_def intro: tracks_ret tracks_then)

lemma tracks_ident: "tracks p (Suc 0) (use_ident ctx p)" "name \<noteq> p \<Longrightarrow> tracks p 0 (use_ident ctx name)"
  using tracks_use [of p p ctx] tracks_use [of p name ctx] by simp_all

lemma tracks_nothing: "n = 0 \<Longrightarrow> tracks p n (aff_ret v)"
  by (simp add: tracks_ret)

lemma tracks_bind_let: "tracks p n m \<Longrightarrow> name \<noteq> p \<Longrightarrow> tracks p n (aff_bind m (\<lambda>v. aff_let name (t v)))"
  using tracks_bind [of p n m 0 "\<lambda>v. aff_let name (t v)"] by (simp add: tracks_let)

lemma tracks_lets: "p \<notin> set ns \<Longrightarrow> tracks p 0 (aff_seq (map (\<lambda>n. aff_let n t) ns))"
  using tracks_seq [of ns p "\<lambda>_. 0" "\<lambda>n. aff_let n t"] by (auto intro: tracks_let simp: sum_list_0)

lemma tracks_plain: "tracks p n m \<Longrightarrow> tracks p (fst (plain_uses n)) (value_of (plain m)) \<and> tracks p (fst (snd (plain_uses n))) (peek_of (plain m))
    \<and> tracks p (snd (snd (snd (plain_uses n)))) (key_of (plain m))"
  by (auto simp: plain_uses_def plain_def intro: tracks_ret tracks_then)

lemma all_opt_map [simp]: "all_opt (map_option f v) \<longleftrightarrow> (\<forall>x \<in> set_option v. f x)"
  by (cases v) (simp_all add: all_opt_def)

lemmas tracks_last = tracks_then [OF _ tracks_ret] tracks_then [OF _ tracks_call] tracks_then [OF _ tracks_snapshot]
  tracks_then [OF _ tracks_lets]

lemmas walk_tracks = tracks_plain tracks_do tracks_last tracks_do_max tracks_int tracks_nothing tracks_seq tracks_seq_max tracks_scope
  tracks_opt_map tracks_bind_let tracks_comp opens_clauses opens_for opens_if tracks_ident tracks_peek tracks_branch

lemma walk_tracks_uses:
  shows tracks_block: "(fst (ow_block p b) \<longrightarrow> tracks p (uses_block p b) (fst (ck_block ctx b)))
      \<and> (snd (ow_block p b) \<longrightarrow> tracks p (uses_block p b) (snd (ck_block ctx b)))"
    and "owned_stmt p s \<longrightarrow> tracks p (uses_stmt p s) (check_stmt ctx s)"
    and "(fst (ow_if p i) \<longrightarrow> tracks p (uses_if p i) (fst (ck_if ctx i))) \<and> (snd (ow_if p i) \<longrightarrow> tracks p (uses_if p i) (snd (ck_if ctx i)))"
    and "(fst (ow_else p e) \<longrightarrow> (case fst (ck_else ctx e) of None \<Rightarrow> uses_else p e = 0 | Some f \<Rightarrow> tracks p (uses_else p e) f))
      \<and> (snd (ow_else p e) \<longrightarrow> tracks p (uses_else p e) (snd (ck_else ctx e)))"
    and "owned_expr p x \<longrightarrow> tracks p (fst (us_expr p x)) (value_of (ck_expr ctx x)) \<and> tracks p (fst (snd (us_expr p x))) (peek_of (ck_expr ctx x))
      \<and> tracks p (snd (snd (snd (us_expr p x)))) (key_of (ck_expr ctx x))"
    and "owned_arm p a \<longrightarrow> tracks p (uses_arm p a) (ck_arm ctx a)"
    and "owned_clause p cl \<longrightarrow> opens p (uses_clause p cl) (ck_clause ctx cl)"
proof (induction b and s and i and e and x and a and cl rule: ast_induct)
  case (XDictLit ps)
  then have "tracks p (sum_list (map (\<lambda>q. uses_expr p (fst q) + uses_expr p (snd q)) ps))
      (aff_seq (map (\<lambda>q. aff_do (value_of (ck_expr ctx (fst q))) (value_of (ck_expr ctx (snd q)))) ps))"
    if "list_all (\<lambda>q. owned_expr p (fst q) \<and> owned_expr p (snd q)) ps"
    using that by (intro tracks_seq tracks_do) (fastforce simp: list_all_iff)+
  then show ?case by (auto simp: list_all_iff comp_def intro!: tracks_plain tracks_int)
qed (auto simp: Let_def list_all_iff image_iff option.map_comp intro!: walk_tracks)

subsection \<open>Functions\<close>

lemma owned_uses: "has_owned p env \<Longrightarrow> tracks p n m \<Longrightarrow> m env = Inr (v, env') \<Longrightarrow> gone p env + n \<le> 1"
  using gone_le [of p env'] by (fastforce simp: tracks_def moves_def)

lemma let_used_once:
  assumes "aff_seq (map (check_stmt ctx) (SLet p (Some t) v # ss)) env = Inr (u, env')" and "\<not> is_copy t" and "list_all (owned_stmt p) ss"
  shows "sum_list (map (uses_stmt p) ss) \<le> 1"
proof -
  from assms(1) obtain env1 where run: "aff_seq (map (check_stmt ctx) ss) env1 = Inr (u, env')" and "binding_of p env1 = Some \<lparr>b_ty = t, b_moved = False\<rparr>"
    by (auto simp: aff_do_def aff_bind_def aff_let_def split: sum.splits list.splits)
  then have "has_owned p env1" using assms(2) by (simp add: has_owned_def)
  moreover have "tracks p (sum_list (map (uses_stmt p) ss)) (aff_seq (map (check_stmt ctx) ss))"
    using assms(3) walk_tracks_uses(2) by (intro tracks_seq) (auto simp: list_all_iff)
  ultimately show ?thesis using owned_uses run by fastforce
qed

text \<open>C12 (safety): The ownership analysis is sound where it looks. When it accepts a function, a parameter of a type that is not copyable,
  that is not bound again and that is used neither in loops, comprehensions and json literals nor in the trailing
  expression of a statement block, is used at most once by every run of the body.\<close>
theorem affine_sound:
  assumes "check_fn ctx f = Inr ()" and "q \<in> set (fd_params f)" and "distinct (map pa_name (fd_params f))"
    and "\<not> is_copy (pa_ty q)" and "owned_block (pa_name q) (fd_body f)"
  shows "uses_block (pa_name q) (fd_body f) \<le> 1"
proof -
  let ?env = "[hm_extend [] (map (\<lambda>p. (pa_name p, \<lparr>b_ty = pa_ty p, b_moved = False\<rparr>)) (fd_params f))]"
  from assms(1) obtain v env' where run: "check_block ctx (fd_body f) ?env = Inr (v, env')"
    by (auto simp: check_fn_def split: sum.splits)
  have "hm_get (hd ?env) (pa_name q) = Some \<lparr>b_ty = pa_ty q, b_moved = False\<rparr>"
    using assms(2,3) by (simp add: hm_get_extend rev_map comp_def) (subst map_of_is_SomeI; force simp: comp_def distinct_rev rev_map [symmetric])
  then have "has_owned (pa_name q) ?env" using assms(4) by (simp add: has_owned_def)
  moreover have "tracks (pa_name q) (uses_block (pa_name q) (fd_body f)) (check_block ctx (fd_body f))"
    using tracks_block assms(5) by (simp add: owned_block_def check_block_def)
  ultimately show ?thesis using owned_uses run by fastforce
qed

subsection \<open>Where it does not look\<close>

definition resource_fn :: "block \<Rightarrow> fn_def" where
  "resource_fn b = \<lparr>fd_name = ''main'', fd_params = [\<lparr>pa_name = ''r'', pa_ty = TResource\<rparr>, \<lparr>pa_name = ''c'', pa_ty = TBool\<rparr>],
     fd_return_type = TInt, fd_body = b, fd_is_nore = False, fd_is_entry = False, fd_is_view = False, fd_is_pure = False, fd_modifiers = []\<rparr>"

definition resource_module :: "block \<Rightarrow> ast_module" where
  "resource_module b = \<lparr>am_name = None, am_imports = [], am_states = [], am_functions = [resource_fn b], am_structs = [], am_handlers = [],
     am_modifiers = [], am_enums = [], am_consts = [], am_caps = [], am_interfaces = [], am_indexes = []\<rparr>"

definition unwrap_r :: expr where
  "unwrap_r = XCall None ''unwrap'' [XIdent ''r'']"

lemma unwrap_sig: "hm_get (build_sigs (resource_module b)) ''unwrap'' = Some TInt"
  by (simp add: build_sigs_def builtin_sigs_def resource_module_def resource_fn_def hm_get_extend)

lemma affine_resource: "affine_check (resource_module b) = check_fn \<lparr>ac_sigs = build_sigs (resource_module b), ac_states = [], ac_caps = []\<rparr> (resource_fn b)"
  by (simp add: affine_check_def aff_ctx_of_def resource_module_def split: sum.splits)

lemmas aff_run = affine_resource check_fn_def check_block_def resource_fn_def unwrap_r_def aff_in_scope_def aff_do_def aff_bind_def aff_push_def
  aff_pop_def aff_ret_def aff_snapshot_def aff_int_def use_ident_def call_type_def unwrap_sig [unfolded hm_get_def] plain_def Let_def aff_opt_def aff_branch_def
  merge_def merge_scope_def hm_insert_def hm_get_def

definition loop_body :: block where
  \<comment> \<open>\<^verbatim>\<open>while c { unwrap(r); } unwrap(r);\<close>\<close>
  "loop_body = Block [SWhile (XIdent ''c'') (Block [SExpr unwrap_r] None), SExpr unwrap_r] None"

definition tail_body :: block where
  \<comment> \<open>\<^verbatim>\<open>unwrap(r); unwrap(r)\<close>\<close>
  "tail_body = Block [SExpr unwrap_r] (Some unwrap_r)"

definition json_body :: block where
  \<comment> \<open>\<^verbatim>\<open>let j = [unwrap(r), unwrap(r)];\<close> with a json array\<close>
  "json_body = Block [SLet ''j'' None (XJsonArray [unwrap_r, unwrap_r])] None"

definition shadow_body :: block where
  \<comment> \<open>\<^verbatim>\<open>unwrap(r); if c { let r: P = P { f: 1 }; r.f; }\<close>\<close>
  "shadow_body = Block [SExpr unwrap_r, SIf (IfStmt (XIdent ''c'') (Block [SLet ''r'' (Some (TStruct ''P'' [(''f'', TInt)] [None]))
     (XStructLit ''P'' [(''f'', XInt 1)]), SExpr (XField (XIdent ''r'') ''f'')] None) ElseNone)] None"

definition branch_body :: block where
  \<comment> \<open>\<^verbatim>\<open>if c { unwrap(r); } else { return unwrap(r); }\<close>\<close>
  "branch_body = Block [SIf (IfStmt (XIdent ''c'') (Block [SExpr unwrap_r] None) (ElseBlock (Block [SReturn (Some unwrap_r)] None)))] None"

lemmas count_uses = unwrap_r_def plain_uses_def opt_uses_def

text \<open>C39 (safety): The ownership analysis accepts functions that use a resource twice: once in a loop (in every round) and again after
  it, once in a statement and again in the trailing expression of the body, and twice in a json literal. And it rejects a
  field access to a local that shadows a moved one, because the walk for field targets starts at the outermost scope.\<close>
theorem affine_misses_moves:
  "affine_check (resource_module loop_body) = Inr () \<and> uses_block ''r'' loop_body = 2
   \<and> affine_check (resource_module tail_body) = Inr () \<and> uses_block ''r'' tail_body = 2
   \<and> affine_check (resource_module json_body) = Inr () \<and> uses_block ''r'' json_body = 2
   \<and> affine_check (resource_module shadow_body) = Inl (UsedAfterMove ''r'') \<and> uses_block ''r'' shadow_body = 1"
proof (intro conjI)
  show "affine_check (resource_module loop_body) = Inr ()" by (simp add: aff_run loop_body_def)
  show "affine_check (resource_module tail_body) = Inr ()" by (simp add: aff_run tail_body_def)
  show "affine_check (resource_module json_body) = Inr ()" by (simp add: aff_run json_body_def aff_let_def)
  show "affine_check (resource_module shadow_body) = Inl (UsedAfterMove ''r'')"
    by (simp add: aff_run shadow_body_def aff_let_def lit_type_def peek_ident_def)
  show "uses_block ''r'' loop_body = 2" by (simp add: count_uses loop_body_def)
  show "uses_block ''r'' tail_body = 2" by (simp add: count_uses tail_body_def)
  show "uses_block ''r'' json_body = 2" by (simp add: count_uses json_body_def)
  show "uses_block ''r'' shadow_body = 1" by (simp add: count_uses shadow_body_def)
qed

lemma branch_accepted:
  "check_fn \<lparr>ac_sigs = build_sigs (resource_module branch_body), ac_states = [], ac_caps = []\<rparr> (resource_fn branch_body) = Inr ()"
  by (simp add: aff_run branch_body_def)

text \<open>A function that consumes its resource in both branches of a conditional is accepted.\<close>
theorem affine_sound_witness:
  "uses_block ''r'' branch_body \<le> 1"
proof -
  have "owned_block ''r'' branch_body" by (simp add: owned_block_def branch_body_def unwrap_r_def opt_uses_def all_opt_def)
  with affine_sound [OF branch_accepted, of "\<lparr>pa_name = ''r'', pa_ty = TResource\<rparr>"] show ?thesis
    by (simp add: resource_fn_def)
qed

end
