(* ===== verification/Modifier.thy ===== *)
theory Modifier
  imports Ast
begin

section \<open>Modifier expansion\<close>

text \<open>
  \<^verbatim>\<open>crates/rend/src/modifier.rs\<close>: the pass that wraps the body of a function in the bodies of its modifiers, with the
  arguments of each application in the place of the parameters. The source substitutes in a block with and without its
  trailing expression; \<open>sub_block\<close> and \<open>sub_else\<close> give both, as pairs. The texts and spans of errors are left out.
\<close>

datatype modifier_error = DuplicateModifier string | UnknownModifier string | ModifierArgs string nat nat
  | NoPlaceholder string | StrayPlaceholder

subsection \<open>Substitution\<close>

primrec sub_block :: "(string, expr) hashmap \<Rightarrow> block \<Rightarrow> block \<times> block"
and substitute_params_in_stmt :: "(string, expr) hashmap \<Rightarrow> stmt \<Rightarrow> stmt"
and substitute_in_if :: "(string, expr) hashmap \<Rightarrow> if_stmt \<Rightarrow> if_stmt"
and sub_else :: "(string, expr) hashmap \<Rightarrow> else_branch \<Rightarrow> else_branch \<times> else_branch"
and substitute_in_expr :: "(string, expr) hashmap \<Rightarrow> expr \<Rightarrow> expr"
and sub_arm :: "(string, expr) hashmap \<Rightarrow> match_arm \<Rightarrow> match_arm"
and sub_clause :: "(string, expr) hashmap \<Rightarrow> comp_clause \<Rightarrow> comp_clause" where
  \<comment> \<open>with the trailing expression left alone, and substituted\<close>
  "sub_block s (Block ss t) = (let body = map (substitute_params_in_stmt s) ss in
     (Block body (map_option (\<lambda>e. e) t), Block body (map_option (substitute_in_expr s) t)))"
| "substitute_params_in_stmt s (SLet name t v) = SLet name t (substitute_in_expr s v)"
| "substitute_params_in_stmt s (SAssign target v) = SAssign (substitute_in_expr s target) (substitute_in_expr s v)"
| "substitute_params_in_stmt s (SReturn v) = SReturn (map_option (substitute_in_expr s) v)"
| "substitute_params_in_stmt s (SIf i) = SIf (substitute_in_if s i)"
| "substitute_params_in_stmt s (SWhile c b) = SWhile (substitute_in_expr s c) (fst (sub_block s b))"
| "substitute_params_in_stmt s (SFor x iter lim b) = SFor x (substitute_in_expr s iter) (map_option (\<lambda>e. e) lim) (fst (sub_block s b))"
| "substitute_params_in_stmt s (SForRange x a e incl b) = SForRange x (substitute_in_expr s a) (substitute_in_expr s e) incl (fst (sub_block s b))"
| "substitute_params_in_stmt s SBreak = SBreak"
| "substitute_params_in_stmt s SContinue = SContinue"
| "substitute_params_in_stmt s (SExpr e) = SExpr (substitute_in_expr s e)"
| "substitute_params_in_stmt s (SParallel ss) = SParallel (map (substitute_params_in_stmt s) ss)"
| "substitute_params_in_stmt s (SParallelForTo x ix source out b) =
     SParallelForTo x ix (substitute_in_expr s source) (substitute_in_expr s out) (fst (sub_block s b))"
| "substitute_params_in_stmt s (SEmit v) = SEmit (substitute_in_expr s v)"
| "substitute_params_in_stmt s (SDelete target) = SDelete (substitute_in_expr s target)"
| "substitute_params_in_stmt s (SLetTuple ns v) = SLetTuple ns (substitute_in_expr s v)"
| "substitute_params_in_stmt s SPlaceholder = SPlaceholder"
| "substitute_in_if s (IfStmt c b e) = IfStmt (substitute_in_expr s c) (fst (sub_block s b)) (fst (sub_else s e))"
| "sub_else s ElseNone = (ElseNone, ElseNone)"
| "sub_else s (ElseBlock b) = (ElseBlock (fst (sub_block s b)), ElseBlock (snd (sub_block s b)))"
| "sub_else s (ElseIf i) = (ElseIf (substitute_in_if s i), ElseIf (substitute_in_if s i))"
| "substitute_in_expr s (XInt n) = XInt n"
| "substitute_in_expr s (XUInt n) = XUInt n"
| "substitute_in_expr s (XFloat n) = XFloat n"
| "substitute_in_expr s (XI32 n) = XI32 n"
| "substitute_in_expr s (XU32 n) = XU32 n"
| "substitute_in_expr s (XU64 n) = XU64 n"
| "substitute_in_expr s (XU128 n) = XU128 n"
| "substitute_in_expr s (XJsonObject ps) = XJsonObject (map (map_prod id (substitute_in_expr s)) ps)"
| "substitute_in_expr s (XJsonArray es) = XJsonArray (map (substitute_in_expr s) es)"
| "substitute_in_expr s XJsonNull = XJsonNull"
| "substitute_in_expr s (XBool b) = XBool b"
| "substitute_in_expr s (XStr t) = XStr t"
| "substitute_in_expr s (XIdent name) = (case hm_get s name of Some replacement \<Rightarrow> replacement | None \<Rightarrow> XIdent name)"
| "substitute_in_expr s (XBinary bop a b) = XBinary bop (substitute_in_expr s a) (substitute_in_expr s b)"
| "substitute_in_expr s (XUnary uop a) = XUnary uop (substitute_in_expr s a)"
| "substitute_in_expr s (XCall m name args) = XCall m name (map (substitute_in_expr s) args)"
| "substitute_in_expr s (XDynCall t method args v p) = XDynCall t method (map (substitute_in_expr s) args) v p"
| "substitute_in_expr s (XIndex target key) = XIndex (substitute_in_expr s target) (substitute_in_expr s key)"
| "substitute_in_expr s (XArray es) = XArray (map (substitute_in_expr s) es)"
| "substitute_in_expr s (XExplicitLiteral e) = XExplicitLiteral (substitute_in_expr s e)"
| "substitute_in_expr s (XArrayAlloc t e) = XArrayAlloc t (substitute_in_expr s e)"
| "substitute_in_expr s (XReserve e st) = XReserve (substitute_in_expr s e) st"
| "substitute_in_expr s (XStructLit n fs) = XStructLit n (map (map_prod id (substitute_in_expr s)) fs)"
| "substitute_in_expr s (XField e n) = XField (substitute_in_expr s e) n"
| "substitute_in_expr s (XPipe a b) = XPipe (substitute_in_expr s a) (substitute_in_expr s b)"
| "substitute_in_expr s XPrev = XPrev"
| "substitute_in_expr s (XListComp e cs) = XListComp (substitute_in_expr s e) (map (sub_clause s) cs)"
| "substitute_in_expr s (XSetLit es) = XSetLit (map (substitute_in_expr s) es)"
| "substitute_in_expr s (XSetComp e cs) = XSetComp (substitute_in_expr s e) (map (sub_clause s) cs)"
| "substitute_in_expr s (XDictLit ps) = XDictLit (map (map_prod (substitute_in_expr s) (substitute_in_expr s)) ps)"
| "substitute_in_expr s (XDictComp k v cs) = XDictComp (substitute_in_expr s k) (substitute_in_expr s v) (map (sub_clause s) cs)"
| "substitute_in_expr s (XTupleLit es) = XTupleLit (map (substitute_in_expr s) es)"
| "substitute_in_expr s (XTupleIndex e i) = XTupleIndex (substitute_in_expr s e) i"
| "substitute_in_expr s (XEnumCtor en v args) = XEnumCtor en v (map (substitute_in_expr s) args)"
| "substitute_in_expr s (XMatch e arms) = XMatch (substitute_in_expr s e) (map (sub_arm s) arms)"
| "substitute_in_expr s (XBlock b) = XBlock (snd (sub_block s b))"
| "substitute_in_expr s (XIf c b e) = XIf (substitute_in_expr s c) (snd (sub_block s b)) (snd (sub_else s e))"
| "sub_arm s (MatchArm q e) = MatchArm q (substitute_in_expr s e)"
| "sub_clause s (ClFor x e) = ClFor x (substitute_in_expr s e)"
| "sub_clause s (ClIf e) = ClIf (substitute_in_expr s e)"

subsection \<open>Placeholders\<close>

primrec ensure_no_placeholders :: "block \<Rightarrow> bool"
and no_placeholder_stmt :: "stmt \<Rightarrow> bool"
and check_if_for_placeholder :: "if_stmt \<Rightarrow> bool"
and no_placeholder_else :: "else_branch \<Rightarrow> bool" where
  "ensure_no_placeholders (Block ss t) = list_all id (map no_placeholder_stmt ss)"
| "no_placeholder_stmt (SLet name t v) = True"
| "no_placeholder_stmt (SAssign target v) = True"
| "no_placeholder_stmt (SReturn v) = True"
| "no_placeholder_stmt (SIf i) = check_if_for_placeholder i"
| "no_placeholder_stmt (SWhile c b) = ensure_no_placeholders b"
| "no_placeholder_stmt (SFor x iter lim b) = ensure_no_placeholders b"
| "no_placeholder_stmt (SForRange x a e incl b) = True"
| "no_placeholder_stmt SBreak = True"
| "no_placeholder_stmt SContinue = True"
| "no_placeholder_stmt (SExpr e) = True"
| "no_placeholder_stmt (SParallel ss) = True"
| "no_placeholder_stmt (SParallelForTo x ix source out b) = True"
| "no_placeholder_stmt (SEmit v) = True"
| "no_placeholder_stmt (SDelete target) = True"
| "no_placeholder_stmt (SLetTuple ns v) = True"
| "no_placeholder_stmt SPlaceholder = False"
| "check_if_for_placeholder (IfStmt c b e) = (ensure_no_placeholders b \<and> no_placeholder_else e)"
| "no_placeholder_else ElseNone = True"
| "no_placeholder_else (ElseBlock b) = ensure_no_placeholders b"
| "no_placeholder_else (ElseIf i) = check_if_for_placeholder i"

subsection \<open>Expansion\<close>

definition is_placeholder :: "stmt \<Rightarrow> bool" where
  "is_placeholder st = (case st of SPlaceholder \<Rightarrow> True | _ \<Rightarrow> False)"

primrec index_modifiers :: "modifier_decl list \<Rightarrow> (string, modifier_decl) hashmap \<Rightarrow> modifier_error + (string, modifier_decl) hashmap" where
  "index_modifiers [] by_name = Inr by_name"
| "index_modifiers (m # ms) by_name = (if hm_get by_name (md_name m) \<noteq> None then Inl (DuplicateModifier (md_name m))
     else index_modifiers ms (hm_insert (md_name m) m by_name))"

primrec fill :: "(string, expr) hashmap \<Rightarrow> stmt list \<Rightarrow> stmt list \<Rightarrow> bool \<Rightarrow> stmt list \<Rightarrow> stmt list \<times> bool" where
  \<comment> \<open>the loop over the statements of a modifier: \<open>current\<close>, \<open>new_stmts\<close> and \<open>saw_placeholder\<close>\<close>
  "fill subst current new_stmts saw [] = (new_stmts, saw)"
| "fill subst current new_stmts saw (st # sts) = (if is_placeholder st then fill subst current (new_stmts @ current) True sts
     else fill subst current (new_stmts @ [substitute_params_in_stmt subst st]) saw sts)"

definition apply_modifier :: "(string, modifier_decl) hashmap \<Rightarrow> stmt list \<Rightarrow> string \<times> expr list \<Rightarrow> modifier_error + stmt list" where
  "apply_modifier by_name current app = (case hm_get by_name (fst app) of
     None \<Rightarrow> Inl (UnknownModifier (fst app))
   | Some m \<Rightarrow>
      if length (snd app) \<noteq> length (md_params m) then Inl (ModifierArgs (fst app) (length (md_params m)) (length (snd app)))
      else let subst = hm_extend [] (map (\<lambda>(p, a). (pa_name p, a)) (zip (md_params m) (snd app)));
             (new_stmts, saw_placeholder) = fill subst current [] False (b_stmts (md_body m)) in
           if \<not> saw_placeholder then Inl (NoPlaceholder (fst app)) else Inr new_stmts)"

primrec apply_modifiers :: "(string, modifier_decl) hashmap \<Rightarrow> (string \<times> expr list) list \<Rightarrow> stmt list \<Rightarrow> modifier_error + stmt list" where
  "apply_modifiers by_name [] current = Inr current"
| "apply_modifiers by_name (app # apps) current = (case apply_modifier by_name current app of
     Inl e \<Rightarrow> Inl e | Inr new_stmts \<Rightarrow> apply_modifiers by_name apps new_stmts)"

definition no_stray :: "fn_def \<Rightarrow> modifier_error + fn_def" where
  "no_stray f = (if ensure_no_placeholders (fd_body f) then Inr f else Inl StrayPlaceholder)"

definition expand_fn :: "(string, modifier_decl) hashmap \<Rightarrow> fn_def \<Rightarrow> modifier_error + fn_def" where
  "expand_fn by_name f = (if fd_modifiers f = [] then no_stray f
     else (case apply_modifiers by_name (rev (fd_modifiers f)) (b_stmts (fd_body f)) of
       Inl e \<Rightarrow> Inl e
     | Inr current \<Rightarrow> no_stray (f\<lparr>fd_modifiers := [], fd_body := Block current (b_tail (fd_body f))\<rparr>)))"

primrec expand_fns :: "(string, modifier_decl) hashmap \<Rightarrow> fn_def list \<Rightarrow> modifier_error + fn_def list" where
  "expand_fns by_name [] = Inr []"
| "expand_fns by_name (f # fs) = (case expand_fn by_name f of
     Inl e \<Rightarrow> Inl e
   | Inr f' \<Rightarrow> (case expand_fns by_name fs of Inl e \<Rightarrow> Inl e | Inr fs' \<Rightarrow> Inr (f' # fs')))"

definition expand :: "ast_module \<Rightarrow> modifier_error + ast_module" where
  "expand m = (case index_modifiers (am_modifiers m) [] of
     Inl e \<Rightarrow> Inl e
   | Inr by_name \<Rightarrow> (case expand_fns by_name (am_functions m) of Inl e \<Rightarrow> Inl e | Inr fs \<Rightarrow> Inr (m\<lparr>am_functions := fs\<rparr>)))"

end
