(* ===== verification/ModifierProps.thy ===== *)
theory ModifierProps
  imports Modifier
begin

section \<open>Modifier expansion: nesting\<close>

text \<open>
  What the documentation of the pass promises, written down without the tables and loops of the code: the leftmost modifier
  is the outermost one, its body surrounds what the modifiers to its right make of the statements of the function.
\<close>

subsection \<open>Nesting\<close>

definition bound_args :: "modifier_decl \<Rightarrow> expr list \<Rightarrow> (string, expr) hashmap" where
  "bound_args d args = hm_extend [] (map (\<lambda>(p, a). (pa_name p, a)) (zip (md_params d) args))"

definition around :: "modifier_decl \<Rightarrow> expr list \<Rightarrow> stmt list \<Rightarrow> stmt list" where
  "around d args inner = concat (map (\<lambda>st. if is_placeholder st then inner else [substitute_params_in_stmt (bound_args d args) st])
     (b_stmts (md_body d)))"

primrec nested :: "modifier_decl list \<Rightarrow> (string \<times> expr list) list \<Rightarrow> stmt list \<Rightarrow> stmt list option" where
  "nested ds [] ss = Some ss"
| "nested ds (app # apps) ss = (case (List.find (\<lambda>d. md_name d = fst app) ds, nested ds apps ss) of
     (Some d, Some inner) \<Rightarrow> if length (snd app) = length (md_params d) \<and> list_ex is_placeholder (b_stmts (md_body d))
       then Some (around d (snd app) inner) else None
   | _ \<Rightarrow> None)"

definition expands :: "modifier_decl list \<Rightarrow> fn_def \<Rightarrow> fn_def \<Rightarrow> bool" where
  "expands ds f f' \<longleftrightarrow> (\<exists>ss. nested ds (fd_modifiers f) (b_stmts (fd_body f)) = Some ss
     \<and> f' = f\<lparr>fd_modifiers := [], fd_body := Block ss (b_tail (fd_body f))\<rparr> \<and> ensure_no_placeholders (fd_body f'))"

lemma fill_around: "fill s current acc saw sts =
    (acc @ concat (map (\<lambda>st. if is_placeholder st then current else [substitute_params_in_stmt s st]) sts), saw \<or> list_ex is_placeholder sts)"
  by (induction sts arbitrary: acc saw) auto

lemma apply_around: "apply_modifier by_name ss app = Inr out \<longleftrightarrow>
    (\<exists>d. hm_get by_name (fst app) = Some d \<and> length (snd app) = length (md_params d)
      \<and> list_ex is_placeholder (b_stmts (md_body d)) \<and> out = around d (snd app) ss)"
  unfolding apply_modifier_def fill_around around_def bound_args_def Let_def by (auto split: option.splits)

lemma apply_append: "apply_modifiers by_name (xs @ ys) ss = (case apply_modifiers by_name xs ss of Inl e \<Rightarrow> Inl e | Inr out \<Rightarrow> apply_modifiers by_name ys out)"
  by (induction xs arbitrary: ss) (auto split: sum.splits)

lemma index_modifiers_lookup:
  "index_modifiers ds acc = Inr by_name \<Longrightarrow> hm_get by_name n = (case hm_get acc n of Some d \<Rightarrow> Some d | None \<Rightarrow> List.find (\<lambda>d. md_name d = n) ds)"
  by (induction ds arbitrary: acc) (auto split: if_splits option.splits)

lemma index_modifiers_ok:
  "(\<exists>by_name. index_modifiers ds acc = Inr by_name) \<longleftrightarrow> distinct (map md_name ds) \<and> (\<forall>d \<in> set ds. hm_get acc (md_name d) = None)"
proof (induction ds arbitrary: acc)
  case (Cons d ds)
  have "(\<forall>x \<in> set ds. hm_get (hm_insert (md_name d) d acc) (md_name x) = None) \<longleftrightarrow>
      md_name d \<notin> md_name ` set ds \<and> (\<forall>x \<in> set ds. hm_get acc (md_name x) = None)" by (auto simp: image_iff)
  then show ?case by (simp add: Cons.IH) blast
qed simp

lemma apply_nested:
  assumes "index_modifiers ds [] = Inr by_name"
  shows "apply_modifiers by_name (rev apps) ss = Inr out \<longleftrightarrow> nested ds apps ss = Some out"
proof (induction apps arbitrary: out)
  case (Cons app apps)
  have "apply_modifiers by_name (rev (app # apps)) ss = Inr out \<longleftrightarrow>
      (\<exists>inner. nested ds apps ss = Some inner \<and> apply_modifier by_name inner app = Inr out)"
    unfolding rev.simps apply_append Cons.IH [symmetric]
    by (cases "apply_modifiers by_name (rev apps) ss") (simp_all split: sum.splits)
  moreover have "hm_get by_name (fst app) = List.find (\<lambda>d. md_name d = fst app) ds"
    using index_modifiers_lookup [OF assms, of "fst app"] by simp
  ultimately show ?case
    by (cases "nested ds apps ss"; cases "List.find (\<lambda>d. md_name d = fst app) ds") (auto simp: apply_around)
qed simp

lemma expand_fn_nested:
  assumes "index_modifiers ds [] = Inr by_name"
  shows "expand_fn by_name f = Inr f' \<longleftrightarrow> expands ds f f'"
proof (cases "fd_modifiers f")
  case Nil
  then have "f\<lparr>fd_modifiers := [], fd_body := Block (b_stmts (fd_body f)) (b_tail (fd_body f))\<rparr> = f" by (cases "fd_body f") simp
  then show ?thesis using Nil by (auto simp: expand_fn_def expands_def no_stray_def)
next
  case Cons
  then have "fd_modifiers f \<noteq> []" by simp
  then show ?thesis
    by (auto simp: expand_fn_def expands_def no_stray_def apply_nested [OF assms, symmetric] split: sum.splits)
qed

lemma expand_fns_nested:
  assumes "index_modifiers ds [] = Inr by_name"
  shows "expand_fns by_name fs = Inr fs' \<longleftrightarrow> list_all2 (expands ds) fs fs'"
proof (induction fs arbitrary: fs')
  case (Cons f fs)
  have "expands ds f g \<longleftrightarrow> expand_fn by_name f = Inr g" for g by (simp add: expand_fn_nested [OF assms])
  then show ?case by (auto simp: Cons.IH [symmetric] list_all2_Cons1 split: sum.splits)
qed auto

lemma expand_iff:
  "expand m = Inr m' \<longleftrightarrow> distinct (map md_name (am_modifiers m)) \<and> m' = m\<lparr>am_functions := am_functions m'\<rparr>
     \<and> list_all2 (expands (am_modifiers m)) (am_functions m) (am_functions m')"
proof (cases "index_modifiers (am_modifiers m) []")
  case (Inl e)
  then show ?thesis using index_modifiers_ok [of "am_modifiers m" "[]"] by (auto simp: expand_def)
next
  case (Inr by_name)
  then have "distinct (map md_name (am_modifiers m))" using index_modifiers_ok [of "am_modifiers m" "[]"] by simp
  then show ?thesis
    by (auto simp: expand_def Inr expand_fns_nested [OF Inr, symmetric] split: sum.splits)
qed


lemma expands_again: "expands ds f f' \<Longrightarrow> expands ds f' f'"
  by (auto simp: expands_def)

lemma expand_idempotent: "expand m = Inr m' \<Longrightarrow> expand m' = Inr m'"
proof -
  assume "expand m = Inr m'"
  then have *: "distinct (map md_name (am_modifiers m))" "m' = m\<lparr>am_functions := am_functions m'\<rparr>"
    "list_all2 (expands (am_modifiers m)) (am_functions m) (am_functions m')" by (simp_all add: expand_iff)
  have "am_modifiers m' = am_modifiers m" by (subst *(2)) simp
  moreover have "list_all2 (expands (am_modifiers m)) (am_functions m') (am_functions m')"
    using *(3) by (auto simp: list_all2_conv_all_nth intro: expands_again)
  ultimately show "expand m' = Inr m'" using *(1) by (simp add: expand_iff)
qed

subsection \<open>Gaps\<close>

definition guard_decl :: "stmt list \<Rightarrow> expr option \<Rightarrow> modifier_decl" where
  "guard_decl ss t = \<lparr>md_name = ''Guard'', md_params = [\<lparr>pa_name = ''n'', pa_ty = TInt\<rparr>], md_body = Block ss t\<rparr>"

definition guarded_fn :: "stmt list \<Rightarrow> expr option \<Rightarrow> fn_def" where
  "guarded_fn ss t = \<lparr>fd_name = ''main'', fd_params = [], fd_return_type = TInt, fd_body = Block ss t, fd_is_nore = False,
     fd_is_entry = False, fd_is_view = False, fd_is_pure = False, fd_modifiers = [(''Guard'', [XInt 7])]\<rparr>"

definition guarded_module :: "modifier_decl \<Rightarrow> fn_def \<Rightarrow> ast_module" where
  "guarded_module d f = \<lparr>am_name = None, am_imports = [], am_states = [], am_functions = [f], am_structs = [], am_handlers = [],
     am_modifiers = [d], am_enums = [], am_consts = [], am_caps = [], am_interfaces = [], am_indexes = []\<rparr>"

lemma expand_guarded:
  "nested [d] (fd_modifiers f) (b_stmts (fd_body f)) = Some ss \<Longrightarrow> ensure_no_placeholders (Block ss (b_tail (fd_body f))) \<Longrightarrow>
   expand (guarded_module d f) = Inr (guarded_module d (f\<lparr>fd_modifiers := [], fd_body := Block ss (b_tail (fd_body f))\<rparr>))"
  by (simp add: expand_iff guarded_module_def expands_def)

lemmas nest_defs = guard_decl_def guarded_fn_def around_def is_placeholder_def bound_args_def hm_get_def hm_insert_def


end
