(* ===== verification/Prefetch.thy ===== *)
theory Prefetch
  imports Ast
begin

section \<open>Reads to prefetch\<close>

text \<open>
  \<^verbatim>\<open>crates/rend/src/prefetch.rs\<close>: the scan of a loop body for the state maps that are read at the iteration variable, which
  the compiler turns into one \<^verbatim>\<open>PrefetchMap\<close> in front of the loop. A scan is a function of the two accumulators
  \<^verbatim>\<open>found\<close> and \<^verbatim>\<open>seen\<close>; the arguments that every function of the source passes on are the record \<open>pf_ctx\<close>. As in the
  source a block is scanned with and without its trailing expression, here as a pair.
\<close>

record map_read_summary =
  ms_state_name :: string
  ms_param_idx :: nat

record pf_ctx =
  pf_var :: string
  pf_states :: "(string, ty) hashmap"
  pf_summaries :: "(string, map_read_summary) hashmap"

type_synonym found = "string list \<times> string set"
type_synonym scan = "found \<Rightarrow> found"

subsection \<open>Functions that read one map\<close>

definition is_map_state :: "(string, ty) hashmap \<Rightarrow> string \<Rightarrow> bool" where
  "is_map_state states name = (case hm_get states name of Some (TMap _ _) \<Rightarrow> True | _ \<Rightarrow> False)"

primrec position :: "('a \<Rightarrow> bool) \<Rightarrow> 'a list \<Rightarrow> nat option" where
  "position P [] = None"
| "position P (x # xs) = (if P x then Some 0 else map_option Suc (position P xs))"

definition single_map_read :: "fn_def \<Rightarrow> (string, ty) hashmap \<Rightarrow> map_read_summary option" where
  "single_map_read f states = (case b_stmts (fd_body f) of
     [SReturn (Some (XIndex (XIdent state_name) (XIdent key_name)))] \<Rightarrow>
       if is_map_state states state_name
       then map_option (\<lambda>i. \<lparr>ms_state_name = state_name, ms_param_idx = i\<rparr>) (position (\<lambda>p. pa_name p = key_name) (fd_params f))
       else None
   | _ \<Rightarrow> None)"

definition summarize_fns :: "ast_module \<Rightarrow> (string, ty) hashmap \<Rightarrow> (string, map_read_summary) hashmap" where
  "summarize_fns m states = foldl (\<lambda>out f. case single_map_read f states of
     Some s \<Rightarrow> hm_insert (fd_name f) s out | None \<Rightarrow> out) [] (am_functions m)"

subsection \<open>The scan\<close>

definition pf_skip :: scan where
  "pf_skip acc = acc"

definition pf_then :: "scan \<Rightarrow> scan \<Rightarrow> scan" where
  "pf_then a b acc = b (a acc)"

definition pf_seq :: "scan list \<Rightarrow> scan" where
  "pf_seq ss acc = foldl (\<lambda>a s. s a) acc ss"

definition pf_opt :: "scan option \<Rightarrow> scan" where
  "pf_opt s = (case s of None \<Rightarrow> pf_skip | Some k \<Rightarrow> k)"

definition pf_add :: "string \<Rightarrow> scan" where
  "pf_add name acc = (if name \<in> snd acc then acc else (fst acc @ [name], insert name (snd acc)))"

definition direct_read :: "pf_ctx \<Rightarrow> expr \<Rightarrow> expr \<Rightarrow> scan" where
  \<comment> \<open>\<^verbatim>\<open>state_map[iter_var]\<close>\<close>
  "direct_read c target key = (case (target, key) of
     (XIdent state_name, XIdent key_name) \<Rightarrow>
       if key_name = pf_var c \<and> is_map_state (pf_states c) state_name then pf_add state_name else pf_skip
   | _ \<Rightarrow> pf_skip)"

definition call_read :: "pf_ctx \<Rightarrow> string \<Rightarrow> expr list \<Rightarrow> scan" where
  \<comment> \<open>\<^verbatim>\<open>f(iter_var)\<close>\<close>
  "call_read c name args = (case hm_get (pf_summaries c) name of
     Some s \<Rightarrow> if ms_param_idx s < length args
       then (case args ! ms_param_idx s of
           XIdent arg_name \<Rightarrow> if arg_name = pf_var c then pf_add (ms_state_name s) else pf_skip
         | _ \<Rightarrow> pf_skip)
       else pf_skip
   | None \<Rightarrow> pf_skip)"

primrec pf_clauses :: "(scan \<times> bool) list \<Rightarrow> scan" where
  \<comment> \<open>the loop over the clauses returns behind one that binds the iteration variable again\<close>
  "pf_clauses [] = pf_skip"
| "pf_clauses (c # cs) = (if snd c then fst c else pf_then (fst c) (pf_clauses cs))"

primrec sc_block :: "pf_ctx \<Rightarrow> block \<Rightarrow> scan \<times> scan"
and scan_stmt :: "pf_ctx \<Rightarrow> stmt \<Rightarrow> scan"
and scan_if :: "pf_ctx \<Rightarrow> if_stmt \<Rightarrow> scan"
and sc_else :: "pf_ctx \<Rightarrow> else_branch \<Rightarrow> scan \<times> scan"
and scan_expr :: "pf_ctx \<Rightarrow> expr \<Rightarrow> scan"
and sc_arm :: "pf_ctx \<Rightarrow> match_arm \<Rightarrow> scan"
and sc_clause :: "pf_ctx \<Rightarrow> comp_clause \<Rightarrow> scan \<times> bool" where
  "sc_block c (Block ss t) = (let body = pf_seq (map (scan_stmt c) ss) in (body, pf_then body (pf_opt (map_option (scan_expr c) t))))"
| "scan_stmt c (SLet name t v) = scan_expr c v"
| "scan_stmt c (SAssign target v) = pf_then (scan_expr c target) (scan_expr c v)"
| "scan_stmt c (SReturn v) = pf_opt (map_option (scan_expr c) v)"
| "scan_stmt c (SIf i) = scan_if c i"
| "scan_stmt c (SWhile e b) = pf_then (scan_expr c e) (fst (sc_block c b))"
| "scan_stmt c (SFor x iter lim b) = pf_then (scan_expr c iter) (if x \<noteq> pf_var c then fst (sc_block c b) else pf_skip)"
| "scan_stmt c (SForRange x a e incl b) =
     pf_then (pf_then (scan_expr c a) (scan_expr c e)) (if x \<noteq> pf_var c then fst (sc_block c b) else pf_skip)"
| "scan_stmt c SBreak = pf_skip"
| "scan_stmt c SContinue = pf_skip"
| "scan_stmt c (SExpr e) = scan_expr c e"
| "scan_stmt c (SParallel ss) = pf_seq (map (scan_stmt c) ss)"
| "scan_stmt c (SParallelForTo x ix source out b) = pf_then (pf_then (scan_expr c source) (scan_expr c out)) (fst (sc_block c b))"
| "scan_stmt c (SEmit v) = scan_expr c v"
| "scan_stmt c (SDelete target) = scan_expr c target"
| "scan_stmt c (SLetTuple ns v) = scan_expr c v"
| "scan_stmt c SPlaceholder = pf_skip"
| "scan_if c (IfStmt e b el) = pf_then (pf_then (scan_expr c e) (fst (sc_block c b))) (fst (sc_else c el))"
| "sc_else c ElseNone = (pf_skip, pf_skip)"
| "sc_else c (ElseBlock b) = sc_block c b"
| "sc_else c (ElseIf i) = (scan_if c i, scan_if c i)"
| "scan_expr c (XInt n) = pf_skip"
| "scan_expr c (XUInt n) = pf_skip"
| "scan_expr c (XFloat n) = pf_skip"
| "scan_expr c (XI32 n) = pf_skip"
| "scan_expr c (XU32 n) = pf_skip"
| "scan_expr c (XU64 n) = pf_skip"
| "scan_expr c (XU128 n) = pf_skip"
| "scan_expr c (XJsonObject ps) = pf_seq (map snd (map (map_prod id (scan_expr c)) ps))"
| "scan_expr c (XJsonArray es) = pf_seq (map (scan_expr c) es)"
| "scan_expr c XJsonNull = pf_skip"
| "scan_expr c (XBool b) = pf_skip"
| "scan_expr c (XStr s) = pf_skip"
| "scan_expr c (XIdent name) = pf_skip"
| "scan_expr c (XBinary bop a b) = pf_then (scan_expr c a) (scan_expr c b)"
| "scan_expr c (XUnary uop a) = scan_expr c a"
| "scan_expr c (XCall m name args) = pf_then (case m of None \<Rightarrow> call_read c name args | Some _ \<Rightarrow> pf_skip) (pf_seq (map (scan_expr c) args))"
| "scan_expr c (XDynCall t method args v p) = pf_seq (map (scan_expr c) args)"
| "scan_expr c (XIndex target key) = pf_then (direct_read c target key) (pf_then (scan_expr c target) (scan_expr c key))"
| "scan_expr c (XArray es) = pf_seq (map (scan_expr c) es)"
| "scan_expr c (XExplicitLiteral e) = scan_expr c e"
| "scan_expr c (XArrayAlloc t e) = scan_expr c e"
| "scan_expr c (XReserve e st) = scan_expr c e"
| "scan_expr c (XStructLit n fs) = pf_seq (map snd (map (map_prod id (scan_expr c)) fs))"
| "scan_expr c (XField e n) = scan_expr c e"
| "scan_expr c (XPipe a b) = pf_then (scan_expr c a) (scan_expr c b)"
| "scan_expr c XPrev = pf_skip"
| "scan_expr c (XListComp e cs) = pf_then (scan_expr c e) (pf_clauses (map (sc_clause c) cs))"
| "scan_expr c (XSetLit es) = pf_seq (map (scan_expr c) es)"
| "scan_expr c (XSetComp e cs) = pf_then (scan_expr c e) (pf_clauses (map (sc_clause c) cs))"
| "scan_expr c (XDictLit ps) = pf_seq (map (\<lambda>p. pf_then (fst p) (snd p)) (map (map_prod (scan_expr c) (scan_expr c)) ps))"
| "scan_expr c (XDictComp k v cs) = pf_then (pf_then (scan_expr c k) (scan_expr c v)) (pf_clauses (map (sc_clause c) cs))"
| "scan_expr c (XTupleLit es) = pf_seq (map (scan_expr c) es)"
| "scan_expr c (XTupleIndex e i) = scan_expr c e"
| "scan_expr c (XEnumCtor en v args) = pf_seq (map (scan_expr c) args)"
| "scan_expr c (XMatch e arms) = pf_then (scan_expr c e) (pf_seq (map (sc_arm c) arms))"
| "scan_expr c (XBlock b) = snd (sc_block c b)"
| "scan_expr c (XIf e b el) = pf_then (pf_then (scan_expr c e) (snd (sc_block c b))) (snd (sc_else c el))"
| "sc_arm c (MatchArm p e) = scan_expr c e"
| "sc_clause c (ClFor x e) = (scan_expr c e, x = pf_var c)"
| "sc_clause c (ClIf e) = (scan_expr c e, False)"

definition scan_loop_body :: "pf_ctx \<Rightarrow> block \<Rightarrow> string list" where
  "scan_loop_body c body = fst (pf_seq (map (scan_stmt c) (b_stmts body)) ([], {}))"

primrec inner_clauses :: "pf_ctx \<Rightarrow> comp_clause list \<Rightarrow> scan" where
  \<comment> \<open>up to the next \<^verbatim>\<open>for\<close>\<close>
  "inner_clauses c [] = pf_skip"
| "inner_clauses c (cl # cls) = (case cl of ClFor x e \<Rightarrow> scan_expr c e | ClIf e \<Rightarrow> pf_then (scan_expr c e) (inner_clauses c cls))"

definition scan_comp_inner :: "pf_ctx \<Rightarrow> comp_clause list \<Rightarrow> expr list \<Rightarrow> string list" where
  "scan_comp_inner c cls leaves = fst (pf_seq (map (scan_expr c) leaves) (inner_clauses c cls ([], {})))"

subsection \<open>What is found\<close>

definition finds_maps :: "pf_ctx \<Rightarrow> scan \<Rightarrow> bool" where
  \<comment> \<open>\<^verbatim>\<open>seen\<close> is the set of \<^verbatim>\<open>found\<close>, which has no duplicates and only names of state maps\<close>
  "finds_maps c s \<longleftrightarrow> (\<forall>fs. distinct fs \<longrightarrow> list_all (is_map_state (pf_states c)) fs \<longrightarrow>
     (\<exists>fs'. s (fs, set fs) = (fs @ fs', set (fs @ fs')) \<and> distinct (fs @ fs') \<and> list_all (is_map_state (pf_states c)) fs'))"

lemma finds_skip: "finds_maps c pf_skip"
  by (simp add: finds_maps_def pf_skip_def)

lemma finds_then: "finds_maps c a \<Longrightarrow> finds_maps c b \<Longrightarrow> finds_maps c (pf_then a b)"
  unfolding finds_maps_def pf_then_def
proof (intro allI impI)
  fix fs
  assume a: "\<forall>fs. distinct fs \<longrightarrow> list_all (is_map_state (pf_states c)) fs \<longrightarrow>
     (\<exists>fs'. a (fs, set fs) = (fs @ fs', set (fs @ fs')) \<and> distinct (fs @ fs') \<and> list_all (is_map_state (pf_states c)) fs')"
    and b: "\<forall>fs. distinct fs \<longrightarrow> list_all (is_map_state (pf_states c)) fs \<longrightarrow>
     (\<exists>fs'. b (fs, set fs) = (fs @ fs', set (fs @ fs')) \<and> distinct (fs @ fs') \<and> list_all (is_map_state (pf_states c)) fs')"
    and fs: "distinct fs" "list_all (is_map_state (pf_states c)) fs"
  from a fs obtain f1 where 1: "a (fs, set fs) = (fs @ f1, set (fs @ f1))" "distinct (fs @ f1)" "list_all (is_map_state (pf_states c)) f1" by blast
  with b fs obtain f2 where "b (fs @ f1, set (fs @ f1)) = ((fs @ f1) @ f2, set ((fs @ f1) @ f2))" "distinct ((fs @ f1) @ f2)"
    "list_all (is_map_state (pf_states c)) f2" by (metis list_all_append)
  with 1 show "\<exists>fs'. b (a (fs, set fs)) = (fs @ fs', set (fs @ fs')) \<and> distinct (fs @ fs') \<and> list_all (is_map_state (pf_states c)) fs'"
    by (intro exI [of _ "f1 @ f2"]) simp
qed

lemma finds_seq: "(\<And>s. s \<in> set ss \<Longrightarrow> finds_maps c s) \<Longrightarrow> finds_maps c (pf_seq ss)"
proof (induction ss)
  case Nil
  then show ?case by (simp add: finds_maps_def pf_seq_def)
next
  case (Cons s ss)
  have "pf_seq (s # ss) = pf_then s (pf_seq ss)" by (simp add: pf_seq_def pf_then_def fun_eq_iff)
  with Cons show ?case by (simp add: finds_then)
qed

lemma finds_opt: "(\<And>s. s \<in> set_option so \<Longrightarrow> finds_maps c s) \<Longrightarrow> finds_maps c (pf_opt so)"
  by (cases so) (simp_all add: pf_opt_def finds_skip)

lemma finds_add: "is_map_state (pf_states c) name \<Longrightarrow> finds_maps c (pf_add name)"
  by (auto simp: finds_maps_def pf_add_def)

lemma finds_clauses: "(\<And>x. x \<in> set xs \<Longrightarrow> finds_maps c (fst (f x))) \<Longrightarrow> finds_maps c (pf_clauses (map f xs))"
  by (induction xs) (simp_all add: finds_skip finds_then)

lemma single_map_read_maps: "single_map_read f states = Some s \<Longrightarrow> is_map_state states (ms_state_name s)"
  by (auto simp: single_map_read_def split: list.splits stmt.splits option.splits expr.splits if_splits)

lemma summaries_maps: "hm_get (summarize_fns m states) name = Some s \<Longrightarrow> is_map_state states (ms_state_name s)"
proof -
  define add where "add = (\<lambda>out f. case single_map_read f states of Some s \<Rightarrow> hm_insert (fd_name f) s out | None \<Rightarrow> out)"
  define good where "good out \<longleftrightarrow> (\<forall>n s. hm_get out n = Some s \<longrightarrow> is_map_state states (ms_state_name s))"
    for out :: "(string, map_read_summary) hashmap"
  have "good (add out f)" if "good out" for out f
    using that by (auto simp: good_def add_def single_map_read_maps split: option.splits)
  then have "good (foldl add out fs)" if "good out" for out fs using that by (induction fs arbitrary: out) simp_all
  moreover have "good []" by (simp add: good_def)
  ultimately have "good (summarize_fns m states)" by (simp add: summarize_fns_def add_def)
  then show "hm_get (summarize_fns m states) name = Some s \<Longrightarrow> is_map_state states (ms_state_name s)" by (simp add: good_def)
qed

lemma finds_call: "pf_summaries c = summarize_fns m (pf_states c) \<Longrightarrow> finds_maps c (call_read c name args)"
  by (auto simp: call_read_def finds_skip split: option.splits expr.splits intro!: finds_add summaries_maps)

lemma finds_direct: "finds_maps c (direct_read c target key)"
  by (auto simp: direct_read_def finds_skip split: expr.splits intro!: finds_add)

lemmas finds = finds_skip finds_then finds_seq finds_opt finds_clauses finds_direct

lemma walk_finds:
  assumes "pf_summaries c = summarize_fns m (pf_states c)"
  shows "finds_maps c (fst (sc_block c b)) \<and> finds_maps c (snd (sc_block c b))"
    and "finds_maps c (scan_stmt c s)"
    and "finds_maps c (scan_if c i)"
    and "finds_maps c (fst (sc_else c e)) \<and> finds_maps c (snd (sc_else c e))"
    and "finds_maps c (scan_expr c x)"
    and "finds_maps c (sc_arm c a)"
    and "finds_maps c (fst (sc_clause c cl))"
proof (induction b and s and i and e and x and a and cl rule: ast_induct)
  case (XCall q name args)
  then show ?case using finds_call [OF assms] by (auto intro!: finds split: option.splits)
qed (auto simp: Let_def intro!: finds)

text \<open>The scan of a loop body, with the summaries of a module's functions, finds names of state maps, each once.\<close>
lemma prefetch_finds_maps:
  assumes "pf_summaries c = summarize_fns m (pf_states c)"
  shows "distinct (scan_loop_body c b) \<and> list_all (is_map_state (pf_states c)) (scan_loop_body c b)"
proof -
  have "finds_maps c (pf_seq (map (scan_stmt c) (b_stmts b)))" using walk_finds(2) [OF assms] by (intro finds_seq) auto
  then show ?thesis unfolding finds_maps_def scan_loop_body_def by (metis append_Nil distinct.simps(1) fst_conv list.pred_inject(1) list.set(1))
qed

lemma prefetch_comp_finds_maps:
  assumes "pf_summaries c = summarize_fns m (pf_states c)"
  shows "distinct (scan_comp_inner c cls leaves) \<and> list_all (is_map_state (pf_states c)) (scan_comp_inner c cls leaves)"
proof -
  have "finds_maps c (inner_clauses c cls)"
    by (induction cls) (auto simp: finds_skip walk_finds(5) [OF assms] intro!: finds_then split: comp_clause.split)
  moreover have "finds_maps c (pf_seq (map (scan_expr c) leaves))" using walk_finds(5) [OF assms] by (intro finds_seq) auto
  ultimately have "finds_maps c (pf_then (inner_clauses c cls) (pf_seq (map (scan_expr c) leaves)))" by (rule finds_then)
  then show ?thesis unfolding finds_maps_def scan_comp_inner_def pf_then_def
    by (metis append_Nil distinct.simps(1) fst_conv list.pred_inject(1) list.set(1))
qed

end
