(* ===== verification/Spec2Isabelle.thy ===== *)
theory Spec2Isabelle
  imports PBTreeMap PMapProps PVecProps Gc PMapMerge Occ ArtifactProps OpsProps LexerProps VmProps OptimizeRun EffectsProps AffineProps ModifierProps Prefetch
begin

text \<open>Verification library of the rend storage core.\<close>

end
